(* ===== verification/Prelude.thy ===== *)
theory Prelude
  imports Main "HOL-Library.Multiset" "HOL-Library.Char_ord" "HOL-Library.List_Lexorder"
begin

text \<open>
  Shared vocabulary of the development: pointers, the byte-string operations of
  the C++ standard library the program uses (suffix and prefix tests, substring
  search, lower-casing, trimming, splitting), and generic facts on lists and
  maps.  Pointers into the program's object graphs (nodes, threads, functions,
  locks) are natural numbers; 0 is the null pointer, which the code tests for.
  Unordered containers whose iteration order the code can observe are lists in
  that order, so a theorem holds for every order the container may pick.
\<close>

named_theorems lace_defs \<open>definitions unfolded by the component proofs\<close>
named_theorems lace_split \<open>case splits on the result of the program's operations\<close>

type_synonym ptr = nat

abbreviation (input) null :: ptr where "null \<equiv> 0"

subsection \<open>Strings\<close>

definition endsWith :: "string \<Rightarrow> string \<Rightarrow> bool" where
  "endsWith s suffix \<longleftrightarrow>
     length suffix \<le> length s \<and> drop (length s - length suffix) s = suffix"

definition startsWith :: "string \<Rightarrow> string \<Rightarrow> bool" where
  "startsWith s prefix \<longleftrightarrow> take (length prefix) s = prefix"

fun contains :: "string \<Rightarrow> string \<Rightarrow> bool" where
  "contains [] t = (t = [])"
| "contains (c # s) t = (startsWith (c # s) t \<or> contains s t)"

definition lower :: "char \<Rightarrow> char" where
  "lower c = (let n = (of_char c :: nat) in
              if 65 \<le> n \<and> n \<le> 90 then char_of (n + 32) else c)"

definition toLower :: "string \<Rightarrow> string" where
  "toLower s = map lower s"

text \<open>Code equations with which the string tests evaluate quickly.\<close>

lemma startsWith_code [code]:
  "startsWith s [] = True" "startsWith [] (c # t) = False"
  "startsWith (d # s) (c # t) = (d = c \<and> startsWith s t)"
  by (auto simp: startsWith_def)

lemma lower_code [code]:
  "lower (Char b0 b1 b2 b3 b4 b5 b6 b7) =
     (if \<not> b7 \<and> b6 \<and> \<not> b5 \<and> (b0 \<or> b1 \<or> b2 \<or> b3 \<or> b4) \<and> \<not> (b4 \<and> b3 \<and> (b2 \<or> b1 \<and> b0))
      then Char b0 b1 b2 b3 b4 True b6 b7 else Char b0 b1 b2 b3 b4 b5 b6 b7)"
  by (cases b0; cases b1; cases b2; cases b3; cases b4; cases b5; cases b6; cases b7)
    (simp_all add: lower_def Let_def char_of_def bit_0)

lemma endsWith_iff: "endsWith s t \<longleftrightarrow> (\<exists>a. s = a @ t)"
  by (auto simp: endsWith_def) (metis append_take_drop_id)

lemma startsWith_iff: "startsWith s t \<longleftrightarrow> (\<exists>b. s = t @ b)"
  by (auto simp: startsWith_def) (metis append_take_drop_id)

lemma contains_iff: "contains s t \<longleftrightarrow> (\<exists>a b. s = a @ t @ b)"
proof (induction s)
  case Nil then show ?case by simp
next
  case (Cons c s)
  show ?case (is "?l = ?r")
  proof
    assume ?l
    then consider "startsWith (c # s) t" | "contains s t" by auto
    then show ?r
    proof cases
      case 1
      then show ?thesis by (metis append_Nil startsWith_iff)
    next
      case 2
      then obtain a b where "s = a @ t @ b" using Cons.IH by blast
      then show ?thesis by (metis append_Cons)
    qed
  next
    assume ?r
    then obtain a b where ab: "c # s = a @ t @ b" by blast
    show ?l
    proof (cases a)
      case Nil
      then have "startsWith (c # s) t" using ab unfolding startsWith_iff by auto
      then show ?thesis by simp
    next
      case (Cons d a')
      then have "s = a' @ t @ b" using ab by simp
      then show ?thesis using \<open>contains s t \<longleftrightarrow> (\<exists>a b. s = a @ t @ b)\<close> by auto
    qed
  qed
qed

lemma endsWith_last:
  assumes "endsWith s t" "t \<noteq> []" shows "s \<noteq> []" "last s = last t"
  using assms by (auto simp: endsWith_iff)

lemma endsWith_refl [simp]: "endsWith s s"
  by (simp add: endsWith_def)

lemma endsWith_linear:
  assumes "endsWith s t" "endsWith s u" "length t \<le> length u"
  shows "endsWith u t"
proof -
  obtain a b where s: "s = a @ t" "s = b @ u"
    using assms(1,2) unfolding endsWith_iff by blast
  then have eq: "a @ t = b @ u" by simp
  then consider c where "a = b @ c" "c @ t = u" | c where "a @ c = b" "t = c @ u"
    unfolding append_eq_append_conv2 by blast
  then show ?thesis
  proof cases
    case 1 then show ?thesis by (auto simp: endsWith_iff)
  next
    case 2
    with assms(3) have "c = []" by simp
    with 2 show ?thesis by simp
  qed
qed

lemma toLower_length [simp]: "length (toLower s) = length s"
  by (simp add: toLower_def)

lemma lower_idem [simp]: "lower (lower c) = lower c"
  by (auto simp: lower_def Let_def)

lemma toLower_idem [simp]: "toLower (toLower s) = toLower s"
  by (simp add: toLower_def)

subsection \<open>Numbers as text and ordered maps\<close>

fun digitsOf :: "nat \<Rightarrow> nat \<Rightarrow> string" where
  "digitsOf 0 n = []"
| "digitsOf (Suc k) n = (if n < 10 then [char_of (48 + n)] else digitsOf k (n div 10) @ [char_of (48 + n mod 10)])"

definition to_string :: "nat \<Rightarrow> string" where "to_string n = digitsOf (Suc n) n"

definition int_to_string :: "int \<Rightarrow> string" where
  "int_to_string i = (if i < 0 then CHR ''-'' # to_string (nat (- i)) else to_string (nat i))"

text \<open>The ordered map of the C++ library: an association list with increasing keys.\<close>

fun mapSet :: "'k::linorder \<Rightarrow> 'v \<Rightarrow> ('k \<times> 'v) list \<Rightarrow> ('k \<times> 'v) list" where
  "mapSet k v [] = [(k, v)]"
| "mapSet k v ((k', v') # m) =
     (if k < k' then (k, v) # (k', v') # m
      else if k = k' then (k, v) # m
      else (k', v') # mapSet k v m)"

lemma map_of_mapSet [simp]: "map_of (mapSet k v m) = (map_of m)(k \<mapsto> v)"
  by (induction k v m rule: mapSet.induct) auto

lemma mapSet_keys: "fst ` set (mapSet k v m) = insert k (fst ` set m)"
  by (induction k v m rule: mapSet.induct) auto

lemma mapSet_sorted: "sorted_wrt (<) (map fst m) \<Longrightarrow> sorted_wrt (<) (map fst (mapSet k v m))"
proof (induction k v m rule: mapSet.induct)
  case (2 k v k' v' m)
  have k: "\<forall>x \<in> fst ` set (mapSet k v m). x = k \<or> x \<in> fst ` set m" by (simp add: mapSet_keys)
  have s: "sorted_wrt (<) (map fst m)" "\<forall>x \<in> fst ` set m. k' < x" using 2(2) by auto
  show ?case
  proof (cases "k < k' \<or> k = k'")
    case True with s show ?thesis by auto
  next
    case False
    then have "k' < k" by auto
    have "k' < x" if "x \<in> fst ` set (mapSet k v m)" for x
    proof -
      from that k have "x = k \<or> x \<in> fst ` set m" by (rule bspec[rotated])
      with s(2) \<open>k' < k\<close> show ?thesis by (elim disjE) (simp, rule bspec)
    qed
    with 2(1) s False show ?thesis by simp
  qed
qed auto

subsection \<open>Lists\<close>

text \<open>Deduplication that keeps first occurrences: a scan with a set of seen values.\<close>

definition dedupFirst :: "'a list \<Rightarrow> 'a list" where
  "dedupFirst xs = rev (remdups (rev xs))"

lemma dedupFirst_set [simp]: "set (dedupFirst xs) = set xs"
  by (simp add: dedupFirst_def)

lemma dedupFirst_distinct [simp]: "distinct (dedupFirst xs)"
  by (simp add: dedupFirst_def)

lemma find_None_set: "List.find P xs = None \<longleftrightarrow> (\<forall>x \<in> set xs. \<not> P x)"
  by (induction xs) auto

lemma find_Some_set: "List.find P xs = Some x \<Longrightarrow> x \<in> set xs \<and> P x"
  by (induction xs) (auto split: if_splits)

lemma sorted_wrt_append_snoc:
  "sorted_wrt P (xs @ [x]) \<longleftrightarrow> sorted_wrt P xs \<and> (\<forall>y \<in> set xs. P y x)"
  by (auto simp: sorted_wrt_append)

lemma map_of_keys_some:
  "k \<in> fst ` set xs \<longleftrightarrow> (\<exists>v. map_of xs k = Some v)"
  by (metis domIff dom_map_of_conv_image_fst option.exhaust option.distinct(1))

end
