(* ===== verification/ThreadApi.thy ===== *)
theory ThreadApi
  imports Prelude
begin

text \<open>
  CPG nodes (include/CPG/Node.h) and the classification of call nodes by the
  thread-API table (include/CCPG/ThreadAPIUtil.h, src/CCPG/ThreadAPIUtil.cpp).
  A CPG node is a record of its type, its property map and the number of its
  outgoing control-flow edges.  The API utility is a singleton with two maps,
  the record \<open>thread_api_util\<close>; its dynamic additions are state updates.
\<close>

subsection \<open>CPG nodes\<close>

record cpg_node =
  cpg_type :: string
  cpg_properties :: "string \<Rightarrow> string option"
  cpg_outCFG :: nat

fun capitalise :: "string \<Rightarrow> string" where
  "capitalise [] = []"
| "capitalise (c # s) =
     (let n = (of_char c :: nat) in if 97 \<le> n \<and> n \<le> 122 then char_of (n - 32) else c) # toLower s"

definition mkNode :: "string \<Rightarrow> (string \<Rightarrow> string option) \<Rightarrow> nat \<Rightarrow> cpg_node" where
  "mkNode type_upper props cfg =
     \<lparr>cpg_type = capitalise type_upper, cpg_properties = props, cpg_outCFG = cfg\<rparr>"

definition getType_cpg :: "cpg_node \<Rightarrow> string" where
  "getType_cpg n = cpg_type n"

definition getProperty :: "cpg_node \<Rightarrow> string \<Rightarrow> string" where
  "getProperty n key = (case cpg_properties n key of Some v \<Rightarrow> v | None \<Rightarrow> [])"

definition getCode :: "cpg_node \<Rightarrow> string" where
  "getCode n = getProperty n ''CODE''"

definition getFileName :: "cpg_node \<Rightarrow> string" where
  "getFileName n = getProperty n ''FILENAME''"

definition getName :: "cpg_node \<Rightarrow> string" where
  "getName n = getProperty n ''NAME''"

text \<open>The callee's name with everything from the first colon on cut off.\<close>

definition getMethodFullName :: "cpg_node \<Rightarrow> string" where
  "getMethodFullName n = takeWhile (\<lambda>c. c \<noteq> CHR '':'') (getProperty n ''METHOD_FULL_NAME'')"

text \<open>
  \<open>std::stoi\<close>: leading white space and a sign are accepted, then at least
  one digit, and trailing text is ignored; no digit and a value outside 32 bits
  are the two exceptions it throws.
\<close>

datatype 'a result = Ok 'a | Throw

definition isDigit :: "char \<Rightarrow> bool" where
  "isDigit c = (let n = (of_char c :: nat) in 48 \<le> n \<and> n \<le> 57)"

definition isSpace :: "char \<Rightarrow> bool" where
  "isSpace c = (let n = (of_char c :: nat) in n = 32 \<or> 9 \<le> n \<and> n \<le> 13)"

definition digitsVal :: "string \<Rightarrow> int" where
  "digitsVal ds = foldl (\<lambda>a c. 10 * a + int (of_char c - 48)) 0 ds"

definition stoi :: "string \<Rightarrow> int result" where
  "stoi s =
     (let t = dropWhile isSpace s;
          neg = (t \<noteq> [] \<and> hd t = CHR ''-'');
          u = (if t \<noteq> [] \<and> (hd t = CHR ''-'' \<or> hd t = CHR ''+'') then tl t else t);
          ds = takeWhile isDigit u;
          v = (if neg then - digitsVal ds else digitsVal ds)
      in if ds = [] \<or> v < -(2 ^ 31) \<or> 2 ^ 31 \<le> v then Throw else Ok v)"

definition getLineNumber :: "cpg_node \<Rightarrow> int result" where
  "getLineNumber n =
     (case cpg_properties n ''LINE_NUMBER'' of
        None \<Rightarrow> Ok (-1)
      | Some v \<Rightarrow> if v = [] then Ok (-1) else stoi v)"

definition getLineNumberEnd :: "cpg_node \<Rightarrow> int result" where
  "getLineNumberEnd n =
     (case cpg_properties n ''LINE_NUMBER_END'' of None \<Rightarrow> Ok (-1) | Some v \<Rightarrow> stoi v)"

definition getColumnNumber :: "cpg_node \<Rightarrow> int result" where
  "getColumnNumber n =
     (case cpg_properties n ''COLUMN_NUMBER'' of None \<Rightarrow> Ok (-1) | Some v \<Rightarrow> stoi v)"

definition getArgumentIndex :: "cpg_node \<Rightarrow> int result" where
  "getArgumentIndex n =
     (case cpg_properties n ''ARGUMENT_INDEX'' of None \<Rightarrow> Ok (-1) | Some v \<Rightarrow> stoi v)"

subsection \<open>The API table\<close>

datatype api_type =
    DUMMY | FORK | JOIN | DETACH | ACQUIRE | TRY_ACQUIRE
  | RELEASE | EXIT | CANCEL | COND_WAIT | COND_SIGNAL | COND_BROADCAST
  | MUTEX_INI | MUTEX_DESTROY | CONDVAR_INI | CONDVAR_DESTROY | BAR_INIT | BAR_WAIT
  | ASSIGNMENT | OTHER_CALL | BRANCH | LOOP | OBJECT_INIT | GOTO
  | GOTOTARGET | CONTROLSTRUCTURE | RETURN | GLOBAL | HARE_PAR_FOR

primrec getTypeString :: "api_type \<Rightarrow> string" where
  "getTypeString DUMMY = ''DUMMY''"
| "getTypeString FORK = ''FORK''"
| "getTypeString JOIN = ''JOIN''"
| "getTypeString DETACH = ''DETACH''"
| "getTypeString ACQUIRE = ''ACQUIRE''"
| "getTypeString TRY_ACQUIRE = ''TRY_ACQUIRE''"
| "getTypeString RELEASE = ''RELEASE''"
| "getTypeString EXIT = ''EXIT''"
| "getTypeString CANCEL = ''CANCEL''"
| "getTypeString COND_WAIT = ''COND_WAIT''"
| "getTypeString COND_SIGNAL = ''COND_SIGNAL''"
| "getTypeString COND_BROADCAST = ''COND_BROADCAST''"
| "getTypeString MUTEX_INI = ''MUTEX_INI''"
| "getTypeString MUTEX_DESTROY = ''MUTEX_DESTROY''"
| "getTypeString CONDVAR_INI = ''CONDVAR_INI''"
| "getTypeString CONDVAR_DESTROY = ''CONDVAR_DESTROY''"
| "getTypeString BAR_INIT = ''BAR_INIT''"
| "getTypeString BAR_WAIT = ''BAR_WAIT''"
| "getTypeString ASSIGNMENT = ''ASSIGNMENT''"
| "getTypeString OTHER_CALL = ''OTHER_CALL''"
| "getTypeString BRANCH = ''BRANCH''"
| "getTypeString LOOP = ''LOOP''"
| "getTypeString OBJECT_INIT = ''OBJECT_INIT''"
| "getTypeString GOTO = ''GOTO''"
| "getTypeString GOTOTARGET = ''GOTO_TARGET''"
| "getTypeString CONTROLSTRUCTURE = ''CONTROLSTRUCTURE''"
| "getTypeString RETURN = ''RETURN''"
| "getTypeString GLOBAL = ''Unknown Type''"
| "getTypeString HARE_PAR_FOR = ''HARE_PAR_FOR''"

record thread_api_util =
  threadAPIMap :: "string \<Rightarrow> api_type option"
  entryArgIndexMap :: "string \<Rightarrow> int list option"

definition callNameToTypePairs :: "(string \<times> api_type) list" where
  "callNameToTypePairs =
    [(''celixThread_create'', FORK), (''pthread_create'', FORK),
     (''apr_thread_create'', FORK), (''vdbeSorterCreateThread'', FORK),
     (''MtSync_Create'', FORK), (''StartThread'', FORK), (''Schedule'', FORK),
     (''kthread_create'', FORK), (''kthread_create_on_node'', FORK),
     (''kthread_create_on_cpu'', FORK), (''kthread_run'', FORK),
     (''kthread_create_worker'', FORK), (''kthread_create_worker_on_cpu'', FORK),
     (''queue_work'', FORK), (''queue_work_on'', FORK), (''queue_delayed_work'', FORK),
     (''queue_delayed_work_on'', FORK), (''schedule_work'', FORK),
     (''schedule_delayed_work'', FORK), (''mod_delayed_work'', FORK), (''flush_work'', JOIN),
     (''flush_delayed_work'', JOIN), (''cancel_work_sync'', JOIN),
     (''cancel_delayed_work_sync'', JOIN), (''tasklet_schedule'', FORK),
     (''tasklet_hi_schedule'', FORK), (''tasklet_kill'', JOIN), (''tasklet_disable'', JOIN),
     (''mod_timer'', FORK), (''add_timer'', FORK), (''del_timer_sync'', JOIN),
     (''timer_delete_sync'', JOIN), (''call_rcu'', FORK), (''call_srcu'', FORK),
     (''synchronize_rcu'', JOIN), (''synchronize_srcu'', JOIN), (''rcu_barrier'', JOIN),
     (''request_irq'', FORK), (''request_threaded_irq'', FORK), (''free_irq'', JOIN),
     (''complete'', COND_SIGNAL), (''complete_all'', COND_BROADCAST),
     (''wait_for_completion'', COND_WAIT), (''wait_for_completion_timeout'', COND_WAIT),
     (''wait_for_completion_interruptible'', COND_WAIT), (''pthread_join'', JOIN),
     (''pthread_cancel'', JOIN), (''vdbeSorterJoinThread'', JOIN),
     (''MtSync_Destruct'', JOIN), (''kthread_stop'', JOIN), (''pthread_mutex_lock'', ACQUIRE),
     (''pthread_rwlock_rdlock'', ACQUIRE), (''pthread_rwlock_wrlock'', ACQUIRE),
     (''sem_wait'', ACQUIRE), (''_spin_lock'', ACQUIRE), (''release_'', ACQUIRE),
     (''SRE_SplSpecLockEx'', ACQUIRE), (''mutex_lock'', ACQUIRE),
     (''mutex_lock_nested'', ACQUIRE), (''mutex_lock_interruptible'', ACQUIRE),
     (''mutex_lock_interruptible_nested'', ACQUIRE), (''mutex_lock_killable'', ACQUIRE),
     (''mutex_lock_killable_nested'', ACQUIRE), (''mutex_lock_io'', ACQUIRE),
     (''ww_mutex_lock'', ACQUIRE), (''ww_mutex_lock_interruptible'', ACQUIRE),
     (''spin_lock'', ACQUIRE), (''spin_lock_nested'', ACQUIRE), (''spin_lock_irq'', ACQUIRE),
     (''spin_lock_irqsave'', ACQUIRE), (''spin_lock_irqsave_nested'', ACQUIRE),
     (''spin_lock_bh'', ACQUIRE), (''_raw_spin_lock'', ACQUIRE),
     (''_raw_spin_lock_irq'', ACQUIRE), (''_raw_spin_lock_irqsave'', ACQUIRE),
     (''_raw_spin_lock_bh'', ACQUIRE), (''raw_spin_lock'', ACQUIRE),
     (''raw_spin_lock_irq'', ACQUIRE), (''raw_spin_lock_irqsave'', ACQUIRE),
     (''raw_spin_lock_bh'', ACQUIRE), (''read_lock'', ACQUIRE), (''read_lock_irq'', ACQUIRE),
     (''read_lock_irqsave'', ACQUIRE), (''read_lock_bh'', ACQUIRE), (''write_lock'', ACQUIRE),
     (''write_lock_irq'', ACQUIRE), (''write_lock_irqsave'', ACQUIRE),
     (''write_lock_bh'', ACQUIRE), (''down'', ACQUIRE), (''down_interruptible'', ACQUIRE),
     (''down_killable'', ACQUIRE), (''down_read'', ACQUIRE),
     (''down_read_interruptible'', ACQUIRE), (''down_read_killable'', ACQUIRE),
     (''down_read_nested'', ACQUIRE), (''down_write'', ACQUIRE),
     (''down_write_killable'', ACQUIRE), (''down_write_nested'', ACQUIRE),
     (''rcu_read_lock'', ACQUIRE), (''rcu_read_lock_bh'', ACQUIRE),
     (''rcu_read_lock_sched'', ACQUIRE), (''rcu_read_lock_sched_notrace'', ACQUIRE),
     (''srcu_read_lock'', ACQUIRE), (''srcu_read_lock_nmisafe'', ACQUIRE),
     (''local_bh_disable'', ACQUIRE), (''local_irq_disable'', ACQUIRE),
     (''local_irq_save'', ACQUIRE), (''preempt_disable'', ACQUIRE),
     (''preempt_disable_notrace'', ACQUIRE), (''get_online_cpus'', ACQUIRE),
     (''cpus_read_lock'', ACQUIRE), (''rtnl_lock'', ACQUIRE),
     (''netlink_lock_table'', ACQUIRE), (''seq_spin_lock'', ACQUIRE),
     (''write_seqlock'', ACQUIRE), (''write_seqlock_irq'', ACQUIRE),
     (''write_seqlock_irqsave'', ACQUIRE), (''write_seqlock_bh'', ACQUIRE),
     (''read_seqlock_excl'', ACQUIRE), (''raw_read_seqcount_begin'', ACQUIRE),
     (''bit_spin_lock'', ACQUIRE), (''pthread_mutex_trylock'', TRY_ACQUIRE),
     (''mutex_trylock'', TRY_ACQUIRE), (''spin_trylock'', TRY_ACQUIRE),
     (''spin_trylock_irq'', TRY_ACQUIRE), (''spin_trylock_irqsave'', TRY_ACQUIRE),
     (''spin_trylock_bh'', TRY_ACQUIRE), (''raw_spin_trylock'', TRY_ACQUIRE),
     (''_raw_spin_trylock'', TRY_ACQUIRE), (''read_trylock'', TRY_ACQUIRE),
     (''write_trylock'', TRY_ACQUIRE), (''down_trylock'', TRY_ACQUIRE),
     (''down_read_trylock'', TRY_ACQUIRE), (''down_write_trylock'', TRY_ACQUIRE),
     (''rtnl_trylock'', TRY_ACQUIRE), (''ww_mutex_trylock'', TRY_ACQUIRE),
     (''pthread_mutex_unlock'', RELEASE), (''possess_'', RELEASE),
     (''pthread_rwlock_unlock'', RELEASE), (''sem_post'', RELEASE),
     (''_spin_unlock'', RELEASE), (''SRE_SplSpecUnlockEx'', RELEASE),
     (''mutex_unlock'', RELEASE), (''ww_mutex_unlock'', RELEASE), (''spin_unlock'', RELEASE),
     (''spin_unlock_irq'', RELEASE), (''spin_unlock_irqrestore'', RELEASE),
     (''spin_unlock_bh'', RELEASE), (''_raw_spin_unlock'', RELEASE),
     (''_raw_spin_unlock_irq'', RELEASE), (''_raw_spin_unlock_irqrestore'', RELEASE),
     (''_raw_spin_unlock_bh'', RELEASE), (''raw_spin_unlock'', RELEASE),
     (''raw_spin_unlock_irq'', RELEASE), (''raw_spin_unlock_irqrestore'', RELEASE),
     (''raw_spin_unlock_bh'', RELEASE), (''read_unlock'', RELEASE),
     (''read_unlock_irq'', RELEASE), (''read_unlock_irqrestore'', RELEASE),
     (''read_unlock_bh'', RELEASE), (''write_unlock'', RELEASE),
     (''write_unlock_irq'', RELEASE), (''write_unlock_irqrestore'', RELEASE),
     (''write_unlock_bh'', RELEASE), (''up'', RELEASE), (''up_read'', RELEASE),
     (''up_write'', RELEASE), (''rcu_read_unlock'', RELEASE),
     (''rcu_read_unlock_bh'', RELEASE), (''rcu_read_unlock_sched'', RELEASE),
     (''rcu_read_unlock_sched_notrace'', RELEASE), (''srcu_read_unlock'', RELEASE),
     (''srcu_read_unlock_nmisafe'', RELEASE), (''local_bh_enable'', RELEASE),
     (''local_irq_enable'', RELEASE), (''local_irq_restore'', RELEASE),
     (''preempt_enable'', RELEASE), (''preempt_enable_notrace'', RELEASE),
     (''put_online_cpus'', RELEASE), (''cpus_read_unlock'', RELEASE),
     (''rtnl_unlock'', RELEASE), (''netlink_unlock_table'', RELEASE),
     (''seq_spin_unlock'', RELEASE), (''write_sequnlock'', RELEASE),
     (''write_sequnlock_irq'', RELEASE), (''write_sequnlock_irqrestore'', RELEASE),
     (''write_sequnlock_bh'', RELEASE), (''read_sequnlock_excl'', RELEASE),
     (''bit_spin_unlock'', RELEASE), (''pthread_exit'', EXIT), (''pthread_detach'', DETACH),
     (''kthread_exit'', EXIT), (''pthread_cond_wait'', COND_WAIT),
     (''pthread_cond_signal'', COND_SIGNAL), (''pthread_cond_broadcast'', COND_BROADCAST),
     (''pthread_cond_init'', CONDVAR_INI), (''pthread_cond_destroy'', CONDVAR_DESTROY),
     (''wait_event'', COND_WAIT), (''wait_event_interruptible'', COND_WAIT),
     (''wait_event_timeout'', COND_WAIT), (''wake_up'', COND_SIGNAL),
     (''wake_up_all'', COND_BROADCAST), (''wake_up_interruptible'', COND_SIGNAL),
     (''wake_up_interruptible_all'', COND_BROADCAST), (''pthread_mutex_init'', MUTEX_INI),
     (''pthread_mutex_destroy'', MUTEX_DESTROY), (''mutex_init'', MUTEX_INI),
     (''mutex_destroy'', MUTEX_DESTROY), (''spin_lock_init'', MUTEX_INI),
     (''pthread_barrier_init'', BAR_INIT), (''pthread_barrier_wait'', BAR_WAIT),
     (''hare_parallel_for'', HARE_PAR_FOR), (''0'', DUMMY)]"

text \<open>The loop stops at the sentinel entry named 0.\<close>

definition api_init :: "string \<Rightarrow> api_type option" where
  "api_init = foldl (\<lambda>m (api, t). m(api \<mapsto> t)) (\<lambda>_. None)
     (takeWhile (\<lambda>(api, t). api \<noteq> ''0'') callNameToTypePairs)"

definition initEntryArgIndices :: "string \<Rightarrow> int list option" where
  "initEntryArgIndices = foldl (\<lambda>m (api, is). m(api \<mapsto> is)) (\<lambda>_. None)
    [(''pthread_create'', [3]), (''celixThread_create'', [3]), (''apr_thread_create'', [3]),
     (''kthread_create'', [1]), (''kthread_create_on_node'', [1]), (''kthread_create_on_cpu'', [1]),
     (''kthread_run'', [1]), (''kthread_create_worker'', [1]), (''kthread_create_worker_on_cpu'', [2]),
     (''INIT_WORK'', [2]), (''INIT_DELAYED_WORK'', [2]), (''queue_work'', [2]),
     (''queue_delayed_work'', [3]), (''schedule_work'', [1]), (''schedule_delayed_work'', [1]),
     (''tasklet_init'', [2]), (''tasklet_setup'', [2]), (''timer_setup'', [2]),
     (''setup_timer'', [2]), (''call_rcu'', [2]), (''call_srcu'', [3]),
     (''request_irq'', [2]), (''request_threaded_irq'', [2, 3]), (''StartThread'', [1]),
     (''Schedule'', [1]), (''vdbeSorterCreateThread'', [2])]"

definition newThreadAPIUtil :: thread_api_util where
  "newThreadAPIUtil = \<lparr>threadAPIMap = api_init, entryArgIndexMap = initEntryArgIndices\<rparr>"

definition addDynamicAPI :: "string \<Rightarrow> api_type \<Rightarrow> thread_api_util \<Rightarrow> thread_api_util" where
  "addDynamicAPI apiName t u = u\<lparr>threadAPIMap := (threadAPIMap u)(apiName \<mapsto> t)\<rparr>"

definition hasAPI :: "thread_api_util \<Rightarrow> string \<Rightarrow> bool" where
  "hasAPI u apiName \<longleftrightarrow> threadAPIMap u apiName \<noteq> None"

definition addEntryArgIndex :: "string \<Rightarrow> int list \<Rightarrow> thread_api_util \<Rightarrow> thread_api_util" where
  "addEntryArgIndex apiName indices u =
     u\<lparr>entryArgIndexMap := (entryArgIndexMap u)(apiName \<mapsto> indices)\<rparr>"

definition getEntryFunctionArgIndices :: "thread_api_util \<Rightarrow> string \<Rightarrow> int list" where
  "getEntryFunctionArgIndices u apiName =
     (case entryArgIndexMap u apiName of Some v \<Rightarrow> v | None \<Rightarrow> [3, 1, 2])"

subsection \<open>Lock wrappers recognised by name\<close>

definition lockSuffixes :: "string list" where
  "lockSuffixes = [''_lock'', ''_lock_irq'', ''_lock_irqsave'', ''_lock_bh'', ''_lock_nested'',
     ''_rlock'', ''_wlock'']"

definition unlockSuffixes :: "string list" where
  "unlockSuffixes = [''_unlock'', ''_unlock_irq'', ''_unlock_irqrestore'', ''_unlock_bh'',
     ''_runlock'', ''_wunlock'']"

definition tryLockSuffixes :: "string list" where
  "tryLockSuffixes = [''_trylock'', ''_trylock_irq'', ''_trylock_irqsave'', ''_trylock_bh'']"

definition isLockWrapperByName :: "string \<Rightarrow> bool" where
  "isLockWrapperByName name =
     list_ex (\<lambda>sfx. endsWith name sfx \<and> length sfx < length name \<and>
                    \<not> (name = ''clock'' \<or> name = ''flock'')) lockSuffixes"

definition isUnlockWrapperByName :: "string \<Rightarrow> bool" where
  "isUnlockWrapperByName name =
     list_ex (\<lambda>sfx. endsWith name sfx \<and> length sfx < length name) unlockSuffixes"

definition isTryLockWrapperByName :: "string \<Rightarrow> bool" where
  "isTryLockWrapperByName name =
     list_ex (\<lambda>sfx. endsWith name sfx \<and> length sfx < length name) tryLockSuffixes"

subsection \<open>Node predicates\<close>

definition isFork :: "thread_api_util \<Rightarrow> cpg_node \<Rightarrow> bool" where
  "isFork u n \<longleftrightarrow> getType_cpg n = ''Call'' \<and> threadAPIMap u (getName n) = Some FORK"

definition isJoin :: "thread_api_util \<Rightarrow> cpg_node \<Rightarrow> bool" where
  "isJoin u n \<longleftrightarrow> getType_cpg n = ''Call'' \<and> threadAPIMap u (getName n) = Some JOIN"

definition isExit :: "thread_api_util \<Rightarrow> cpg_node \<Rightarrow> bool" where
  "isExit u n \<longleftrightarrow> getType_cpg n = ''Call'' \<and> threadAPIMap u (getName n) = Some EXIT"

definition isCancel :: "thread_api_util \<Rightarrow> cpg_node \<Rightarrow> bool" where
  "isCancel u n \<longleftrightarrow> getType_cpg n = ''Call'' \<and> threadAPIMap u (getName n) = Some CANCEL"

definition isCondWait :: "thread_api_util \<Rightarrow> cpg_node \<Rightarrow> bool" where
  "isCondWait u n \<longleftrightarrow> getType_cpg n = ''Call'' \<and> threadAPIMap u (getName n) = Some COND_WAIT"

definition isCondSignal :: "thread_api_util \<Rightarrow> cpg_node \<Rightarrow> bool" where
  "isCondSignal u n \<longleftrightarrow> getType_cpg n = ''Call'' \<and> threadAPIMap u (getName n) = Some COND_SIGNAL"

definition isCondBroadcast :: "thread_api_util \<Rightarrow> cpg_node \<Rightarrow> bool" where
  "isCondBroadcast u n \<longleftrightarrow> getType_cpg n = ''Call'' \<and> threadAPIMap u (getName n) = Some COND_BROADCAST"

definition isCondvarIni :: "thread_api_util \<Rightarrow> cpg_node \<Rightarrow> bool" where
  "isCondvarIni u n \<longleftrightarrow> getType_cpg n = ''Call'' \<and> threadAPIMap u (getName n) = Some CONDVAR_INI"

definition isCondvarDestroy :: "thread_api_util \<Rightarrow> cpg_node \<Rightarrow> bool" where
  "isCondvarDestroy u n \<longleftrightarrow> getType_cpg n = ''Call'' \<and> threadAPIMap u (getName n) = Some CONDVAR_DESTROY"

definition isMutexIni :: "thread_api_util \<Rightarrow> cpg_node \<Rightarrow> bool" where
  "isMutexIni u n \<longleftrightarrow> getType_cpg n = ''Call'' \<and> threadAPIMap u (getName n) = Some MUTEX_INI"

definition isMutexDestroy :: "thread_api_util \<Rightarrow> cpg_node \<Rightarrow> bool" where
  "isMutexDestroy u n \<longleftrightarrow> getType_cpg n = ''Call'' \<and> threadAPIMap u (getName n) = Some MUTEX_DESTROY"

definition isBarInit :: "thread_api_util \<Rightarrow> cpg_node \<Rightarrow> bool" where
  "isBarInit u n \<longleftrightarrow> getType_cpg n = ''Call'' \<and> threadAPIMap u (getName n) = Some BAR_INIT"

definition isBarWait :: "thread_api_util \<Rightarrow> cpg_node \<Rightarrow> bool" where
  "isBarWait u n \<longleftrightarrow> getType_cpg n = ''Call'' \<and> threadAPIMap u (getName n) = Some BAR_WAIT"

definition isHareParFor :: "thread_api_util \<Rightarrow> cpg_node \<Rightarrow> bool" where
  "isHareParFor u n \<longleftrightarrow> getType_cpg n = ''Call'' \<and> threadAPIMap u (getName n) = Some HARE_PAR_FOR"

definition isDetach :: "cpg_node \<Rightarrow> bool" where
  "isDetach n \<longleftrightarrow> getType_cpg n = ''Call'' \<and> getName n = ''pthread_detach''"

definition isAcquire :: "thread_api_util \<Rightarrow> cpg_node \<Rightarrow> bool" where
  "isAcquire u n \<longleftrightarrow> getType_cpg n = ''Call'' \<and>
     (case threadAPIMap u (getName n) of Some t \<Rightarrow> t = ACQUIRE
      | None \<Rightarrow> isLockWrapperByName (getName n))"

definition isTryAcquire :: "thread_api_util \<Rightarrow> cpg_node \<Rightarrow> bool" where
  "isTryAcquire u n \<longleftrightarrow> getType_cpg n = ''Call'' \<and>
     (case threadAPIMap u (getName n) of Some t \<Rightarrow> t = TRY_ACQUIRE
      | None \<Rightarrow> isTryLockWrapperByName (getName n))"

definition isRelease :: "thread_api_util \<Rightarrow> cpg_node \<Rightarrow> bool" where
  "isRelease u n \<longleftrightarrow> getType_cpg n = ''Call'' \<and>
     (case threadAPIMap u (getName n) of Some t \<Rightarrow> t = RELEASE
      | None \<Rightarrow> isUnlockWrapperByName (getName n))"

definition isAssignment :: "cpg_node \<Rightarrow> bool" where
  "isAssignment n \<longleftrightarrow> getType_cpg n = ''Call'' \<and>
     (contains (getName n) ''<operator>.assignment'' \<or> contains (getName n) ''<operator>.post'' \<or>
      contains (getName n) ''<operator>.pre'')"

definition isDelete :: "cpg_node \<Rightarrow> bool" where
  "isDelete n \<longleftrightarrow> getType_cpg n = ''Call'' \<and> getName n = ''<operator>.delete''"

definition isOtherCall :: "thread_api_util \<Rightarrow> cpg_node \<Rightarrow> bool" where
  "isOtherCall u n \<longleftrightarrow> getType_cpg n = ''Call'' \<and>
     (if threadAPIMap u (getName n) = None \<and> getName n = ''<operator>.pointerCall'' then True
      else threadAPIMap u (getName n) = None \<and> \<not> contains (getName n) ''<operator>'' \<and>
           \<not> contains (getName n) '':'')"

definition isBranch :: "cpg_node \<Rightarrow> bool" where
  "isBranch n \<longleftrightarrow> 1 < cpg_outCFG n"

definition isObjectInit :: "cpg_node \<Rightarrow> bool" where
  "isObjectInit n \<longleftrightarrow> getType_cpg n = ''Call'' \<and> getName n = ''<operator>.new''"

definition isGoto :: "cpg_node \<Rightarrow> bool" where
  "isGoto n \<longleftrightarrow> getType_cpg n = ''Control_structure'' \<and>
     getProperty n ''CONTROL_STRUCTURE_TYPE'' = ''GOTO''"

definition isGotoTarget :: "cpg_node \<Rightarrow> bool" where
  "isGotoTarget n \<longleftrightarrow> getType_cpg n = ''Jump_target''"

definition isControlStructure :: "cpg_node \<Rightarrow> bool" where
  "isControlStructure n \<longleftrightarrow> getType_cpg n = ''Control_structure''"

definition isReturn :: "cpg_node \<Rightarrow> bool" where
  "isReturn n \<longleftrightarrow> getType_cpg n = ''Return''"

definition isCCPGNode :: "thread_api_util \<Rightarrow> cpg_node \<Rightarrow> bool" where
  "isCCPGNode u n \<longleftrightarrow> isFork u n \<or> isJoin u n \<or> isAcquire u n \<or> isTryAcquire u n \<or> isRelease u n \<or>
     isExit u n \<or> isCancel u n \<or> isCondWait u n \<or> isCondSignal u n \<or> isCondBroadcast u n \<or>
     isCondvarIni u n \<or> isCondvarDestroy u n \<or> isMutexIni u n \<or> isMutexDestroy u n \<or>
     isBarInit u n \<or> isBarWait u n \<or> isAssignment n \<or> isOtherCall u n \<or> isBranch n \<or>
     isHareParFor u n \<or> isDetach n \<or> isObjectInit n \<or> isGoto n \<or> isGotoTarget n \<or>
     isControlStructure n \<or> isReturn n \<or> isDelete n"

definition getType :: "thread_api_util \<Rightarrow> cpg_node \<Rightarrow> api_type" where
  "getType u n =
    (if isAcquire u n then ACQUIRE
     else if isAssignment n then ASSIGNMENT
     else if isBarInit u n then BAR_INIT
     else if isBarWait u n then BAR_WAIT
     else if isCancel u n then CANCEL
     else if isCondBroadcast u n then COND_BROADCAST
     else if isCondSignal u n then COND_SIGNAL
     else if isCondvarDestroy u n then CONDVAR_DESTROY
     else if isCondvarIni u n then CONDVAR_INI
     else if isCondWait u n then COND_WAIT
     else if isExit u n then EXIT
     else if isFork u n then FORK
     else if isJoin u n then JOIN
     else if isDetach n then DETACH
     else if isMutexDestroy u n then MUTEX_DESTROY
     else if isMutexIni u n then MUTEX_INI
     else if isRelease u n then RELEASE
     else if isTryAcquire u n then TRY_ACQUIRE
     else if isHareParFor u n then HARE_PAR_FOR
     else if isObjectInit n then OBJECT_INIT
     else if isGoto n then GOTO
     else if isGotoTarget n then GOTOTARGET
     else if isControlStructure n then CONTROLSTRUCTURE
     else if isOtherCall u n then OTHER_CALL
     else if isBranch n then BRANCH
     else DUMMY)"

lemmas node_pred_defs = isFork_def isJoin_def isExit_def isCancel_def isCondWait_def
  isCondSignal_def isCondBroadcast_def isCondvarIni_def isCondvarDestroy_def isMutexIni_def
  isMutexDestroy_def isBarInit_def isBarWait_def isHareParFor_def isDetach_def isAcquire_def
  isTryAcquire_def isRelease_def isAssignment_def isDelete_def isOtherCall_def isBranch_def
  isObjectInit_def isGoto_def isGotoTarget_def isControlStructure_def isReturn_def

subsection \<open>Facts\<close>

lemma list_ex_suffix_disjoint:
  assumes "list_ex (\<lambda>t. endsWith s t \<and> P t) ts" "list_ex (\<lambda>u. endsWith s u \<and> Q u) us"
    "list_all (\<lambda>t. list_all (\<lambda>u. \<not> endsWith t u \<and> \<not> endsWith u t) us) ts"
  shows False
proof -
  from assms(1,2) obtain t u where "t \<in> set ts" "u \<in> set us" "endsWith s t" "endsWith s u"
    by (auto simp: list_ex_iff)
  moreover from this have "endsWith t u \<or> endsWith u t"
    using endsWith_linear nat_le_linear by metis
  ultimately show False using assms(3) by (auto simp: list_all_iff)
qed

lemma lock_unlock_suffixes:
  "list_all (\<lambda>t. list_all (\<lambda>u. \<not> endsWith t u \<and> \<not> endsWith u t) unlockSuffixes) lockSuffixes"
  by code_simp

lemma lock_try_suffixes:
  "list_all (\<lambda>t. list_all (\<lambda>u. \<not> endsWith t u \<and> \<not> endsWith u t) tryLockSuffixes) lockSuffixes"
  by code_simp

lemma unlock_try_suffixes:
  "list_all (\<lambda>t. list_all (\<lambda>u. \<not> endsWith t u \<and> \<not> endsWith u t) tryLockSuffixes) unlockSuffixes"
  by code_simp

lemma wrapper_names_disjoint:
  "\<not> (isLockWrapperByName s \<and> isUnlockWrapperByName s)"
  "\<not> (isLockWrapperByName s \<and> isTryLockWrapperByName s)"
  "\<not> (isUnlockWrapperByName s \<and> isTryLockWrapperByName s)"
  unfolding isLockWrapperByName_def isUnlockWrapperByName_def isTryLockWrapperByName_def
  by (intro notI, elim conjE, erule (1) list_ex_suffix_disjoint, rule lock_unlock_suffixes)
    (intro notI, elim conjE, erule (1) list_ex_suffix_disjoint, rule lock_try_suffixes,
     intro notI, elim conjE, erule (1) list_ex_suffix_disjoint, rule unlock_try_suffixes)

lemma acquire_release_exclusive:
  "isAcquire u n \<Longrightarrow> \<not> isRelease u n \<and> \<not> isTryAcquire u n"
  "isRelease u n \<Longrightarrow> \<not> isAcquire u n \<and> \<not> isTryAcquire u n"
  using wrapper_names_disjoint[of "getName n"]
  by (auto simp: isAcquire_def isRelease_def isTryAcquire_def split: option.splits)

lemma operator_names:
  assumes "isAssignment n"
  shows "contains (getName n) ''<operator>''"
proof -
  have sub: "contains s ''<operator>''" if "contains s (''<operator>'' @ t)" for s t
    using that unfolding contains_iff by (metis append.assoc)
  show "contains (getName n) ''<operator>''"
    using assms sub[of _ "''.assignment''"] sub[of _ "''.post''"] sub[of _ "''.pre''"]
    by (auto simp: isAssignment_def)
qed

lemma getType_api_table:
  assumes "getType_cpg n = ''Call''" "threadAPIMap u (getName n) = Some t"
    and "t \<in> {ACQUIRE, TRY_ACQUIRE, RELEASE, FORK, JOIN, EXIT, CANCEL, COND_WAIT, COND_SIGNAL,
      COND_BROADCAST, CONDVAR_INI, CONDVAR_DESTROY, MUTEX_INI, MUTEX_DESTROY, BAR_INIT, BAR_WAIT,
      HARE_PAR_FOR}"
    and "\<not> isAssignment n" "getName n \<noteq> ''pthread_detach''"
  shows "getType u n = t"
  using assms by (elim insertE emptyE) (simp_all add: getType_def node_pred_defs)

lemma getType_never_RETURN: "getType u n \<noteq> RETURN"
  by (simp add: getType_def)

lemma getType_ACQUIRE_iff: "getType u n = ACQUIRE \<longleftrightarrow> isAcquire u n"
  by (simp add: getType_def)

lemma getType_RELEASE_imp: "getType u n = RELEASE \<Longrightarrow> isRelease u n"
  by (simp add: getType_def split: if_splits)

lemma getType_RELEASE_table:
  assumes "isRelease u n" "\<not> isAssignment n" "getName n \<noteq> ''pthread_detach''"
  shows "getType u n = RELEASE"
proof (cases "threadAPIMap u (getName n)")
  case None
  then show ?thesis using assms acquire_release_exclusive(2)[OF assms(1)]
    by (simp add: getType_def node_pred_defs)
next
  case (Some t)
  then show ?thesis using assms getType_api_table[of n u t] by (simp add: isRelease_def)
qed

lemma addDynamicAPI_lookup [simp]:
  "threadAPIMap (addDynamicAPI a t u) = (threadAPIMap u)(a \<mapsto> t)"
  by (simp add: addDynamicAPI_def)


end
