(* ===== verification/Ccpg.thy ===== *)
theory Ccpg
  imports ThreadApi
begin

text \<open>
  The concurrent code property graph: source locations, call-stack contexts,
  nodes, edges, functions and the graph object with its indexes
  (include/CCPG/CCPGNode.h, CCPGEdge.h, Context.h, CCPG.h, src/CCPG/CCPGNode.cpp
  and the graph-level operations of src/CCPG/CCPG.cpp).  Nodes and functions live
  in heaps indexed by pointers.  A file path is the list of components that
  iterating a \<open>std::filesystem::path\<close> yields; lexical normalisation is the
  library's and appears as the argument \<open>normal\<close>.
\<close>

subsection \<open>Source locations\<close>

type_synonym path = "string list"

record node_loc =
  fileName :: path
  normalizedFileName :: path
  lineNumber :: int
  loc_function :: ptr

definition filename :: "path \<Rightarrow> string" where
  "filename p = (if p = [] \<or> last p = ''/'' then [] else last p)"

text \<open>The suffix scan: the first position at which the rest of the absolute path starts the relative one.\<close>

definition overlapIndex :: "path \<Rightarrow> path \<Rightarrow> nat option" where
  "overlapIndex absParts relParts =
     List.find (\<lambda>i. length absParts - i \<le> length relParts \<and>
                    drop i absParts = take (length absParts - i) relParts) [0 ..< length absParts]"

definition mergeParts :: "path \<Rightarrow> path \<Rightarrow> path" where
  "mergeParts absParts relParts =
     (case overlapIndex absParts relParts of
        Some i \<Rightarrow> absParts @ drop (length absParts - i) relParts
      | None \<Rightarrow> absParts @ relParts)"

definition splitPath :: "path \<Rightarrow> path" where
  "splitPath p = filter (\<lambda>c. c \<noteq> [] \<and> c \<noteq> ''/'') p"

definition isAbsolute :: "path \<Rightarrow> bool" where
  "isAbsolute p \<longleftrightarrow> p \<noteq> [] \<and> hd p = ''/''"

definition mergePaths :: "(path \<Rightarrow> path) \<Rightarrow> path \<Rightarrow> path \<Rightarrow> path" where
  "mergePaths normal absolutePath relativePath =
     (if isAbsolute relativePath then normal relativePath
      else normal (mergeParts (splitPath absolutePath) (splitPath relativePath)))"

definition mkNodeLoc :: "(path \<Rightarrow> path) \<Rightarrow> path \<Rightarrow> path \<Rightarrow> int \<Rightarrow> ptr \<Rightarrow> node_loc" where
  "mkNodeLoc normal target file line f =
     (let fn = mergePaths normal target file
      in \<lparr>fileName = fn, normalizedFileName = normal fn, lineNumber = line, loc_function = f\<rparr>)"

fun suffixAgree :: "path \<Rightarrow> path \<Rightarrow> bool" where
  "suffixAgree (a # as) (b # bs) = (if a \<noteq> b then False else suffixAgree as bs)"
| "suffixAgree _ _ = True"

definition arePathsLikelySameFile :: "path \<Rightarrow> path \<Rightarrow> bool" where
  "arePathsLikelySameFile c1 c2 =
     (if c1 = [] \<or> c2 = [] then False
      else if last c1 \<noteq> last c2 then False
      else suffixAgree (rev c1) (rev c2))"

definition getBaseFileName :: "node_loc \<Rightarrow> string" where
  "getBaseFileName l = filename (normalizedFileName l)"

definition nodeLoc_eq :: "node_loc \<Rightarrow> node_loc \<Rightarrow> bool" where
  "nodeLoc_eq a b =
     (if lineNumber a \<noteq> lineNumber b then False
      else if arePathsLikelySameFile (normalizedFileName a) (normalizedFileName b) then True
      else getBaseFileName a = getBaseFileName b)"

text \<open>
  \<open>lt\<close> is the byte-wise order on strings and \<open>ltp\<close> the order on the
  normalised path strings.
\<close>

definition nodeLoc_less :: "(string \<Rightarrow> string \<Rightarrow> bool) \<Rightarrow> (path \<Rightarrow> path \<Rightarrow> bool) \<Rightarrow>
    node_loc \<Rightarrow> node_loc \<Rightarrow> bool" where
  "nodeLoc_less lt ltp a b =
     (if getBaseFileName a \<noteq> getBaseFileName b then lt (getBaseFileName a) (getBaseFileName b)
      else if lineNumber a \<noteq> lineNumber b then lineNumber a < lineNumber b
      else ltp (normalizedFileName a) (normalizedFileName b))"

definition nodeLocHash :: "(string \<Rightarrow> nat) \<Rightarrow> (int \<Rightarrow> nat) \<Rightarrow> (nat \<Rightarrow> nat \<Rightarrow> nat) \<Rightarrow> node_loc \<Rightarrow> nat" where
  "nodeLocHash hs hi mix l = mix (hs (getBaseFileName l)) (hi (lineNumber l))"

subsection \<open>Contexts\<close>

type_synonym context_stack = "ptr list"

definition ctx_extend :: "context_stack \<Rightarrow> ptr \<Rightarrow> context_stack" where
  "ctx_extend c n = c @ [n]"

definition ctx_popNode :: "context_stack \<Rightarrow> context_stack" where
  "ctx_popNode c = butlast c"

definition ctx_contains :: "context_stack \<Rightarrow> ptr \<Rightarrow> bool" where
  "ctx_contains c n = list_ex (\<lambda>m. m = n) c"

definition ctx_equal :: "context_stack \<Rightarrow> context_stack \<Rightarrow> bool" where
  "ctx_equal c d = (length c = length d \<and> list_all (\<lambda>i. c ! i = d ! i) [0 ..< length c])"

subsection \<open>Nodes, edges, functions, the graph\<close>

datatype edge_type = ORDER | HB | CALL

primrec edgeTypeString :: "edge_type \<Rightarrow> string" where
  "edgeTypeString ORDER = ''ORDER''"
| "edgeTypeString HB = ''HB''"
| "edgeTypeString CALL = ''CALL''"

record ccpg_edge =
  e_src :: ptr
  e_dst :: ptr
  e_type :: edge_type

text \<open>A call instruction: its statically known callee and its operands (LLVM values).\<close>

record call_inst =
  ci_callee :: "string option"
  ci_args :: "ptr list"

record ccpg_node =
  nd_id :: nat
  nd_type :: api_type
  nd_cpg :: ptr
  nd_in :: "ccpg_edge list"
  nd_out :: "ccpg_edge list"
  nd_loc :: node_loc
  nd_function :: ptr
  nd_order :: int
  nd_callSite :: bool
  nd_callInst :: "call_inst option"

record func =
  fn_nodes :: "ptr list"
  fn_edges :: "ccpg_edge list"
  fn_typeToNodeSet :: "api_type \<Rightarrow> ptr list"
  fn_funcNode :: ptr
  fn_contexts :: "context_stack list"
  forkPotential :: bool
  acquirePotential :: bool
  releasePotential :: bool
  fn_llvm :: "string option"
  fn_locs :: "(node_loc \<times> ptr list) list"

record ccpg =
  cpgH :: "ptr \<Rightarrow> cpg_node"
  nodeH :: "ptr \<Rightarrow> ccpg_node"
  funH :: "ptr \<Rightarrow> func"
  nextPtr :: ptr
  g_nodes :: "ptr list"
  g_edges :: "ccpg_edge list"
  g_functions :: "ptr list"
  g_typeToNodeSet :: "api_type \<Rightarrow> ptr list"
  IDToCCPGNode :: "nat \<Rightarrow> ptr option"
  IDToFunction :: "nat \<Rightarrow> ptr option"
  cpgNodeToCCPGNodeMap :: "ptr \<Rightarrow> ptr option"
  locToNodeSetMap :: "(node_loc \<times> ptr list) list"

abbreviation nodeOf :: "ccpg \<Rightarrow> ptr \<Rightarrow> ccpg_node" where "nodeOf g n \<equiv> nodeH g n"

abbreviation cpgOf :: "ccpg \<Rightarrow> ptr \<Rightarrow> cpg_node" where "cpgOf g n \<equiv> cpgH g (nd_cpg (nodeH g n))"

definition emptyLoc :: node_loc where
  "emptyLoc = \<lparr>fileName = [], normalizedFileName = [], lineNumber = 0, loc_function = null\<rparr>"

definition addNode :: "ptr \<Rightarrow> ccpg \<Rightarrow> ccpg" where
  "addNode p g =
     (let n = nodeH g p
      in g\<lparr>g_nodes := List.insert p (g_nodes g),
           IDToCCPGNode := (IDToCCPGNode g)(nd_id n \<mapsto> p),
           g_typeToNodeSet := (g_typeToNodeSet g)(nd_type n := List.insert p (g_typeToNodeSet g (nd_type n))),
           cpgNodeToCCPGNodeMap := (cpgNodeToCCPGNodeMap g)(nd_cpg n \<mapsto> p)\<rparr>)"

definition notCallSiteTypes :: "api_type list" where
  "notCallSiteTypes = [DUMMY, LOOP, BRANCH, GOTO, GOTOTARGET, CONTROLSTRUCTURE, RETURN, ASSIGNMENT,
     HARE_PAR_FOR, GLOBAL]"

definition createCCPGNode :: "thread_api_util \<Rightarrow> ptr \<Rightarrow> ccpg \<Rightarrow> ptr \<times> ccpg" where
  "createCCPGNode u n g =
     (if n = null then (null, g)
      else case cpgNodeToCCPGNodeMap g n of
        Some p \<Rightarrow> (p, g)
      | None \<Rightarrow>
          (let p = nextPtr g;
               ty = getType u (cpgH g n);
               nd = \<lparr>nd_id = length (g_nodes g) + 1, nd_type = ty, nd_cpg = n, nd_in = [], nd_out = [],
                     nd_loc = emptyLoc, nd_function = null, nd_order = 0,
                     nd_callSite = (ty \<notin> set notCallSiteTypes), nd_callInst = None\<rparr>
           in (p, addNode p (g\<lparr>nodeH := (nodeH g)(p := nd), nextPtr := Suc p\<rparr>))))"

text \<open>Creation of an edge together with the \<open>setType\<close> that follows it in the code.\<close>

definition createCCPGEdge :: "ptr \<Rightarrow> ptr \<Rightarrow> edge_type \<Rightarrow> ccpg \<Rightarrow> ccpg" where
  "createCCPGEdge from dst ty g =
     (if from = null \<or> dst = null then g
      else let e = \<lparr>e_src = from, e_dst = dst, e_type = ty\<rparr>;
               h1 = (nodeH g)(from := (nodeH g from)\<lparr>nd_out := nd_out (nodeH g from) @ [e]\<rparr>);
               h2 = h1(dst := (h1 dst)\<lparr>nd_in := nd_in (h1 dst) @ [e]\<rparr>)
           in g\<lparr>nodeH := h2, g_edges := g_edges g @ [e]\<rparr>)"

definition getNodesByType :: "ccpg \<Rightarrow> api_type \<Rightarrow> ptr list" where
  "getNodesByType g ty = g_typeToNodeSet g ty"

definition getNodesByLoc :: "ccpg \<Rightarrow> node_loc \<Rightarrow> ptr list" where
  "getNodesByLoc g l =
     (case List.find (\<lambda>(k, ns). nodeLoc_eq k l) (locToNodeSetMap g) of Some (k, ns) \<Rightarrow> ns | None \<Rightarrow> [])"

fun addNodeByLoc_list :: "node_loc \<Rightarrow> ptr \<Rightarrow> (node_loc \<times> ptr list) list \<Rightarrow> (node_loc \<times> ptr list) list" where
  "addNodeByLoc_list l p [] = [(l, [p])]"
| "addNodeByLoc_list l p ((k, ns) # rest) =
     (if nodeLoc_eq k l then (k, List.insert p ns) # rest else (k, ns) # addNodeByLoc_list l p rest)"

definition addNodeByLoc :: "node_loc \<Rightarrow> ptr \<Rightarrow> ccpg \<Rightarrow> ccpg" where
  "addNodeByLoc l p g = g\<lparr>locToNodeSetMap := addNodeByLoc_list l p (locToNodeSetMap g)\<rparr>"

definition addFunction :: "ptr \<Rightarrow> ccpg \<Rightarrow> ccpg" where
  "addFunction f g = g\<lparr>g_functions := List.insert f (g_functions g),
     IDToFunction := (IDToFunction g)(nd_id (nodeH g (fn_funcNode (funH g f))) \<mapsto> f)\<rparr>"

definition removeFunction :: "ptr \<Rightarrow> ccpg \<Rightarrow> ccpg" where
  "removeFunction f g = g\<lparr>g_functions := removeAll f (g_functions g),
     IDToFunction := (IDToFunction g)(nd_id (nodeH g (fn_funcNode (funH g f))) := None),
     g_nodes := filter (\<lambda>n. nd_function (nodeH g n) \<noteq> f) (g_nodes g)\<rparr>"

definition getFunctionByCCPGNode :: "ccpg \<Rightarrow> ptr \<Rightarrow> ptr" where
  "getFunctionByCCPGNode g n =
     (case IDToFunction g (nd_id (nodeH g n)) of Some f \<Rightarrow> f | None \<Rightarrow> null)"

definition hasCallEdge :: "ccpg \<Rightarrow> ptr \<Rightarrow> ccpg_edge option" where
  "hasCallEdge g n = List.find (\<lambda>e. e_type e = CALL) (nd_out (nodeH g n))"

definition hasHBEdge :: "ccpg \<Rightarrow> ptr \<Rightarrow> bool" where
  "hasHBEdge g n = list_ex (\<lambda>e. e_type e = HB) (nd_out (nodeH g n))"

definition existsEdge :: "ccpg \<Rightarrow> ptr \<Rightarrow> ptr \<Rightarrow> bool" where
  "existsEdge g s d = list_ex (\<lambda>e. e_dst e = d) (nd_out (nodeH g s))"

definition getCallSites :: "ccpg \<Rightarrow> ptr \<Rightarrow> ptr list" where
  "getCallSites g f = remdups (map e_src (filter (\<lambda>e. e_type e = CALL) (nd_in (nodeH g (fn_funcNode (funH g f))))))"

definition getCallers :: "ccpg \<Rightarrow> ptr \<Rightarrow> ptr list" where
  "getCallers g f = remdups (map (\<lambda>e. nd_function (nodeH g (e_src e)))
     (filter (\<lambda>e. e_type e = CALL) (nd_in (nodeH g (fn_funcNode (funH g f))))))"

definition getCallOrder :: "ccpg \<Rightarrow> ptr \<Rightarrow> ptr \<Rightarrow> int" where
  "getCallOrder g this childFunc =
     (case List.find (\<lambda>cs. nd_function (nodeH g cs) = this) (getCallSites g childFunc) of
        Some cs \<Rightarrow> nd_order (nodeH g cs)
      | None \<Rightarrow> -1)"

definition getCallSiteInFunction :: "ccpg \<Rightarrow> ptr \<Rightarrow> ptr \<Rightarrow> ptr" where
  "getCallSiteInFunction g caller callee =
     (case List.find (\<lambda>n. nd_function (nodeH g n) = caller) (getCallSites g callee) of
        Some n \<Rightarrow> n | None \<Rightarrow> null)"

definition handleContext :: "ptr \<Rightarrow> ptr \<Rightarrow> ccpg \<Rightarrow> ccpg" where
  "handleContext caller f g =
     (let cs = fn_contexts (funH g (nd_function (nodeH g caller)));
          new = map (\<lambda>c. ctx_extend c caller) (filter (\<lambda>c. \<not> ctx_contains c caller) cs)
      in g\<lparr>funH := (funH g)(f := (funH g f)\<lparr>fn_contexts := fn_contexts (funH g f) @ new\<rparr>)\<rparr>)"

definition labelAPI_fun :: "func \<Rightarrow> func" where
  "labelAPI_fun f =
     (let a = length (fn_typeToNodeSet f ACQUIRE); r = length (fn_typeToNodeSet f RELEASE);
          f1 = (if a = 1 \<and> r = 0 then f\<lparr>acquirePotential := True\<rparr> else f)
      in if r = 1 \<and> a = 0 then f1\<lparr>releasePotential := True\<rparr> else f1)"

definition labelAPI :: "ccpg \<Rightarrow> ccpg" where
  "labelAPI g = g\<lparr>funH := (\<lambda>f. if f \<in> set (g_functions g) then labelAPI_fun (funH g f) else funH g f)\<rparr>"

definition deleteNode :: "ptr \<Rightarrow> ccpg \<Rightarrow> ccpg" where
  "deleteNode p g =
     (let ins = nd_in (nodeH g p); outs = nd_out (nodeH g p);
          h1 = (\<lambda>n. if n \<in> e_src ` set ins
                    then (nodeH g n)\<lparr>nd_out := filter (\<lambda>e. e \<notin> set ins) (nd_out (nodeH g n))\<rparr>
                    else nodeH g n);
          h2 = (\<lambda>n. if n \<in> e_dst ` set outs
                    then (h1 n)\<lparr>nd_in := filter (\<lambda>e. e \<notin> set outs) (nd_in (h1 n))\<rparr> else h1 n)
      in g\<lparr>nodeH := h2,
           g_edges := filter (\<lambda>e. e \<notin> set ins \<and> e \<notin> set outs) (g_edges g),
           g_nodes := removeAll p (g_nodes g),
           cpgNodeToCCPGNodeMap := (cpgNodeToCCPGNodeMap g)(nd_cpg (nodeH g p) := None)\<rparr>)"

definition escapeChar :: "char \<Rightarrow> string" where
  "escapeChar c = (let n = (of_char c :: nat) in
     if n = 10 then [CHR 0x5C, CHR ''n''] else if n = 9 then [CHR 0x5C, CHR ''t'']
     else if n = 13 then [CHR 0x5C, CHR ''r''] else if n = 92 then [CHR 0x5C, CHR 0x5C]
     else if n = 34 then [CHR 0x5C, CHR 0x22] else if n = 39 then [CHR 0x5C, CHR 0x27]
     else if n = 0 then [CHR 0x5C, CHR ''0''] else if n = 8 then [CHR 0x5C, CHR ''b'']
     else if n = 12 then [CHR 0x5C, CHR ''f''] else if n = 11 then [CHR 0x5C, CHR ''v''] else [c])"

definition escapeSpecialCharacters :: "string \<Rightarrow> string" where
  "escapeSpecialCharacters s = concat (map escapeChar s)"

end
