(* ===== verification/Contract.thy ===== *)
theory Contract
  imports Ccpg
begin

text \<open>
  The data the checkers exchange: a thread's concurrency contract with its
  builders and coverage queries (include/LLMUtil/ConcurrencyContract.h), the
  vulnerability surface whose objects a contract is anchored to
  (include/Query/VulnerabilitySurfaceGenerator.h), and the lookup of a graph node
  by its id (include/CCPG/CCPG.h).  Ids are C++ ints with -1 for "none".
\<close>

subsection \<open>The contract\<close>

record shared_variable =
  variableName :: string
  variableType :: string
  accessType :: string
  protectingPrimitives :: "string list"

datatype primitive_type = MUTEX | SEMAPHORE | COND_VAR | CUSTOM_ATOMIC | UNKNOWN

record sync_primitive =
  sp_identifier :: string
  sp_type :: primitive_type
  sp_purpose :: string
  sp_definitionNodeId :: int

record sync_discipline =
  sd_strategy :: string
  sd_primitives :: "sync_primitive list"
  sd_lockOrder :: "string list list"

record order_req =
  or_relation :: string
  or_detail :: string
  or_provenance :: string

record sync_prov =
  pv_relation :: string
  pv_detail :: string
  pv_provenance :: string

record order_clause =
  cl_resource :: string
  cl_objectId :: int
  cl_objectIds :: "int list"
  cl_sites :: "string list"
  cl_assume :: "order_req list"
  cl_guarantee :: "sync_prov list"
  cl_noOrderNeeded :: bool
  cl_noOrderReason :: string

record node_req =
  nr_form :: string
  nr_a :: "int list"
  nr_b :: "int list"
  nr_objectId :: int
  nr_note :: string

record node_guar =
  ng_form :: string
  ng_a :: "int list"
  ng_b :: "int list"
  ng_token :: string
  ng_mode :: string
  ng_objectId :: int
  ng_note :: string

record contract =
  threadId :: int
  entryPointFunctionId :: int
  role :: string
  summary :: string
  sharedVariables :: "shared_variable list"
  synchronization :: sync_discipline
  intendedParallelThreads :: "int set"
  clauses :: "order_clause list"
  ordering :: "string list"
  nodeReqs :: "node_req list"
  nodeGuars :: "node_guar list"
  noObligationObjs :: "int list"

definition newContract :: "int \<Rightarrow> int \<Rightarrow> contract" where
  "newContract tId entryId =
     \<lparr>threadId = tId, entryPointFunctionId = entryId, role = [], summary = [], sharedVariables = [],
      synchronization = \<lparr>sd_strategy = [], sd_primitives = [], sd_lockOrder = []\<rparr>,
      intendedParallelThreads = {}, clauses = [], ordering = [], nodeReqs = [], nodeGuars = [],
      noObligationObjs = []\<rparr>"

definition setRole :: "string \<Rightarrow> contract \<Rightarrow> contract" where
  "setRole r k = k\<lparr>role := r\<rparr>"

definition setSummary :: "string \<Rightarrow> contract \<Rightarrow> contract" where
  "setSummary s k = k\<lparr>summary := s\<rparr>"

definition addSharedVariable :: "shared_variable \<Rightarrow> contract \<Rightarrow> contract" where
  "addSharedVariable v k = k\<lparr>sharedVariables := sharedVariables k @ [v]\<rparr>"

definition setSynchronizationStrategy :: "string \<Rightarrow> contract \<Rightarrow> contract" where
  "setSynchronizationStrategy s k = k\<lparr>synchronization := (synchronization k)\<lparr>sd_strategy := s\<rparr>\<rparr>"

definition addSynchronizationPrimitive :: "sync_primitive \<Rightarrow> contract \<Rightarrow> contract" where
  "addSynchronizationPrimitive p k = k\<lparr>synchronization := (synchronization k)
     \<lparr>sd_primitives := sd_primitives (synchronization k) @ [p]\<rparr>\<rparr>"

definition setLockOrder :: "string list list \<Rightarrow> contract \<Rightarrow> contract" where
  "setLockOrder ord k = k\<lparr>synchronization := (synchronization k)\<lparr>sd_lockOrder := ord\<rparr>\<rparr>"

definition addIntendedParallelThread :: "int \<Rightarrow> contract \<Rightarrow> contract" where
  "addIntendedParallelThread t k = k\<lparr>intendedParallelThreads := insert t (intendedParallelThreads k)\<rparr>"

definition addClause :: "order_clause \<Rightarrow> contract \<Rightarrow> contract" where
  "addClause cl k = k\<lparr>clauses := clauses k @ [cl]\<rparr>"

definition addOrdering :: "string \<Rightarrow> contract \<Rightarrow> contract" where
  "addOrdering s k = k\<lparr>ordering := ordering k @ [s]\<rparr>"

definition hasOrderContent :: "contract \<Rightarrow> bool" where
  "hasOrderContent k \<longleftrightarrow> clauses k \<noteq> [] \<or> ordering k \<noteq> []"

definition addNodeReq :: "node_req \<Rightarrow> contract \<Rightarrow> contract" where
  "addNodeReq r k = k\<lparr>nodeReqs := nodeReqs k @ [r]\<rparr>"

definition addNodeGuar :: "node_guar \<Rightarrow> contract \<Rightarrow> contract" where
  "addNodeGuar g k = k\<lparr>nodeGuars := nodeGuars k @ [g]\<rparr>"

definition addNoObligation :: "int \<Rightarrow> contract \<Rightarrow> contract" where
  "addNoObligation oid k = (if oid \<ge> 0 then k\<lparr>noObligationObjs := noObligationObjs k @ [oid]\<rparr> else k)"

definition hasL2Content :: "contract \<Rightarrow> bool" where
  "hasL2Content k \<longleftrightarrow> nodeReqs k \<noteq> [] \<or> nodeGuars k \<noteq> [] \<or> noObligationObjs k \<noteq> []"

definition clauseHasOrder :: "order_clause \<Rightarrow> bool" where
  "clauseHasOrder cl \<longleftrightarrow> cl_assume cl \<noteq> [] \<or> cl_guarantee cl \<noteq> []"

definition clauseRefs :: "order_clause \<Rightarrow> int \<Rightarrow> bool" where
  "clauseRefs cl oi \<longleftrightarrow> cl_objectId cl = oi \<or> list_ex (\<lambda>i. i = oi) (cl_objectIds cl)"

definition addressesObject :: "contract \<Rightarrow> int \<Rightarrow> bool" where
  "addressesObject k oi =
     list_ex (\<lambda>cl. clauseRefs cl oi \<and> (clauseHasOrder cl \<or> cl_noOrderNeeded cl)) (clauses k)"

subsection \<open>The surface\<close>

record thread_access =
  ac_thread :: int
  ac_function :: string
  ac_function_id :: int
  ac_containing :: string
  ac_type :: string
  ac_node :: int
  ac_code :: string
  ac_location :: string
  ac_locked :: bool
  ac_lock :: string

record shared_object =
  so_name :: string
  so_type :: string
  so_accesses :: "thread_access list"
  has_unprotected_write :: bool
  has_free_operation :: bool
  has_cross_thread_rw :: bool
  has_inconsistent_locking :: bool
  has_scalar_torn_access :: bool
  has_read_dominated_lone_writer :: bool
  has_missing_atomic_annotation :: bool
  has_list_mutation :: bool
  is_self_race :: bool
  risk_score :: int
  accessing_thread_ids :: "int set"

record thread_info =
  ti_thread :: int
  ti_entry :: string
  ti_function_id :: int
  ti_locks :: "string list"

record surface =
  sf_objects :: "shared_object list"
  sf_threads :: "thread_info list"
  total_thread_count :: nat
  conflicting_pair_count :: nat

subsection \<open>JSON values and hypotheses\<close>

text \<open>The JSON values the program inspects: the kinds its type tests distinguish.\<close>

datatype json = JNull | JBool bool | JInt int | JFloat int | JStr string | JArr "json list" | JObj "(string \<times> json) list"

record constraint =
  ct_predicate :: string
  ct_args :: json

record hypothesis =
  hy_id :: string
  hy_description :: string
  hy_bug_category :: string
  hy_severity :: string
  hy_nodes :: "(string \<times> int) list"
  hy_constraints :: "constraint list"

definition emptyHypothesis :: hypothesis where
  "emptyHypothesis = \<lparr>hy_id = [], hy_description = [], hy_bug_category = [], hy_severity = [],
     hy_nodes = [], hy_constraints = []\<rparr>"

definition setNode :: "string \<Rightarrow> int \<Rightarrow> hypothesis \<Rightarrow> hypothesis" where
  "setNode r n hyp = hyp\<lparr>hy_nodes := mapSet r n (hy_nodes hyp)\<rparr>"

definition getNodeByID :: "ccpg \<Rightarrow> int \<Rightarrow> ptr" where
  "getNodeByID g i = (if i < 0 then null else case IDToCCPGNode g (nat i) of Some n \<Rightarrow> n | None \<Rightarrow> null)"

subsection \<open>Coverage facts\<close>

lemma addressesObject_iff:
  "addressesObject k oi \<longleftrightarrow>
     (\<exists>cl \<in> set (clauses k). clauseRefs cl oi \<and> (clauseHasOrder cl \<or> cl_noOrderNeeded cl))"
  by (auto simp: addressesObject_def list_ex_iff)

lemma addressesObject_addClause:
  "addressesObject (addClause cl k) oi \<longleftrightarrow>
     addressesObject k oi \<or> (clauseRefs cl oi \<and> (clauseHasOrder cl \<or> cl_noOrderNeeded cl))"
  by (auto simp: addressesObject_iff addClause_def)

lemma addressesObject_builders [simp]:
  "addressesObject (addOrdering s k) oi = addressesObject k oi"
  "addressesObject (addNodeReq r k) oi = addressesObject k oi"
  "addressesObject (addNodeGuar g k) oi = addressesObject k oi"
  "addressesObject (addNoObligation o' k) oi = addressesObject k oi"
  by (auto simp: addressesObject_def addOrdering_def addNodeReq_def addNodeGuar_def addNoObligation_def)

lemma addNoObligation_negative: "o' < 0 \<Longrightarrow> addNoObligation o' k = k"
  by (simp add: addNoObligation_def)

lemma hasL2Content_builders [simp]:
  "hasL2Content (addNodeReq r k)" "hasL2Content (addNodeGuar g k)"
  "hasL2Content (addNoObligation o' k) \<longleftrightarrow> o' \<ge> 0 \<or> hasL2Content k"
  "hasL2Content (addClause cl k) = hasL2Content k" "\<not> hasL2Content (newContract t e)"
  by (auto simp: hasL2Content_def addNodeReq_def addNodeGuar_def addNoObligation_def addClause_def
      newContract_def)

end
