(* ===== verification/ManualEntry.thy ===== *)
theory ManualEntry
  imports Prelude
begin

text \<open>
  Manual thread-entry configuration (include/CCPG/ManualEntryConfig.h): the
  normalisation of kernel entry names, the splitting of the configured lists
  and the membership test used for thread roots.  The two environment variables
  and the lines of the configuration file are arguments of \<open>load\<close>.
\<close>

subsection \<open>Name normalisation\<close>

fun lastNs :: "string \<Rightarrow> string option" where
  "lastNs (c # d # s) =
     (case lastNs (d # s) of
        Some t \<Rightarrow> Some t
      | None \<Rightarrow> if c = CHR '':'' \<and> d = CHR '':'' then Some s else None)"
| "lastNs _ = None"

definition kPrefixes :: "string list" where
  "kPrefixes =
     [''__x64_sys_'', ''__x32_sys_'', ''__ia32_sys_'', ''__arm64_sys_'', ''__arm_sys_'',
      ''__mips_sys_'', ''__riscv_sys_'', ''__s390x_sys_'', ''__s390_sys_'', ''__powerpc64_sys_'',
      ''__powerpc_sys_'', ''__se_compat_sys_'', ''__se_sys_'', ''__do_compat_sys_'', ''__do_sys_'',
      ''__sys_'', ''compat_sys_'', ''sys_'', ''syscall_'']"

definition matchingPrefix :: "string \<Rightarrow> string option" where
  "matchingPrefix n = List.find (\<lambda>pfx. length pfx < length n \<and> startsWith n pfx) kPrefixes"

lemma matchingPrefix_length:
  assumes "matchingPrefix n = Some pfx" shows "0 < length pfx \<and> length pfx < length n"
proof -
  have m: "pfx \<in> set kPrefixes" "length pfx < length n"
    using find_Some_set assms unfolding matchingPrefix_def by fast+
  moreover have "list_all (\<lambda>q. 0 < length q) kPrefixes" by code_simp
  ultimately show ?thesis by (auto simp: list_all_iff)
qed

function stripPrefixes :: "string \<Rightarrow> string" where
  "stripPrefixes n =
     (case matchingPrefix n of
        Some pfx \<Rightarrow> stripPrefixes (drop (length pfx) n)
      | None \<Rightarrow> n)"
  by pat_completeness auto
termination
  by (relation "measure length") (auto dest!: matchingPrefix_length intro!: diff_less)

declare stripPrefixes.simps [simp del]

definition normalizeCore :: "string \<Rightarrow> string" where
  "normalizeCore n0 =
     (let n = takeWhile (\<lambda>c. c \<noteq> CHR ''('') n0;
          n = (case lastNs n of Some t \<Rightarrow> t | None \<Rightarrow> n);
          n = stripPrefixes (toLower n)
      in dropWhile (\<lambda>c. c = CHR ''_'') n)"

subsection \<open>The configuration\<close>

record config =
  enabled :: bool
  selfRace :: bool
  roots :: "string list"
  cores :: "string set"

definition isBlank :: "char \<Rightarrow> bool" where
  "isBlank c = (let n = (of_char c :: nat) in n = 32 \<or> n = 9 \<or> n = 13 \<or> n = 10)"

definition trim :: "string \<Rightarrow> string" where
  "trim s = rev (dropWhile isBlank (rev (dropWhile isBlank s)))"

text \<open>Successive \<open>std::getline\<close> calls with a delimiter.\<close>

function getlines :: "char \<Rightarrow> string \<Rightarrow> string list" where
  "getlines sep s =
     (if s = [] then []
      else takeWhile (\<lambda>c. c \<noteq> sep) s # getlines sep (tl (dropWhile (\<lambda>c. c \<noteq> sep) s)))"
  by pat_completeness auto
termination
proof (relation "measure (\<lambda>(sep, s). length s)", simp, goal_cases)
  case (1 sep s)
  have "length (dropWhile (\<lambda>c. c \<noteq> sep) s) \<le> length s" by (rule length_dropWhile_le)
  with 1 show ?case by simp (cases s; simp)
qed

declare getlines.simps [simp del]

definition splitInto :: "string \<Rightarrow> string list \<Rightarrow> string list" where
  "splitInto raw out =
     (let norm = map (\<lambda>ch. if ch = CHR ''/'' then CHR '','' else ch) raw
      in out @ filter (\<lambda>t. t \<noteq> [] \<and> hd t \<noteq> CHR ''#'') (map trim (getlines (CHR '','') norm)))"

definition loadFile :: "string list \<Rightarrow> string list" where
  "loadFile ls = foldl (\<lambda>toks line. let t = trim line in
     if t = [] \<or> hd t = CHR ''#'' then toks else splitInto t toks) [] ls"

definition loadTokens :: "string list option \<Rightarrow> string option \<Rightarrow> string list" where
  "loadTokens file env =
     (let toks = (case file of Some ls \<Rightarrow> loadFile ls | None \<Rightarrow> [])
      in if toks = [] then (case env of Some e \<Rightarrow> splitInto e toks | None \<Rightarrow> toks) else toks)"

definition dedupRoots :: "string list \<Rightarrow> string list" where
  "dedupRoots toks = foldl (\<lambda>acc t. if t \<in> set acc then acc else acc @ [t]) [] toks"

definition load :: "string list option \<Rightarrow> string option \<Rightarrow> string option \<Rightarrow> config" where
  "load file env sr =
     (let toks = loadTokens file env;
          self = (case sr of
             Some s \<Rightarrow> trim s \<in> {''1'', ''true'', ''TRUE'', ''yes''}
           | None \<Rightarrow> False)
      in if toks = [] then \<lparr>enabled = False, selfRace = self, roots = [], cores = {}\<rparr>
         else \<lparr>enabled = True, selfRace = self, roots = dedupRoots toks,
                cores = normalizeCore ` set toks\<rparr>)"

definition selfRaceDeclared :: "config \<Rightarrow> bool" where
  "selfRaceDeclared c \<longleftrightarrow> enabled c \<and> selfRace c"

definition matches :: "config \<Rightarrow> string \<Rightarrow> bool" where
  "matches c fnName \<longleftrightarrow>
     (if \<not> enabled c \<or> fnName = [] then False else normalizeCore fnName \<in> cores c)"

subsection \<open>Facts\<close>

lemma lastNs_append_clean:
  assumes "CHR '':'' \<notin> set p"
  shows "lastNs (p @ s) = lastNs s"
  using assms
proof (induction p)
  case (Cons c p)
  then show ?case
    by (cases "p @ s" rule: lastNs.cases; cases s rule: lastNs.cases) (auto split: option.splits)
qed simp

lemma kPrefixes_clean:
  "list_all (\<lambda>p. CHR '':'' \<notin> set p \<and> CHR ''('' \<notin> set p \<and> toLower p = p) kPrefixes"
  by code_simp

lemma kPrefixes_incomparable:
  "list_all (\<lambda>p. list_all (\<lambda>q. p = q \<or> \<not> startsWith p q) kPrefixes) kPrefixes"
  by code_simp

lemma startsWith_linear:
  assumes "startsWith (p @ s) q" shows "startsWith p q \<or> startsWith q p"
  using assms by (auto simp: startsWith_iff append_eq_append_conv2)

lemma matchingPrefix_append:
  assumes p: "p \<in> set kPrefixes" and s: "s \<noteq> []"
  shows "matchingPrefix (p @ s) = Some p"
proof -
  let ?P = "\<lambda>q. length q < length (p @ s) \<and> startsWith (p @ s) q"
  have P: "?P p" using s by (auto simp: startsWith_iff)
  then have "List.find ?P kPrefixes \<noteq> None" using p unfolding find_None_set by blast
  then obtain q where q: "List.find ?P kPrefixes = Some q" by blast
  then have "q \<in> set kPrefixes" "startsWith (p @ s) q" using find_Some_set by fast+
  with p kPrefixes_incomparable startsWith_linear[of p s q] have "q = p"
    by (auto simp: list_all_iff)
  with q show ?thesis by (simp add: matchingPrefix_def)
qed

lemma stripPrefixes_append:
  assumes "p \<in> set kPrefixes" "s \<noteq> []"
  shows "stripPrefixes (p @ s) = stripPrefixes s"
  by (subst stripPrefixes.simps) (simp add: matchingPrefix_append[OF assms])

lemma lastNs_suffix: "lastNs s = Some t \<Longrightarrow> \<exists>a. s = a @ t"
proof (induction s rule: lastNs.induct)
  case (1 c d s)
  then show ?case
    by (auto split: option.splits if_splits)
qed auto

text \<open>
  The part of a raw entry name that the prefix loop starts on: the signature and
  the namespace qualifier are gone.
\<close>

definition coreStart :: "string \<Rightarrow> string" where
  "coreStart n0 = (let n = takeWhile (\<lambda>c. c \<noteq> CHR ''('') n0
                   in case lastNs n of Some t \<Rightarrow> t | None \<Rightarrow> n)"

lemma normalizeCore_coreStart:
  "normalizeCore n = dropWhile (\<lambda>c. c = CHR ''_'') (stripPrefixes (toLower (coreStart n)))"
  by (simp add: normalizeCore_def coreStart_def Let_def)

lemma coreStart_prefix:
  assumes "p \<in> set kPrefixes" "lastNs (takeWhile (\<lambda>c. c \<noteq> CHR ''('') s) = None"
  shows "coreStart (p @ s) = p @ coreStart s"
proof -
  from assms(1) kPrefixes_clean have c: "CHR '':'' \<notin> set p" "CHR ''('' \<notin> set p"
    by (auto simp: list_all_iff)
  have "takeWhile (\<lambda>c. c \<noteq> CHR ''('') (p @ s) = p @ takeWhile (\<lambda>c. c \<noteq> CHR ''('') s"
    using c(2) by (subst takeWhile_append2) auto
  then show ?thesis
    using assms(2) lastNs_append_clean[OF c(1)] by (simp add: coreStart_def)
qed

lemma normalizeCore_decorated:
  assumes "p \<in> set kPrefixes" "lastNs (takeWhile (\<lambda>c. c \<noteq> CHR ''('') s) = None" "coreStart s \<noteq> []"
  shows "normalizeCore (p @ s) = normalizeCore s"
proof -
  have "toLower (p @ t) = p @ toLower t" for t
    using assms(1) kPrefixes_clean by (auto simp: list_all_iff toLower_def)
  moreover have "toLower (coreStart s) \<noteq> []" using assms(3) by (simp add: toLower_def)
  ultimately show ?thesis
    using assms by (simp add: normalizeCore_coreStart coreStart_prefix stripPrefixes_append)
qed

lemma getlines_sep: "t \<in> set (getlines sep s) \<Longrightarrow> sep \<notin> set t"
proof (induction sep s rule: getlines.induct)
  case (1 sep s)
  then show ?case using getlines.simps[of sep s] by (auto split: if_splits dest: set_takeWhileD)
qed

lemma getlines_set: "t \<in> set (getlines sep s) \<Longrightarrow> set t \<subseteq> set s"
proof (induction sep s rule: getlines.induct)
  case (1 sep s)
  have "set (tl (dropWhile (\<lambda>c. c \<noteq> sep) s)) \<subseteq> set s"
    by (metis list.set_sel(2) set_dropWhileD subsetI tl_Nil)
  with 1 show ?case
    using getlines.simps[of sep s] by (auto split: if_splits dest: set_takeWhileD)
qed

lemma trim_set: "set (trim s) \<subseteq> set s"
  by (auto simp: trim_def dest!: set_dropWhileD)

lemma dropWhile_hd: "dropWhile P s \<noteq> [] \<Longrightarrow> \<not> P (hd (dropWhile P s))"
  by (rule hd_dropWhile)

lemma trim_hd_last:
  assumes "trim s \<noteq> []" shows "\<not> isBlank (hd (trim s))" "\<not> isBlank (last (trim s))"
proof -
  let ?u = "dropWhile isBlank s"
  have l: "last (trim s) = hd (dropWhile isBlank (rev ?u))"
    using assms by (simp add: trim_def last_rev)
  show "\<not> isBlank (last (trim s))"
    using assms hd_dropWhile[of isBlank "rev ?u"] l by (simp add: trim_def)
  obtain v where v: "?u = trim s @ v"
    by (metis rev_append rev_rev_ident takeWhile_dropWhile_id trim_def)
  with assms have "hd ?u = hd (trim s)" "?u \<noteq> []" by auto
  then show "\<not> isBlank (hd (trim s))" using hd_dropWhile[of isBlank s] by simp
qed

lemma splitInto_tokens:
  assumes "t \<in> set (splitInto raw [])"
  shows "t \<noteq> [] \<and> hd t \<noteq> CHR ''#'' \<and> CHR '','' \<notin> set t \<and> CHR ''/'' \<notin> set t \<and>
         \<not> isBlank (hd t) \<and> \<not> isBlank (last t)"
proof -
  let ?n = "map (\<lambda>ch. if ch = CHR ''/'' then CHR '','' else ch) raw"
  from assms obtain g where g: "g \<in> set (getlines (CHR '','') ?n)" "t = trim g"
      "t \<noteq> []" "hd t \<noteq> CHR ''#''" by (auto simp: splitInto_def Let_def)
  have "CHR ''/'' \<notin> set ?n" by auto
  with getlines_set[OF g(1)] have "CHR ''/'' \<notin> set g" by blast
  with getlines_sep[OF g(1)] trim_set[of g] g trim_hd_last[of g] show ?thesis by auto
qed

lemma dedupRoots_aux:
  "set (foldl (\<lambda>acc t. if t \<in> set acc then acc else acc @ [t]) acc0 toks) = set acc0 \<union> set toks \<and>
   (distinct acc0 \<longrightarrow> distinct (foldl (\<lambda>acc t. if t \<in> set acc then acc else acc @ [t]) acc0 toks))"
  by (induction toks arbitrary: acc0) auto

lemma dedupRoots [simp]: "set (dedupRoots toks) = set toks" "distinct (dedupRoots toks)"
  using dedupRoots_aux[of "[]" toks] by (auto simp: dedupRoots_def)

lemma load_enabled_iff: "enabled (load file env sr) \<longleftrightarrow> loadTokens file env \<noteq> []"
  by (simp add: load_def Let_def)

lemma load_roots [simp]:
  "set (roots (load file env sr)) = set (loadTokens file env)" "distinct (roots (load file env sr))"
  by (simp_all add: load_def Let_def)

lemma load_cores: "cores (load file env sr) = normalizeCore ` set (roots (load file env sr))"
  by (simp add: load_def Let_def)

end
