(* ===== verification/GraphSearch.thy ===== *)
theory GraphSearch
  imports Prelude
begin

text \<open>
  The breadth-first search the program writes several times over: a FIFO queue
  of states with the depth at which each was enqueued, a visited set, a depth
  cap, and a goal test made when an edge is scanned (so the source itself is
  never tested).  \<open>bfs\<close> is that loop, with a payload that grows along each
  edge (a list of edge kinds in the path classifier, nothing in the
  reachability queries).  The facts below say that the loop ends on every input,
  that it answers exactly the bounded-walk question, and that the payload it
  returns belongs to a shortest walk.
\<close>

subsection \<open>The loop\<close>

fun bfs_expand :: "('s \<Rightarrow> bool) \<Rightarrow> ('l \<Rightarrow> 'p \<Rightarrow> 'p) \<Rightarrow> nat \<Rightarrow> 'p \<Rightarrow> ('l \<times> 's) list \<Rightarrow>
    ('s \<times> nat \<times> 'p) list \<Rightarrow> 's set \<Rightarrow> 'p + (('s \<times> nat \<times> 'p) list \<times> 's set)" where
  "bfs_expand goal ext d p [] q vis = Inr (q, vis)"
| "bfs_expand goal ext d p ((l, v) # es) q vis =
     (if goal v then Inl (ext l p)
      else if v \<in> vis then bfs_expand goal ext d p es q vis
      else bfs_expand goal ext d p es (q @ [(v, Suc d, ext l p)]) (insert v vis))"

lemma bfs_expand_Inl:
  "bfs_expand goal ext d p es q vis = Inl r \<Longrightarrow>
     \<exists>l v. (l, v) \<in> set es \<and> goal v \<and> r = ext l p"
  by (induction es arbitrary: q vis rule: list.induct) (auto split: if_splits, blast+)

lemma bfs_expand_Inr:
  "bfs_expand goal ext d p es q vis = Inr (q', vis') \<Longrightarrow>
     (\<exists>new. q' = q @ new \<and> vis' = vis \<union> fst ` set new \<and>
       (\<forall>x \<in> set new. \<exists>l v. x = (v, Suc d, ext l p) \<and> (l, v) \<in> set es) \<and>
       (\<forall>(l, v) \<in> set es. \<not> goal v \<and> v \<in> vis'))"
proof (induction es arbitrary: q vis)
  case Nil then show ?case by auto
next
  case (Cons e es)
  obtain l v where e: "e = (l, v)" by (cases e)
  show ?case
  proof (cases "v \<in> vis")
    case True
    with Cons.prems e have "bfs_expand goal ext d p es q vis = Inr (q', vis')" "\<not> goal v"
      by (auto split: if_splits)
    with Cons.IH[of q vis] obtain new where
      "q' = q @ new" "vis' = vis \<union> fst ` set new"
      "\<forall>x \<in> set new. \<exists>l v. x = (v, Suc d, ext l p) \<and> (l, v) \<in> set es"
      "\<forall>(l, v) \<in> set es. \<not> goal v \<and> v \<in> vis'" by blast
    note new = this
    show ?thesis
    proof (intro exI conjI)
      show "q' = q @ new" "vis' = vis \<union> fst ` set new" by fact+
      show "\<forall>x \<in> set new. \<exists>l v. x = (v, Suc d, ext l p) \<and> (l, v) \<in> set (e # es)"
        using new(3) by (meson list.set_intros(2))
      show "\<forall>(l, v) \<in> set (e # es). \<not> goal v \<and> v \<in> vis'"
        using new(2,4) True \<open>\<not> goal v\<close> by (simp add: e)
    qed
  next
    case False
    let ?x = "(v, Suc d, ext l p)"
    from False Cons.prems e have "bfs_expand goal ext d p es (q @ [?x]) (insert v vis) = Inr (q', vis')"
      and ng: "\<not> goal v" by (auto split: if_splits)
    from Cons.IH[OF this(1)] obtain new where
      new: "q' = (q @ [?x]) @ new" "vis' = insert v vis \<union> fst ` set new"
        "\<forall>x \<in> set new. \<exists>l v. x = (v, Suc d, ext l p) \<and> (l, v) \<in> set es"
        "\<forall>(l, v) \<in> set es. \<not> goal v \<and> v \<in> vis'" by blast
    show ?thesis
    proof (intro exI conjI)
      show "q' = q @ (?x # new)" "vis' = vis \<union> fst ` set (?x # new)"
        using new(1,2) by auto
      show "\<forall>x \<in> set (?x # new). \<exists>l v. x = (v, Suc d, ext l p) \<and> (l, v) \<in> set (e # es)"
        using new(3) e by (metis list.set_intros(1) list.set_intros(2) set_ConsD)
      show "\<forall>(l, v) \<in> set (e # es). \<not> goal v \<and> v \<in> vis'"
        using new(2,4) ng by (simp add: e)
    qed
  qed
qed

function bfs :: "('s \<Rightarrow> ('l \<times> 's) list) \<Rightarrow> ('s \<Rightarrow> bool) \<Rightarrow> ('l \<Rightarrow> 'p \<Rightarrow> 'p) \<Rightarrow> nat \<Rightarrow>
    ('s \<times> nat \<times> 'p) list \<Rightarrow> 's set \<Rightarrow> 'p option" where
  "bfs succ goal ext cap [] vis = None"
| "bfs succ goal ext cap ((u, d, p) # q) vis =
     (if cap \<le> d then bfs succ goal ext cap q vis
      else (case bfs_expand goal ext d p (succ u) q vis of
              Inl r \<Rightarrow> Some r
            | Inr (q', vis') \<Rightarrow> bfs succ goal ext cap q' vis'))"
  by pat_completeness auto

text \<open>
  Each popped entry is replaced by finitely many deeper ones, and an entry at
  the cap is replaced by none: the multiset of remaining depths decreases.
\<close>

definition bfs_rank :: "nat \<Rightarrow> ('s \<times> nat \<times> 'p) list \<Rightarrow> nat multiset" where
  "bfs_rank cap q = mset (map (\<lambda>(u, d, p). cap - d) q)"

lemma bfs_rank_pop:
  "(bfs_rank cap q, bfs_rank cap ((u, d, p) # q)) \<in> mult less_than"
  by (auto simp: bfs_rank_def mult_def intro!: r_into_trancl mult1I[where K = "{#}"])

lemma bfs_rank_expand:
  assumes "bfs_expand goal ext d p es q vis = Inr (q', vis')" "d < cap"
  shows "(bfs_rank cap q', bfs_rank cap ((u, d, p) # q)) \<in> mult less_than"
proof -
  from bfs_expand_Inr[OF assms(1)] obtain new where
    q': "q' = q @ new" and
    new: "\<forall>x \<in> set new. \<exists>l v. x = (v, Suc d, ext l p) \<and> (l, v) \<in> set es" by blast
  have "(mset (map (\<lambda>(u, d, p). cap - d) q) + mset (map (\<lambda>(u, d, p). cap - d) new),
         add_mset (cap - d) (mset (map (\<lambda>(u, d, p). cap - d) q))) \<in> mult1 less_than"
    by (rule mult1I) (use new assms(2) in \<open>fastforce+\<close>)
  then show ?thesis by (auto simp: bfs_rank_def q' mult_def)
qed

termination bfs
proof (relation "inv_image (mult less_than) (\<lambda>(succ, goal, ext, cap, q, vis). bfs_rank cap q)",
    goal_cases)
  case 1 show ?case by (intro wf_inv_image wf_mult wf_less_than)
next
  case 2 show ?case using bfs_rank_pop by (simp add: in_inv_image)
next
  case (3 succ goal ext cap u d p q vis x q' vis')
  then show ?case using bfs_rank_expand[of goal ext d p "succ u" q vis q' vis' cap u]
    by (auto simp: in_inv_image)
qed

subsection \<open>Walks\<close>

fun walk :: "('s \<Rightarrow> ('l \<times> 's) list) \<Rightarrow> 's \<Rightarrow> 'l list \<Rightarrow> 's \<Rightarrow> bool" where
  "walk succ s [] t = (s = t)"
| "walk succ s (l # ls) t = (\<exists>(l', v) \<in> set (succ s). l' = l \<and> walk succ v ls t)"

lemma walk_append:
  "walk succ s (xs @ ys) t \<longleftrightarrow> (\<exists>u. walk succ s xs u \<and> walk succ u ys t)"
  by (induction xs arbitrary: s) auto

lemma walk_snoc:
  "walk succ s (ls @ [l]) t \<longleftrightarrow> (\<exists>u. walk succ s ls u \<and> (l, t) \<in> set (succ u))"
  by (auto simp: walk_append)

lemma walk_mono:
  assumes "walk succ s ls t" "\<And>u. set (succ u) \<subseteq> set (succ' u)"
  shows "walk succ' s ls t"
  using assms(1)
proof (induction ls arbitrary: s)
  case (Cons l ls)
  then obtain v where "(l, v) \<in> set (succ s)" "walk succ v ls t" by auto
  with Cons.IH assms(2) show ?case by fastforce
qed simp

subsection \<open>Correctness of the loop\<close>

definition bfs_inv :: "('s \<Rightarrow> ('l \<times> 's) list) \<Rightarrow> ('s \<Rightarrow> bool) \<Rightarrow> ('l \<Rightarrow> 'p \<Rightarrow> 'p) \<Rightarrow> nat \<Rightarrow>
    's \<Rightarrow> 'p \<Rightarrow> ('s \<times> nat \<times> 'p) list \<Rightarrow> ('s \<times> nat \<times> 'p) list \<Rightarrow> 's set \<Rightarrow> bool" where
  "bfs_inv succ goal ext cap s0 p0 dn q vis \<longleftrightarrow>
     (\<forall>(s, d, p) \<in> set (dn @ q). \<exists>ls. walk succ s0 ls s \<and> length ls = d \<and> fold ext ls p0 = p) \<and>
     sorted (map (fst \<circ> snd) (dn @ q)) \<and>
     (\<forall>x \<in> set q. fst (snd x) \<le> Suc (fst (snd (hd q)))) \<and>
     vis = fst ` set (dn @ q) \<and>
     (\<forall>(u, d, p) \<in> set dn. d < cap \<longrightarrow>
        (\<forall>(l, v) \<in> set (succ u). \<not> goal v \<and> (\<exists>d' p'. (v, d', p') \<in> set (dn @ q) \<and> d' \<le> Suc d))) \<and>
     (s0, 0, p0) \<in> set (dn @ q)"

lemma bfs_inv_init: "bfs_inv succ goal ext cap s0 p0 [] [(s0, 0, p0)] {s0}"
  by (auto simp: bfs_inv_def intro: exI[of _ "[]"])

lemma bfs_inv_entry:
  assumes inv: "bfs_inv succ goal ext cap s0 p0 dn q vis"
    and w: "walk succ s0 ls s" "length ls \<le> cap"
    and deep: "\<forall>x \<in> set q. length ls \<le> fst (snd x)"
  shows "\<exists>d p. (s, d, p) \<in> set (dn @ q) \<and> d \<le> length ls"
  using w deep
proof (induction ls arbitrary: s rule: rev_induct)
  case Nil
  then show ?case using inv by (auto simp: bfs_inv_def)
next
  case (snoc l ls)
  from snoc.prems(1) obtain u where u: "walk succ s0 ls u" "(l, s) \<in> set (succ u)"
    by (auto simp: walk_snoc)
  with snoc obtain d p where d: "(u, d, p) \<in> set (dn @ q)" "d \<le> length ls" by fastforce
  have "(u, d, p) \<notin> set q" using d(2) snoc.prems(3) by fastforce
  with d(1) have "(u, d, p) \<in> set dn" by auto
  moreover have "d < cap" using d(2) snoc.prems(2) by simp
  ultimately show ?case using inv u(2) d(2) unfolding bfs_inv_def by fastforce
qed

lemma bfs_inv_no_goal:
  assumes inv: "bfs_inv succ goal ext cap s0 p0 dn q vis"
    and w: "walk succ s0 ls t" "ls \<noteq> []" "length ls \<le> cap"
    and deep: "\<forall>x \<in> set q. length ls \<le> fst (snd x)"
  shows "\<not> goal t"
proof -
  from w(2) obtain ls' l where ls: "ls = ls' @ [l]" by (metis rev_exhaust)
  with w(1) obtain u where u: "walk succ s0 ls' u" "(l, t) \<in> set (succ u)"
    by (auto simp: walk_snoc)
  have "\<forall>x \<in> set q. length ls' \<le> fst (snd x)" using deep ls by fastforce
  with bfs_inv_entry[OF inv u(1)] w(3) ls obtain d p
    where d: "(u, d, p) \<in> set (dn @ q)" "d \<le> length ls'" by fastforce
  have "(u, d, p) \<notin> set q" using d(2) deep ls by fastforce
  with d have "(u, d, p) \<in> set dn" "d < cap" using ls w(3) by auto
  with inv u(2) show ?thesis unfolding bfs_inv_def by fastforce
qed

lemma bfs_inv_step:
  assumes inv: "bfs_inv succ goal ext cap s0 p0 dn ((u, d, p) # q) vis"
    and ex: "d < cap \<Longrightarrow> bfs_expand goal ext d p (succ u) q vis = Inr (q', vis')"
    and le: "cap \<le> d \<Longrightarrow> q' = q \<and> vis' = vis"
  shows "bfs_inv succ goal ext cap s0 p0 (dn @ [(u, d, p)]) q' vis'"
proof -
  note I = inv[unfolded bfs_inv_def]
  obtain new where new: "q' = q @ new" "vis' = vis \<union> fst ` set new"
      "\<forall>x \<in> set new. d < cap \<and> (\<exists>l v. x = (v, Suc d, ext l p) \<and> (l, v) \<in> set (succ u))"
      "d < cap \<Longrightarrow> \<forall>(l, v) \<in> set (succ u). \<not> goal v \<and> v \<in> vis'"
  proof (cases "d < cap")
    case True
    from bfs_expand_Inr[OF ex[OF True]] True that show ?thesis by blast
  next
    case False
    with le that[of "[]"] show ?thesis by auto
  qed
  have pw: "\<exists>ls. walk succ s0 ls u \<and> length ls = d \<and> fold ext ls p0 = p" using I by auto
  have A: "\<forall>(s, d, p) \<in> set ((dn @ [(u, d, p)]) @ q').
      \<exists>ls. walk succ s0 ls s \<and> length ls = d \<and> fold ext ls p0 = p"
  proof
    fix x assume "x \<in> set ((dn @ [(u, d, p)]) @ q')"
    then consider "x \<in> set (dn @ (u, d, p) # q)" | "x \<in> set new" using new(1) by auto
    then show "case x of (s, d, p) \<Rightarrow> \<exists>ls. walk succ s0 ls s \<and> length ls = d \<and> fold ext ls p0 = p"
    proof cases
      case 1 then show ?thesis using I[THEN conjunct1] by (rule bspec[rotated])
    next
      case 2
      with new(3) obtain l v where x: "x = (v, Suc d, ext l p)" "(l, v) \<in> set (succ u)" by blast
      from pw obtain ls where "walk succ s0 ls u" "length ls = d" "fold ext ls p0 = p" by blast
      with x(2) have "walk succ s0 (ls @ [l]) v \<and> length (ls @ [l]) = Suc d \<and>
          fold ext (ls @ [l]) p0 = ext l p" by (auto simp: walk_snoc)
      then show ?thesis using x(1) by blast
    qed
  qed
  have up: "\<forall>x \<in> set q. fst (snd x) \<le> Suc d" using I by auto
  have lo: "\<forall>x \<in> set q. d \<le> fst (snd x)" "\<forall>x \<in> set dn. fst (snd x) \<le> d"
    using I by (auto simp: sorted_append)
  have nd: "\<forall>x \<in> set new. fst (snd x) = Suc d" using new(3) by auto
  have sn: "sorted (map (fst \<circ> snd) new)"
    using nd by (auto simp: sorted_iff_nth_mono)
  have sd: "sorted (map (fst \<circ> snd) dn)" "sorted (map (fst \<circ> snd) q)"
    using I[THEN conjunct2, THEN conjunct1] by (auto simp: sorted_append)
  have B: "sorted (map (fst \<circ> snd) ((dn @ [(u, d, p)]) @ q'))"
  proof -
    have 1: "fst (snd x) \<le> fst (snd y)" if "x \<in> set dn" "y \<in> set q \<union> set new" for x y
    proof -
      have "fst (snd x) \<le> d" "d \<le> fst (snd y)" using that lo nd by auto
      then show ?thesis by simp
    qed
    have 2: "fst (snd x) \<le> fst (snd y)" if "x \<in> set q" "y \<in> set new" for x y
      using that up nd by simp
    have 3: "d \<le> fst (snd y)" if "y \<in> set q \<union> set new" for y using that lo nd by auto
    show ?thesis unfolding new(1) using sn sd 1 2 3 lo(2) by (simp add: sorted_append ball_Un)
  qed
  have C: "\<forall>x \<in> set q'. fst (snd x) \<le> Suc (fst (snd (hd q')))"
  proof (cases "q @ new")
    case (Cons h r)
    then have "h \<in> set q \<union> set new" by (metis Un_iff list.set_intros(1) set_append)
    then have "d \<le> fst (snd h)" using lo nd by auto
    moreover have "hd q' = h" using Cons new(1) by simp
    moreover have "\<forall>x \<in> set q'. fst (snd x) \<le> Suc d" using up nd new(1) by auto
    ultimately show ?thesis by fastforce
  qed (simp add: new(1))
  have D: "vis' = fst ` set ((dn @ [(u, d, p)]) @ q')" using I new(1,2) by auto
  have E: "\<forall>(w, e, r) \<in> set (dn @ [(u, d, p)]). e < cap \<longrightarrow> (\<forall>(l, v) \<in> set (succ w).
      \<not> goal v \<and> (\<exists>d' p'. (v, d', p') \<in> set ((dn @ [(u, d, p)]) @ q') \<and> d' \<le> Suc e))"
  proof
    fix x assume x: "x \<in> set (dn @ [(u, d, p)])"
    show "case x of (w, e, r) \<Rightarrow> e < cap \<longrightarrow> (\<forall>(l, v) \<in> set (succ w).
      \<not> goal v \<and> (\<exists>d' p'. (v, d', p') \<in> set ((dn @ [(u, d, p)]) @ q') \<and> d' \<le> Suc e))"
    proof (cases "x \<in> set dn")
      case True
      then show ?thesis using I unfolding new(1) by fastforce
    next
      case False
      with x have xe: "x = (u, d, p)" by auto
      have "\<exists>d' p'. (v, d', p') \<in> set ((dn @ [(u, d, p)]) @ q') \<and> d' \<le> Suc d"
        if "v \<in> vis'" for v
        using that D lo up nd unfolding new(1) by fastforce
      with xe new(4) show ?thesis by fastforce
    qed
  qed
  have F: "(s0, 0, p0) \<in> set ((dn @ [(u, d, p)]) @ q')" using I new(1) by auto
  show ?thesis unfolding bfs_inv_def using A B C D E F by blast
qed

lemma bfs_inv_hit:
  assumes inv: "bfs_inv succ goal ext cap s0 p0 dn ((u, d, p) # q) vis"
    and "d < cap" and "bfs_expand goal ext d p (succ u) q vis = Inl r"
  shows "\<exists>ls t. walk succ s0 ls t \<and> goal t \<and> ls \<noteq> [] \<and> length ls \<le> cap \<and> fold ext ls p0 = r \<and>
     (\<forall>ls' t'. walk succ s0 ls' t' \<longrightarrow> ls' \<noteq> [] \<longrightarrow> goal t' \<longrightarrow> length ls \<le> length ls')"
proof -
  from bfs_expand_Inl[OF assms(3)] obtain l v
    where v: "(l, v) \<in> set (succ u)" "goal v" "r = ext l p" by blast
  from inv obtain ls where ls: "walk succ s0 ls u" "length ls = d" "fold ext ls p0 = p"
    unfolding bfs_inv_def by auto
  have "length (ls @ [l]) \<le> length ls'"
    if w: "walk succ s0 ls' t'" "ls' \<noteq> []" "goal t'" for ls' t'
  proof (rule ccontr)
    assume "\<not> ?thesis"
    then have le: "length ls' \<le> d" using ls(2) by simp
    have "\<forall>x \<in> set ((u, d, p) # q). d \<le> fst (snd x)"
      using inv unfolding bfs_inv_def by (auto simp: sorted_append)
    then have "\<forall>x \<in> set ((u, d, p) # q). length ls' \<le> fst (snd x)" using le by fastforce
    with bfs_inv_no_goal[OF inv w(1,2)] le assms(2) w(3) show False by auto
  qed
  moreover have "walk succ s0 (ls @ [l]) v" using ls(1) v(1) by (auto simp: walk_snoc)
  ultimately show ?thesis using v ls assms(2)
    by (intro exI[of _ "ls @ [l]"] exI[of _ v]) auto
qed

lemma bfs_result:
  assumes "bfs_inv succ goal ext cap s0 p0 dn q vis"
  shows "case bfs succ goal ext cap q vis of
     None \<Rightarrow> (\<forall>ls t. walk succ s0 ls t \<longrightarrow> ls \<noteq> [] \<longrightarrow> length ls \<le> cap \<longrightarrow> \<not> goal t)
   | Some r \<Rightarrow> (\<exists>ls t. walk succ s0 ls t \<and> goal t \<and> ls \<noteq> [] \<and> length ls \<le> cap \<and>
        fold ext ls p0 = r \<and>
        (\<forall>ls' t'. walk succ s0 ls' t' \<longrightarrow> ls' \<noteq> [] \<longrightarrow> goal t' \<longrightarrow> length ls \<le> length ls'))"
  using assms
proof (induction succ goal ext cap q vis arbitrary: dn rule: bfs.induct)
  case (1 succ goal ext cap vis)
  show ?case using bfs_inv_no_goal[OF 1] by auto
next
  case (2 succ goal ext cap u d p q vis)
  show ?case
  proof (cases "cap \<le> d")
    case True
    have "bfs_inv succ goal ext cap s0 p0 (dn @ [(u, d, p)]) q vis"
      by (rule bfs_inv_step[OF 2(3)]) (use True in auto)
    from 2(1)[OF True this] True show ?thesis by simp
  next
    case False
    show ?thesis
    proof (cases "bfs_expand goal ext d p (succ u) q vis")
      case (Inl r)
      with bfs_inv_hit[OF 2(3) _ Inl] False show ?thesis by simp
    next
      case (Inr x)
      obtain q' vis' where x: "x = (q', vis')" by (cases x)
      have "bfs_inv succ goal ext cap s0 p0 (dn @ [(u, d, p)]) q' vis'"
        by (rule bfs_inv_step[OF 2(3)]) (use False Inr x in auto)
      from 2(2)[OF False Inr x[symmetric] this] False Inr x show ?thesis by simp
    qed
  qed
qed

definition bfs_from :: "('s \<Rightarrow> ('l \<times> 's) list) \<Rightarrow> ('s \<Rightarrow> bool) \<Rightarrow> ('l \<Rightarrow> 'p \<Rightarrow> 'p) \<Rightarrow> nat \<Rightarrow>
    's \<Rightarrow> 'p \<Rightarrow> 'p option" where
  "bfs_from succ goal ext cap s0 p0 = bfs succ goal ext cap [(s0, 0, p0)] {s0}"

lemma bfs_from_NoneD:
  assumes "bfs_from succ goal ext cap s0 p0 = None"
    "walk succ s0 ls t" "ls \<noteq> []" "length ls \<le> cap"
  shows "\<not> goal t"
  using bfs_result[OF bfs_inv_init[of succ goal ext cap s0 p0]] assms
  by (auto simp: bfs_from_def)

lemma bfs_from_SomeD:
  assumes "bfs_from succ goal ext cap s0 p0 = Some r"
  shows "\<exists>ls t. walk succ s0 ls t \<and> goal t \<and> ls \<noteq> [] \<and> length ls \<le> cap \<and> fold ext ls p0 = r \<and>
     (\<forall>ls' t'. walk succ s0 ls' t' \<longrightarrow> ls' \<noteq> [] \<longrightarrow> goal t' \<longrightarrow> length ls \<le> length ls')"
  using bfs_result[OF bfs_inv_init[of succ goal ext cap s0 p0]] assms
  by (auto simp: bfs_from_def)

lemma bfs_from_iff:
  "bfs_from succ goal ext cap s0 p0 \<noteq> None \<longleftrightarrow>
     (\<exists>ls t. walk succ s0 ls t \<and> goal t \<and> ls \<noteq> [] \<and> length ls \<le> cap)" (is "?l \<longleftrightarrow> ?r")
proof
  assume ?l
  then obtain r where "bfs_from succ goal ext cap s0 p0 = Some r" by blast
  from bfs_from_SomeD[OF this] show ?r by blast
next
  assume ?r
  then show ?l using bfs_from_NoneD[of succ goal ext cap s0 p0] by blast
qed

subsection \<open>Unbounded search inside a node set\<close>

text \<open>
  The worklist search the thread tree uses: an edge to a goal ends it, and only
  unvisited successors inside the node set are explored (the start need not be
  in it).  It returns whether the goal was hit and the visited set.
\<close>

fun scan_edges :: "('s \<Rightarrow> bool) \<Rightarrow> 's list \<Rightarrow> 's list \<Rightarrow> 's list \<Rightarrow> 's set \<Rightarrow> ('s list \<times> 's set) option" where
  "scan_edges goal U [] q vis = Some (q, vis)"
| "scan_edges goal U (v # vs) q vis =
     (if goal v then None
      else if v \<in> set U \<and> v \<notin> vis then scan_edges goal U vs (q @ [v]) (insert v vis)
      else scan_edges goal U vs q vis)"

lemma scan_edges_Some:
  "scan_edges goal U vs q vis = Some (q', vis') \<Longrightarrow>
     (\<exists>new. q' = q @ new \<and> vis' = vis \<union> set new \<and> set new \<subseteq> set vs \<inter> set U - vis \<and> distinct new) \<and>
     (\<forall>v \<in> set vs. \<not> goal v \<and> (v \<in> set U \<longrightarrow> v \<in> vis'))"
proof (induction vs arbitrary: q vis)
  case Nil then show ?case by auto
next
  case (Cons v vs)
  show ?case
  proof (cases "v \<in> set U \<and> v \<notin> vis")
    case True
    with Cons.prems have "scan_edges goal U vs (q @ [v]) (insert v vis) = Some (q', vis')" "\<not> goal v"
      by (auto split: if_splits)
    from Cons.IH[OF this(1)] obtain new where
      new: "q' = (q @ [v]) @ new" "vis' = insert v vis \<union> set new"
        "set new \<subseteq> set vs \<inter> set U - insert v vis" "distinct new"
        "\<forall>w \<in> set vs. \<not> goal w \<and> (w \<in> set U \<longrightarrow> w \<in> vis')" by blast
    have "q' = q @ (v # new) \<and> vis' = vis \<union> set (v # new) \<and>
        set (v # new) \<subseteq> set (v # vs) \<inter> set U - vis \<and> distinct (v # new)"
      using new True by auto
    then show ?thesis using new(2,5) \<open>\<not> goal v\<close> by auto
  next
    case False
    with Cons.prems have "scan_edges goal U vs q vis = Some (q', vis')" "\<not> goal v"
      by (auto split: if_splits)
    from Cons.IH[OF this(1)] obtain new where
      new: "q' = q @ new" "vis' = vis \<union> set new" "set new \<subseteq> set vs \<inter> set U - vis" "distinct new"
        "\<forall>w \<in> set vs. \<not> goal w \<and> (w \<in> set U \<longrightarrow> w \<in> vis')" by blast
    then have "q' = q @ new \<and> vis' = vis \<union> set new \<and>
        set new \<subseteq> set (v # vs) \<inter> set U - vis \<and> distinct new" by auto
    then show ?thesis using new(2,5) False \<open>\<not> goal v\<close> by auto
  qed
qed

lemma scan_edges_None:
  "scan_edges goal U vs q vis = None \<Longrightarrow> \<exists>v \<in> set vs. goal v"
  by (induction vs arbitrary: q vis) (auto split: if_splits)

lemma search_measure:
  assumes "scan_edges goal U vs q vis = Some (q', vis')"
  shows "2 * card (set U - vis') + length q' < 2 * card (set U - vis) + length (u # q)"
proof -
  from scan_edges_Some[OF assms] obtain new where
    new: "q' = q @ new" "vis' = vis \<union> set new" "set new \<subseteq> set vs \<inter> set U - vis" "distinct new"
    by blast
  have "set U - vis' = (set U - vis) - set new" using new(2) by auto
  then have "card (set U - vis') = card (set U - vis) - card (set new)"
    using new(3) by (simp add: card_Diff_subset Int_absorb1 subset_iff)
  moreover have "card (set new) \<le> card (set U - vis)"
    using new(3) by (intro card_mono) auto
  moreover have "card (set new) = length new" using new(4) by (rule distinct_card)
  ultimately show ?thesis using new(1) by simp
qed

function search :: "('s \<Rightarrow> 's list) \<Rightarrow> ('s \<Rightarrow> bool) \<Rightarrow> 's list \<Rightarrow> 's list \<Rightarrow> 's set \<Rightarrow> bool \<times> 's set" where
  "search succ goal U [] vis = (False, vis)"
| "search succ goal U (u # q) vis =
     (case scan_edges goal U (succ u) q vis of
        None \<Rightarrow> (True, vis)
      | Some (q', vis') \<Rightarrow> search succ goal U q' vis')"
  by pat_completeness auto
termination
proof (relation "measure (\<lambda>(succ, goal, U, q, vis). 2 * card (set U - vis) + length q)", goal_cases)
  case (2 succ goal U u q vis x q' vis')
  then have "scan_edges goal U (succ u) q vis = Some (q', vis')" by simp
  from search_measure[OF this, of u] show ?case by simp
qed simp

definition inside :: "('s \<Rightarrow> 's list) \<Rightarrow> 's list \<Rightarrow> 's \<Rightarrow> 's \<Rightarrow> bool" where
  "inside succ U a b \<longleftrightarrow> b \<in> set (succ a) \<and> b \<in> set U"

definition search_inv :: "('s \<Rightarrow> 's list) \<Rightarrow> ('s \<Rightarrow> bool) \<Rightarrow> 's list \<Rightarrow> 's \<Rightarrow> 's list \<Rightarrow> 's set \<Rightarrow> bool" where
  "search_inv succ goal U s q vis \<longleftrightarrow>
     s \<in> vis \<and> set q \<subseteq> vis \<and> (\<forall>v \<in> vis. (inside succ U)\<^sup>*\<^sup>* s v) \<and>
     (\<forall>u \<in> vis - set q. \<forall>v \<in> set (succ u). \<not> goal v \<and> (v \<in> set U \<longrightarrow> v \<in> vis))"

lemma search_inv_closed:
  assumes "search_inv succ goal U s [] vis" "(inside succ U)\<^sup>*\<^sup>* s v"
  shows "v \<in> vis"
  using assms(2,1) by induction (auto simp: search_inv_def inside_def)

lemma search_correct:
  assumes "search_inv succ goal U s q vis"
  shows "(fst (search succ goal U q vis) \<longleftrightarrow>
           (\<exists>u v. (inside succ U)\<^sup>*\<^sup>* s u \<and> v \<in> set (succ u) \<and> goal v)) \<and>
         (\<not> fst (search succ goal U q vis) \<longrightarrow>
           snd (search succ goal U q vis) = {v. (inside succ U)\<^sup>*\<^sup>* s v})"
  using assms
proof (induction succ goal U q vis rule: search.induct)
  case (1 succ goal U vis)
  have v: "vis = {v. (inside succ U)\<^sup>*\<^sup>* s v}"
    using 1 search_inv_closed[OF 1] unfolding search_inv_def by blast
  have c: "\<not> goal w" if "u \<in> vis" "w \<in> set (succ u)" for u w
    using 1 that unfolding search_inv_def by simp
  have "\<not> (\<exists>u w. (inside succ U)\<^sup>*\<^sup>* s u \<and> w \<in> set (succ u) \<and> goal w)"
    using c v by blast
  with v show ?case by simp
next
  case (2 succ goal U u q vis)
  show ?case
  proof (cases "scan_edges goal U (succ u) q vis")
    case None
    with scan_edges_None obtain v where "v \<in> set (succ u)" "goal v" by fastforce
    moreover have "(inside succ U)\<^sup>*\<^sup>* s u" using 2(2) by (auto simp: search_inv_def)
    ultimately show ?thesis using None by auto
  next
    case (Some x)
    obtain q' vis' where x: "x = (q', vis')" by (cases x)
    from scan_edges_Some[OF Some[unfolded x]] obtain new where
      new: "q' = q @ new" "vis' = vis \<union> set new" "set new \<subseteq> set (succ u) \<inter> set U - vis"
        "\<forall>v \<in> set (succ u). \<not> goal v \<and> (v \<in> set U \<longrightarrow> v \<in> vis')" by blast
    have su: "(inside succ U)\<^sup>*\<^sup>* s u" using 2(2) by (auto simp: search_inv_def)
    note I = 2(2)[unfolded search_inv_def]
    have rn: "(inside succ U)\<^sup>*\<^sup>* s v" if "v \<in> set new" for v
    proof -
      have "inside succ U u v" using that new(3) by (auto simp: inside_def)
      with su show ?thesis by (rule rtranclp.rtrancl_into_rtrancl)
    qed
    have "search_inv succ goal U s q' vis'"
      unfolding search_inv_def
    proof (intro conjI ballI)
      show "s \<in> vis'" "set q' \<subseteq> vis'" using I new(1,2) by auto
      show "(inside succ U)\<^sup>*\<^sup>* s v" if "v \<in> vis'" for v using that I new(2) rn by blast
      fix w v assume w: "w \<in> vis' - set q'" and v: "v \<in> set (succ w)"
      have "\<not> goal v \<and> (v \<in> set U \<longrightarrow> v \<in> vis')"
      proof (cases "w = u")
        case True with new(4) v show ?thesis by simp
      next
        case False
        with w new(1,2) have "w \<in> vis - set (u # q)" by auto
        with I v have "\<not> goal v \<and> (v \<in> set U \<longrightarrow> v \<in> vis)" by blast
        with new(2) show ?thesis by blast
      qed
      then show "\<not> goal v" "v \<in> set U \<longrightarrow> v \<in> vis'" by simp_all
    qed
    from 2(1)[OF Some x[symmetric] this] Some x show ?thesis by simp
  qed
qed

lemma search_inv_init: "search_inv succ goal U s [s] {s}"
  by (auto simp: search_inv_def)

lemmas search_start = search_correct[OF search_inv_init]

end
