(* ===== verification/ThreadTree.thy ===== *)
theory ThreadTree
  imports Ccpg ManualEntry GraphSearch
begin

text \<open>
  The thread-creation tree (include/CCPG/ThreadCreationTree.h and
  src/CCPG/ThreadCreationTree.cpp): abstract threads with their parents, fork and
  join nodes, the may-happen-in-parallel relation between them with its two
  caches, the call-chain enumeration and the node searches inside a thread.
  Threads live in a heap of the tree state; the pointer analysis' data-sharing
  query is the argument \<open>shared\<close> (absent when the analysis is).
\<close>

subsection \<open>State\<close>

record thread =
  th_id :: nat
  th_nodes :: "ptr list"
  th_edges :: "ccpg_edge list"
  forkNode :: ptr
  joinNode :: ptr
  parent :: ptr
  children :: "ptr list"
  th_typeToNodeSet :: "api_type \<Rightarrow> ptr list"
  th_functions :: "ptr list"
  threadMainFunction :: ptr
  isMainThread :: bool
  isKernelEntry :: bool
  isReentrant :: bool

record tct =
  threadH :: "ptr \<Rightarrow> thread"
  threads :: "ptr list"
  parallelThreadPairs :: "ptr \<times> ptr \<Rightarrow> string option"
  concurrencyCache :: "ptr \<times> ptr \<Rightarrow> bool option"
  mayHappenInParallelCache :: "ptr \<times> ptr \<Rightarrow> bool option"

abbreviation thr :: "tct \<Rightarrow> ptr \<Rightarrow> thread" where "thr T t \<equiv> threadH T t"

definition addThread :: "ptr \<Rightarrow> tct \<Rightarrow> tct" where
  "addThread t T = T\<lparr>threads := List.insert t (threads T)\<rparr>"

definition thread_addNode :: "api_type \<Rightarrow> ptr \<Rightarrow> thread \<Rightarrow> thread" where
  "thread_addNode ty n t = t\<lparr>th_nodes := List.insert n (th_nodes t),
     th_typeToNodeSet := (th_typeToNodeSet t)(ty := List.insert n (th_typeToNodeSet t ty))\<rparr>"

definition thread_addFunction :: "func \<Rightarrow> ptr \<Rightarrow> thread \<Rightarrow> thread" where
  "thread_addFunction f p t = t\<lparr>th_functions := List.insert p (th_functions t),
     th_nodes := fold List.insert (fn_nodes f) (th_nodes t),
     th_edges := fold List.insert (fn_edges f) (th_edges t)\<rparr>"

definition thread_removeFunction :: "ccpg \<Rightarrow> ptr \<Rightarrow> thread \<Rightarrow> thread" where
  "thread_removeFunction g f t = t\<lparr>th_functions := removeAll f (th_functions t),
     th_nodes := filter (\<lambda>n. nd_function (nodeOf g n) \<noteq> f) (th_nodes t)\<rparr>"

definition getThreadById :: "tct \<Rightarrow> nat \<Rightarrow> ptr" where
  "getThreadById T i = (case List.find (\<lambda>t. th_id (thr T t) = i) (threads T) of Some t \<Rightarrow> t | None \<Rightarrow> null)"

definition addParallelThreadPairs :: "ptr \<Rightarrow> ptr \<Rightarrow> string \<Rightarrow> tct \<Rightarrow> tct" where
  "addParallelThreadPairs t1 t2 relation T =
     (let key = (if t1 \<le> t2 then (t1, t2) else (t2, t1))
      in if parallelThreadPairs T key \<noteq> None then T
         else T\<lparr>parallelThreadPairs := (parallelThreadPairs T)((t1, t2) \<mapsto> relation)\<rparr>)"

definition getThreadRelationship :: "tct \<Rightarrow> ptr \<Rightarrow> ptr \<Rightarrow> string" where
  "getThreadRelationship T t1 t2 =
     (case parallelThreadPairs T (t1, t2) of Some r \<Rightarrow> r | None \<Rightarrow> ''No relationship found'')"

subsection \<open>Searches inside a thread\<close>

definition succs :: "ccpg \<Rightarrow> ptr \<Rightarrow> ptr list" where
  "succs g n = map e_dst (nd_out (nodeOf g n))"

definition preds :: "ccpg \<Rightarrow> ptr \<Rightarrow> ptr list" where
  "preds g n = map e_src (nd_in (nodeOf g n))"

definition isReachable :: "ccpg \<Rightarrow> tct \<Rightarrow> ptr \<Rightarrow> ptr \<Rightarrow> ptr \<Rightarrow> bool" where
  "isReachable g T start end thread =
     (if start = null \<or> end = null \<or> thread = null then False
      else if start = end then True
      else fst (search (succs g) (\<lambda>v. v = end) (th_nodes (thr T thread)) [start] {start}))"

definition getReachableNodes :: "ccpg \<Rightarrow> tct \<Rightarrow> ptr \<Rightarrow> ptr \<Rightarrow> bool \<Rightarrow> ptr set" where
  "getReachableNodes g T startNode thread forward =
     (if startNode = null \<or> thread = null \<or> startNode \<notin> set (th_nodes (thr T thread)) then {}
      else snd (search (if forward then succs g else preds g) (\<lambda>_. False)
                 (th_nodes (thr T thread)) [startNode] {startNode}))"

text \<open>
  The second search of the lowest-common-ancestor helper tests a node when it is
  dequeued, so it is a loop of its own.
\<close>

function lca_loop :: "ccpg \<Rightarrow> ptr list \<Rightarrow> ptr set \<Rightarrow> ptr list \<Rightarrow> ptr set \<Rightarrow> ptr" where
  "lca_loop g U anc [] vis = null"
| "lca_loop g U anc (u # q) vis =
     (if u \<in> anc then u
      else case scan_edges (\<lambda>_. False) U (preds g u) q vis of
        None \<Rightarrow> null
      | Some (q', vis') \<Rightarrow> lca_loop g U anc q' vis')"
  by pat_completeness auto
termination
proof (relation "measure (\<lambda>(g, U, anc, q, vis). 2 * card (set U - vis) + length q)", goal_cases)
  case (2 g U anc u q vis x q' vis')
  then have "scan_edges (\<lambda>_. False) U (preds g u) q vis = Some (q', vis')" by simp
  from search_measure[OF this, of u] show ?case by simp
qed simp

definition findLCA :: "ccpg \<Rightarrow> ptr \<Rightarrow> ptr \<Rightarrow> ptr" where
  "findLCA g n1 n2 =
     (if n1 = null \<or> n2 = null then null
      else if n1 = n2 then n1
      else let f = nd_function (nodeOf g n1) in
        if f = null \<or> f \<noteq> nd_function (nodeOf g n2) then null
        else let U = fn_nodes (funH g f);
                 anc = snd (search (preds g) (\<lambda>_. False) U [n1] {n1})
             in lca_loop g U anc [n2] {n2})"

subsection \<open>Names of thread entries\<close>

definition findIdx :: "string \<Rightarrow> string \<Rightarrow> nat option" where
  "findIdx s t = List.find (\<lambda>i. startsWith (drop i s) t) [0 ..< Suc (length s)]"

definition tokenAtEnd :: "string \<Rightarrow> string \<Rightarrow> bool" where
  "tokenAtEnd name tok \<longleftrightarrow> length tok \<le> length name \<and> findIdx name tok = Some (length name - length tok)"

definition entryLifecyclePhase :: "string \<Rightarrow> string" where
  "entryLifecyclePhase name =
     (if name = [] then []
      else if (contains name ''_init'' \<or> name = ''init_module'' \<or> contains name ''_probe'' \<or>
               contains name ''_open'' \<or> contains name ''_attach'' \<or> contains name ''_bind'' \<or>
               contains name ''_alloc'') \<and>
              (tokenAtEnd name ''_init'' \<or> name = ''init_module'' \<or> tokenAtEnd name ''_probe'' \<or>
               tokenAtEnd name ''_open'' \<or> tokenAtEnd name ''_attach'' \<or> tokenAtEnd name ''_bind'')
        then ''init''
      else if tokenAtEnd name ''_exit'' then ''exit''
      else if name = ''cleanup_module'' then ''exit''
      else if tokenAtEnd name ''_remove'' then ''exit''
      else if tokenAtEnd name ''_release'' then ''exit''
      else if tokenAtEnd name ''_close'' then ''exit''
      else if tokenAtEnd name ''_detach'' then ''exit''
      else if tokenAtEnd name ''_destroy'' then ''exit''
      else [])"

definition threadEntryName :: "ccpg \<Rightarrow> tct \<Rightarrow> ptr \<Rightarrow> string" where
  "threadEntryName g T t =
     (if t = null then []
      else let mf = threadMainFunction (thr T t) in
        if mf = null then []
        else case fn_llvm (funH g mf) of
          Some n \<Rightarrow> n
        | None \<Rightarrow> let fn = fn_funcNode (funH g mf) in
            if fn \<noteq> null \<and> nd_cpg (nodeOf g fn) \<noteq> null then getName (cpgOf g fn) else [])"

definition reentrantMarkers :: "string list" where
  "reentrantMarkers = [''__do_sys_'', ''__se_sys_'', ''__x64_sys_'', ''__arm64_sys_'', ''__ia32_sys_'',
     ''queue_rq'', ''kvm_vcpu_'', ''kvm_arch_vcpu_'', ''vcpu_run'']"

definition reentrantSuffixes :: "string list" where
  "reentrantSuffixes = [''_ioctl'', ''_compat_ioctl'', ''_unlocked_ioctl'', ''_read'', ''_write'',
     ''_pread'', ''_pwrite'', ''_readv'', ''_writev'', ''_poll'', ''_mmap'', ''_fsync'', ''_flush'',
     ''_release'', ''_open'',
     ''_show'', ''_store'', ''_start'', ''_next'', ''_stop'', ''_seq_show'', ''_seq_start'',
     ''_seq_next'', ''_seq_stop'',
     ''_sendmsg'', ''_recvmsg'', ''_do_rcv'', ''_dorcv'', ''_rcv'', ''_output'', ''_input'', ''_xmit'',
     ''_queue_rq'', ''_complete_rq'', ''_timeout'', ''_done'', ''_handler'',
     ''_iterate'', ''_iterate_shared'', ''_lookup'', ''_readdir'',
     ''_softirq'', ''_timer_fn'', ''_tasklet'', ''_action'', ''_work'', ''_work_fn'', ''_irq'']"

definition isReentrantEntryName :: "string \<Rightarrow> bool" where
  "isReentrantEntryName name =
     (if name = [] then False
      else list_ex (contains name) reentrantMarkers \<or> list_ex (endsWith name) reentrantSuffixes)"

definition isEntryLifecycleIncompatible :: "ccpg \<Rightarrow> tct \<Rightarrow> ptr \<Rightarrow> ptr \<Rightarrow> bool" where
  "isEntryLifecycleIncompatible g T t1 t2 =
     (let p1 = entryLifecyclePhase (threadEntryName g T t1);
          p2 = entryLifecyclePhase (threadEntryName g T t2)
      in if p1 = [] \<or> p2 = [] then False
         else p1 = ''init'' \<and> p2 = ''exit'' \<or> p1 = ''exit'' \<and> p2 = ''init'')"

subsection \<open>May two threads run in parallel\<close>

type_synonym sharing = "(string \<Rightarrow> string \<Rightarrow> bool) option"

text \<open>The value the code computes for sibling threads, without the cache.\<close>

definition mhp_compute :: "config \<Rightarrow> sharing \<Rightarrow> ccpg \<Rightarrow> tct \<Rightarrow> ptr \<Rightarrow> ptr \<Rightarrow> bool" where
  "mhp_compute cfg shared g T t1 t2 =
     (let par = parent (thr T t1) in
      if par = null then
        (if \<not> (isKernelEntry (thr T t1) \<and> isKernelEntry (thr T t2)) then False
         else if enabled cfg \<and> matches cfg (threadEntryName g T t1) \<and> matches cfg (threadEntryName g T t2)
           then True
         else if isEntryLifecycleIncompatible g T t1 t2 then False
         else (case shared of
             Some doEntriesHaveSharedData \<Rightarrow>
               (let n1 = threadEntryName g T t1; n2 = threadEntryName g T t2
                in \<not> (n1 \<noteq> [] \<and> n2 \<noteq> [] \<and> \<not> doEntriesHaveSharedData n1 n2))
           | None \<Rightarrow> True))
      else
        (let t1HBt2 = (joinNode (thr T t1) \<noteq> null \<and>
                       isReachable g T (joinNode (thr T t1)) (forkNode (thr T t2)) par);
             t2HBt1 = (joinNode (thr T t2) \<noteq> null \<and>
                       isReachable g T (joinNode (thr T t2)) (forkNode (thr T t1)) par)
         in \<not> t1HBt2 \<and> \<not> t2HBt1))"

definition cacheKey :: "ptr \<Rightarrow> ptr \<Rightarrow> ptr \<times> ptr" where
  "cacheKey t1 t2 = (if t1 \<le> t2 then (t1, t2) else (t2, t1))"

definition mayHappenInParallel :: "config \<Rightarrow> sharing \<Rightarrow> ccpg \<Rightarrow> ptr \<Rightarrow> ptr \<Rightarrow> tct \<Rightarrow> bool \<times> tct" where
  "mayHappenInParallel cfg shared g t1 t2 T =
     (case mayHappenInParallelCache T (cacheKey t1 t2) of
        Some b \<Rightarrow> (b, T)
      | None \<Rightarrow>
          (let b = mhp_compute cfg shared g T t1 t2
           in (b, T\<lparr>mayHappenInParallelCache := (mayHappenInParallelCache T)(cacheKey t1 t2 \<mapsto> b)\<rparr>)))"

partial_function (option) isDescendant_from :: "tct \<Rightarrow> ptr \<Rightarrow> ptr \<Rightarrow> bool option" where
  "isDescendant_from T p t2 =
     (if p = null then Some False
      else if p = t2 then Some True
      else isDescendant_from T (parent (thr T p)) t2)"

definition isDescendant :: "tct \<Rightarrow> ptr \<Rightarrow> ptr \<Rightarrow> bool option" where
  "isDescendant T t1 t2 = isDescendant_from T (parent (thr T t1)) t2"

partial_function (option) mayThreadsRunConcurrently ::
    "config \<Rightarrow> sharing \<Rightarrow> ccpg \<Rightarrow> ptr \<Rightarrow> ptr \<Rightarrow> tct \<Rightarrow> (bool \<times> tct) option" where
  "mayThreadsRunConcurrently cfg shared g t1 t2 T =
     (if t1 = t2 then Some (t1 \<noteq> null \<and> isReentrant (thr T t1), T)
      else case concurrencyCache T (cacheKey t1 t2) of
        Some b \<Rightarrow> Some (b, T)
      | None \<Rightarrow>
         Option.bind (isDescendant T t1 t2) (\<lambda>d1.
         Option.bind (if d1 then Some True else isDescendant T t2 t1) (\<lambda>d.
         Option.bind
           (if d then Some (True, T)
            else if parent (thr T t1) = parent (thr T t2) then Some (mayHappenInParallel cfg shared g t1 t2 T)
            else if parent (thr T t1) \<noteq> null \<and> parent (thr T t2) \<noteq> null
              then mayThreadsRunConcurrently cfg shared g (parent (thr T t1)) (parent (thr T t2)) T
            else Some (False, T))
           (\<lambda>(result, T').
             Some (result, T'\<lparr>concurrencyCache := (concurrencyCache T')(cacheKey t1 t2 \<mapsto> result)\<rparr>)))))"

subsection \<open>Call chains\<close>

text \<open>
  Enumeration of the call chains from a root function to a target, walking
  callers depth first with the current chain as the visited set.  The fuel bounds
  the recursion depth; running out is the outer None.
\<close>

fun callPaths_dfs :: "nat \<Rightarrow> ccpg \<Rightarrow> ptr \<Rightarrow> ptr \<Rightarrow> ptr list \<Rightarrow> ptr list list option" where
  "callPaths_dfs 0 g root cur path = None"
| "callPaths_dfs (Suc k) g root cur path =
     (if cur = root then Some [rev (path @ [cur])]
      else if cur \<in> set path then Some []
      else map_option concat (those (map (\<lambda>c. callPaths_dfs k g root c (path @ [cur])) (getCallers g cur))))"

definition getAllCallPaths :: "nat \<Rightarrow> ccpg \<Rightarrow> ptr \<Rightarrow> ptr \<Rightarrow> ptr list list option" where
  "getAllCallPaths k g target root =
     (if target = null \<or> root = null then Some [] else callPaths_dfs k g root target [])"

fun commonDepth :: "ptr list \<Rightarrow> ptr list \<Rightarrow> nat" where
  "commonDepth (a # as) (b # bs) = (if a = b then Suc (commonDepth as bs) else 0)"
| "commonDepth _ _ = 0"

definition isBeforeInCallChains :: "ccpg \<Rightarrow> ptr list \<Rightarrow> ptr list \<Rightarrow> bool" where
  "isBeforeInCallChains g c1 c2 =
     (let d = commonDepth c1 c2 in
      if d = 0 then False
      else if d = length c1 \<and> d = length c2 then False
      else if d = length c1 then getCallOrder g (c1 ! (d - 1)) (c2 ! d) \<noteq> -1
      else if d = length c2 then getCallOrder g (c2 ! (d - 1)) (c1 ! d) \<noteq> -1
      else (let o1 = getCallOrder g (c1 ! (d - 1)) (c1 ! d); o2 = getCallOrder g (c1 ! (d - 1)) (c2 ! d)
            in o1 \<noteq> -1 \<and> o2 \<noteq> -1 \<and> o1 < o2))"

text \<open>Search for a call path: a queue of node paths; a call site extends the path it was found in.\<close>

fun callPath_scan :: "ccpg \<Rightarrow> ptr list \<Rightarrow> ptr \<Rightarrow> ptr list \<Rightarrow> ptr list \<Rightarrow> ptr list list \<Rightarrow> ptr set \<Rightarrow>
    ptr list + (ptr list list \<times> ptr set)" where
  "callPath_scan g fns endF path [] q vis = Inr (q, vis)"
| "callPath_scan g fns endF path (n # ns) q vis =
     (case (if nd_callSite (nodeOf g n) then hasCallEdge g n else None) of
        None \<Rightarrow> callPath_scan g fns endF path ns q vis
      | Some e \<Rightarrow>
          (let callee = (if e_dst e = null then null else nd_function (nodeOf g (e_dst e))) in
           if callee \<noteq> null \<and> callee \<in> set fns \<and> callee \<notin> vis then
             (if callee = endF then Inl (path @ [n])
              else callPath_scan g fns endF path ns (q @ [path @ [n]]) (insert callee vis))
           else callPath_scan g fns endF path ns q vis))"

lemma callPath_scan_measure:
  "callPath_scan g fns endF path ns q vis = Inr (q', vis') \<Longrightarrow>
     2 * card (set fns - vis') + length q' \<le> 2 * card (set fns - vis) + length q"
proof (induction g fns endF path ns q vis rule: callPath_scan.induct)
  case (2 g fns endF path n ns q vis)
  show ?case
  proof (cases "if nd_callSite (nodeOf g n) then hasCallEdge g n else None")
    case None
    with 2(1,4) show ?thesis by simp
  next
    case (Some e)
    define callee where "callee = (if e_dst e = null then null else nd_function (nodeOf g (e_dst e)))"
    show ?thesis
    proof (cases "callee \<noteq> null \<and> callee \<in> set fns \<and> callee \<notin> vis")
      case True
      have "set fns - insert callee vis = (set fns - vis) - {callee}" by auto
      then have "card (set fns - insert callee vis) = card (set fns - vis) - 1"
        using True by simp
      moreover have "card (set fns - vis) > 0" using True by (auto simp: card_gt_0_iff)
      moreover have "callee \<noteq> endF" "callPath_scan g fns endF path ns (q @ [path @ [n]]) (insert callee vis) = Inr (q', vis')"
        using 2(4) Some True by (auto simp: callee_def[symmetric] Let_def split: if_splits)
      ultimately show ?thesis using 2(2)[OF Some callee_def True] by simp
    next
      case False
      then show ?thesis using 2(4) 2(3)[OF Some callee_def False] Some
        by (simp add: callee_def[symmetric] Let_def del: de_Morgan_conj)
    qed
  qed
qed simp

function callPath_loop :: "ccpg \<Rightarrow> ptr list \<Rightarrow> ptr \<Rightarrow> ptr list list \<Rightarrow> ptr set \<Rightarrow> ptr list" where
  "callPath_loop g fns endF [] vis = []"
| "callPath_loop g fns endF (path # q) vis =
     (let lastFunc = nd_function (nodeOf g (last path)) in
      if lastFunc = null then callPath_loop g fns endF q vis
      else case callPath_scan g fns endF path (fn_nodes (funH g lastFunc)) q vis of
        Inl p \<Rightarrow> p
      | Inr (q', vis') \<Rightarrow> callPath_loop g fns endF q' vis')"
  by pat_completeness auto
termination
proof (relation "measure (\<lambda>(g, fns, endF, q, vis). 2 * card (set fns - vis) + length q)", goal_cases)
  case (3 g fns endF path q vis lastFunc x q' vis')
  then have "callPath_scan g fns endF path (fn_nodes (funH g lastFunc)) q vis = Inr (q', vis')" by simp
  from callPath_scan_measure[OF this] show ?case by simp
qed simp_all

definition findCallPath :: "ccpg \<Rightarrow> tct \<Rightarrow> ptr \<Rightarrow> ptr \<Rightarrow> ptr \<Rightarrow> ptr list" where
  "findCallPath g T startFunc endFunc thread =
     (if startFunc = endFunc then [fn_funcNode (funH g startFunc)]
      else callPath_loop g (th_functions (thr T thread)) endFunc
             [[fn_funcNode (funH g startFunc)]] {startFunc})"

end
