(* ===== verification/LockSets.thy ===== *)
theory LockSets
  imports Ccpg
begin

text \<open>
  Lockset analysis (include/CCPG/LSAnalysis.h, src/CCPG/LSAnalysis.cpp): abstract
  locks created at acquire sites, the worklist propagation along ORDER edges, and
  the queries on the resulting node locksets.  The lock alias test is the
  pointer analysis' and is the argument \<open>alias\<close>, a relation on the lock
  operations' nodes.  Locks live in a heap; the address of the n-th lock created
  is \<open>lockAddr n\<close>, which fixes the order in which the code sorts them.
\<close>

subsection \<open>Locks and the analysis state\<close>

record lock =
  lk_id :: nat
  typeToNode :: "api_type \<Rightarrow> ptr option"

record lsa =
  lockH :: "ptr \<Rightarrow> lock"
  locks :: "ptr list"
  nodeLockSets :: "ptr \<Rightarrow> ptr list"
  lockAddr :: "nat \<Rightarrow> ptr"

definition getRelatedNode :: "api_type \<Rightarrow> lock \<Rightarrow> ptr" where
  "getRelatedNode ty l = (case typeToNode l ty of Some n \<Rightarrow> n | None \<Rightarrow> null)"

definition getAcquire :: "lock \<Rightarrow> ptr" where "getAcquire l = getRelatedNode ACQUIRE l"

definition getRelease :: "lock \<Rightarrow> ptr" where "getRelease l = getRelatedNode RELEASE l"

definition hasRelease :: "lock \<Rightarrow> bool" where "hasRelease l \<longleftrightarrow> typeToNode l RELEASE \<noteq> None"

definition addRelatedNode :: "ccpg \<Rightarrow> ptr \<Rightarrow> lock \<Rightarrow> lock" where
  "addRelatedNode g n l = l\<lparr>typeToNode := (typeToNode l)(nd_type (nodeOf g n) \<mapsto> n)\<rparr>"

abbreviation lockOf :: "lsa \<Rightarrow> ptr \<Rightarrow> lock" where "lockOf S l \<equiv> lockH S l"

text \<open>A new lock with its acquire node, pushed at the end of a node's lockset.\<close>

definition acquireLock :: "ccpg \<Rightarrow> ptr \<Rightarrow> ptr \<Rightarrow> lsa \<Rightarrow> lsa" where
  "acquireLock g node acqNode S =
     (let n = length (locks S) + 1; p = lockAddr S n;
          l = addRelatedNode g acqNode \<lparr>lk_id = n, typeToNode = (\<lambda>_. None)\<rparr>
      in S\<lparr>lockH := (lockH S)(p := l), locks := List.insert p (locks S),
           nodeLockSets := (nodeLockSets S)(node := nodeLockSets S node @ [p])\<rparr>)"

text \<open>The last lock of the set that has no release yet and aliases the released one.\<close>

definition releaseIndex :: "(ptr \<Rightarrow> ptr \<Rightarrow> bool) \<Rightarrow> lsa \<Rightarrow> ptr list \<Rightarrow> ptr \<Rightarrow> nat option" where
  "releaseIndex alias S ls rel =
     List.find (\<lambda>i. \<not> hasRelease (lockOf S (ls ! i)) \<and> alias (getAcquire (lockOf S (ls ! i))) rel)
       (rev [0 ..< length ls])"

definition releaseLock :: "(ptr \<Rightarrow> ptr \<Rightarrow> bool) \<Rightarrow> ccpg \<Rightarrow> ptr \<Rightarrow> ptr \<Rightarrow> lsa \<Rightarrow> lsa" where
  "releaseLock alias g node relNode S =
     (let ls = nodeLockSets S node in
      case releaseIndex alias S ls relNode of
        None \<Rightarrow> S
      | Some i \<Rightarrow> S\<lparr>lockH := (lockH S)(ls ! i := addRelatedNode g relNode (lockOf S (ls ! i))),
                   nodeLockSets := (nodeLockSets S)(node := take i ls @ drop (Suc i) ls)\<rparr>)"

subsection \<open>Propagation\<close>

definition lockOp :: "(ptr \<Rightarrow> ptr \<Rightarrow> bool) \<Rightarrow> ccpg \<Rightarrow> ptr \<Rightarrow> lsa \<Rightarrow> lsa" where
  "lockOp alias g node S =
     (if nd_type (nodeOf g node) = ACQUIRE then acquireLock g node node S
      else if nd_type (nodeOf g node) = RELEASE then releaseLock alias g node node S
      else S)"

definition calleeOp :: "(ptr \<Rightarrow> ptr \<Rightarrow> bool) \<Rightarrow> ccpg \<Rightarrow> ptr \<Rightarrow> lsa \<Rightarrow> lsa" where
  "calleeOp alias g node S =
     (if \<not> nd_callSite (nodeOf g node) then S
      else case hasCallEdge g node of
        None \<Rightarrow> S
      | Some e \<Rightarrow>
          (let callee = funH g (getFunctionByCCPGNode g (e_dst e)) in
           if acquirePotential callee then acquireLock g node (hd (fn_typeToNodeSet callee ACQUIRE)) S
           else if releasePotential callee
             then releaseLock alias g node (hd (fn_typeToNodeSet callee RELEASE)) S
           else S))"

definition sortUnique :: "ptr list \<Rightarrow> ptr list" where
  "sortUnique ls = remdups_adj (sort ls)"

fun propagate :: "ptr \<Rightarrow> ccpg_edge list \<Rightarrow> ptr set \<Rightarrow> ptr list \<Rightarrow> lsa \<Rightarrow> ptr list \<times> lsa" where
  "propagate node [] visited work S = (work, S)"
| "propagate node (e # es) visited work S =
     (if e_type e \<noteq> ORDER then propagate node es visited work S
      else if e_dst e \<notin> visited then
        propagate node es visited (insort_insert (e_dst e) work)
          (S\<lparr>nodeLockSets := (nodeLockSets S)(e_dst e := nodeLockSets S node)\<rparr>)
      else
        propagate node es visited work
          (S\<lparr>nodeLockSets := (nodeLockSets S)(e_dst e :=
               sortUnique (nodeLockSets S (e_dst e) @ nodeLockSets S node))\<rparr>))"

text \<open>The worklist is an ordered set of node pointers; the least one is taken.  Fuel bounds the rounds.\<close>

fun ls_loop :: "nat \<Rightarrow> (ptr \<Rightarrow> ptr \<Rightarrow> bool) \<Rightarrow> ccpg \<Rightarrow> ptr list \<Rightarrow> ptr set \<Rightarrow> lsa \<Rightarrow> lsa option" where
  "ls_loop k alias g [] visited S = Some S"
| "ls_loop 0 alias g (node # work) visited S = None"
| "ls_loop (Suc k) alias g (node # work) visited S =
     (let visited' = insert node visited;
          S1 = calleeOp alias g node (lockOp alias g node S);
          (work', S2) = propagate node (nd_out (nodeOf g node)) visited' work S1
      in ls_loop k alias g work' visited' S2)"

definition ls_function :: "nat \<Rightarrow> (ptr \<Rightarrow> ptr \<Rightarrow> bool) \<Rightarrow> ccpg \<Rightarrow> ptr \<Rightarrow> lsa \<Rightarrow> lsa option" where
  "ls_function k alias g f S =
     (let fn = fn_funcNode (funH g f)
      in ls_loop k alias g [fn] {} (S\<lparr>nodeLockSets := (nodeLockSets S)(fn := [])\<rparr>))"

fun ls_functions :: "nat \<Rightarrow> (ptr \<Rightarrow> ptr \<Rightarrow> bool) \<Rightarrow> ccpg \<Rightarrow> ptr list \<Rightarrow> lsa \<Rightarrow> lsa option" where
  "ls_functions k alias g [] S = Some S"
| "ls_functions k alias g (f # fs) S = Option.bind (ls_function k alias g f S) (ls_functions k alias g fs)"

definition ls_build :: "nat \<Rightarrow> (ptr \<Rightarrow> ptr \<Rightarrow> bool) \<Rightarrow> ccpg \<Rightarrow> lsa \<Rightarrow> lsa option" where
  "ls_build k alias g S = ls_functions k alias g (g_functions g) S"

definition emptyLsa :: "(nat \<Rightarrow> ptr) \<Rightarrow> lsa" where
  "emptyLsa addr = \<lparr>lockH = (\<lambda>_. \<lparr>lk_id = 0, typeToNode = (\<lambda>_. None)\<rparr>), locks = [],
     nodeLockSets = (\<lambda>_. []), lockAddr = addr\<rparr>"

subsection \<open>Queries\<close>

definition commonLock :: "(ptr \<Rightarrow> ptr \<Rightarrow> bool) \<Rightarrow> lsa \<Rightarrow> ptr list \<Rightarrow> ptr list \<Rightarrow> bool" where
  "commonLock alias S ls1 ls2 =
     list_ex (\<lambda>l1. list_ex (\<lambda>l2. alias (getAcquire (lockOf S l1)) (getAcquire (lockOf S l2))) ls2) ls1"

definition isProtectedBySameLock_node :: "(ptr \<Rightarrow> ptr \<Rightarrow> bool) \<Rightarrow> lsa \<Rightarrow> ptr \<Rightarrow> ptr \<Rightarrow> bool" where
  "isProtectedBySameLock_node alias S n1 n2 = commonLock alias S (nodeLockSets S n1) (nodeLockSets S n2)"

text \<open>
  The context-sensitive lockset: the node's own locks, then each stack frame's
  locks prepended from the innermost frame outwards.
\<close>

definition ctxLocks :: "lsa \<Rightarrow> ptr list \<Rightarrow> context_stack \<Rightarrow> ptr list" where
  "ctxLocks S base ctx = foldl (\<lambda>acc n. nodeLockSets S n @ acc) base (rev ctx)"

definition baseLocks :: "ccpg \<Rightarrow> lsa \<Rightarrow> node_loc \<Rightarrow> ptr list result" where
  "baseLocks g S loc =
     (case getNodesByLoc g loc of [] \<Rightarrow> Throw | n # _ \<Rightarrow> Ok (nodeLockSets S n))"

definition isProtectedBySameLock_loc :: "(ptr \<Rightarrow> ptr \<Rightarrow> bool) \<Rightarrow> ccpg \<Rightarrow> lsa \<Rightarrow>
    node_loc \<Rightarrow> context_stack \<Rightarrow> node_loc \<Rightarrow> context_stack \<Rightarrow> bool result" where
  "isProtectedBySameLock_loc alias g S loc1 ctx1 loc2 ctx2 =
     (case (baseLocks g S loc1, baseLocks g S loc2) of
        (Ok b1, Ok b2) \<Rightarrow> Ok (commonLock alias S (ctxLocks S b1 ctx1) (ctxLocks S b2 ctx2))
      | _ \<Rightarrow> Throw)"

fun lockOrder_scan :: "(ptr \<Rightarrow> ptr \<Rightarrow> bool) \<Rightarrow> lsa \<Rightarrow> ptr \<Rightarrow> ptr \<Rightarrow> bool \<Rightarrow> ptr list \<Rightarrow> bool" where
  "lockOrder_scan alias S first second found [] = False"
| "lockOrder_scan alias S first second found (l # ls) =
     (if alias (getAcquire (lockOf S l)) (getAcquire (lockOf S second))
        then lockOrder_scan alias S first second True ls
      else if found \<and> alias (getAcquire (lockOf S l)) (getAcquire (lockOf S first)) then True
      else lockOrder_scan alias S first second found ls)"

definition hasLockOrderConflict :: "(ptr \<Rightarrow> ptr \<Rightarrow> bool) \<Rightarrow> lsa \<Rightarrow> ptr \<Rightarrow> ptr \<Rightarrow> ptr list \<Rightarrow> bool" where
  "hasLockOrderConflict alias S expectedFirst expectedSecond lockset =
     lockOrder_scan alias S expectedFirst expectedSecond False lockset"

definition orderPhase :: "(ptr \<Rightarrow> ptr \<Rightarrow> bool) \<Rightarrow> lsa \<Rightarrow> ptr list \<Rightarrow> ptr list \<Rightarrow> bool" where
  "orderPhase alias S ls1 ls2 =
     list_ex (\<lambda>i. list_ex (\<lambda>j.
        (let earlier = ls1 ! i; later = ls1 ! j in
         \<not> alias (getAcquire (lockOf S earlier)) (getAcquire (lockOf S later)) \<and>
         hasLockOrderConflict alias S later earlier ls2)) [Suc i ..< length ls1]) [0 ..< length ls1]"

definition deadLock_sets :: "(ptr \<Rightarrow> ptr \<Rightarrow> bool) \<Rightarrow> lsa \<Rightarrow> ptr list \<Rightarrow> ptr list \<Rightarrow> bool" where
  "deadLock_sets alias S ls1 ls2 = (if orderPhase alias S ls1 ls2 then True else orderPhase alias S ls2 ls1)"

definition isDeadLock :: "(ptr \<Rightarrow> ptr \<Rightarrow> bool) \<Rightarrow> ccpg \<Rightarrow> lsa \<Rightarrow>
    node_loc \<Rightarrow> context_stack \<Rightarrow> node_loc \<Rightarrow> context_stack \<Rightarrow> bool result" where
  "isDeadLock alias g S loc1 ctx1 loc2 ctx2 =
     (case (baseLocks g S loc1, baseLocks g S loc2) of
        (Ok b1, Ok b2) \<Rightarrow> Ok (deadLock_sets alias S (ctxLocks S b1 ctx1) (ctxLocks S b2 ctx2))
      | _ \<Rightarrow> Throw)"

definition getLockSet_loc :: "ccpg \<Rightarrow> lsa \<Rightarrow> node_loc \<Rightarrow> context_stack \<Rightarrow> ptr list" where
  "getLockSet_loc g S loc ctx =
     sortUnique (ctxLocks S
       (foldl (\<lambda>acc sib. if sib = null then acc else nodeLockSets S sib @ acc) [] (getNodesByLoc g loc)) ctx)"

definition getLockSet :: "lsa \<Rightarrow> ptr \<Rightarrow> context_stack \<Rightarrow> ptr list" where
  "getLockSet S node ctx =
     (if node = null then []
      else sortUnique (ctxLocks S (nodeLockSets S node) (filter (\<lambda>cn. cn \<noteq> null) ctx)))"

subsection \<open>Facts about the queries\<close>

lemma sortUnique_set [simp]: "set (sortUnique ls) = set ls"
  by (simp add: sortUnique_def)

lemma sorted_remdups_adj_distinct:
  "sorted (xs :: nat list) \<Longrightarrow> distinct (remdups_adj xs)"
  by (induction xs rule: remdups_adj.induct) (auto simp del: remdups_adj_set simp: remdups_adj_set)

lemma sortUnique_distinct: "distinct (sortUnique ls)"
  by (simp add: sortUnique_def sorted_remdups_adj_distinct)

lemma ctxLocks_set: "set (ctxLocks S base ctx) = set base \<union> (\<Union>n \<in> set ctx. set (nodeLockSets S n))"
proof -
  have "set (foldl (\<lambda>acc n. nodeLockSets S n @ acc) b c) = set b \<union> (\<Union>n \<in> set c. set (nodeLockSets S n))"
    for b c by (induction c arbitrary: b) auto
  then show ?thesis by (simp add: ctxLocks_def)
qed

lemma foldl_prepend_set:
  "set (foldl (\<lambda>acc n. if n = null then acc else f n @ acc) b c) =
     set b \<union> (\<Union>n \<in> set c - {null}. set (f n))"
  by (induction c arbitrary: b) auto

lemma getLockSet_set:
  "node \<noteq> null \<Longrightarrow> set (getLockSet S node ctx) =
     set (nodeLockSets S node) \<union> (\<Union>n \<in> set ctx - {null}. set (nodeLockSets S n))"
  by (auto simp: getLockSet_def ctxLocks_set)

lemma getLockSet_loc_set:
  "set (getLockSet_loc g S loc ctx) =
     (\<Union>n \<in> set (getNodesByLoc g loc) - {null}. set (nodeLockSets S n)) \<union>
     (\<Union>n \<in> set ctx. set (nodeLockSets S n))"
  by (simp add: getLockSet_loc_def ctxLocks_set foldl_prepend_set)

text \<open>
  What the scan of a lockset answers: an alias of the second lock occurs before
  an alias of the first one that is not an alias of the second.
\<close>

abbreviation acq :: "lsa \<Rightarrow> ptr \<Rightarrow> ptr" where "acq S l \<equiv> getAcquire (lockOf S l)"

lemma lockOrder_scan_iff:
  "lockOrder_scan alias S first second found ls \<longleftrightarrow>
     (\<exists>j < length ls. alias (acq S (ls ! j)) (acq S first) \<and> \<not> alias (acq S (ls ! j)) (acq S second) \<and>
        (found \<or> (\<exists>i < j. alias (acq S (ls ! i)) (acq S second))))"
proof (induction ls arbitrary: found)
  case (Cons l ls)
  have split: "(\<exists>j < Suc n. P j) \<longleftrightarrow> P 0 \<or> (\<exists>j < n. P (Suc j))" for P n
    by (metis (no_types, lifting) Suc_less_eq less_Suc_eq_0_disj zero_less_Suc)
  have shift: "(\<exists>i < Suc j. P i) \<longleftrightarrow> P 0 \<or> (\<exists>i < j. P (Suc i))" for P j by (rule split)
  show ?case
    by (simp add: split shift Cons.IH del: Ex_less_Suc) blast
qed simp

lemma orderPhase_iff:
  "orderPhase alias S ls1 ls2 \<longleftrightarrow>
     (\<exists>j < length ls1. \<exists>i < j. \<not> alias (acq S (ls1 ! i)) (acq S (ls1 ! j)) \<and>
        hasLockOrderConflict alias S (ls1 ! j) (ls1 ! i) ls2)"
  unfolding orderPhase_def list_ex_iff Let_def set_upt by (auto; force)

text \<open>
  With aliasing an equivalence, the deadlock query holds exactly when some two
  non-aliased locks are taken in the SAME order by both contexts.
\<close>

definition takenBefore :: "(ptr \<Rightarrow> ptr \<Rightarrow> bool) \<Rightarrow> lsa \<Rightarrow> ptr list \<Rightarrow> ptr \<Rightarrow> ptr \<Rightarrow> bool" where
  "takenBefore alias S ls a b \<longleftrightarrow>
     (\<exists>j < length ls. \<exists>i < j. alias (acq S (ls ! i)) a \<and> alias (acq S (ls ! j)) b)"

lemma orderPhase_same_order:
  assumes "equivp alias"
  shows "orderPhase alias S ls1 ls2 \<longleftrightarrow>
     (\<exists>a b. \<not> alias a b \<and> takenBefore alias S ls1 a b \<and> takenBefore alias S ls2 a b)" (is "?l \<longleftrightarrow> ?r")
proof -
  note sym = equivp_symp[OF assms] and trans = equivp_transp[OF assms] and refl = equivp_reflp[OF assms]
  show ?thesis
  proof
    assume ?l
    then obtain i j where ij: "j < length ls1" "i < j" "\<not> alias (acq S (ls1 ! i)) (acq S (ls1 ! j))"
        "hasLockOrderConflict alias S (ls1 ! j) (ls1 ! i) ls2" by (auto simp: orderPhase_iff)
    then have "takenBefore alias S ls1 (acq S (ls1 ! i)) (acq S (ls1 ! j))"
      using refl by (auto simp: takenBefore_def)
    moreover have "takenBefore alias S ls2 (acq S (ls1 ! i)) (acq S (ls1 ! j))"
      using ij(4) by (auto simp: hasLockOrderConflict_def lockOrder_scan_iff takenBefore_def)
    ultimately show ?r using ij(3) by blast
  next
    assume ?r
    then obtain a b i j i' j' where ab: "\<not> alias a b"
      and 1: "j < length ls1" "i < j" "alias (acq S (ls1 ! i)) a" "alias (acq S (ls1 ! j)) b"
      and 2: "j' < length ls2" "i' < j'" "alias (acq S (ls2 ! i')) a" "alias (acq S (ls2 ! j')) b"
      unfolding takenBefore_def by blast
    have "\<not> alias (acq S (ls1 ! i)) (acq S (ls1 ! j))" using ab 1 sym trans by blast
    moreover have "alias (acq S (ls2 ! j')) (acq S (ls1 ! j))" "alias (acq S (ls2 ! i')) (acq S (ls1 ! i))"
      using 1 2 sym trans by blast+
    moreover have "\<not> alias (acq S (ls2 ! j')) (acq S (ls1 ! i))" using ab 1 2 sym trans by blast
    ultimately show ?l using 1 2
      unfolding orderPhase_iff hasLockOrderConflict_def lockOrder_scan_iff by blast
  qed
qed

lemma deadLock_sets_same_order:
  assumes "equivp alias"
  shows "deadLock_sets alias S ls1 ls2 \<longleftrightarrow>
     (\<exists>a b. \<not> alias a b \<and> takenBefore alias S ls1 a b \<and> takenBefore alias S ls2 a b)"
  using orderPhase_same_order[OF assms] by (auto simp: deadLock_sets_def)

subsection \<open>Termination of the propagation\<close>

definition orderSuccs :: "ccpg \<Rightarrow> ptr \<Rightarrow> ptr set" where
  "orderSuccs g n = {e_dst e | e. e \<in> set (nd_out (nodeOf g n)) \<and> e_type e = ORDER}"

lemma propagate_work:
  "propagate node es visited work S = (work', S') \<Longrightarrow> sorted work \<Longrightarrow> distinct work \<Longrightarrow>
     sorted work' \<and> distinct work' \<and>
     set work' = set work \<union> {e_dst e | e. e \<in> set es \<and> e_type e = ORDER \<and> e_dst e \<notin> visited}"
proof (induction node es visited work S rule: propagate.induct)
  case (2 node e es visited work S)
  consider "e_type e \<noteq> ORDER" | "e_type e = ORDER" "e_dst e \<notin> visited" | "e_type e = ORDER" "e_dst e \<in> visited"
    by blast
  then show ?case
  proof cases
    case 1
    then show ?thesis using 2 by auto
  next
    case 2
    let ?w = "insort_insert (e_dst e) work"
    have "sorted ?w" "distinct ?w" "set ?w = insert (e_dst e) (set work)"
      using "2.prems" by (auto simp: sorted_insort_insert distinct_insort_insert set_insort_insert)
    with 2 "2.IH"(2) "2.prems" show ?thesis by auto
  next
    case 3
    then show ?thesis using "2.IH"(3) "2.prems" by auto
  qed
qed auto

lemma ls_loop_total:
  assumes "finite U" "\<forall>n \<in> U. orderSuccs g n \<subseteq> U"
  shows "sorted work \<Longrightarrow> distinct work \<Longrightarrow> set work \<subseteq> U - visited \<Longrightarrow> card (U - visited) \<le> k \<Longrightarrow>
     \<exists>S'. ls_loop k alias g work visited S = Some S'"
proof (induction k arbitrary: work visited S)
  case 0
  then have "U - visited = {}" using assms(1) by simp
  with 0 show ?case by auto
next
  case (Suc k)
  show ?case
  proof (cases work)
    case (Cons node rest)
    have nU: "node \<in> U" "node \<notin> visited" using Suc.prems Cons by auto
    obtain w S2 where w: "propagate node (nd_out (nodeOf g node)) (insert node visited) rest
        (calleeOp alias g node (lockOp alias g node S)) = (w, S2)" by fastforce
    have sw: "sorted w \<and> distinct w \<and> set w = set rest \<union>
        {e_dst e | e. e \<in> set (nd_out (nodeOf g node)) \<and> e_type e = ORDER \<and> e_dst e \<notin> insert node visited}"
      using propagate_work[OF w] Suc.prems Cons by simp
    have "set w \<subseteq> U - insert node visited"
      using sw Suc.prems Cons assms(2) nU(1) by (auto simp: orderSuccs_def)
    moreover have "U - insert node visited = (U - visited) - {node}" by auto
    then have "card (U - insert node visited) = card (U - visited) - 1"
      using nU by simp
    ultimately have "\<exists>S'. ls_loop k alias g w (insert node visited) S2 = Some S'"
      using Suc sw by simp
    then show ?thesis using Cons w by (simp add: Let_def)
  qed simp
qed

lemma ls_build_total:
  assumes "finite U" "\<forall>n \<in> U. orderSuccs g n \<subseteq> U" "\<forall>f \<in> set (g_functions g). fn_funcNode (funH g f) \<in> U"
    and "card U \<le> k"
  shows "\<exists>S'. ls_build k alias g S = Some S'"
proof -
  have "\<exists>S'. ls_functions k alias g fs S = Some S'"
    if "set fs \<subseteq> set (g_functions g)" for fs S using that
  proof (induction fs arbitrary: S)
    case (Cons f fs)
    have "\<exists>S'. ls_function k alias g f S = Some S'"
      unfolding ls_function_def Let_def
      by (rule ls_loop_total[OF assms(1,2)]) (use Cons.prems assms in auto)
    with Cons show ?case by auto
  qed simp
  then show ?thesis by (simp add: ls_build_def)
qed

subsection \<open>Invariant\<close>

text \<open>What function indexes the analysis relies on.\<close>

definition indexed :: "ccpg \<Rightarrow> bool" where
  "indexed g \<longleftrightarrow> (\<forall>f. (\<forall>n \<in> set (fn_typeToNodeSet (funH g f) ACQUIRE). nd_type (nodeOf g n) = ACQUIRE) \<and>
     (\<forall>n \<in> set (fn_typeToNodeSet (funH g f) RELEASE). nd_type (nodeOf g n) = RELEASE) \<and>
     (acquirePotential (funH g f) \<longrightarrow> fn_typeToNodeSet (funH g f) ACQUIRE \<noteq> []) \<and>
     (releasePotential (funH g f) \<longrightarrow> fn_typeToNodeSet (funH g f) RELEASE \<noteq> []))"

definition allocated :: "lsa \<Rightarrow> bool" where
  "allocated S \<longleftrightarrow> inj (lockAddr S) \<and> set (locks S) = lockAddr S ` {1 .. length (locks S)}"

definition lsa_inv :: "ccpg \<Rightarrow> lsa \<Rightarrow> bool" where
  "lsa_inv g S \<longleftrightarrow> allocated S \<and>
     (\<forall>n. set (nodeLockSets S n) \<subseteq> set (locks S)) \<and>
     (\<forall>l \<in> set (locks S). \<exists>a. typeToNode (lockOf S l) ACQUIRE = Some a \<and> nd_type (nodeOf g a) = ACQUIRE \<and>
        (\<forall>r. typeToNode (lockOf S l) RELEASE = Some r \<longrightarrow> nd_type (nodeOf g r) = RELEASE))"

lemma lsa_inv_empty: "inj addr \<Longrightarrow> lsa_inv g (emptyLsa addr)"
  by (simp add: lsa_inv_def emptyLsa_def allocated_def)

lemma allocated_update [simp]:
  "allocated (S\<lparr>nodeLockSets := x\<rparr>) = allocated S" "allocated (S\<lparr>lockH := h\<rparr>) = allocated S"
  by (simp_all add: allocated_def)

lemma lsa_inv_setLocks:
  assumes "lsa_inv g S" "set ls \<subseteq> set (locks S)"
  shows "lsa_inv g (S\<lparr>nodeLockSets := (nodeLockSets S)(n := ls)\<rparr>)"
  using assms unfolding lsa_inv_def by (auto simp: subset_iff)

lemma allocated_fresh:
  assumes "allocated S" shows "lockAddr S (Suc (length (locks S))) \<notin> set (locks S)"
proof
  assume "lockAddr S (Suc (length (locks S))) \<in> set (locks S)"
  then obtain i where "i \<le> length (locks S)" "lockAddr S (Suc (length (locks S))) = lockAddr S i"
    using assms by (auto simp: allocated_def)
  with assms show False by (auto simp: allocated_def dest: injD)
qed

lemma allocated_insert:
  assumes "allocated S"
    and "locks S' = List.insert (lockAddr S (Suc (length (locks S)))) (locks S)" "lockAddr S' = lockAddr S"
  shows "allocated S'"
proof -
  have "lockAddr S ` {1 .. Suc (length (locks S))} =
      insert (lockAddr S (Suc (length (locks S)))) (lockAddr S ` {1 .. length (locks S)})"
    by (simp add: atLeastAtMostSuc_conv)
  with assms allocated_fresh[OF assms(1)] show ?thesis by (simp add: allocated_def)
qed

lemma lsa_inv_acquire:
  assumes I: "lsa_inv g S" and t: "nd_type (nodeOf g a) = ACQUIRE"
  shows "lsa_inv g (acquireLock g node a S)"
proof -
  have al: "allocated S" using I by (simp add: lsa_inv_def)
  note fresh = allocated_fresh[OF al]
  have "allocated (acquireLock g node a S)"
    by (rule allocated_insert[OF al]) (simp_all add: acquireLock_def Let_def)
  then show ?thesis using I fresh t
    unfolding lsa_inv_def
    by (auto simp: acquireLock_def Let_def addRelatedNode_def List.insert_def subset_iff)
qed

lemma releaseIndex_lt: "releaseIndex alias S ls r = Some i \<Longrightarrow> i < length ls"
  unfolding releaseIndex_def by (drule find_Some_set) simp

lemma lsa_inv_release:
  assumes I: "lsa_inv g S" and t: "nd_type (nodeOf g r) = RELEASE"
  shows "lsa_inv g (releaseLock alias g node r S)"
proof (cases "releaseIndex alias S (nodeLockSets S node) r")
  case None then show ?thesis using I by (simp add: releaseLock_def)
next
  case (Some i)
  let ?ls = "nodeLockSets S node" let ?l = "?ls ! i"
  have il: "?l \<in> set ?ls" using releaseIndex_lt[OF Some] by simp
  have "set (take i ?ls @ drop (Suc i) ?ls) \<subseteq> set ?ls"
    by (auto dest: in_set_takeD in_set_dropD)
  moreover have "set ?ls \<subseteq> set (locks S)" using I by (simp add: lsa_inv_def)
  ultimately have sub: "set (take i ?ls @ drop (Suc i) ?ls) \<subseteq> set (locks S)" by (rule order.trans)
  have "lsa_inv g (S\<lparr>lockH := (lockH S)(?l := addRelatedNode g r (lockOf S ?l))\<rparr>)"
    using I t unfolding lsa_inv_def by (auto simp: addRelatedNode_def)
  from lsa_inv_setLocks[OF this, of "take i ?ls @ drop (Suc i) ?ls" node] sub Some
  show ?thesis by (simp add: releaseLock_def Let_def)
qed

lemma lsa_inv_lockOp: "lsa_inv g S \<Longrightarrow> lsa_inv g (lockOp alias g node S)"
  by (simp add: lockOp_def lsa_inv_acquire lsa_inv_release)

lemma lsa_inv_calleeOp:
  assumes "lsa_inv g S" "indexed g"
  shows "lsa_inv g (calleeOp alias g node S)"
proof -
  have "nd_type (nodeOf g (hd (fn_typeToNodeSet (funH g f) ACQUIRE))) = ACQUIRE"
    if "acquirePotential (funH g f)" for f using assms(2) that unfolding indexed_def by (meson list.set_sel(1))
  moreover have "nd_type (nodeOf g (hd (fn_typeToNodeSet (funH g f) RELEASE))) = RELEASE"
    if "releasePotential (funH g f)" for f using assms(2) that unfolding indexed_def by (meson list.set_sel(1))
  ultimately show ?thesis using assms(1)
    by (auto simp: calleeOp_def Let_def lsa_inv_acquire lsa_inv_release split: option.splits)
qed

lemma lsa_inv_propagate:
  "propagate node es visited work S = (work', S') \<Longrightarrow> lsa_inv g S \<Longrightarrow> lsa_inv g S'"
proof (induction node es visited work S rule: propagate.induct)
  case (2 node e es visited work S)
  have sub: "set (nodeLockSets S n) \<subseteq> set (locks S)" for n using 2(5) unfolding lsa_inv_def by blast
  have "lsa_inv g (S\<lparr>nodeLockSets := (nodeLockSets S)(e_dst e := nodeLockSets S node)\<rparr>)"
    "lsa_inv g (S\<lparr>nodeLockSets := (nodeLockSets S)(e_dst e :=
        sortUnique (nodeLockSets S (e_dst e) @ nodeLockSets S node))\<rparr>)"
    using 2(5) sub by (auto intro!: lsa_inv_setLocks simp: subset_iff)
  with 2 show ?case by (auto split: if_splits)
qed simp

lemma lsa_inv_loop:
  "ls_loop k alias g work visited S = Some S' \<Longrightarrow> lsa_inv g S \<Longrightarrow> indexed g \<Longrightarrow> lsa_inv g S'"
proof (induction k "alias" g work visited S rule: ls_loop.induct)
  case (3 k al g node work visited S)
  obtain w S2 where w: "propagate node (nd_out (nodeOf g node)) (insert node visited) work
      (calleeOp al g node (lockOp al g node S)) = (w, S2)" by fastforce
  from lsa_inv_propagate[OF w] 3(3,4) have "lsa_inv g S2"
    by (simp add: lsa_inv_calleeOp lsa_inv_lockOp)
  with 3 w show ?case by (simp add: Let_def)
qed auto

lemma lsa_inv_build:
  assumes "ls_build k alias g S = Some S'" "lsa_inv g S" "indexed g"
  shows "lsa_inv g S'"
proof -
  have "lsa_inv g S'" if "ls_functions k alias g fs S = Some S'" "lsa_inv g S" for fs S
    using that
  proof (induction fs arbitrary: S)
    case (Cons f fs)
    then obtain S1 where S1: "ls_function k alias g f S = Some S1" "ls_functions k alias g fs S1 = Some S'"
      by (auto simp: bind_eq_Some_conv)
    have "lsa_inv g (S\<lparr>nodeLockSets := (nodeLockSets S)(fn_funcNode (funH g f) := [])\<rparr>)"
      by (rule lsa_inv_setLocks) (use Cons.prems in auto)
    with S1(1) assms(3) have "lsa_inv g S1" unfolding ls_function_def Let_def by (blast intro: lsa_inv_loop)
    with Cons.IH S1(2) show ?case by blast
  qed simp
  with assms show ?thesis unfolding ls_build_def by blast
qed

end
