(* ===== verification/HbGraph.thy ===== *)
theory HbGraph
  imports ThreadTree LockSets
begin

text \<open>
  The happens-before graph (include/CCPG/HBEdge.h, HBGraph.h, src/CCPG/HBGraph.cpp):
  construction of its edges from the code graph, the lockset analysis, the thread
  tree and the LLVM view of registration calls, and the two queries on it.
  Arguments that stand for code outside the program: \<open>env\<close> is the process
  environment, \<open>alias\<close> and \<open>lockAlias\<close> the pointer analysis, and
  \<open>llvm_view\<close> the parts of LLVM's API the lifecycle edges read.  The
  concurrency test between threads is passed as the function \<open>conc\<close>.
\<close>

subsection \<open>Edges and the graph\<close>

datatype hb_kind =
    PROGRAM_ORDER | CALL_RETURN | LOCK_RELEASE_ACQUIRE | FORK_TO_ENTRY | JOIN_FROM_EXIT
  | RCU_SYNC | REFCOUNT_LAST_PUT | REL_ACQ_PAIR | BH_IRQ_INTERVAL | COMPLETION | LIFECYCLE_FLAG

record hb_edge =
  h_src :: ptr
  h_dst :: ptr
  h_kind :: hb_kind
  h_evidence :: string

record hbgraph =
  outEdges :: "ptr \<Rightarrow> hb_edge list"
  inEdges :: "ptr \<Rightarrow> hb_edge list"

primrec kindLabel :: "hb_kind \<Rightarrow> string" where
  "kindLabel PROGRAM_ORDER = ''PO''"
| "kindLabel CALL_RETURN = ''CALL''"
| "kindLabel LOCK_RELEASE_ACQUIRE = ''LOCK''"
| "kindLabel FORK_TO_ENTRY = ''FORK''"
| "kindLabel JOIN_FROM_EXIT = ''JOIN''"
| "kindLabel RCU_SYNC = ''RCU''"
| "kindLabel REFCOUNT_LAST_PUT = ''REFCNT''"
| "kindLabel REL_ACQ_PAIR = ''REL_ACQ''"
| "kindLabel BH_IRQ_INTERVAL = ''BH''"
| "kindLabel COMPLETION = ''COMP''"
| "kindLabel LIFECYCLE_FLAG = ''LIFE''"

text \<open>\<open>atoi\<close> reads a leading integer and ignores the rest; no digits give 0.\<close>

definition atoi :: "string \<Rightarrow> int" where
  "atoi s =
     (let t = dropWhile isSpace s;
          u = (if t \<noteq> [] \<and> (hd t = CHR ''-'' \<or> hd t = CHR ''+'') then tl t else t);
          v = digitsVal (takeWhile isDigit u)
      in if t \<noteq> [] \<and> hd t = CHR ''-'' then - v else v)"

definition envInt :: "(string \<Rightarrow> string option) \<Rightarrow> string \<Rightarrow> int \<Rightarrow> int" where
  "envInt env key def = (case env key of None \<Rightarrow> def | Some s \<Rightarrow> if s = [] then def else atoi s)"

definition hb_clear :: hbgraph where
  "hb_clear = \<lparr>outEdges = (\<lambda>_. []), inEdges = (\<lambda>_. [])\<rparr>"

definition hb_addEdge :: "ptr \<Rightarrow> ptr \<Rightarrow> hb_kind \<Rightarrow> string \<Rightarrow> hbgraph \<Rightarrow> hbgraph" where
  "hb_addEdge src dst kind evidence h =
     (if src = null \<or> dst = null then h
      else let e = \<lparr>h_src = src, h_dst = dst, h_kind = kind, h_evidence = evidence\<rparr>
           in h\<lparr>outEdges := (outEdges h)(src := outEdges h src @ [e]),
                inEdges := (inEdges h)(dst := inEdges h dst @ [e])\<rparr>)"

subsection \<open>Program order, locks, fork and join, completions\<close>

definition buildProgramOrderEdges :: "ccpg \<Rightarrow> hbgraph \<Rightarrow> hbgraph" where
  "buildProgramOrderEdges g h = foldl (\<lambda>h e.
     if e_src e = null \<or> e_dst e = null then h
     else case e_type e of
       ORDER \<Rightarrow> hb_addEdge (e_src e) (e_dst e) PROGRAM_ORDER ''cfg'' h
     | CALL \<Rightarrow> hb_addEdge (e_src e) (e_dst e) CALL_RETURN ''call'' h
     | HB \<Rightarrow> hb_addEdge (e_src e) (e_dst e) FORK_TO_ENTRY ''fork'' h) h (g_edges g)"

fun placeLock :: "(ptr \<Rightarrow> ptr \<Rightarrow> bool) \<Rightarrow> lsa \<Rightarrow> ptr \<Rightarrow> ptr list list \<Rightarrow> ptr list list" where
  "placeLock lockAlias S l [] = [[l]]"
| "placeLock lockAlias S l (cls # rest) =
     (if cls \<noteq> [] \<and> lockAlias (acq S (hd cls)) (acq S l) then (cls @ [l]) # rest
      else cls # placeLock lockAlias S l rest)"

definition lockClasses :: "(ptr \<Rightarrow> ptr \<Rightarrow> bool) \<Rightarrow> lsa \<Rightarrow> ptr list list" where
  "lockClasses lockAlias S = foldl (\<lambda>classes l.
     if acq S l = null then classes else placeLock lockAlias S l classes) [] (locks S)"

definition findThread :: "tct \<Rightarrow> ptr \<Rightarrow> ptr" where
  "findThread T n = (case List.find (\<lambda>t. n \<in> set (th_nodes (thr T t))) (threads T) of Some t \<Rightarrow> t | None \<Rightarrow> null)"

definition lockPair :: "lsa \<Rightarrow> tct \<Rightarrow> (ptr \<Rightarrow> ptr \<Rightarrow> bool) \<Rightarrow> ptr \<Rightarrow> ptr \<Rightarrow> bool" where
  "lockPair S T conc lr la \<longleftrightarrow>
     (let relN = getRelease (lockOf S lr); acqN = acq S la; tr = findThread T relN; ta = findThread T acqN
      in relN \<noteq> null \<and> la \<noteq> lr \<and> acqN \<noteq> null \<and> tr \<noteq> null \<and> ta \<noteq> null \<and> tr \<noteq> ta \<and> conc tr ta)"

definition buildLockEdges :: "(ptr \<Rightarrow> ptr \<Rightarrow> bool) \<Rightarrow> lsa \<Rightarrow> tct \<Rightarrow> (ptr \<Rightarrow> ptr \<Rightarrow> bool) \<Rightarrow> hbgraph \<Rightarrow> hbgraph" where
  "buildLockEdges lockAlias S T conc h =
     foldl (\<lambda>h cls. foldl (\<lambda>h lr. foldl (\<lambda>h la.
        if lockPair S T conc lr la
        then hb_addEdge (getRelease (lockOf S lr)) (acq S la) LOCK_RELEASE_ACQUIRE
               (''lock'' @ to_string (lk_id (lockOf S lr))) h
        else h) h cls) h cls) h (lockClasses lockAlias S)"

definition orderTargets :: "ccpg \<Rightarrow> ptr \<Rightarrow> ptr list" where
  "orderTargets g n = map e_dst (filter (\<lambda>e. e_type e = ORDER) (nd_out (nodeOf g n)))"

definition threadExits :: "ccpg \<Rightarrow> tct \<Rightarrow> ptr \<Rightarrow> ptr list" where
  "threadExits g T t = filter (\<lambda>n. nd_type (nodeOf g n) = RETURN) (th_nodes (thr T t))"

definition buildForkJoinEdges :: "ccpg \<Rightarrow> tct \<Rightarrow> hbgraph \<Rightarrow> hbgraph" where
  "buildForkJoinEdges g T h = foldl (\<lambda>h child.
     (let join = joinNode (thr T child); exits = threadExits g T child in
      if join = null \<or> exits = [] then h
      else foldl (\<lambda>h next. if next = null then h
             else foldl (\<lambda>h ex. hb_addEdge ex next JOIN_FROM_EXIT ''join'' h) h exits)
           h (orderTargets g join))) h (threads T)"

text \<open>The first operand of a call site's instruction, if there is one.\<close>

definition getCallArg0 :: "ccpg \<Rightarrow> ptr \<Rightarrow> ptr" where
  "getCallArg0 g n =
     (if n = null \<or> \<not> nd_callSite (nodeOf g n) then null
      else case nd_callInst (nodeOf g n) of
        None \<Rightarrow> null
      | Some c \<Rightarrow> (case ci_args c of [] \<Rightarrow> null | a # _ \<Rightarrow> a))"

definition completionAlias :: "(ptr \<Rightarrow> ptr \<Rightarrow> bool) \<Rightarrow> ccpg \<Rightarrow> ptr \<Rightarrow> ptr \<Rightarrow> bool" where
  "completionAlias alias g a b =
     (if a = null \<or> b = null then False
      else if getCallArg0 g a = null \<or> getCallArg0 g b = null then False
      else alias (getCallArg0 g a) (getCallArg0 g b))"

definition buildCompletionEdges :: "(ptr \<Rightarrow> ptr \<Rightarrow> bool) \<Rightarrow> ccpg \<Rightarrow> hbgraph \<Rightarrow> hbgraph" where
  "buildCompletionEdges alias g h = foldl (\<lambda>h c. foldl (\<lambda>h w.
     if \<not> completionAlias alias g c w then h
     else foldl (\<lambda>h nxt. if nxt \<noteq> null then hb_addEdge c nxt COMPLETION ''complete->after_wait'' h else h)
            h (orderTargets g w)) h (getNodesByType g COND_WAIT)) h (getNodesByType g COND_SIGNAL)"

subsection \<open>RCU\<close>

datatype rcu_family = Vanilla | BHf | Sched | SRCU | Tasks | UnknownFamily

definition syncFamily :: "string \<Rightarrow> rcu_family" where
  "syncFamily n =
     (if n = ''synchronize_rcu'' \<or> n = ''synchronize_rcu_expedited'' \<or> n = ''rcu_barrier'' then Vanilla
      else if n = ''synchronize_rcu_bh'' then BHf
      else if n = ''synchronize_sched'' \<or> n = ''synchronize_sched_expedited'' then Sched
      else if n = ''synchronize_srcu'' \<or> n = ''synchronize_srcu_expedited'' then SRCU
      else if n = ''synchronize_rcu_tasks'' \<or> n = ''synchronize_rcu_tasks_rude'' \<or>
              n = ''rcu_barrier_tasks'' \<or> n = ''rcu_barrier_tasks_rude'' then Tasks
      else UnknownFamily)"

definition unlockFamily :: "string \<Rightarrow> rcu_family" where
  "unlockFamily n =
     (if n = ''rcu_read_unlock'' then Vanilla
      else if n = ''rcu_read_unlock_bh'' then BHf
      else if n = ''rcu_read_unlock_sched'' \<or> n = ''rcu_read_unlock_sched_notrace'' then Sched
      else if n = ''srcu_read_unlock'' \<or> n = ''srcu_read_unlock_nmisafe'' then SRCU
      else UnknownFamily)"

definition nodeNameOf :: "ccpg \<Rightarrow> ptr \<Rightarrow> string" where
  "nodeNameOf g n = (if n = null \<or> nd_cpg (nodeOf g n) = null then [] else getName (cpgOf g n))"

record llvm_view =
  stripPointerCasts :: "ptr \<Rightarrow> ptr"
  asFunction :: "ptr \<Rightarrow> string option"
  asGlobal :: "ptr \<Rightarrow> ptr option option"
  isConstant :: "ptr \<Rightarrow> bool"
  operands :: "ptr \<Rightarrow> ptr list"

definition srcuOperand :: "llvm_view \<Rightarrow> ccpg \<Rightarrow> ptr \<Rightarrow> ptr" where
  "srcuOperand L g n =
     (if n = null then null
      else case nd_callInst (nodeOf g n) of
        None \<Rightarrow> null
      | Some c \<Rightarrow> (case ci_args c of [] \<Rightarrow> null | a # _ \<Rightarrow> stripPointerCasts L a))"

definition syncSites :: "ccpg \<Rightarrow> rcu_family \<Rightarrow> ptr list" where
  "syncSites g f = filter (\<lambda>n. n \<noteq> null \<and> syncFamily (nodeNameOf g n) = f) (getNodesByType g JOIN)"

definition unlockSites :: "ccpg \<Rightarrow> tct \<Rightarrow> rcu_family \<Rightarrow> ptr \<Rightarrow> ptr list" where
  "unlockSites g T f t = filter (\<lambda>n. n \<noteq> null \<and> unlockFamily (nodeNameOf g n) = f)
     (th_typeToNodeSet (thr T t) RELEASE)"

fun rcu_unlocks :: "llvm_view \<Rightarrow> ccpg \<Rightarrow> int \<Rightarrow> rcu_family \<Rightarrow> ptr \<Rightarrow> ptr list \<Rightarrow> hbgraph \<times> nat \<Rightarrow> hbgraph \<times> nat" where
  "rcu_unlocks L g cap fam s [] (h, added) = (h, added)"
| "rcu_unlocks L g cap fam s (u # us) (h, added) =
     (if cap \<le> int added then (h, added)
      else if fam = SRCU \<and> (srcuOperand L g s = null \<or> srcuOperand L g u = null \<or>
                            srcuOperand L g s \<noteq> srcuOperand L g u)
        then rcu_unlocks L g cap fam s us (h, added)
      else rcu_unlocks L g cap fam s us (hb_addEdge u s RCU_SYNC ''rcu_unlock->synchronize'' h, Suc added))"

fun rcu_threads :: "llvm_view \<Rightarrow> ccpg \<Rightarrow> tct \<Rightarrow> (ptr \<Rightarrow> ptr \<Rightarrow> bool) \<Rightarrow> int \<Rightarrow> rcu_family \<Rightarrow> ptr \<Rightarrow> ptr list \<Rightarrow>
    hbgraph \<times> nat \<Rightarrow> hbgraph \<times> nat" where
  "rcu_threads L g T conc cap fam s [] st = st"
| "rcu_threads L g T conc cap fam s (tr # ts) st =
     (let tw = findThread T s in
      if tr = null \<or> tr = tw \<or> unlockSites g T fam tr = [] then rcu_threads L g T conc cap fam s ts st
      else if tw \<noteq> null \<and> \<not> conc tw tr then rcu_threads L g T conc cap fam s ts st
      else (let st' = rcu_unlocks L g cap fam s (unlockSites g T fam tr) st
            in if cap \<le> int (snd st') then st' else rcu_threads L g T conc cap fam s ts st'))"

fun rcu_sites :: "llvm_view \<Rightarrow> ccpg \<Rightarrow> tct \<Rightarrow> (ptr \<Rightarrow> ptr \<Rightarrow> bool) \<Rightarrow> int \<Rightarrow> (rcu_family \<times> ptr) list \<Rightarrow>
    hbgraph \<times> nat \<Rightarrow> hbgraph \<times> nat" where
  "rcu_sites L g T conc cap [] st = st"
| "rcu_sites L g T conc cap ((fam, s) # rest) st =
     (let st' = rcu_threads L g T conc cap fam s (threads T) st
      in if cap \<le> int (snd st') then st' else rcu_sites L g T conc cap rest st')"

text \<open>
  \<open>fams\<close> is the order in which the map from families to synchronize sites is
  iterated.  Families without an unlock site are skipped as a whole.  The threads of a
  family are taken in the order of the tree, where the code iterates an unordered map; the order
  only decides which edges are kept once the cap is reached.
\<close>

definition buildRCUEdges :: "(string \<Rightarrow> string option) \<Rightarrow> llvm_view \<Rightarrow> rcu_family list \<Rightarrow> ccpg \<Rightarrow> tct \<Rightarrow>
    (ptr \<Rightarrow> ptr \<Rightarrow> bool) \<Rightarrow> hbgraph \<Rightarrow> hbgraph" where
  "buildRCUEdges env L fams g T conc h =
     (let cap = envInt env ''HB_RCU_MAX_EDGES'' 4000;
          known = filter (\<lambda>f. f \<noteq> UnknownFamily \<and> list_ex (\<lambda>t. unlockSites g T f t \<noteq> []) (threads T)) fams;
          sites = concat (map (\<lambda>f. map (Pair f) (syncSites g f)) known)
      in fst (rcu_sites L g T conc cap sites (h, 0)))"

subsection \<open>Registration and callbacks\<close>

definition kRegistrationAPIs :: "string list" where
  "kRegistrationAPIs = [''request_irq'', ''request_threaded_irq'', ''devm_request_irq'',
     ''devm_request_threaded_irq'', ''devm_request_any_context_irq'',
     ''queue_work'', ''queue_work_on'', ''queue_delayed_work'', ''queue_delayed_work_on'',
     ''schedule_work'', ''schedule_delayed_work'', ''wake_up_process'', ''kthread_run'',
     ''kthread_create'', ''kthread_create_on_node'', ''kthread_create_on_cpu'',
     ''tasklet_init'', ''tasklet_setup'', ''timer_setup'', ''init_timer'',
     ''INIT_WORK'', ''INIT_DELAYED_WORK'', ''INIT_DEFERRABLE_WORK'', ''hrtimer_init'', ''setup_timer'',
     ''serdev_device_set_client_ops'', ''register_netdev'', ''register_netdevice'', ''register_chrdev'',
     ''register_chrdev_region'', ''misc_register'', ''device_register'', ''device_add'',
     ''platform_device_register'', ''input_register_device'', ''i2c_add_driver'', ''spi_register_driver'',
     ''register_filesystem'', ''cdev_add'', ''cdev_init'', ''video_register_device'', ''snd_device_new'',
     ''register_pernet_subsys'', ''register_pernet_device'', ''register_netevent_notifier'',
     ''register_inetaddr_notifier'', ''register_netdevice_notifier'', ''rtnl_register_module'',
     ''rtnl_register'', ''nl_table_register'', ''genl_register_family'', ''register_sysctl'',
     ''register_sysctl_table'', ''proc_create'', ''debugfs_create_file'', ''sysfs_create_group'',
     ''device_add_groups'', ''devm_device_add_groups'', ''device_add_group'', ''devm_device_add_group'',
     ''device_create_file'', ''sysfs_create_files'', ''sysfs_create_link'', ''sysfs_create_bin_file'',
     ''kobject_uevent'', ''kobject_add'', ''kobject_init_and_add'',
     ''devm_serdev_device_open'', ''devm_input_register_device'', ''devm_watchdog_register_device'',
     ''devm_register_netdev'', ''devm_misc_register'', ''devm_thermal_zone_of_sensor_register'',
     ''devm_iio_device_register'', ''devm_hwmon_device_register'', ''devm_led_classdev_register'',
     ''rcu_assign_pointer'', ''smp_store_release'', ''cros_ec_register'']"

definition entryFnToThread :: "ccpg \<Rightarrow> tct \<Rightarrow> string \<Rightarrow> ptr option" where
  "entryFnToThread g T = foldl (\<lambda>m t.
     (let mf = threadMainFunction (thr T t); fn = fn_funcNode (funH g mf) in
      if t = null \<or> mf = null \<or> fn = null \<or> nd_cpg (nodeOf g fn) = null then m
      else m(getName (cpgOf g fn) \<mapsto> t))) (\<lambda>_. None) (threads T)"

definition getThreadEntryNode :: "ccpg \<Rightarrow> tct \<Rightarrow> ptr \<Rightarrow> ptr" where
  "getThreadEntryNode g T t =
     (if t = null then null
      else let mf = threadMainFunction (thr T t); fn = fn_funcNode (funH g mf) in
        if mf = null \<or> fn = null then null
        else case orderTargets g fn of [] \<Rightarrow> fn | d # _ \<Rightarrow> d)"

text \<open>Depths 0 to 8 of the constant's initializer are visited, 256 operands each.\<close>

fun collectFns :: "nat \<Rightarrow> llvm_view \<Rightarrow> ptr \<Rightarrow> string list \<times> ptr set \<Rightarrow> string list \<times> ptr set" where
  "collectFns 0 L c st = st"
| "collectFns (Suc k) L c (out, vis) =
     (if c = null \<or> c \<in> vis then (out, vis)
      else let vis' = insert c vis; s = stripPointerCasts L c in
        if s = null then (out, vis')
        else case asFunction L s of
          Some f \<Rightarrow> (out @ [f], vis')
        | None \<Rightarrow>
            if \<not> isConstant L s then (out, vis')
            else foldl (\<lambda>st sub. if isConstant L sub then collectFns k L sub st else st)
                   (out, vis') (take 256 (operands L s)))"

definition callTargets :: "llvm_view \<Rightarrow> ptr list \<Rightarrow> string list" where
  "callTargets L args = fst (foldl (\<lambda>(out, vis) v.
     if v = null then (out, vis)
     else let s = stripPointerCasts L v in
       if s = null then (out, vis)
       else case asFunction L s of
         Some f \<Rightarrow> (out @ [f], vis)
       | None \<Rightarrow> (case asGlobal L s of
           Some (Some init) \<Rightarrow> collectFns 9 L init (out, vis)
         | Some None \<Rightarrow> (out, vis)
         | None \<Rightarrow> if isConstant L s then collectFns 9 L s (out, vis) else (out, vis)))
     ([], {}) args)"

definition registrationCallee :: "ccpg \<Rightarrow> ptr \<Rightarrow> call_inst \<Rightarrow> string" where
  "registrationCallee g n ci =
     (case ci_callee ci of
        Some f \<Rightarrow> f
      | None \<Rightarrow> if nd_cpg (nodeOf g n) \<noteq> null then getName (cpgOf g n) else [])"

definition lifecycle_node :: "llvm_view \<Rightarrow> ccpg \<Rightarrow> tct \<Rightarrow> ptr \<Rightarrow> hbgraph \<Rightarrow> hbgraph" where
  "lifecycle_node L g T n h =
     (if \<not> nd_callSite (nodeOf g n) then h
      else case nd_callInst (nodeOf g n) of
        None \<Rightarrow> h
      | Some ci \<Rightarrow>
          (let callee = registrationCallee g n ci in
           if callee \<notin> set kRegistrationAPIs then h
           else foldl (\<lambda>h f. case entryFnToThread g T f of
                  None \<Rightarrow> h
                | Some t \<Rightarrow>
                    (let tgt = getThreadEntryNode g T t in
                     if tgt = null then h
                     else hb_addEdge n tgt LIFECYCLE_FLAG (''register:'' @ callee @ ''->'' @ f) h))
                h (dedupFirst (callTargets L (ci_args ci)))))"

definition graphNodes :: "ccpg \<Rightarrow> ptr list" where
  "graphNodes g = filter (\<lambda>n. n \<noteq> null) (dedupFirst (concat (map (\<lambda>e. [e_src e, e_dst e]) (g_edges g))))"

definition buildLifecycleFlagEdges :: "llvm_view \<Rightarrow> ccpg \<Rightarrow> tct \<Rightarrow> hbgraph \<Rightarrow> hbgraph" where
  "buildLifecycleFlagEdges L g T h = foldl (\<lambda>h n. lifecycle_node L g T n h) h (graphNodes g)"

definition hb_build :: "(string \<Rightarrow> string option) \<Rightarrow> llvm_view \<Rightarrow> (ptr \<Rightarrow> ptr \<Rightarrow> bool) \<Rightarrow> (ptr \<Rightarrow> ptr \<Rightarrow> bool) \<Rightarrow>
    rcu_family list \<Rightarrow> ccpg \<Rightarrow> lsa \<Rightarrow> tct \<Rightarrow> (ptr \<Rightarrow> ptr \<Rightarrow> bool) \<Rightarrow> hbgraph" where
  "hb_build env L lockAlias alias fams g S T conc =
     (let h = buildProgramOrderEdges g hb_clear;
          h = buildLockEdges lockAlias S T conc h;
          h = buildForkJoinEdges g T h;
          h = buildCompletionEdges alias g h;
          h = buildLifecycleFlagEdges L g T h
      in buildRCUEdges env L fams g T conc h)"

subsection \<open>Queries\<close>

datatype sync_policy = AllMechanisms | StructuralOnly

fun isSyncEdge :: "hb_kind \<Rightarrow> sync_policy \<Rightarrow> bool" where
  "isSyncEdge PROGRAM_ORDER p = False"
| "isSyncEdge CALL_RETURN p = False"
| "isSyncEdge LOCK_RELEASE_ACQUIRE p = True"
| "isSyncEdge FORK_TO_ENTRY p = True"
| "isSyncEdge JOIN_FROM_EXIT p = True"
| "isSyncEdge _ p = (p = AllMechanisms)"

text \<open>The search state of the reachability query: a node and whether a synchronization edge was crossed.\<close>

definition hb_succ :: "hbgraph \<Rightarrow> sync_policy \<Rightarrow> ptr \<times> bool \<Rightarrow> (hb_edge \<times> (ptr \<times> bool)) list" where
  "hb_succ h policy = (\<lambda>(u, sawSync).
     map (\<lambda>e. (e, (h_dst e, sawSync \<or> isSyncEdge (h_kind e) policy)))
       (filter (\<lambda>e. h_dst e \<noteq> null) (outEdges h u)))"

definition hbReachable :: "(string \<Rightarrow> string option) \<Rightarrow> hbgraph \<Rightarrow> ptr \<Rightarrow> ptr \<Rightarrow> int \<Rightarrow> bool \<Rightarrow> sync_policy \<Rightarrow> bool" where
  "hbReachable env h n1 n2 max_depth requireSyncEdge policy =
     (if n1 = null \<or> n2 = null then False
      else if n1 = n2 then \<not> requireSyncEdge
      else let cap = envInt env ''HB_MAX_DEPTH'' max_depth in
        bfs_from (hb_succ h policy) (\<lambda>(v, nextSync). v = n2 \<and> (\<not> requireSyncEdge \<or> nextSync))
          (\<lambda>_ u. u) (nat cap) (n1, False) () \<noteq> None)"

definition classify_succ :: "hbgraph \<Rightarrow> ptr \<Rightarrow> (hb_kind \<times> ptr) list" where
  "classify_succ h u = map (\<lambda>e. (h_kind e, h_dst e)) (filter (\<lambda>e. h_dst e \<noteq> null) (outEdges h u))"

definition classifyPath :: "(string \<Rightarrow> string option) \<Rightarrow> hbgraph \<Rightarrow> ptr \<Rightarrow> ptr \<Rightarrow> hb_kind list" where
  "classifyPath env h n1 n2 =
     (if n1 = null \<or> n2 = null then []
      else if n1 = n2 then []
      else let cap = envInt env ''HB_MAX_DEPTH'' 16 in
        case bfs_from (classify_succ h) (\<lambda>v. v = n2) (\<lambda>k p. p @ [k]) (nat cap) n1 [] of
          Some p \<Rightarrow> p
        | None \<Rightarrow> [])"

subsection \<open>Chains of edges and the queries\<close>

fun hb_chain :: "hbgraph \<Rightarrow> ptr \<Rightarrow> hb_edge list \<Rightarrow> ptr \<Rightarrow> bool" where
  "hb_chain h u [] v = (u = v)"
| "hb_chain h u (e # es) v \<longleftrightarrow> e \<in> set (outEdges h u) \<and> h_dst e \<noteq> null \<and> hb_chain h (h_dst e) es v"

lemma hb_walk_iff:
  "walk (hb_succ h p) (u, b) es (v, s) \<longleftrightarrow>
     hb_chain h u es v \<and> s = (b \<or> (\<exists>e \<in> set es. isSyncEdge (h_kind e) p))"
proof (induction es arbitrary: u b)
  case (Cons e es)
  have "walk (hb_succ h p) (u, b) (e # es) (v, s) \<longleftrightarrow>
      e \<in> set (outEdges h u) \<and> h_dst e \<noteq> null \<and>
      walk (hb_succ h p) (h_dst e, b \<or> isSyncEdge (h_kind e) p) es (v, s)"
    by (auto simp: hb_succ_def simp del: neq0_conv)
  then show ?case by (auto simp: Cons.IH simp del: walk.simps)
qed auto

lemma hb_chain_append:
  "hb_chain h u (es @ fs) v \<longleftrightarrow> (\<exists>w. hb_chain h u es w \<and> hb_chain h w fs v)"
  by (induction es arbitrary: u) auto

lemma nat_cap: "es \<noteq> [] \<Longrightarrow> length es \<le> nat c \<Longrightarrow> int (length es) \<le> c"
  by (cases es) auto

lemma hbReachable_chain:
  "hbReachable env h n1 n2 d req p \<longleftrightarrow> n1 \<noteq> null \<and> n2 \<noteq> null \<and>
     (if n1 = n2 then \<not> req
      else \<exists>es. hb_chain h n1 es n2 \<and> int (length es) \<le> envInt env ''HB_MAX_DEPTH'' d \<and>
             (req \<longrightarrow> (\<exists>e \<in> set es. isSyncEdge (h_kind e) p)))"
proof -
  let ?cap = "nat (envInt env ''HB_MAX_DEPTH'' d)"
  let ?goal = "\<lambda>(v, s). v = n2 \<and> (\<not> req \<or> s)"
  have "(\<exists>ls t. walk (hb_succ h p) (n1, False) ls t \<and> ?goal t \<and> ls \<noteq> [] \<and> length ls \<le> ?cap) \<longleftrightarrow>
      (\<exists>es. hb_chain h n1 es n2 \<and> int (length es) \<le> envInt env ''HB_MAX_DEPTH'' d \<and>
             (req \<longrightarrow> (\<exists>e \<in> set es. isSyncEdge (h_kind e) p)))" (is "?l \<longleftrightarrow> ?r") if "n1 \<noteq> n2"
  proof
    assume ?l
    then obtain es s where es: "hb_chain h n1 es n2" "s = (\<exists>e \<in> set es. isSyncEdge (h_kind e) p)"
      "\<not> req \<or> s" "es \<noteq> []" "length es \<le> ?cap" by (auto simp: hb_walk_iff)
    then show ?r using nat_cap[OF es(4,5)] by blast
  next
    assume ?r
    then obtain es where es: "hb_chain h n1 es n2" "int (length es) \<le> envInt env ''HB_MAX_DEPTH'' d"
      "req \<longrightarrow> (\<exists>e \<in> set es. isSyncEdge (h_kind e) p)" by blast
    have "es \<noteq> []" using es(1) that by auto
    moreover have "length es \<le> ?cap" using es(2) by linarith
    ultimately show ?l using es
      by (intro exI[of _ es] exI[of _ "(n2, \<exists>e \<in> set es. isSyncEdge (h_kind e) p)"])
        (auto simp: hb_walk_iff)
  qed
  note step = this
  show ?thesis
  proof (cases "n1 = null \<or> n2 = null \<or> n1 = n2")
    case True then show ?thesis by (auto simp: hbReachable_def)
  next
    case False
    then have "n1 \<noteq> n2" by blast
    show ?thesis
      unfolding hbReachable_def bfs_from_iff Let_def step[OF \<open>n1 \<noteq> n2\<close>] using False by simp
  qed
qed

lemma hbReachable_policy:
  assumes "hbReachable env h n1 n2 d req StructuralOnly"
  shows "hbReachable env h n1 n2 d req AllMechanisms"
proof -
  have "isSyncEdge k AllMechanisms" if "isSyncEdge k StructuralOnly" for k
    using that by (cases k) auto
  with assms show ?thesis unfolding hbReachable_chain by (auto split: if_splits)
qed

lemma classify_walk_iff:
  "walk (classify_succ h) u ks v \<longleftrightarrow> (\<exists>es. hb_chain h u es v \<and> ks = map h_kind es)"
proof (induction ks arbitrary: u)
  case (Cons k ks)
  have "walk (classify_succ h) u (k # ks) v \<longleftrightarrow>
      (\<exists>e \<in> set (outEdges h u). h_dst e \<noteq> null \<and> h_kind e = k \<and> walk (classify_succ h) (h_dst e) ks v)"
    by (auto simp: classify_succ_def)
  also have "\<dots> \<longleftrightarrow> (\<exists>es. hb_chain h u es v \<and> k # ks = map h_kind es)"
    unfolding Cons.IH
  proof (intro iffI; (elim exE bexE conjE)?)
    fix e es assume "e \<in> set (outEdges h u)" "h_dst e \<noteq> null" "h_kind e = k" "hb_chain h (h_dst e) es v"
      "ks = map h_kind es"
    then show "\<exists>es. hb_chain h u es v \<and> k # ks = map h_kind es"
      by (intro exI[of _ "e # es"]) simp
  next
    fix es assume "hb_chain h u es v" "k # ks = map h_kind es"
    then show "\<exists>e \<in> set (outEdges h u). h_dst e \<noteq> null \<and> h_kind e = k \<and>
        (\<exists>es. hb_chain h (h_dst e) es v \<and> ks = map h_kind es)"
      by (cases es) auto
  qed
  finally show ?case .
qed auto

lemma fold_snoc: "fold (\<lambda>k p. p @ [k]) ks p = p @ ks"
  by (induction ks arbitrary: p) auto

lemma classifyPath_shortest:
  assumes "n1 \<noteq> null" "n2 \<noteq> null" "n1 \<noteq> n2"
  shows "case classifyPath env h n1 n2 of
     [] \<Rightarrow> \<not> (\<exists>es. hb_chain h n1 es n2 \<and> int (length es) \<le> envInt env ''HB_MAX_DEPTH'' 16)
   | k # ks \<Rightarrow> (\<exists>es. hb_chain h n1 es n2 \<and> map h_kind es = k # ks \<and>
        int (length es) \<le> envInt env ''HB_MAX_DEPTH'' 16 \<and>
        (\<forall>es'. hb_chain h n1 es' n2 \<longrightarrow> length es \<le> length es'))"
proof (cases "bfs_from (classify_succ h) (\<lambda>v. v = n2) (\<lambda>k p. p @ [k]) (nat (envInt env ''HB_MAX_DEPTH'' 16)) n1 []")
  case None
  have "\<not> (hb_chain h n1 es n2 \<and> int (length es) \<le> envInt env ''HB_MAX_DEPTH'' 16)" for es
  proof
    assume a: "hb_chain h n1 es n2 \<and> int (length es) \<le> envInt env ''HB_MAX_DEPTH'' 16"
    then have l: "length es \<le> nat (envInt env ''HB_MAX_DEPTH'' 16)" by linarith
    from a have "walk (classify_succ h) n1 (map h_kind es) n2" by (auto simp: classify_walk_iff)
    moreover have "map h_kind es \<noteq> []" using a assms(3) by auto
    moreover have "length (map h_kind es) \<le> nat (envInt env ''HB_MAX_DEPTH'' 16)" using l by simp
    ultimately show False using bfs_from_NoneD[OF None] by blast
  qed
  with None assms show ?thesis by (simp add: classifyPath_def Let_def)
next
  case (Some r)
  from bfs_from_SomeD[OF Some] obtain ls where
    ls: "walk (classify_succ h) n1 ls n2" "ls \<noteq> []" "length ls \<le> nat (envInt env ''HB_MAX_DEPTH'' 16)" "r = ls"
      "\<forall>ls' t'. walk (classify_succ h) n1 ls' t' \<longrightarrow> ls' \<noteq> [] \<longrightarrow> t' = n2 \<longrightarrow> length ls \<le> length ls'"
    by (auto simp: fold_snoc)
  from ls(1) obtain es where es: "hb_chain h n1 es n2" "ls = map h_kind es" by (auto simp: classify_walk_iff)
  have "length es \<le> length es'" if "hb_chain h n1 es' n2" for es'
  proof -
    have "walk (classify_succ h) n1 (map h_kind es') n2" "map h_kind es' \<noteq> []"
      using that assms(3) by (auto simp: classify_walk_iff)
    with ls(5) es(2) show ?thesis by fastforce
  qed
  note min = this
  have cap: "int (length es) \<le> envInt env ''HB_MAX_DEPTH'' 16"
    using ls(2,3) es(2) nat_cap[of es] by auto
  have "\<exists>es. hb_chain h n1 es n2 \<and> map h_kind es = ls \<and>
      int (length es) \<le> envInt env ''HB_MAX_DEPTH'' 16 \<and>
      (\<forall>es'. hb_chain h n1 es' n2 \<longrightarrow> length es \<le> length es')"
    by (rule exI[of _ es]) (simp add: es cap min)
  moreover have "classifyPath env h n1 n2 = ls" using Some assms ls(4) by (simp add: classifyPath_def Let_def)
  ultimately show ?thesis using ls(2) by (cases ls) simp_all
qed

end
