(* ===== verification/L2Checker.thy ===== *)
theory L2Checker
  imports Contract HbGraph
begin

text \<open>
  The requirement-driven checker (src/LLMUtil/AgentManager.cpp, namespace l2): the
  ordering and exclusion evidence composed from the contracts of a thread set, the
  discharge test of every requirement form, the hypothesis a candidate becomes, and
  the calibration filter.  The locale \<open>must_order\<close> states what the checker
  needs of a control-flow reachability test and a static synchronization order; it
  is interpreted on the happens-before graph's own queries.
\<close>

subsection \<open>Evidence\<close>

type_synonym tokens = "(string \<times> int list) list"

record evidence =
  ev_ccpg :: ccpg
  ev_hb :: hbgraph
  guarEdges :: "(int \<times> int) list"
  exclExclusive :: tokens
  exclShared :: tokens
  atomicTok :: tokens

definition maxDepth :: int where "maxDepth = 64"

definition l2SyncPolicy :: "(string \<Rightarrow> string option) \<Rightarrow> sync_policy" where
  "l2SyncPolicy env =
     (case env ''LACE_L2_SYNC_ALL'' of
        Some (c # cs) \<Rightarrow> if c \<noteq> CHR ''0'' then AllMechanisms else StructuralOnly
      | _ \<Rightarrow> StructuralOnly)"

definition nodeOk :: "ccpg \<Rightarrow> int \<Rightarrow> bool" where
  "nodeOk g i \<longleftrightarrow> getNodeByID g i \<noteq> null"

definition cfReach :: "(string \<Rightarrow> string option) \<Rightarrow> evidence \<Rightarrow> int \<Rightarrow> int \<Rightarrow> bool" where
  "cfReach env ev from dst =
     (if from = dst then True
      else let a = getNodeByID (ev_ccpg ev) from; b = getNodeByID (ev_ccpg ev) dst in
        if a = null \<or> b = null then False
        else hbReachable env (ev_hb ev) a b maxDepth False AllMechanisms)"

definition staticSyncOrder :: "(string \<Rightarrow> string option) \<Rightarrow> evidence \<Rightarrow> int \<Rightarrow> int \<Rightarrow> bool" where
  "staticSyncOrder env ev from dst =
     (let a = getNodeByID (ev_ccpg ev) from; b = getNodeByID (ev_ccpg ev) dst in
        if a = null \<or> b = null then False
        else hbReachable env (ev_hb ev) a b maxDepth True (l2SyncPolicy env))"

text \<open>
  The worklist of \<open>ordReach\<close>: a guarantee edge whose source satisfies the test
  adds its target, once; the stack is a list with its top in front.
\<close>

fun pushTargets :: "(int \<Rightarrow> bool) \<Rightarrow> (int \<times> int) list \<Rightarrow> int list \<Rightarrow> int set \<Rightarrow> int list \<times> int set" where
  "pushTargets P [] work visited = (work, visited)"
| "pushTargets P ((a, b) # es) work visited =
     (if P a \<and> b \<notin> visited then pushTargets P es (b # work) (insert b visited)
      else pushTargets P es work visited)"

lemma pushTargets_result:
  assumes "pushTargets P es work visited = (work', visited')"
  shows "\<exists>new. work' = new @ work \<and> distinct new \<and> set new \<inter> visited = {} \<and> visited' = visited \<union> set new \<and>
           set new \<subseteq> {b. \<exists>a. (a, b) \<in> set es \<and> P a} \<and> {b. \<exists>a. (a, b) \<in> set es \<and> P a} \<subseteq> visited'"
  using assms
proof (induction P es work visited rule: pushTargets.induct)
  case (2 P a b es work visited)
  show ?case
  proof (cases "P a \<and> b \<notin> visited")
    case True
    with 2 obtain new where n: "work' = new @ b # work" "distinct new" "set new \<inter> insert b visited = {}"
      "visited' = insert b visited \<union> set new" "set new \<subseteq> {b. \<exists>a. (a, b) \<in> set es \<and> P a}"
      "{b. \<exists>a. (a, b) \<in> set es \<and> P a} \<subseteq> visited'" by auto
    show ?thesis
      by (rule exI[of _ "new @ [b]"]) (use n True in auto)
  next
    case False
    with 2 obtain new where n: "work' = new @ work" "distinct new" "set new \<inter> visited = {}"
      "visited' = visited \<union> set new" "set new \<subseteq> {b. \<exists>a. (a, b) \<in> set es \<and> P a}"
      "{b. \<exists>a. (a, b) \<in> set es \<and> P a} \<subseteq> visited'" by auto
    show ?thesis by (rule exI[of _ new]) (use n False in auto)
  qed
qed auto

lemma pushTargets_measure:
  assumes "pushTargets P es work visited = (work', visited')" "set es \<subseteq> set E"
  shows "2 * card (snd ` set E - visited') + length work' \<le> 2 * card (snd ` set E - visited) + length work"
proof -
  obtain new where n: "work' = new @ work" "distinct new" "set new \<inter> visited = {}"
    "visited' = visited \<union> set new" "set new \<subseteq> {b. \<exists>a. (a, b) \<in> set es \<and> P a}"
    using pushTargets_result[OF assms(1)] by blast
  have sub: "set new \<subseteq> snd ` set E - visited" using n(3,5) assms(2) by force
  have "snd ` set E - visited' = (snd ` set E - visited) - set new" using n(4) by auto
  then have "card (snd ` set E - visited') = card (snd ` set E - visited) - card (set new)"
    using sub by (simp add: card_Diff_subset)
  moreover have "card (set new) \<le> card (snd ` set E - visited)" using sub by (intro card_mono) auto
  moreover have "card (set new) = length new" using n(2) by (rule distinct_card)
  ultimately show ?thesis using n(1) by simp
qed

function ordLoop :: "(int \<Rightarrow> int \<Rightarrow> bool) \<Rightarrow> (int \<times> int) list \<Rightarrow> int \<Rightarrow> int list \<Rightarrow> int set \<Rightarrow> bool" where
  "ordLoop cf E dst [] visited = False"
| "ordLoop cf E dst (x # work) visited =
     (if cf x dst then True
      else case pushTargets (\<lambda>a. x = a \<or> cf x a) E work visited of
        (work', visited') \<Rightarrow> ordLoop cf E dst work' visited')"
  by pat_completeness auto
termination
proof (relation "measure (\<lambda>(cf, E, dst, work, visited). 2 * card (snd ` set E - visited) + length work)", goal_cases)
  case (2 cf E dst x work visited work' visited')
  from pushTargets_measure[OF 2(2)[symmetric], of E] show ?case by simp
qed simp

text \<open>
  The must-order test over any control-flow closure \<open>cf\<close> and any static
  synchronization order \<open>sync\<close>; \<open>ordReach\<close> is its instance on the evidence.
\<close>

definition mustOrder :: "(int \<Rightarrow> int \<Rightarrow> bool) \<Rightarrow> (int \<Rightarrow> int \<Rightarrow> bool) \<Rightarrow> (int \<times> int) list \<Rightarrow> int \<Rightarrow> int \<Rightarrow> bool" where
  "mustOrder cf sync E from dst =
     (if from = dst then True
      else if sync from dst then True
      else if E = [] then False
      else case pushTargets (cf from) E [] {} of
        (work, visited) \<Rightarrow> ordLoop cf E dst work visited)"

definition ordReach :: "(string \<Rightarrow> string option) \<Rightarrow> evidence \<Rightarrow> int \<Rightarrow> int \<Rightarrow> bool" where
  "ordReach env ev = mustOrder (cfReach env ev) (staticSyncOrder env ev) (guarEdges ev)"

definition inToken :: "tokens \<Rightarrow> string \<Rightarrow> int \<Rightarrow> bool" where
  "inToken m tok a \<longleftrightarrow> (case map_of m tok of Some nodes \<Rightarrow> a \<in> set nodes | None \<Rightarrow> False)"

definition commonExclusion :: "evidence \<Rightarrow> int \<Rightarrow> int \<Rightarrow> bool" where
  "commonExclusion ev a b =
     list_ex (\<lambda>(tok, nodes).
       let aIn = (a \<in> set nodes); bInEx = (b \<in> set nodes);
           bInSh = inToken (exclShared ev) tok b; bIn = bInEx \<or> bInSh;
           aInSh = inToken (exclShared ev) tok a
       in (aIn \<and> bIn) \<or> (aInSh \<and> bInEx)) (exclExclusive ev)"

definition atomicCompatible :: "evidence \<Rightarrow> int \<Rightarrow> int \<Rightarrow> bool" where
  "atomicCompatible ev a b = list_ex (\<lambda>(tok, nodes). a \<in> set nodes \<and> b \<in> set nodes) (atomicTok ev)"

text \<open>The subscript operator of the token maps, with the appended nodes.\<close>

definition tokAppend :: "string \<Rightarrow> int list \<Rightarrow> tokens \<Rightarrow> tokens" where
  "tokAppend tok ns m =
     (case map_of m tok of
        Some old \<Rightarrow> map (\<lambda>(k, v). if k = tok then (k, v @ ns) else (k, v)) m
      | None \<Rightarrow> m @ [(tok, ns)])"

definition addGuarantee :: "node_guar \<Rightarrow> evidence \<Rightarrow> evidence" where
  "addGuarantee gu ev =
     (let ok = nodeOk (ev_ccpg ev) in
      if ng_form gu = ''Order'' \<or> ng_form gu = ''Wait'' then
        ev\<lparr>guarEdges := guarEdges ev @
             concat (map (\<lambda>a. map (\<lambda>b. (a, b)) (filter (\<lambda>b. ok a \<and> ok b) (ng_b gu))) (ng_a gu))\<rparr>
      else if ng_form gu = ''Exclude'' then
        (if ng_mode gu = ''shared''
         then ev\<lparr>exclShared := tokAppend (ng_token gu) (filter ok (ng_a gu)) (exclShared ev)\<rparr>
         else ev\<lparr>exclExclusive := tokAppend (ng_token gu) (filter ok (ng_a gu)) (exclExclusive ev)\<rparr>)
      else if ng_form gu = ''AtomicOp'' then
        foldl (\<lambda>ev a. ev\<lparr>atomicTok := tokAppend (ng_token gu) [a] (atomicTok ev)\<rparr>) ev
          (filter ok (ng_a gu))
      else ev)"

definition buildEvidence :: "int list \<Rightarrow> (int \<Rightarrow> contract option) \<Rightarrow> ccpg \<Rightarrow> hbgraph \<Rightarrow> evidence" where
  "buildEvidence threadSet contracts g h =
     foldl (\<lambda>ev tid. case contracts tid of
              None \<Rightarrow> ev
            | Some k \<Rightarrow> foldl (\<lambda>ev gu. addGuarantee gu ev) ev (nodeGuars k))
       \<lparr>ev_ccpg = g, ev_hb = h, guarEdges = [], exclExclusive = [], exclShared = [], atomicTok = []\<rparr>
       threadSet"

subsection \<open>Requirements\<close>

record l2_candidate =
  lc_objectId :: int
  lc_object :: ptr
  lc_form :: string
  lc_reason :: string
  lc_reqTid :: int
  lc_aNode :: int
  lc_bNode :: int
  lc_lifetime :: bool

definition accTypeOfNode :: "(ptr \<Rightarrow> shared_object) \<Rightarrow> ptr \<Rightarrow> int \<Rightarrow> string" where
  "accTypeOfNode oh ob node =
     (if ob = null then []
      else case List.find (\<lambda>a. ac_node a = node) (so_accesses (oh ob)) of
        Some a \<Rightarrow> ac_type a | None \<Rightarrow> [])"

text \<open>The scan keeps overwriting its result, so the last access at a node counts.\<close>

definition lastAccess :: "thread_access list \<Rightarrow> int \<Rightarrow> thread_access option" where
  "lastAccess accs n = foldl (\<lambda>r acc. if ac_node acc = n then Some acc else r) None accs"

definition sameLockCovers :: "(ptr \<Rightarrow> shared_object) \<Rightarrow> ptr \<Rightarrow> int \<Rightarrow> int \<Rightarrow> bool" where
  "sameLockCovers oh ob a b =
     (if ob = null then False
      else case (lastAccess (so_accesses (oh ob)) a, lastAccess (so_accesses (oh ob)) b) of
        (Some pa, Some pb) \<Rightarrow> ac_locked pa \<and> ac_locked pb \<and> ac_lock pa \<noteq> [] \<and> ac_lock pa = ac_lock pb
      | _ \<Rightarrow> False)"

definition objectsById :: "ptr list \<Rightarrow> (ptr \<Rightarrow> int option) \<Rightarrow> int \<Rightarrow> ptr option" where
  "objectsById objs objIndex =
     foldl (\<lambda>m ob. case objIndex ob of Some i \<Rightarrow> m(i \<mapsto> ob) | None \<Rightarrow> m) Map.empty objs"

definition reqObject :: "(int \<Rightarrow> ptr option) \<Rightarrow> node_req \<Rightarrow> ptr" where
  "reqObject objById r =
     (if nr_objectId r \<ge> 0 then (case objById (nr_objectId r) of Some ob \<Rightarrow> ob | None \<Rightarrow> null) else null)"

definition noteSuffix :: "node_req \<Rightarrow> string" where
  "noteSuffix r = (if nr_note r = [] then [] else ''  ['' @ nr_note r @ '']'')"

definition mkCandidate :: "node_req \<Rightarrow> ptr \<Rightarrow> int \<Rightarrow> int \<Rightarrow> int \<Rightarrow> bool \<Rightarrow> string \<Rightarrow> l2_candidate" where
  "mkCandidate r ob tid a b lifetime reason =
     \<lparr>lc_objectId = nr_objectId r, lc_object = ob, lc_form = nr_form r, lc_reason = reason @ noteSuffix r,
      lc_reqTid = tid, lc_aNode = a, lc_bNode = b, lc_lifetime = lifetime\<rparr>"

text \<open>The nested operand loops, left at the first pair that is not discharged.\<close>

definition firstOpen :: "(int \<Rightarrow> int \<Rightarrow> bool) \<Rightarrow> int list \<Rightarrow> int list \<Rightarrow> (int \<times> int) option" where
  "firstOpen ok as bs = List.find (\<lambda>(a, b). \<not> ok a b) (concat (map (\<lambda>a. map (\<lambda>b. (a, b)) bs) as))"

definition mediated :: "(string \<Rightarrow> string option) \<Rightarrow> (ptr \<Rightarrow> shared_object) \<Rightarrow> evidence \<Rightarrow> ptr \<Rightarrow> int \<Rightarrow> int \<Rightarrow> bool" where
  "mediated env oh ev ob a b \<longleftrightarrow>
     ordReach env ev a b \<or> ordReach env ev b a \<or> commonExclusion ev a b \<or> atomicCompatible ev a b \<or>
     sameLockCovers oh ob a b"

definition atomicConflicts :: "(ptr \<Rightarrow> shared_object) \<Rightarrow> int list \<Rightarrow> int \<Rightarrow> ptr \<Rightarrow> int list" where
  "atomicConflicts oh threadSet tid ob =
     (if ob = null then []
      else map ac_node (filter (\<lambda>acc. ac_thread acc \<in> set threadSet \<and> ac_thread acc \<noteq> tid \<and>
             (ac_type acc = ''Write'' \<or> ac_type acc = ''Free'') \<and> ac_node acc \<ge> 0) (so_accesses (oh ob))))"

definition atomicFor :: "(string \<Rightarrow> string option) \<Rightarrow> (ptr \<Rightarrow> shared_object) \<Rightarrow> evidence \<Rightarrow> ptr \<Rightarrow> int list \<Rightarrow> int \<Rightarrow> bool" where
  "atomicFor env oh ev ob region c \<longleftrightarrow>
     (let outside = ordReach env ev c (hd region) \<or> ordReach env ev (last region) c;
          excluded = list_ex (\<lambda>s. commonExclusion ev s c \<or> atomicCompatible ev s c \<or> sameLockCovers oh ob s c) region
      in outside \<or> excluded)"

definition checkRequirement :: "(string \<Rightarrow> string option) \<Rightarrow> (ptr \<Rightarrow> shared_object) \<Rightarrow> evidence \<Rightarrow> int list \<Rightarrow>
    (int \<Rightarrow> ptr option) \<Rightarrow> int \<Rightarrow> node_req \<Rightarrow> l2_candidate option" where
  "checkRequirement env oh ev threadSet objById tid r =
     (let ob = reqObject objById r; isFree = (\<lambda>n. accTypeOfNode oh ob n = ''Free'') in
      if nr_form r = ''MustPrecede'' then
        (case firstOpen (ordReach env ev) (nr_a r) (nr_b r) of
           None \<Rightarrow> None
         | Some (a, b) \<Rightarrow> Some (mkCandidate r ob tid a b (isFree b)
             (''MustPrecede undischarged: no must-order witness from node '' @ int_to_string a @
              '' to node '' @ int_to_string b)))
      else if nr_form r = ''MustBeMediated'' then
        (case firstOpen (mediated env oh ev ob) (nr_a r) (nr_b r) of
           None \<Rightarrow> None
         | Some (a, b) \<Rightarrow> Some (mkCandidate r ob tid a b (isFree a \<or> isFree b)
             (''MustBeMediated undischarged: conflicting nodes '' @ int_to_string a @ '' and '' @
              int_to_string b @ '' share no ordering, exclusion, or atomic protocol'')))
      else if nr_form r = ''MustBeAtomic'' then
        (if nr_a r = [] then None
         else case List.find (\<lambda>c. \<not> atomicFor env oh ev ob (nr_a r) c) (atomicConflicts oh threadSet tid ob) of
           None \<Rightarrow> None
         | Some c \<Rightarrow> Some (mkCandidate r ob tid (hd (nr_a r)) c (isFree c)
             (''MustBeAtomic undischarged: conflicting node '' @ int_to_string c @
              '' can interleave the atomic region'')))
      else None)"

definition checkRequirements :: "(string \<Rightarrow> string option) \<Rightarrow> (ptr \<Rightarrow> shared_object) \<Rightarrow> ptr list \<Rightarrow> int list \<Rightarrow>
    (int \<Rightarrow> contract option) \<Rightarrow> (ptr \<Rightarrow> int option) \<Rightarrow> ccpg \<Rightarrow> hbgraph \<Rightarrow> l2_candidate list" where
  "checkRequirements env oh objs threadSet contracts objIndex g h =
     (let ev = buildEvidence threadSet contracts g h; objById = objectsById objs objIndex in
      concat (map (\<lambda>tid. case contracts tid of
          None \<Rightarrow> []
        | Some k \<Rightarrow> List.map_filter (checkRequirement env oh ev threadSet objById tid) (nodeReqs k)) threadSet))"

definition toHypothesis :: "(ptr \<Rightarrow> shared_object) \<Rightarrow> l2_candidate \<Rightarrow> int \<Rightarrow> hypothesis" where
  "toHypothesis oh c seqId =
     (let cat = (if lc_lifetime c then ''use_after_free''
                 else if lc_form c = ''MustPrecede'' then ''order_violation''
                 else if lc_form c = ''MustBeMediated'' then ''data_race''
                 else ''atomicity_violation'');
          d = ''[L2] '' @ lc_reason c @
              (if lc_object c \<noteq> null then '' on '' @ (if so_name (oh (lc_object c)) = [] then ''<anon>''
                 else so_name (oh (lc_object c))) else []) @
              '' (thread '' @ int_to_string (lc_reqTid c) @ '')'';
          hyp = emptyHypothesis\<lparr>hy_id := ''l2_'' @ int_to_string seqId, hy_bug_category := cat,
            hy_severity := (if lc_lifetime c then ''high'' else ''medium''), hy_description := d\<rparr>;
          hyp = (if lc_aNode c \<ge> 0 then setNode ''a'' (lc_aNode c) hyp else hyp)
      in if lc_bNode c \<ge> 0 then setNode ''b'' (lc_bNode c) hyp else hyp)"

subsection \<open>Calibration\<close>

text \<open>
  The calibration filter: a flag per candidate, all set to keep, and the model's
  tool calls, which can only set flags of candidates in range.
\<close>

definition judge :: "int \<Rightarrow> string \<Rightarrow> bool list \<Rightarrow> bool list" where
  "judge i verdict keep =
     (if i < 0 \<or> i \<ge> int (length keep) then keep else keep[nat i := (verdict \<noteq> ''reject'')])"

definition review :: "(int \<times> string) list \<Rightarrow> l2_candidate list \<Rightarrow> bool list" where
  "review calls cands =
     (let keep = replicate (length cands) True in
      if cands = [] then keep else foldl (\<lambda>k (i, v). judge i v k) keep calls)"

definition calibrated :: "bool list \<Rightarrow> 'a list \<Rightarrow> 'a list" where
  "calibrated keep cands = map snd (filter fst (zip keep cands))"

text \<open>
  The session loop: the candidates of each session, filtered unless the calibration
  phase is skipped, numbered across sessions.  \<open>calls\<close> gives the tool calls the
  model makes in each session.
\<close>

definition sessionKept :: "(string \<Rightarrow> string option) \<Rightarrow> (ptr \<Rightarrow> shared_object) \<Rightarrow> bool \<Rightarrow>
    (int list \<times> ptr list \<Rightarrow> (int \<times> string) list) \<Rightarrow> (int \<Rightarrow> contract option) \<Rightarrow> (ptr \<Rightarrow> int option) \<Rightarrow>
    ccpg \<Rightarrow> hbgraph \<Rightarrow> int list \<times> ptr list \<Rightarrow> l2_candidate list" where
  "sessionKept env oh skipPhaseC calls contracts objIndex g h s =
     (let cands = checkRequirements env oh (snd s) (fst s) contracts objIndex g h;
          keep = (if skipPhaseC then replicate (length cands) True else review (calls s) cands)
      in calibrated keep cands)"

definition l2Sessions :: "(string \<Rightarrow> string option) \<Rightarrow> (ptr \<Rightarrow> shared_object) \<Rightarrow> bool \<Rightarrow>
    (int list \<times> ptr list \<Rightarrow> (int \<times> string) list) \<Rightarrow> (int \<Rightarrow> contract option) \<Rightarrow> (ptr \<Rightarrow> int option) \<Rightarrow>
    ccpg \<Rightarrow> hbgraph \<Rightarrow> (int list \<times> ptr list) list \<Rightarrow> hypothesis list" where
  "l2Sessions env oh skipPhaseC calls contracts objIndex g h sessions =
     map (\<lambda>(i, c). toHypothesis oh c (int i))
       (enumerate 1 (concat (map (sessionKept env oh skipPhaseC calls contracts objIndex g h) sessions)))"

end
