(* ===== verification/HbFacts.thy ===== *)
theory HbFacts
  imports HbGraph
begin

text \<open>
  The edges of the happens-before graph: the exact set that each of the uncapped builders
  adds, and the cap of the RCU pass.  Theory HbExact has the remaining passes and the whole.
\<close>

subsection \<open>The edge set\<close>

definition hb_edges :: "hbgraph \<Rightarrow> hb_edge set" where
  "hb_edges h = {e. \<exists>u. e \<in> set (outEdges h u)}"

definition mkEdge :: "ptr \<Rightarrow> ptr \<Rightarrow> hb_kind \<Rightarrow> string \<Rightarrow> hb_edge" where
  "mkEdge s d k ev = \<lparr>h_src = s, h_dst = d, h_kind = k, h_evidence = ev\<rparr>"

lemma mkEdge_sel [simp]:
  "h_src (mkEdge s d k ev) = s" "h_dst (mkEdge s d k ev) = d" "h_kind (mkEdge s d k ev) = k"
  by (simp_all add: mkEdge_def)

lemma hb_edges_clear [simp]: "hb_edges hb_clear = {}"
  by (simp add: hb_edges_def hb_clear_def)

lemma hb_edges_add:
  "hb_edges (hb_addEdge s d k ev h) =
     hb_edges h \<union> (if s = null \<or> d = null then {} else {mkEdge s d k ev})"
  by (auto simp: hb_edges_def hb_addEdge_def mkEdge_def Let_def split: if_splits)

lemma foldl_edges:
  assumes "\<And>h x. x \<in> set xs \<Longrightarrow> hb_edges (f h x) = hb_edges h \<union> new x"
  shows "hb_edges (foldl f h xs) = hb_edges h \<union> (\<Union>x \<in> set xs. new x)"
  using assms by (induction xs arbitrary: h) auto

text \<open>Edges sit in the list of their source, and the two maps hold the same edges.\<close>

definition hb_wf :: "hbgraph \<Rightarrow> bool" where
  "hb_wf h \<longleftrightarrow> (\<forall>u. \<forall>e \<in> set (outEdges h u). h_src e = u \<and> u \<noteq> null \<and> h_dst e \<noteq> null \<and> e \<in> set (inEdges h (h_dst e))) \<and>
     (\<forall>v. \<forall>e \<in> set (inEdges h v). h_dst e = v \<and> e \<in> set (outEdges h (h_src e)))"

lemma hb_wf_clear: "hb_wf hb_clear"
  by (simp add: hb_wf_def hb_clear_def)

lemma hb_wf_add: "hb_wf h \<Longrightarrow> hb_wf (hb_addEdge s d k ev h)"
  by (auto simp: hb_wf_def hb_addEdge_def Let_def)

lemma hb_wf_foldl: "(\<And>h x. hb_wf h \<Longrightarrow> hb_wf (f h x)) \<Longrightarrow> hb_wf h \<Longrightarrow> hb_wf (foldl f h xs)"
  by (induction xs arbitrary: h) auto

subsection \<open>The builders\<close>

lemma programOrder_edges:
  "hb_edges (buildProgramOrderEdges g h) = hb_edges h \<union>
     {mkEdge (e_src e) (e_dst e)
        (case e_type e of ORDER \<Rightarrow> PROGRAM_ORDER | CALL \<Rightarrow> CALL_RETURN | HB \<Rightarrow> FORK_TO_ENTRY)
        (case e_type e of ORDER \<Rightarrow> ''cfg'' | CALL \<Rightarrow> ''call'' | HB \<Rightarrow> ''fork'') | e.
        e \<in> set (g_edges g) \<and> e_src e \<noteq> null \<and> e_dst e \<noteq> null}"
proof -
  define new where "new e = (if e_src e = null \<or> e_dst e = null then {} else {mkEdge (e_src e) (e_dst e)
        (case e_type e of ORDER \<Rightarrow> PROGRAM_ORDER | CALL \<Rightarrow> CALL_RETURN | HB \<Rightarrow> FORK_TO_ENTRY)
        (case e_type e of ORDER \<Rightarrow> ''cfg'' | CALL \<Rightarrow> ''call'' | HB \<Rightarrow> ''fork'')})" for e :: ccpg_edge
  have "hb_edges (buildProgramOrderEdges g h) = hb_edges h \<union> (\<Union>e \<in> set (g_edges g). new e)"
    unfolding buildProgramOrderEdges_def
    by (rule foldl_edges) (auto simp: new_def hb_edges_add split: edge_type.splits)
  then show ?thesis by (auto simp: new_def split: if_splits)
qed

definition lockEdge :: "lsa \<Rightarrow> ptr \<Rightarrow> ptr \<Rightarrow> hb_edge" where
  "lockEdge S lr la = mkEdge (getRelease (lockOf S lr)) (acq S la) LOCK_RELEASE_ACQUIRE
     (''lock'' @ to_string (lk_id (lockOf S lr)))"

lemma lock_edges:
  "hb_edges (buildLockEdges lockAlias S T conc h) = hb_edges h \<union>
     {lockEdge S lr la | lr la cls. cls \<in> set (lockClasses lockAlias S) \<and> lr \<in> set cls \<and> la \<in> set cls \<and>
        lockPair S T conc lr la}"
proof -
  define n1 where "n1 lr la = (if lockPair S T conc lr la then {lockEdge S lr la} else {})" for lr la
  have 1: "hb_edges (if lockPair S T conc lr la
        then hb_addEdge (getRelease (lockOf S lr)) (acq S la) LOCK_RELEASE_ACQUIRE
               (''lock'' @ to_string (lk_id (lockOf S lr))) h else h) = hb_edges h \<union> n1 lr la" for h lr la
    by (auto simp: n1_def lockEdge_def hb_edges_add lockPair_def Let_def)
  have "hb_edges (buildLockEdges lockAlias S T conc h) =
      hb_edges h \<union> (\<Union>cls \<in> set (lockClasses lockAlias S). \<Union>lr \<in> set cls. \<Union>la \<in> set cls. n1 lr la)"
    unfolding buildLockEdges_def by (intro foldl_edges 1)
  then show ?thesis by (auto simp: n1_def split: if_splits)
qed

lemma forkJoin_edges:
  "hb_edges (buildForkJoinEdges g T h) = hb_edges h \<union>
     {mkEdge ex next JOIN_FROM_EXIT ''join'' | ex next t. t \<in> set (threads T) \<and> joinNode (thr T t) \<noteq> null \<and>
        ex \<in> set (threadExits g T t) \<and> ex \<noteq> null \<and> next \<in> set (orderTargets g (joinNode (thr T t))) \<and> next \<noteq> null}"
proof -
  define n1 where "n1 ex nx = (if ex = null \<or> nx = null then {} else {mkEdge ex nx JOIN_FROM_EXIT ''join''})"
    for ex nx :: ptr
  define n2 where "n2 t = (if joinNode (thr T t) = null then {} else
      \<Union>next \<in> set (orderTargets g (joinNode (thr T t))). \<Union>ex \<in> set (threadExits g T t). n1 ex next)" for t :: ptr
  have 1: "hb_edges (hb_addEdge ex nx JOIN_FROM_EXIT ''join'' h) = hb_edges h \<union> n1 ex nx" for h ex nx
    by (auto simp: n1_def hb_edges_add)
  have 2: "hb_edges (if nx = null then h
      else foldl (\<lambda>h ex. hb_addEdge ex nx JOIN_FROM_EXIT ''join'' h) h exs) =
      hb_edges h \<union> (\<Union>ex \<in> set exs. n1 ex nx)" for h nx exs
    using foldl_edges[of exs "\<lambda>h ex. hb_addEdge ex nx JOIN_FROM_EXIT ''join'' h" "\<lambda>ex. n1 ex nx" h] 1
    by (auto simp: n1_def)
  have 3: "hb_edges (let join = joinNode (thr T t); exits = threadExits g T t in
      if join = null \<or> exits = [] then h
      else foldl (\<lambda>h next. if next = null then h
             else foldl (\<lambda>h ex. hb_addEdge ex next JOIN_FROM_EXIT ''join'' h) h exits)
           h (orderTargets g join)) = hb_edges h \<union> n2 t" for h t
    unfolding Let_def
    by (cases "joinNode (thr T t) = null \<or> threadExits g T t = []")
      (auto simp: n2_def simp del: neq0_conv simp: foldl_edges[OF 2])
  have "hb_edges (buildForkJoinEdges g T h) = hb_edges h \<union> (\<Union>t \<in> set (threads T). n2 t)"
    unfolding buildForkJoinEdges_def by (intro foldl_edges 3)
  then show ?thesis by (auto simp: n2_def n1_def split: if_splits)
qed

lemma completion_edges:
  "hb_edges (buildCompletionEdges alias g h) = hb_edges h \<union>
     {mkEdge c nxt COMPLETION ''complete->after_wait'' | c w nxt. c \<in> set (getNodesByType g COND_SIGNAL) \<and>
        w \<in> set (getNodesByType g COND_WAIT) \<and> completionAlias alias g c w \<and>
        nxt \<in> set (orderTargets g w) \<and> nxt \<noteq> null}"
proof -
  define n1 where "n1 c nxt = (if nxt = null \<or> c = null then {} else {mkEdge c nxt COMPLETION ''complete->after_wait''})"
    for c nxt
  define n2 where "n2 c w = (if completionAlias alias g c w then \<Union>nxt \<in> set (orderTargets g w). n1 c nxt else {})"
    for c w
  have 1: "hb_edges (if nxt \<noteq> null then hb_addEdge c nxt COMPLETION ''complete->after_wait'' h else h) =
      hb_edges h \<union> n1 c nxt" for h c nxt
    by (auto simp: n1_def hb_edges_add)
  have 2: "hb_edges (if \<not> completionAlias alias g c w then h
     else foldl (\<lambda>h nxt. if nxt \<noteq> null then hb_addEdge c nxt COMPLETION ''complete->after_wait'' h else h)
            h (orderTargets g w)) = hb_edges h \<union> n2 c w" for h c w
    using foldl_edges[of "orderTargets g w" "\<lambda>h nxt. if nxt \<noteq> null then hb_addEdge c nxt COMPLETION ''complete->after_wait'' h else h" "n1 c" h] 1
    by (auto simp: n2_def)
  have "hb_edges (buildCompletionEdges alias g h) =
      hb_edges h \<union> (\<Union>c \<in> set (getNodesByType g COND_SIGNAL). \<Union>w \<in> set (getNodesByType g COND_WAIT). n2 c w)"
    unfolding buildCompletionEdges_def by (intro foldl_edges 2)
  moreover have cn: "c \<noteq> null" if "completionAlias alias g c w" for c w
    using that by (auto simp: completionAlias_def split: if_splits)
  moreover have "(\<Union>c \<in> set (getNodesByType g COND_SIGNAL). \<Union>w \<in> set (getNodesByType g COND_WAIT). n2 c w) =
     {mkEdge c nxt COMPLETION ''complete->after_wait'' | c w nxt. c \<in> set (getNodesByType g COND_SIGNAL) \<and>
        w \<in> set (getNodesByType g COND_WAIT) \<and> completionAlias alias g c w \<and>
        nxt \<in> set (orderTargets g w) \<and> nxt \<noteq> null}" (is "?A = ?B")
  proof (intro equalityI subsetI)
    fix x assume "x \<in> ?B"
    then obtain c w nxt where x: "x = mkEdge c nxt COMPLETION ''complete->after_wait''"
      "c \<in> set (getNodesByType g COND_SIGNAL)" "w \<in> set (getNodesByType g COND_WAIT)"
      "completionAlias alias g c w" "nxt \<in> set (orderTargets g w)" "nxt \<noteq> null" by blast
    then have "x \<in> n2 c w" using cn by (auto simp: n2_def n1_def)
    with x(2,3) show "x \<in> ?A" by blast
  qed (fastforce simp: n2_def n1_def split: if_splits)
  ultimately show ?thesis by simp
qed

subsection \<open>The cap of the RCU pass\<close>

text \<open>The counter never passes the larger of its start and the cap.\<close>

lemma rcu_unlocks_count:
  "snd (rcu_unlocks L g cap fam s us st) \<le> max (snd st) (nat cap)"
proof (induction L g cap fam s us st rule: rcu_unlocks.induct)
  case (2 L g cap fam s u us h added)
  then show ?case by (auto simp: max_def split: if_splits)
qed simp

lemma rcu_threads_count:
  "snd (rcu_threads L g T conc cap fam s ts st) \<le> max (snd st) (nat cap)"
proof (induction ts arbitrary: st)
  case (Cons tr ts)
  let ?st' = "rcu_unlocks L g cap fam s (unlockSites g T fam tr) st"
  have "snd ?st' \<le> max (snd st) (nat cap)" by (rule rcu_unlocks_count)
  moreover have "snd (rcu_threads L g T conc cap fam s ts ?st') \<le> max (snd ?st') (nat cap)" by (rule Cons.IH)
  ultimately show ?case using Cons.IH[of st] by (auto simp: Let_def)
qed simp

lemma rcu_sites_count:
  "snd (rcu_sites L g T conc cap sites st) \<le> max (snd st) (nat cap)"
proof (induction sites arbitrary: st)
  case (Cons x sites)
  obtain fam s where x: "x = (fam, s)" by (cases x)
  let ?st' = "rcu_threads L g T conc cap fam s (threads T) st"
  have "snd ?st' \<le> max (snd st) (nat cap)" by (rule rcu_threads_count)
  moreover have "snd (rcu_sites L g T conc cap sites ?st') \<le> max (snd ?st') (nat cap)" by (rule Cons.IH)
  ultimately show ?case by (auto simp: x Let_def)
qed simp

text \<open>The counter counts: every addition is one edge.\<close>

lemma hb_edges_add_subset: "hb_edges (hb_addEdge s d k ev h) \<subseteq> insert (mkEdge s d k ev) (hb_edges h)"
  by (auto simp: hb_edges_add split: if_splits)

lemma rcu_unlocks_card:
  "finite (hb_edges (fst st)) \<Longrightarrow> finite (hb_edges (fst (rcu_unlocks L g cap fam s us st))) \<and>
     card (hb_edges (fst (rcu_unlocks L g cap fam s us st))) + snd st \<le>
     card (hb_edges (fst st)) + snd (rcu_unlocks L g cap fam s us st)"
proof (induction L g cap fam s us st rule: rcu_unlocks.induct)
  case (2 L g cap fam s u us h added)
  let ?h = "hb_addEdge u s RCU_SYNC ''rcu_unlock->synchronize'' h"
  have fin: "finite (hb_edges ?h)"
    using 2(3) finite_subset[OF hb_edges_add_subset] by simp
  have "card (hb_edges ?h) \<le> card (insert (mkEdge u s RCU_SYNC ''rcu_unlock->synchronize'') (hb_edges h))"
    using 2(3) by (intro card_mono hb_edges_add_subset) simp
  also have "\<dots> \<le> Suc (card (hb_edges h))" using 2(3) by (simp add: card_insert_if)
  finally have c: "card (hb_edges ?h) \<le> Suc (card (hb_edges h))" .
  show ?case
  proof (cases "cap \<le> int added")
    case True then show ?thesis using 2(3) by simp
  next
    case False
    show ?thesis
    proof (cases "fam = SRCU \<and> (srcuOperand L g s = null \<or> srcuOperand L g u = null \<or>
        srcuOperand L g s \<noteq> srcuOperand L g u)")
      case True then show ?thesis using 2(1)[OF False True] 2(3) False by simp
    next
      case nskip: False
      have "rcu_unlocks L g cap fam s (u # us) (h, added) = rcu_unlocks L g cap fam s us (?h, Suc added)"
        using False nskip by (subst rcu_unlocks.simps(2)) (simp only: if_False)
      then show ?thesis using 2(2)[OF False nskip] fin c by simp
    qed
  qed
qed simp

lemma rcu_threads_card:
  "finite (hb_edges (fst st)) \<Longrightarrow> finite (hb_edges (fst (rcu_threads L g T conc cap fam s ts st))) \<and>
     card (hb_edges (fst (rcu_threads L g T conc cap fam s ts st))) + snd st \<le>
     card (hb_edges (fst st)) + snd (rcu_threads L g T conc cap fam s ts st)"
proof (induction ts arbitrary: st)
  case (Cons tr ts)
  let ?st' = "rcu_unlocks L g cap fam s (unlockSites g T fam tr) st"
  note u = rcu_unlocks_card[OF Cons.prems, of L g cap fam s "unlockSites g T fam tr"]
  have "rcu_threads L g T conc cap fam s (tr # ts) st \<in>
      {rcu_threads L g T conc cap fam s ts st, ?st', rcu_threads L g T conc cap fam s ts ?st'}"
    by (simp add: Let_def)
  then show ?case using u Cons.IH[of st] Cons.IH[of ?st'] Cons.prems by auto
qed simp

lemma rcu_sites_card:
  "finite (hb_edges (fst st)) \<Longrightarrow> finite (hb_edges (fst (rcu_sites L g T conc cap sites st))) \<and>
     card (hb_edges (fst (rcu_sites L g T conc cap sites st))) + snd st \<le>
     card (hb_edges (fst st)) + snd (rcu_sites L g T conc cap sites st)"
proof (induction sites arbitrary: st)
  case (Cons x sites)
  obtain fam s where x: "x = (fam, s)" by (cases x)
  let ?st' = "rcu_threads L g T conc cap fam s (threads T) st"
  note u = rcu_threads_card[OF Cons.prems, of L g T conc cap fam s "threads T"]
  then show ?case using Cons.IH[of ?st'] by (auto simp: x Let_def)
qed simp

lemma rcu_bound:
  assumes "finite (hb_edges h)"
  shows "card (hb_edges (buildRCUEdges env L fams g T conc h)) \<le>
     card (hb_edges h) + nat (envInt env ''HB_RCU_MAX_EDGES'' 4000)"
  using rcu_sites_card[of "(h, 0)"] rcu_sites_count[of L g T conc _ _ "(h, 0)"] assms
  unfolding buildRCUEdges_def Let_def
  by (smt (verit, best) Nat.add_0_right add_le_cancel_left fst_conv le_trans max_0L snd_conv)

end
