(* ===== verification/Sublists.thy ===== *)
theory Sublists
  imports Prelude "HOL-Library.Sublist"
begin

text \<open>Subsequences of lists: what a filter or a capped selection keeps of its input.\<close>

lemma subseq_subset: "subseq xs ys \<Longrightarrow> set xs \<subseteq> set ys"
  by (induction rule: list_emb.induct) auto

lemma subseq_sorted_list: "subseq xs ys \<Longrightarrow> sorted (ys :: 'a :: linorder list) \<Longrightarrow> sorted xs"
proof (induction rule: list_emb.induct)
  case (list_emb_Cons2 x y xs ys)
  have "set xs \<subseteq> set ys" using list_emb_Cons2(2) by (rule subseq_subset)
  with list_emb_Cons2 show ?case by auto
qed auto

end
