(* ===== verification/L2Facts.thy ===== *)
theory L2Facts
  imports L2Checker HbFacts Sublists
begin

text \<open>
  What the requirement-driven checker decides: the must-order test is exactly the
  existence of a static synchronized chain or of a chain of guarantee edges joined by
  control flow; the composed evidence is exactly what the contracts of the thread set
  state; a requirement gives a candidate exactly when its discharge condition fails;
  more guarantees never turn a discharged requirement into a candidate; calibration
  only removes candidates.
\<close>

subsection \<open>The must-order test\<close>

text \<open>Targets reached from a node by guarantee edges joined by control flow, at least one of them.\<close>

inductive guarded :: "(int \<Rightarrow> int \<Rightarrow> bool) \<Rightarrow> (int \<times> int) set \<Rightarrow> int \<Rightarrow> int \<Rightarrow> bool" for cf E x where
  first: "(a, b) \<in> E \<Longrightarrow> cf x a \<Longrightarrow> guarded cf E x b"
| more: "guarded cf E x y \<Longrightarrow> (a, b) \<in> E \<Longrightarrow> cf y a \<Longrightarrow> guarded cf E x b"

lemma guarded_mono:
  assumes "guarded cf E x y" "E \<subseteq> E'" shows "guarded cf E' x y"
  using assms(1)
proof induction
  case first with assms(2) show ?case by (blast intro: guarded.first)
next
  case more with assms(2) show ?case by (blast intro: guarded.more)
qed

lemma guarded_target: "guarded cf E x y \<Longrightarrow> y \<in> snd ` E"
  by (induction rule: guarded.induct) force+

lemma guarded_prefix:
  assumes "guarded cf E b y" "(a, b) \<in> E" "cf x a" shows "guarded cf E x y"
  using assms(1)
proof induction
  case (first a' b')
  have "guarded cf E x b" using assms(2,3) by (rule guarded.first)
  then show ?case using first by (rule guarded.more)
next
  case (more y a' b')
  from more(4) more(2,3) show ?case by (rule guarded.more)
qed

definition loop_inv :: "(int \<Rightarrow> int \<Rightarrow> bool) \<Rightarrow> (int \<times> int) list \<Rightarrow> int \<Rightarrow> int \<Rightarrow> int list \<Rightarrow> int set \<Rightarrow> bool" where
  "loop_inv cf E from dst work visited \<longleftrightarrow>
     set work \<subseteq> visited \<and> (\<forall>v \<in> visited. guarded cf (set E) from v) \<and>
     (\<forall>(a, b) \<in> set E. cf from a \<longrightarrow> b \<in> visited) \<and>
     (\<forall>v \<in> visited - set work. \<not> cf v dst \<and> (\<forall>(a, b) \<in> set E. v = a \<or> cf v a \<longrightarrow> b \<in> visited))"

lemma loop_invI:
  assumes "set work \<subseteq> visited" "\<And>v. v \<in> visited \<Longrightarrow> guarded cf (set E) from v"
    "\<And>a b. (a, b) \<in> set E \<Longrightarrow> cf from a \<Longrightarrow> b \<in> visited"
    "\<And>v. v \<in> visited \<Longrightarrow> v \<notin> set work \<Longrightarrow> \<not> cf v dst"
    "\<And>v a b. v \<in> visited \<Longrightarrow> v \<notin> set work \<Longrightarrow> (a, b) \<in> set E \<Longrightarrow> v = a \<or> cf v a \<Longrightarrow> b \<in> visited"
  shows "loop_inv cf E from dst work visited"
  unfolding loop_inv_def split_def
proof (intro conjI ballI impI)
  show "snd e \<in> visited" if "e \<in> set E" "cf from (fst e)" for e using that assms(3)[of "fst e" "snd e"] by simp
  show "snd e \<in> visited" if "v \<in> visited - set work" "e \<in> set E" "v = fst e \<or> cf v (fst e)" for v e
    using that assms(5)[of v "fst e" "snd e"] by simp
qed (use assms(1,2,4) in auto)

lemma loop_invD:
  assumes "loop_inv cf E from dst work visited"
  shows "set work \<subseteq> visited" "v \<in> visited \<Longrightarrow> guarded cf (set E) from v"
    "(a, b) \<in> set E \<Longrightarrow> cf from a \<Longrightarrow> b \<in> visited"
    "v \<in> visited \<Longrightarrow> v \<notin> set work \<Longrightarrow> \<not> cf v dst"
    "v \<in> visited \<Longrightarrow> v \<notin> set work \<Longrightarrow> (a, b) \<in> set E \<Longrightarrow> v = a \<or> cf v a \<Longrightarrow> b \<in> visited"
proof -
  note I = assms[unfolded loop_inv_def split_def]
  show "set work \<subseteq> visited" "v \<in> visited \<Longrightarrow> guarded cf (set E) from v" using I by simp_all
  show "b \<in> visited" if "(a, b) \<in> set E" "cf from a"
    using I that by (metis fst_conv snd_conv)
  show "\<not> cf v dst" if "v \<in> visited" "v \<notin> set work" using I that by blast
  show "b \<in> visited" if "v \<in> visited" "v \<notin> set work" "(a, b) \<in> set E" "v = a \<or> cf v a"
  proof -
    from I that(1,2) have "\<forall>e \<in> set E. v = fst e \<or> cf v (fst e) \<longrightarrow> snd e \<in> visited" by blast
    from bspec[OF this that(3)] that(4) show ?thesis by simp
  qed
qed

lemma loop_inv_step:
  assumes inv: "loop_inv cf E from dst (x # work) visited" and refl: "\<And>v. cf v v" and x: "\<not> cf x dst"
    and p: "pushTargets (\<lambda>a. x = a \<or> cf x a) E work visited = (work', visited')"
  shows "loop_inv cf E from dst work' visited'"
proof -
  let ?B = "{b. \<exists>a. (a, b) \<in> set E \<and> (x = a \<or> cf x a)}"
  obtain new where n: "work' = new @ work" "set new \<inter> visited = {}" "visited' = visited \<union> set new"
    "set new \<subseteq> ?B" "?B \<subseteq> visited'"
    using pushTargets_result[OF p] by blast
  note I = loop_invD[OF inv]
  have gx: "guarded cf (set E) from x" using I(1,2) by simp
  have gn: "guarded cf (set E) from b" if "b \<in> set new" for b
  proof -
    from that n(4) obtain a where "(a, b) \<in> set E" "cf x a" using refl by blast
    with gx show ?thesis by (rule guarded.more)
  qed
  show ?thesis
  proof (rule loop_invI)
    show "set work' \<subseteq> visited'" using I(1) n(1,3) by auto
    show "guarded cf (set E) from v" if "v \<in> visited'" for v
      using that I(2) gn unfolding n(3) by blast
    show "b \<in> visited'" if "(a, b) \<in> set E" "cf from a" for a b using I(3)[OF that] n(3) by simp
    show "\<not> cf v dst" if "v \<in> visited'" "v \<notin> set work'" for v
      using that x I(4)[of v] n(1,3) by (cases "v = x") auto
    show "b \<in> visited'" if "v \<in> visited'" "v \<notin> set work'" "(a, b) \<in> set E" "v = a \<or> cf v a" for v a b
    proof (cases "v = x")
      case True
      with that(3,4) have "b \<in> ?B" by blast
      with n(5) show ?thesis by (rule subsetD)
    next
      case False
      with that(1,2) n(1,3) have "v \<in> visited" "v \<notin> set (x # work)" by auto
      from I(5)[OF this that(3,4)] n(3) show ?thesis by simp
    qed
  qed
qed

lemma loop_inv_closed:
  assumes "loop_inv cf E from dst [] visited" "guarded cf (set E) from y" shows "y \<in> visited"
  using assms(2)
proof induction
  case (first a b)
  then show ?case by (rule loop_invD(3)[OF assms(1)])
next
  case (more y a b)
  show ?case by (rule loop_invD(5)[OF assms(1) more(4) _ more(2)]) (simp_all add: more)
qed

lemma ordLoop_correct:
  assumes "loop_inv cf E from dst work visited" "\<And>v. cf v v"
  shows "ordLoop cf E dst work visited \<longleftrightarrow> (\<exists>y. guarded cf (set E) from y \<and> cf y dst)"
  using assms
proof (induction cf E dst work visited rule: ordLoop.induct)
  case (1 cf E dst visited)
  have "\<not> cf y dst" if "guarded cf (set E) from y" for y
    by (rule loop_invD(4)[OF 1(1) loop_inv_closed[OF 1(1) that]]) simp
  then show ?case by auto
next
  case (2 cf E dst x work visited)
  show ?case
  proof (cases "cf x dst")
    case True
    moreover have "guarded cf (set E) from x" using loop_invD(1,2)[OF 2(2)] by simp
    ultimately show ?thesis by auto
  next
    case False
    obtain work' visited' where p: "pushTargets (\<lambda>a. x = a \<or> cf x a) E work visited = (work', visited')"
      by fastforce
    from loop_inv_step[OF 2(2) 2(3) False p] have "loop_inv cf E from dst work' visited'" .
    from 2(1)[OF False p[symmetric] this 2(3)] show ?thesis using False p by simp
  qed
qed

lemma mustOrder_iff:
  assumes refl: "\<And>v. cf v v"
  shows "mustOrder cf sync E x y \<longleftrightarrow> x = y \<or> sync x y \<or> (\<exists>z. guarded cf (set E) x z \<and> cf z y)"
proof -
  obtain work visited where p: "pushTargets (cf x) E [] {} = (work, visited)" by fastforce
  obtain new where n: "work = new" "visited = set new" "set new \<subseteq> {b. \<exists>a. (a, b) \<in> set E \<and> cf x a}"
    "{b. \<exists>a. (a, b) \<in> set E \<and> cf x a} \<subseteq> visited"
    using pushTargets_result[OF p] by auto
  have "loop_inv cf E x y work visited"
    by (rule loop_invI) (use n in \<open>auto intro: guarded.first\<close>)
  from ordLoop_correct[OF this refl] show ?thesis
    using p by (auto simp: mustOrder_def elim: guarded.cases)
qed

text \<open>
  The interface of the order test: a reflexive control-flow closure, and a static
  synchronization order that is itself control flow.
\<close>

locale must_order =
  fixes cf :: "int \<Rightarrow> int \<Rightarrow> bool" and sync :: "int \<Rightarrow> int \<Rightarrow> bool"
  assumes cf_refl: "cf x x"
    and sync_cf: "sync x y \<Longrightarrow> cf x y"
begin

lemma ord_iff: "mustOrder cf sync E x y \<longleftrightarrow> x = y \<or> sync x y \<or> (\<exists>z. guarded cf (set E) x z \<and> cf z y)"
  by (rule mustOrder_iff) (rule cf_refl)

lemma ord_refl: "mustOrder cf sync E x x"
  by (simp add: ord_iff)

lemma ord_mono: "mustOrder cf sync E x y \<Longrightarrow> set E \<subseteq> set E' \<Longrightarrow> mustOrder cf sync E' x y"
  unfolding ord_iff by (blast intro: guarded_mono)

lemma ord_edge: "(a, b) \<in> set E \<Longrightarrow> cf x a \<Longrightarrow> cf b y \<Longrightarrow> mustOrder cf sync E x y"
  unfolding ord_iff by (blast intro: guarded.first)

lemma ord_extend:
  assumes "mustOrder cf sync E x a" "(a, b) \<in> set E" shows "mustOrder cf sync E x b"
proof -
  from assms(1) consider "cf x a" | z where "guarded cf (set E) x z" "cf z a"
    unfolding ord_iff using cf_refl sync_cf by blast
  then have "guarded cf (set E) x b"
    by cases (use assms(2) in \<open>blast intro: guarded.first guarded.more\<close>)+
  then show ?thesis unfolding ord_iff using cf_refl by blast
qed

lemma ord_prepend:
  assumes "(a, b) \<in> set E" "mustOrder cf sync E b y" shows "mustOrder cf sync E a y"
proof -
  from assms(2) consider "cf b y" | z where "guarded cf (set E) b z" "cf z y"
    unfolding ord_iff using cf_refl sync_cf by blast
  then show ?thesis
  proof cases
    case 1 with assms(1) cf_refl show ?thesis by (blast intro: ord_edge)
  next
    case 2
    from guarded_prefix[OF 2(1) assms(1) cf_refl] 2(2) show ?thesis unfolding ord_iff by blast
  qed
qed

lemma ord_no_guarantees: "mustOrder cf sync [] x y \<longleftrightarrow> x = y \<or> sync x y"
  unfolding ord_iff by (auto elim: guarded.cases)

end


lemma staticSyncOrder_cf:
  assumes "staticSyncOrder env ev x y" shows "cfReach env ev x y"
proof -
  let ?a = "getNodeByID (ev_ccpg ev) x" and ?b = "getNodeByID (ev_ccpg ev) y"
  have r: "?a \<noteq> null" "?b \<noteq> null" "hbReachable env (ev_hb ev) ?a ?b maxDepth True (l2SyncPolicy env)"
    using assms by (auto simp: staticSyncOrder_def Let_def split: if_splits)
  then have "hbReachable env (ev_hb ev) ?a ?b maxDepth False AllMechanisms"
    unfolding hbReachable_chain by (auto split: if_splits)
  with r show ?thesis by (auto simp: cfReach_def Let_def)
qed

interpretation ev: must_order "cfReach env ev" "staticSyncOrder env ev" for env ev
  by unfold_locales (simp add: cfReach_def, rule staticSyncOrder_cf)

subsection \<open>The composed evidence\<close>

definition tokens_of :: "tokens \<Rightarrow> (string \<times> int) set" where
  "tokens_of m = {(tok, a). inToken m tok a}"

definition tok_wf :: "tokens \<Rightarrow> bool" where
  "tok_wf m \<longleftrightarrow> distinct (map fst m)"

lemma tokAppend_wf [simp]: "tok_wf m \<Longrightarrow> tok_wf (tokAppend tok ns m)"
proof -
  assume m: "tok_wf m"
  have f: "map fst (map (\<lambda>(k, v). if k = tok then (k, v @ ns) else (k, v)) m) = map fst m"
    by (induction m) auto
  show ?thesis
    using m by (auto simp: tokAppend_def tok_wf_def map_of_eq_None_iff f simp del: map_map split: option.splits)
qed

lemma map_of_appendAt:
  "map_of (map (\<lambda>(k, v). if k = tok then (k, v @ ns) else (k, v)) m) t =
     (if t = tok then map_option (\<lambda>v. v @ ns) (map_of m t) else map_of m t)"
  by (induction m) auto

lemma tokAppend_tokens [simp]: "tokens_of (tokAppend tok ns m) = tokens_of m \<union> {tok} \<times> set ns"
  by (auto simp: tokens_of_def tokAppend_def inToken_def map_of_appendAt map_add_def
      split: option.splits if_splits)

lemma tok_entry: "tok_wf m \<Longrightarrow> (tok, nodes) \<in> set m \<Longrightarrow> a \<in> set nodes \<Longrightarrow> (tok, a) \<in> tokens_of m"
  by (simp add: tok_wf_def tokens_of_def inToken_def)

lemma entry_tok: "(tok, a) \<in> tokens_of m \<Longrightarrow> \<exists>nodes. (tok, nodes) \<in> set m \<and> a \<in> set nodes"
  by (auto simp: tokens_of_def inToken_def dest: map_of_SomeD split: option.splits)

definition ev_wf :: "evidence \<Rightarrow> bool" where
  "ev_wf ev \<longleftrightarrow> tok_wf (exclExclusive ev) \<and> tok_wf (exclShared ev) \<and> tok_wf (atomicTok ev)"

lemma atomic_fold:
  "ev_wf ev \<Longrightarrow> (let ev' = foldl (\<lambda>ev a. ev\<lparr>atomicTok := tokAppend tok [a] (atomicTok ev)\<rparr>) ev ns in
     ev_wf ev' \<and> tokens_of (atomicTok ev') = tokens_of (atomicTok ev) \<union> {tok} \<times> set ns \<and>
     guarEdges ev' = guarEdges ev \<and> exclExclusive ev' = exclExclusive ev \<and> exclShared ev' = exclShared ev \<and>
     ev_ccpg ev' = ev_ccpg ev \<and> ev_hb ev' = ev_hb ev)"
proof (induction ns arbitrary: ev)
  case (Cons a ns)
  have "ev_wf (ev\<lparr>atomicTok := tokAppend tok [a] (atomicTok ev)\<rparr>)" using Cons.prems by (simp add: ev_wf_def)
  from Cons.IH[OF this] show ?case by (auto simp: Let_def)
qed simp

text \<open>What one guarantee contributes to each part of the evidence.\<close>

definition guarPairs :: "ccpg \<Rightarrow> node_guar \<Rightarrow> (int \<times> int) set" where
  "guarPairs g gu = {(a, b). (ng_form gu = ''Order'' \<or> ng_form gu = ''Wait'') \<and> a \<in> set (ng_a gu) \<and>
     b \<in> set (ng_b gu) \<and> nodeOk g a \<and> nodeOk g b}"

definition guarTokens :: "ccpg \<Rightarrow> string \<Rightarrow> (string \<Rightarrow> bool) \<Rightarrow> node_guar \<Rightarrow> (string \<times> int) set" where
  "guarTokens g form mode gu =
     {(tok, a). ng_form gu = form \<and> mode (ng_mode gu) \<and> tok = ng_token gu \<and> a \<in> set (ng_a gu) \<and> nodeOk g a}"

lemma addGuarantee_effect:
  assumes "ev_wf ev"
  shows "ev_wf (addGuarantee gu ev)"
    "ev_ccpg (addGuarantee gu ev) = ev_ccpg ev" "ev_hb (addGuarantee gu ev) = ev_hb ev"
    "set (guarEdges (addGuarantee gu ev)) = set (guarEdges ev) \<union> guarPairs (ev_ccpg ev) gu"
    "tokens_of (exclExclusive (addGuarantee gu ev)) =
       tokens_of (exclExclusive ev) \<union> guarTokens (ev_ccpg ev) ''Exclude'' (\<lambda>m. m \<noteq> ''shared'') gu"
    "tokens_of (exclShared (addGuarantee gu ev)) =
       tokens_of (exclShared ev) \<union> guarTokens (ev_ccpg ev) ''Exclude'' (\<lambda>m. m = ''shared'') gu"
    "tokens_of (atomicTok (addGuarantee gu ev)) =
       tokens_of (atomicTok ev) \<union> guarTokens (ev_ccpg ev) ''AtomicOp'' (\<lambda>_. True) gu"
  using assms atomic_fold[OF assms, of "ng_token gu" "filter (nodeOk (ev_ccpg ev)) (ng_a gu)"]
  unfolding addGuarantee_def guarPairs_def guarTokens_def Let_def
  by (auto simp: ev_wf_def)


text \<open>The guarantees the contracts of a thread set state.\<close>

definition statedGuars :: "int list \<Rightarrow> (int \<Rightarrow> contract option) \<Rightarrow> node_guar set" where
  "statedGuars ts contracts = {gu. \<exists>tid \<in> set ts. \<exists>k. contracts tid = Some k \<and> gu \<in> set (nodeGuars k)}"

definition statedEdges :: "ccpg \<Rightarrow> node_guar set \<Rightarrow> (int \<times> int) set" where
  "statedEdges g G = (\<Union>gu \<in> G. guarPairs g gu)"

definition statedTokens :: "ccpg \<Rightarrow> string \<Rightarrow> (string \<Rightarrow> bool) \<Rightarrow> node_guar set \<Rightarrow> (string \<times> int) set" where
  "statedTokens g form mode G = (\<Union>gu \<in> G. guarTokens g form mode gu)"

abbreviation exclusiveStated :: "ccpg \<Rightarrow> node_guar set \<Rightarrow> (string \<times> int) set" where
  "exclusiveStated g G \<equiv> statedTokens g ''Exclude'' (\<lambda>m. m \<noteq> ''shared'') G"

abbreviation sharedStated :: "ccpg \<Rightarrow> node_guar set \<Rightarrow> (string \<times> int) set" where
  "sharedStated g G \<equiv> statedTokens g ''Exclude'' (\<lambda>m. m = ''shared'') G"

abbreviation atomicStated :: "ccpg \<Rightarrow> node_guar set \<Rightarrow> (string \<times> int) set" where
  "atomicStated g G \<equiv> statedTokens g ''AtomicOp'' (\<lambda>_. True) G"

text \<open>\<open>ev\<close> is the evidence \<open>ev0\<close> extended by the guarantees \<open>G\<close>.\<close>

definition extendsBy :: "evidence \<Rightarrow> node_guar set \<Rightarrow> evidence \<Rightarrow> bool" where
  "extendsBy ev0 G ev \<longleftrightarrow> ev_wf ev \<and> ev_ccpg ev = ev_ccpg ev0 \<and> ev_hb ev = ev_hb ev0 \<and>
     set (guarEdges ev) = set (guarEdges ev0) \<union> statedEdges (ev_ccpg ev0) G \<and>
     tokens_of (exclExclusive ev) = tokens_of (exclExclusive ev0) \<union> exclusiveStated (ev_ccpg ev0) G \<and>
     tokens_of (exclShared ev) = tokens_of (exclShared ev0) \<union> sharedStated (ev_ccpg ev0) G \<and>
     tokens_of (atomicTok ev) = tokens_of (atomicTok ev0) \<union> atomicStated (ev_ccpg ev0) G"

lemma stated_insert [simp]:
  "statedEdges g (insert gu G) = guarPairs g gu \<union> statedEdges g G"
  "statedTokens g form mode (insert gu G) = guarTokens g form mode gu \<union> statedTokens g form mode G"
  "statedEdges g {} = {}" "statedTokens g form mode {} = {}"
  "statedEdges g (G \<union> H) = statedEdges g G \<union> statedEdges g H"
  "statedTokens g form mode (G \<union> H) = statedTokens g form mode G \<union> statedTokens g form mode H"
  by (auto simp: statedEdges_def statedTokens_def)

lemma extendsBy_refl: "ev_wf ev \<Longrightarrow> extendsBy ev {} ev"
  by (simp add: extendsBy_def)

lemma extendsBy_trans: "extendsBy ev0 G ev1 \<Longrightarrow> extendsBy ev1 H ev2 \<Longrightarrow> extendsBy ev0 (G \<union> H) ev2"
  by (simp add: extendsBy_def Un_assoc)

lemma extendsBy_add: "ev_wf ev \<Longrightarrow> extendsBy ev {gu} (addGuarantee gu ev)"
  using addGuarantee_effect[of ev gu] by (simp add: extendsBy_def)

lemma extendsBy_wf: "extendsBy ev0 G ev \<Longrightarrow> ev_wf ev"
  by (simp add: extendsBy_def)

lemma extendsBy_contract:
  "ev_wf ev \<Longrightarrow> extendsBy ev (set gs) (foldl (\<lambda>ev gu. addGuarantee gu ev) ev gs)"
proof (induction gs arbitrary: ev)
  case Nil then show ?case by (simp add: extendsBy_refl)
next
  case (Cons gu gs)
  note a = extendsBy_add[OF Cons.prems, of gu]
  from extendsBy_trans[OF a Cons.IH[OF extendsBy_wf[OF a]]] show ?case by simp
qed

lemma extendsBy_threads:
  "ev_wf ev \<Longrightarrow> extendsBy ev (statedGuars ts contracts)
     (foldl (\<lambda>ev tid. case contracts tid of None \<Rightarrow> ev
        | Some k \<Rightarrow> foldl (\<lambda>ev gu. addGuarantee gu ev) ev (nodeGuars k)) ev ts)"
proof (induction ts arbitrary: ev)
  case Nil
  have "statedGuars [] contracts = {}" by (simp add: statedGuars_def)
  with Nil show ?case by (simp add: extendsBy_refl)
next
  case (Cons t ts)
  show ?case
  proof (cases "contracts t")
    case None
    then have "statedGuars (t # ts) contracts = statedGuars ts contracts" by (auto simp: statedGuars_def)
    with Cons None show ?thesis by simp
  next
    case (Some k)
    then have e: "statedGuars (t # ts) contracts = set (nodeGuars k) \<union> statedGuars ts contracts"
      by (auto simp: statedGuars_def)
    note a = extendsBy_contract[OF Cons.prems, of "nodeGuars k"]
    from extendsBy_trans[OF a Cons.IH[OF extendsBy_wf[OF a]]] show ?thesis
      by (simp only: e foldl_Cons Some option.case)
  qed
qed

lemma buildEvidence_spec:
  fixes ts contracts
  defines "G \<equiv> statedGuars ts contracts"
  shows "ev_wf (buildEvidence ts contracts g h)"
    "ev_ccpg (buildEvidence ts contracts g h) = g" "ev_hb (buildEvidence ts contracts g h) = h"
    "set (guarEdges (buildEvidence ts contracts g h)) = statedEdges g G"
    "tokens_of (exclExclusive (buildEvidence ts contracts g h)) = exclusiveStated g G"
    "tokens_of (exclShared (buildEvidence ts contracts g h)) = sharedStated g G"
    "tokens_of (atomicTok (buildEvidence ts contracts g h)) = atomicStated g G"
proof -
  let ?e = "\<lparr>ev_ccpg = g, ev_hb = h, guarEdges = [], exclExclusive = [], exclShared = [], atomicTok = []\<rparr>"
  have "ev_wf ?e" by (simp add: ev_wf_def tok_wf_def)
  from extendsBy_threads[OF this, of ts contracts] show
    "ev_wf (buildEvidence ts contracts g h)"
    "ev_ccpg (buildEvidence ts contracts g h) = g" "ev_hb (buildEvidence ts contracts g h) = h"
    "set (guarEdges (buildEvidence ts contracts g h)) = statedEdges g G"
    "tokens_of (exclExclusive (buildEvidence ts contracts g h)) = exclusiveStated g G"
    "tokens_of (exclShared (buildEvidence ts contracts g h)) = sharedStated g G"
    "tokens_of (atomicTok (buildEvidence ts contracts g h)) = atomicStated g G"
    by (simp_all add: extendsBy_def buildEvidence_def G_def tokens_of_def inToken_def)
qed

subsection \<open>Exclusion and atomicity\<close>

lemma commonExclusion_iff:
  assumes "ev_wf ev"
  shows "commonExclusion ev a b \<longleftrightarrow> (\<exists>tok.
    (tok, a) \<in> tokens_of (exclExclusive ev) \<and>
      ((tok, b) \<in> tokens_of (exclExclusive ev) \<or> (tok, b) \<in> tokens_of (exclShared ev)) \<or>
    (tok, a) \<in> tokens_of (exclShared ev) \<and> (tok, b) \<in> tokens_of (exclExclusive ev))" (is "?l \<longleftrightarrow> ?r")
proof
  assume ?l
  then obtain tok nodes where e: "(tok, nodes) \<in> set (exclExclusive ev)"
    "a \<in> set nodes \<and> (b \<in> set nodes \<or> inToken (exclShared ev) tok b) \<or>
     inToken (exclShared ev) tok a \<and> b \<in> set nodes"
    by (auto simp: commonExclusion_def list_ex_iff Let_def)
  have sh: "inToken (exclShared ev) tok x \<longleftrightarrow> (tok, x) \<in> tokens_of (exclShared ev)" for x
    by (simp add: tokens_of_def)
  have ex: "x \<in> set nodes \<Longrightarrow> (tok, x) \<in> tokens_of (exclExclusive ev)" for x
    using assms e(1) by (auto simp: ev_wf_def intro: tok_entry)
  show ?r using e(2) unfolding sh by (blast dest: ex)
next
  assume ?r
  then obtain tok where t: "(tok, a) \<in> tokens_of (exclExclusive ev) \<and>
      ((tok, b) \<in> tokens_of (exclExclusive ev) \<or> (tok, b) \<in> tokens_of (exclShared ev)) \<or>
    (tok, a) \<in> tokens_of (exclShared ev) \<and> (tok, b) \<in> tokens_of (exclExclusive ev)" by blast
  then obtain x where "(tok, x) \<in> tokens_of (exclExclusive ev)" by blast
  from entry_tok[OF this] obtain nodes where n: "(tok, nodes) \<in> set (exclExclusive ev)" by blast
  then have m: "map_of (exclExclusive ev) tok = Some nodes"
    using assms by (simp add: ev_wf_def tok_wf_def)
  from t n m show ?l
    unfolding commonExclusion_def list_ex_iff Let_def
    by (intro bexI[OF _ n]) (auto simp: tokens_of_def inToken_def)
qed

lemma commonExclusion_sym: "ev_wf ev \<Longrightarrow> commonExclusion ev a b = commonExclusion ev b a"
  by (auto simp: commonExclusion_iff)

lemma atomicCompatible_iff:
  assumes "ev_wf ev"
  shows "atomicCompatible ev a b \<longleftrightarrow> (\<exists>tok. (tok, a) \<in> tokens_of (atomicTok ev) \<and> (tok, b) \<in> tokens_of (atomicTok ev))"
proof -
  have "(tok, x) \<in> tokens_of (atomicTok ev) \<longleftrightarrow> x \<in> set nodes" if "(tok, nodes) \<in> set (atomicTok ev)" for tok nodes x
    using that assms by (auto simp: ev_wf_def tok_wf_def tokens_of_def inToken_def)
  then show ?thesis
    unfolding atomicCompatible_def list_ex_iff split_def
    by (metis entry_tok fst_conv prod.collapse snd_conv)
qed

lemma sameLockCovers_sym: "sameLockCovers oh ob a b = sameLockCovers oh ob b a"
  by (auto simp: sameLockCovers_def split: option.splits)

lemma mediated_sym: "ev_wf ev \<Longrightarrow> mediated env oh ev ob a b = mediated env oh ev ob b a"
  by (auto simp: mediated_def commonExclusion_sym atomicCompatible_iff sameLockCovers_sym)

subsection \<open>Discharge of requirements\<close>

lemma firstOpen_None: "firstOpen ok as bs = None \<longleftrightarrow> (\<forall>a \<in> set as. \<forall>b \<in> set bs. ok a b)"
  by (auto simp: firstOpen_def find_None_set)

lemma firstOpen_Some: "firstOpen ok as bs = Some (a, b) \<Longrightarrow> a \<in> set as \<and> b \<in> set bs \<and> \<not> ok a b"
  unfolding firstOpen_def by (drule find_Some_set) auto

text \<open>The discharge condition of a requirement, as the checker's documentation states it.\<close>

definition discharged :: "(string \<Rightarrow> string option) \<Rightarrow> (ptr \<Rightarrow> shared_object) \<Rightarrow> evidence \<Rightarrow> int list \<Rightarrow> ptr \<Rightarrow>
    int \<Rightarrow> node_req \<Rightarrow> bool" where
  "discharged env oh ev ts ob tid r \<longleftrightarrow>
     (nr_form r = ''MustPrecede'' \<longrightarrow> (\<forall>a \<in> set (nr_a r). \<forall>b \<in> set (nr_b r). ordReach env ev a b)) \<and>
     (nr_form r = ''MustBeMediated'' \<longrightarrow> (\<forall>a \<in> set (nr_a r). \<forall>b \<in> set (nr_b r). mediated env oh ev ob a b)) \<and>
     (nr_form r = ''MustBeAtomic'' \<and> nr_a r \<noteq> [] \<longrightarrow>
        (\<forall>c \<in> set (atomicConflicts oh ts tid ob). atomicFor env oh ev ob (nr_a r) c))"

lemma checkRequirement_None:
  "checkRequirement env oh ev ts objById tid r = None \<longleftrightarrow>
     discharged env oh ev ts (reqObject objById r) tid r"
proof -
  have neq: "''MustPrecede'' \<noteq> ''MustBeMediated''" "''MustPrecede'' \<noteq> ''MustBeAtomic''"
    "''MustBeMediated'' \<noteq> ''MustBeAtomic''" by simp_all
  have o: "(case x of None \<Rightarrow> None | Some (a, b) \<Rightarrow> Some (f a b)) = None \<longleftrightarrow> x = None"
    for x :: "(int \<times> int) option" and f :: "int \<Rightarrow> int \<Rightarrow> l2_candidate"
    by (auto split: option.splits)
  have p: "(case x of None \<Rightarrow> None | Some c \<Rightarrow> Some (f c)) = None \<longleftrightarrow> x = None"
    for x :: "int option" and f :: "int \<Rightarrow> l2_candidate"
    by (auto split: option.splits)
  consider "nr_form r = ''MustPrecede''" | "nr_form r = ''MustBeMediated''" | "nr_form r = ''MustBeAtomic''"
    | "nr_form r \<noteq> ''MustPrecede''" "nr_form r \<noteq> ''MustBeMediated''" "nr_form r \<noteq> ''MustBeAtomic''" by blast
  then show ?thesis
    by cases (simp_all add: checkRequirement_def Let_def discharged_def o p firstOpen_None find_None_set)
qed

lemma checkRequirement_Some:
  assumes "checkRequirement env oh ev ts objById tid r = Some c"
  defines "ob \<equiv> reqObject objById r"
  shows "lc_objectId c = nr_objectId r" "lc_object c = ob" "lc_form c = nr_form r" "lc_reqTid c = tid"
    "nr_form r = ''MustPrecede'' \<Longrightarrow> lc_aNode c \<in> set (nr_a r) \<and> lc_bNode c \<in> set (nr_b r) \<and>
       \<not> ordReach env ev (lc_aNode c) (lc_bNode c)"
    "nr_form r = ''MustBeMediated'' \<Longrightarrow> lc_aNode c \<in> set (nr_a r) \<and> lc_bNode c \<in> set (nr_b r) \<and>
       \<not> mediated env oh ev ob (lc_aNode c) (lc_bNode c)"
    "nr_form r = ''MustBeAtomic'' \<Longrightarrow> nr_a r \<noteq> [] \<and> lc_aNode c = hd (nr_a r) \<and>
       lc_bNode c \<in> set (atomicConflicts oh ts tid ob) \<and> \<not> atomicFor env oh ev ob (nr_a r) (lc_bNode c)"
    "nr_form r \<in> {''MustPrecede'', ''MustBeMediated'', ''MustBeAtomic''}"
    "lc_lifetime c \<longleftrightarrow> accTypeOfNode oh ob (lc_bNode c) = ''Free'' \<or>
       nr_form r = ''MustBeMediated'' \<and> accTypeOfNode oh ob (lc_aNode c) = ''Free''"
proof -
  consider "nr_form r = ''MustPrecede''" | "nr_form r = ''MustBeMediated''" | "nr_form r = ''MustBeAtomic''"
    using assms(1) by (auto simp: checkRequirement_def Let_def split: if_splits)
  then have "lc_objectId c = nr_objectId r \<and> lc_object c = ob \<and> lc_form c = nr_form r \<and> lc_reqTid c = tid \<and>
    (nr_form r = ''MustPrecede'' \<longrightarrow> lc_aNode c \<in> set (nr_a r) \<and> lc_bNode c \<in> set (nr_b r) \<and>
       \<not> ordReach env ev (lc_aNode c) (lc_bNode c)) \<and>
    (nr_form r = ''MustBeMediated'' \<longrightarrow> lc_aNode c \<in> set (nr_a r) \<and> lc_bNode c \<in> set (nr_b r) \<and>
       \<not> mediated env oh ev ob (lc_aNode c) (lc_bNode c)) \<and>
    (nr_form r = ''MustBeAtomic'' \<longrightarrow> nr_a r \<noteq> [] \<and> lc_aNode c = hd (nr_a r) \<and>
       lc_bNode c \<in> set (atomicConflicts oh ts tid ob) \<and> \<not> atomicFor env oh ev ob (nr_a r) (lc_bNode c)) \<and>
    nr_form r \<in> {''MustPrecede'', ''MustBeMediated'', ''MustBeAtomic''} \<and>
    (lc_lifetime c \<longleftrightarrow> accTypeOfNode oh ob (lc_bNode c) = ''Free'' \<or>
       nr_form r = ''MustBeMediated'' \<and> accTypeOfNode oh ob (lc_aNode c) = ''Free'')"
  proof cases
    case 1
    then show ?thesis using assms(1)
      by (auto simp: checkRequirement_def Let_def mkCandidate_def ob_def split: option.splits dest!: firstOpen_Some)
  next
    case 2
    then show ?thesis using assms(1)
      by (auto simp: checkRequirement_def Let_def mkCandidate_def ob_def split: option.splits dest!: firstOpen_Some)
  next
    case 3
    then show ?thesis using assms(1)
      by (auto simp: checkRequirement_def Let_def mkCandidate_def ob_def split: option.splits if_splits
          dest!: find_Some_set)
  qed
  then show "lc_objectId c = nr_objectId r" "lc_object c = ob" "lc_form c = nr_form r" "lc_reqTid c = tid"
    "nr_form r = ''MustPrecede'' \<Longrightarrow> lc_aNode c \<in> set (nr_a r) \<and> lc_bNode c \<in> set (nr_b r) \<and>
       \<not> ordReach env ev (lc_aNode c) (lc_bNode c)"
    "nr_form r = ''MustBeMediated'' \<Longrightarrow> lc_aNode c \<in> set (nr_a r) \<and> lc_bNode c \<in> set (nr_b r) \<and>
       \<not> mediated env oh ev ob (lc_aNode c) (lc_bNode c)"
    "nr_form r = ''MustBeAtomic'' \<Longrightarrow> nr_a r \<noteq> [] \<and> lc_aNode c = hd (nr_a r) \<and>
       lc_bNode c \<in> set (atomicConflicts oh ts tid ob) \<and> \<not> atomicFor env oh ev ob (nr_a r) (lc_bNode c)"
    "nr_form r \<in> {''MustPrecede'', ''MustBeMediated'', ''MustBeAtomic''}"
    "lc_lifetime c \<longleftrightarrow> accTypeOfNode oh ob (lc_bNode c) = ''Free'' \<or>
       nr_form r = ''MustBeMediated'' \<and> accTypeOfNode oh ob (lc_aNode c) = ''Free''"
    by blast+
qed

lemma checkRequirements_set:
  "c \<in> set (checkRequirements env oh objs ts contracts objIndex g h) \<longleftrightarrow>
     (\<exists>tid \<in> set ts. \<exists>k. contracts tid = Some k \<and> (\<exists>r \<in> set (nodeReqs k).
        checkRequirement env oh (buildEvidence ts contracts g h) ts (objectsById objs objIndex) tid r = Some c))"
  by (auto simp: checkRequirements_def Let_def List.map_filter_def split: option.splits) force+

lemma checkRequirements_Nil:
  "checkRequirements env oh objs ts contracts objIndex g h = [] \<longleftrightarrow>
     (\<forall>tid \<in> set ts. \<forall>k. contracts tid = Some k \<longrightarrow> (\<forall>r \<in> set (nodeReqs k).
        discharged env oh (buildEvidence ts contracts g h) ts (reqObject (objectsById objs objIndex) r) tid r))"
    (is "?l \<longleftrightarrow> ?r")
proof -
  have "?l \<longleftrightarrow> (\<forall>c. c \<notin> set (checkRequirements env oh objs ts contracts objIndex g h))" by auto
  also have "\<dots> \<longleftrightarrow> ?r"
    unfolding checkRequirements_set checkRequirement_None[symmetric, of env oh _ ts "objectsById objs objIndex"]
    by (metis not_Some_eq)
  finally show ?thesis .
qed

lemma map_filter_length: "length (List.map_filter f xs) \<le> length xs"
  by (simp add: List.map_filter_def)

lemma checkRequirements_length:
  "length (checkRequirements env oh objs ts contracts objIndex g h) \<le>
     (\<Sum>tid \<leftarrow> ts. case contracts tid of None \<Rightarrow> 0 | Some k \<Rightarrow> length (nodeReqs k))"
  unfolding checkRequirements_def Let_def length_concat map_map
  by (rule sum_list_mono) (auto simp: map_filter_length split: option.splits)

subsection \<open>More evidence discharges more\<close>

definition evidence_le :: "evidence \<Rightarrow> evidence \<Rightarrow> bool" where
  "evidence_le ev ev' \<longleftrightarrow> ev_wf ev \<and> ev_wf ev' \<and> ev_ccpg ev = ev_ccpg ev' \<and> ev_hb ev = ev_hb ev' \<and>
     set (guarEdges ev) \<subseteq> set (guarEdges ev') \<and>
     tokens_of (exclExclusive ev) \<subseteq> tokens_of (exclExclusive ev') \<and>
     tokens_of (exclShared ev) \<subseteq> tokens_of (exclShared ev') \<and>
     tokens_of (atomicTok ev) \<subseteq> tokens_of (atomicTok ev')"

lemma extendsBy_le: "ev_wf ev \<Longrightarrow> extendsBy ev G ev' \<Longrightarrow> evidence_le ev ev'"
  by (simp add: extendsBy_def evidence_le_def)

lemma cfReach_cong: "ev_ccpg ev = ev_ccpg ev' \<Longrightarrow> ev_hb ev = ev_hb ev' \<Longrightarrow> cfReach env ev = cfReach env ev'"
  by (intro ext) (simp add: cfReach_def)

lemma staticSyncOrder_cong:
  "ev_ccpg ev = ev_ccpg ev' \<Longrightarrow> ev_hb ev = ev_hb ev' \<Longrightarrow> staticSyncOrder env ev = staticSyncOrder env ev'"
  by (intro ext) (simp add: staticSyncOrder_def)

lemma ordReach_mono:
  assumes "evidence_le ev ev'" "ordReach env ev a b" shows "ordReach env ev' a b"
proof -
  have c: "cfReach env ev = cfReach env ev'" "staticSyncOrder env ev = staticSyncOrder env ev'"
    using assms(1) by (auto simp: evidence_le_def intro: cfReach_cong staticSyncOrder_cong)
  have "set (guarEdges ev) \<subseteq> set (guarEdges ev')" using assms(1) by (simp add: evidence_le_def)
  from ev.ord_mono[OF assms(2)[unfolded ordReach_def] this] show ?thesis by (simp add: ordReach_def c)
qed

lemma commonExclusion_mono: "evidence_le ev ev' \<Longrightarrow> commonExclusion ev a b \<Longrightarrow> commonExclusion ev' a b"
  unfolding evidence_le_def by (elim conjE) (simp only: commonExclusion_iff, blast)

lemma atomicCompatible_mono: "evidence_le ev ev' \<Longrightarrow> atomicCompatible ev a b \<Longrightarrow> atomicCompatible ev' a b"
  unfolding evidence_le_def by (elim conjE) (simp only: atomicCompatible_iff, blast)

lemmas evidence_monos = ordReach_mono commonExclusion_mono atomicCompatible_mono

lemma mediated_mono: "evidence_le ev ev' \<Longrightarrow> mediated env oh ev ob a b \<Longrightarrow> mediated env oh ev' ob a b"
  unfolding mediated_def by (blast intro: evidence_monos)

lemma atomicFor_mono: "evidence_le ev ev' \<Longrightarrow> atomicFor env oh ev ob reg c \<Longrightarrow> atomicFor env oh ev' ob reg c"
  unfolding atomicFor_def Let_def list_ex_iff by (blast intro: evidence_monos)

lemma discharged_mono:
  "evidence_le ev ev' \<Longrightarrow> discharged env oh ev ts ob tid r \<Longrightarrow> discharged env oh ev' ts ob tid r"
  unfolding discharged_def by (meson ordReach_mono mediated_mono atomicFor_mono)

text \<open>Contracts that state more guarantees give more evidence.\<close>

lemma buildEvidence_le:
  assumes "statedGuars ts contracts \<subseteq> statedGuars ts' contracts'"
  shows "evidence_le (buildEvidence ts contracts g h) (buildEvidence ts' contracts' g h)"
  using assms by (auto simp: evidence_le_def buildEvidence_spec statedEdges_def statedTokens_def)

subsection \<open>Hypotheses and calibration\<close>

lemma toHypothesis_fields [simp]:
  "hy_id (toHypothesis oh c i) = ''l2_'' @ int_to_string i"
  "hy_bug_category (toHypothesis oh c i) = (if lc_lifetime c then ''use_after_free''
     else if lc_form c = ''MustPrecede'' then ''order_violation''
     else if lc_form c = ''MustBeMediated'' then ''data_race'' else ''atomicity_violation'')"
  "hy_severity (toHypothesis oh c i) = (if lc_lifetime c then ''high'' else ''medium'')"
  "map_of (hy_nodes (toHypothesis oh c i)) ''a'' = (if lc_aNode c \<ge> 0 then Some (lc_aNode c) else None)"
  "map_of (hy_nodes (toHypothesis oh c i)) ''b'' = (if lc_bNode c \<ge> 0 then Some (lc_bNode c) else None)"
  by (simp_all add: toHypothesis_def Let_def setNode_def emptyHypothesis_def)

lemma judge_length [simp]: "length (judge i v keep) = length keep"
  by (simp add: judge_def)

lemma judges_length [simp]: "length (foldl (\<lambda>k (i, v). judge i v k) keep calls) = length keep"
  by (induction calls arbitrary: keep) auto

lemma review_length [simp]: "length (review calls cands) = length cands"
  by (simp add: review_def Let_def)

lemma judges_last:
  assumes "j < length keep"
  shows "foldl (\<lambda>k (i, v). judge i v k) keep calls ! j =
     (case List.find (\<lambda>(i, v). i = int j) (rev calls) of Some (i, v) \<Rightarrow> v \<noteq> ''reject'' | None \<Rightarrow> keep ! j)"
  using assms
proof (induction calls rule: rev_induct)
  case Nil then show ?case by simp
next
  case (snoc c calls)
  let ?k = "foldl (\<lambda>k (i, v). judge i v k) keep calls"
  obtain i v where c: "c = (i, v)" by fastforce
  have "judge i v ?k ! j = (if i = int j then v \<noteq> ''reject'' else ?k ! j)"
    using snoc.prems unfolding judge_def[of i v ?k] by (auto simp: nth_list_update)
  with snoc show ?case by (simp add: c)
qed

text \<open>A candidate is dropped only if the last verdict given for it is a rejection.\<close>

lemma review_nth:
  assumes "j < length cands"
  shows "review calls cands ! j \<longleftrightarrow>
     (case List.find (\<lambda>(i, v). i = int j) (rev calls) of Some (i, v) \<Rightarrow> v \<noteq> ''reject'' | None \<Rightarrow> True)"
  using assms by (cases cands) (auto simp: review_def judges_last simp del: replicate.simps split: option.splits)

lemma calibrated_subseq: "subseq (calibrated keep cands) cands"
proof (induction cands arbitrary: keep)
  case Nil then show ?case by (simp add: calibrated_def)
next
  case (Cons c cands)
  show ?case
    by (cases keep) (use Cons in \<open>auto simp: calibrated_def\<close>)
qed

lemma calibrated_keep:
  assumes "length keep = length cands"
  shows "set (calibrated keep cands) = {cands ! j |j. j < length cands \<and> keep ! j}"
proof -
  have "c \<in> set (calibrated keep cands) \<longleftrightarrow> (\<exists>j < length cands. c = cands ! j \<and> keep ! j)" for c
    using assms by (auto simp: calibrated_def image_iff in_set_zip)
  then show ?thesis by auto
qed

lemma calibrated_all: "calibrated (replicate (length cands) True) cands = cands"
  by (induction cands) (auto simp: calibrated_def)

lemma enumerate_map_in:
  assumes "y \<in> set (map (\<lambda>(i, c). f i c) (enumerate n xs))"
  shows "\<exists>i. \<exists>c \<in> set xs. y = f i c"
proof -
  obtain p where p: "y = (\<lambda>(i, c). f i c) p" "p \<in> set (enumerate n xs)"
    using assms unfolding set_map by (rule imageE)
  have "snd ` set (enumerate n xs) = set xs" unfolding set_map[symmetric] by (simp only: map_snd_enumerate)
  then have "snd p \<in> set xs" using p(2) by blast
  moreover have "y = f (fst p) (snd p)" using p(1) by (simp add: split_def)
  ultimately show ?thesis by blast
qed

lemma sessionKept_subseq:
  "subseq (sessionKept env oh skip calls contracts objIndex g h s)
     (checkRequirements env oh (snd s) (fst s) contracts objIndex g h)"
  by (simp add: sessionKept_def Let_def calibrated_subseq)

lemma sessionKept_skip:
  "sessionKept env oh True calls contracts objIndex g h s =
     checkRequirements env oh (snd s) (fst s) contracts objIndex g h"
  by (simp add: sessionKept_def Let_def calibrated_all)

lemma l2Sessions_from_candidates:
  assumes "hyp \<in> set (l2Sessions env oh skip calls contracts objIndex g h sessions)"
  shows "\<exists>s \<in> set sessions. \<exists>c \<in> set (checkRequirements env oh (snd s) (fst s) contracts objIndex g h).
     \<exists>i. hyp = toHypothesis oh c i"
proof -
  obtain i c where c: "c \<in> set (concat (map (sessionKept env oh skip calls contracts objIndex g h) sessions))"
    "hyp = toHypothesis oh c (int i)"
    using enumerate_map_in[OF assms[unfolded l2Sessions_def]] by blast
  then obtain s where s: "s \<in> set sessions" "c \<in> set (sessionKept env oh skip calls contracts objIndex g h s)"
    by auto
  have "c \<in> set (checkRequirements env oh (snd s) (fst s) contracts objIndex g h)"
    using s(2) subseq_subset[OF sessionKept_subseq] by blast
  with s(1) c(2) show ?thesis by blast
qed

end
