(* ===== verification/Samples.thy ===== *)
theory Samples
  imports L2Checker
begin

text \<open>
  Small closed inputs on which the witnesses evaluate the model: a code graph with
  ten nodes and no edges, contracts of two threads, and surface accesses.  Nothing
  here models code.
\<close>

definition sampleNode :: "nat \<Rightarrow> ccpg_node" where
  "sampleNode i = \<lparr>nd_id = i, nd_type = DUMMY, nd_cpg = null, nd_in = [], nd_out = [],
     nd_loc = emptyLoc, nd_function = null, nd_order = 0, nd_callSite = False, nd_callInst = None\<rparr>"

definition sampleFunc :: func where
  "sampleFunc = \<lparr>fn_nodes = [], fn_edges = [], fn_typeToNodeSet = (\<lambda>_. []), fn_funcNode = null,
     fn_contexts = [], forkPotential = False, acquirePotential = False, releasePotential = False,
     fn_llvm = None, fn_locs = []\<rparr>"

definition sampleCcpg :: ccpg where
  "sampleCcpg = \<lparr>cpgH = (\<lambda>_. mkNode '''' (\<lambda>_. None) 0), nodeH = sampleNode, funH = (\<lambda>_. sampleFunc), nextPtr = 11,
     g_nodes = [1 ..< 11], g_edges = [], g_functions = [], g_typeToNodeSet = (\<lambda>_. []),
     IDToCCPGNode = (\<lambda>i. if 0 < i \<and> i < 11 then Some i else None), IDToFunction = (\<lambda>_. None),
     cpgNodeToCCPGNodeMap = (\<lambda>_. None), locToNodeSetMap = []\<rparr>"

definition noEnv :: "string \<Rightarrow> string option" where "noEnv = (\<lambda>_. None)"

lemma sample_nodes [simp]:
  "getNodeByID sampleCcpg i = (if 0 < i \<and> i < 11 then nat i else null)"
  by (auto simp: getNodeByID_def sampleCcpg_def)

lemma sample_nodeOk [simp]: "nodeOk sampleCcpg i \<longleftrightarrow> 0 < i \<and> i < 11"
  by (auto simp: nodeOk_def)

lemma sample_chain [simp]: "hb_chain hb_clear a es b \<longleftrightarrow> es = [] \<and> a = b"
  by (cases es) (auto simp: hb_clear_def)

lemma sample_sync [simp]: "\<not> hbReachable env hb_clear a b d True p"
  by (simp add: hbReachable_chain)

lemma sample_flow [simp]: "hbReachable env hb_clear a b d False p \<longleftrightarrow> a \<noteq> null \<and> a = b"
  by (auto simp: hbReachable_chain)

definition orderGuar :: "int \<Rightarrow> int \<Rightarrow> node_guar" where
  "orderGuar a b = \<lparr>ng_form = ''Order'', ng_a = [a], ng_b = [b], ng_token = [], ng_mode = [],
     ng_objectId = 0, ng_note = []\<rparr>"

definition precedeReq :: "int \<Rightarrow> int \<Rightarrow> node_req" where
  "precedeReq a b = \<lparr>nr_form = ''MustPrecede'', nr_a = [a], nr_b = [b], nr_objectId = 0, nr_note = []\<rparr>"

definition sampleContracts :: "node_guar list \<Rightarrow> int \<Rightarrow> contract option" where
  "sampleContracts gs t = (if t = 1 then Some (addNodeReq (precedeReq 2 3) (newContract 1 1))
     else if t = 2 then Some ((newContract 2 2)\<lparr>nodeGuars := gs\<rparr>) else None)"

definition sampleThread :: "nat \<Rightarrow> thread" where
  "sampleThread i = \<lparr>th_id = i, th_nodes = [1 ..< 11], th_edges = [], forkNode = i, joinNode = null,
     parent = (if i = 2 \<or> i = 3 then 1 else null), children = [], th_typeToNodeSet = (\<lambda>_. []), th_functions = [],
     threadMainFunction = null, isMainThread = (i = 1), isKernelEntry = False, isReentrant = False\<rparr>"

definition sampleTree :: tct where
  "sampleTree = \<lparr>threadH = sampleThread, threads = [1, 2, 3], parallelThreadPairs = (\<lambda>_. None),
     concurrencyCache = (\<lambda>_. None), mayHappenInParallelCache = (\<lambda>_. None)\<rparr>"

definition sampleAccess :: "int \<Rightarrow> string \<Rightarrow> string \<Rightarrow> thread_access" where
  "sampleAccess t ty lk = \<lparr>ac_thread = t, ac_function = ''f'', ac_function_id = 1, ac_containing = [], ac_type = ty,
     ac_node = t, ac_code = [], ac_location = ''a.c:1'', ac_locked = (lk \<noteq> []), ac_lock = lk\<rparr>"

definition sampleObject :: "string \<Rightarrow> shared_object" where
  "sampleObject lk = \<lparr>so_name = ''x'', so_type = [], so_accesses = [sampleAccess 1 ''Write'' lk, sampleAccess 2 ''Read'' lk],
     has_unprotected_write = False, has_free_operation = False, has_cross_thread_rw = False,
     has_inconsistent_locking = False, has_scalar_torn_access = False, has_read_dominated_lone_writer = False,
     has_missing_atomic_annotation = False, has_list_mutation = False, is_self_race = False, risk_score = 0,
     accessing_thread_ids = {1, 2}\<rparr>"

definition emptySurface :: surface where
  "emptySurface = \<lparr>sf_objects = [], sf_threads = [], total_thread_count = 0, conflicting_pair_count = 0\<rparr>"

definition sampleHeap :: "ptr \<Rightarrow> shared_object" where "sampleHeap = (\<lambda>_. sampleObject [])"

definition noConfig :: config where "noConfig = \<lparr>enabled = False, selfRace = False, roots = [], cores = {}\<rparr>"

definition plainLlvm :: llvm_view where
  "plainLlvm = \<lparr>stripPointerCasts = id, asFunction = (\<lambda>_. None), asGlobal = (\<lambda>_. None),
     isConstant = (\<lambda>_. False), operands = (\<lambda>_. [])\<rparr>"

end
