(* ===== verification/L2Props.thy ===== *)
theory L2Props
  imports L2Facts Samples
begin

text \<open>
  The properties of the requirement-driven checker (src/LLMUtil/AgentManager.cpp,
  namespace l2), stated over its own definitions, each with a witness on a closed
  input where it has hypotheses.
\<close>

lemma sample_report:
  "checkRequirements noEnv oh [] [1, 2] (sampleContracts (map (\<lambda>i. orderGuar 5 6) [0 ..< n])) (\<lambda>_. None) sampleCcpg hb_clear =
     [mkCandidate (precedeReq 2 3) null 1 2 3 False (''MustPrecede undischarged: no must-order witness from node '' @
        int_to_string 2 @ '' to node '' @ int_to_string 3)]"
proof -
  let ?ev = "buildEvidence [1, 2] (sampleContracts (map (\<lambda>i. orderGuar 5 6) [0 ..< n])) sampleCcpg hb_clear"
  have "set (guarEdges ?ev) \<subseteq> {(5, 6)}"
    by (auto simp: buildEvidence_spec statedEdges_def statedGuars_def guarPairs_def sampleContracts_def
        orderGuar_def addNodeReq_def newContract_def split: if_splits)
  moreover have "guarded (cfReach noEnv ?ev) {(5, 6)} 2 z \<Longrightarrow> False" for z
    by (induction rule: guarded.induct) (auto simp: cfReach_def buildEvidence_spec)
  ultimately have "\<not> guarded (cfReach noEnv ?ev) (set (guarEdges ?ev)) 2 z" for z
    using guarded_mono by blast
  then have "\<not> ordReach noEnv ?ev 2 3"
    unfolding ordReach_def ev.ord_iff by (simp add: staticSyncOrder_def buildEvidence_spec)
  then show ?thesis
    by (simp add: checkRequirements_def sampleContracts_def precedeReq_def checkRequirement_def
        addNodeReq_def newContract_def firstOpen_def reqObject_def objectsById_def accTypeOfNode_def List.map_filter_def)
qed

text \<open>C3. The must-order test answers exactly the relation it stands for: equal nodes,
  a static synchronization order, or a chain of stated order guarantees whose gaps are
  closed by control flow, ending in a flow to the target. The worklist neither misses
  nor invents an order.\<close>

theorem ordReach_exact:
  "ordReach env ev x y \<longleftrightarrow> x = y \<or> staticSyncOrder env ev x y \<or>
     (\<exists>z. guarded (cfReach env ev) (set (guarEdges ev)) x z \<and> cfReach env ev z y)"
  unfolding ordReach_def by (rule ev.ord_iff)

text \<open>An order reaching the source of a stated guarantee between graph nodes extends
  to the guarantee's target.\<close>

theorem ordReach_extends:
  assumes "ordReach env (buildEvidence ts contracts g h) x a"
    "tid \<in> set ts" "contracts tid = Some k" "gu \<in> set (nodeGuars k)"
    "ng_form gu = ''Order'' \<or> ng_form gu = ''Wait''"
    "a \<in> set (ng_a gu)" "b \<in> set (ng_b gu)" "nodeOk g a" "nodeOk g b"
  shows "ordReach env (buildEvidence ts contracts g h) x b"
proof -
  have "(a, b) \<in> set (guarEdges (buildEvidence ts contracts g h))"
    using assms(2-) by (auto simp: buildEvidence_spec statedEdges_def statedGuars_def guarPairs_def)
  then show ?thesis using assms(1) unfolding ordReach_def by (rule ev.ord_extend[rotated])
qed

theorem ordReach_extends_witness:
  "ordReach noEnv (buildEvidence [1, 2] (sampleContracts [orderGuar 2 3]) sampleCcpg hb_clear) 2 3"
  by (rule ordReach_extends[of noEnv "[1, 2]" _ sampleCcpg hb_clear 2 2 2
        "(newContract 2 2)\<lparr>nodeGuars := [orderGuar 2 3]\<rparr>" "orderGuar 2 3" 3])
    (simp_all add: sampleContracts_def orderGuar_def ordReach_def mustOrder_def)

text \<open>The ordering evidence holds exactly the pairs the contracts of the thread set
  state: an Order or Wait guarantee contributes each operand pair whose nodes exist, and
  nothing else does.\<close>

theorem evidence_edges:
  "set (guarEdges (buildEvidence ts contracts g h)) =
     {(a, b). \<exists>tid \<in> set ts. \<exists>k gu. contracts tid = Some k \<and> gu \<in> set (nodeGuars k) \<and>
        (ng_form gu = ''Order'' \<or> ng_form gu = ''Wait'') \<and> a \<in> set (ng_a gu) \<and> b \<in> set (ng_b gu) \<and>
        nodeOk g a \<and> nodeOk g b}"
  by (auto simp: buildEvidence_spec statedEdges_def statedGuars_def guarPairs_def)

text \<open>Two nodes are mutually excluded exactly when the contracts put them under one
  token, at least one of them exclusively: two shared holders do not exclude each other.\<close>

theorem exclusion_stated:
  "commonExclusion (buildEvidence ts contracts g h) a b \<longleftrightarrow>
     (\<exists>tok. \<exists>gu \<in> statedGuars ts contracts. \<exists>gu' \<in> statedGuars ts contracts.
        ng_form gu = ''Exclude'' \<and> ng_form gu' = ''Exclude'' \<and> ng_token gu = tok \<and> ng_token gu' = tok \<and>
        a \<in> set (ng_a gu) \<and> b \<in> set (ng_a gu') \<and> nodeOk g a \<and> nodeOk g b \<and>
        \<not> (ng_mode gu = ''shared'' \<and> ng_mode gu' = ''shared''))"
  unfolding commonExclusion_iff[OF buildEvidence_spec(1)] buildEvidence_spec statedTokens_def guarTokens_def
  by blast

text \<open>C1. The checker is silent exactly when every requirement of every contract of the
  thread set is discharged: all operand pairs ordered for a precedence, all mediated for a
  mediation, and every conflicting access of another thread kept out of an atomic region.\<close>

theorem checker_silent:
  fixes ts contracts g h objs objIndex
  defines "ev \<equiv> buildEvidence ts contracts g h"
    and "obj \<equiv> reqObject (objectsById objs objIndex)"
  shows "checkRequirements env oh objs ts contracts objIndex g h = [] \<longleftrightarrow>
     (\<forall>tid k r. tid \<in> set ts \<and> contracts tid = Some k \<and> r \<in> set (nodeReqs k) \<longrightarrow>
        (nr_form r = ''MustPrecede'' \<longrightarrow> (\<forall>a \<in> set (nr_a r). \<forall>b \<in> set (nr_b r). ordReach env ev a b)) \<and>
        (nr_form r = ''MustBeMediated'' \<longrightarrow>
           (\<forall>a \<in> set (nr_a r). \<forall>b \<in> set (nr_b r). mediated env oh ev (obj r) a b)) \<and>
        (nr_form r = ''MustBeAtomic'' \<and> nr_a r \<noteq> [] \<longrightarrow>
           (\<forall>c \<in> set (atomicConflicts oh ts tid (obj r)). atomicFor env oh ev (obj r) (nr_a r) c)))"
  unfolding checkRequirements_Nil discharged_def ev_def obj_def by blast

theorem checker_silent_witness:
  "checkRequirements noEnv sampleHeap [] [1, 2] (sampleContracts [orderGuar 2 3]) (\<lambda>_. None) sampleCcpg hb_clear = [] \<and>
   checkRequirements noEnv sampleHeap [] [1, 2] (sampleContracts []) (\<lambda>_. None) sampleCcpg hb_clear \<noteq> []"
  unfolding checker_silent
  by (simp add: sampleContracts_def addNodeReq_def newContract_def precedeReq_def orderGuar_def
      buildEvidence_def addGuarantee_def ordReach_def mustOrder_def staticSyncOrder_def cfReach_def,
      intro exI[of _ 1], simp)

text \<open>C2. Every report is a genuine gap: a candidate names a requirement of the contract of
  a thread of the set and an operand pair (or a conflicting access of another thread) for
  which no discharge exists, and it is a lifetime report exactly when a free is involved.\<close>

theorem checker_sound:
  fixes ts contracts g h objs objIndex
  defines "ev \<equiv> buildEvidence ts contracts g h"
    and "obj \<equiv> reqObject (objectsById objs objIndex)"
  assumes "c \<in> set (checkRequirements env oh objs ts contracts objIndex g h)"
  shows "\<exists>k r. lc_reqTid c \<in> set ts \<and> contracts (lc_reqTid c) = Some k \<and> r \<in> set (nodeReqs k) \<and>
     lc_objectId c = nr_objectId r \<and> lc_form c = nr_form r \<and> lc_object c = obj r \<and>
     (nr_form r = ''MustPrecede'' \<and> lc_aNode c \<in> set (nr_a r) \<and> lc_bNode c \<in> set (nr_b r) \<and>
        \<not> ordReach env ev (lc_aNode c) (lc_bNode c) \<or>
      nr_form r = ''MustBeMediated'' \<and> lc_aNode c \<in> set (nr_a r) \<and> lc_bNode c \<in> set (nr_b r) \<and>
        \<not> mediated env oh ev (obj r) (lc_aNode c) (lc_bNode c) \<or>
      nr_form r = ''MustBeAtomic'' \<and> lc_aNode c = hd (nr_a r) \<and>
        lc_bNode c \<in> set (atomicConflicts oh ts (lc_reqTid c) (obj r)) \<and>
        \<not> atomicFor env oh ev (obj r) (nr_a r) (lc_bNode c)) \<and>
     (lc_lifetime c \<longleftrightarrow> accTypeOfNode oh (obj r) (lc_bNode c) = ''Free'' \<or>
        nr_form r = ''MustBeMediated'' \<and> accTypeOfNode oh (obj r) (lc_aNode c) = ''Free'')"
proof -
  obtain tid k r where r: "tid \<in> set ts" "contracts tid = Some k" "r \<in> set (nodeReqs k)"
    "checkRequirement env oh ev ts (objectsById objs objIndex) tid r = Some c"
    using assms(3) unfolding checkRequirements_set ev_def by blast
  note s = checkRequirement_Some[OF r(4), folded obj_def]
  show ?thesis
  proof (intro exI[of _ k] exI[of _ r] conjI)
    show "lc_reqTid c \<in> set ts" "contracts (lc_reqTid c) = Some k" "r \<in> set (nodeReqs k)"
      "lc_objectId c = nr_objectId r" "lc_form c = nr_form r" "lc_object c = obj r"
      using r s(1-4) by simp_all
    show "lc_lifetime c \<longleftrightarrow> accTypeOfNode oh (obj r) (lc_bNode c) = ''Free'' \<or>
        nr_form r = ''MustBeMediated'' \<and> accTypeOfNode oh (obj r) (lc_aNode c) = ''Free''"
      by (rule s(9))
  qed (use s(4-8) in blast)
qed

theorem checker_sound_witness:
  "\<exists>c. c \<in> set (checkRequirements noEnv sampleHeap [] [1, 2] (sampleContracts []) (\<lambda>_. None) sampleCcpg hb_clear) \<and>
     \<not> ordReach noEnv (buildEvidence [1, 2] (sampleContracts []) sampleCcpg hb_clear) (lc_aNode c) (lc_bNode c)"
proof -
  obtain c where c: "c \<in> set (checkRequirements noEnv sampleHeap [] [1, 2] (sampleContracts []) (\<lambda>_. None) sampleCcpg hb_clear)"
    "lc_form c = ''MustPrecede''"
    using sample_report[of sampleHeap 0] by (simp add: mkCandidate_def precedeReq_def)
  from checker_sound[OF c(1)] c show ?thesis by auto
qed

text \<open>C4. Stating more never costs a report: if every contract keeps its requirements and
  the stated guarantees only grow, whatever is still reported was reported before, for the
  same thread, object and form.\<close>

theorem guarantees_only_discharge:
  assumes "\<And>tid. map_option nodeReqs (contracts tid) = map_option nodeReqs (contracts' tid)"
    and "statedGuars ts contracts \<subseteq> statedGuars ts contracts'"
    and "c' \<in> set (checkRequirements env oh objs ts contracts' objIndex g h)"
  shows "\<exists>c \<in> set (checkRequirements env oh objs ts contracts objIndex g h).
     lc_reqTid c = lc_reqTid c' \<and> lc_objectId c = lc_objectId c' \<and> lc_form c = lc_form c'"
proof -
  let ?o = "objectsById objs objIndex"
  obtain tid k' r where r: "tid \<in> set ts" "contracts' tid = Some k'" "r \<in> set (nodeReqs k')"
    "checkRequirement env oh (buildEvidence ts contracts' g h) ts ?o tid r = Some c'"
    using assms(3) unfolding checkRequirements_set by blast
  obtain k where k: "contracts tid = Some k" "nodeReqs k = nodeReqs k'"
    using assms(1)[of tid] r(2) by auto
  have "\<not> discharged env oh (buildEvidence ts contracts' g h) ts (reqObject ?o r) tid r"
    using r(4) unfolding checkRequirement_None[symmetric, of env oh _ ts ?o] by simp
  then have "\<not> discharged env oh (buildEvidence ts contracts g h) ts (reqObject ?o r) tid r"
    using discharged_mono[OF buildEvidence_le[OF assms(2)]] by blast
  then obtain c where c: "checkRequirement env oh (buildEvidence ts contracts g h) ts ?o tid r = Some c"
    unfolding checkRequirement_None[symmetric, of env oh _ ts ?o] by blast
  have "r \<in> set (nodeReqs k)" using r(3) k(2) by simp
  with r(1) k(1) c have "c \<in> set (checkRequirements env oh objs ts contracts objIndex g h)"
    unfolding checkRequirements_set by blast
  moreover have "lc_reqTid c = lc_reqTid c'" "lc_objectId c = lc_objectId c'" "lc_form c = lc_form c'"
    using checkRequirement_Some(1,3,4)[OF c] checkRequirement_Some(1,3,4)[OF r(4)] by simp_all
  ultimately show ?thesis by blast
qed

theorem guarantees_only_discharge_witness:
  "\<exists>c \<in> set (checkRequirements noEnv sampleHeap [] [1, 2] (sampleContracts []) (\<lambda>_. None) sampleCcpg hb_clear).
     lc_reqTid c = 1 \<and> lc_form c = ''MustPrecede''"
proof -
  let ?c = "mkCandidate (precedeReq 2 3) null 1 2 3 False (''MustPrecede undischarged: no must-order witness from node '' @
        int_to_string 2 @ '' to node '' @ int_to_string 3)"
  have "?c \<in> set (checkRequirements noEnv sampleHeap [] [1, 2] (sampleContracts [orderGuar 5 6]) (\<lambda>_. None) sampleCcpg hb_clear)"
    using sample_report[of sampleHeap 1] by simp
  moreover have "map_option nodeReqs (sampleContracts [] tid) = map_option nodeReqs (sampleContracts [orderGuar 5 6] tid)" for tid
    by (simp add: sampleContracts_def)
  moreover have "statedGuars [1, 2] (sampleContracts []) \<subseteq> statedGuars [1, 2] (sampleContracts [orderGuar 5 6])"
    by (auto simp: sampleContracts_def statedGuars_def addNodeReq_def newContract_def split: if_splits)
  ultimately have "\<exists>c \<in> set (checkRequirements noEnv sampleHeap [] [1, 2] (sampleContracts []) (\<lambda>_. None) sampleCcpg hb_clear).
      lc_reqTid c = lc_reqTid ?c \<and> lc_objectId c = lc_objectId ?c \<and> lc_form c = lc_form ?c"
    by (rule guarantees_only_discharge[rotated 2])
  moreover have "lc_reqTid ?c = 1" "lc_form ?c = ''MustPrecede''" by (simp_all add: mkCandidate_def precedeReq_def)
  ultimately show ?thesis by metis
qed

text \<open>The calibration filter removes a candidate only by an explicit rejection: what a
  session keeps is the reported candidates, in order, without those whose last verdict
  naming their index was "reject"; out-of-range or missing verdicts keep.\<close>

theorem calibration_exact:
  "sessionKept env oh False calls contracts objIndex g h s =
     map snd (filter (\<lambda>(j, c). case List.find (\<lambda>(i, v). i = int j) (rev (calls s)) of
                Some (i, v) \<Rightarrow> v \<noteq> ''reject'' | None \<Rightarrow> True)
       (enumerate 0 (checkRequirements env oh (snd s) (fst s) contracts objIndex g h)))"
proof -
  define cands where "cands = checkRequirements env oh (snd s) (fst s) contracts objIndex g h"
  define ok where "ok = (\<lambda>j. case List.find (\<lambda>(i, v). i = int j) (rev (calls s)) of
     Some (i, v) \<Rightarrow> v \<noteq> ''reject'' | None \<Rightarrow> True)"
  have "review (calls s) cands = map ok [0 ..< length cands]"
    by (rule nth_equalityI) (simp_all add: review_nth ok_def)
  then have "calibrated (review (calls s) cands) cands = map snd (filter fst (zip (map ok [0 ..< length cands]) cands))"
    by (simp add: calibrated_def)
  also have "\<dots> = map snd (filter (\<lambda>(j, c). ok j) (zip [0 ..< length cands] cands))"
    by (simp add: zip_map1 filter_map comp_def case_prod_unfold)
  also have "zip [0 ..< length cands] cands = enumerate 0 cands" by (simp add: enumerate_eq_zip)
  finally show ?thesis by (simp add: sessionKept_def Let_def cands_def[symmetric] ok_def)
qed

text \<open>Every hypothesis the checker hands on stems from a candidate of one of its
  sessions that survived calibration, with the candidate's nodes and a class and severity
  set by its form and by whether a free is involved.\<close>

theorem hypotheses_from_candidates:
  assumes "hyp \<in> set (l2Sessions env oh skip calls contracts objIndex g h sessions)"
  shows "\<exists>s \<in> set sessions. \<exists>c i. c \<in> set (sessionKept env oh skip calls contracts objIndex g h s) \<and>
     c \<in> set (checkRequirements env oh (snd s) (fst s) contracts objIndex g h) \<and>
     hyp = toHypothesis oh c i \<and>
     map_of (hy_nodes hyp) ''b'' = (if lc_bNode c \<ge> 0 then Some (lc_bNode c) else None) \<and>
     hy_severity hyp = (if lc_lifetime c then ''high'' else ''medium'')"
proof -
  obtain i s c where "s \<in> set sessions" "c \<in> set (sessionKept env oh skip calls contracts objIndex g h s)"
    "hyp = toHypothesis oh c i"
    using enumerate_map_in[OF assms[unfolded l2Sessions_def]] by auto
  moreover from this have "c \<in> set (checkRequirements env oh (snd s) (fst s) contracts objIndex g h)"
    using subseq_subset[OF sessionKept_subseq] by blast
  ultimately show ?thesis by force
qed

theorem hypotheses_from_candidates_witness:
  "\<exists>c i. toHypothesis sampleHeap c i \<in> set (l2Sessions noEnv sampleHeap True (\<lambda>_. []) (sampleContracts []) (\<lambda>_. None) sampleCcpg hb_clear
     [([1, 2], [])]) \<and> c \<in> set (checkRequirements noEnv sampleHeap [] [1, 2] (sampleContracts []) (\<lambda>_. None) sampleCcpg hb_clear)"
proof -
  obtain hyp where h: "hyp \<in> set (l2Sessions noEnv sampleHeap True (\<lambda>_. []) (sampleContracts []) (\<lambda>_. None) sampleCcpg hb_clear
     [([1, 2], [])])"
    using sample_report[of sampleHeap 0] by (simp add: l2Sessions_def sessionKept_skip)
  from hypotheses_from_candidates[OF h] h show ?thesis by auto
qed

end
