(* ===== verification/HbExact.thy ===== *)
theory HbExact
  imports HbFacts
begin

text \<open>
  The edges of a happens-before graph, exactly: which edges each pass of the builder
  (src/CCPG/HBGraph.cpp) adds, stated by the kind of the edge and both of its ends.
\<close>

subsection \<open>Registration\<close>

definition registers :: "llvm_view \<Rightarrow> ccpg \<Rightarrow> tct \<Rightarrow> hb_edge \<Rightarrow> bool" where
  "registers L g T e \<longleftrightarrow>
     (\<exists>ci f t. nd_callSite (nodeOf g (h_src e)) \<and> nd_callInst (nodeOf g (h_src e)) = Some ci \<and>
        registrationCallee g (h_src e) ci \<in> set kRegistrationAPIs \<and> f \<in> set (callTargets L (ci_args ci)) \<and>
        entryFnToThread g T f = Some t \<and>
        e = mkEdge (h_src e) (getThreadEntryNode g T t) LIFECYCLE_FLAG
              (''register:'' @ registrationCallee g (h_src e) ci @ ''->'' @ f))"

lemma lifecycle_node_edges:
  "hb_edges (lifecycle_node L g T n h) = hb_edges h \<union>
     {e. registers L g T e \<and> h_src e = n \<and> n \<noteq> null \<and> h_dst e \<noteq> null}"
proof (cases "nd_callSite (nodeOf g n) \<and> (\<exists>ci. nd_callInst (nodeOf g n) = Some ci \<and>
    registrationCallee g n ci \<in> set kRegistrationAPIs)")
  case False
  then have "lifecycle_node L g T n h = h"
    by (auto simp: lifecycle_node_def Let_def split: option.splits)
  moreover have "{e. registers L g T e \<and> h_src e = n \<and> n \<noteq> null \<and> h_dst e \<noteq> null} = {}"
    using False by (auto simp: registers_def)
  ultimately show ?thesis by (simp only: Un_empty_right)
next
  case True
  then obtain ci where ci: "nd_callInst (nodeOf g n) = Some ci" and site: "nd_callSite (nodeOf g n)"
    and api: "registrationCallee g n ci \<in> set kRegistrationAPIs" by blast
  define ev where "ev f = ''register:'' @ registrationCallee g n ci @ ''->'' @ f" for f
  define step where "step h f = (case entryFnToThread g T f of None \<Rightarrow> h
      | Some t \<Rightarrow> (let tgt = getThreadEntryNode g T t in if tgt = null then h
           else hb_addEdge n tgt LIFECYCLE_FLAG (''register:'' @ registrationCallee g n ci @ ''->'' @ f) h))" for h f
  define new where "new f = (case entryFnToThread g T f of None \<Rightarrow> {}
      | Some t \<Rightarrow> if n = null \<or> getThreadEntryNode g T t = null then {}
          else {mkEdge n (getThreadEntryNode g T t) LIFECYCLE_FLAG (ev f)})" for f
  let ?fs = "callTargets L (ci_args ci)"
  have "lifecycle_node L g T n h = foldl step h (dedupFirst ?fs)"
    using ci site api by (simp add: lifecycle_node_def step_def[abs_def])
  also have "hb_edges \<dots> = hb_edges h \<union> (\<Union>f \<in> set (dedupFirst ?fs). new f)"
    by (rule foldl_edges) (auto simp: step_def new_def ev_def hb_edges_add Let_def split: option.splits)
  also have "(\<Union>f \<in> set (dedupFirst ?fs). new f) =
      {e. registers L g T e \<and> h_src e = n \<and> n \<noteq> null \<and> h_dst e \<noteq> null}"
  proof (intro equalityI subsetI)
    fix e assume "e \<in> (\<Union>f \<in> set (dedupFirst ?fs). new f)"
    then obtain f where "f \<in> set ?fs" "e \<in> new f" by auto
    then show "e \<in> {e. registers L g T e \<and> h_src e = n \<and> n \<noteq> null \<and> h_dst e \<noteq> null}"
      using ci site api by (auto simp: new_def registers_def ev_def split: option.splits if_splits)
  next
    fix e assume "e \<in> {e. registers L g T e \<and> h_src e = n \<and> n \<noteq> null \<and> h_dst e \<noteq> null}"
    then have reg: "registers L g T e" and n: "h_src e = n" "n \<noteq> null" "h_dst e \<noteq> null" by auto
    obtain f t where f: "f \<in> set ?fs" "entryFnToThread g T f = Some t"
      "e = mkEdge n (getThreadEntryNode g T t) LIFECYCLE_FLAG (ev f)"
      using reg unfolding registers_def n(1) ci ev_def option.inject by blast
    moreover have "getThreadEntryNode g T t \<noteq> null" using f(3) n(3) by (metis mkEdge_sel(2))
    ultimately have "e \<in> new f" using n(2) by (simp add: new_def del: neq0_conv)
    with f(1) show "e \<in> (\<Union>f \<in> set (dedupFirst ?fs). new f)" by auto
  qed
  finally show ?thesis .
qed

lemma lifecycle_exact:
  "hb_edges (buildLifecycleFlagEdges L g T h) = hb_edges h \<union>
     {e. registers L g T e \<and> h_src e \<in> set (graphNodes g) \<and> h_src e \<noteq> null \<and> h_dst e \<noteq> null}"
proof -
  have "hb_edges (buildLifecycleFlagEdges L g T h) = hb_edges h \<union>
      (\<Union>n \<in> set (graphNodes g). {e. registers L g T e \<and> h_src e = n \<and> n \<noteq> null \<and> h_dst e \<noteq> null})"
    unfolding buildLifecycleFlagEdges_def by (rule foldl_edges) (rule lifecycle_node_edges)
  then show ?thesis by auto
qed

lemma graphNodes_set:
  "n \<in> set (graphNodes g) \<longleftrightarrow> n \<noteq> null \<and> (\<exists>e \<in> set (g_edges g). n = e_src e \<or> n = e_dst e)"
  by (auto simp: graphNodes_def)

subsection \<open>RCU\<close>

text \<open>A read-side unlock and a synchronize call that the pass may join.\<close>

definition synchronizes :: "llvm_view \<Rightarrow> ccpg \<Rightarrow> tct \<Rightarrow> (ptr \<Rightarrow> ptr \<Rightarrow> bool) \<Rightarrow> rcu_family \<Rightarrow> ptr \<Rightarrow> ptr \<Rightarrow> ptr \<Rightarrow> bool" where
  "synchronizes L g T conc fam s tr u \<longleftrightarrow> tr \<noteq> null \<and> u \<in> set (unlockSites g T fam tr) \<and> tr \<noteq> findThread T s \<and>
     (findThread T s \<noteq> null \<longrightarrow> conc (findThread T s) tr) \<and>
     (fam = SRCU \<longrightarrow> srcuOperand L g s \<noteq> null \<and> srcuOperand L g s = srcuOperand L g u)"

definition rcuEdge :: "ptr \<Rightarrow> ptr \<Rightarrow> hb_edge" where
  "rcuEdge u s = mkEdge u s RCU_SYNC ''rcu_unlock->synchronize''"

definition rcuEdges :: "llvm_view \<Rightarrow> ccpg \<Rightarrow> tct \<Rightarrow> (ptr \<Rightarrow> ptr \<Rightarrow> bool) \<Rightarrow> rcu_family \<Rightarrow> ptr \<Rightarrow> ptr set \<Rightarrow> hb_edge set" where
  "rcuEdges L g T conc fam s ts = {rcuEdge u s |tr u. tr \<in> ts \<and> synchronizes L g T conc fam s tr u}"

lemma unlockSites_null: "u \<in> set (unlockSites g T fam t) \<Longrightarrow> u \<noteq> null"
  by (simp add: unlockSites_def)

text \<open>
  What a pass with a budget does: it adds edges of the set \<open>X\<close> only, all of them if its work fits
  the budget, and it counts at most its work.
\<close>

definition adds :: "int \<Rightarrow> nat \<Rightarrow> hb_edge set \<Rightarrow> hbgraph \<times> nat \<Rightarrow> hbgraph \<times> nat \<Rightarrow> bool" where
  "adds cap w X st st' \<longleftrightarrow> hb_edges (fst st) \<subseteq> hb_edges (fst st') \<and> hb_edges (fst st') \<subseteq> hb_edges (fst st) \<union> X \<and>
     snd st' \<le> snd st + w \<and> (int (snd st + w) < cap \<longrightarrow> hb_edges (fst st') = hb_edges (fst st) \<union> X)"

lemma adds_none [simp]: "adds cap w {} st st"
  by (simp add: adds_def)

lemma adds_mono: "adds cap v X st st' \<Longrightarrow> v \<le> w \<Longrightarrow> adds cap w X st st'"
  by (auto simp: adds_def)

lemma adds_trans:
  assumes "adds cap v X a b" "adds cap w Y b c"
  shows "adds cap (v + w) (X \<union> Y) a c"
proof -
  have "hb_edges (fst c) = hb_edges (fst a) \<union> (X \<union> Y)" if "int (snd a + (v + w)) < cap"
  proof -
    have "int (snd a + v) < cap" using that by simp
    moreover from this have "int (snd b + w) < cap" using assms(1) that by (simp add: adds_def)
    ultimately show ?thesis using assms by (auto simp: adds_def)
  qed
  with assms show ?thesis unfolding adds_def by auto
qed

text \<open>Stopping at a full budget adds nothing, which is allowed for any further set.\<close>

lemma adds_stop:
  assumes "adds cap v X a b" "cap \<le> int (snd b)"
  shows "adds cap (v + w) (X \<union> Y) a b"
  using assms by (auto simp: adds_def)

lemma rcu_unlocks_adds:
  assumes "\<And>u. u \<in> set us \<Longrightarrow> u \<noteq> null" "s \<noteq> null"
  shows "adds cap (length us) {rcuEdge u s |u. u \<in> set us \<and>
      (fam = SRCU \<longrightarrow> srcuOperand L g s \<noteq> null \<and> srcuOperand L g s = srcuOperand L g u)} st
    (rcu_unlocks L g cap fam s us st)"
  using assms
proof (induction L g cap fam s us st rule: rcu_unlocks.induct)
  case (1 L g cap fam s h added)
  then show ?case by simp
next
  case (2 L g cap fam s u us h added)
  let ?ok = "\<lambda>u. fam = SRCU \<longrightarrow> srcuOperand L g s \<noteq> null \<and> srcuOperand L g s = srcuOperand L g u"
  let ?X = "\<lambda>us. {rcuEdge u s |u. u \<in> set us \<and> ?ok u}"
  have X: "?X (u # us) = (if ?ok u then {rcuEdge u s} else {}) \<union> ?X us" by auto
  consider (full) "cap \<le> int added" | (skip) "\<not> cap \<le> int added" "\<not> ?ok u" | (go) "\<not> cap \<le> int added" "?ok u" by blast
  then show ?case
  proof cases
    case full
    then show ?thesis by (simp add: adds_def)
  next
    case skip
    then have c: "fam = SRCU \<and> (srcuOperand L g s = null \<or> srcuOperand L g u = null \<or> srcuOperand L g s \<noteq> srcuOperand L g u)"
      by auto
    have "adds cap (length us) (?X us) (h, added) (rcu_unlocks L g cap fam s us (h, added))"
      using 2(1)[OF skip(1) c] 2(3,4) by simp
    from adds_mono[OF this, of "length (u # us)"]
    have "adds cap (length (u # us)) (?X us) (h, added) (rcu_unlocks L g cap fam s us (h, added))" by simp
    moreover have "?X (u # us) = ?X us" unfolding X if_not_P[OF skip(2)] by simp
    moreover have "rcu_unlocks L g cap fam s (u # us) (h, added) = rcu_unlocks L g cap fam s us (h, added)"
      using skip(1) c by simp
    ultimately show ?thesis by (simp only:)
  next
    case go
    then have c: "\<not> (fam = SRCU \<and> (srcuOperand L g s = null \<or> srcuOperand L g u = null \<or> srcuOperand L g s \<noteq> srcuOperand L g u))"
      by auto
    let ?h = "hb_addEdge u s RCU_SYNC ''rcu_unlock->synchronize'' h"
    have r: "rcu_unlocks L g cap fam s (u # us) (h, added) = rcu_unlocks L g cap fam s us (?h, Suc added)"
      using go(1) c by (subst rcu_unlocks.simps(2)) (simp only: if_False)
    have "adds cap 1 {rcuEdge u s} (h, added) (?h, Suc added)"
      using 2(3)[of u] 2(4) by (auto simp: adds_def hb_edges_add rcuEdge_def)
    moreover have "adds cap (length us) (?X us) (?h, Suc added) (rcu_unlocks L g cap fam s us (?h, Suc added))"
      using 2(2)[OF go(1) c] 2(3,4) by simp
    ultimately have "adds cap (1 + length us) ({rcuEdge u s} \<union> ?X us) (h, added) (rcu_unlocks L g cap fam s us (?h, Suc added))"
      by (rule adds_trans)
    moreover have "1 + length us = length (u # us)" by simp
    ultimately show ?thesis unfolding X r if_P[OF go(2)] by (simp only:)
  qed
qed

definition threadWork :: "ccpg \<Rightarrow> tct \<Rightarrow> rcu_family \<Rightarrow> ptr list \<Rightarrow> nat" where
  "threadWork g T fam ts = (\<Sum>t \<leftarrow> ts. length (unlockSites g T fam t))"

lemma rcu_threads_adds:
  assumes "s \<noteq> null"
  shows "adds cap (threadWork g T fam ts) (rcuEdges L g T conc fam s (set ts)) st (rcu_threads L g T conc cap fam s ts st)"
proof (induction ts arbitrary: st)
  case Nil
  then show ?case by (simp add: rcuEdges_def threadWork_def)
next
  case (Cons tr ts)
  let ?us = "unlockSites g T fam tr" and ?Y = "rcuEdges L g T conc fam s (set ts)"
  let ?X = "rcuEdges L g T conc fam s {tr}"
  have split: "rcuEdges L g T conc fam s (set (tr # ts)) = ?X \<union> ?Y" by (auto simp: rcuEdges_def)
  have w: "threadWork g T fam (tr # ts) = length ?us + threadWork g T fam ts" by (simp add: threadWork_def)
  let ?skip = "tr = null \<or> tr = findThread T s \<or> ?us = [] \<or> findThread T s \<noteq> null \<and> \<not> conc (findThread T s) tr"
  show ?case
  proof (cases ?skip)
    case True
    then have "?X = {}" unfolding rcuEdges_def synchronizes_def by auto
    moreover have "rcu_threads L g T conc cap fam s (tr # ts) st = rcu_threads L g T conc cap fam s ts st"
      using True by (auto simp: Let_def)
    ultimately show ?thesis using adds_mono[OF Cons.IH[of st]] unfolding split w by simp
  next
    case False
    let ?st' = "rcu_unlocks L g cap fam s ?us st"
    have "?X = {rcuEdge u s |u. u \<in> set ?us \<and>
        (fam = SRCU \<longrightarrow> srcuOperand L g s \<noteq> null \<and> srcuOperand L g s = srcuOperand L g u)}"
      using False unfolding rcuEdges_def synchronizes_def by blast
    moreover have "u \<noteq> null" if "u \<in> set ?us" for u using that by (rule unlockSites_null)
    from rcu_unlocks_adds[OF this assms]
    have "adds cap (length ?us) {rcuEdge u s |u. u \<in> set ?us \<and>
        (fam = SRCU \<longrightarrow> srcuOperand L g s \<noteq> null \<and> srcuOperand L g s = srcuOperand L g u)} st ?st'" .
    ultimately have one: "adds cap (length ?us) ?X st ?st'" by (simp only:)
    have r: "rcu_threads L g T conc cap fam s (tr # ts) st =
        (if cap \<le> int (snd ?st') then ?st' else rcu_threads L g T conc cap fam s ts ?st')"
      using False by (auto simp: Let_def simp del: neq0_conv)
    show ?thesis
    proof (cases "cap \<le> int (snd ?st')")
      case True
      show ?thesis unfolding split w r if_P[OF True] by (rule adds_stop[OF one True])
    next
      case False
      show ?thesis unfolding split w r if_not_P[OF False] by (rule adds_trans[OF one Cons.IH])
    qed
  qed
qed

definition siteEdges :: "llvm_view \<Rightarrow> ccpg \<Rightarrow> tct \<Rightarrow> (ptr \<Rightarrow> ptr \<Rightarrow> bool) \<Rightarrow> (rcu_family \<times> ptr) set \<Rightarrow> hb_edge set" where
  "siteEdges L g T conc fs = (\<Union>(fam, s) \<in> fs. rcuEdges L g T conc fam s (set (threads T)))"

lemma rcu_sites_adds:
  assumes "\<And>fam s. (fam, s) \<in> set sites \<Longrightarrow> s \<noteq> null"
  shows "adds cap (\<Sum>(fam, s) \<leftarrow> sites. threadWork g T fam (threads T)) (siteEdges L g T conc (set sites)) st
    (rcu_sites L g T conc cap sites st)"
  using assms
proof (induction sites arbitrary: st)
  case Nil
  then show ?case by (simp add: siteEdges_def)
next
  case (Cons x sites)
  obtain fam s where x: "x = (fam, s)" by (cases x)
  let ?st' = "rcu_threads L g T conc cap fam s (threads T) st"
  have one: "adds cap (threadWork g T fam (threads T)) (rcuEdges L g T conc fam s (set (threads T))) st ?st'"
  proof (rule rcu_threads_adds)
    show "s \<noteq> null" using Cons.prems[of fam s] x by simp
  qed
  have split: "siteEdges L g T conc (set (x # sites)) =
      rcuEdges L g T conc fam s (set (threads T)) \<union> siteEdges L g T conc (set sites)" by (simp add: siteEdges_def x)
  have rest: "adds cap (\<Sum>(fam, s) \<leftarrow> sites. threadWork g T fam (threads T)) (siteEdges L g T conc (set sites)) ?st'
      (rcu_sites L g T conc cap sites ?st')"
  proof (rule Cons.IH)
    show "s' \<noteq> null" if "(fam', s') \<in> set sites" for fam' s' using Cons.prems[of fam' s'] that by simp
  qed
  have r: "rcu_sites L g T conc cap (x # sites) st = (if cap \<le> int (snd ?st') then ?st' else rcu_sites L g T conc cap sites ?st')"
    by (simp add: x Let_def)
  show ?case unfolding split r using adds_stop[OF one] adds_trans[OF one rest] by (simp add: x)
qed

text \<open>The pairs the pass has to look at, over the families it knows.\<close>

definition rcuWork :: "rcu_family list \<Rightarrow> ccpg \<Rightarrow> tct \<Rightarrow> nat" where
  "rcuWork fams g T = (\<Sum>f \<leftarrow> filter (\<lambda>f. f \<noteq> UnknownFamily) fams. length (syncSites g f) * threadWork g T f (threads T))"

lemma rcu_work_le:
  "(\<Sum>(fam, s) \<leftarrow> concat (map (\<lambda>f. map (Pair f) (syncSites g f)) (filter P fs)). threadWork g T fam (threads T)) \<le>
     (\<Sum>f \<leftarrow> fs. length (syncSites g f) * threadWork g T f (threads T))"
proof -
  have one: "sum_list (map ((\<lambda>(fam, s). threadWork g T fam (threads T)) \<circ> Pair f) xs) = length xs * threadWork g T f (threads T)" for f and xs :: "ptr list"
    by (induction xs) simp_all
  show ?thesis by (induction fs) (simp_all add: one)
qed

definition rcuLicence :: "llvm_view \<Rightarrow> rcu_family list \<Rightarrow> ccpg \<Rightarrow> tct \<Rightarrow> (ptr \<Rightarrow> ptr \<Rightarrow> bool) \<Rightarrow> hb_edge \<Rightarrow> bool" where
  "rcuLicence L fams g T conc e \<longleftrightarrow>
     (\<exists>fam \<in> set fams. \<exists>s \<in> set (syncSites g fam). \<exists>tr \<in> set (threads T). \<exists>u.
        fam \<noteq> UnknownFamily \<and> synchronizes L g T conc fam s tr u \<and> e = rcuEdge u s)"

lemma rcu_exact:
  "hb_edges h \<subseteq> hb_edges (buildRCUEdges env L fams g T conc h)"
  "e \<in> hb_edges (buildRCUEdges env L fams g T conc h) \<Longrightarrow> e \<in> hb_edges h \<or> rcuLicence L fams g T conc e"
  "int (rcuWork fams g T) < envInt env ''HB_RCU_MAX_EDGES'' 4000 \<Longrightarrow> rcuLicence L fams g T conc e \<Longrightarrow>
     e \<in> hb_edges (buildRCUEdges env L fams g T conc h)"
proof -
  let ?cap = "envInt env ''HB_RCU_MAX_EDGES'' 4000"
  define P where "P f \<longleftrightarrow> list_ex (\<lambda>t. unlockSites g T f t \<noteq> []) (threads T)" for f
  define sites where "sites = concat (map (\<lambda>f. map (Pair f) (syncSites g f)) (filter P (filter (\<lambda>f. f \<noteq> UnknownFamily) fams)))"
  define w where "w = (\<Sum>(fam, s) \<leftarrow> sites. threadWork g T fam (threads T))"
  have b: "buildRCUEdges env L fams g T conc h = fst (rcu_sites L g T conc ?cap sites (h, 0))"
    by (simp add: buildRCUEdges_def Let_def sites_def P_def conj_commute)
  have "s \<noteq> null" if "(fam, s) \<in> set sites" for fam s using that by (auto simp: sites_def syncSites_def)
  from rcu_sites_adds[OF this] have a: "adds ?cap w (siteEdges L g T conc (set sites)) (h, 0) (rcu_sites L g T conc ?cap sites (h, 0))" unfolding w_def .
  have le: "w \<le> rcuWork fams g T" unfolding w_def sites_def rcuWork_def by (rule rcu_work_le)
  have sites: "e \<in> siteEdges L g T conc (set sites) \<longleftrightarrow> rcuLicence L fams g T conc e" for e
  proof -
    have "P fam" if "tr \<in> set (threads T)" "synchronizes L g T conc fam s tr u" for fam s tr u
      using that unfolding P_def list_ex_iff synchronizes_def by (metis empty_iff list.set(1))
    then show ?thesis unfolding siteEdges_def rcuEdges_def rcuLicence_def sites_def by (auto, blast)
  qed
  show "hb_edges h \<subseteq> hb_edges (buildRCUEdges env L fams g T conc h)" using a by (simp add: b adds_def)
  show "e \<in> hb_edges (buildRCUEdges env L fams g T conc h) \<Longrightarrow> e \<in> hb_edges h \<or> rcuLicence L fams g T conc e"
    using a by (auto simp: b adds_def sites)
  show "int (rcuWork fams g T) < ?cap \<Longrightarrow> rcuLicence L fams g T conc e \<Longrightarrow> e \<in> hb_edges (buildRCUEdges env L fams g T conc h)"
    using a le by (auto simp: b adds_def sites)
qed

subsection \<open>The whole graph\<close>

text \<open>A code-graph edge of a type between the ends of an edge.\<close>

definition codeLicence :: "ccpg \<Rightarrow> edge_type \<Rightarrow> hb_edge \<Rightarrow> bool" where
  "codeLicence g ty e \<longleftrightarrow> \<lparr>e_src = h_src e, e_dst = h_dst e, e_type = ty\<rparr> \<in> set (g_edges g)"

text \<open>What an edge of each kind that is not capped must come from.\<close>

definition licence :: "llvm_view \<Rightarrow> (ptr \<Rightarrow> ptr \<Rightarrow> bool) \<Rightarrow> (ptr \<Rightarrow> ptr \<Rightarrow> bool) \<Rightarrow> ccpg \<Rightarrow> lsa \<Rightarrow> tct \<Rightarrow> (ptr \<Rightarrow> ptr \<Rightarrow> bool) \<Rightarrow> hb_edge \<Rightarrow> bool" where
  "licence L lockAlias alias g S T conc e \<longleftrightarrow> (case h_kind e of
       PROGRAM_ORDER \<Rightarrow> codeLicence g ORDER e \<and> h_evidence e = ''cfg''
     | CALL_RETURN \<Rightarrow> codeLicence g CALL e \<and> h_evidence e = ''call''
     | FORK_TO_ENTRY \<Rightarrow> codeLicence g HB e \<and> h_evidence e = ''fork''
     | LOCK_RELEASE_ACQUIRE \<Rightarrow> (\<exists>cls \<in> set (lockClasses lockAlias S). \<exists>lr \<in> set cls. \<exists>la \<in> set cls.
          lockPair S T conc lr la \<and> e = lockEdge S lr la)
     | JOIN_FROM_EXIT \<Rightarrow> h_evidence e = ''join'' \<and> (\<exists>t \<in> set (threads T). joinNode (thr T t) \<noteq> null \<and>
          h_src e \<in> set (threadExits g T t) \<and> h_dst e \<in> set (orderTargets g (joinNode (thr T t))))
     | COMPLETION \<Rightarrow> h_evidence e = ''complete->after_wait'' \<and> h_src e \<in> set (getNodesByType g COND_SIGNAL) \<and>
          (\<exists>w \<in> set (getNodesByType g COND_WAIT). completionAlias alias g (h_src e) w \<and> h_dst e \<in> set (orderTargets g w))
     | LIFECYCLE_FLAG \<Rightarrow> h_src e \<in> set (graphNodes g) \<and> registers L g T e
     | _ \<Rightarrow> False)"

lemma edge_eta: "e = mkEdge (h_src e) (h_dst e) (h_kind e) (h_evidence e)"
  by (simp add: mkEdge_def)

lemma mkEdge_eq: "e = mkEdge s d k ev \<longleftrightarrow> h_src e = s \<and> h_dst e = d \<and> h_kind e = k \<and> h_evidence e = ev"
  by (cases e) (simp add: mkEdge_def)

lemma programOrder_exact:
  "e \<in> hb_edges (buildProgramOrderEdges g hb_clear) \<longleftrightarrow> h_src e \<noteq> null \<and> h_dst e \<noteq> null \<and>
     (h_kind e = PROGRAM_ORDER \<and> codeLicence g ORDER e \<and> h_evidence e = ''cfg'' \<or>
      h_kind e = CALL_RETURN \<and> codeLicence g CALL e \<and> h_evidence e = ''call'' \<or>
      h_kind e = FORK_TO_ENTRY \<and> codeLicence g HB e \<and> h_evidence e = ''fork'')"
proof -
  have "e \<in> hb_edges (buildProgramOrderEdges g hb_clear) \<longleftrightarrow>
      (\<exists>x \<in> set (g_edges g). h_src e = e_src x \<and> h_dst e = e_dst x \<and> h_src e \<noteq> null \<and> h_dst e \<noteq> null \<and>
        h_kind e = (case e_type x of ORDER \<Rightarrow> PROGRAM_ORDER | CALL \<Rightarrow> CALL_RETURN | HB \<Rightarrow> FORK_TO_ENTRY) \<and>
        h_evidence e = (case e_type x of ORDER \<Rightarrow> ''cfg'' | CALL \<Rightarrow> ''call'' | HB \<Rightarrow> ''fork''))"
    by (auto simp: programOrder_edges mkEdge_eq simp del: neq0_conv)
  also have "\<dots> \<longleftrightarrow> (\<exists>ty. codeLicence g ty e \<and> h_src e \<noteq> null \<and> h_dst e \<noteq> null \<and>
        h_kind e = (case ty of ORDER \<Rightarrow> PROGRAM_ORDER | CALL \<Rightarrow> CALL_RETURN | HB \<Rightarrow> FORK_TO_ENTRY) \<and>
        h_evidence e = (case ty of ORDER \<Rightarrow> ''cfg'' | CALL \<Rightarrow> ''call'' | HB \<Rightarrow> ''fork''))"
  proof
    assume "\<exists>x \<in> set (g_edges g). h_src e = e_src x \<and> h_dst e = e_dst x \<and> h_src e \<noteq> null \<and> h_dst e \<noteq> null \<and>
        h_kind e = (case e_type x of ORDER \<Rightarrow> PROGRAM_ORDER | CALL \<Rightarrow> CALL_RETURN | HB \<Rightarrow> FORK_TO_ENTRY) \<and>
        h_evidence e = (case e_type x of ORDER \<Rightarrow> ''cfg'' | CALL \<Rightarrow> ''call'' | HB \<Rightarrow> ''fork'')"
    then show "\<exists>ty. codeLicence g ty e \<and> h_src e \<noteq> null \<and> h_dst e \<noteq> null \<and>
        h_kind e = (case ty of ORDER \<Rightarrow> PROGRAM_ORDER | CALL \<Rightarrow> CALL_RETURN | HB \<Rightarrow> FORK_TO_ENTRY) \<and>
        h_evidence e = (case ty of ORDER \<Rightarrow> ''cfg'' | CALL \<Rightarrow> ''call'' | HB \<Rightarrow> ''fork'')"
      unfolding codeLicence_def by (metis ccpg_edge.surjective old.unit.exhaust)
  qed (force simp: codeLicence_def)
  also have "\<dots> \<longleftrightarrow> h_src e \<noteq> null \<and> h_dst e \<noteq> null \<and>
     (h_kind e = PROGRAM_ORDER \<and> codeLicence g ORDER e \<and> h_evidence e = ''cfg'' \<or>
      h_kind e = CALL_RETURN \<and> codeLicence g CALL e \<and> h_evidence e = ''call'' \<or>
      h_kind e = FORK_TO_ENTRY \<and> codeLicence g HB e \<and> h_evidence e = ''fork'')"
  proof -
    have "(\<exists>ty. Q ty) \<longleftrightarrow> Q ORDER \<or> Q CALL \<or> Q HB" for Q by (metis edge_type.exhaust)
    then show ?thesis by auto
  qed
  finally show ?thesis .
qed

lemma lock_exact:
  "e \<in> hb_edges (buildLockEdges lockAlias S T conc h) \<longleftrightarrow> e \<in> hb_edges h \<or>
     (\<exists>cls \<in> set (lockClasses lockAlias S). \<exists>lr \<in> set cls. \<exists>la \<in> set cls. lockPair S T conc lr la \<and> e = lockEdge S lr la)"
  unfolding lock_edges by blast

lemma join_exact:
  "e \<in> hb_edges (buildForkJoinEdges g T h) \<longleftrightarrow> e \<in> hb_edges h \<or>
     h_kind e = JOIN_FROM_EXIT \<and> h_evidence e = ''join'' \<and> h_src e \<noteq> null \<and> h_dst e \<noteq> null \<and>
     (\<exists>t \<in> set (threads T). joinNode (thr T t) \<noteq> null \<and>
        h_src e \<in> set (threadExits g T t) \<and> h_dst e \<in> set (orderTargets g (joinNode (thr T t))))"
  unfolding forkJoin_edges by (auto simp: mkEdge_eq simp del: neq0_conv)

lemma completion_exact:
  "e \<in> hb_edges (buildCompletionEdges alias g h) \<longleftrightarrow> e \<in> hb_edges h \<or>
     h_kind e = COMPLETION \<and> h_evidence e = ''complete->after_wait'' \<and> h_src e \<noteq> null \<and> h_dst e \<noteq> null \<and>
     h_src e \<in> set (getNodesByType g COND_SIGNAL) \<and>
     (\<exists>w \<in> set (getNodesByType g COND_WAIT). completionAlias alias g (h_src e) w \<and> h_dst e \<in> set (orderTargets g w))"
proof -
  have "c \<noteq> null" if "completionAlias alias g c w" for c w using that by (auto simp: completionAlias_def split: if_splits)
  then show ?thesis unfolding completion_edges by (auto simp: mkEdge_eq simp del: neq0_conv)
qed

lemma licence_kinds: "h_kind e \<noteq> RCU_SYNC \<Longrightarrow> \<not> rcuLicence L fams g T conc e"
  by (auto simp: rcuLicence_def rcuEdge_def)

lemma licence_rcu: "h_kind e = RCU_SYNC \<Longrightarrow> \<not> licence L lockAlias alias g S T conc e"
  by (simp add: licence_def)

lemma lockEdge_ends: "lockPair S T conc lr la \<Longrightarrow> h_src (lockEdge S lr la) \<noteq> null \<and> h_dst (lockEdge S lr la) \<noteq> null"
  by (simp add: lockPair_def lockEdge_def Let_def)

lemma registers_kind: "registers L g T e \<Longrightarrow> h_kind e = LIFECYCLE_FLAG"
  by (auto simp: registers_def mkEdge_eq)

lemma lockEdge_kind: "h_kind (lockEdge S lr la) = LOCK_RELEASE_ACQUIRE"
  by (simp add: lockEdge_def)

lemma passes_exact:
  "e \<in> hb_edges (buildLifecycleFlagEdges L g T (buildCompletionEdges alias g (buildForkJoinEdges g T
      (buildLockEdges lockAlias S T conc (buildProgramOrderEdges g hb_clear))))) \<longleftrightarrow>
     h_src e \<noteq> null \<and> h_dst e \<noteq> null \<and> licence L lockAlias alias g S T conc e"
proof -
  note passes = lifecycle_exact completion_exact join_exact lock_exact programOrder_exact
  show ?thesis
    by (cases "h_kind e")
      (auto simp: passes licence_def mkEdge_eq lockEdge_kind simp del: neq0_conv dest: registers_kind lockEdge_ends)
qed

lemma hb_build_exact:
  assumes "h_kind e \<noteq> RCU_SYNC"
  shows "e \<in> hb_edges (hb_build env L lockAlias alias fams g S T conc) \<longleftrightarrow>
    h_src e \<noteq> null \<and> h_dst e \<noteq> null \<and> licence L lockAlias alias g S T conc e"
  unfolding passes_exact[symmetric] hb_build_def Let_def
  using rcu_exact(1) rcu_exact(2)[of e] licence_kinds[OF assms] by blast

lemma hb_build_rcu:
  assumes "h_kind e = RCU_SYNC"
  shows "e \<in> hb_edges (hb_build env L lockAlias alias fams g S T conc) \<Longrightarrow> rcuLicence L fams g T conc e"
    "int (rcuWork fams g T) < envInt env ''HB_RCU_MAX_EDGES'' 4000 \<Longrightarrow> rcuLicence L fams g T conc e \<Longrightarrow>
       e \<in> hb_edges (hb_build env L lockAlias alias fams g S T conc)"
proof -
  have nl: "\<not> licence L lockAlias alias g S T conc e" by (rule licence_rcu[OF assms])
  show "e \<in> hb_edges (hb_build env L lockAlias alias fams g S T conc) \<Longrightarrow> rcuLicence L fams g T conc e"
    unfolding hb_build_def Let_def using rcu_exact(2)[of e] nl passes_exact[of e L g T "alias" lockAlias S conc] by blast
  show "int (rcuWork fams g T) < envInt env ''HB_RCU_MAX_EDGES'' 4000 \<Longrightarrow> rcuLicence L fams g T conc e \<Longrightarrow>
       e \<in> hb_edges (hb_build env L lockAlias alias fams g S T conc)"
    unfolding hb_build_def Let_def by (rule rcu_exact(3))
qed

end
