(* ===== verification/ThreadFacts.thy ===== *)
theory ThreadFacts
  imports ThreadTree
begin

text \<open>
  Correctness of the thread tree's operations: what the searches decide, symmetry
  of the parallelism test, totality of the concurrency query and the transparency
  of its two caches, and the call-path search.
\<close>

subsection \<open>Searches\<close>

lemma isReachable_iff:
  assumes "start \<noteq> null" "end \<noteq> null" "thread \<noteq> null"
  shows "isReachable g T start end thread \<longleftrightarrow> start = end \<or>
     (\<exists>u. (inside (succs g) (th_nodes (thr T thread)))\<^sup>*\<^sup>* start u \<and> end \<in> set (succs g u))"
  using assms search_start[of "succs g" "\<lambda>v. v = end" "th_nodes (thr T thread)" start]
  by (auto simp: isReachable_def)

lemma getReachableNodes_eq:
  assumes "startNode \<noteq> null" "thread \<noteq> null" "startNode \<in> set (th_nodes (thr T thread))"
  shows "getReachableNodes g T startNode thread forward =
     {v. (inside (if forward then succs g else preds g) (th_nodes (thr T thread)))\<^sup>*\<^sup>* startNode v}"
  using assms search_start[of "if forward then succs g else preds g" "\<lambda>_. False" "th_nodes (thr T thread)" startNode]
  by (auto simp: getReachableNodes_def)

subsection \<open>Symmetry\<close>

lemma isEntryLifecycleIncompatible_sym:
  "isEntryLifecycleIncompatible g T t1 t2 = isEntryLifecycleIncompatible g T t2 t1"
  by (auto simp: isEntryLifecycleIncompatible_def Let_def)

definition sharing_sym :: "sharing \<Rightarrow> bool" where
  "sharing_sym shared \<longleftrightarrow> (case shared of Some f \<Rightarrow> (\<forall>a b. f a b = f b a) | None \<Rightarrow> True)"

lemma mhp_compute_sym:
  assumes "parent (thr T t1) = parent (thr T t2)" "sharing_sym shared"
  shows "mhp_compute cfg shared g T t1 t2 = mhp_compute cfg shared g T t2 t1"
proof -
  have s: "(case shared of Some d \<Rightarrow> (let n1 = a; n2 = b in \<not> (n1 \<noteq> [] \<and> n2 \<noteq> [] \<and> \<not> d n1 n2)) | None \<Rightarrow> True) =
      (case shared of Some d \<Rightarrow> (let n1 = b; n2 = a in \<not> (n1 \<noteq> [] \<and> n2 \<noteq> [] \<and> \<not> d n1 n2)) | None \<Rightarrow> True)" for a b
    using assms(2) by (auto simp: sharing_sym_def split: option.splits)
  have p: "parent (thr T t2) = parent (thr T t1)" using assms(1) by simp
  show ?thesis
    unfolding mhp_compute_def p
    using s[of "threadEntryName g T t1" "threadEntryName g T t2"]
    by (cases "parent (thr T t1) = null")
      (auto simp: Let_def isEntryLifecycleIncompatible_sym[of g T t2 t1] split: option.splits)
qed

lemma threadEntryName_heap: "threadH T' = threadH T \<Longrightarrow> threadEntryName g T' t = threadEntryName g T t"
  by (simp only: threadEntryName_def)

lemma isReachable_heap: "threadH T' = threadH T \<Longrightarrow> isReachable g T' a b t = isReachable g T a b t"
  by (simp only: isReachable_def)

lemma lifecycle_heap:
  assumes "threadH T' = threadH T"
  shows "isEntryLifecycleIncompatible g T' a b = isEntryLifecycleIncompatible g T a b"
  unfolding isEntryLifecycleIncompatible_def threadEntryName_heap[OF assms] ..

lemma mhp_compute_heap:
  assumes "threadH T' = threadH T"
  shows "mhp_compute cfg shared g T' t1 t2 = mhp_compute cfg shared g T t1 t2"
  unfolding mhp_compute_def isReachable_heap[OF assms] threadEntryName_heap[OF assms] lifecycle_heap[OF assms] assms
  ..

subsection \<open>The concurrency query without its caches\<close>

partial_function (option) concurrent ::
    "config \<Rightarrow> sharing \<Rightarrow> ccpg \<Rightarrow> tct \<Rightarrow> ptr \<Rightarrow> ptr \<Rightarrow> bool option" where
  "concurrent cfg shared g T t1 t2 =
     (if t1 = t2 then Some (t1 \<noteq> null \<and> isReentrant (thr T t1))
      else Option.bind (isDescendant T t1 t2) (\<lambda>d1.
           Option.bind (if d1 then Some True else isDescendant T t2 t1) (\<lambda>d.
             if d then Some True
             else if parent (thr T t1) = parent (thr T t2) then Some (mhp_compute cfg shared g T t1 t2)
             else if parent (thr T t1) \<noteq> null \<and> parent (thr T t2) \<noteq> null
               then concurrent cfg shared g T (parent (thr T t1)) (parent (thr T t2))
             else Some False)))"

text \<open>Parents are created before their children, so the parent chain is finite.\<close>

definition tree_wf :: "tct \<Rightarrow> bool" where
  "tree_wf T \<longleftrightarrow> (\<exists>rank :: ptr \<Rightarrow> nat. \<forall>t. parent (thr T t) \<noteq> null \<longrightarrow> rank (parent (thr T t)) < rank t)"

definition childOf :: "tct \<Rightarrow> ptr \<Rightarrow> ptr \<Rightarrow> bool" where
  "childOf T c p \<longleftrightarrow> c \<noteq> null \<and> p \<noteq> null \<and> parent (thr T c) = p"

lemma isDescendant_from_total:
  assumes "tree_wf T"
  shows "isDescendant_from T p t = Some (p \<noteq> null \<and> (childOf T)\<^sup>*\<^sup>* p t)"
proof -
  from assms obtain rank :: "ptr \<Rightarrow> nat"
    where r: "\<And>t. parent (thr T t) \<noteq> null \<Longrightarrow> rank (parent (thr T t)) < rank t"
    unfolding tree_wf_def by blast
  show ?thesis
  proof (induction "rank p" arbitrary: p rule: less_induct)
    case less
    show ?case
    proof (cases "p = null \<or> p = t")
      case True then show ?thesis by (subst isDescendant_from.simps) auto
    next
      case False
      let ?q = "parent (thr T p)"
      have step: "(childOf T)\<^sup>*\<^sup>* p t \<longleftrightarrow> ?q \<noteq> null \<and> (childOf T)\<^sup>*\<^sup>* ?q t"
        using False by (auto simp: childOf_def elim: converse_rtranclpE
            intro: converse_rtranclp_into_rtranclp[where r = "childOf T"])
      have "isDescendant_from T ?q t = Some (?q \<noteq> null \<and> (childOf T)\<^sup>*\<^sup>* ?q t)"
      proof (cases "?q = null")
        case True then show ?thesis by (subst isDescendant_from.simps) simp
      next
        case False
        with less r show ?thesis by blast
      qed
      with False step show ?thesis by (subst isDescendant_from.simps) simp
    qed
  qed
qed

definition ancestorOf :: "tct \<Rightarrow> ptr \<Rightarrow> ptr \<Rightarrow> bool" where
  "ancestorOf T a t \<longleftrightarrow> parent (thr T t) \<noteq> null \<and> (childOf T)\<^sup>*\<^sup>* (parent (thr T t)) a"

lemma isDescendant_total:
  "tree_wf T \<Longrightarrow> isDescendant T t1 t2 = Some (ancestorOf T t2 t1)"
  by (simp add: isDescendant_def isDescendant_from_total ancestorOf_def)

lemma ancestorOf_heap: "threadH T' = threadH T \<Longrightarrow> ancestorOf T' a t = ancestorOf T a t"
proof -
  assume h: "threadH T' = threadH T"
  then have "childOf T' = childOf T" by (intro ext) (simp add: childOf_def)
  with h show ?thesis by (simp add: ancestorOf_def)
qed

lemma tree_wf_heap: "threadH T' = threadH T \<Longrightarrow> tree_wf T' = tree_wf T"
  by (simp add: tree_wf_def)

lemma concurrent_step:
  assumes "tree_wf T"
  shows "concurrent cfg shared g T t1 t2 =
     (if t1 = t2 then Some (t1 \<noteq> null \<and> isReentrant (thr T t1))
      else if ancestorOf T t2 t1 \<or> ancestorOf T t1 t2 then Some True
      else if parent (thr T t1) = parent (thr T t2) then Some (mhp_compute cfg shared g T t1 t2)
      else if parent (thr T t1) \<noteq> null \<and> parent (thr T t2) \<noteq> null
        then concurrent cfg shared g T (parent (thr T t1)) (parent (thr T t2))
      else Some False)"
  by (subst concurrent.simps) (simp add: isDescendant_total[OF assms])

lemma concurrent_total:
  assumes "tree_wf T"
  shows "\<exists>b. concurrent cfg shared g T t1 t2 = Some b"
proof -
  from assms obtain rank :: "ptr \<Rightarrow> nat"
    where r: "\<And>t. parent (thr T t) \<noteq> null \<Longrightarrow> rank (parent (thr T t)) < rank t"
    unfolding tree_wf_def by blast
  show ?thesis
  proof (induction "rank t1" arbitrary: t1 t2 rule: less_induct)
    case less
    have "\<exists>b. concurrent cfg shared g T (parent (thr T t1)) (parent (thr T t2)) = Some b"
      if "parent (thr T t1) \<noteq> null" using less[OF r[OF that]] .
    then show ?case by (subst concurrent_step[OF assms]) auto
  qed
qed

lemma concurrent_sym:
  assumes "tree_wf T" "sharing_sym shared"
  shows "concurrent cfg shared g T t1 t2 = concurrent cfg shared g T t2 t1"
proof -
  from assms obtain rank :: "ptr \<Rightarrow> nat"
    where r: "\<And>t. parent (thr T t) \<noteq> null \<Longrightarrow> rank (parent (thr T t)) < rank t"
    unfolding tree_wf_def by blast
  show ?thesis
  proof (induction "rank t1" arbitrary: t1 t2 rule: less_induct)
    case less
    have up: "concurrent cfg shared g T (parent (thr T t1)) (parent (thr T t2)) =
        concurrent cfg shared g T (parent (thr T t2)) (parent (thr T t1))"
      if "parent (thr T t1) \<noteq> null"
      using less[OF r[OF that]] .
    show ?case
      unfolding concurrent_step[OF assms(1), of cfg shared g t1 t2] concurrent_step[OF assms(1), of cfg shared g t2 t1]
      using up mhp_compute_sym[OF _ assms(2), of T t1 t2 cfg g] by auto
  qed
qed

subsection \<open>The caches are transparent\<close>

definition caches_ok :: "config \<Rightarrow> sharing \<Rightarrow> ccpg \<Rightarrow> tct \<Rightarrow> bool" where
  "caches_ok cfg shared g T \<longleftrightarrow>
     (\<forall>a b r. concurrencyCache T (a, b) = Some r \<longrightarrow> concurrent cfg shared g T a b = Some r) \<and>
     (\<forall>a b r. mayHappenInParallelCache T (a, b) = Some r \<longrightarrow>
        parent (thr T a) = parent (thr T b) \<and> r = mhp_compute cfg shared g T a b)"

lemma concurrent_heap:
  assumes "threadH T' = threadH T" "tree_wf T"
  shows "concurrent cfg shared g T' t1 t2 = concurrent cfg shared g T t1 t2"
proof -
  from assms obtain rank :: "ptr \<Rightarrow> nat"
    where r: "\<And>t. parent (thr T t) \<noteq> null \<Longrightarrow> rank (parent (thr T t)) < rank t"
    unfolding tree_wf_def by blast
  have wf': "tree_wf T'" using assms tree_wf_heap by blast
  show ?thesis
  proof (induction "rank t1" arbitrary: t1 t2 rule: less_induct)
    case less
    have up: "concurrent cfg shared g T' (parent (thr T t1)) (parent (thr T t2)) =
        concurrent cfg shared g T (parent (thr T t1)) (parent (thr T t2))"
      if "parent (thr T t1) \<noteq> null"
      using less[OF r[OF that]] .
    show ?case
      unfolding concurrent_step[OF assms(2), of cfg shared g t1 t2] concurrent_step[OF wf', of cfg shared g t1 t2]
        ancestorOf_heap[OF assms(1)] mhp_compute_heap[OF assms(1)] assms(1)
      using up by auto
  qed
qed

lemma mayHappenInParallel_cached:
  assumes "caches_ok cfg shared g T" "parent (thr T t1) = parent (thr T t2)" "sharing_sym shared" "tree_wf T"
  shows "fst (mayHappenInParallel cfg shared g t1 t2 T) = mhp_compute cfg shared g T t1 t2"
    "caches_ok cfg shared g (snd (mayHappenInParallel cfg shared g t1 t2 T))"
    "threadH (snd (mayHappenInParallel cfg shared g t1 t2 T)) = threadH T"
proof -
  have sym: "mhp_compute cfg shared g T t2 t1 = mhp_compute cfg shared g T t1 t2"
    using mhp_compute_sym assms by metis
  let ?T' = "T\<lparr>mayHappenInParallelCache :=
      (mayHappenInParallelCache T)(cacheKey t1 t2 \<mapsto> mhp_compute cfg shared g T t1 t2)\<rparr>"
  have h: "threadH ?T' = threadH T" by simp
  show "fst (mayHappenInParallel cfg shared g t1 t2 T) = mhp_compute cfg shared g T t1 t2"
    using assms(1) sym
    by (auto simp: mayHappenInParallel_def caches_ok_def cacheKey_def Let_def split: option.splits if_splits)
  show "threadH (snd (mayHappenInParallel cfg shared g t1 t2 T)) = threadH T"
    by (auto simp: mayHappenInParallel_def Let_def split: option.splits)
  have "caches_ok cfg shared g ?T'"
    using assms(1,2) sym unfolding caches_ok_def concurrent_heap[OF h assms(4)] mhp_compute_heap[OF h]
    by (auto simp: cacheKey_def split: if_splits)
  with assms(1) show "caches_ok cfg shared g (snd (mayHappenInParallel cfg shared g t1 t2 T))"
    by (auto simp: mayHappenInParallel_def Let_def split: option.splits)
qed

lemma caches_ok_insert:
  assumes "caches_ok cfg shared g T" "concurrent cfg shared g T t1 t2 = Some r" "sharing_sym shared" "tree_wf T"
  shows "caches_ok cfg shared g (T\<lparr>concurrencyCache := (concurrencyCache T)(cacheKey t1 t2 \<mapsto> r)\<rparr>)"
proof -
  let ?T' = "T\<lparr>concurrencyCache := (concurrencyCache T)(cacheKey t1 t2 \<mapsto> r)\<rparr>"
  have h: "threadH ?T' = threadH T" by simp
  have "concurrent cfg shared g T t2 t1 = Some r" using assms concurrent_sym by metis
  then show ?thesis
    using assms(1,2) unfolding caches_ok_def concurrent_heap[OF h assms(4)] mhp_compute_heap[OF h]
    by (auto simp: cacheKey_def split: if_splits)
qed

lemma mayThreadsRunConcurrently_cached:
  assumes wf: "tree_wf T" and sh: "sharing_sym shared"
  shows "caches_ok cfg shared g T' \<Longrightarrow> threadH T' = threadH T \<Longrightarrow>
     \<exists>b T''. mayThreadsRunConcurrently cfg shared g t1 t2 T' = Some (b, T'') \<and>
        concurrent cfg shared g T t1 t2 = Some b \<and> caches_ok cfg shared g T'' \<and> threadH T'' = threadH T"
proof -
  from wf obtain rank :: "ptr \<Rightarrow> nat"
    where r: "\<And>t. parent (thr T t) \<noteq> null \<Longrightarrow> rank (parent (thr T t)) < rank t"
    unfolding tree_wf_def by blast
  show "caches_ok cfg shared g T' \<Longrightarrow> threadH T' = threadH T \<Longrightarrow> ?thesis"
  proof (induction "rank t1" arbitrary: t1 t2 T' rule: less_induct)
    case (less t1 t2 T')
    have wf': "tree_wf T'" using wf less.prems(2) tree_wf_heap by blast
    note ceq = concurrent_heap[OF less.prems(2) wf]
    show ?case
    proof (cases "t1 = t2")
      case True
      then show ?thesis using less.prems
        by (subst mayThreadsRunConcurrently.simps, subst concurrent.simps) simp
    next
      case ne: False
      show ?thesis
      proof (cases "concurrencyCache T' (cacheKey t1 t2)")
        case (Some b)
        have "concurrent cfg shared g T t1 t2 = Some b"
          using Some less.prems(1) concurrent_sym[OF wf sh, of cfg g t1 t2] ceq
          unfolding caches_ok_def cacheKey_def by (metis (full_types))
        then show ?thesis using ne Some less.prems
          by (subst mayThreadsRunConcurrently.simps) simp
      next
        case None
        define res where "res =
           (if ancestorOf T t2 t1 \<or> ancestorOf T t1 t2 then Some (True, T')
            else if parent (thr T t1) = parent (thr T t2) then Some (mayHappenInParallel cfg shared g t1 t2 T')
            else if parent (thr T t1) \<noteq> null \<and> parent (thr T t2) \<noteq> null
              then mayThreadsRunConcurrently cfg shared g (parent (thr T t1)) (parent (thr T t2)) T'
            else Some (False, T'))"
        have eq: "mayThreadsRunConcurrently cfg shared g t1 t2 T' = Option.bind res (\<lambda>(result, T').
             Some (result, T'\<lparr>concurrencyCache := (concurrencyCache T')(cacheKey t1 t2 \<mapsto> result)\<rparr>))"
          using ne None unfolding res_def
          by (subst mayThreadsRunConcurrently.simps)
            (simp add: isDescendant_total[OF wf'] ancestorOf_heap[OF less.prems(2)] less.prems(2))
        have "\<exists>b T''. res = Some (b, T'') \<and> concurrent cfg shared g T t1 t2 = Some b \<and>
            caches_ok cfg shared g T'' \<and> threadH T'' = threadH T"
        proof (cases "\<not> (ancestorOf T t2 t1 \<or> ancestorOf T t1 t2) \<and> parent (thr T t1) \<noteq> parent (thr T t2) \<and>
            parent (thr T t1) \<noteq> null \<and> parent (thr T t2) \<noteq> null")
          case True
          then have "rank (parent (thr T t1)) < rank t1" using r by blast
          from less.hyps[OF this less.prems, of "parent (thr T t2)"] True ne show ?thesis
            by (simp add: res_def concurrent_step[OF wf, of cfg shared g t1 t2])
        next
          case False
          let ?m = "mayHappenInParallel cfg shared g t1 t2 T'"
          have "fst ?m = mhp_compute cfg shared g T t1 t2 \<and> caches_ok cfg shared g (snd ?m) \<and>
              threadH (snd ?m) = threadH T" if "parent (thr T t1) = parent (thr T t2)"
            using mayHappenInParallel_cached[OF less.prems(1) _ sh wf', of t1 t2] that less.prems(2)
            by (simp add: mhp_compute_heap[OF less.prems(2)])
          note fm = this
          have m: "\<exists>T''. ?m = (mhp_compute cfg shared g T t1 t2, T'') \<and> caches_ok cfg shared g T'' \<and>
              threadH T'' = threadH T" if "parent (thr T t1) = parent (thr T t2)"
            using fm[OF that] by (cases ?m) auto
          consider (anc) "ancestorOf T t2 t1 \<or> ancestorOf T t1 t2"
            | (sib) "\<not> (ancestorOf T t2 t1 \<or> ancestorOf T t1 t2)" "parent (thr T t1) = parent (thr T t2)"
            | (root) "\<not> (ancestorOf T t2 t1 \<or> ancestorOf T t1 t2)" "parent (thr T t1) \<noteq> parent (thr T t2)"
              "\<not> (parent (thr T t1) \<noteq> null \<and> parent (thr T t2) \<noteq> null)" using False by blast
          then show ?thesis
          proof cases
            case anc
            then have "res = Some (True, T')" "concurrent cfg shared g T t1 t2 = Some True"
              using ne by (simp_all add: res_def concurrent_step[OF wf, of cfg shared g t1 t2])
            with less.prems show ?thesis by blast
          next
            case sib
            then have "res = Some ?m" "concurrent cfg shared g T t1 t2 = Some (mhp_compute cfg shared g T t1 t2)"
              using ne by (simp_all add: res_def concurrent_step[OF wf, of cfg shared g t1 t2])
            with m[OF sib(2)] show ?thesis by auto
          next
            case root
            then have "res = Some (False, T')" "concurrent cfg shared g T t1 t2 = Some False"
              using ne by (auto simp: res_def concurrent_step[OF wf, of cfg shared g t1 t2])
            with less.prems show ?thesis by blast
          qed
        qed
        then obtain b T'' where res: "res = Some (b, T'')" "concurrent cfg shared g T t1 t2 = Some b"
            "caches_ok cfg shared g T''" "threadH T'' = threadH T" by blast
        have "caches_ok cfg shared g (T''\<lparr>concurrencyCache := (concurrencyCache T'')(cacheKey t1 t2 \<mapsto> b)\<rparr>)"
          by (rule caches_ok_insert[OF res(3) _ sh])
            (use res(2,4) concurrent_heap[OF res(4) wf] tree_wf_heap[OF res(4)] wf in auto)
        with eq res show ?thesis by simp
      qed
    qed
  qed
qed

subsection \<open>The call-path search\<close>

text \<open>Every queued path ends in a node of the function the search started in.\<close>

lemma callPath_scan_owner:
  assumes "callPath_scan g fns endF path ns q vis = r"
    "\<forall>n \<in> set ns. nd_function (nodeOf g n) = f" "\<forall>p \<in> set q. nd_function (nodeOf g (last p)) = f \<and> P p"
    "\<And>n. n \<in> set ns \<Longrightarrow> P (path @ [n])"
  shows "case r of Inl p \<Rightarrow> \<exists>n \<in> set ns. p = path @ [n] \<and> nd_callSite (nodeOf g n) \<and>
        (\<exists>e. hasCallEdge g n = Some e \<and> nd_function (nodeOf g (e_dst e)) = endF)
     | Inr (q', vis') \<Rightarrow> \<forall>p \<in> set q'. nd_function (nodeOf g (last p)) = f \<and> P p"
  using assms
proof (induction g fns endF path ns q vis arbitrary: r rule: callPath_scan.induct)
  case (2 g fns endF path n ns q vis)
  show ?case
  proof (cases "if nd_callSite (nodeOf g n) then hasCallEdge g n else None")
    case None
    with 2(1)[OF None, of r] 2(4-) show ?thesis by (fastforce split: sum.splits)
  next
    case (Some e)
    define callee where "callee = (if e_dst e = null then null else nd_function (nodeOf g (e_dst e)))"
    show ?thesis
    proof (cases "callee \<noteq> null \<and> callee \<in> set fns \<and> callee \<notin> vis")
      case True
      show ?thesis
      proof (cases "callee = endF")
        case e: True
        have "r = Inl (path @ [n])" using 2(4) Some True e by (simp add: callee_def[symmetric] Let_def)
        moreover have "nd_callSite (nodeOf g n)" "hasCallEdge g n = Some e" using Some by (auto split: if_splits)
        moreover have "nd_function (nodeOf g (e_dst e)) = endF" using e True by (auto simp: callee_def split: if_splits)
        ultimately show ?thesis by auto
      next
        case False
        have "callPath_scan g fns endF path ns (q @ [path @ [n]]) (insert callee vis) = r"
          using 2(4) Some True False by (simp add: callee_def[symmetric] Let_def)
        from 2(2)[OF Some callee_def True False this] 2(5-) show ?thesis by (fastforce split: sum.splits)
      qed
    next
      case False
      have "callPath_scan g fns endF path ns q vis = r"
        using 2(4) Some False by (simp add: callee_def[symmetric] Let_def del: de_Morgan_conj)
      from 2(3)[OF Some callee_def False this] 2(5-) show ?thesis by (fastforce split: sum.splits)
    qed
  qed
qed auto

lemma callPath_loop_direct:
  "\<forall>n \<in> set (fn_nodes (funH g f)). nd_function (nodeOf g n) = f \<Longrightarrow>
     \<forall>p \<in> set q. nd_function (nodeOf g (last p)) = f \<Longrightarrow> callPath_loop g fns endF q vis \<noteq> [] \<Longrightarrow>
     \<exists>n \<in> set (fn_nodes (funH g f)). nd_callSite (nodeOf g n) \<and>
        (\<exists>e. hasCallEdge g n = Some e \<and> nd_function (nodeOf g (e_dst e)) = endF)"
proof (induction g fns endF q vis rule: callPath_loop.induct)
  case (2 g fns endF path q vis)
  have lf: "nd_function (nodeOf g (last path)) = f" using 2 by simp
  show ?case
  proof (cases "f = null")
    case True
    with 2(1)[OF lf[symmetric]] 2 lf show ?thesis by simp
  next
    case False
    let ?r = "callPath_scan g fns endF path (fn_nodes (funH g f)) q vis"
    have own: "case ?r of Inl p \<Rightarrow> \<exists>n \<in> set (fn_nodes (funH g f)). p = path @ [n] \<and> nd_callSite (nodeOf g n) \<and>
        (\<exists>e. hasCallEdge g n = Some e \<and> nd_function (nodeOf g (e_dst e)) = endF)
     | Inr (q', vis') \<Rightarrow> \<forall>p \<in> set q'. nd_function (nodeOf g (last p)) = f \<and> True"
      by (rule callPath_scan_owner[OF refl, where P = "\<lambda>_. True"]) (use 2(3,4) in auto)
    show ?thesis
    proof (cases ?r)
      case (Inl p) with own show ?thesis by auto
    next
      case (Inr x)
      obtain q' vis' where x: "x = (q', vis')" by (cases x)
      have "callPath_loop g fns endF (path # q) vis = callPath_loop g fns endF q' vis'"
        using lf False Inr x by (simp add: Let_def)
      moreover have "\<forall>p \<in> set q'. nd_function (nodeOf g (last p)) = f" using own Inr x by simp
      ultimately show ?thesis using 2(2)[OF lf[symmetric] False Inr x[symmetric]] 2(3,5) by metis
    qed
  qed
qed simp

lemma findCallPath_direct:
  assumes "\<forall>n \<in> set (fn_nodes (funH g f)). nd_function (nodeOf g n) = f"
    and "nd_function (nodeOf g (fn_funcNode (funH g f))) = f"
    and "f \<noteq> endF" "findCallPath g T f endF t \<noteq> []"
  shows "\<exists>n \<in> set (fn_nodes (funH g f)). nd_callSite (nodeOf g n) \<and>
     (\<exists>e. hasCallEdge g n = Some e \<and> nd_function (nodeOf g (e_dst e)) = endF)"
proof (rule callPath_loop_direct[OF assms(1)])
  show "\<forall>p \<in> set [[fn_funcNode (funH g f)]]. nd_function (nodeOf g (last p)) = f" using assms(2) by simp
  show "callPath_loop g (th_functions (thr T t)) endF [[fn_funcNode (funH g f)]] {f} \<noteq> []"
    using assms(3,4) unfolding findCallPath_def by (simp del: callPath_loop.simps)
qed

end
