(* ===== verification/GraphProps.thy ===== *)
theory GraphProps
  imports HbExact ThreadFacts Samples
begin

text \<open>
  The properties of the static model underneath the checkers: the API table, the
  entry configuration, the thread tree's parallelism queries, the lockset analysis
  and the happens-before graph, each with a witness where it has hypotheses.
\<close>

subsection \<open>Closed inputs\<close>

definition edgeGraph :: hbgraph where
  "edgeGraph = hb_addEdge 2 3 LOCK_RELEASE_ACQUIRE ''lock1'' (hb_addEdge 1 2 PROGRAM_ORDER ''cfg'' hb_clear)"

lemma sampleTree_wf: "tree_wf sampleTree"
  unfolding tree_wf_def
  by (rule exI[of _ "\<lambda>t. if t = 1 then 0 else 1"]) (simp add: sampleTree_def sampleThread_def)

lemma sampleTree_caches: "caches_ok cfg shared g sampleTree"
  by (simp add: caches_ok_def sampleTree_def)

definition edgeChain :: "hb_edge list" where
  "edgeChain = [mkEdge 1 2 PROGRAM_ORDER ''cfg'', mkEdge 2 3 LOCK_RELEASE_ACQUIRE ''lock1'']"

lemma edgeGraph_chain:
  "hb_chain edgeGraph 1 edgeChain 3" "length edgeChain = 2"
  "\<exists>e \<in> set edgeChain. isSyncEdge (h_kind e) StructuralOnly"
  by (simp_all add: edgeGraph_def edgeChain_def hb_addEdge_def hb_clear_def mkEdge_def Let_def)

subsection \<open>The happens-before graph\<close>

text \<open>C9. The reachability query is exactly the existence of a chain of recorded edges
  within the depth bound, with a synchronization edge of the policy on it when one is
  required; equal nodes are reachable only when none is required.\<close>

theorem hbReachable_exact:
  assumes "n1 \<noteq> null" "n2 \<noteq> null"
  shows "hbReachable env h n1 n2 d req p \<longleftrightarrow>
     (if n1 = n2 then \<not> req
      else \<exists>es. hb_chain h n1 es n2 \<and> int (length es) \<le> envInt env ''HB_MAX_DEPTH'' d \<and>
             (req \<longrightarrow> (\<exists>e \<in> set es. isSyncEdge (h_kind e) p)))"
  using assms unfolding hbReachable_chain by blast

theorem hbReachable_exact_witness: "hbReachable noEnv edgeGraph 1 3 64 True StructuralOnly"
  by (subst hbReachable_exact, simp_all add: envInt_def noEnv_def,
      intro exI[of _ edgeChain], use edgeGraph_chain in simp)

text \<open>An order accepted under the structural policy rests on a lock, fork or join edge
  and is accepted under the full policy too.\<close>

theorem structural_order:
  assumes "hbReachable env h n1 n2 d True StructuralOnly"
  shows "hbReachable env h n1 n2 d True AllMechanisms \<and>
     (\<exists>es. hb_chain h n1 es n2 \<and>
        (\<exists>e \<in> set es. h_kind e \<in> {LOCK_RELEASE_ACQUIRE, FORK_TO_ENTRY, JOIN_FROM_EXIT}))"
proof -
  have k: "isSyncEdge k StructuralOnly \<Longrightarrow> k \<in> {LOCK_RELEASE_ACQUIRE, FORK_TO_ENTRY, JOIN_FROM_EXIT}" for k
    by (cases k) auto
  have "\<exists>es. hb_chain h n1 es n2 \<and> (\<exists>e \<in> set es. isSyncEdge (h_kind e) StructuralOnly)"
    using assms unfolding hbReachable_chain by (auto split: if_splits)
  with k hbReachable_policy[OF assms] show ?thesis by blast
qed

theorem structural_order_witness: "hbReachable noEnv edgeGraph 1 3 64 True AllMechanisms"
proof -
  have "hbReachable noEnv edgeGraph 1 3 64 True StructuralOnly"
    by (simp add: hbReachable_chain envInt_def noEnv_def, intro exI[of _ edgeChain], use edgeGraph_chain in simp)
  then show ?thesis by (rule structural_order[THEN conjunct1])
qed

text \<open>
  C10. The happens-before graph has exactly the edges it is licensed to have, each under its own
  kind.  Program order, calls and forks are the order, call and thread-creation edges of the code
  graph.  A lock edge joins a release and an acquisition of one alias class in two concurrent
  threads.  A join edge leads from an exit of a thread to a successor of its join site, a completion
  edge from a signal to a successor of a wait on an aliased object, and a registration edge from a
  call of a registration function to the entry node of a thread whose main function that call
  names.  An RCU edge leads from a read-side unlock to a synchronize call of the same family, for
  SRCU on the same domain, in another thread that may run at the same time or in none.  All of them are there, the RCU edges as
  long as the pairs to look at stay below the configured cap.
\<close>

theorem hb_build_provenance:
  "let G = hb_edges (hb_build env L lockAlias alias fams g S T conc) in
    if h_kind e = RCU_SYNC
    then (e \<in> G \<longrightarrow> rcuLicence L fams g T conc e) \<and>
      (int (rcuWork fams g T) < envInt env ''HB_RCU_MAX_EDGES'' 4000 \<longrightarrow> rcuLicence L fams g T conc e \<longrightarrow> e \<in> G)
    else e \<in> G \<longleftrightarrow> h_src e \<noteq> null \<and> h_dst e \<noteq> null \<and> (case h_kind e of
       PROGRAM_ORDER \<Rightarrow> codeLicence g ORDER e \<and> h_evidence e = ''cfg''
     | CALL_RETURN \<Rightarrow> codeLicence g CALL e \<and> h_evidence e = ''call''
     | FORK_TO_ENTRY \<Rightarrow> codeLicence g HB e \<and> h_evidence e = ''fork''
     | LOCK_RELEASE_ACQUIRE \<Rightarrow> (\<exists>cls \<in> set (lockClasses lockAlias S). \<exists>lr \<in> set cls. \<exists>la \<in> set cls.
          lockPair S T conc lr la \<and> e = lockEdge S lr la)
     | JOIN_FROM_EXIT \<Rightarrow> h_evidence e = ''join'' \<and> (\<exists>t \<in> set (threads T). joinNode (thr T t) \<noteq> null \<and>
          h_src e \<in> set (threadExits g T t) \<and> h_dst e \<in> set (orderTargets g (joinNode (thr T t))))
     | COMPLETION \<Rightarrow> h_evidence e = ''complete->after_wait'' \<and> h_src e \<in> set (getNodesByType g COND_SIGNAL) \<and>
          (\<exists>w \<in> set (getNodesByType g COND_WAIT). completionAlias alias g (h_src e) w \<and> h_dst e \<in> set (orderTargets g w))
     | LIFECYCLE_FLAG \<Rightarrow> h_src e \<in> set (graphNodes g) \<and> registers L g T e
     | _ \<Rightarrow> False)"
  using hb_build_exact[of e env L lockAlias "alias" fams g S T conc] hb_build_rcu(1)[of e env L lockAlias "alias" fams g S T conc]
    hb_build_rcu(2)[of e fams g T env L conc lockAlias "alias" S]
  unfolding licence_def Let_def by simp

definition callOnly :: ccpg where
  "callOnly = sampleCcpg\<lparr>g_nodes := [], g_edges := [\<lparr>e_src = 1, e_dst = 2, e_type = CALL\<rparr>]\<rparr>"

theorem hb_build_provenance_witness:
  "mkEdge 1 2 CALL_RETURN ''call'' \<in> hb_edges (hb_build noEnv plainLlvm (=) (=) [] callOnly (emptyLsa id) sampleTree (\<lambda>_ _. True)) \<and>
   mkEdge 1 2 FORK_TO_ENTRY ''fork'' \<notin> hb_edges (hb_build noEnv plainLlvm (=) (=) [] callOnly (emptyLsa id) sampleTree (\<lambda>_ _. True))"
  using hb_build_provenance[of noEnv plainLlvm "(=)" "(=)" "[]" callOnly "emptyLsa id" sampleTree "\<lambda>_ _. True" "mkEdge 1 2 CALL_RETURN ''call''"]
    hb_build_provenance[of noEnv plainLlvm "(=)" "(=)" "[]" callOnly "emptyLsa id" sampleTree "\<lambda>_ _. True" "mkEdge 1 2 FORK_TO_ENTRY ''fork''"]
  by (simp add: Let_def mkEdge_def) (simp add: codeLicence_def callOnly_def)

text \<open>The path classification returns the edge kinds of a shortest chain within the
  bound, or nothing when there is no chain.\<close>

theorem classifyPath_exact:
  assumes "n1 \<noteq> null" "n2 \<noteq> null" "n1 \<noteq> n2"
  shows "case classifyPath env h n1 n2 of
     [] \<Rightarrow> \<not> (\<exists>es. hb_chain h n1 es n2 \<and> int (length es) \<le> envInt env ''HB_MAX_DEPTH'' 16)
   | k # ks \<Rightarrow> (\<exists>es. hb_chain h n1 es n2 \<and> map h_kind es = k # ks \<and>
        int (length es) \<le> envInt env ''HB_MAX_DEPTH'' 16 \<and>
        (\<forall>es'. hb_chain h n1 es' n2 \<longrightarrow> length es \<le> length es'))"
  using assms by (rule classifyPath_shortest)

theorem classifyPath_exact_witness: "\<exists>k ks. classifyPath noEnv edgeGraph 1 3 = k # ks"
proof -
  have "\<exists>es. hb_chain edgeGraph 1 es 3 \<and> int (length es) \<le> envInt noEnv ''HB_MAX_DEPTH'' 16"
    by (intro exI[of _ edgeChain]) (use edgeGraph_chain in \<open>simp add: envInt_def noEnv_def\<close>)
  with classifyPath_exact[of 1 3 edgeGraph noEnv] show ?thesis
    by (cases "classifyPath noEnv edgeGraph 1 3") simp_all
qed

text \<open>The RCU pass adds at most as many edges as the configured cap, whatever the
  numbers of synchronize and unlock sites.\<close>

theorem rcu_edges_capped:
  assumes "finite (hb_edges h)"
  shows "card (hb_edges (buildRCUEdges env L fams g T conc h)) \<le>
     card (hb_edges h) + nat (envInt env ''HB_RCU_MAX_EDGES'' 4000)"
  using assms by (rule rcu_bound)

theorem rcu_edges_capped_witness:
  "card (hb_edges (buildRCUEdges noEnv plainLlvm [Vanilla] sampleCcpg sampleTree (\<lambda>_ _. True) hb_clear)) \<le> 4000"
  using rcu_edges_capped[of hb_clear noEnv plainLlvm "[Vanilla]" sampleCcpg sampleTree "\<lambda>_ _. True"]
  by (simp add: envInt_def noEnv_def)

subsection \<open>The thread tree\<close>

text \<open>C7. The concurrency query of two threads always answers when the parents form a tree:
  its answer is that of the query without caches, the swapped query asked afterwards gives
  the same answer, and the caches stay sound for every later query.\<close>

theorem concurrency_query:
  assumes "tree_wf T" "sharing_sym shared" "caches_ok cfg shared g T"
  shows "\<exists>b T' T''. mayThreadsRunConcurrently cfg shared g t1 t2 T = Some (b, T') \<and>
     mayThreadsRunConcurrently cfg shared g t2 t1 T' = Some (b, T'') \<and>
     concurrent cfg shared g T t1 t2 = Some b \<and> caches_ok cfg shared g T''"
proof -
  obtain b T' where 1: "mayThreadsRunConcurrently cfg shared g t1 t2 T = Some (b, T')"
    "concurrent cfg shared g T t1 t2 = Some b" "caches_ok cfg shared g T'" "threadH T' = threadH T"
    using mayThreadsRunConcurrently_cached[OF assms(1,2,3) refl, of t1 t2] by blast
  obtain b' T'' where "mayThreadsRunConcurrently cfg shared g t2 t1 T' = Some (b', T'')"
    "concurrent cfg shared g T t2 t1 = Some b'" "caches_ok cfg shared g T''"
    using mayThreadsRunConcurrently_cached[OF assms(1,2) 1(3,4), of t2 t1] by blast
  with 1 concurrent_sym[OF assms(1,2)] show ?thesis by fastforce
qed

theorem concurrency_query_witness:
  "\<exists>b T' T''. mayThreadsRunConcurrently noConfig None sampleCcpg 2 3 sampleTree = Some (b, T') \<and>
     mayThreadsRunConcurrently noConfig None sampleCcpg 3 2 T' = Some (b, T'')"
  using concurrency_query[OF sampleTree_wf _ sampleTree_caches, of None noConfig sampleCcpg 2 3]
  by (auto simp: sharing_sym_def)

text \<open>Two threads forked by the same parent may run in parallel exactly when neither is
  joined before the other is forked: no path inside the parent leads from one's join to the
  other's fork.\<close>

theorem siblings_parallel:
  fixes g
  assumes "parent (thr T t1) = p" "p \<noteq> null" "forkNode (thr T t1) \<noteq> null" "forkNode (thr T t2) \<noteq> null"
  defines "leads \<equiv> \<lambda>a b. a = b \<or>
     (\<exists>u. (inside (succs g) (th_nodes (thr T p)))\<^sup>*\<^sup>* a u \<and> b \<in> set (succs g u))"
  shows "mhp_compute cfg shared g T t1 t2 \<longleftrightarrow>
     \<not> (joinNode (thr T t1) \<noteq> null \<and> leads (joinNode (thr T t1)) (forkNode (thr T t2))) \<and>
     \<not> (joinNode (thr T t2) \<noteq> null \<and> leads (joinNode (thr T t2)) (forkNode (thr T t1)))"
  using assms(1-4) isReachable_iff[of "joinNode (thr T t1)" "forkNode (thr T t2)" p g T]
    isReachable_iff[of "joinNode (thr T t2)" "forkNode (thr T t1)" p g T]
  unfolding mhp_compute_def leads_def Let_def by auto

theorem siblings_parallel_witness: "mhp_compute noConfig None sampleCcpg sampleTree 2 3"
  by (subst siblings_parallel[of _ _ 1]) (simp_all add: sampleTree_def sampleThread_def)

text \<open>The call-path search inside a thread never finds more than a direct call: when it
  answers between two different functions, the first function has a call site whose call
  edge leads into the second.\<close>

theorem call_path_is_direct:
  assumes "\<forall>n \<in> set (fn_nodes (funH g f)). nd_function (nodeOf g n) = f"
    and "nd_function (nodeOf g (fn_funcNode (funH g f))) = f"
    and "f \<noteq> endF" "findCallPath g T f endF t \<noteq> []"
  shows "\<exists>n \<in> set (fn_nodes (funH g f)). nd_callSite (nodeOf g n) \<and>
     (\<exists>e. hasCallEdge g n = Some e \<and> nd_function (nodeOf g (e_dst e)) = endF)"
  using assms by (rule findCallPath_direct)

definition callGraph :: ccpg where
  "callGraph = sampleCcpg\<lparr>
     nodeH := (\<lambda>i. if i = 1 then (sampleNode 1)\<lparr>nd_function := 1, nd_callSite := True,
         nd_out := [\<lparr>e_src = 1, e_dst = 2, e_type = CALL\<rparr>]\<rparr>
       else (sampleNode i)\<lparr>nd_function := i\<rparr>),
     funH := (\<lambda>f. sampleFunc\<lparr>fn_nodes := [f], fn_funcNode := f\<rparr>)\<rparr>"

theorem call_path_is_direct_witness:
  "findCallPath callGraph (sampleTree\<lparr>threadH := (\<lambda>_. (sampleThread 1)\<lparr>th_functions := [1, 2]\<rparr>)\<rparr>) 1 2 1 \<noteq> [] \<and>
   (\<exists>n \<in> set (fn_nodes (funH callGraph 1)). nd_callSite (nodeOf callGraph n))"
proof -
  let ?T = "sampleTree\<lparr>threadH := (\<lambda>_. (sampleThread 1)\<lparr>th_functions := [1, 2]\<rparr>)\<rparr>"
  have p: "findCallPath callGraph ?T 1 2 1 \<noteq> []"
    by (simp add: findCallPath_def callGraph_def hasCallEdge_def sampleFunc_def)
  from call_path_is_direct[OF _ _ _ this] have "\<exists>n \<in> set (fn_nodes (funH callGraph 1)). nd_callSite (nodeOf callGraph n)"
    by (simp add: callGraph_def sampleFunc_def)
  with p show ?thesis by blast
qed

subsection \<open>Locksets\<close>

text \<open>C8. The lockset propagation ends on every graph, within as many rounds as there are
  nodes, and in its result every lock of every node was created at an acquire node and, if
  released, released at a release node.\<close>

theorem lockset_build:
  assumes "finite U" "\<forall>n \<in> U. orderSuccs g n \<subseteq> U" "\<forall>f \<in> set (g_functions g). fn_funcNode (funH g f) \<in> U"
    and "indexed g" "inj addr"
  shows "\<exists>S. ls_build (card U) alias g (emptyLsa addr) = Some S \<and>
     (\<forall>n. \<forall>l \<in> set (nodeLockSets S n). l \<in> set (locks S) \<and> nd_type (nodeOf g (getAcquire (lockOf S l))) = ACQUIRE \<and>
        (hasRelease (lockOf S l) \<longrightarrow> nd_type (nodeOf g (getRelease (lockOf S l))) = RELEASE))"
proof -
  obtain S where S: "ls_build (card U) alias g (emptyLsa addr) = Some S"
    using ls_build_total[OF assms(1-3) order_refl] by blast
  have "lsa_inv g S" using lsa_inv_build[OF S lsa_inv_empty[OF assms(5)] assms(4)] .
  then have "l \<in> set (locks S) \<and> nd_type (nodeOf g (getAcquire (lockOf S l))) = ACQUIRE \<and>
      (hasRelease (lockOf S l) \<longrightarrow> nd_type (nodeOf g (getRelease (lockOf S l))) = RELEASE)"
    if "l \<in> set (nodeLockSets S n)" for n l
    using that unfolding lsa_inv_def getAcquire_def getRelease_def getRelatedNode_def hasRelease_def
    by fastforce
  with S show ?thesis by blast
qed

definition lockGraph :: ccpg where
  "lockGraph = sampleCcpg\<lparr>g_functions := [1], funH := (\<lambda>f. sampleFunc\<lparr>fn_funcNode := 1\<rparr>),
     nodeH := (\<lambda>i. (sampleNode i)\<lparr>nd_type := (if i = 1 then ACQUIRE else DUMMY),
        nd_out := (if i = 1 then [\<lparr>e_src = 1, e_dst = 2, e_type = ORDER\<rparr>] else [])\<rparr>)\<rparr>"

theorem lockset_build_witness:
  "\<exists>S. ls_build 2 (=) lockGraph (emptyLsa id) = Some S \<and>
     (\<forall>l \<in> set (nodeLockSets S 2). nd_type (nodeOf lockGraph (getAcquire (lockOf S l))) = ACQUIRE)"
proof -
  have "indexed lockGraph" by (simp add: indexed_def lockGraph_def sampleFunc_def)
  moreover have "\<forall>n \<in> {1, 2}. orderSuccs lockGraph n \<subseteq> {1, 2}" by (auto simp: orderSuccs_def lockGraph_def)
  moreover have "\<forall>f \<in> set (g_functions lockGraph). fn_funcNode (funH lockGraph f) \<in> {1, 2}"
    by (simp add: lockGraph_def)
  ultimately show ?thesis using lockset_build[of "{1, 2}" lockGraph id "(=)"] by (auto simp: card_insert_if numeral_2_eq_2)
qed

text \<open>C34. With aliasing an equivalence, the deadlock query answers true exactly when two
  locks that do not alias are taken in the SAME order by both contexts; two contexts that
  take them in opposite orders are not reported.\<close>

theorem deadlock_same_order:
  assumes "equivp alias"
  shows "deadLock_sets alias S ls1 ls2 \<longleftrightarrow>
     (\<exists>a b. \<not> alias a b \<and> takenBefore alias S ls1 a b \<and> takenBefore alias S ls2 a b)"
  using assms by (rule deadLock_sets_same_order)

definition twoLocks :: lsa where
  "twoLocks = (emptyLsa id)\<lparr>lockH := (\<lambda>l. \<lparr>lk_id = l, typeToNode = [ACQUIRE \<mapsto> l + 10]\<rparr>)\<rparr>"

theorem deadlock_same_order_witness:
  "\<not> deadLock_sets (=) twoLocks [1, 2] [2, 1] \<and> deadLock_sets (=) twoLocks [1, 2] [1, 2]"
proof -
  have acq: "acq twoLocks l = l + 10" for l by (simp add: twoLocks_def getAcquire_def getRelatedNode_def)
  have two: "takenBefore (=) twoLocks [x, y] a b \<longleftrightarrow> a = x + 10 \<and> b = y + 10" for x y a b
    unfolding takenBefore_def acq by (auto simp: less_Suc_eq)
  show ?thesis unfolding deadlock_same_order[OF identity_equivp] two by simp
qed

subsection \<open>Names and entries\<close>

text \<open>No name is at once a lock, an unlock and a try-lock wrapper, so a call site is
  classified as an acquire, a release or a try-acquire, never as two of them by name.\<close>

theorem wrapper_classes_disjoint:
  "\<not> (isLockWrapperByName s \<and> isUnlockWrapperByName s) \<and>
   \<not> (isLockWrapperByName s \<and> isTryLockWrapperByName s) \<and>
   \<not> (isUnlockWrapperByName s \<and> isTryLockWrapperByName s)"
  using wrapper_names_disjoint by blast

text \<open>A call whose name the API table lists gets the type of the table, for every type
  the classification consults, unless it is an assignment or a detach.\<close>

theorem api_table_decides:
  assumes "getType_cpg n = ''Call''" "threadAPIMap u (getName n) = Some t"
    and "t \<in> {ACQUIRE, TRY_ACQUIRE, RELEASE, FORK, JOIN, EXIT, CANCEL, COND_WAIT, COND_SIGNAL,
      COND_BROADCAST, CONDVAR_INI, CONDVAR_DESTROY, MUTEX_INI, MUTEX_DESTROY, BAR_INIT, BAR_WAIT,
      HARE_PAR_FOR}"
    and "\<not> isAssignment n" "getName n \<noteq> ''pthread_detach''"
  shows "getType u n = t"
  using assms by (rule getType_api_table)

theorem api_table_decides_witness:
  "getType \<lparr>threadAPIMap = [''spin_lock'' \<mapsto> ACQUIRE], entryArgIndexMap = Map.empty\<rparr>
     (mkNode ''CALL'' [''NAME'' \<mapsto> ''spin_lock''] 0) = ACQUIRE"
  by (rule api_table_decides)
    (simp_all add: mkNode_def getType_cpg_def getName_def getProperty_def isAssignment_def
      toLower_def lower_code startsWith_code)

text \<open>C36. Decorating an entry with a known system-call prefix does not change its core
  name, so an entry configured by its plain name is found under every decorated symbol.\<close>

theorem decorated_entry_matches:
  assumes "p \<in> set kPrefixes" "lastNs (takeWhile (\<lambda>c. c \<noteq> CHR ''('') s) = None" "coreStart s \<noteq> []"
  shows "normalizeCore (p @ s) = normalizeCore s \<and> (s \<noteq> [] \<longrightarrow> matches c (p @ s) = matches c s)"
  using normalizeCore_decorated[OF assms] by (simp add: matches_def)

theorem decorated_entry_matches_witness:
  "normalizeCore (''__x64_sys_'' @ ''ioctl'') = normalizeCore ''ioctl''"
proof -
  have "''__x64_sys_'' \<in> set kPrefixes" by (simp add: kPrefixes_def)
  moreover have "lastNs (takeWhile (\<lambda>c. c \<noteq> CHR ''('') ''ioctl'') = None" by code_simp
  moreover have "coreStart ''ioctl'' \<noteq> []" by (simp add: coreStart_def)
  ultimately show ?thesis by (rule decorated_entry_matches[THEN conjunct1])
qed

end
