(* ===== verification/PhaseB.thy ===== *)
theory PhaseB
  imports Contract ThreadTree "HOL-Library.Product_Lexorder"
begin

text \<open>
  Phase B, the deterministic requirement-discharge composition over the objects of
  one session (src/LLMUtil/AgentManager.cpp): the clause that covers an object, the
  strength of a stated mechanism, the discharge tests, the hazard tiers, the merge of
  candidates with one mutating anchor, and the capped selection handed to review.
  Pointers into an object's access vector are indices into its access list; the
  environment is the argument \<open>env\<close>, the manual-entry configuration
  \<open>cfg\<close> and the data-sharing query \<open>shared\<close>.
\<close>

subsection \<open>Switches and strings\<close>

definition upper :: "char \<Rightarrow> char" where
  "upper c = (let n = (of_char c :: nat) in if 97 \<le> n \<and> n \<le> 122 then char_of (n - 32) else c)"

lemma upper_code [code]:
  "upper (Char b0 b1 b2 b3 b4 b5 b6 b7) =
     (if \<not> b7 \<and> b6 \<and> b5 \<and> (b0 \<or> b1 \<or> b2 \<or> b3 \<or> b4) \<and> \<not> (b4 \<and> b3 \<and> (b2 \<or> b1 \<and> b0))
      then Char b0 b1 b2 b3 b4 False b6 b7 else Char b0 b1 b2 b3 b4 b5 b6 b7)"
  by (cases b0; cases b1; cases b2; cases b3; cases b4; cases b5; cases b6; cases b7)
    (simp_all add: upper_def Let_def char_of_def bit_0)

definition relUpper :: "string \<Rightarrow> string" where
  "relUpper s = map upper s"

definition envFlag :: "(string \<Rightarrow> string option) \<Rightarrow> string \<Rightarrow> bool" where
  "envFlag env key = (case env key of Some (c # cs) \<Rightarrow> c \<noteq> CHR ''0'' | _ \<Rightarrow> False)"

definition allowFuzzyContractBinding :: "(string \<Rightarrow> string option) \<Rightarrow> bool" where
  "allowFuzzyContractBinding env = envFlag env ''LACE_ALLOW_FUZZY_CONTRACT_BINDING''"

definition trustHardNonLockDischarge :: "(string \<Rightarrow> string option) \<Rightarrow> bool" where
  "trustHardNonLockDischarge env = envFlag env ''LACE_TRUST_HARD_NONLOCK_DISCHARGE''"

definition skipPhaseCEnabled :: "(string \<Rightarrow> string option) \<Rightarrow> bool" where
  "skipPhaseCEnabled env = envFlag env ''LACE_SKIP_PHASE_C''"

definition noDeterministicDischargeEnabled :: "(string \<Rightarrow> string option) \<Rightarrow> bool" where
  "noDeterministicDischargeEnabled env = envFlag env ''LACE_NO_DETERMINISTIC_DISCHARGE''"

definition contractL2Enabled :: "(string \<Rightarrow> string option) \<Rightarrow> bool" where
  "contractL2Enabled env = envFlag env ''LACE_CONTRACT_L2''"

definition keepLockedNullHazardsEnabled :: "(string \<Rightarrow> string option) \<Rightarrow> bool" where
  "keepLockedNullHazardsEnabled env = envFlag env ''LACE_KEEP_LOCKED_NULL_HAZARDS''"

text \<open>\<open>strtol\<close> on a whole string: the value when nothing is left over.\<close>

definition strtolAll :: "string \<Rightarrow> int option" where
  "strtolAll s =
     (let t = dropWhile isSpace s;
          u = (if t \<noteq> [] \<and> (hd t = CHR ''-'' \<or> hd t = CHR ''+'') then tl t else t);
          v = digitsVal u
      in if u \<noteq> [] \<and> list_all isDigit u
         then Some (if t \<noteq> [] \<and> hd t = CHR ''-'' then - v else v) else None)"

definition envLimit :: "(string \<Rightarrow> string option) \<Rightarrow> string \<Rightarrow> int \<Rightarrow> int" where
  "envLimit env name fallback =
     (case env name of
        None \<Rightarrow> fallback
      | Some e \<Rightarrow> (case strtolAll e of
          Some v \<Rightarrow> if 0 \<le> v \<and> v \<le> 1000 then v else fallback
        | None \<Rightarrow> fallback))"

definition contractParallelism :: "(string \<Rightarrow> string option) \<Rightarrow> int" where
  "contractParallelism env = max 1 (envLimit env ''LACE_CONTRACT_PARALLELISM'' 4)"

definition isWs :: "char \<Rightarrow> bool" where
  "isWs c = (let n = (of_char c :: nat) in n = 10 \<or> n = 13 \<or> n = 9 \<or> n = 32)"

fun collapseWs :: "bool \<Rightarrow> string \<Rightarrow> string" where
  "collapseWs prevSpace [] = []"
| "collapseWs prevSpace (c # s) =
     (if isWs c then (if prevSpace then collapseWs True s else CHR '' '' # collapseWs True s)
      else c # collapseWs False s)"

definition oneLine :: "string \<Rightarrow> nat \<Rightarrow> string" where
  "oneLine s maxLen =
     (let t = rev (dropWhile (\<lambda>c. c = CHR '' '') (rev (collapseWs False s)))
      in if length t > maxLen then take maxLen t @ '' ...'' else t)"

subsection \<open>Clauses\<close>

definition clauseForObject :: "(string \<Rightarrow> string option) \<Rightarrow> contract \<Rightarrow> int \<Rightarrow> shared_object \<Rightarrow> order_clause option" where
  "clauseForObject env k oi ob =
     (case List.find (\<lambda>cl. oi \<in> set (cl_objectIds cl) \<or> cl_objectId cl = oi) (clauses k) of
        Some cl \<Rightarrow> Some cl
      | None \<Rightarrow>
          if allowFuzzyContractBinding env \<and> length (so_name ob) > 2 then
            List.find (\<lambda>cl. \<not> (cl_objectId cl \<ge> 0 \<or> cl_objectIds cl \<noteq> [] \<or> cl_resource cl = []) \<and>
              (contains (cl_resource cl) (so_name ob) \<or> contains (so_name ob) (cl_resource cl))) (clauses k)
          else None)"

definition assumeAnchoredToObject :: "order_clause option \<Rightarrow> int \<Rightarrow> bool" where
  "assumeAnchoredToObject cl oi =
     (case cl of None \<Rightarrow> False
      | Some c \<Rightarrow> if cl_objectId c = oi then True
                  else cl_objectId c < 0 \<and> length (cl_objectIds c) = 1 \<and> hd (cl_objectIds c) = oi)"

definition hasAssumeRel :: "order_clause option \<Rightarrow> string \<Rightarrow> bool" where
  "hasAssumeRel cl rel =
     (case cl of None \<Rightarrow> False
      | Some c \<Rightarrow> list_ex (\<lambda>a. relUpper (or_relation a) = relUpper rel) (cl_assume c))"

definition hasAnyAssume :: "order_clause option \<Rightarrow> bool" where
  "hasAnyAssume cl = (case cl of None \<Rightarrow> False | Some c \<Rightarrow> cl_assume c \<noteq> [])"

definition establishesOrder :: "order_clause option \<Rightarrow> bool" where
  "establishesOrder cl =
     (case cl of None \<Rightarrow> False
      | Some c \<Rightarrow> list_ex (\<lambda>g. relUpper (pv_relation g) \<in>
          {''ORDER'', ''EXCLUDE'', ''LINEARIZE'', ''WAIT'', ''SERIALIZE'', ''COUNTS''}) (cl_guarantee c))"

datatype mech_class = MechNone | MechSoft | MechHard

definition hardOrderWords :: "string list" where
  "hardOrderWords = [''rcu'', ''synchronize'', ''call_rcu'', ''kfree_rcu'', ''barrier'', ''smp_'',
     ''store_release'', ''load_acquire'', ''acquire'', ''release'', ''flush_work'', ''flush_workqueue'',
     ''cancel_work'', ''cancel_delayed_work'', ''kthread_stop'', ''wait_for_completion'',
     ''del_timer_sync'', ''timer_delete_sync'', ''napi_disable'', ''drain'', ''join'', ''quiesce'',
     ''grace'', ''active_callbacks'', ''callbacks_empty'', ''readers_empty'', ''active_holders'',
     ''holders==0'', ''cmpxchg'', ''xchg'', ''refcount'', ''kref'']"

definition linearizeWords :: "string list" where
  "linearizeWords = [''refcount'', ''kref'', ''counts'', ''cmpxchg'', ''xchg'', ''atomic'', ''admission'', ''close'']"

definition mechanismClass :: "sync_prov \<Rightarrow> mech_class" where
  "mechanismClass g =
     (let d = toLower (pv_relation g @ '' '' @ pv_detail g); rel = relUpper (pv_relation g) in
      if rel = ''COUNTS'' then MechHard
      else if rel = ''EXCLUDE'' \<or> rel = ''SERIALIZE'' then
        (if contains d ''flag'' \<or> contains d ''state bit'' \<or> contains d ''bool'' then MechSoft else MechHard)
      else if rel = ''ORDER'' \<or> rel = ''WAIT'' then
        (if list_ex (contains d) hardOrderWords then MechHard else MechSoft)
      else if rel = ''LINEARIZE'' then
        (if list_ex (contains d) linearizeWords then MechHard else MechSoft)
      else MechNone)"

definition establishesHardNonLockOrder :: "order_clause option \<Rightarrow> bool" where
  "establishesHardNonLockOrder cl =
     (case cl of None \<Rightarrow> False
      | Some c \<Rightarrow> list_ex (\<lambda>g. let r = relUpper (pv_relation g) in
          r = ''COUNTS'' \<or> ((r = ''ORDER'' \<or> r = ''WAIT'' \<or> r = ''LINEARIZE'') \<and> mechanismClass g = MechHard))
          (cl_guarantee c))"

subsection \<open>Accesses\<close>

record acc_kind =
  k_read :: bool
  k_write :: bool
  k_free :: bool

definition threadAccessKind :: "shared_object \<Rightarrow> int \<Rightarrow> acc_kind" where
  "threadAccessKind ob tid =
     foldl (\<lambda>k a. if ac_thread a \<noteq> tid then k
        else if ac_type a = ''Write'' then k\<lparr>k_write := True\<rparr>
        else if ac_type a = ''Free'' then k\<lparr>k_free := True\<rparr>
        else k\<lparr>k_read := True\<rparr>)
       \<lparr>k_read = False, k_write = False, k_free = False\<rparr> (so_accesses ob)"

definition nullStateHazard :: "shared_object \<Rightarrow> bool" where
  "nullStateHazard ob \<longleftrightarrow>
     list_ex (\<lambda>a. ac_type a = ''Write'' \<and> (contains (toLower (ac_code a)) ''= null'' \<or>
         contains (toLower (ac_code a)) ''= nullptr'')) (so_accesses ob) \<and>
     list_ex (\<lambda>a. ac_type a = ''Read'' \<and> (contains (ac_code a) ''->'' \<or>
         contains (toLower (ac_code a)) ''deref'')) (so_accesses ob)"

definition underLock :: "thread_access \<Rightarrow> bool" where
  "underLock a \<longleftrightarrow> ac_locked a \<and> ac_lock a \<noteq> []"

definition accessesOf :: "shared_object \<Rightarrow> int \<Rightarrow> thread_access list" where
  "accessesOf ob tid = filter (\<lambda>a. ac_thread a = tid) (so_accesses ob)"

definition surfaceSharedLock :: "shared_object \<Rightarrow> int \<Rightarrow> int \<Rightarrow> bool" where
  "surfaceSharedLock ob ta tb =
     (let aa = accessesOf ob ta; ba = accessesOf ob tb;
          la = map ac_lock (filter underLock aa); lb = map ac_lock (filter underLock ba) in
      if aa = [] \<or> ba = [] \<or> \<not> list_all underLock aa \<or> \<not> list_all underLock ba then False
      else list_ex (\<lambda>l. l \<in> set lb) la)"

text \<open>The labels of the hazards.\<close>

definition lblStableFree :: string where "lblStableFree = ''STABLE_DURING violated by retire/free -> lifetime''"

definition lblIsolated :: string where "lblIsolated = ''REGION_ISOLATED violated by conflicting event -> atomicity''"

definition lblMediated :: string where "lblMediated = ''CONFLICT_MEDIATED lacks covering synchronization''"

definition lblOrderFree :: string where "lblOrderFree = ''ORDER violated by retire/free -> lifetime/order''"

definition lblOrderWrite :: string where "lblOrderWrite = ''ORDER violated by concurrent write''"

definition lblLocal :: string where "lblLocal = ''local requirement met by conflicting access''"

definition lblNull :: string where "lblNull = ''STABLE_DURING violated by NULL-state invalidation''"

definition hazardTier :: "order_clause option \<Rightarrow> acc_kind \<Rightarrow> string \<times> string" where
  "hazardTier req viol =
     (if req = None then ([], [])
      else
        let stable = hasAssumeRel req ''STABLE_DURING'' \<or> hasAssumeRel req ''COUNT_GUARDED'';
            isolated = hasAssumeRel req ''REGION_ISOLATED'' \<or> hasAssumeRel req ''ATOMIC'';
            ordered = hasAssumeRel req ''ORDER'' \<or> hasAssumeRel req ''PREC'';
            mediated = hasAssumeRel req ''CONFLICT_MEDIATED'' in
        if stable \<and> k_free viol then (''high'', lblStableFree)
        else if isolated \<and> (k_write viol \<or> k_free viol)
          then (''high'', lblIsolated)
        else if mediated \<and> (k_write viol \<or> k_free viol)
          then (''medium'', lblMediated)
        else if ordered \<and> k_free viol then (''high'', lblOrderFree)
        else if ordered \<and> k_write viol then (''medium'', lblOrderWrite)
        else if hasAnyAssume req then (''medium'', lblLocal)
        else ([], []))"

text \<open>Indices of the first access with a property; the accessors below return such an index.\<close>

definition firstAccess :: "(thread_access \<Rightarrow> bool) \<Rightarrow> shared_object \<Rightarrow> nat option" where
  "firstAccess P ob = List.find (\<lambda>i. P (so_accesses ob ! i)) [0 ..< length (so_accesses ob)]"

definition representativeAccess :: "shared_object \<Rightarrow> int \<Rightarrow> acc_kind \<Rightarrow> nat option" where
  "representativeAccess ob tid vk =
     (case firstAccess (\<lambda>a. ac_thread a = tid \<and>
             (k_free vk \<and> ac_type a = ''Free'' \<or> k_write vk \<and> ac_type a = ''Write'' \<or>
              \<not> k_free vk \<and> \<not> k_write vk \<and> ac_type a = ''Read'')) ob of
        Some i \<Rightarrow> Some i
      | None \<Rightarrow> firstAccess (\<lambda>a. ac_thread a = tid) ob)"

definition escapingViolatorAccess :: "shared_object \<Rightarrow> int \<Rightarrow> acc_kind \<Rightarrow> nat option" where
  "escapingViolatorAccess ob tid vk =
     (let mutation = (\<lambda>a. ac_type a = ''Write'' \<or> ac_type a = ''Free'') in
      case firstAccess (\<lambda>a. ac_thread a = tid \<and> \<not> underLock a \<and> mutation a) ob of
        Some i \<Rightarrow> Some i
      | None \<Rightarrow>
          (case firstAccess (\<lambda>a. ac_thread a = tid \<and> \<not> underLock a \<and> \<not> mutation a) ob of
             Some i \<Rightarrow> Some i
           | None \<Rightarrow> representativeAccess ob tid vk))"

definition mutationFor :: "shared_object \<Rightarrow> int \<Rightarrow> acc_kind \<Rightarrow> nat option" where
  "mutationFor ob tid k =
     (let wf = k_free k; ww = (\<not> k_free k \<and> k_write k) in
      if \<not> wf \<and> \<not> ww then None
      else representativeAccess ob tid \<lparr>k_read = False, k_write = ww, k_free = wf\<rparr>)"

definition mutatingAnchor :: "shared_object \<Rightarrow> int \<Rightarrow> acc_kind \<Rightarrow> int \<Rightarrow> acc_kind \<Rightarrow> nat option" where
  "mutatingAnchor ob reqT reqK violT violK =
     (case mutationFor ob violT violK of
        Some a \<Rightarrow> Some a
      | None \<Rightarrow> (case mutationFor ob reqT reqK of
          Some a \<Rightarrow> Some a
        | None \<Rightarrow> representativeAccess ob violT violK))"

definition accFunction :: "thread_access \<Rightarrow> string" where
  "accFunction a = (if ac_containing a = [] then ac_function a else ac_containing a)"

definition anchorKey :: "shared_object \<Rightarrow> nat option \<Rightarrow> string" where
  "anchorKey ob ai =
     (case ai of None \<Rightarrow> ''none''
      | Some i \<Rightarrow> let a = so_accesses ob ! i in
          if ac_node a \<ge> 0 then ''n'' @ int_to_string (ac_node a)
          else accFunction a @ ''@'' @ ac_location a @ ''|'' @ ac_type a)"

definition fmtAccess :: "shared_object \<Rightarrow> nat option \<Rightarrow> string" where
  "fmtAccess ob ai =
     (case ai of None \<Rightarrow> ''(site not located)''
      | Some i \<Rightarrow> let a = so_accesses ob ! i; fn = accFunction a in
          ac_type a @ '' in '' @ (if fn = [] then ''?'' else fn) @ '' @ '' @ ac_location a @
          (if ac_code a \<noteq> [] then '' | code: '' @ oneLine (ac_code a) 140 else []))"

definition phaseBHazardClass :: "string \<Rightarrow> string" where
  "phaseBHazardClass label =
     (let s = toLower label in
      if contains s ''use_after_free'' \<or> contains s ''free'' \<or> contains s ''lifetime'' then ''lifetime''
      else if contains s ''refcount'' \<or> contains s ''count_guarded'' \<or> contains s ''double'' then ''refcount''
      else if contains s ''prec'' \<or> contains s ''order'' then ''ordering''
      else if contains s ''atomic'' \<or> contains s ''data_race'' \<or> contains s ''raw conflict'' then ''atomicity''
      else ''other'')"

definition tierRank :: "string \<Rightarrow> int" where
  "tierRank t = (if t = ''high'' then 2 else if t = ''medium'' then 1 else 0)"

subsection \<open>Candidates of one session\<close>

record phaseb_cand =
  pb_objectId :: int
  pb_object :: ptr
  pb_tier :: string
  pb_label :: string
  pb_reqT :: int
  pb_violT :: int
  pb_reqKind :: acc_kind
  pb_violKind :: acc_kind
  pb_reqClause :: "order_clause option"
  pb_violClause :: "order_clause option"
  pb_violAccess :: "nat option"
  pb_anchor :: "nat option"
  pb_merged :: nat
  pb_alternates :: "string list"

text \<open>What one session fixes: the environment, configuration, graph, contracts and thread objects.\<close>

record session =
  s_env :: "string \<Rightarrow> string option"
  s_cfg :: config
  s_shared :: sharing
  s_ccpg :: ccpg
  s_oh :: "ptr \<Rightarrow> shared_object"
  s_contracts :: "int \<Rightarrow> contract option"
  s_objIndex :: "ptr \<Rightarrow> int option"
  s_threadById :: "int \<Rightarrow> ptr option"
  s_keepLow :: bool

fun tidPairs :: "int list \<Rightarrow> (int \<times> int) list" where
  "tidPairs [] = []"
| "tidPairs (t # ts) = map (\<lambda>u. (t, u)) ts @ tidPairs ts"

text \<open>The concurrency gate: skipped for a self-race pair and for ids without a thread object.\<close>

definition cRem :: "int \<Rightarrow> int \<Rightarrow> int" where
  "cRem a b = sgn a * (\<bar>a\<bar> mod b)"

definition mhpGate :: "session \<Rightarrow> shared_object \<Rightarrow> int \<Rightarrow> int \<Rightarrow> tct \<Rightarrow> bool \<times> tct" where
  "mhpGate s ob t1 t2 T =
     (let selfRace = is_self_race ob \<and> cRem t1 1000000 = cRem t2 1000000 in
      if selfRace then (True, T)
      else case (s_threadById s t1, s_threadById s t2) of
        (Some a, Some b) \<Rightarrow>
          if a \<noteq> null \<and> b \<noteq> null then mayHappenInParallel (s_cfg s) (s_shared s) (s_ccpg s) a b T
          else (True, T)
      | _ \<Rightarrow> (True, T))"

definition kindTouch :: "acc_kind \<Rightarrow> bool" where
  "kindTouch k \<longleftrightarrow> k_read k \<or> k_write k \<or> k_free k"

definition kindMutates :: "acc_kind \<Rightarrow> bool" where
  "kindMutates k \<longleftrightarrow> k_write k \<or> k_free k"

definition conflicting :: "acc_kind \<Rightarrow> acc_kind \<Rightarrow> bool" where
  "conflicting k1 k2 \<longleftrightarrow> kindTouch k1 \<and> kindTouch k2 \<and> (kindMutates k1 \<or> kindMutates k2)"

definition clauseOf :: "session \<Rightarrow> int \<Rightarrow> shared_object \<Rightarrow> int \<Rightarrow> order_clause option" where
  "clauseOf s oi ob t = (case s_contracts s t of Some k \<Rightarrow> clauseForObject (s_env s) k oi ob | None \<Rightarrow> None)"

definition semanticNullHazard :: "session \<Rightarrow> shared_object \<Rightarrow> bool" where
  "semanticNullHazard s ob \<longleftrightarrow> keepLockedNullHazardsEnabled (s_env s) \<and> nullStateHazard ob"

definition lockDischarge :: "session \<Rightarrow> int \<Rightarrow> shared_object \<Rightarrow> int \<Rightarrow> int \<Rightarrow> bool" where
  "lockDischarge s oi ob t1 t2 \<longleftrightarrow>
     \<not> (k_free (threadAccessKind ob t1) \<or> k_free (threadAccessKind ob t2)) \<and> \<not> semanticNullHazard s ob \<and>
     surfaceSharedLock ob t1 t2 \<and> (establishesOrder (clauseOf s oi ob t1) \<or> establishesOrder (clauseOf s oi ob t2))"

definition pairDischarged :: "session \<Rightarrow> int \<Rightarrow> shared_object \<Rightarrow> int \<Rightarrow> int \<Rightarrow> bool" where
  "pairDischarged s oi ob t1 t2 =
     (if noDeterministicDischargeEnabled (s_env s) then False
      else
        let lockD = lockDischarge s oi ob t1 t2;
            hardD = establishesHardNonLockOrder (clauseOf s oi ob t1) \<or> establishesHardNonLockOrder (clauseOf s oi ob t2);
            keepUnverifiedHard = hardD \<and> \<not> trustHardNonLockDischarge (s_env s) \<and> \<not> lockD
        in lockD \<or> (hardD \<and> \<not> keepUnverifiedHard))"

definition requirerHazard :: "session \<Rightarrow> int \<Rightarrow> shared_object \<Rightarrow> order_clause option \<Rightarrow> acc_kind \<Rightarrow> string \<times> string" where
  "requirerHazard s oi ob cl viol =
     (let req = (if assumeAnchoredToObject cl oi then cl else None) in
      if semanticNullHazard s ob \<and> req \<noteq> None \<and> hasAssumeRel req ''STABLE_DURING'' \<and> k_write viol
      then (''high'', lblNull)
      else hazardTier req viol)"

text \<open>The tier, the label and the requirer: the stronger of the two directions, the first on a tie.\<close>

definition pairHazard :: "session \<Rightarrow> int \<Rightarrow> shared_object \<Rightarrow> int \<Rightarrow> int \<Rightarrow> string \<times> string \<times> int \<times> int" where
  "pairHazard s oi ob t1 t2 =
     (let hA = requirerHazard s oi ob (clauseOf s oi ob t1) (threadAccessKind ob t2);
          hB = requirerHazard s oi ob (clauseOf s oi ob t2) (threadAccessKind ob t1) in
      if fst hA \<noteq> [] \<and> tierRank (fst hA) \<ge> tierRank (fst hB) then (fst hA, snd hA, t1, t2)
      else if fst hB \<noteq> [] then (fst hB, snd hB, t2, t1)
      else ([], [], t1, t2))"

definition suppressible :: "shared_object \<Rightarrow> bool" where
  "suppressible ob \<longleftrightarrow> has_scalar_torn_access ob \<and> \<not> has_free_operation ob \<and>
     \<not> has_list_mutation ob \<and> \<not> is_self_race ob"

definition rawLabel :: string where
  "rawLabel = ''raw conflict (no stated order requirement)''"

text \<open>
  One pair that passed the gate and conflicts: discharged (Inl True), suppressed
  (Inl False) or a candidate.
\<close>

definition judgePair :: "session \<Rightarrow> int \<Rightarrow> ptr \<Rightarrow> int \<Rightarrow> int \<Rightarrow> bool + phaseb_cand" where
  "judgePair s oi p t1 t2 =
     (let ob = s_oh s p; k1 = threadAccessKind ob t1; k2 = threadAccessKind ob t2;
          clA = clauseOf s oi ob t1; clB = clauseOf s oi ob t2 in
      if pairDischarged s oi ob t1 t2 then Inl True
      else case pairHazard s oi ob t1 t2 of (tier, label, reqT, violT) \<Rightarrow>
        if tier = [] \<and> suppressible ob \<and> \<not> s_keepLow s \<and> \<not> enabled (s_cfg s) then Inl False
        else let tier' = (if tier = [] then ''low'' else tier);
                 label' = (if tier = [] then rawLabel else label);
                 vk = (if violT = t1 then k1 else k2); rk = (if reqT = t1 then k1 else k2)
             in Inr \<lparr>pb_objectId = oi, pb_object = p, pb_tier = tier', pb_label = label', pb_reqT = reqT,
                  pb_violT = violT, pb_reqKind = rk, pb_violKind = vk,
                  pb_reqClause = (if reqT = t1 then clA else clB),
                  pb_violClause = (if reqT = t1 then clB else clA),
                  pb_violAccess = escapingViolatorAccess ob violT vk,
                  pb_anchor = mutatingAnchor ob reqT rk violT vk, pb_merged = 1, pb_alternates = []\<rparr>)"

record compose_state =
  c_tct :: tct
  c_dis :: nat
  c_raw :: "phaseb_cand list"

definition composePair :: "session \<Rightarrow> int \<Rightarrow> ptr \<Rightarrow> int \<times> int \<Rightarrow> compose_state \<Rightarrow> compose_state" where
  "composePair s oi p pr st =
     (case pr of (t1, t2) \<Rightarrow> case mhpGate s (s_oh s p) t1 t2 (c_tct st) of (par, T) \<Rightarrow>
        let st' = st\<lparr>c_tct := T\<rparr> in
        if \<not> par then st'
        else if \<not> conflicting (threadAccessKind (s_oh s p) t1) (threadAccessKind (s_oh s p) t2) then st'
        else case judgePair s oi p t1 t2 of
          Inl True \<Rightarrow> st'\<lparr>c_dis := Suc (c_dis st')\<rparr>
        | Inl False \<Rightarrow> st'
        | Inr c \<Rightarrow> st'\<lparr>c_raw := c_raw st' @ [c]\<rparr>)"

definition composeObject :: "session \<Rightarrow> ptr \<Rightarrow> compose_state \<Rightarrow> compose_state" where
  "composeObject s p st =
     (if p = null then st
      else case s_objIndex s p of
        None \<Rightarrow> st
      | Some oi \<Rightarrow> foldl (\<lambda>st pr. composePair s oi p pr st) st
          (tidPairs (sorted_list_of_set (accessing_thread_ids (s_oh s p)))))"

definition composeRaw :: "session \<Rightarrow> ptr list \<Rightarrow> tct \<Rightarrow> compose_state" where
  "composeRaw s objs T = foldl (\<lambda>st p. composeObject s p st) \<lparr>c_tct = T, c_dis = 0, c_raw = []\<rparr> objs"

subsection \<open>Merging and selection\<close>

definition mergeKey :: "session \<Rightarrow> phaseb_cand \<Rightarrow> string" where
  "mergeKey s c = int_to_string (pb_objectId c) @ ''|'' @ phaseBHazardClass (pb_label c) @ ''|'' @
     anchorKey (s_oh s (pb_object c)) (pb_anchor c)"

definition observation :: "session \<Rightarrow> phaseb_cand \<Rightarrow> string" where
  "observation s c = oneLine (''thread '' @ int_to_string (pb_reqT c) @ '' vs thread '' @
     int_to_string (pb_violT c) @ '': '' @ fmtAccess (s_oh s (pb_object c)) (pb_violAccess c)) 180"

definition mergeInto :: "session \<Rightarrow> phaseb_cand \<Rightarrow> phaseb_cand \<Rightarrow> phaseb_cand" where
  "mergeInto s rep c =
     (let m = Suc (pb_merged rep) in
      if tierRank (pb_tier c) > tierRank (pb_tier rep)
      then c\<lparr>pb_merged := m, pb_alternates := pb_alternates rep @ [observation s rep]\<rparr>
      else rep\<lparr>pb_merged := m, pb_alternates := pb_alternates rep @ [observation s c]\<rparr>)"

definition mergeByAnchor :: "session \<Rightarrow> phaseb_cand list \<Rightarrow> (string \<times> phaseb_cand) list" where
  "mergeByAnchor s raw =
     foldl (\<lambda>m c. case map_of m (mergeKey s c) of
              None \<Rightarrow> mapSet (mergeKey s c) c m
            | Some rep \<Rightarrow> mapSet (mergeKey s c) (mergeInto s rep c) m) [] raw"

definition candRank :: "session \<Rightarrow> phaseb_cand \<Rightarrow> int \<times> int \<times> int" where
  "candRank s c = (- tierRank (pb_tier c),
     - (if pb_object c = null then 0 else risk_score (s_oh s (pb_object c))), - int (pb_merged c))"

record caps =
  maxHigh :: int
  maxMed :: int
  maxLow :: int
  maxTotal :: int

definition b2cCaps :: "session \<Rightarrow> caps" where
  "b2cCaps s = \<lparr>maxHigh = envLimit (s_env s) ''LACE_B2C_MAX_HIGH'' 10000,
     maxMed = envLimit (s_env s) ''LACE_B2C_MAX_MED'' 10000,
     maxLow = (if s_keepLow s then envLimit (s_env s) ''LACE_B2C_MAX_LOW'' 10000 else 0),
     maxTotal = envLimit (s_env s) ''LACE_B2C_MAX_TOTAL'' 60\<rparr>"

fun selectCands :: "caps \<Rightarrow> phaseb_cand list \<Rightarrow> nat \<Rightarrow> nat \<Rightarrow> nat \<Rightarrow> phaseb_cand list \<Rightarrow> phaseb_cand list" where
  "selectCands k [] sh sm sl sel = sel"
| "selectCands k (c # cs) sh sm sl sel =
     (if int (length sel) \<ge> maxTotal k then sel
      else if pb_tier c = ''high'' then
        (if int sh \<ge> maxHigh k then selectCands k cs sh sm sl sel
         else selectCands k cs (Suc sh) sm sl (sel @ [c]))
      else if pb_tier c = ''medium'' then
        (if int sm \<ge> maxMed k then selectCands k cs sh sm sl sel
         else selectCands k cs sh (Suc sm) sl (sel @ [c]))
      else
        (if int sl \<ge> maxLow k then selectCands k cs sh sm sl sel
         else selectCands k cs sh sm (Suc sl) (sel @ [c])))"

record verdict =
  v_selected :: "phaseb_cand list"
  v_hi :: nat
  v_med :: nat
  v_low :: nat
  v_dis :: nat
  v_kept :: nat
  v_groups :: nat
  v_raw :: nat
  v_tct :: tct

definition composeVerdict :: "session \<Rightarrow> ptr list \<Rightarrow> tct \<Rightarrow> verdict" where
  "composeVerdict s objs T =
     (let st = composeRaw s objs T;
          cands = sort_key (candRank s) (map snd (mergeByAnchor s (c_raw st)));
          sel = selectCands (b2cCaps s) cands 0 0 0 [];
          shown = filter (\<lambda>c. pb_object c \<noteq> null) sel
      in \<lparr>v_selected = sel,
          v_hi = length (filter (\<lambda>c. pb_tier c = ''high'') shown),
          v_med = length (filter (\<lambda>c. pb_tier c = ''medium'') shown),
          v_low = length (filter (\<lambda>c. pb_tier c \<noteq> ''high'' \<and> pb_tier c \<noteq> ''medium'') shown),
          v_dis = c_dis st, v_kept = length shown, v_groups = length cands, v_raw = length (c_raw st),
          v_tct = c_tct st\<rparr>)"

subsection \<open>Resource families and rendering\<close>

text \<open>The rest of a string from the first occurrence of a pattern on.\<close>

fun findStr :: "string \<Rightarrow> string \<Rightarrow> nat option" where
  "findStr [] t = (if t = [] then Some 0 else None)"
| "findStr (c # s) t = (if startsWith (c # s) t then Some 0 else map_option Suc (findStr s t))"

definition resourceFamily :: "shared_object option \<Rightarrow> string" where
  "resourceFamily ob =
     (case ob of None \<Rightarrow> ''?''
      | Some v \<Rightarrow> let n = so_name v in
        case findStr n ''struct.'' of
          Some sp \<Rightarrow>
            (let rest = drop (sp + 7) n;
                 stop = (case findStr rest ''.'' of Some e \<Rightarrow> e
                         | None \<Rightarrow> (case findStr rest ''@'' of Some e \<Rightarrow> e | None \<Rightarrow> length rest))
             in ''struct.'' @ take stop rest)
        | None \<Rightarrow>
            if startsWith n ''global:'' then
              (let gname = drop 7 n in
               ''global:'' @ (case findStr gname ''@'' of None \<Rightarrow> gname | Some a \<Rightarrow> take a gname))
            else if startsWith n ''obj:'' then n
            else (case findStr n ''->'' of
              Some a \<Rightarrow> take a n
            | None \<Rightarrow> (case findStr n ''.'' of
                Some d \<Rightarrow> take d n
              | None \<Rightarrow> if so_type v \<noteq> [] \<and> so_type v \<noteq> ''ptr'' then so_type v
                        else if n = [] then ''?'' else n)))"

definition newline :: string where "newline = [char_of (10::nat)]"

definition mechClassName :: "mech_class \<Rightarrow> string" where
  "mechClassName m = (case m of MechHard \<Rightarrow> ''hard'' | MechSoft \<Rightarrow> ''soft'' | MechNone \<Rightarrow> ''none'')"

definition appendAssume :: "order_clause option \<Rightarrow> string" where
  "appendAssume req =
     (case req of None \<Rightarrow> []
      | Some c \<Rightarrow> concat (map (\<lambda>a. ''        requires: '' @ or_relation a @
          (if or_detail a \<noteq> [] then '' '' @ or_detail a else []) @
          (if or_provenance a \<noteq> [] then ''  [prov: '' @ oneLine (or_provenance a) 120 @ '']'' else []) @
          newline) (cl_assume c)))"

definition appendGuarantee :: "order_clause option \<Rightarrow> order_clause option \<Rightarrow> string" where
  "appendGuarantee a b =
     (let gs = concat (map (\<lambda>c. case c of None \<Rightarrow> [] | Some cl \<Rightarrow> cl_guarantee cl) [a, b]) in
      if gs = [] then ''        no guarantee stated by either thread for this resource.'' @ newline
      else concat (map (\<lambda>g. ''        stated guarantee: '' @ pv_relation g @
             (if pv_detail g \<noteq> [] then '' '' @ pv_detail g else []) @
             '' [mechanism='' @ mechClassName (mechanismClass g) @
             ''] (B did not deterministically discharge this candidate)'' @ newline) gs))"

definition renderObject :: "session \<Rightarrow> phaseb_cand \<Rightarrow> string" where
  "renderObject s c =
     (let ob = s_oh s (pb_object c) in
      ''  object [obj#'' @ int_to_string (pb_objectId c) @ ''] '' @
      (if so_name ob = [] then ''<anon>'' else so_name ob) @
      (if so_type ob = [] then [] else ''  (type: '' @ so_type ob @ '')'') @ '':'' @ newline)"

definition renderCandidate :: "session \<Rightarrow> nat \<Rightarrow> phaseb_cand \<Rightarrow> string" where
  "renderCandidate s cid c =
     (let ob = s_oh s (pb_object c) in
      ''    - [C'' @ to_string cid @ '']['' @ pb_tier c @ ''] '' @ pb_label c @
      (if pb_merged c > 1 then ''  (represents '' @ to_string (pb_merged c) @ '' same-anchor variants)'' else []) @
      newline @
      ''      violated_clause = '' @ phaseBHazardClass (pb_label c) @ ''; resource_family = '' @
      resourceFamily (Some ob) @ newline @
      (if hasAnyAssume (pb_reqClause c)
       then ''      requirer = thread '' @ int_to_string (pb_reqT c) @ '':'' @ newline @ appendAssume (pb_reqClause c)
       else ''      requirer = thread '' @ int_to_string (pb_reqT c) @
            '' (raw conflict; no stated order requirement)'' @ newline) @
      ''      violator = thread '' @ int_to_string (pb_violT c) @ '': '' @ fmtAccess ob (pb_violAccess c) @ newline @
      (if pb_anchor c \<noteq> None \<and> pb_anchor c \<noteq> pb_violAccess c
       then ''      mutating anchor = '' @ fmtAccess ob (pb_anchor c) @ newline else []) @
      appendGuarantee (pb_reqClause c) (pb_violClause c) @
      (if pb_alternates c \<noteq> [] then
         ''      same-anchor alternate observations:'' @
         concat (map (\<lambda>a. newline @ ''        * '' @ a) (take 4 (pb_alternates c))) @
         (if length (pb_alternates c) > 4 then newline @ ''        * ...'' else []) @ newline
       else []))"

fun renderAll :: "session \<Rightarrow> phaseb_cand list \<Rightarrow> nat \<Rightarrow> int set \<Rightarrow> string" where
  "renderAll s [] cid seen = []"
| "renderAll s (c # cs) cid seen =
     (if pb_object c = null then renderAll s cs cid seen
      else (if pb_objectId c \<in> seen then [] else renderObject s c) @ renderCandidate s cid c @
           renderAll s cs (Suc cid) (insert (pb_objectId c) seen))"

definition renderBatchVerdict :: "session \<Rightarrow> phaseb_cand list \<Rightarrow> string" where
  "renderBatchVerdict s sel = renderAll s sel 1 {}"

definition verdictText :: "session \<Rightarrow> verdict \<Rightarrow> string" where
  "verdictText s v =
     (let k = b2cCaps s in
      (if v_raw v \<noteq> length (v_selected v) then
         ''  Phase-B pre-C reduction: raw_pairs='' @ to_string (v_raw v) @ '', anchor_groups='' @
         to_string (v_groups v) @ '', selected_for_review='' @ to_string (length (v_selected v)) @
         '' (caps total='' @ int_to_string (maxTotal k) @ '', high='' @ int_to_string (maxHigh k) @
         '', medium='' @ int_to_string (maxMed k) @ '', low='' @ int_to_string (maxLow k) @ '').'' @ newline
       else []) @ renderAll s (v_selected v) 1 {})"

definition phaseBToHypothesis :: "(ptr \<Rightarrow> shared_object) \<Rightarrow> phaseb_cand \<Rightarrow> int \<Rightarrow> hypothesis" where
  "phaseBToHypothesis oh c seqId =
     (let cls = phaseBHazardClass (pb_label c); ob = oh (pb_object c);
          cat = (if cls = ''UAF'' \<or> cls = ''lifetime'' then ''use_after_free''
                 else if cls = ''refcount'' \<or> cls = ''double_free'' then ''double_free''
                 else if cls = ''null_deref'' then ''null_dereference''
                 else ''data_race'');
          d = ''[Phase-B direct] '' @ pb_label c @
              (if pb_object c \<noteq> null then '' on '' @ (if so_name ob = [] then ''<anon>'' else so_name ob) else []) @
              '' (thread '' @ int_to_string (pb_reqT c) @ '' vs thread '' @ int_to_string (pb_violT c) @ '')'' @
              (if pb_merged c > 1 then '' ['' @ to_string (pb_merged c) @ '' same-anchor variants]'' else []);
          nodeAt = (\<lambda>i. ac_node (so_accesses ob ! i));
          hyp = emptyHypothesis\<lparr>hy_id := ''phaseB_'' @ int_to_string seqId, hy_severity := pb_tier c,
             hy_bug_category := cat, hy_description := d\<rparr>;
          hyp = (case pb_violAccess c of Some i \<Rightarrow> if nodeAt i \<ge> 0 then setNode ''violator'' (nodeAt i) hyp else hyp
                 | None \<Rightarrow> hyp)
      in case pb_anchor c of
           Some i \<Rightarrow> if nodeAt i \<ge> 0 \<and> pb_anchor c \<noteq> pb_violAccess c then setNode ''anchor'' (nodeAt i) hyp else hyp
         | None \<Rightarrow> hyp)"

subsection \<open>The debug prior\<close>

record flow_prior =
  fp_enabled :: bool
  fp_functions :: "string list"
  fp_files :: "string list"

definition basenameOf :: "string \<Rightarrow> string" where
  "basenameOf p = rev (takeWhile (\<lambda>c. c \<noteq> CHR ''/'' \<and> c \<noteq> CHR 0x5C) (rev p))"

definition addFlowFunction :: "json \<Rightarrow> flow_prior \<Rightarrow> flow_prior" where
  "addFlowFunction v fp =
     (case v of JStr n \<Rightarrow> if n \<noteq> [] then fp\<lparr>fp_functions := List.insert n (fp_functions fp)\<rparr> else fp | _ \<Rightarrow> fp)"

definition addFlowFile :: "json \<Rightarrow> flow_prior \<Rightarrow> flow_prior" where
  "addFlowFile v fp =
     (case v of JStr n \<Rightarrow>
        if n = [] then fp
        else fp\<lparr>fp_files := List.insert (basenameOf n) (List.insert n (fp_files fp))\<rparr>
      | _ \<Rightarrow> fp)"

definition flowPriorScore :: "flow_prior \<Rightarrow> thread_access \<Rightarrow> int" where
  "flowPriorScore fp a =
     (if \<not> fp_enabled fp then 0
      else (if accFunction a \<noteq> [] \<and> accFunction a \<in> set (fp_functions fp) then 500 else 0) +
           (if ac_function a \<noteq> [] \<and> ac_function a \<in> set (fp_functions fp) then 250 else 0) +
           (if list_ex (\<lambda>f. f \<noteq> [] \<and> contains (ac_location a) f) (fp_files fp) then 80 else 0))"

definition objectFlowScore :: "flow_prior \<Rightarrow> shared_object \<Rightarrow> int" where
  "objectFlowScore fp ob =
     (if \<not> fp_enabled fp then 0 else foldl (\<lambda>best a. max best (flowPriorScore fp a)) 0 (so_accesses ob))"

end
