(* ===== verification/PhaseBFacts.thy ===== *)
theory PhaseBFacts
  imports PhaseB Sublists ThreadFacts
begin

text \<open>
  What Phase B guarantees: when a conflicting pair may be dropped, which accesses a
  candidate cites, that merging loses no candidate and keeps the strongest tier, and
  that the selection is a sub-sequence of the ranked candidates within its caps.
\<close>

subsection \<open>Accesses\<close>

lemma threadAccessKind_acc:
  "foldl (\<lambda>k a. if ac_thread a \<noteq> tid then k
        else if ac_type a = ''Write'' then k\<lparr>k_write := True\<rparr>
        else if ac_type a = ''Free'' then k\<lparr>k_free := True\<rparr>
        else k\<lparr>k_read := True\<rparr>) k0 as =
   \<lparr>k_read = (k_read k0 \<or> (\<exists>a \<in> set as. ac_thread a = tid \<and> ac_type a \<noteq> ''Write'' \<and> ac_type a \<noteq> ''Free'')),
    k_write = (k_write k0 \<or> (\<exists>a \<in> set as. ac_thread a = tid \<and> ac_type a = ''Write'')),
    k_free = (k_free k0 \<or> (\<exists>a \<in> set as. ac_thread a = tid \<and> ac_type a = ''Free''))\<rparr>"
  by (induction as arbitrary: k0) auto

lemma threadAccessKind_sel [simp]:
  "k_free (threadAccessKind ob tid) \<longleftrightarrow> (\<exists>a \<in> set (so_accesses ob). ac_thread a = tid \<and> ac_type a = ''Free'')"
  "k_write (threadAccessKind ob tid) \<longleftrightarrow> (\<exists>a \<in> set (so_accesses ob). ac_thread a = tid \<and> ac_type a = ''Write'')"
  "k_read (threadAccessKind ob tid) \<longleftrightarrow> (\<exists>a \<in> set (so_accesses ob). ac_thread a = tid \<and>
     ac_type a \<noteq> ''Write'' \<and> ac_type a \<noteq> ''Free'')"
  by (simp_all add: threadAccessKind_def threadAccessKind_acc)

lemma kindTouch_iff: "kindTouch (threadAccessKind ob tid) \<longleftrightarrow> (\<exists>a \<in> set (so_accesses ob). ac_thread a = tid)"
  by (auto simp: kindTouch_def)

lemma surfaceSharedLock_iff:
  "surfaceSharedLock ob ta tb \<longleftrightarrow>
     (\<forall>a \<in> set (so_accesses ob). ac_thread a = ta \<or> ac_thread a = tb \<longrightarrow> underLock a) \<and>
     (\<exists>a \<in> set (so_accesses ob). \<exists>b \<in> set (so_accesses ob).
        ac_thread a = ta \<and> ac_thread b = tb \<and> ac_lock a = ac_lock b)"
proof -
  have u: "underLock a \<Longrightarrow> ac_lock a \<noteq> []" for a by (simp add: underLock_def)
  show ?thesis
    unfolding surfaceSharedLock_def Let_def accessesOf_def list_all_iff list_ex_iff
    by (auto simp: filter_empty_conv image_iff)
qed

lemma surfaceSharedLock_sym: "surfaceSharedLock ob ta tb = surfaceSharedLock ob tb ta"
  unfolding surfaceSharedLock_iff by metis

lemma firstAccess_Some:
  "firstAccess P ob = Some i \<Longrightarrow> i < length (so_accesses ob) \<and> P (so_accesses ob ! i)"
  unfolding firstAccess_def by (drule find_Some_set) auto

lemma firstAccess_None:
  "firstAccess P ob = None \<longleftrightarrow> (\<forall>a \<in> set (so_accesses ob). \<not> P a)"
  unfolding firstAccess_def find_None_set by (auto simp: all_set_conv_all_nth)

lemma representativeAccess_thread:
  "representativeAccess ob tid vk = Some i \<Longrightarrow> i < length (so_accesses ob) \<and> ac_thread (so_accesses ob ! i) = tid"
  by (auto simp: representativeAccess_def dest!: firstAccess_Some split: option.splits)

lemma representativeAccess_total:
  "representativeAccess ob tid vk \<noteq> None \<longleftrightarrow> (\<exists>a \<in> set (so_accesses ob). ac_thread a = tid)"
proof -
  have e: "firstAccess (\<lambda>a. ac_thread a = tid) ob = None \<longleftrightarrow> (\<forall>a \<in> set (so_accesses ob). ac_thread a \<noteq> tid)"
    by (rule firstAccess_None)
  show ?thesis
  proof (cases "firstAccess (\<lambda>a. ac_thread a = tid) ob")
    case None
    then have "\<forall>a \<in> set (so_accesses ob). ac_thread a \<noteq> tid" using e by simp
    moreover from this have "firstAccess (\<lambda>a. ac_thread a = tid \<and> (k_free vk \<and> ac_type a = ''Free'' \<or>
        k_write vk \<and> ac_type a = ''Write'' \<or> \<not> k_free vk \<and> \<not> k_write vk \<and> ac_type a = ''Read'')) ob = None"
      unfolding firstAccess_None by simp
    ultimately show ?thesis using None by (auto simp: representativeAccess_def)
  next
    case (Some i)
    with e show ?thesis by (auto simp: representativeAccess_def split: option.splits)
  qed
qed

lemma escapingViolatorAccess_thread:
  "escapingViolatorAccess ob tid vk = Some i \<Longrightarrow> i < length (so_accesses ob) \<and> ac_thread (so_accesses ob ! i) = tid"
  by (auto simp: escapingViolatorAccess_def Let_def dest!: firstAccess_Some representativeAccess_thread
      split: option.splits)

text \<open>An access outside every lock is cited whenever the violating thread has one.\<close>

lemma escapingViolatorAccess_unprotected:
  assumes "a \<in> set (so_accesses ob)" "ac_thread a = tid" "\<not> underLock a"
  shows "\<exists>i. escapingViolatorAccess ob tid vk = Some i \<and> i < length (so_accesses ob) \<and>
    ac_thread (so_accesses ob ! i) = tid \<and> \<not> underLock (so_accesses ob ! i) \<and>
    ((\<exists>b \<in> set (so_accesses ob). ac_thread b = tid \<and> \<not> underLock b \<and> ac_type b \<in> {''Write'', ''Free''}) \<longrightarrow>
       ac_type (so_accesses ob ! i) \<in> {''Write'', ''Free''})"
proof (cases "firstAccess (\<lambda>a. ac_thread a = tid \<and> \<not> underLock a \<and> (ac_type a = ''Write'' \<or> ac_type a = ''Free'')) ob")
  case (Some i)
  then show ?thesis by (auto simp: escapingViolatorAccess_def Let_def dest: firstAccess_Some)
next
  case None
  note n = None[unfolded firstAccess_None]
  show ?thesis
  proof (cases "firstAccess (\<lambda>a. ac_thread a = tid \<and> \<not> underLock a \<and> \<not> (ac_type a = ''Write'' \<or> ac_type a = ''Free'')) ob")
    case (Some i)
    with None firstAccess_Some[OF Some] n show ?thesis by (auto simp: escapingViolatorAccess_def Let_def)
  next
    case None
    with n assms show ?thesis unfolding firstAccess_None by blast
  qed
qed

lemma mutatingAnchor_mutates:
  assumes "mutatingAnchor ob reqT (threadAccessKind ob reqT) violT (threadAccessKind ob violT) = Some i"
    and "conflicting (threadAccessKind ob reqT) (threadAccessKind ob violT)"
  shows "i < length (so_accesses ob)" "ac_type (so_accesses ob ! i) \<in> {''Write'', ''Free''}"
proof -
  have m: "i < length (so_accesses ob) \<and> ac_type (so_accesses ob ! i) \<in> {''Write'', ''Free''}"
    if "mutationFor ob t (threadAccessKind ob t) = Some i" for t i
  proof -
    let ?k = "threadAccessKind ob t"
    have d: "k_free ?k \<or> k_write ?k" and r: "representativeAccess ob t
        \<lparr>k_read = False, k_write = (\<not> k_free ?k \<and> k_write ?k), k_free = k_free ?k\<rparr> = Some i"
      using that by (auto simp: mutationFor_def Let_def simp del: threadAccessKind_sel split: if_splits)
    have hit: "i < length (so_accesses ob) \<and> ac_type (so_accesses ob ! i) = ty"
      if "firstAccess (\<lambda>a. ac_thread a = t \<and> ac_type a = ty) ob = Some i" for ty
      using firstAccess_Some[OF that] by simp
    show ?thesis
    proof (cases "k_free ?k")
      case True
      then have "firstAccess (\<lambda>a. ac_thread a = t \<and> ac_type a = ''Free'') ob \<noteq> None"
        by (auto simp: firstAccess_None)
      with True r have "firstAccess (\<lambda>a. ac_thread a = t \<and> ac_type a = ''Free'') ob = Some i"
        by (auto simp: representativeAccess_def simp del: threadAccessKind_sel split: option.splits)
      from hit[OF this] show ?thesis by simp
    next
      case False
      with d have w: "k_write ?k" by blast
      then have "firstAccess (\<lambda>a. ac_thread a = t \<and> ac_type a = ''Write'') ob \<noteq> None"
        by (auto simp: firstAccess_None)
      with False w r have "firstAccess (\<lambda>a. ac_thread a = t \<and> ac_type a = ''Write'') ob = Some i"
        by (auto simp: representativeAccess_def simp del: threadAccessKind_sel split: option.splits)
      from hit[OF this] show ?thesis by simp
    qed
  qed
  have n: "mutationFor ob t (threadAccessKind ob t) \<noteq> None" if "kindMutates (threadAccessKind ob t)" for t
  proof -
    let ?k = "threadAccessKind ob t"
    have "\<exists>a \<in> set (so_accesses ob). ac_thread a = t" "k_free ?k \<or> k_write ?k"
      using that by (auto simp: kindMutates_def)
    then show ?thesis
      unfolding mutationFor_def Let_def
      using representativeAccess_total[of ob t] by (cases "k_free ?k") (simp_all del: threadAccessKind_sel)
  qed
  have "mutationFor ob violT (threadAccessKind ob violT) \<noteq> None \<or> mutationFor ob reqT (threadAccessKind ob reqT) \<noteq> None"
    using assms(2) n by (auto simp: conflicting_def)
  with assms(1) m show "i < length (so_accesses ob)" "ac_type (so_accesses ob ! i) \<in> {''Write'', ''Free''}"
    by (auto simp: mutatingAnchor_def split: option.splits)
qed

subsection \<open>Discharge\<close>

lemma lockDischarge_sym: "lockDischarge s oi ob t1 t2 = lockDischarge s oi ob t2 t1"
  unfolding lockDischarge_def surfaceSharedLock_sym[of ob t1 t2] by blast

lemma pairDischarged_sym: "pairDischarged s oi ob t1 t2 = pairDischarged s oi ob t2 t1"
  unfolding pairDischarged_def Let_def lockDischarge_sym[of s oi ob t1 t2] by auto

text \<open>Without the trust switch a pair is dropped only by a common lock backed by a stated guarantee.\<close>

lemma pairDischarged_untrusted:
  assumes "\<not> trustHardNonLockDischarge (s_env s)"
  shows "pairDischarged s oi ob t1 t2 \<longleftrightarrow>
     \<not> noDeterministicDischargeEnabled (s_env s) \<and> lockDischarge s oi ob t1 t2"
  using assms by (auto simp: pairDischarged_def Let_def)

lemma establishesOrder_clause:
  "establishesOrder cl \<Longrightarrow> \<exists>c. cl = Some c \<and> cl_guarantee c \<noteq> []"
  by (auto simp: establishesOrder_def split: option.splits)

lemma lockDischarge_evidence:
  assumes "lockDischarge s oi ob t1 t2"
  shows "a \<in> set (so_accesses ob) \<Longrightarrow> ac_thread a \<in> {t1, t2} \<Longrightarrow> underLock a \<and> ac_type a \<noteq> ''Free''"
    "\<exists>a \<in> set (so_accesses ob). \<exists>b \<in> set (so_accesses ob).
       ac_thread a = t1 \<and> ac_thread b = t2 \<and> ac_lock a = ac_lock b"
    "\<exists>t \<in> {t1, t2}. \<exists>k c. s_contracts s t = Some k \<and> clauseForObject (s_env s) k oi ob = Some c \<and> cl_guarantee c \<noteq> []"
proof -
  note L = assms[unfolded lockDischarge_def surfaceSharedLock_iff]
  show "underLock a \<and> ac_type a \<noteq> ''Free''" if "a \<in> set (so_accesses ob)" "ac_thread a \<in> {t1, t2}"
    using L that by auto
  show "\<exists>a \<in> set (so_accesses ob). \<exists>b \<in> set (so_accesses ob).
       ac_thread a = t1 \<and> ac_thread b = t2 \<and> ac_lock a = ac_lock b" using L by blast
  obtain t c where t: "t \<in> {t1, t2}" "clauseOf s oi ob t = Some c" "cl_guarantee c \<noteq> []"
    using L by (blast dest: establishesOrder_clause)
  then show "\<exists>t \<in> {t1, t2}. \<exists>k c. s_contracts s t = Some k \<and> clauseForObject (s_env s) k oi ob = Some c \<and> cl_guarantee c \<noteq> []"
    by (auto simp: clauseOf_def split: option.splits)
qed

subsection \<open>Hazards\<close>

lemma hazardTier_empty: "fst (hazardTier req k) = [] \<longleftrightarrow> \<not> hasAnyAssume req"
  by (auto simp: hazardTier_def Let_def hasAssumeRel_def hasAnyAssume_def split: option.splits)

text \<open>The labels the composition gives, and the class each is filed under.\<close>

definition generatedLabels :: "string list" where
  "generatedLabels = [lblStableFree, lblIsolated, lblMediated, lblOrderFree, lblOrderWrite, lblLocal, lblNull, rawLabel]"

lemmas label_defs = lblStableFree_def lblIsolated_def lblMediated_def lblOrderFree_def lblOrderWrite_def
  lblLocal_def lblNull_def rawLabel_def

lemma label_nonempty:
  "lblStableFree \<noteq> []" "lblIsolated \<noteq> []" "lblMediated \<noteq> []" "lblOrderFree \<noteq> []" "lblOrderWrite \<noteq> []"
  "lblLocal \<noteq> []" "lblNull \<noteq> []" "rawLabel \<noteq> []"
  by (simp_all add: label_defs)

lemma generated_classes:
  "map phaseBHazardClass generatedLabels =
     [''lifetime'', ''atomicity'', ''other'', ''lifetime'', ''ordering'', ''other'', ''other'', ''ordering'']"
  by code_simp

definition hazardPairs :: "(string \<times> string) set" where
  "hazardPairs = {([], []), (''high'', lblStableFree), (''high'', lblIsolated), (''medium'', lblMediated),
     (''high'', lblOrderFree), (''medium'', lblOrderWrite), (''medium'', lblLocal), (''high'', lblNull)}"

lemma if_in: "x \<in> A \<Longrightarrow> y \<in> A \<Longrightarrow> (if b then x else y) \<in> A"
  by simp

lemma hazardTier_pairs: "hazardTier req k \<in> hazardPairs"
  unfolding hazardTier_def Let_def by (intro if_in) (simp_all add: hazardPairs_def)

lemma requirerHazard_pairs: "requirerHazard s oi ob cl k \<in> hazardPairs"
  unfolding requirerHazard_def Let_def
  by (intro if_in hazardTier_pairs) (simp add: hazardPairs_def)

lemma hazardPairs_facts:
  assumes "p \<in> hazardPairs"
  shows "fst p \<in> {[], ''medium'', ''high''}" "snd p \<in> insert [] (set generatedLabels)" "snd p = [] \<longleftrightarrow> fst p = []"
  using assms unfolding hazardPairs_def
  by (elim insertE emptyE; simp add: generatedLabels_def label_nonempty)+

lemma pairHazard_facts:
  assumes "pairHazard s oi ob t1 t2 = (tier, label, reqT, violT)"
  shows "(tier, label) \<in> hazardPairs" "(reqT, violT) \<in> {(t1, t2), (t2, t1)}"
proof -
  have e: "([], []) \<in> hazardPairs" by (simp add: hazardPairs_def)
  have s: "snd p = snd p \<Longrightarrow> p \<in> hazardPairs \<Longrightarrow> (fst p, snd p) \<in> hazardPairs" for p :: "string \<times> string" by simp
  show "(tier, label) \<in> hazardPairs"
    using assms requirerHazard_pairs e s unfolding pairHazard_def Let_def
    by (simp split: if_splits) (metis prod.collapse)+
  show "(reqT, violT) \<in> {(t1, t2), (t2, t1)}"
    using assms unfolding pairHazard_def Let_def by (simp split: if_splits)
qed

lemma judgePair_cand:
  assumes "judgePair s oi p t1 t2 = Inr c"
  shows "pb_objectId c = oi" "pb_object c = p" "pb_merged c = 1" "pb_alternates c = []"
    "(pb_reqT c, pb_violT c) \<in> {(t1, t2), (t2, t1)}"
    "pb_tier c \<in> {''high'', ''medium'', ''low''}" "pb_label c \<in> set generatedLabels"
    "\<not> pairDischarged s oi (s_oh s p) t1 t2"
    "pb_tier c = ''low'' \<longleftrightarrow> fst (pairHazard s oi (s_oh s p) t1 t2) = []"
proof -
  obtain tier label reqT violT where h: "pairHazard s oi (s_oh s p) t1 t2 = (tier, label, reqT, violT)"
    by (metis prod_cases4)
  note f = pairHazard_facts[OF h]
  have t: "tier \<in> {[], ''medium'', ''high''}" "label \<in> insert [] (set generatedLabels)" "label = [] \<longleftrightarrow> tier = []"
    using hazardPairs_facts[OF f(1)] by simp_all
  have "rawLabel \<in> set generatedLabels" by (simp add: generatedLabels_def)
  with assms h t f(2) show "pb_objectId c = oi" "pb_object c = p" "pb_merged c = 1" "pb_alternates c = []"
    "(pb_reqT c, pb_violT c) \<in> {(t1, t2), (t2, t1)}"
    "pb_tier c \<in> {''high'', ''medium'', ''low''}" "pb_label c \<in> set generatedLabels"
    "\<not> pairDischarged s oi (s_oh s p) t1 t2"
    "pb_tier c = ''low'' \<longleftrightarrow> fst (pairHazard s oi (s_oh s p) t1 t2) = []"
    by (auto simp: judgePair_def Let_def split: if_splits)
qed

subsection \<open>Pairs and candidates\<close>

lemma tidPairs_set:
  "distinct ts \<Longrightarrow> (a, b) \<in> set (tidPairs ts) \<longleftrightarrow> (\<exists>i j. i < j \<and> j < length ts \<and> a = ts ! i \<and> b = ts ! j)"
proof (induction ts)
  case Nil then show ?case by simp
next
  case (Cons t ts)
  have "(\<exists>i j. i < j \<and> j < length (t # ts) \<and> a = (t # ts) ! i \<and> b = (t # ts) ! j) \<longleftrightarrow>
      (a = t \<and> (\<exists>j < length ts. b = ts ! j)) \<or> (\<exists>i j. i < j \<and> j < length ts \<and> a = ts ! i \<and> b = ts ! j)" (is "?l \<longleftrightarrow> ?r")
  proof
    assume ?l
    then obtain i j where ij: "i < j" "j < length (t # ts)" "a = (t # ts) ! i" "b = (t # ts) ! j" by blast
    then obtain j' where j': "j = Suc j'" by (cases j) auto
    show ?r using ij j' by (cases i) auto
  next
    assume ?r
    then show ?l
    proof (elim disjE conjE exE)
      fix j assume "a = t" "j < length ts" "b = ts ! j"
      then show ?l by (intro exI[of _ 0] exI[of _ "Suc j"]) simp
    next
      fix i j assume "i < j" "j < length ts" "a = ts ! i" "b = ts ! j"
      then show ?l by (intro exI[of _ "Suc i"] exI[of _ "Suc j"]) simp
    qed
  qed
  then show ?case using Cons by (auto simp: in_set_conv_nth image_iff)
qed

text \<open>Every unordered pair of accessing threads is considered, once.\<close>

lemma tidPairs_sorted:
  fixes A :: "int set"
  assumes "finite A"
  shows "(a, b) \<in> set (tidPairs (sorted_list_of_set A)) \<longleftrightarrow> a \<in> A \<and> b \<in> A \<and> a < b"
proof -
  let ?ts = "sorted_list_of_set A"
  have d: "distinct ?ts" "sorted_wrt (<) ?ts" by simp_all
  show ?thesis
    unfolding tidPairs_set[OF d(1)]
  proof
    assume "\<exists>i j. i < j \<and> j < length ?ts \<and> a = ?ts ! i \<and> b = ?ts ! j"
    then obtain i j where ij: "i < j" "j < length ?ts" "a = ?ts ! i" "b = ?ts ! j" by blast
    have "a \<in> set ?ts" "b \<in> set ?ts" unfolding ij(3,4) using ij(1,2) by (auto intro: nth_mem)
    then show "a \<in> A \<and> b \<in> A \<and> a < b"
      using assms d(2) ij by (simp add: sorted_wrt_iff_nth_less)
  next
    assume r: "a \<in> A \<and> b \<in> A \<and> a < b"
    then have "a \<in> set ?ts" "b \<in> set ?ts" using assms by simp_all
    then obtain i j where ij: "i < length ?ts" "a = ?ts ! i" "j < length ?ts" "b = ?ts ! j"
      by (auto simp: in_set_conv_nth)
    have "i < j"
    proof (rule ccontr)
      assume "\<not> i < j"
      then have "j = i \<or> j < i" by auto
      then show False
        using r ij d(2) by (auto simp: sorted_wrt_iff_nth_less dest: less_asym)
    qed
    with ij show "\<exists>i j. i < j \<and> j < length ?ts \<and> a = ?ts ! i \<and> b = ?ts ! j" by blast
  qed
qed

text \<open>The property every raw candidate has, kept by each step.\<close>

definition candOk :: "session \<Rightarrow> ptr list \<Rightarrow> phaseb_cand \<Rightarrow> bool" where
  "candOk s objs c \<longleftrightarrow> pb_object c \<in> set objs \<and> pb_object c \<noteq> null \<and> s_objIndex s (pb_object c) = Some (pb_objectId c) \<and>
     (\<exists>t1 t2. (t1, t2) \<in> set (tidPairs (sorted_list_of_set (accessing_thread_ids (s_oh s (pb_object c))))) \<and>
        conflicting (threadAccessKind (s_oh s (pb_object c)) t1) (threadAccessKind (s_oh s (pb_object c)) t2) \<and>
        judgePair s (pb_objectId c) (pb_object c) t1 t2 = Inr c)"

lemma composePair_raw:
  "c \<in> set (c_raw (composePair s oi p (t1, t2) st)) \<longleftrightarrow> c \<in> set (c_raw st) \<or>
     (fst (mhpGate s (s_oh s p) t1 t2 (c_tct st)) \<and>
      conflicting (threadAccessKind (s_oh s p) t1) (threadAccessKind (s_oh s p) t2) \<and>
      judgePair s oi p t1 t2 = Inr c)"
proof -
  obtain par T where g: "mhpGate s (s_oh s p) t1 t2 (c_tct st) = (par, T)" by fastforce
  show ?thesis
    unfolding composePair_def Let_def
    by (auto simp: g split: sum.splits bool.splits)
qed

lemma composePairs_raw:
  "c \<in> set (c_raw (foldl (\<lambda>st pr. composePair s oi p pr st) st prs)) \<Longrightarrow> c \<in> set (c_raw st) \<or>
     (\<exists>(t1, t2) \<in> set prs. conflicting (threadAccessKind (s_oh s p) t1) (threadAccessKind (s_oh s p) t2) \<and>
        judgePair s oi p t1 t2 = Inr c)"
proof (induction prs arbitrary: st)
  case (Cons pr prs)
  obtain t1 t2 where pr: "pr = (t1, t2)" by fastforce
  from Cons.IH[of "composePair s oi p pr st"] Cons.prems show ?case
    unfolding pr foldl_Cons composePair_raw by auto
qed simp

lemma composeRaw_sound:
  "c \<in> set (c_raw (foldl (\<lambda>st p. composeObject s p st) st objs)) \<Longrightarrow> c \<in> set (c_raw st) \<or> candOk s objs c"
proof (induction objs arbitrary: st)
  case (Cons p objs)
  from Cons.IH[of "composeObject s p st"] Cons.prems
  have "c \<in> set (c_raw (composeObject s p st)) \<or> candOk s objs c" by simp
  then show ?case
  proof
    assume c: "c \<in> set (c_raw (composeObject s p st))"
    show ?thesis
    proof (cases "p = null \<or> s_objIndex s p = None")
      case True
      then have "composeObject s p st = st" by (auto simp: composeObject_def)
      with c show ?thesis by simp
    next
      case False
      then obtain oi where oi: "s_objIndex s p = Some oi" "p \<noteq> null" by auto
      with c have "c \<in> set (c_raw (foldl (\<lambda>st pr. composePair s oi p pr st) st
          (tidPairs (sorted_list_of_set (accessing_thread_ids (s_oh s p))))))"
        by (simp add: composeObject_def del: neq0_conv)
      from composePairs_raw[OF this] show ?thesis
      proof
        assume "\<exists>(t1, t2) \<in> set (tidPairs (sorted_list_of_set (accessing_thread_ids (s_oh s p)))).
          conflicting (threadAccessKind (s_oh s p) t1) (threadAccessKind (s_oh s p) t2) \<and> judgePair s oi p t1 t2 = Inr c"
        then obtain t1 t2 where t: "(t1, t2) \<in> set (tidPairs (sorted_list_of_set (accessing_thread_ids (s_oh s p))))"
          "conflicting (threadAccessKind (s_oh s p) t1) (threadAccessKind (s_oh s p) t2)"
          "judgePair s oi p t1 t2 = Inr c" by blast
        have i: "pb_objectId c = oi" "pb_object c = p" using judgePair_cand(1,2)[OF t(3)] by simp_all
        have "candOk s (p # objs) c"
          unfolding candOk_def i using t oi by auto
        then show ?thesis ..
      qed simp
    qed
  qed (auto simp: candOk_def)
qed simp

lemma composeRaw_candOk: "c \<in> set (c_raw (composeRaw s objs T)) \<Longrightarrow> candOk s objs c"
  unfolding composeRaw_def by (drule composeRaw_sound) simp

lemma composePairs_mono:
  "c \<in> set (c_raw st) \<Longrightarrow> c \<in> set (c_raw (foldl (\<lambda>st pr. composePair s oi p pr st) st prs))"
proof (induction prs arbitrary: st)
  case (Cons pr prs)
  obtain t1 t2 where pr: "pr = (t1, t2)" by fastforce
  show ?case using Cons.IH[of "composePair s oi p pr st"] Cons.prems unfolding pr foldl_Cons composePair_raw by blast
qed simp

lemma composeObject_mono: "c \<in> set (c_raw st) \<Longrightarrow> c \<in> set (c_raw (composeObject s p st))"
  by (auto simp: composeObject_def composePairs_mono split: option.splits)

lemma composeObjects_mono:
  "c \<in> set (c_raw st) \<Longrightarrow> c \<in> set (c_raw (foldl (\<lambda>st p. composeObject s p st) st objs))"
  by (induction objs arbitrary: st) (auto simp: composeObject_mono)

text \<open>A pair whose gate is open in every tree state, that conflicts and is not dropped, is a candidate.\<close>

lemma composePairs_complete:
  assumes "(t1, t2) \<in> set prs" "\<And>T. fst (mhpGate s (s_oh s p) t1 t2 T)"
    "conflicting (threadAccessKind (s_oh s p) t1) (threadAccessKind (s_oh s p) t2)" "judgePair s oi p t1 t2 = Inr c"
  shows "c \<in> set (c_raw (foldl (\<lambda>st pr. composePair s oi p pr st) st prs))"
  using assms(1)
proof (induction prs arbitrary: st)
  case (Cons pr prs)
  show ?case
  proof (cases "pr = (t1, t2)")
    case True
    have "c \<in> set (c_raw (composePair s oi p pr st))" unfolding True composePair_raw using assms(2-4) by blast
    then show ?thesis unfolding foldl_Cons by (rule composePairs_mono)
  next
    case False
    with Cons show ?thesis by simp
  qed
qed simp

lemma composeRaw_complete:
  assumes "p \<in> set objs" "p \<noteq> null" "s_objIndex s p = Some oi" "finite (accessing_thread_ids (s_oh s p))"
    "t1 \<in> accessing_thread_ids (s_oh s p)" "t2 \<in> accessing_thread_ids (s_oh s p)" "t1 < t2"
    "\<And>T. fst (mhpGate s (s_oh s p) t1 t2 T)"
    "conflicting (threadAccessKind (s_oh s p) t1) (threadAccessKind (s_oh s p) t2)" "judgePair s oi p t1 t2 = Inr c"
  shows "c \<in> set (c_raw (composeRaw s objs T))"
proof -
  obtain xs ys where o': "objs = xs @ p # ys" using split_list[OF assms(1)] by blast
  have pr: "(t1, t2) \<in> set (tidPairs (sorted_list_of_set (accessing_thread_ids (s_oh s p))))"
    unfolding tidPairs_sorted[OF assms(4)] using assms(5-7) by blast
  have "c \<in> set (c_raw (composeObject s p st))" for st
    unfolding composeObject_def using assms(2,3) composePairs_complete[OF pr assms(8-10)]
    by (simp del: neq0_conv)
  then show ?thesis unfolding composeRaw_def o' foldl_append foldl_Cons by (intro composeObjects_mono)
qed

subsection \<open>The gate and the tree\<close>

text \<open>
  The gate asks a cached query, so the tree changes while the composition runs.  What the cache
  holds is the answer for the pair in one of its orders.
\<close>

definition parallel_cached :: "session \<Rightarrow> tct \<Rightarrow> bool" where
  "parallel_cached s T \<longleftrightarrow> (\<forall>a b r. mayHappenInParallelCache T (a, b) = Some r \<longrightarrow>
     r = mhp_compute (s_cfg s) (s_shared s) (s_ccpg s) T a b \<or> r = mhp_compute (s_cfg s) (s_shared s) (s_ccpg s) T b a)"

text \<open>A pair whose two ids have thread objects, and the answer the gate gives on a fresh tree.\<close>

definition gateAsks :: "session \<Rightarrow> shared_object \<Rightarrow> int \<Rightarrow> int \<Rightarrow> ptr \<Rightarrow> ptr \<Rightarrow> bool" where
  "gateAsks s ob t1 t2 a b \<longleftrightarrow> \<not> (is_self_race ob \<and> cRem t1 1000000 = cRem t2 1000000) \<and>
     s_threadById s t1 = Some a \<and> s_threadById s t2 = Some b \<and> a \<noteq> null \<and> b \<noteq> null"

definition gateOpen :: "session \<Rightarrow> shared_object \<Rightarrow> int \<Rightarrow> int \<Rightarrow> tct \<Rightarrow> bool" where
  "gateOpen s ob t1 t2 T \<longleftrightarrow>
     (\<forall>a b. gateAsks s ob t1 t2 a b \<longrightarrow> mhp_compute (s_cfg s) (s_shared s) (s_ccpg s) T a b)"

definition gateSymmetric :: "session \<Rightarrow> shared_object \<Rightarrow> int \<Rightarrow> int \<Rightarrow> tct \<Rightarrow> bool" where
  "gateSymmetric s ob t1 t2 T \<longleftrightarrow> (\<forall>a b. gateAsks s ob t1 t2 a b \<longrightarrow>
     mhp_compute (s_cfg s) (s_shared s) (s_ccpg s) T a b = mhp_compute (s_cfg s) (s_shared s) (s_ccpg s) T b a)"

lemma mhpGate_asks:
  "mhpGate s ob t1 t2 T = (if \<exists>a b. gateAsks s ob t1 t2 a b
     then mayHappenInParallel (s_cfg s) (s_shared s) (s_ccpg s) (the (s_threadById s t1)) (the (s_threadById s t2)) T
     else (True, T))"
  by (auto simp: mhpGate_def gateAsks_def Let_def split: option.splits)

text \<open>The tree during a run: the same threads, a sound cache.\<close>

definition gateTree :: "session \<Rightarrow> tct \<Rightarrow> tct \<Rightarrow> bool" where
  "gateTree s T T' \<longleftrightarrow> threadH T' = threadH T \<and> parallel_cached s T'"

lemma mayHappenInParallel_tree:
  assumes "gateTree s T T'"
  shows "gateTree s T (snd (mayHappenInParallel (s_cfg s) (s_shared s) (s_ccpg s) a b T'))"
    "fst (mayHappenInParallel (s_cfg s) (s_shared s) (s_ccpg s) a b T') \<in>
       {mhp_compute (s_cfg s) (s_shared s) (s_ccpg s) T a b, mhp_compute (s_cfg s) (s_shared s) (s_ccpg s) T b a}"
proof -
  let ?m = "mhp_compute (s_cfg s) (s_shared s) (s_ccpg s)"
  let ?T = "T'\<lparr>mayHappenInParallelCache := (mayHappenInParallelCache T')(cacheKey a b \<mapsto> ?m T' a b)\<rparr>"
  have h: "threadH T' = threadH T" and c: "parallel_cached s T'" using assms by (simp_all add: gateTree_def)
  have "threadH ?T = threadH T'" by simp
  note eq = mhp_compute_heap[OF this, of "s_cfg s" "s_shared s" "s_ccpg s"]
  have "parallel_cached s ?T"
    using c unfolding parallel_cached_def eq by (auto simp: cacheKey_def split: if_splits)
  with assms show "gateTree s T (snd (mayHappenInParallel (s_cfg s) (s_shared s) (s_ccpg s) a b T'))"
    by (auto simp: mayHappenInParallel_def gateTree_def Let_def split: option.splits)
  show "fst (mayHappenInParallel (s_cfg s) (s_shared s) (s_ccpg s) a b T') \<in> {?m T a b, ?m T b a}"
    using c unfolding parallel_cached_def mhp_compute_heap[OF h]
    by (auto simp: mayHappenInParallel_def mhp_compute_heap[OF h] cacheKey_def Let_def split: option.splits if_splits)
qed

lemma mhpGate_tree:
  assumes "gateTree s T T'"
  shows "gateTree s T (snd (mhpGate s ob t1 t2 T'))"
    "gateSymmetric s ob t1 t2 T \<Longrightarrow> fst (mhpGate s ob t1 t2 T') \<longleftrightarrow> gateOpen s ob t1 t2 T"
proof -
  show "gateTree s T (snd (mhpGate s ob t1 t2 T'))"
    using assms mayHappenInParallel_tree(1)[OF assms] by (simp add: mhpGate_asks)
  assume sym: "gateSymmetric s ob t1 t2 T"
  show "fst (mhpGate s ob t1 t2 T') \<longleftrightarrow> gateOpen s ob t1 t2 T"
  proof (cases "\<exists>a b. gateAsks s ob t1 t2 a b")
    case True
    then obtain a b where ab: "gateAsks s ob t1 t2 a b" by blast
    then have t: "the (s_threadById s t1) = a" "the (s_threadById s t2) = b" by (simp_all add: gateAsks_def)
    have u: "a' = a \<and> b' = b" if "gateAsks s ob t1 t2 a' b'" for a' b' using that ab by (simp add: gateAsks_def)
    have "gateOpen s ob t1 t2 T \<longleftrightarrow> mhp_compute (s_cfg s) (s_shared s) (s_ccpg s) T a b"
      using ab u unfolding gateOpen_def by blast
    moreover have "mhp_compute (s_cfg s) (s_shared s) (s_ccpg s) T b a = mhp_compute (s_cfg s) (s_shared s) (s_ccpg s) T a b"
      using sym ab unfolding gateSymmetric_def by blast
    ultimately show ?thesis
      using mayHappenInParallel_tree(2)[OF assms, of a b] True unfolding mhpGate_asks t by simp
  next
    case False
    then show ?thesis by (simp add: mhpGate_asks gateOpen_def)
  qed
qed

lemma composePair_tct: "c_tct (composePair s oi p (t1, t2) st) = snd (mhpGate s (s_oh s p) t1 t2 (c_tct st))"
  by (auto simp: composePair_def Let_def split: prod.split sum.split bool.split)

text \<open>A candidate about two threads comes from this pair of the object, and from no other.\<close>

definition about :: "ptr \<Rightarrow> int \<Rightarrow> int \<Rightarrow> phaseb_cand \<Rightarrow> bool" where
  "about p t1 t2 c \<longleftrightarrow> pb_object c = p \<and> {pb_reqT c, pb_violT c} = {t1, t2}"

definition admitted :: "session \<Rightarrow> int \<Rightarrow> ptr \<Rightarrow> int \<Rightarrow> int \<Rightarrow> tct \<Rightarrow> phaseb_cand \<Rightarrow> bool" where
  "admitted s oi p t1 t2 T c \<longleftrightarrow> gateOpen s (s_oh s p) t1 t2 T \<and>
     conflicting (threadAccessKind (s_oh s p) t1) (threadAccessKind (s_oh s p) t2) \<and> judgePair s oi p t1 t2 = Inr c"

lemma judgePair_about:
  assumes "judgePair s oi q u1 u2 = Inr c" "u1 < u2" "about p t1 t2 c" "t1 < t2"
  shows "q = p \<and> u1 = t1 \<and> u2 = t2"
  using judgePair_cand(2,5)[OF assms(1)] assms(2-4) by (auto simp: about_def doubleton_eq_iff)

lemma composePairs_about:
  assumes "gateTree s T (c_tct st)" "\<forall>(u1, u2) \<in> set prs. u1 < u2" "about p t1 t2 c" "t1 < t2"
    "gateSymmetric s (s_oh s p) t1 t2 T"
  shows "gateTree s T (c_tct (foldl (\<lambda>st pr. composePair s oi q pr st) st prs)) \<and>
    (c \<in> set (c_raw (foldl (\<lambda>st pr. composePair s oi q pr st) st prs)) \<longleftrightarrow>
       c \<in> set (c_raw st) \<or> q = p \<and> (t1, t2) \<in> set prs \<and> admitted s oi p t1 t2 T c)"
  using assms(1,2)
proof (induction prs arbitrary: st)
  case Nil
  then show ?case by simp
next
  case (Cons pr prs)
  obtain u1 u2 where pr: "pr = (u1, u2)" by fastforce
  let ?st = "composePair s oi q pr st"
  have lt: "u1 < u2" using Cons.prems(2) pr by simp
  have tree: "gateTree s T (c_tct ?st)" unfolding pr composePair_tct by (rule mhpGate_tree(1)[OF Cons.prems(1)])
  have "c \<in> set (c_raw ?st) \<longleftrightarrow> c \<in> set (c_raw st) \<or> q = p \<and> (t1, t2) = pr \<and> admitted s oi p t1 t2 T c"
  proof (cases "judgePair s oi q u1 u2 = Inr c")
    case True
    note same = judgePair_about[OF True lt assms(3,4)]
    then have g: "fst (mhpGate s (s_oh s q) u1 u2 (c_tct st)) = gateOpen s (s_oh s p) t1 t2 T"
      using mhpGate_tree(2)[OF Cons.prems(1) assms(5)] by simp
    show ?thesis unfolding pr composePair_raw g admitted_def using same True by auto
  next
    case False
    then show ?thesis unfolding pr composePair_raw admitted_def by auto
  qed
  with Cons.IH[OF tree] Cons.prems(2) show ?case by auto
qed

lemma composeRaw_about:
  assumes "parallel_cached s T" "about p t1 t2 c" "t1 < t2" "gateSymmetric s (s_oh s p) t1 t2 T"
    "p \<noteq> null" "s_objIndex s p = Some oi" "finite (accessing_thread_ids (s_oh s p))"
    "{t1, t2} \<subseteq> accessing_thread_ids (s_oh s p)"
  shows "c \<in> set (c_raw (composeRaw s objs T)) \<longleftrightarrow> p \<in> set objs \<and> admitted s oi p t1 t2 T c"
proof -
  have sorted: "\<forall>(u1, u2) \<in> set (tidPairs (sorted_list_of_set A)). u1 < u2" for A :: "int set"
  proof (cases "finite A")
    case True
    then show ?thesis using tidPairs_sorted[OF True] by auto
  qed simp
  have pair: "(t1, t2) \<in> set (tidPairs (sorted_list_of_set (accessing_thread_ids (s_oh s p))))"
    unfolding tidPairs_sorted[OF assms(7)] using assms(3,8) by simp
  have one: "gateTree s T (c_tct (composeObject s q st)) \<and>
      (c \<in> set (c_raw (composeObject s q st)) \<longleftrightarrow> c \<in> set (c_raw st) \<or> q = p \<and> admitted s oi p t1 t2 T c)"
    if "gateTree s T (c_tct st)" for q st
  proof (cases "q = null \<or> s_objIndex s q = None")
    case True
    then have "composeObject s q st = st" "q \<noteq> p" using assms(5,6) by (auto simp: composeObject_def)
    with that show ?thesis by simp
  next
    case False
    then obtain qi where "s_objIndex s q = Some qi" "q \<noteq> null" by auto
    then have e: "composeObject s q st = foldl (\<lambda>st pr. composePair s qi q pr st) st
        (tidPairs (sorted_list_of_set (accessing_thread_ids (s_oh s q))))" "q = p \<Longrightarrow> qi = oi"
      using assms(6) by (auto simp: composeObject_def)
    show ?thesis unfolding e(1)
      using composePairs_about[OF that sorted assms(2-4), of qi q "accessing_thread_ids (s_oh s q)"] pair e(2) by auto
  qed
  have "gateTree s T (c_tct st) \<Longrightarrow> c \<in> set (c_raw (foldl (\<lambda>st p. composeObject s p st) st objs)) \<longleftrightarrow>
      c \<in> set (c_raw st) \<or> p \<in> set objs \<and> admitted s oi p t1 t2 T c" for st
  proof (induction objs arbitrary: st)
    case (Cons q objs)
    then show ?case using one[OF Cons.prems, of q] by auto
  qed simp
  from this[of "\<lparr>c_tct = T, c_dis = 0, c_raw = []\<rparr>"] show ?thesis
    using assms(1) by (simp add: composeRaw_def gateTree_def)
qed

text \<open>A conflict, over the accesses themselves.\<close>

lemma conflicting_accesses:
  "conflicting (threadAccessKind ob t1) (threadAccessKind ob t2) \<longleftrightarrow>
     (\<exists>a \<in> set (so_accesses ob). ac_thread a = t1) \<and> (\<exists>a \<in> set (so_accesses ob). ac_thread a = t2) \<and>
     (\<exists>a \<in> set (so_accesses ob). ac_thread a \<in> {t1, t2} \<and> ac_type a \<in> {''Write'', ''Free''})"
  unfolding conflicting_def kindTouch_iff kindMutates_def threadAccessKind_sel by auto

lemma judgePair_total:
  "(\<exists>c. judgePair s oi p t1 t2 = Inr c) \<longleftrightarrow> \<not> pairDischarged s oi (s_oh s p) t1 t2 \<and>
     \<not> (fst (pairHazard s oi (s_oh s p) t1 t2) = [] \<and> suppressible (s_oh s p) \<and> \<not> s_keepLow s \<and> \<not> enabled (s_cfg s))"
  by (cases "pairHazard s oi (s_oh s p) t1 t2") (auto simp: judgePair_def Let_def)

subsection \<open>Merging\<close>

text \<open>The merge is an association list with increasing keys whose counts add up to the candidates.\<close>

definition mergedOf :: "(string \<times> phaseb_cand) list \<Rightarrow> nat" where
  "mergedOf m = (\<Sum>kc \<leftarrow> m. pb_merged (snd kc))"

lemma mergedOf_new: "map_of m k = None \<Longrightarrow> mergedOf (mapSet k c m) = mergedOf m + pb_merged c"
  by (induction k c m rule: mapSet.induct) (auto simp: mergedOf_def split: if_splits)

lemma mergedOf_old:
  "sorted_wrt (<) (map fst m) \<Longrightarrow> map_of m k = Some r \<Longrightarrow>
     mergedOf (mapSet k c m) + pb_merged r = mergedOf m + pb_merged c"
proof (induction k c m rule: mapSet.induct)
  case (2 k v k' v' m)
  show ?case
  proof (cases "k < k'")
    case True
    with 2(2) have "k \<notin> fst ` set ((k', v') # m)" by (auto dest: order.strict_trans)
    then have "map_of ((k', v') # m) k = None" by (simp add: map_of_eq_None_iff)
    with 2(3) show ?thesis by simp
  next
    case False
    with 2 show ?thesis by (cases "k = k'") (auto simp: mergedOf_def)
  qed
qed simp

definition mergeOk :: "session \<Rightarrow> phaseb_cand list \<Rightarrow> (string \<times> phaseb_cand) list \<Rightarrow> bool" where
  "mergeOk s raw m \<longleftrightarrow> sorted_wrt (<) (map fst m) \<and> mergedOf m = length raw \<and>
     (\<forall>k r. map_of m k = Some r \<longrightarrow> pb_merged r = Suc (length (pb_alternates r)) \<and>
        (\<exists>c \<in> set raw. mergeKey s c = k \<and> r = c\<lparr>pb_merged := pb_merged r, pb_alternates := pb_alternates r\<rparr>)) \<and>
     (\<forall>c \<in> set raw. \<exists>r. map_of m (mergeKey s c) = Some r \<and> tierRank (pb_tier c) \<le> tierRank (pb_tier r))"

lemma mergeKey_update [simp]: "mergeKey s (c\<lparr>pb_merged := n, pb_alternates := as\<rparr>) = mergeKey s c"
  by (simp add: mergeKey_def)

lemma mergeOkI:
  assumes "sorted_wrt (<) (map fst m)" "mergedOf m = length raw"
    "\<And>k r. map_of m k = Some r \<Longrightarrow> (\<exists>c \<in> set raw. mergeKey s c = k \<and>
        r = c\<lparr>pb_merged := pb_merged r, pb_alternates := pb_alternates r\<rparr>) \<and>
        pb_merged r = Suc (length (pb_alternates r))"
    "\<And>c. c \<in> set raw \<Longrightarrow> \<exists>r. map_of m (mergeKey s c) = Some r \<and> tierRank (pb_tier c) \<le> tierRank (pb_tier r)"
  shows "mergeOk s raw m"
  unfolding mergeOk_def using assms by blast

lemma mergeOk_step:
  assumes "mergeOk s raw m" "pb_merged c = 1" "pb_alternates c = []"
  shows "mergeOk s (raw @ [c]) (case map_of m (mergeKey s c) of
     None \<Rightarrow> mapSet (mergeKey s c) c m | Some rep \<Rightarrow> mapSet (mergeKey s c) (mergeInto s rep c) m)"
proof -
  let ?k = "mergeKey s c"
  note M = assms(1)[unfolded mergeOk_def]
  show ?thesis
  proof (cases "map_of m ?k")
    case None
    have c': "c = c\<lparr>pb_merged := pb_merged c, pb_alternates := pb_alternates c\<rparr>" by simp
    have "(\<exists>c' \<in> set (raw @ [c]). mergeKey s c' = k \<and> r = c'\<lparr>pb_merged := pb_merged r, pb_alternates := pb_alternates r\<rparr>) \<and>
      pb_merged r = Suc (length (pb_alternates r))"
      if r: "map_of (mapSet ?k c m) k = Some r" for k r
    proof (cases "k = ?k")
      case True
      with r have "r = c" by simp
      with True c' assms(2,3) show ?thesis by (intro conjI bexI[of _ c]) simp_all
    next
      case False
      with r have "map_of m k = Some r" by simp
      with M have "pb_merged r = Suc (length (pb_alternates r))"
        "\<exists>c' \<in> set raw. mergeKey s c' = k \<and> r = c'\<lparr>pb_merged := pb_merged r, pb_alternates := pb_alternates r\<rparr>"
        by blast+
      then show ?thesis by (intro conjI) (auto simp only: set_append)
    qed
    moreover have "\<exists>r. map_of (mapSet ?k c m) (mergeKey s d) = Some r \<and> tierRank (pb_tier d) \<le> tierRank (pb_tier r)"
      if "d \<in> set (raw @ [c])" for d
      using that M None by (cases "mergeKey s d = ?k") auto
    moreover have "sorted_wrt (<) (map fst (mapSet ?k c m))" "mergedOf (mapSet ?k c m) = length (raw @ [c])"
      using M None assms(2) by (simp_all add: mapSet_sorted mergedOf_new)
    ultimately have "mergeOk s (raw @ [c]) (mapSet ?k c m)" by (intro mergeOkI)
    then show ?thesis using None by simp
  next
    case (Some rep)
    let ?new = "mergeInto s rep c"
    obtain d0 where d0: "d0 \<in> set raw" "mergeKey s d0 = ?k"
      "rep = d0\<lparr>pb_merged := pb_merged rep, pb_alternates := pb_alternates rep\<rparr>"
      and rl: "pb_merged rep = Suc (length (pb_alternates rep))" using M Some by blast
    have m: "pb_merged ?new = Suc (pb_merged rep)" "length (pb_alternates ?new) = Suc (length (pb_alternates rep))"
      by (auto simp: mergeInto_def Let_def)
    have t: "tierRank (pb_tier rep) \<le> tierRank (pb_tier ?new)" "tierRank (pb_tier c) \<le> tierRank (pb_tier ?new)"
      by (auto simp: mergeInto_def Let_def)
    have src: "\<exists>c' \<in> set (raw @ [c]). mergeKey s c' = ?k \<and>
        ?new = c'\<lparr>pb_merged := pb_merged ?new, pb_alternates := pb_alternates ?new\<rparr>"
    proof (cases "tierRank (pb_tier c) > tierRank (pb_tier rep)")
      case True
      then show ?thesis by (intro bexI[of _ c]) (auto simp: mergeInto_def Let_def)
    next
      case False
      then have "?new = rep\<lparr>pb_merged := pb_merged ?new, pb_alternates := pb_alternates ?new\<rparr>"
        by (auto simp: mergeInto_def Let_def)
      also have "\<dots> = d0\<lparr>pb_merged := pb_merged ?new, pb_alternates := pb_alternates ?new\<rparr>"
        by (subst d0(3)) simp
      finally show ?thesis using d0(1,2) by (intro bexI[of _ d0]) auto
    qed
    have "(\<exists>c' \<in> set (raw @ [c]). mergeKey s c' = k \<and> r = c'\<lparr>pb_merged := pb_merged r, pb_alternates := pb_alternates r\<rparr>) \<and>
        pb_merged r = Suc (length (pb_alternates r))"
      if "map_of (mapSet ?k ?new m) k = Some r" for k r
    proof (cases "k = ?k")
      case True
      with that have "r = ?new" by simp
      with src m rl True show ?thesis by simp
    next
      case False
      with that have "map_of m k = Some r" by simp
      with M have "pb_merged r = Suc (length (pb_alternates r))"
        "\<exists>c' \<in> set raw. mergeKey s c' = k \<and> r = c'\<lparr>pb_merged := pb_merged r, pb_alternates := pb_alternates r\<rparr>"
        by blast+
      then show ?thesis by (intro conjI) (auto simp only: set_append)
    qed
    moreover have "\<exists>r. map_of (mapSet ?k ?new m) (mergeKey s d) = Some r \<and> tierRank (pb_tier d) \<le> tierRank (pb_tier r)"
      if d: "d \<in> set (raw @ [c])" for d
    proof (cases "d = c")
      case True then show ?thesis using t by simp
    next
      case False
      with d have "d \<in> set raw" by simp
      with M obtain r where r: "map_of m (mergeKey s d) = Some r" "tierRank (pb_tier d) \<le> tierRank (pb_tier r)" by blast
      show ?thesis
      proof (cases "mergeKey s d = ?k")
        case True
        with r Some have "r = rep" by simp
        with r t(1) True show ?thesis by simp
      next
        case False
        with r show ?thesis by simp
      qed
    qed
    moreover have "mergedOf (mapSet ?k ?new m) = length (raw @ [c])" "sorted_wrt (<) (map fst (mapSet ?k ?new m))"
      using mergedOf_old[OF _ Some, of ?new] M m(1) by (simp_all add: mapSet_sorted)
    ultimately have "mergeOk s (raw @ [c]) (mapSet ?k ?new m)" by (intro mergeOkI)
    then show ?thesis using Some by simp
  qed
qed

lemma mergeOk_fold:
  assumes "mergeOk s raw0 m" "\<forall>c \<in> set raw. pb_merged c = 1 \<and> pb_alternates c = []"
  shows "mergeOk s (raw0 @ raw) (foldl (\<lambda>m c. case map_of m (mergeKey s c) of
     None \<Rightarrow> mapSet (mergeKey s c) c m | Some rep \<Rightarrow> mapSet (mergeKey s c) (mergeInto s rep c) m) m raw)"
  using assms
proof (induction raw arbitrary: raw0 m)
  case (Cons c raw)
  have "mergeOk s (raw0 @ [c]) (case map_of m (mergeKey s c) of
     None \<Rightarrow> mapSet (mergeKey s c) c m | Some rep \<Rightarrow> mapSet (mergeKey s c) (mergeInto s rep c) m)"
    using Cons.prems by (intro mergeOk_step) auto
  from Cons.IH[OF this] Cons.prems(2) show ?case by simp
qed simp

lemma mergeByAnchor_ok:
  assumes "\<forall>c \<in> set raw. pb_merged c = 1 \<and> pb_alternates c = []"
  shows "mergeOk s raw (mergeByAnchor s raw)"
proof -
  have "mergeOk s [] []" by (simp add: mergeOk_def mergedOf_def)
  from mergeOk_fold[OF this assms] show ?thesis by (simp add: mergeByAnchor_def)
qed

subsection \<open>Selection\<close>

definition extendsSel :: "phaseb_cand list \<Rightarrow> phaseb_cand list \<Rightarrow> phaseb_cand list \<Rightarrow> bool" where
  "extendsSel sel cs r \<longleftrightarrow> (\<exists>ext. r = sel @ ext \<and> subseq ext cs)"

lemma extendsSel_skip: "extendsSel sel cs r \<Longrightarrow> extendsSel sel (c # cs) r"
  by (auto simp: extendsSel_def)

lemma extendsSel_keep: "extendsSel (sel @ [c]) cs r \<Longrightarrow> extendsSel sel (c # cs) r"
proof -
  assume "extendsSel (sel @ [c]) cs r"
  then obtain ext where "r = sel @ (c # ext)" "subseq ext cs" by (auto simp: extendsSel_def)
  then show ?thesis unfolding extendsSel_def by (intro exI[of _ "c # ext"]) simp
qed

lemma extendsSel_stop: "extendsSel sel cs sel"
  by (simp add: extendsSel_def)

lemma selectCands_extends: "extendsSel sel cs (selectCands k cs sh sm sl sel)"
  by (induction k cs sh sm sl sel rule: selectCands.induct)
    (simp_all add: extendsSel_stop extendsSel_skip extendsSel_keep)

lemma selectCands_total:
  "int (length sel) \<le> maxTotal k \<Longrightarrow> int (length (selectCands k cs sh sm sl sel)) \<le> maxTotal k"
  by (induction k cs sh sm sl sel rule: selectCands.induct) auto

definition tierCount :: "string \<Rightarrow> phaseb_cand list \<Rightarrow> nat" where
  "tierCount t cs = length (filter (\<lambda>c. pb_tier c = t) cs)"

definition lowCount :: "phaseb_cand list \<Rightarrow> nat" where
  "lowCount cs = length (filter (\<lambda>c. pb_tier c \<noteq> ''high'' \<and> pb_tier c \<noteq> ''medium'') cs)"

lemma count_snoc [simp]:
  "tierCount t (cs @ [c]) = tierCount t cs + (if pb_tier c = t then 1 else 0)"
  "lowCount (cs @ [c]) = lowCount cs + (if pb_tier c \<noteq> ''high'' \<and> pb_tier c \<noteq> ''medium'' then 1 else 0)"
  "tierCount t [] = 0" "lowCount [] = 0"
  by (simp_all add: tierCount_def lowCount_def)

lemma selectCands_cases:
  obtains (stop) "selectCands k (c # cs) sh sm sl sel = sel"
  | (skip) "selectCands k (c # cs) sh sm sl sel = selectCands k cs sh sm sl sel"
  | (high) "pb_tier c = ''high''" "int (Suc sh) \<le> maxHigh k"
      "selectCands k (c # cs) sh sm sl sel = selectCands k cs (Suc sh) sm sl (sel @ [c])"
  | (medium) "pb_tier c = ''medium''" "int (Suc sm) \<le> maxMed k"
      "selectCands k (c # cs) sh sm sl sel = selectCands k cs sh (Suc sm) sl (sel @ [c])"
  | (low) "pb_tier c \<noteq> ''high''" "pb_tier c \<noteq> ''medium''" "int (Suc sl) \<le> maxLow k"
      "selectCands k (c # cs) sh sm sl sel = selectCands k cs sh sm (Suc sl) (sel @ [c])"
proof (cases "maxTotal k \<le> int (length sel)")
  case True then show ?thesis using stop by simp
next
  case False
  note F = False
  show ?thesis
  proof (cases "pb_tier c = ''high''")
    case True with F show ?thesis using skip high by (cases "maxHigh k \<le> int sh") simp_all
  next
    case False
    note H = False
    show ?thesis
    proof (cases "pb_tier c = ''medium''")
      case True with F H show ?thesis using skip medium by (cases "maxMed k \<le> int sm") simp_all
    next
      case False with F H show ?thesis using skip low by (cases "maxLow k \<le> int sl") simp_all
    qed
  qed
qed

lemma selectCands_caps:
  "tierCount ''high'' sel = sh \<Longrightarrow> tierCount ''medium'' sel = sm \<Longrightarrow> lowCount sel = sl \<Longrightarrow>
     int sh \<le> maxHigh k \<Longrightarrow> int sm \<le> maxMed k \<Longrightarrow> int sl \<le> maxLow k \<Longrightarrow>
   int (tierCount ''high'' (selectCands k cs sh sm sl sel)) \<le> maxHigh k \<and>
   int (tierCount ''medium'' (selectCands k cs sh sm sl sel)) \<le> maxMed k \<and>
   int (lowCount (selectCands k cs sh sm sl sel)) \<le> maxLow k"
proof (induction cs arbitrary: sh sm sl sel)
  case (Cons c cs)
  show ?case
  proof (cases rule: selectCands_cases[of k c cs sh sm sl sel])
    case stop with Cons.prems show ?thesis by simp
  next
    case skip with Cons show ?thesis by simp
  next
    case high
    have "int (tierCount ''high'' (selectCands k cs (Suc sh) sm sl (sel @ [c]))) \<le> maxHigh k \<and>
      int (tierCount ''medium'' (selectCands k cs (Suc sh) sm sl (sel @ [c]))) \<le> maxMed k \<and>
      int (lowCount (selectCands k cs (Suc sh) sm sl (sel @ [c]))) \<le> maxLow k"
      by (rule Cons.IH) (use high Cons.prems in simp_all)
    with high(3) show ?thesis by simp
  next
    case medium
    have "int (tierCount ''high'' (selectCands k cs sh (Suc sm) sl (sel @ [c]))) \<le> maxHigh k \<and>
      int (tierCount ''medium'' (selectCands k cs sh (Suc sm) sl (sel @ [c]))) \<le> maxMed k \<and>
      int (lowCount (selectCands k cs sh (Suc sm) sl (sel @ [c]))) \<le> maxLow k"
      by (rule Cons.IH) (use medium Cons.prems in simp_all)
    with medium(3) show ?thesis by simp
  next
    case low
    have "int (tierCount ''high'' (selectCands k cs sh sm (Suc sl) (sel @ [c]))) \<le> maxHigh k \<and>
      int (tierCount ''medium'' (selectCands k cs sh sm (Suc sl) (sel @ [c]))) \<le> maxMed k \<and>
      int (lowCount (selectCands k cs sh sm (Suc sl) (sel @ [c]))) \<le> maxLow k"
      by (rule Cons.IH) (use low Cons.prems in simp_all)
    with low(4) show ?thesis by simp
  qed
qed simp

text \<open>When no cap is reached nothing is dropped.\<close>

lemma selectCands_all:
  assumes "int (length sel + length cs) \<le> maxTotal k"
    "int (sh + length cs) \<le> maxHigh k" "int (sm + length cs) \<le> maxMed k" "int (sl + length cs) \<le> maxLow k"
  shows "selectCands k cs sh sm sl sel = sel @ cs"
  using assms
  by (induction k cs sh sm sl sel rule: selectCands.induct) auto

end
