(* ===== verification/Dedup.thy ===== *)
theory Dedup
  imports PhaseB
begin

text \<open>
  Merging of near-duplicate hypotheses (src/LLMUtil/AgentManager.cpp): the hazard
  class of a free-text category, the canonical key at each level, and the grouping
  that keeps one representative per key.
\<close>

subsection \<open>Keys\<close>

definition hazardClass :: "string \<Rightarrow> string" where
  "hazardClass s0 =
     (let s = toLower s0; has = contains s in
      if has ''refcount'' \<or> has ''double_free'' \<or> has ''double free'' \<or> has ''reference count'' then ''refcount''
      else if has ''uaf'' \<or> has ''use-after'' \<or> has ''use after'' \<or> has ''null'' \<or> has ''lifetime'' \<or>
              has ''teardown'' \<or> has ''unbind'' \<or> has ''release'' \<or> has ''dangling'' \<or> has ''stale'' \<or>
              has ''free'' then ''lifetime''
      else if has ''publish'' \<or> has ''uninitialized'' \<or> has ''ordering'' \<or> has ''order '' \<or>
              has ''init-before'' \<or> has ''before '' then ''ordering''
      else if has ''atomic'' \<or> has ''data_race'' \<or> has ''data race'' \<or> has ''race'' \<or> has ''torn'' \<or>
              has ''rmw'' \<or> has ''lost'' \<or> has ''inconsist'' then ''atomicity''
      else ''other'')"

datatype dedup_level = Exact | Anchor | ObjectClass

definition INT_MAX :: int where "INT_MAX = 2147483647"

text \<open>The mutating node of a hypothesis: a free outranks a write, the first of equals wins.\<close>

definition kindRank :: "(int \<Rightarrow> string option) \<Rightarrow> int \<Rightarrow> int option" where
  "kindRank nodeToKind n =
     map_option (\<lambda>k. if k = ''Free'' then 2 else if k = ''Write'' then 1 else -1) (nodeToKind n)"

definition anchorScan :: "(int \<Rightarrow> string option) \<Rightarrow> int list \<Rightarrow> int \<times> int" where
  "anchorScan nodeToKind ns =
     foldl (\<lambda>(anchor, rank) n. case kindRank nodeToKind n of
              Some r \<Rightarrow> if r > rank then (n, r) else (anchor, rank)
            | None \<Rightarrow> (anchor, rank)) (-1, -1) ns"

definition canonicalKey :: "hypothesis \<Rightarrow> dedup_level \<Rightarrow> (int \<Rightarrow> int option) \<Rightarrow> (int \<Rightarrow> string option) \<Rightarrow> string" where
  "canonicalKey h level nodeToObj nodeToKind =
     (let cls = hazardClass (hy_bug_category h);
          ns = map snd (hy_nodes h);
          objs = List.map_filter nodeToObj ns;
          anyObj = (objs \<noteq> []);
          anchor = fst (anchorScan nodeToKind ns);
          minObj = foldl min INT_MAX objs;
          primaryObj = (if anchor \<ge> 0 then (case nodeToObj anchor of Some i \<Rightarrow> i | None \<Rightarrow> minObj) else minObj)
      in if level = ObjectClass \<and> anyObj then cls @ ''|obj'' @ int_to_string primaryObj
         else if level = Anchor \<and> anchor \<ge> 0 \<and> anyObj
           then cls @ ''|obj'' @ int_to_string primaryObj @ ''|a'' @ int_to_string anchor
         else cls @ ''|nset:'' @ concat (map (\<lambda>n. int_to_string n @ '','') (sort ns)))"

definition severityRank :: "string \<Rightarrow> int" where
  "severityRank s = (if s = ''high'' \<or> s = ''critical'' then 2 else if s = ''medium'' then 1 else 0)"

subsection \<open>Grouping\<close>

text \<open>Insertion that keeps an existing entry.\<close>

definition emplace :: "'k \<Rightarrow> 'v \<Rightarrow> ('k \<Rightarrow> 'v option) \<Rightarrow> 'k \<Rightarrow> 'v option" where
  "emplace k v m = (case m k of None \<Rightarrow> m(k \<mapsto> v) | Some _ \<Rightarrow> m)"

definition indexedAccesses :: "surface \<Rightarrow> (nat \<times> thread_access) list" where
  "indexedAccesses sf = filter (\<lambda>(i, a). ac_node a \<ge> 0)
     (concat (map (\<lambda>(i, ob). map (\<lambda>a. (i, a)) (so_accesses ob)) (enumerate 0 (sf_objects sf))))"

definition nodeObjMap :: "surface \<Rightarrow> int \<Rightarrow> int option" where
  "nodeObjMap sf = foldl (\<lambda>m (i, a). emplace (ac_node a) (int i) m) Map.empty (indexedAccesses sf)"

definition nodeKindMap :: "surface \<Rightarrow> int \<Rightarrow> string option" where
  "nodeKindMap sf = foldl (\<lambda>m (i, a). emplace (ac_node a) (ac_type a) m) Map.empty (indexedAccesses sf)"

definition nodeLocMap :: "surface \<Rightarrow> int \<Rightarrow> string option" where
  "nodeLocMap sf = foldl (\<lambda>m (i, a). emplace (ac_node a) (accFunction a @ '' @ '' @ ac_location a) m)
     Map.empty (indexedAccesses sf)"

definition groupBy :: "('a \<Rightarrow> string) \<Rightarrow> 'a list \<Rightarrow> (string \<times> nat list) list" where
  "groupBy key xs =
     foldl (\<lambda>m i. mapSet (key (xs ! i)) ((case map_of m (key (xs ! i)) of Some ms \<Rightarrow> ms | None \<Rightarrow> []) @ [i]) m)
       [] [0 ..< length xs]"

definition betterThan :: "hypothesis \<Rightarrow> hypothesis \<Rightarrow> bool" where
  "betterThan a b =
     (if severityRank (hy_severity a) \<noteq> severityRank (hy_severity b)
      then severityRank (hy_severity a) > severityRank (hy_severity b)
      else length (hy_nodes a) > length (hy_nodes b))"

definition bestMember :: "hypothesis list \<Rightarrow> nat list \<Rightarrow> nat" where
  "bestMember xs members =
     foldl (\<lambda>best i. if betterThan (xs ! i) (xs ! best) then i else best) (hd members) members"

fun joinSites :: "string list \<Rightarrow> string" where
  "joinSites [] = []"
| "joinSites [s] = s"
| "joinSites (s # ss) = s @ ''; '' @ joinSites ss"

definition dedupNote :: "(int \<Rightarrow> string option) \<Rightarrow> hypothesis list \<Rightarrow> nat list \<Rightarrow> nat \<Rightarrow> string" where
  "dedupNote nodeToLoc xs members best =
     (let others = filter (\<lambda>i. i \<noteq> best) members;
          sites = sorted_list_of_set (set (List.map_filter nodeToLoc
                    (concat (map (\<lambda>i. map snd (hy_nodes (xs ! i))) others))))
      in '' [dedup: merged '' @ to_string (length members - 1) @
         '' near-duplicate finding(s) of the same root cause'' @
         (if sites \<noteq> [] then ''; also observed at: '' @ joinSites (take 6 sites) @
            (if length sites \<ge> 6 then ''; ...'' else []) else []) @ '']'')"

definition representative :: "(int \<Rightarrow> string option) \<Rightarrow> hypothesis list \<Rightarrow> nat list \<Rightarrow> hypothesis" where
  "representative nodeToLoc xs members =
     (let best = bestMember xs members; rep = xs ! best
      in if length members > 1
         then rep\<lparr>hy_description := hy_description rep @ dedupNote nodeToLoc xs members best\<rparr> else rep)"

definition dedupHypotheses :: "hypothesis list \<Rightarrow> surface \<Rightarrow> dedup_level \<Rightarrow> hypothesis list" where
  "dedupHypotheses xs sf level =
     (if length xs < 2 then xs
      else let key = (\<lambda>h. canonicalKey h level (nodeObjMap sf) (nodeKindMap sf));
               groups = groupBy key xs
           in if length groups = length xs then xs
              else map (\<lambda>(k, members). representative (nodeLocMap sf) xs members) groups)"

definition dedupLevelFromEnv :: "(string \<Rightarrow> string option) \<Rightarrow> dedup_level" where
  "dedupLevelFromEnv env =
     (case env ''LACE_DEDUP_LEVEL'' of
        Some s \<Rightarrow> if s = ''exact'' then Exact
                  else if s = ''object-class'' \<or> s = ''object_class'' then ObjectClass else Anchor
      | None \<Rightarrow> Anchor)"

definition dedupEnabled :: "(string \<Rightarrow> string option) \<Rightarrow> bool" where
  "dedupEnabled env = (\<not> envFlag env ''LACE_NO_DEDUP'')"

subsection \<open>Facts\<close>

definition groupStep :: "('a \<Rightarrow> string) \<Rightarrow> 'a list \<Rightarrow> (string \<times> nat list) list \<Rightarrow> nat \<Rightarrow> (string \<times> nat list) list" where
  "groupStep key xs m i =
     mapSet (key (xs ! i)) ((case map_of m (key (xs ! i)) of Some ms \<Rightarrow> ms | None \<Rightarrow> []) @ [i]) m"

definition groupedAs :: "('a \<Rightarrow> string) \<Rightarrow> 'a list \<Rightarrow> nat list \<Rightarrow> (string \<times> nat list) list \<Rightarrow> bool" where
  "groupedAs key xs dn m \<longleftrightarrow> sorted_wrt (<) (map fst m) \<and>
     (\<forall>k. map_of m k = (let ms = filter (\<lambda>i. key (xs ! i) = k) dn in if ms = [] then None else Some ms))"

lemma groupedAs_step: "groupedAs key xs dn m \<Longrightarrow> groupedAs key xs (dn @ [i]) (groupStep key xs m i)"
  by (auto simp: groupedAs_def groupStep_def Let_def mapSet_sorted)

lemma groupedAs_fold:
  "groupedAs key xs dn m \<Longrightarrow> groupedAs key xs (dn @ rest) (foldl (groupStep key xs) m rest)"
proof (induction rest arbitrary: dn m)
  case (Cons i rest)
  from Cons.IH[OF groupedAs_step[OF Cons.prems, of i]] show ?case by simp
qed simp

lemma groupBy_grouped: "groupedAs key xs [0 ..< length xs] (groupBy key xs)"
proof -
  have "groupedAs key xs [] []" by (simp add: groupedAs_def)
  from groupedAs_fold[OF this, of "[0 ..< length xs]"] show ?thesis
    by (simp add: groupBy_def groupStep_def[abs_def])
qed

lemma groupBy_spec:
  "sorted_wrt (<) (map fst (groupBy key xs))"
  "map_of (groupBy key xs) k =
     (let ms = filter (\<lambda>i. key (xs ! i) = k) [0 ..< length xs] in if ms = [] then None else Some ms)"
  using groupBy_grouped[of key xs] by (simp_all add: groupedAs_def)

lemma groupBy_distinct: "distinct (map fst (groupBy key xs))"
  using groupBy_spec(1) strict_sorted_iff by blast

lemma groupBy_entry:
  assumes "(k, ms) \<in> set (groupBy key xs)"
  shows "ms = filter (\<lambda>i. key (xs ! i) = k) [0 ..< length xs]" "ms \<noteq> []"
proof -
  have "map_of (groupBy key xs) k = Some ms" by (rule map_of_is_SomeI[OF groupBy_distinct assms])
  then show "ms = filter (\<lambda>i. key (xs ! i) = k) [0 ..< length xs]" "ms \<noteq> []"
    unfolding groupBy_spec(2) by (auto simp: Let_def split: if_splits)
qed

lemma groupBy_keys: "set (map fst (groupBy key xs)) = key ` set xs"
proof -
  have "k \<in> set (map fst (groupBy key xs)) \<longleftrightarrow> map_of (groupBy key xs) k \<noteq> None" for k
    by (simp add: map_of_eq_None_iff)
  also have "\<dots> k \<longleftrightarrow> (\<exists>i < length xs. key (xs ! i) = k)" for k
    unfolding groupBy_spec(2) by (auto simp: Let_def filter_empty_conv)
  also have "\<dots> k \<longleftrightarrow> k \<in> key ` set xs" for k
    unfolding image_iff by (metis in_set_conv_nth)
  finally show ?thesis by blast
qed

lemma groupBy_length: "length (groupBy key xs) = card (key ` set xs)"
  using groupBy_keys[of key xs] distinct_card[OF groupBy_distinct[of key xs]] by simp

lemma bestMember_fold:
  "let b = foldl (\<lambda>best i. if betterThan (xs ! i) (xs ! best) then i else best) b0 ms in
     b \<in> insert b0 (set ms) \<and> (\<forall>i \<in> insert b0 (set ms). \<not> betterThan (xs ! i) (xs ! b))"
proof (induction ms arbitrary: b0)
  case Nil then show ?case by (simp add: betterThan_def)
next
  case (Cons i ms)
  have trans: "\<not> betterThan a b \<Longrightarrow> \<not> betterThan b c \<Longrightarrow> \<not> betterThan a c" for a b c
    by (auto simp: betterThan_def split: if_splits)
  let ?b1 = "if betterThan (xs ! i) (xs ! b0) then i else b0"
  let ?b = "foldl (\<lambda>best i. if betterThan (xs ! i) (xs ! best) then i else best) ?b1 ms"
  have IH: "?b \<in> insert ?b1 (set ms)" "\<forall>j \<in> insert ?b1 (set ms). \<not> betterThan (xs ! j) (xs ! ?b)"
    using Cons[of ?b1] unfolding Let_def by blast+
  have nb: "\<not> betterThan (xs ! b0) (xs ! ?b1) \<and> \<not> betterThan (xs ! i) (xs ! ?b1)"
    by (auto simp: betterThan_def split: if_splits)
  then have "\<not> betterThan (xs ! b0) (xs ! ?b)" "\<not> betterThan (xs ! i) (xs ! ?b)"
    using IH(2) trans by blast+
  with IH show ?case by (auto simp: Let_def)
qed

lemma bestMember_spec:
  assumes "ms \<noteq> []"
  shows "bestMember xs ms \<in> set ms" "i \<in> set ms \<Longrightarrow> \<not> betterThan (xs ! i) (xs ! bestMember xs ms)"
  using bestMember_fold[of xs "hd ms" ms] assms by (auto simp: bestMember_def Let_def insert_absorb)

lemma representative_fields [simp]:
  "hy_id (representative L xs ms) = hy_id (xs ! bestMember xs ms)"
  "hy_nodes (representative L xs ms) = hy_nodes (xs ! bestMember xs ms)"
  "hy_bug_category (representative L xs ms) = hy_bug_category (xs ! bestMember xs ms)"
  "hy_severity (representative L xs ms) = hy_severity (xs ! bestMember xs ms)"
  "hy_constraints (representative L xs ms) = hy_constraints (xs ! bestMember xs ms)"
  by (simp_all add: representative_def Let_def)

lemma canonicalKey_cong:
  "hy_nodes h = hy_nodes h' \<Longrightarrow> hy_bug_category h = hy_bug_category h' \<Longrightarrow>
     canonicalKey h level o' k = canonicalKey h' level o' k"
  by (simp add: canonicalKey_def)

text \<open>Every input is represented: same key, at least its severity, and an input's own nodes.\<close>

lemma dedup_represents:
  fixes sf level
  defines "key \<equiv> \<lambda>h. canonicalKey h level (nodeObjMap sf) (nodeKindMap sf)"
  assumes "h \<in> set xs"
  shows "\<exists>r \<in> set (dedupHypotheses xs sf level). key r = key h \<and> severityRank (hy_severity h) \<le> severityRank (hy_severity r)"
proof (cases "length xs < 2 \<or> length (groupBy key xs) = length xs")
  case True
  then have "dedupHypotheses xs sf level = xs" by (auto simp: dedupHypotheses_def Let_def key_def)
  with assms(2) show ?thesis by auto
next
  case False
  then have d: "dedupHypotheses xs sf level = map (\<lambda>(k, ms). representative (nodeLocMap sf) xs ms) (groupBy key xs)"
    by (simp add: dedupHypotheses_def Let_def key_def)
  have "key h \<in> set (map fst (groupBy key xs))" using assms(2) unfolding groupBy_keys by blast
  then obtain ms where ms: "(key h, ms) \<in> set (groupBy key xs)" by auto
  note E = groupBy_entry[OF ms]
  obtain i where i: "i < length xs" "xs ! i = h" using assms(2) by (auto simp: in_set_conv_nth)
  then have im: "i \<in> set ms" using E(1) by simp
  let ?b = "bestMember xs ms" and ?r = "representative (nodeLocMap sf) xs ms"
  have b: "?b \<in> set ms" "\<not> betterThan h (xs ! ?b)" using bestMember_spec[OF E(2)] im i(2) by auto
  have "key ?r = key (xs ! ?b)" unfolding key_def by (rule canonicalKey_cong) simp_all
  also have "\<dots> = key h" using b(1) E(1) by simp
  finally have "key ?r = key h" .
  moreover have "severityRank (hy_severity h) \<le> severityRank (hy_severity ?r)"
    using b(2) by (auto simp: betterThan_def split: if_splits)
  moreover have "?r \<in> set (dedupHypotheses xs sf level)" unfolding d using ms by force
  ultimately show ?thesis by blast
qed

lemma dedup_from_input:
  assumes "r \<in> set (dedupHypotheses xs sf level)"
  shows "\<exists>h \<in> set xs. \<exists>note. r = h\<lparr>hy_description := hy_description h @ note\<rparr>"
proof (cases "r \<in> set xs")
  case True
  then show ?thesis by (intro bexI[of _ r] exI[of _ "[]"]) simp_all
next
  case False
  let ?key = "\<lambda>h. canonicalKey h level (nodeObjMap sf) (nodeKindMap sf)"
  from assms False obtain k ms where ms: "(k, ms) \<in> set (groupBy ?key xs)" "r = representative (nodeLocMap sf) xs ms"
    by (auto simp: dedupHypotheses_def Let_def split: if_splits)
  note E = groupBy_entry[OF ms(1)]
  have "bestMember xs ms \<in> set ms" using bestMember_spec(1)[OF E(2)] .
  then have "xs ! bestMember xs ms \<in> set xs" using E(1) by simp
  moreover have "\<exists>note. r = (xs ! bestMember xs ms)\<lparr>hy_description := hy_description (xs ! bestMember xs ms) @ note\<rparr>"
  proof (cases "length ms > 1")
    case True then show ?thesis unfolding ms(2) representative_def Let_def by auto
  next
    case False then show ?thesis unfolding ms(2) representative_def Let_def by (intro exI[of _ "[]"]) simp
  qed
  ultimately show ?thesis by blast
qed

lemma dedup_length:
  fixes sf level
  defines "key \<equiv> \<lambda>h. canonicalKey h level (nodeObjMap sf) (nodeKindMap sf)"
  assumes "2 \<le> length xs"
  shows "length (dedupHypotheses xs sf level) = card (key ` set xs)"
  using assms(2) groupBy_length[of key xs] by (simp add: dedupHypotheses_def Let_def key_def)

end
