(* ===== verification/Budget.thy ===== *)
theory Budget
  imports PhaseB
begin

text \<open>
  The cost budgets of the contract pipeline (src/LLMUtil/AgentManager.cpp): which
  surface objects are analysed, how they are cut into sessions, and which threads get
  a contract.  Sets of ids are lists in increasing order; scores are unbounded
  integers (the sums of the code stay far below the range of int).
\<close>

subsection \<open>Scores\<close>

definition surfaceBudgetEnabled :: "(string \<Rightarrow> string option) \<Rightarrow> bool" where
  "surfaceBudgetEnabled env = (\<not> envFlag env ''LACE_DISABLE_SURFACE_BUDGET'')"

definition sessionBudgetEnabled :: "(string \<Rightarrow> string option) \<Rightarrow> bool" where
  "sessionBudgetEnabled env = (\<not> envFlag env ''LACE_DISABLE_SESSION_BUDGET'')"

definition calibrateMedOnlyEnabled :: "(string \<Rightarrow> string option) \<Rightarrow> config \<Rightarrow> bool" where
  "calibrateMedOnlyEnabled env cfg =
     (case env ''LACE_CALIBRATE_MED_ONLY'' of Some _ \<Rightarrow> envFlag env ''LACE_CALIBRATE_MED_ONLY'' | None \<Rightarrow> enabled cfg)"

definition forceKeepObject :: "shared_object \<Rightarrow> bool" where
  "forceKeepObject ob \<longleftrightarrow> has_free_operation ob \<or> has_list_mutation ob \<or> is_self_race ob"

definition objectPriorityScore :: "flow_prior \<Rightarrow> shared_object \<Rightarrow> int" where
  "objectPriorityScore fp ob =
     risk_score ob + (if has_free_operation ob then 600 else 0) + (if has_list_mutation ob then 300 else 0) +
     (if is_self_race ob then 250 else 0) + (if has_unprotected_write ob then 120 else 0) +
     (if has_cross_thread_rw ob then 80 else 0) + (if has_missing_atomic_annotation ob then 40 else 0) +
     objectFlowScore fp ob"

definition hugeSurface :: "surface \<Rightarrow> bool" where
  "hugeSurface sf \<longleftrightarrow> conflicting_pair_count sf \<ge> 1500 \<or> total_thread_count sf \<ge> 120 \<or> length (sf_objects sf) \<ge> 800"

definition largeSurface :: "surface \<Rightarrow> bool" where
  "largeSurface sf \<longleftrightarrow> hugeSurface sf \<or> conflicting_pair_count sf \<ge> 500 \<or> total_thread_count sf \<ge> 60 \<or>
     length (sf_objects sf) \<ge> 300"

definition sessionFlowPriorScore :: "flow_prior \<Rightarrow> shared_object list \<Rightarrow> int" where
  "sessionFlowPriorScore fp obs = foldl (\<lambda>s ob. s + objectFlowScore fp ob) 0 obs"

subsection \<open>The object budget\<close>

record budget =
  bg_reduced :: "nat list"
  bg_perSet :: "int set \<Rightarrow> nat"
  bg_budgeted :: nat

definition budgetStep :: "surface \<Rightarrow> int \<Rightarrow> int \<Rightarrow> budget \<Rightarrow> nat \<Rightarrow> budget" where
  "budgetStep sf globalCap perSetCap b i =
     (let ob = sf_objects sf ! i in
      if forceKeepObject ob then b\<lparr>bg_reduced := List.insert i (bg_reduced b)\<rparr>
      else if int (bg_budgeted b) \<ge> globalCap then b
      else let ts = (if accessing_thread_ids ob = {} then {-1} else accessing_thread_ids ob) in
        if int (bg_perSet b ts) \<ge> perSetCap then b
        else b\<lparr>bg_reduced := List.insert i (bg_reduced b), bg_perSet := (bg_perSet b)(ts := Suc (bg_perSet b ts)),
               bg_budgeted := Suc (bg_budgeted b)\<rparr>)"

definition applyCostFirstSurfaceBudget :: "(string \<Rightarrow> string option) \<Rightarrow> surface \<Rightarrow> flow_prior \<Rightarrow> nat list \<Rightarrow> nat list" where
  "applyCostFirstSurfaceBudget env sf fp objKeep =
     (if \<not> surfaceBudgetEnabled env \<or> length objKeep \<le> 80 then objKeep
      else if \<not> (length (sf_objects sf) \<ge> 1200 \<or> conflicting_pair_count sf \<ge> 50000) then objKeep
      else
        let globalCap = envLimit env ''LACE_SURFACE_GLOBAL_CAP'' 300;
            perSetCap = envLimit env ''LACE_SURFACE_PER_THREADSET_CAP'' 6;
            order = sort_key (\<lambda>i. - objectPriorityScore fp (sf_objects sf ! i)) objKeep;
            reduced = bg_reduced (foldl (budgetStep sf globalCap perSetCap)
              \<lparr>bg_reduced = [], bg_perSet = (\<lambda>_. 0), bg_budgeted = 0\<rparr> order)
        in if length reduced < length objKeep then sort reduced else objKeep)"

subsection \<open>Sessions\<close>

record chunk =
  ch_threads :: "int list"
  ch_objects :: "ptr list"
  ch_score :: int

function chunksOf :: "nat \<Rightarrow> 'a list \<Rightarrow> 'a list list" where
  "chunksOf n xs = (if xs = [] \<or> n = 0 then [] else take n xs # chunksOf n (drop n xs))"
  by pat_completeness auto
termination by (relation "measure (\<lambda>(n, xs). length xs)") auto

declare chunksOf.simps [simp del]

definition clusterChunks :: "(ptr \<Rightarrow> shared_object) \<Rightarrow> flow_prior \<Rightarrow> nat \<Rightarrow> int list \<times> ptr list \<Rightarrow> chunk list" where
  "clusterChunks oh fp maxObjs cl =
     (case cl of (ts, objs) \<Rightarrow>
        map (\<lambda>os. \<lparr>ch_threads = ts, ch_objects = os,
               ch_score = sum_list (map (\<lambda>p. objectPriorityScore fp (oh p)) os) - int (length ts) * 3\<rparr>)
          (chunksOf maxObjs (sort_key (\<lambda>p. - objectPriorityScore fp (oh p)) objs)))"

definition buildBudgetedSessions :: "(string \<Rightarrow> string option) \<Rightarrow> (ptr \<Rightarrow> shared_object) \<Rightarrow> flow_prior \<Rightarrow> surface \<Rightarrow>
    nat \<Rightarrow> (int list \<times> ptr list) list \<Rightarrow> (int list \<times> ptr list) list" where
  "buildBudgetedSessions env oh fp sf maxObjs clusters =
     (let chunks = sort_key (\<lambda>c. (- ch_score c, - int (length (ch_objects c)), int (length (ch_threads c))))
            (concat (map (clusterChunks oh fp maxObjs) clusters));
          defaultCap = (if hugeSurface sf then 35 else if largeSurface sf then 50 else 70);
          cap = nat (envLimit env ''LACE_SESSION_CAP'' defaultCap);
          limit = (if sessionBudgetEnabled env then min (length chunks) cap else length chunks)
      in map (\<lambda>c. (ch_threads c, ch_objects c)) (take limit chunks))"

subsection \<open>The contract threads\<close>

definition scoreAdd :: "int \<Rightarrow> int \<Rightarrow> (int \<times> int) list \<Rightarrow> (int \<times> int) list" where
  "scoreAdd t v m = mapSet t ((case map_of m t of Some w \<Rightarrow> w | None \<Rightarrow> 0) + v) m"

record thread_budget =
  tb_score :: "(int \<times> int) list"
  tb_tct :: tct

definition threadGate :: "session \<Rightarrow> int \<Rightarrow> int \<Rightarrow> tct \<Rightarrow> bool \<times> tct" where
  "threadGate s t1 t2 T =
     (case (s_threadById s t1, s_threadById s t2) of
        (Some a, Some b) \<Rightarrow>
          if a \<noteq> null \<and> b \<noteq> null then mayHappenInParallel (s_cfg s) (s_shared s) (s_ccpg s) a b T
          else (True, T)
      | _ \<Rightarrow> (True, T))"

definition pairBonus :: "shared_object \<Rightarrow> int \<Rightarrow> acc_kind \<Rightarrow> acc_kind \<Rightarrow> int" where
  "pairBonus ob os k1 k2 =
     os + (if k_free k1 \<or> k_free k2 \<or> has_free_operation ob then 700
           else if has_list_mutation ob then 350
           else if k_write k1 \<or> k_write k2 then 180 else 0)"

definition kindWeight :: "acc_kind \<Rightarrow> int" where
  "kindWeight k = (if k_free k then 300 else if k_write k then 120 else 30)"

definition scorePair :: "session \<Rightarrow> shared_object \<Rightarrow> int \<Rightarrow> thread_budget \<Rightarrow> int \<times> int \<Rightarrow> thread_budget" where
  "scorePair s ob os b pr =
     (case pr of (t1, t2) \<Rightarrow> case threadGate s t1 t2 (tb_tct b) of (par, T) \<Rightarrow>
        let b' = b\<lparr>tb_tct := T\<rparr>; k1 = threadAccessKind ob t1; k2 = threadAccessKind ob t2 in
        if \<not> par then b'
        else if \<not> conflicting k1 k2 then b'
        else b'\<lparr>tb_score := scoreAdd t2 (pairBonus ob os k1 k2 + kindWeight k2)
               (scoreAdd t1 (pairBonus ob os k1 k2 + kindWeight k1) (tb_score b'))\<rparr>)"

definition scoreObject :: "session \<Rightarrow> flow_prior \<Rightarrow> bool \<Rightarrow> int list \<Rightarrow> thread_budget \<Rightarrow> ptr \<Rightarrow> thread_budget" where
  "scoreObject s fp fullMode ts b p =
     (if p = null then b
      else let ob = s_oh s p; os = objectPriorityScore fp ob in
        if fullMode then b\<lparr>tb_score := foldl (\<lambda>m t. scoreAdd t os m) (tb_score b) ts\<rparr>
        else
          let tids = filter (\<lambda>t. t \<in> set ts) (sorted_list_of_set (accessing_thread_ids ob));
              b1 = (if is_self_race ob \<and> length tids = 1 \<and> kindTouch (threadAccessKind ob (hd tids))
                    then b\<lparr>tb_score := scoreAdd (hd tids) (os + 350) (tb_score b)\<rparr> else b)
          in foldl (scorePair s ob os) b1 (tidPairs tids))"

definition budgetContractThreads :: "session \<Rightarrow> surface \<Rightarrow> flow_prior \<Rightarrow> (int list \<times> ptr list) list \<Rightarrow> tct \<Rightarrow> int list \<times> tct" where
  "budgetContractThreads s sf fp sessions T =
     (let fullMode = (s_env s ''LACE_PHASE_A_MODE'' = Some ''full'');
          b = foldl (\<lambda>b (ts, objs). foldl (scoreObject s fp fullMode ts) b objs) \<lparr>tb_score = [], tb_tct = T\<rparr> sessions;
          ranked = sort_key (\<lambda>(t, v). (- v, t)) (tb_score b);
          defaultCap = (if hugeSurface sf then 30 else if largeSurface sf then 45 else 90);
          cap = nat (envLimit (s_env s) ''LACE_CONTRACT_THREAD_CAP'' defaultCap)
      in (sort (map fst (take cap ranked)), tb_tct b))"

subsection \<open>Facts on the object budget\<close>

definition budget_inv :: "surface \<Rightarrow> int \<Rightarrow> nat list \<Rightarrow> budget \<Rightarrow> bool" where
  "budget_inv sf globalCap dn b \<longleftrightarrow> set (bg_reduced b) \<subseteq> set dn \<and> distinct (bg_reduced b) \<and>
     (\<forall>i \<in> set dn. forceKeepObject (sf_objects sf ! i) \<longrightarrow> i \<in> set (bg_reduced b)) \<and>
     length (filter (\<lambda>i. \<not> forceKeepObject (sf_objects sf ! i)) (bg_reduced b)) = bg_budgeted b \<and>
     int (bg_budgeted b) \<le> max 0 globalCap"

lemma budget_inv_step:
  assumes "budget_inv sf globalCap dn b" "i \<notin> set dn"
  shows "budget_inv sf globalCap (dn @ [i]) (budgetStep sf globalCap perSetCap b i)"
proof -
  have i: "i \<notin> set (bg_reduced b)" using assms by (auto simp: budget_inv_def)
  show ?thesis
    using assms(1) i unfolding budget_inv_def budgetStep_def Let_def by auto
qed

lemma budget_inv_fold:
  "budget_inv sf globalCap dn b \<Longrightarrow> distinct (dn @ order) \<Longrightarrow>
     budget_inv sf globalCap (dn @ order) (foldl (budgetStep sf globalCap perSetCap) b order)"
proof (induction order arbitrary: dn b)
  case (Cons i order)
  have "budget_inv sf globalCap (dn @ [i]) (budgetStep sf globalCap perSetCap b i)"
    using Cons.prems by (intro budget_inv_step) auto
  from Cons.IH[OF this] Cons.prems(2) show ?case by simp
qed simp

lemma surfaceBudget_spec:
  fixes env sf fp objKeep
  assumes "distinct objKeep"
  defines "r \<equiv> applyCostFirstSurfaceBudget env sf fp objKeep"
  shows "set r \<subseteq> set objKeep"
    "i \<in> set objKeep \<Longrightarrow> forceKeepObject (sf_objects sf ! i) \<Longrightarrow> i \<in> set r"
    "length (sf_objects sf) < 1200 \<Longrightarrow> conflicting_pair_count sf < 50000 \<Longrightarrow> r = objKeep"
    "r = objKeep \<or> int (length (filter (\<lambda>i. \<not> forceKeepObject (sf_objects sf ! i)) r)) \<le>
       envLimit env ''LACE_SURFACE_GLOBAL_CAP'' 300"
proof -
  let ?cap = "envLimit env ''LACE_SURFACE_GLOBAL_CAP'' 300"
  let ?order = "sort_key (\<lambda>i. - objectPriorityScore fp (sf_objects sf ! i)) objKeep"
  let ?b = "foldl (budgetStep sf ?cap (envLimit env ''LACE_SURFACE_PER_THREADSET_CAP'' 6))
      \<lparr>bg_reduced = [], bg_perSet = (\<lambda>_. 0), bg_budgeted = 0\<rparr> ?order"
  have cap0: "0 \<le> ?cap" by (auto simp: envLimit_def split: option.splits)
  have "budget_inv sf ?cap [] \<lparr>bg_reduced = [], bg_perSet = (\<lambda>_. 0), bg_budgeted = 0\<rparr>"
    by (simp add: budget_inv_def)
  from budget_inv_fold[OF this, of ?order] assms(1) have inv: "budget_inv sf ?cap ?order ?b" by simp
  have c: "r = objKeep \<or> r = sort (bg_reduced ?b)"
    by (simp add: r_def applyCostFirstSurfaceBudget_def Let_def)
  have srt: "filter P (sort xs) = sort (filter P xs)" for P and xs :: "nat list" by (simp add: filter_sort)
  show "set r \<subseteq> set objKeep" using c inv by (auto simp: budget_inv_def)
  show "i \<in> set objKeep \<Longrightarrow> forceKeepObject (sf_objects sf ! i) \<Longrightarrow> i \<in> set r"
    using c inv by (auto simp: budget_inv_def)
  show "length (sf_objects sf) < 1200 \<Longrightarrow> conflicting_pair_count sf < 50000 \<Longrightarrow> r = objKeep"
    by (simp add: r_def applyCostFirstSurfaceBudget_def)
  show "r = objKeep \<or> int (length (filter (\<lambda>i. \<not> forceKeepObject (sf_objects sf ! i)) r)) \<le> ?cap"
    using c inv cap0 by (auto simp: budget_inv_def srt)
qed

subsection \<open>Facts on sessions\<close>

lemma chunksOf_concat: "0 < n \<Longrightarrow> concat (chunksOf n xs) = xs"
proof (induction n xs rule: chunksOf.induct)
  case (1 n xs)
  show ?case by (subst chunksOf.simps) (use 1 in simp)
qed

lemma chunksOf_length: "c \<in> set (chunksOf n xs) \<Longrightarrow> 0 < length c \<and> length c \<le> n"
proof (induction n xs rule: chunksOf.induct)
  case (1 n xs)
  show ?case
  proof (cases "xs = [] \<or> n = 0")
    case True
    with 1(2) show ?thesis by (simp add: chunksOf.simps[of n xs])
  next
    case False
    then have "c = take n xs \<or> c \<in> set (chunksOf n (drop n xs))"
      using 1(2) by (simp add: chunksOf.simps[of n xs])
    then show ?thesis using 1(1)[OF False] False by auto
  qed
qed

lemma clusterChunks_objects:
  assumes "0 < n"
  shows "(\<Union>c \<in> set (clusterChunks oh fp n (ts, objs)). set (ch_objects c)) = set objs"
proof -
  let ?xs = "sort_key (\<lambda>p. - objectPriorityScore fp (oh p)) objs"
  have "(\<Union>c \<in> set (clusterChunks oh fp n (ts, objs)). set (ch_objects c)) = (\<Union>c \<in> set (chunksOf n ?xs). set c)"
    by (simp add: clusterChunks_def)
  also have "\<dots> = set (concat (chunksOf n ?xs))" by simp
  also have "\<dots> = set objs" by (simp add: chunksOf_concat[OF assms])
  finally show ?thesis .
qed

lemma clusterChunks_shape:
  "c \<in> set (clusterChunks oh fp n (ts, objs)) \<Longrightarrow>
     ch_threads c = ts \<and> 0 < length (ch_objects c) \<and> length (ch_objects c) \<le> n \<and> set (ch_objects c) \<subseteq> set objs"
proof -
  assume c: "c \<in> set (clusterChunks oh fp n (ts, objs))"
  let ?xs = "sort_key (\<lambda>p. - objectPriorityScore fp (oh p)) objs"
  obtain os where o': "os \<in> set (chunksOf n ?xs)" "ch_threads c = ts" "ch_objects c = os"
    using c by (auto simp: clusterChunks_def)
  have "n \<noteq> 0" using o'(1) chunksOf_length by fastforce
  then have "set os \<subseteq> set (concat (chunksOf n ?xs))" using o'(1) by auto
  then show ?thesis using o' chunksOf_length[OF o'(1)] \<open>n \<noteq> 0\<close> by (simp add: chunksOf_concat)
qed

lemma sessions_shape:
  assumes "(ts, objs) \<in> set (buildBudgetedSessions env oh fp sf n clusters)"
  shows "0 < length objs \<and> length objs \<le> n \<and> (\<exists>os. (ts, os) \<in> set clusters \<and> set objs \<subseteq> set os)"
proof -
  obtain c where c: "c \<in> set (concat (map (clusterChunks oh fp n) clusters))" "ts = ch_threads c" "objs = ch_objects c"
    using assms unfolding buildBudgetedSessions_def Let_def by (auto dest: in_set_takeD)
  then obtain ts' os where "(ts', os) \<in> set clusters" "c \<in> set (clusterChunks oh fp n (ts', os))" by auto
  from clusterChunks_shape[OF this(2)] this(1) c(2,3) show ?thesis by auto
qed

lemma sessions_count:
  "sessionBudgetEnabled env \<Longrightarrow> int (length (buildBudgetedSessions env oh fp sf n clusters)) \<le>
     envLimit env ''LACE_SESSION_CAP'' (if hugeSurface sf then 35 else if largeSurface sf then 50 else 70)"
  by (auto simp: buildBudgetedSessions_def Let_def envLimit_def split: option.splits)

lemma sessions_complete:
  assumes "\<not> sessionBudgetEnabled env" "0 < n" "(ts, os) \<in> set clusters" "p \<in> set os"
  shows "\<exists>objs. (ts, objs) \<in> set (buildBudgetedSessions env oh fp sf n clusters) \<and> p \<in> set objs"
proof -
  obtain c where c: "c \<in> set (clusterChunks oh fp n (ts, os))" "p \<in> set (ch_objects c)"
    using clusterChunks_objects[OF assms(2), of oh fp ts os] assms(4) by blast
  have "ch_threads c = ts" using clusterChunks_shape[OF c(1)] by simp
  moreover have "c \<in> set (concat (map (clusterChunks oh fp n) clusters))" using assms(3) c(1) by force
  ultimately show ?thesis
    using assms(1) c(2) unfolding buildBudgetedSessions_def Let_def by (force simp: image_iff)
qed

end
