(* ===== verification/PipelineProps.thy ===== *)
theory PipelineProps
  imports PhaseBFacts Dedup Budget Samples
begin

text \<open>
  The properties of the surface-driven pipeline (src/LLMUtil/AgentManager.cpp): the
  deterministic composition of contracts over a session, the merging, selection and
  deduplication of its findings, and the cost budgets, each with a witness where it has
  hypotheses.
\<close>

subsection \<open>Closed inputs\<close>

definition excludeClause :: order_clause where
  "excludeClause = \<lparr>cl_resource = [], cl_objectId = 0, cl_objectIds = [], cl_sites = [], cl_assume = [],
     cl_guarantee = [\<lparr>pv_relation = ''EXCLUDE'', pv_detail = [], pv_provenance = []\<rparr>],
     cl_noOrderNeeded = False, cl_noOrderReason = []\<rparr>"

definition sampleSession :: "bool \<Rightarrow> string \<Rightarrow> session" where
  "sampleSession keep lk = \<lparr>s_env = noEnv, s_cfg = \<lparr>enabled = False, selfRace = False, roots = [], cores = {}\<rparr>,
     s_shared = None, s_ccpg = sampleCcpg, s_oh = (\<lambda>_. sampleObject lk),
     s_contracts = (\<lambda>t. if lk \<noteq> [] then Some (addClause excludeClause (newContract t 1)) else None),
     s_objIndex = (\<lambda>_. Some 0), s_threadById = (\<lambda>_. None), s_keepLow = keep\<rparr>"

lemma sample_flags [simp]:
  "\<not> trustHardNonLockDischarge noEnv" "\<not> noDeterministicDischargeEnabled noEnv" "\<not> keepLockedNullHazardsEnabled noEnv"
  by (simp_all add: noEnv_def trustHardNonLockDischarge_def noDeterministicDischargeEnabled_def
      keepLockedNullHazardsEnabled_def envFlag_def)

lemma sampleSession_sel [simp]:
  "s_env (sampleSession keep lk) = noEnv" "\<not> enabled (s_cfg (sampleSession keep lk))"
  "s_oh (sampleSession keep lk) p = sampleObject lk" "s_objIndex (sampleSession keep lk) p = Some 0"
  "s_keepLow (sampleSession keep lk) = keep"
  by (simp_all add: sampleSession_def)

lemma sample_gate [simp]: "mhpGate (sampleSession keep lk) ob t1 t2 T = (True, T)"
  by (simp add: mhpGate_def sampleSession_def)

lemma sample_conflict [simp]:
  "conflicting (threadAccessKind (sampleObject lk) 1) (threadAccessKind (sampleObject lk) 2)"
  by (simp add: conflicting_def kindTouch_iff kindMutates_def) (simp add: sampleObject_def sampleAccess_def)

lemma sample_threads [simp]: "accessing_thread_ids (sampleObject lk) = {1, 2}"
  by (simp add: sampleObject_def)

definition noPrior :: flow_prior where
  "noPrior = \<lparr>fp_enabled = False, fp_functions = [], fp_files = []\<rparr>"

definition sampleCand :: phaseb_cand where
  "sampleCand = \<lparr>pb_objectId = 0, pb_object = 1, pb_tier = ''low'', pb_label = rawLabel, pb_reqT = 1, pb_violT = 2,
     pb_reqKind = \<lparr>k_read = False, k_write = True, k_free = False\<rparr>,
     pb_violKind = \<lparr>k_read = True, k_write = False, k_free = False\<rparr>, pb_reqClause = None, pb_violClause = None,
     pb_violAccess = None, pb_anchor = None, pb_merged = 1, pb_alternates = []\<rparr>"

subsection \<open>Composition\<close>

text \<open>C6. Unless the discharge on unverified mechanisms is switched on, a pair of threads is
  only discharged on evidence of both kinds: no access of either thread frees the object, all
  of them hold a lock, the two threads share one, and a contract clause of one of them states a
  guarantee on the object.\<close>

theorem discharge_needs_evidence:
  assumes "pairDischarged s oi ob t1 t2" "\<not> trustHardNonLockDischarge (s_env s)"
  shows "(\<forall>a \<in> set (so_accesses ob). ac_thread a \<in> {t1, t2} \<longrightarrow> underLock a \<and> ac_type a \<noteq> ''Free'') \<and>
     (\<exists>a \<in> set (so_accesses ob). \<exists>b \<in> set (so_accesses ob).
        ac_thread a = t1 \<and> ac_thread b = t2 \<and> ac_lock a = ac_lock b) \<and>
     (\<exists>t \<in> {t1, t2}. \<exists>k c. s_contracts s t = Some k \<and> clauseForObject (s_env s) k oi ob = Some c \<and> cl_guarantee c \<noteq> [])"
proof -
  have d: "lockDischarge s oi ob t1 t2" using assms(1) unfolding pairDischarged_untrusted[OF assms(2)] by blast
  show ?thesis
    using lockDischarge_evidence(1)[OF d] lockDischarge_evidence(2,3)[OF d] by (intro conjI) blast+
qed

lemma sample_discharged: "pairDischarged (sampleSession keep ''l'') 0 (sampleObject ''l'') 1 2"
proof -
  have "clauseOf (sampleSession keep ''l'') 0 (sampleObject ''l'') 1 = Some excludeClause"
    by (simp add: clauseOf_def sampleSession_def clauseForObject_def addClause_def newContract_def excludeClause_def)
  moreover have "establishesOrder (Some excludeClause)" by (simp add: establishesOrder_def excludeClause_def; code_simp)
  moreover have "surfaceSharedLock (sampleObject ''l'') 1 2"
    by (simp add: surfaceSharedLock_iff sampleObject_def sampleAccess_def underLock_def)
  moreover have "\<not> k_free (threadAccessKind (sampleObject ''l'') t)" for t
    by (simp add: sampleObject_def sampleAccess_def)
  ultimately show ?thesis
    by (simp add: pairDischarged_untrusted lockDischarge_def semanticNullHazard_def)
qed

theorem discharge_needs_evidence_witness:
  "pairDischarged (sampleSession False ''l'') 0 (sampleObject ''l'') 1 2 \<and>
   (\<exists>a \<in> set (so_accesses (sampleObject ''l'')). \<exists>b \<in> set (so_accesses (sampleObject ''l'')). ac_lock a = ac_lock b)"
  using discharge_needs_evidence[OF sample_discharged, of False] sample_discharged by auto


text \<open>Two threads with thread objects: siblings of one parent, which may happen in parallel, and
  the same two once the first is joined before the second is created.\<close>

definition gatedSession :: session where
  "gatedSession = (sampleSession False [])\<lparr>s_threadById := \<lambda>t. Some (nat t + 1)\<rparr>"

definition joinedTree :: tct where
  "joinedTree = sampleTree\<lparr>threadH := (\<lambda>t. (thr sampleTree t)\<lparr>joinNode := 5, forkNode := 5\<rparr>)\<rparr>"


text \<open>Every candidate of the composition is grounded: it is about an indexed object of the
  session and a conflicting pair of its accessing threads, and no discharge covers the pair.\<close>

theorem candidates_grounded:
  assumes "c \<in> set (c_raw (composeRaw s objs T))" "finite (accessing_thread_ids (s_oh s (pb_object c)))"
  shows "\<exists>t1 t2. {pb_reqT c, pb_violT c} = {t1, t2} \<and> t1 < t2 \<and>
     {t1, t2} \<subseteq> accessing_thread_ids (s_oh s (pb_object c)) \<and>
     pb_object c \<in> set objs \<and> s_objIndex s (pb_object c) = Some (pb_objectId c) \<and>
     conflicting (threadAccessKind (s_oh s (pb_object c)) t1) (threadAccessKind (s_oh s (pb_object c)) t2) \<and>
     \<not> pairDischarged s (pb_objectId c) (s_oh s (pb_object c)) t1 t2"
proof -
  obtain t1 t2 where t: "(t1, t2) \<in> set (tidPairs (sorted_list_of_set (accessing_thread_ids (s_oh s (pb_object c)))))"
    "conflicting (threadAccessKind (s_oh s (pb_object c)) t1) (threadAccessKind (s_oh s (pb_object c)) t2)"
    "judgePair s (pb_objectId c) (pb_object c) t1 t2 = Inr c"
    and o': "pb_object c \<in> set objs" "s_objIndex s (pb_object c) = Some (pb_objectId c)"
    using composeRaw_candOk[OF assms(1)] unfolding candOk_def by blast
  have "t1 < t2" "{t1, t2} \<subseteq> accessing_thread_ids (s_oh s (pb_object c))"
    using t(1) tidPairs_sorted[OF assms(2)] by auto
  moreover have "{pb_reqT c, pb_violT c} = {t1, t2}" using judgePair_cand(5)[OF t(3)] by auto
  ultimately show ?thesis using t(2) o' judgePair_cand(8)[OF t(3)] by blast
qed

theorem candidates_grounded_witness:
  "\<exists>c \<in> set (c_raw (composeRaw (sampleSession True []) [1] sampleTree)). pb_objectId c = 0 \<and> pb_object c = 1"
proof -
  let ?s = "sampleSession True []"
  have "\<not> pairDischarged ?s 0 (sampleObject []) 1 2"
    by (simp add: pairDischarged_untrusted lockDischarge_def surfaceSharedLock_iff)
      (simp add: sampleObject_def sampleAccess_def underLock_def)
  then have "\<exists>c. judgePair ?s 0 1 1 2 = Inr c"
    by (simp add: judgePair_def Let_def split: prod.split)
  then obtain c where "judgePair ?s 0 1 1 2 = Inr c" ..
  from composeRaw_complete[of 1 "[1]" ?s 0 1 2 c sampleTree, OF _ _ _ _ _ _ _ _ _ this]
  have c: "c \<in> set (c_raw (composeRaw ?s [1] sampleTree))" by simp
  from candidates_grounded[OF c] have "pb_object c \<in> set [1]" "s_objIndex ?s (pb_object c) = Some (pb_objectId c)"
    by auto
  with c show ?thesis by (intro bexI[OF _ c]) simp
qed

text \<open>Merging candidates by their mutating anchor loses nothing: the group sizes add up to
  the number of candidates, and every candidate's group is represented at least at its tier.\<close>

theorem merge_conserves:
  assumes "\<forall>c \<in> set raw. pb_merged c = 1 \<and> pb_alternates c = []"
  shows "(\<Sum>(k, r) \<leftarrow> mergeByAnchor s raw. pb_merged r) = length raw \<and>
     (\<forall>c \<in> set raw. \<exists>r. map_of (mergeByAnchor s raw) (mergeKey s c) = Some r \<and>
        tierRank (pb_tier c) \<le> tierRank (pb_tier r) \<and> Suc (length (pb_alternates r)) = pb_merged r)"
  using mergeByAnchor_ok[OF assms, of s] unfolding mergeOk_def mergedOf_def
  by (auto simp: case_prod_unfold)

theorem merge_conserves_witness:
  "(\<Sum>(k, r) \<leftarrow> mergeByAnchor (sampleSession True []) [sampleCand\<lparr>pb_merged := 1, pb_alternates := []\<rparr>, sampleCand\<lparr>pb_merged := 1, pb_alternates := []\<rparr>].
      pb_merged r) = 2"
  using merge_conserves[of "[sampleCand\<lparr>pb_merged := 1, pb_alternates := []\<rparr>, sampleCand\<lparr>pb_merged := 1, pb_alternates := []\<rparr>]" "sampleSession True []"] by simp

text \<open>C35. What a session hands to review stays in rank order and within every cap, and a
  session that does not keep low-tier findings hands on none of them.\<close>

theorem selection_capped:
  fixes s objs T
  defines "k \<equiv> b2cCaps s" and "sel \<equiv> v_selected (composeVerdict s objs T)"
  shows "int (length sel) \<le> maxTotal k \<and> int (tierCount ''high'' sel) \<le> maxHigh k \<and>
     int (tierCount ''medium'' sel) \<le> maxMed k \<and> int (lowCount sel) \<le> maxLow k \<and>
     sorted (map (candRank s) sel) \<and> (\<not> s_keepLow s \<longrightarrow> lowCount sel = 0)"
proof -
  define cands where "cands = sort_key (candRank s) (map snd (mergeByAnchor s (c_raw (composeRaw s objs T))))"
  have sel: "sel = selectCands k cands 0 0 0 []"
    by (simp add: sel_def k_def cands_def composeVerdict_def Let_def)
  have cap: "0 \<le> maxHigh k" "0 \<le> maxMed k" "0 \<le> maxLow k" "0 \<le> maxTotal k"
    by (auto simp: k_def b2cCaps_def envLimit_def split: option.splits)
  have ext: "subseq sel cands" using selectCands_extends[of "[]" cands k 0 0 0] by (auto simp: sel extendsSel_def)
  have "sorted (map (candRank s) cands)" by (simp add: cands_def)
  then have srt: "sorted (map (candRank s) sel)"
    using subseq_sorted_list[OF subseq_map[OF ext]] by blast
  have caps: "int (tierCount ''high'' sel) \<le> maxHigh k" "int (tierCount ''medium'' sel) \<le> maxMed k"
    "int (lowCount sel) \<le> maxLow k"
    using selectCands_caps[of "[]" 0 0 0 k cands] cap by (simp_all add: sel)
  have "int (length sel) \<le> maxTotal k" using selectCands_total[of "[]" k cands] cap by (simp add: sel)
  moreover have "\<not> s_keepLow s \<longrightarrow> lowCount sel = 0" using caps(3) by (auto simp: k_def b2cCaps_def)
  ultimately show ?thesis using caps srt by blast
qed

theorem selection_capped_witness:
  "lowCount (v_selected (composeVerdict (sampleSession False []) [1] sampleTree)) = 0 \<and>
   int (length (v_selected (composeVerdict (sampleSession False []) [1] sampleTree))) \<le> 60"
  using selection_capped[of "sampleSession False []" "[1]" sampleTree]
  by (simp add: b2cCaps_def envLimit_def noEnv_def)

text \<open>A report cites the access that escapes the locks: if the violating thread touches
  the object without a lock, the cited access of the candidate is one of its unlocked accesses,
  and a mutating one if there is such.\<close>

theorem cited_access_unprotected:
  assumes "judgePair s oi p t1 t2 = Inr c"
    and "a \<in> set (so_accesses (s_oh s p))" "ac_thread a = pb_violT c" "\<not> underLock a"
  shows "\<exists>i < length (so_accesses (s_oh s p)). pb_violAccess c = Some i \<and>
     ac_thread (so_accesses (s_oh s p) ! i) = pb_violT c \<and> \<not> underLock (so_accesses (s_oh s p) ! i) \<and>
     ((\<exists>b \<in> set (so_accesses (s_oh s p)). ac_thread b = pb_violT c \<and> \<not> underLock b \<and> ac_type b \<in> {''Write'', ''Free''}) \<longrightarrow>
        ac_type (so_accesses (s_oh s p) ! i) \<in> {''Write'', ''Free''})"
proof -
  have "pb_violAccess c = escapingViolatorAccess (s_oh s p) (pb_violT c) (pb_violKind c)"
    using assms(1) by (auto simp: judgePair_def Let_def split: prod.splits if_splits)
  with escapingViolatorAccess_unprotected[OF assms(2-4), of "pb_violKind c"] show ?thesis by auto
qed

theorem cited_access_unprotected_witness:
  "\<exists>c i. judgePair (sampleSession True []) 0 1 1 2 = Inr c \<and> pb_violAccess c = Some i"
proof -
  let ?s = "sampleSession True []"
  have "\<not> pairDischarged ?s 0 (sampleObject []) 1 2"
    by (simp add: pairDischarged_untrusted lockDischarge_def surfaceSharedLock_iff)
      (simp add: sampleObject_def sampleAccess_def underLock_def)
  then have "\<exists>c. judgePair ?s 0 1 1 2 = Inr c"
    by (simp add: judgePair_def Let_def split: prod.split)
  then obtain c where c: "judgePair ?s 0 1 1 2 = Inr c" ..
  have "\<exists>a \<in> set (so_accesses (sampleObject [])). ac_thread a = pb_violT c \<and> \<not> underLock a"
    using judgePair_cand(5)[OF c] by (auto simp: sampleObject_def sampleAccess_def underLock_def)
  then obtain a where "a \<in> set (so_accesses (s_oh ?s 1))" "ac_thread a = pb_violT c" "\<not> underLock a" by auto
  from cited_access_unprotected[OF c this] c show ?thesis by blast
qed

subsection \<open>Deduplication\<close>

text \<open>C33. Deduplication loses no finding: every input hypothesis has a representative in the
  output with the same canonical key and at least its severity.\<close>

theorem dedup_keeps_findings:
  assumes "h \<in> set xs"
  shows "\<exists>r \<in> set (dedupHypotheses xs sf level).
     canonicalKey r level (nodeObjMap sf) (nodeKindMap sf) = canonicalKey h level (nodeObjMap sf) (nodeKindMap sf) \<and>
     severityRank (hy_severity h) \<le> severityRank (hy_severity r)"
  using assms by (rule dedup_represents)

definition raceHypothesis :: "string \<Rightarrow> hypothesis" where
  "raceHypothesis sev = emptyHypothesis\<lparr>hy_bug_category := ''data_race'', hy_severity := sev, hy_nodes := [(''a'', 1)]\<rparr>"

theorem dedup_keeps_findings_witness:
  "\<exists>r \<in> set (dedupHypotheses [raceHypothesis ''high'', raceHypothesis ''low''] emptySurface Exact).
     severityRank (hy_severity r) \<ge> 2"
  using dedup_keeps_findings[of "raceHypothesis ''high''" "[raceHypothesis ''high'', raceHypothesis ''low'']" emptySurface Exact]
  by (simp add: raceHypothesis_def severityRank_def[of "''high''"]) blast

text \<open>Deduplication invents nothing: each output is an input whose description alone may
  have grown, and the outputs are as many as there are canonical keys.\<close>

theorem dedup_exact:
  assumes "2 \<le> length xs"
  shows "(\<forall>r \<in> set (dedupHypotheses xs sf level). \<exists>h \<in> set xs. \<exists>note. r = h\<lparr>hy_description := hy_description h @ note\<rparr>) \<and>
     length (dedupHypotheses xs sf level) =
       card ((\<lambda>h. canonicalKey h level (nodeObjMap sf) (nodeKindMap sf)) ` set xs)"
  using dedup_from_input dedup_length[OF assms] by blast

theorem dedup_exact_witness:
  "length (dedupHypotheses [raceHypothesis ''high'', raceHypothesis ''low''] emptySurface Exact) = 1"
proof -
  let ?xs = "[raceHypothesis ''high'', raceHypothesis ''low'']"
  let ?key = "\<lambda>h. canonicalKey h Exact (nodeObjMap emptySurface) (nodeKindMap emptySurface)"
  have "?key (raceHypothesis ''high'') = ?key (raceHypothesis ''low'')"
    by (rule canonicalKey_cong) (simp_all add: raceHypothesis_def)
  then have "?key ` set ?xs = {?key (raceHypothesis ''low'')}" by simp
  with dedup_exact[of ?xs emptySurface Exact] show ?thesis by simp
qed

subsection \<open>Budgets\<close>

text \<open>The object budget never drops an object that frees, mutates a list or races with
  itself, adds none, and on surfaces below the pathological size drops nothing at all.\<close>

theorem object_budget:
  assumes "distinct objKeep"
  shows "set (applyCostFirstSurfaceBudget env sf fp objKeep) \<subseteq> set objKeep \<and>
     (\<forall>i \<in> set objKeep. forceKeepObject (sf_objects sf ! i) \<longrightarrow> i \<in> set (applyCostFirstSurfaceBudget env sf fp objKeep)) \<and>
     (length (sf_objects sf) < 1200 \<and> conflicting_pair_count sf < 50000 \<longrightarrow>
        applyCostFirstSurfaceBudget env sf fp objKeep = objKeep)"
  using surfaceBudget_spec(1-3)[OF assms] by blast

theorem object_budget_witness: "applyCostFirstSurfaceBudget noEnv emptySurface noPrior [0, 1] = [0, 1]"
  using object_budget[where objKeep = "[0, 1]" and env = noEnv and sf = emptySurface and fp = noPrior, THEN conjunct2, THEN conjunct2] by (simp add: emptySurface_def)

text \<open>Cutting clusters into sessions covers every object of every cluster when the session
  budget is off, and every session stays within the size limit and inside one cluster.\<close>

theorem sessions_cover:
  assumes "0 < n"
  shows "(\<not> sessionBudgetEnabled env \<longrightarrow> (\<forall>(ts, os) \<in> set clusters. \<forall>p \<in> set os.
       \<exists>objs. (ts, objs) \<in> set (buildBudgetedSessions env oh fp sf n clusters) \<and> p \<in> set objs)) \<and>
     (\<forall>(ts, objs) \<in> set (buildBudgetedSessions env oh fp sf n clusters).
        0 < length objs \<and> length objs \<le> n \<and> (\<exists>os. (ts, os) \<in> set clusters \<and> set objs \<subseteq> set os))"
  using sessions_complete[OF _ assms] sessions_shape by fastforce

theorem sessions_cover_witness:
  "\<exists>objs. ([1, 2], objs) \<in> set (buildBudgetedSessions [''LACE_DISABLE_SESSION_BUDGET'' \<mapsto> ''1''] sampleHeap noPrior emptySurface 2 [([1, 2], [7, 8, 9])]) \<and>
     9 \<in> set objs"
proof -
  let ?env = "[''LACE_DISABLE_SESSION_BUDGET'' \<mapsto> ''1'']"
  have "\<not> sessionBudgetEnabled ?env" by (simp add: sessionBudgetEnabled_def envFlag_def)
  with sessions_cover[of 2 ?env "[([1, 2], [7, 8, 9])]" sampleHeap noPrior emptySurface] show ?thesis by auto
qed

end
