(* ===== verification/FieldKey.thy ===== *)
theory FieldKey
  imports Prelude "HOL-Library.Word"
begin

unbundle bit_operations_syntax

text \<open>
  Field-level keys of shared objects (include/Query/SharedFieldKey.h,
  src/Query/SharedFieldKey.cpp): the classification of an LLVM pointer as a global, a
  field of a struct or an unknown root, the test whether a stack slot escapes to
  another thread, the aliases of embedded structs, and the order, hash and text of the
  keys.  LLVM's values are the argument \<open>L\<close>, a view of the intermediate
  representation with the accessors the code calls; \<open>underlying\<close> is LLVM's own
  \<open>getUnderlyingObject\<close>.  Byte offsets are integers; the code's 64-bit sums stay in
  range for offsets of real types.
\<close>

subsection \<open>The view of the intermediate representation\<close>

datatype value_shape =
    GepOp (gep_struct: ptr) (gep_offset: "int option") (gep_pointer: ptr)
  | BitCastOp ptr
  | AddrSpaceCastOp ptr
  | GlobalVar
  | ArgumentOf "string option" nat
  | AllocaOf ptr
  | PhiOrSelect
  | CallTo "(string \<times> bool) option"
  | StoreOf (st_value: ptr) (st_pointer: ptr)
  | OtherValue

record llvm_ir =
  ir_shape :: "ptr \<Rightarrow> value_shape"
  ir_inst :: "ptr \<Rightarrow> bool"
  ir_name :: "ptr \<Rightarrow> string option"
  ir_users :: "ptr \<Rightarrow> ptr list"
  ir_struct :: "ptr \<Rightarrow> string option"
  ir_addr :: "ptr \<Rightarrow> string"
  underlying :: "ptr \<Rightarrow> ptr"
  stripCasts :: "ptr \<Rightarrow> ptr"

subsection \<open>Keys\<close>

datatype key_kind = KGlobal | KStructField | KUnknown

primrec kindIndex :: "key_kind \<Rightarrow> nat" where
  "kindIndex KGlobal = 0" | "kindIndex KStructField = 1" | "kindIndex KUnknown = 2"

lemma kindIndex_inject [simp]: "kindIndex k = kindIndex k' \<longleftrightarrow> k = k'"
  by (cases k; cases k') simp_all

datatype field_key = FieldKey (fk_kind: key_kind) (fk_type: string) (fk_offset: int)

text \<open>The order of the keys is the comparison the code defines; it is total.\<close>

instantiation field_key :: linorder
begin

definition less_field_key :: "field_key \<Rightarrow> field_key \<Rightarrow> bool" where
  "less_field_key a b =
     (if fk_kind a \<noteq> fk_kind b then kindIndex (fk_kind a) < kindIndex (fk_kind b)
      else if fk_type a \<noteq> fk_type b then fk_type a < fk_type b
      else fk_offset a < fk_offset b)"

definition less_eq_field_key :: "field_key \<Rightarrow> field_key \<Rightarrow> bool" where
  "less_eq_field_key a b \<longleftrightarrow> a < b \<or> a = b"

instance
proof
  fix a b c :: field_key
  have antisym: "\<not> (a < b \<and> b < a)" for a b :: field_key
    by (auto simp: less_field_key_def split: if_splits)
  show "(a < b) = (a \<le> b \<and> \<not> b \<le> a)"
    using antisym[of a b] by (auto simp: less_eq_field_key_def)
  show "a \<le> a" by (simp add: less_eq_field_key_def)
  show "a \<le> b \<Longrightarrow> b \<le> a \<Longrightarrow> a = b" using antisym[of a b] by (auto simp: less_eq_field_key_def)
  have "a < b \<Longrightarrow> b < c \<Longrightarrow> a < c" by (auto simp: less_field_key_def split: if_splits)
  then show "a \<le> b \<Longrightarrow> b \<le> c \<Longrightarrow> a \<le> c" by (auto simp: less_eq_field_key_def)
  have "kindIndex (fk_kind a) < kindIndex (fk_kind b) \<or> kindIndex (fk_kind b) < kindIndex (fk_kind a)"
    if "fk_kind a \<noteq> fk_kind b" using that by (metis kindIndex_inject linorder_neqE_nat)
  then show "a \<le> b \<or> b \<le> a"
    by (cases a; cases b) (auto simp: less_eq_field_key_def less_field_key_def)
qed

end

definition key_less :: "field_key \<Rightarrow> field_key \<Rightarrow> bool" where
  "key_less a b = (a < b)"

text \<open>The hash mixes the component hashes of the standard library in 64-bit arithmetic.\<close>

definition key_hash :: "(nat \<Rightarrow> 64 word) \<Rightarrow> (string \<Rightarrow> 64 word) \<Rightarrow> (int \<Rightarrow> 64 word) \<Rightarrow> field_key \<Rightarrow> 64 word" where
  "key_hash hk hs hi k =
     (let h1 = hk (kindIndex (fk_kind k)); h2 = hs (fk_type k); h3 = hi (fk_offset k);
          h = h1 XOR (h2 + 0x9e3779b97f4a7c15 + push_bit 6 h1 + drop_bit 2 h1)
      in h XOR (h3 + 0x9e3779b97f4a7c15 + push_bit 6 h + drop_bit 2 h))"

definition key_toString :: "field_key \<Rightarrow> string" where
  "key_toString k =
     (case fk_kind k of KGlobal \<Rightarrow> ''global:'' | KStructField \<Rightarrow> ''field:'' | KUnknown \<Rightarrow> ''obj:'') @
     fk_type k @ (if fk_offset k > 0 then ''+'' @ int_to_string (fk_offset k) else [])"

subsection \<open>Struct types\<close>

definition structTypeName :: "llvm_ir \<Rightarrow> ptr \<Rightarrow> string" where
  "structTypeName L st =
     (if st = null then []
      else case ir_struct L st of Some n \<Rightarrow> n | None \<Rightarrow> ''anon.struct@'' @ ir_addr L st)"

definition genericTypes :: "string list" where
  "genericTypes = [''struct.list_head'', ''struct.hlist_head'', ''struct.hlist_node'', ''struct.hlist_bl_head'',
     ''struct.hlist_bl_node'', ''struct.hlist_nulls_head'', ''struct.hlist_nulls_node'', ''struct.llist_head'',
     ''struct.llist_node'', ''struct.rb_root'', ''struct.rb_root_cached'', ''struct.rb_node'',
     ''struct.rhash_head'', ''struct.rhashtable'', ''struct.rhlist_head'', ''struct.callback_head'',
     ''struct.atomic_t'', ''struct.atomic64_t'', ''struct.atomic_long_t'', ''struct.refcount_struct'',
     ''struct.kref'', ''struct.raw_spinlock'', ''struct.spinlock'', ''struct.raw_spinlock_t'',
     ''struct.spinlock_t'', ''struct.mutex'', ''struct.rw_semaphore'', ''struct.semaphore'',
     ''struct.completion'', ''struct.seqcount'', ''struct.seqcount_spinlock'', ''struct.lockdep_map'']"

definition isGenericContainerType :: "llvm_ir \<Rightarrow> ptr \<Rightarrow> bool" where
  "isGenericContainerType L st =
     (if st = null then False
      else case ir_struct L st of
        None \<Rightarrow> False
      | Some n \<Rightarrow> list_ex (\<lambda>base. n = base \<or>
          (startsWith n base \<and> startsWith (drop (length base) n) ''.'')) genericTypes)"

subsection \<open>The walk up the address computation\<close>

record gep_level =
  gl_struct :: ptr
  gl_offset :: int

text \<open>
  Both walks of the code take the same steps, bounded by 32; the levelled one records
  each address computation, the other one their sum and the struct types on the way.
\<close>

fun climbLevels :: "nat \<Rightarrow> llvm_ir \<Rightarrow> ptr \<Rightarrow> gep_level list" where
  "climbLevels 0 L cur = []"
| "climbLevels (Suc guard) L cur =
     (if cur = null then []
      else case ir_shape L cur of
        GepOp st off p \<Rightarrow>
          \<lparr>gl_struct = st, gl_offset = (case off of Some d \<Rightarrow> d | None \<Rightarrow> 0)\<rparr> # climbLevels guard L p
      | BitCastOp p \<Rightarrow> climbLevels guard L p
      | AddrSpaceCastOp p \<Rightarrow> climbLevels guard L p
      | _ \<Rightarrow> [])"

definition climbGEPsLeveled :: "llvm_ir \<Rightarrow> ptr \<Rightarrow> gep_level list" where
  "climbGEPsLeveled L v = (if v = null then [] else climbLevels 32 L v)"

fun climb :: "nat \<Rightarrow> llvm_ir \<Rightarrow> ptr \<Rightarrow> int \<Rightarrow> ptr list \<Rightarrow> int \<times> ptr list" where
  "climb 0 L cur off stack = (off, stack)"
| "climb (Suc guard) L cur off stack =
     (if cur = null then (off, stack)
      else case ir_shape L cur of
        GepOp st d p \<Rightarrow> climb guard L p (case d of Some k \<Rightarrow> off + k | None \<Rightarrow> off)
                          (if st \<noteq> null then stack @ [st] else stack)
      | BitCastOp p \<Rightarrow> climb guard L p off stack
      | AddrSpaceCastOp p \<Rightarrow> climb guard L p off stack
      | _ \<Rightarrow> (off, stack))"

definition climbGEPs :: "llvm_ir \<Rightarrow> ptr \<Rightarrow> int \<times> ptr list" where
  "climbGEPs L v = (if v = null then (0, []) else climb 32 L v 0 [])"

definition rootIdentifier :: "llvm_ir \<Rightarrow> ptr \<Rightarrow> string" where
  "rootIdentifier L root =
     (if root = null then ''(null)''
      else case ir_shape L root of
        GlobalVar \<Rightarrow> (case ir_name L root of Some n \<Rightarrow> n | None \<Rightarrow> ''anon.global'')
      | ArgumentOf f i \<Rightarrow> ''param:'' @ (case f of Some n \<Rightarrow> n | None \<Rightarrow> ''?'') @ ''#'' @ to_string i
      | _ \<Rightarrow> (case ir_name L root of Some n \<Rightarrow> n | None \<Rightarrow> ''val@'' @ ir_addr L root))"

text \<open>The users of a pointer, at most 33 of them, must agree on one non-generic struct type.\<close>

fun agreeingStruct :: "llvm_ir \<Rightarrow> ptr \<Rightarrow> ptr list \<Rightarrow> ptr \<Rightarrow> ptr" where
  "agreeingStruct L base [] best = best"
| "agreeingStruct L base (u # us) best =
     (case ir_shape L u of
        GepOp st d p \<Rightarrow>
          if stripCasts L p \<noteq> base \<or> st = null \<or> isGenericContainerType L st then agreeingStruct L base us best
          else if best = null then agreeingStruct L base us st
          else if best \<noteq> st then null
          else agreeingStruct L base us best
      | _ \<Rightarrow> agreeingStruct L base us best)"

definition inferStructTypeFromUsers :: "llvm_ir \<Rightarrow> ptr \<Rightarrow> ptr" where
  "inferStructTypeFromUsers L v =
     (if v = null then null
      else let base = stripCasts L v in
        if base = null then null else agreeingStruct L base (take 33 (ir_users L base)) null)"


subsection \<open>Stack slots that escape\<close>

definition publicationSinks :: "string list" where
  "publicationSinks = [
     ''add_wait_queue'', ''add_wait_queue_exclusive'', ''__add_wait_queue'', ''__add_wait_queue_exclusive'',
     ''__add_wait_queue_entry_tail'', ''prepare_to_wait'', ''prepare_to_wait_exclusive'',
     ''__prepare_to_wait_event'', ''prepare_to_wait_event'', ''init_waitqueue_entry'', ''init_wait_entry'',
     ''list_add'', ''list_add_tail'', ''list_add_rcu'', ''list_add_tail_rcu'', ''list_move'', ''list_move_tail'',
     ''hlist_add_head'', ''hlist_add_head_rcu'', ''hlist_add_tail_rcu'', ''hlist_add_behind'', ''hlist_add_before'',
     ''hlist_nulls_add_head_rcu'', ''llist_add'', ''llist_add_batch'',
     ''call_rcu'', ''call_srcu'', ''call_rcu_tasks'', ''queue_rcu_work'',
     ''queue_work'', ''queue_work_on'', ''queue_delayed_work'', ''queue_delayed_work_on'', ''schedule_work'',
     ''schedule_delayed_work'', ''init_completion'', ''init_completion_map'', ''complete'', ''complete_all'',
     ''rb_link_node'', ''rb_link_node_rcu'', ''rhashtable_insert_fast'', ''rhltable_insert'',
     ''init_llist_head'', ''init_swait_queue_head'']"

definition isEscapingPublicationCallee :: "string \<Rightarrow> bool" where
  "isEscapingPublicationCallee name \<longleftrightarrow> name \<noteq> [] \<and> name \<in> set publicationSinks"

definition neverPublishes :: "string \<Rightarrow> bool" where
  "neverPublishes n \<longleftrightarrow>
     startsWith n ''llvm.'' \<or>
     n \<in> {''memset'', ''memcpy'', ''memmove'', ''__memset'', ''__memcpy'', ''__memcpy_chk'', ''__memset_chk'',
          ''__kmsan_check_memory''} \<or>
     startsWith n ''__builtin_'' \<or> startsWith n ''__sanitizer_'' \<or> startsWith n ''__asan_'' \<or>
     startsWith n ''__msan_'' \<or> startsWith n ''__tsan_''"

definition isAlloca :: "llvm_ir \<Rightarrow> ptr \<Rightarrow> bool" where
  "isAlloca L v = (case ir_shape L v of AllocaOf t \<Rightarrow> True | _ \<Rightarrow> False)"

text \<open>What one user of \<open>v\<close> does: a call or a store may publish it, an instruction may carry it on.\<close>

definition userPublishes :: "llvm_ir \<Rightarrow> ptr \<Rightarrow> ptr \<Rightarrow> bool" where
  "userPublishes L v u =
     (case ir_shape L u of
        CallTo callee \<Rightarrow>
          (case callee of
             None \<Rightarrow> False
           | Some (n, declared) \<Rightarrow> isEscapingPublicationCallee n \<or> (declared \<and> \<not> neverPublishes n))
      | StoreOf x p \<Rightarrow> x = v \<and> underlying L p \<noteq> null \<and> \<not> isAlloca L (underlying L p)
      | _ \<Rightarrow> False)"

definition userCarries :: "llvm_ir \<Rightarrow> ptr \<Rightarrow> bool" where
  "userCarries L u =
     (ir_inst L u \<and>
      (case ir_shape L u of GepOp st d p \<Rightarrow> True | BitCastOp p \<Rightarrow> True | AddrSpaceCastOp p \<Rightarrow> True
       | PhiOrSelect \<Rightarrow> True | _ \<Rightarrow> False))"

fun scanUsers :: "llvm_ir \<Rightarrow> ptr \<Rightarrow> ptr list \<Rightarrow> ptr list \<Rightarrow> ptr list \<Rightarrow> (ptr list \<times> ptr list) option" where
  "scanUsers L v [] q seen = Some (q, seen)"
| "scanUsers L v (u # us) q seen =
     (if userPublishes L v u then None
      else if userCarries L u \<and> u \<notin> set seen then scanUsers L v us (q @ [u]) (u # seen)
      else scanUsers L v us q seen)"

fun escapeLoop :: "nat \<Rightarrow> llvm_ir \<Rightarrow> ptr list \<Rightarrow> ptr list \<Rightarrow> bool" where
  "escapeLoop 0 L q seen = False"
| "escapeLoop (Suc budget) L [] seen = False"
| "escapeLoop (Suc budget) L (v # q) seen =
     (case scanUsers L v (ir_users L v) q seen of
        None \<Rightarrow> True
      | Some (q', seen') \<Rightarrow> escapeLoop budget L q' seen')"

definition allocaEscapesViaKnownSink :: "llvm_ir \<Rightarrow> ptr \<Rightarrow> bool" where
  "allocaEscapesViaKnownSink L ai = (ai \<noteq> null \<and> escapeLoop 128 L [ai] [ai])"

subsection \<open>The key of a pointer\<close>

text \<open>
  The outermost struct on the walk that is no generic container, else the innermost.
\<close>

definition canonicalStruct :: "llvm_ir \<Rightarrow> ptr list \<Rightarrow> ptr" where
  "canonicalStruct L stack =
     (case find (\<lambda>st. \<not> isGenericContainerType L st) (rev stack) of
        Some st \<Rightarrow> st
      | None \<Rightarrow> (case stack of [] \<Rightarrow> null | st # _ \<Rightarrow> st))"

definition fromValue :: "llvm_ir \<Rightarrow> ptr \<Rightarrow> bool \<Rightarrow> field_key option" where
  "fromValue L v whole =
     (if v = null then None
      else
        let root = (if underlying L v = null then v else underlying L v);
            stack_slot = isAlloca L root
        in
          if stack_slot \<and> \<not> allocaEscapesViaKnownSink L root then None
          else
            let (off, stack) = climbGEPs L v; st = canonicalStruct L stack in
            if ir_shape L root = GlobalVar then
              Some (FieldKey KGlobal (case ir_name L root of Some n \<Rightarrow> n | None \<Rightarrow> ''anon.global'') off)
            else if st \<noteq> null then Some (FieldKey KStructField (structTypeName L st) off)
            else
              case ir_shape L root of
                AllocaOf ty \<Rightarrow>
                  if ty \<noteq> null then Some (FieldKey KStructField (structTypeName L ty) off)
                  else if whole \<and> inferStructTypeFromUsers L v \<noteq> null then
                    Some (FieldKey KStructField (structTypeName L (inferStructTypeFromUsers L v)) 0)
                  else Some (FieldKey KUnknown (rootIdentifier L root) off)
              | _ \<Rightarrow>
                  if whole \<and> inferStructTypeFromUsers L v \<noteq> null then
                    Some (FieldKey KStructField (structTypeName L (inferStructTypeFromUsers L v)) 0)
                  else Some (FieldKey KUnknown (rootIdentifier L root) off))"

fun addAliases :: "llvm_ir \<Rightarrow> gep_level list \<Rightarrow> int \<Rightarrow> field_key list \<Rightarrow> field_key list" where
  "addAliases L [] cum out = out"
| "addAliases L (l # ls) cum out =
     (let cum' = cum + gl_offset l; a = FieldKey KStructField (structTypeName L (gl_struct l)) cum' in
      if gl_struct l = null \<or> isGenericContainerType L (gl_struct l) \<or> a \<in> set out then addAliases L ls cum' out
      else addAliases L ls cum' (out @ [a]))"

definition fromValueAllAliases :: "llvm_ir \<Rightarrow> ptr \<Rightarrow> bool \<Rightarrow> field_key list" where
  "fromValueAllAliases L v whole =
     (let out = (case fromValue L v whole of Some k \<Rightarrow> [k] | None \<Rightarrow> []) in
      if v = null then out
      else let levels = climbGEPsLeveled L v in
        if length levels < 2 then out else addAliases L levels 0 out)"


subsection \<open>Facts: the walk\<close>

lemma climb_levels:
  "climb g L v off stack =
     (off + sum_list (map gl_offset (climbLevels g L v)),
      stack @ [st \<leftarrow> map gl_struct (climbLevels g L v). st \<noteq> null])"
  by (induction g L v arbitrary: off stack rule: climbLevels.induct)
    (auto split: value_shape.splits option.splits)

lemma climbGEPs_levels:
  "climbGEPs L v =
     (sum_list (map gl_offset (climbGEPsLeveled L v)),
      [st \<leftarrow> map gl_struct (climbGEPsLeveled L v). st \<noteq> null])"
  by (simp add: climbGEPs_def climbGEPsLeveled_def climb_levels)

lemma climbLevels_length: "length (climbLevels g L v) \<le> g"
  by (induction g L v rule: climbLevels.induct) (auto split: value_shape.splits)

text \<open>The outermost owner: every struct above the one chosen is a generic container.\<close>

lemma canonicalStruct_owner:
  assumes "st \<in> set stack" "\<not> isGenericContainerType L st"
  obtains as bs where "stack = as @ canonicalStruct L stack # bs"
    "\<not> isGenericContainerType L (canonicalStruct L stack)"
    "\<forall>x \<in> set bs. isGenericContainerType L x"
proof -
  obtain x where x: "List.find (\<lambda>st. \<not> isGenericContainerType L st) (rev stack) = Some x"
    using assms by (cases "List.find (\<lambda>st. \<not> isGenericContainerType L st) (rev stack)")
      (auto simp: find_None_set)
  then obtain i where i: "i < length (rev stack)" "\<not> isGenericContainerType L (rev stack ! i)"
    "x = rev stack ! i" "\<forall>j < i. isGenericContainerType L (rev stack ! j)"
    by (auto simp: find_Some_iff)
  have r: "rev stack = take i (rev stack) @ x # drop (Suc i) (rev stack)"
    using i(1,3) by (simp add: id_take_nth_drop)
  then have s: "stack = rev (drop (Suc i) (rev stack)) @ x # rev (take i (rev stack))"
    by (metis rev.simps(2) rev_append rev_rev_ident append.assoc append_Cons append_Nil)
  have "\<forall>y \<in> set (rev (take i (rev stack))). isGenericContainerType L y"
    using i(4) by (auto simp: in_set_conv_nth)
  with s i(2,3) x that show thesis by (simp add: canonicalStruct_def)
qed

subsection \<open>Facts: escape\<close>

inductive carried :: "llvm_ir \<Rightarrow> ptr \<Rightarrow> ptr \<Rightarrow> bool" for L ai where
  self: "carried L ai ai"
| user: "carried L ai v \<Longrightarrow> u \<in> set (ir_users L v) \<Longrightarrow> userCarries L u \<Longrightarrow> carried L ai u"

lemma scanUsers_None: "scanUsers L v us q seen = None \<longleftrightarrow> (\<exists>u \<in> set us. userPublishes L v u)"
  by (induction us arbitrary: q seen) auto

lemma scanUsers_new:
  "scanUsers L v us q seen = Some (q', seen') \<Longrightarrow>
     \<exists>new. q' = q @ new \<and> seen' = rev new @ seen \<and> distinct new \<and>
       (\<forall>w \<in> set new. w \<notin> set seen \<and> w \<in> set us \<and> userCarries L w) \<and>
       (\<forall>u \<in> set us. \<not> userPublishes L v u \<and> (userCarries L u \<longrightarrow> u \<in> set new \<union> set seen))"
proof (induction us arbitrary: q seen)
  case (Cons u us)
  have n: "\<not> userPublishes L v u" using Cons.prems by (auto split: if_splits)
  show ?case
  proof (cases "userCarries L u \<and> u \<notin> set seen")
    case True
    with Cons.prems n have "scanUsers L v us (q @ [u]) (u # seen) = Some (q', seen')" by simp
    from Cons.IH[OF this] obtain new where new: "q' = (q @ [u]) @ new" "seen' = rev new @ u # seen" "distinct new"
      "\<forall>w \<in> set new. w \<notin> set (u # seen) \<and> w \<in> set us \<and> userCarries L w"
      "\<forall>u' \<in> set us. \<not> userPublishes L v u' \<and> (userCarries L u' \<longrightarrow> u' \<in> set new \<union> set (u # seen))" by blast
    show ?thesis by (rule exI[of _ "u # new"]) (use new True n in auto)
  next
    case False
    with Cons.prems n have "scanUsers L v us q seen = Some (q', seen')" by auto
    from Cons.IH[OF this] obtain new where new: "q' = q @ new" "seen' = rev new @ seen" "distinct new"
      "\<forall>w \<in> set new. w \<notin> set seen \<and> w \<in> set us \<and> userCarries L w"
      "\<forall>u' \<in> set us. \<not> userPublishes L v u' \<and> (userCarries L u' \<longrightarrow> u' \<in> set new \<union> set seen)" by blast
    show ?thesis by (rule exI[of _ new]) (use new False n in auto)
  qed
qed simp

lemma escapeLoop_sound:
  "escapeLoop n L q seen \<Longrightarrow> \<forall>v \<in> set q. carried L ai v \<Longrightarrow>
     \<exists>v u. carried L ai v \<and> u \<in> set (ir_users L v) \<and> userPublishes L v u"
proof (induction n L q seen rule: escapeLoop.induct)
  case (3 n L v q seen)
  show ?case
  proof (cases "scanUsers L v (ir_users L v) q seen")
    case None
    with 3(3) show ?thesis by (auto simp: scanUsers_None)
  next
    case (Some p)
    obtain q' seen' where p: "p = (q', seen')" by (cases p)
    from scanUsers_new[OF Some[unfolded p]] obtain new where new: "q' = q @ new"
      "\<forall>w \<in> set new. w \<in> set (ir_users L v) \<and> userCarries L w" by blast
    have "\<forall>w \<in> set q'. carried L ai w" using new 3(3) by (auto intro: carried.user)
    moreover have "escapeLoop n L q' seen'" using 3(2) Some p by simp
    ultimately show ?thesis using 3(1)[OF Some[unfolded p] refl] by blast
  qed
qed auto

lemma carried_closed:
  assumes "ai \<in> S" "\<forall>v \<in> S. \<forall>u \<in> set (ir_users L v). userCarries L u \<longrightarrow> u \<in> S" "carried L ai v"
  shows "v \<in> S"
  using assms(3) by induction (use assms(1,2) in auto)

definition scanned :: "llvm_ir \<Rightarrow> ptr list \<Rightarrow> ptr list \<Rightarrow> bool" where
  "scanned L q seen \<longleftrightarrow> distinct seen \<and> (\<forall>v \<in> set seen - set q. \<forall>u \<in> set (ir_users L v).
     \<not> userPublishes L v u \<and> (userCarries L u \<longrightarrow> u \<in> set seen))"

lemma scanned_step:
  assumes "scanned L (v # q) seen" "scanUsers L v (ir_users L v) q seen = Some (q', seen')"
  shows "scanned L q' seen'"
proof -
  from scanUsers_new[OF assms(2)] obtain new where new: "q' = q @ new" "seen' = rev new @ seen" "distinct new"
    "\<forall>w \<in> set new. w \<notin> set seen"
    "\<forall>u \<in> set (ir_users L v). \<not> userPublishes L v u \<and> (userCarries L u \<longrightarrow> u \<in> set new \<union> set seen)" by blast
  have "set seen' - set q' \<subseteq> insert v (set seen - set (v # q))" using new(1,2) by auto
  moreover have "distinct seen'"
  proof -
    have "distinct seen" using assms(1) unfolding scanned_def by (rule conjunct1)
    moreover have "set new \<inter> set seen = {}" using new(4) by blast
    ultimately show ?thesis unfolding new(2) using new(3) by simp
  qed
  moreover have "\<forall>u \<in> set (ir_users L v). \<not> userPublishes L v u \<and> (userCarries L u \<longrightarrow> u \<in> set seen')"
    using new(5) unfolding new(2) by auto
  moreover have "\<forall>w \<in> set seen - set (v # q). \<forall>u \<in> set (ir_users L w).
      \<not> userPublishes L w u \<and> (userCarries L u \<longrightarrow> u \<in> set seen')"
    using assms(1) unfolding scanned_def new(2) set_append by blast
  ultimately show ?thesis unfolding scanned_def by blast
qed

lemma scanned_all:
  assumes "scanned L [] seen" "ai \<in> set seen"
  shows "\<forall>v u. carried L ai v \<longrightarrow> u \<in> set (ir_users L v) \<longrightarrow> \<not> userPublishes L v u"
proof -
  have "v \<in> set seen" if "carried L ai v" for v
    using carried_closed[OF assms(2) _ that] assms(1) by (auto simp: scanned_def)
  then show ?thesis using assms(1) by (auto simp: scanned_def)
qed

lemma escapeLoop_complete:
  assumes "\<not> escapeLoop n L q seen" "scanned L q seen" "\<forall>v \<in> set seen. carried L ai v"
    "{v. carried L ai v} \<subseteq> set U" "length U + length q \<le> n + length seen" "ai \<in> set seen" "set q \<subseteq> set seen"
  shows "\<forall>v u. carried L ai v \<longrightarrow> u \<in> set (ir_users L v) \<longrightarrow> \<not> userPublishes L v u"
  using assms
proof (induction n L q seen rule: escapeLoop.induct)
  case (1 L q seen)
  have "set seen \<subseteq> set U" using 1(3,4) by auto
  then have "card (set seen) \<le> card (set U)" by (simp add: card_mono)
  moreover have "card (set seen) = length seen" using 1(2) by (simp add: scanned_def distinct_card)
  ultimately have "length seen \<le> length U" using card_length[of U] by simp
  with 1(5) have "length q = 0" by linarith
  then have "scanned L [] seen" using 1(2) by simp
  then show ?case using 1(6) by (rule scanned_all)
next
  case (2 n L seen)
  then show ?case by (intro scanned_all)
next
  case (3 n L v q seen)
  from 3(2) obtain q' seen' where Some: "scanUsers L v (ir_users L v) q seen = Some (q', seen')"
    "\<not> escapeLoop n L q' seen'" by (auto split: option.splits)
  from scanUsers_new[OF Some(1)] obtain new where new: "q' = q @ new" "seen' = rev new @ seen"
    "\<forall>w \<in> set new. w \<in> set (ir_users L v) \<and> userCarries L w" by blast
  have c: "carried L ai v" using 3(4,8) by simp
  show ?case
  proof (rule 3(1)[OF Some(1) refl Some(2) scanned_step[OF 3(3) Some(1)]])
    show "\<forall>w \<in> set seen'. carried L ai w" using new 3(4) c by (auto intro: carried.user)
    show "length U + length q' \<le> n + length seen'" using 3(6) new by simp
  qed (use new 3(5,7,8) in auto)
qed

text \<open>
  The search for an escape is exact as long as at most 128 values carry the address,
  and never wrong about an escape it reports.
\<close>

lemma escapes_sound:
  "allocaEscapesViaKnownSink L ai \<Longrightarrow>
     \<exists>v u. carried L ai v \<and> u \<in> set (ir_users L v) \<and> userPublishes L v u"
  unfolding allocaEscapesViaKnownSink_def
  by (elim conjE, rule escapeLoop_sound) (auto intro: carried.self)

lemma escapes_complete:
  assumes "ai \<noteq> null" "{v. carried L ai v} \<subseteq> set U" "length U \<le> 128"
    "carried L ai v" "u \<in> set (ir_users L v)" "userPublishes L v u"
  shows "allocaEscapesViaKnownSink L ai"
proof (rule ccontr)
  assume "\<not> ?thesis"
  then have "\<not> escapeLoop 128 L [ai] [ai]" using assms(1) by (simp add: allocaEscapesViaKnownSink_def)
  from escapeLoop_complete[OF this, of ai U] assms show False by (auto intro: carried.self simp: scanned_def)
qed

subsection \<open>Facts: aliases\<close>

lemma addAliases_prefix: "\<exists>new. addAliases L ls cum out = out @ new"
  by (induction ls arbitrary: cum out) (auto simp: Let_def, (metis append.assoc)+)

lemma addAliases_distinct: "distinct out \<Longrightarrow> distinct (addAliases L ls cum out)"
  by (induction ls arbitrary: cum out) (auto simp: Let_def)

text \<open>The keys added are those of the levels whose struct is no generic container.\<close>

definition levelKeys :: "llvm_ir \<Rightarrow> gep_level list \<Rightarrow> int \<Rightarrow> field_key set" where
  "levelKeys L ls cum =
     {FieldKey KStructField (structTypeName L (gl_struct (ls ! i)))
         (cum + sum_list (map gl_offset (take (Suc i) ls))) | i.
       i < length ls \<and> gl_struct (ls ! i) \<noteq> null \<and> \<not> isGenericContainerType L (gl_struct (ls ! i))}"

lemma levelKeys_Cons:
  "levelKeys L (l # ls) cum =
     (if gl_struct l \<noteq> null \<and> \<not> isGenericContainerType L (gl_struct l)
      then {FieldKey KStructField (structTypeName L (gl_struct l)) (cum + gl_offset l)} else {}) \<union>
     levelKeys L ls (cum + gl_offset l)"
proof -
  have ex: "(\<exists>i. i < Suc n \<and> P i) \<longleftrightarrow> P 0 \<or> (\<exists>i < n. P (Suc i))" for n P
    by (metis less_Suc_eq_0_disj)
  show ?thesis unfolding levelKeys_def
    by (rule set_eqI) (simp add: ex conj_commute conj_left_commute add.assoc; blast)
qed

lemma addAliases_set: "set (addAliases L ls cum out) = set out \<union> levelKeys L ls cum"
  by (induction ls arbitrary: cum out)
    (auto simp: Let_def levelKeys_Cons, simp_all add: levelKeys_def)

end
