(* ===== verification/FieldProps.thy ===== *)
theory FieldProps
  imports FieldKey
begin

text \<open>
  Properties of the field-level keys of shared objects
  (src/Query/SharedFieldKey.cpp): when a pointer has no key, which key it has, and the
  aliases reported for embedded structs.
\<close>

subsection \<open>A small program\<close>

text \<open>
  Pointer 1 is a stack slot whose address goes to \<open>add_wait_queue\<close> (user 2); pointer 3
  is a field of struct 10 at offset 8, embedded at offset 16 of struct 11, of the
  parameter 5.
\<close>

definition sampleIr :: llvm_ir where
  "sampleIr = \<lparr>
     ir_shape = (\<lambda>v. if v = 1 then AllocaOf 10 else if v = 2 then CallTo (Some (''add_wait_queue'', True))
        else if v = 3 then GepOp 10 (Some 8) 4 else if v = 4 then GepOp 11 (Some 16) 5
        else if v = 5 then ArgumentOf (Some ''open'') 0 else OtherValue),
     ir_inst = (\<lambda>v. True), ir_name = (\<lambda>v. None), ir_users = (\<lambda>v. if v = 1 then [2] else []),
     ir_struct = (\<lambda>st. if st = 10 then Some ''struct.dev'' else if st = 11 then Some ''struct.card'' else None),
     ir_addr = (\<lambda>v. ''0x1''),
     underlying = (\<lambda>v. if v = 3 \<or> v = 4 then 5 else v), stripCasts = (\<lambda>v. v)\<rparr>"

lemma sampleIr_sel [simp]:
  "ir_shape sampleIr v = (if v = 1 then AllocaOf 10 else if v = 2 then CallTo (Some (''add_wait_queue'', True))
        else if v = 3 then GepOp 10 (Some 8) 4 else if v = 4 then GepOp 11 (Some 16) 5
        else if v = 5 then ArgumentOf (Some ''open'') 0 else OtherValue)"
  "ir_users sampleIr v = (if v = 1 then [2] else [])"
  "ir_struct sampleIr st = (if st = 10 then Some ''struct.dev'' else if st = 11 then Some ''struct.card'' else None)"
  "underlying sampleIr v = (if v = 3 \<or> v = 4 then 5 else v)"
  by (simp_all add: sampleIr_def)

lemma sampleIr_levels:
  "climbGEPsLeveled sampleIr 3 = [] @ \<lparr>gl_struct = 10, gl_offset = 8\<rparr> # [\<lparr>gl_struct = 11, gl_offset = 16\<rparr>]"
  by (simp add: climbGEPsLeveled_def numeral_eq_Suc)

lemma find_append:
  "List.find P (xs @ ys) = (case List.find P xs of Some x \<Rightarrow> Some x | None \<Rightarrow> List.find P ys)"
  by (induction xs) auto

subsection \<open>Properties\<close>

text \<open>C37. A pointer into a stack slot has a key exactly when the address of the slot is
  published: some value that carries it along address computations, casts, phis and selects
  is passed to a publishing function or stored outside the stack.  The search of the code
  is bounded by 128 values; the bound is the hypothesis.\<close>

theorem stack_slot_keyed:
  assumes "v \<noteq> null" "underlying L v \<noteq> null" "isAlloca L (underlying L v)"
    "{x. carried L (underlying L v) x} \<subseteq> set U" "length U \<le> 128"
  shows "fromValue L v whole \<noteq> None \<longleftrightarrow>
    (\<exists>x u. carried L (underlying L v) x \<and> u \<in> set (ir_users L x) \<and> userPublishes L x u)"
proof -
  have "fromValue L v whole \<noteq> None \<longleftrightarrow> allocaEscapesViaKnownSink L (underlying L v)"
    using assms(1-3) by (auto simp: fromValue_def Let_def split: prod.splits value_shape.splits)
  then show ?thesis using escapes_sound escapes_complete[OF assms(2,4,5)] by blast
qed

lemma stack_slot_keyed_witness:
  "fromValue sampleIr 1 False \<noteq> None"
proof -
  have "{x. carried sampleIr 1 x} \<subseteq> set [1]"
    using carried_closed[of 1 "{1}" sampleIr] by (auto simp: userCarries_def)
  then show ?thesis
    by (subst stack_slot_keyed[where U = "[1]"])
      (auto simp:  isAlloca_def userPublishes_def isEscapingPublicationCallee_def publicationSinks_def
        intro!: exI[of _ "1::ptr"] exI[of _ "2::ptr"] carried.self)
qed

text \<open>The aliases of a pointer are its key followed by exactly the keys of the address
  computations on the way whose struct is no generic container, each once; there are aliases
  only where two address computations are chained.\<close>

theorem aliases_exact:
  "distinct (fromValueAllAliases L v whole)
   \<and> (\<exists>new. fromValueAllAliases L v whole = (case fromValue L v whole of Some k \<Rightarrow> [k] | None \<Rightarrow> []) @ new)
   \<and> set (fromValueAllAliases L v whole) = set_option (fromValue L v whole) \<union>
       (if length (climbGEPsLeveled L v) < 2 then {} else levelKeys L (climbGEPsLeveled L v) 0)"
proof -
  have "climbGEPsLeveled L null = []" by (simp add: climbGEPsLeveled_def)
  moreover have "distinct (case fromValue L v whole of Some k \<Rightarrow> [k] | None \<Rightarrow> [])" by (simp split: option.split)
  moreover have "set (case fromValue L v whole of Some k \<Rightarrow> [k] | None \<Rightarrow> []) = set_option (fromValue L v whole)"
    by (cases "fromValue L v whole") simp_all
  ultimately show ?thesis
    using addAliases_prefix[of L "climbGEPsLeveled L v" 0 "case fromValue L v whole of Some k \<Rightarrow> [k] | None \<Rightarrow> []"]
    by (cases "v = null") (auto simp: fromValueAllAliases_def Let_def addAliases_distinct addAliases_set)
qed

text \<open>C38. The key of a struct field names the outermost struct on the way that is no generic
  container, but its offset is that of the whole walk: it is the offset inside the named
  struct, which the alias of that struct carries, exactly when the address computations above
  it add up to zero.\<close>

theorem owner_key_offset:
  assumes "fromValue L v whole = Some k"
    "climbGEPsLeveled L v = ls @ l # us"
    "ir_shape L (if underlying L v = null then v else underlying L v) \<noteq> GlobalVar"
    "gl_struct l \<noteq> null" "\<not> isGenericContainerType L (gl_struct l)"
    "\<forall>u \<in> set us. gl_struct u = null \<or> isGenericContainerType L (gl_struct u)"
  shows "k = FieldKey KStructField (structTypeName L (gl_struct l)) (sum_list (map gl_offset (ls @ l # us))) \<and>
    (k = FieldKey KStructField (structTypeName L (gl_struct l)) (sum_list (map gl_offset (ls @ [l]))) \<longleftrightarrow>
       sum_list (map gl_offset us) = 0)"
proof -
  let ?g = "\<lambda>st. \<not> isGenericContainerType L st"
  let ?s = "[st \<leftarrow> map gl_struct (ls @ l # us). st \<noteq> null]"
  have "canonicalStruct L ?s = gl_struct l"
  proof -
    have "List.find ?g (rev [st \<leftarrow> map gl_struct us. st \<noteq> null]) = None"
      using assms(6) by (auto simp: find_None_set)
    then have "List.find ?g (rev ?s) = Some (gl_struct l)"
      using assms(4,5) by (simp add: find_append)
    then show ?thesis by (simp add: canonicalStruct_def)
  qed
  then have "k = FieldKey KStructField (structTypeName L (gl_struct l)) (sum_list (map gl_offset (ls @ l # us)))"
    using assms(1,3,4) by (auto simp: fromValue_def Let_def climbGEPs_levels assms(2) split: if_splits)
  then show ?thesis by simp
qed

lemma owner_key_offset_witness:
  "fromValue sampleIr 3 False = Some (FieldKey KStructField ''struct.card'' 24)"
proof -
  have "fromValue sampleIr 3 False \<noteq> None"
    by (simp add: fromValue_def isAlloca_def  climbGEPs_levels sampleIr_levels Let_def split: if_split)
  then obtain k where k: "fromValue sampleIr 3 False = Some k" by blast
  have g: "\<not> isGenericContainerType sampleIr 11"
    by (simp add: isGenericContainerType_def genericTypes_def startsWith_code)
  have "climbGEPsLeveled sampleIr 3 =
      [\<lparr>gl_struct = 10, gl_offset = 8\<rparr>] @ \<lparr>gl_struct = 11, gl_offset = 16\<rparr> # []"
    using sampleIr_levels by simp
  from owner_key_offset[OF k this] g k show ?thesis by (simp add: structTypeName_def)
qed

end
