(* ===== verification/Verifier.thy ===== *)
theory Verifier
  imports ThreadFacts LockSets HbGraph Contract FieldKey
begin

text \<open>
  The hypothesis verifier (include/Query/HypothesisVerifier.h and
  src/Query/HypothesisVerifier.cpp): the predicates a hypothesis may use, each a verdict
  with a detail text, and the evaluation of a hypothesis' constraints.  The four pointers
  of the class are the record \<open>verifier\<close>; the singletons it consults and the environment
  are the record \<open>analyses\<close>.  The pointer analysis and LLVM values are arguments of it.
  The thread tree is passed through, since its concurrency query fills its cache.  A
  memory access carries the kind of its instruction in place of the instruction.
\<close>

subsection \<open>The classes\<close>

datatype op_kind = READ | WRITE | RMW | CALLS | OTHER

datatype inst_shape = AtomicRMWInst | AtomicCmpXchgInst | StoreInst | LoadInst | CallInst | InvokeInst | OtherInst

record memory_access =
  pointerOperand :: ptr
  ma_isWrite :: bool
  ma_location :: node_loc
  ma_context :: context_stack
  ma_instruction :: "inst_shape option"

record analyses =
  an_env :: "string \<Rightarrow> string option"
  an_lsa :: lsa
  an_lockAlias :: "ptr \<Rightarrow> ptr \<Rightarrow> bool"
  an_alias :: "ptr \<Rightarrow> ptr \<Rightarrow> bool"
  accessesFromLocation :: "node_loc \<Rightarrow> context_stack \<Rightarrow> memory_access list"
  an_ir :: llvm_ir
  hasModule :: bool
  pointerTyped :: "ptr \<Rightarrow> bool"
  an_config :: config
  an_sharing :: sharing

record verifier =
  vf_ccpg :: ccpg
  vf_tct :: tct
  vf_hb :: "hbgraph option"
  vf_surface :: "surface option"

definition hbRequireSyncEnabled :: "(string \<Rightarrow> string option) \<Rightarrow> bool" where
  "hbRequireSyncEnabled env = (case env ''LACE_HB_REQUIRE_SYNC'' of Some e \<Rightarrow> e \<noteq> ''0'' | None \<Rightarrow> True)"

primrec opKindName :: "op_kind \<Rightarrow> string" where
  "opKindName READ = ''READ''"
| "opKindName WRITE = ''WRITE''"
| "opKindName RMW = ''RMW''"
| "opKindName CALLS = ''CALL''"
| "opKindName OTHER = ''OTHER''"

definition opKindFromString :: "string \<Rightarrow> op_kind" where
  "opKindFromString s =
     (if s = ''READ'' \<or> s = ''read'' \<or> s = ''load'' then READ
      else if s = ''WRITE'' \<or> s = ''write'' \<or> s = ''store'' then WRITE
      else if s = ''RMW'' \<or> s = ''rmw'' \<or> s = ''atomic_rmw'' then RMW
      else if s = ''CALL'' \<or> s = ''call'' then CALLS
      else OTHER)"

definition str :: "int \<Rightarrow> string" where "str i = int_to_string i"

text \<open>The UTF-8 bytes of the dash, the negation and the conjunction in the detail texts.\<close>

definition emDash :: string where "emDash = [CHR 0xE2, CHR 0x80, CHR 0x94]"
definition notSign :: string where "notSign = [CHR 0xC2, CHR 0xAC]"
definition andSign :: string where "andSign = [CHR 0xE2, CHR 0x88, CHR 0xA7]"

subsection \<open>Membership, concurrency of threads, reachability\<close>

definition threadById :: "tct \<Rightarrow> int \<Rightarrow> ptr" where
  "threadById T i = (if i < 0 then null else getThreadById T (nat i))"

definition eval_in_thread :: "verifier \<Rightarrow> int \<Rightarrow> int \<Rightarrow> bool \<times> string" where
  "eval_in_thread V node_id thread_id =
     (if node_id < 0 \<or> thread_id < 0 then (False, ''Invalid node_id or thread_id'')
      else let node = getNodeByID (vf_ccpg V) node_id; t = threadById (vf_tct V) thread_id in
        if node = null then (False, ''Node '' @ str node_id @ '' not found in CCPG'')
        else if t = null then (False, ''Thread '' @ str thread_id @ '' not found'')
        else if node \<in> set (th_nodes (thr (vf_tct V) t))
          then (True, ''Node '' @ str node_id @ '' belongs to thread '' @ str thread_id)
        else (False, ''Node '' @ str node_id @ '' is NOT in thread '' @ str thread_id))"

definition eval_may_run_concurrently :: "analyses \<Rightarrow> verifier \<Rightarrow> int \<Rightarrow> int \<Rightarrow> ((bool \<times> string) \<times> tct) option" where
  "eval_may_run_concurrently A V t1 t2 =
     (let T = vf_tct V; thread1 = threadById T t1; thread2 = threadById T t2 in
      if thread1 = null \<or> thread2 = null
        then Some ((False, ''Thread(s) not found: T'' @ str t1 @ '', T'' @ str t2), T)
      else map_option (\<lambda>(conc, T').
             ((conc, ''T'' @ str t1 @ '' and T'' @ str t2 @
                (if conc then '' CAN'' else '' CANNOT'') @ '' run concurrently''), T'))
           (mayThreadsRunConcurrently (an_config A) (an_sharing A) (vf_ccpg V) thread1 thread2 T))"

text \<open>
  The bounded search of the reachability predicate.  Its target lies in the thread, so
  leaving out the order edges that leave the thread before the goal test is what the code
  does after it; the payload counts the edges of the path found.
\<close>

definition reach_succ :: "ccpg \<Rightarrow> ptr list \<Rightarrow> ptr \<Rightarrow> (edge_type \<times> ptr) list" where
  "reach_succ g U n = map (\<lambda>e. (e_type e, e_dst e)) (filter (\<lambda>e.
     (e_type e = ORDER \<or> e_type e = CALL) \<and> e_dst e \<noteq> null \<and> (e_type e = ORDER \<longrightarrow> e_dst e \<in> set U))
     (nd_out (nodeOf g n)))"

definition eval_reachable :: "verifier \<Rightarrow> int \<Rightarrow> int \<Rightarrow> bool \<times> string" where
  "eval_reachable V from_id to_id =
     (let g = vf_ccpg V; T = vf_tct V; src = getNodeByID g from_id; dst = getNodeByID g to_id in
      if src = null \<or> dst = null
        then (False, ''Node(s) not found: '' @ str from_id @ '' -> '' @ str to_id)
      else let t = findThread T src; U = th_nodes (thr T t) in
        if t = null then (False, ''Source node '' @ str from_id @ '' not found in any thread'')
        else if src = dst then (True, ''Trivially reachable (same node)'')
        else if dst \<notin> set U
          then (False, ''Target node '' @ str to_id @ '' not in same thread as source'')
        else case bfs_from (reach_succ g U) (\<lambda>n. n = dst) (\<lambda>_. Suc) 8 src 0 of
          Some d \<Rightarrow> (True, ''Path exists from node '' @ str from_id @ '' to node '' @ str to_id @
            '' (cross-function BFS depth '' @ to_string d @ '')'')
        | None \<Rightarrow> (False, ''No control flow path from node '' @ str from_id @ '' to node '' @ str to_id @
            '' within depth 8 (ORDER+CALL BFS)''))"

subsection \<open>Locks\<close>

definition nodeCode :: "ccpg \<Rightarrow> ptr \<Rightarrow> string" where
  "nodeCode g n = (if nd_cpg (nodeOf g n) \<noteq> null then getCode (cpgOf g n) else ''?'')"

definition contextsOf :: "ccpg \<Rightarrow> ptr \<Rightarrow> context_stack list" where
  "contextsOf g n = (if nd_function (nodeOf g n) = null then [] else fn_contexts (funH g (nd_function (nodeOf g n))))"

definition lockCodes :: "analyses \<Rightarrow> ccpg \<Rightarrow> ptr list \<Rightarrow> string list" where
  "lockCodes A g ls = map (nodeCode g) (filter (\<lambda>a. a \<noteq> null) (map (acq (an_lsa A)) ls))"

definition joinList :: "string list \<Rightarrow> string" where
  "joinList ss = foldl (\<lambda>acc s. (if acc \<noteq> [] then acc @ '', '' else acc) @ s) [] ss"

definition eval_not_lock_protected :: "analyses \<Rightarrow> verifier \<Rightarrow> int \<Rightarrow> bool \<times> string" where
  "eval_not_lock_protected A V node_id =
     (let g = vf_ccpg V; S = an_lsa A; node = getNodeByID g node_id in
      if node = null then (False, ''Node '' @ str node_id @ '' not found'')
      else let ctxs = contextsOf g node in
        if ctxs = [] then
          (let lockSet = getLockSet S node [] in
           if lockSet = [] then (True, ''Node '' @ str node_id @ '' is NOT lock-protected (empty LockSet)'')
           else (False, ''Node '' @ str node_id @ '' IS lock-protected by: '' @ joinList (lockCodes A g lockSet)))
        else if list_ex (\<lambda>ctx. getLockSet S node ctx = []) ctxs
          then (True, ''Node '' @ str node_id @ '' has at least one call context with an empty LockSet'')
        else (False, ''Node '' @ str node_id @ '' is lock-protected in all '' @ to_string (length ctxs) @
          '' contexts. Lock(s) ever held: '' @
          joinList (dedupFirst (concat (map (\<lambda>ctx. lockCodes A g (getLockSet S node ctx)) ctxs)))))"

definition allLocksetsFor :: "analyses \<Rightarrow> ccpg \<Rightarrow> ptr \<Rightarrow> ptr list list" where
  "allLocksetsFor A g n =
     (let ctxs = contextsOf g n in
      if ctxs = [] then [getLockSet (an_lsa A) n []] else map (getLockSet (an_lsa A) n) ctxs)"

text \<open>The first pair of aliased locks, in the order of the four nested loops.\<close>

definition sharedLock :: "analyses \<Rightarrow> ptr list list \<Rightarrow> ptr list list \<Rightarrow> (ptr \<times> ptr) option" where
  "sharedLock A locksets1 locksets2 =
     List.find (\<lambda>(l1, l2). l1 \<noteq> null \<and> l2 \<noteq> null \<and> an_lockAlias A (acq (an_lsa A) l1) (acq (an_lsa A) l2))
       (concat (map (\<lambda>ls1. concat (map (\<lambda>ls2. concat (map (\<lambda>l1. map (Pair l1) ls2) ls1)) locksets2)) locksets1))"

text \<open>The protecting lock a surface records for a node, with its object's name: the first one met.\<close>

definition surfaceLock :: "surface \<Rightarrow> int \<Rightarrow> (string \<times> string) option" where
  "surfaceLock sf n =
     map_option (\<lambda>(a, ob). (ac_lock a, so_name ob))
       (List.find (\<lambda>(a, ob). ac_node a = n \<and> ac_locked a \<and> ac_lock a \<noteq> [])
         (concat (map (\<lambda>ob. map (\<lambda>a. (a, ob)) (so_accesses ob)) (sf_objects sf))))"

definition surfaceSameLock :: "surface option \<Rightarrow> int \<Rightarrow> int \<Rightarrow> (string \<times> string \<times> string) option" where
  "surfaceSameLock osf n1 n2 =
     (case osf of None \<Rightarrow> None
      | Some sf \<Rightarrow> (case (surfaceLock sf n1, surfaceLock sf n2) of
          (Some (lock1, obj1), Some (lock2, obj2)) \<Rightarrow> if lock1 = lock2 then Some (lock1, obj1, obj2) else None
        | _ \<Rightarrow> None))"

definition eval_same_lock :: "analyses \<Rightarrow> verifier \<Rightarrow> int \<Rightarrow> int \<Rightarrow> bool \<times> string" where
  "eval_same_lock A V n1 n2 =
     (let g = vf_ccpg V; node1 = getNodeByID g n1; node2 = getNodeByID g n2 in
      if node1 = null \<or> node2 = null then (False, ''Node(s) not found: '' @ str n1 @ '', '' @ str n2)
      else let locksets1 = allLocksetsFor A g node1; locksets2 = allLocksetsFor A g node2 in
        case sharedLock A locksets1 locksets2 of
          Some (l1, l2) \<Rightarrow>
            (let a = acq (an_lsa A) l1; lockCode = (if a = null then ''?'' else nodeCode g a) in
             (True, ''Node '' @ str n1 @ '' and node '' @ str n2 @ '' share a common lock '' @ [CHR 0x27] @ lockCode @
                [CHR 0x27] @ '' (path-sensitive, includes caller-held locks).''))
        | None \<Rightarrow>
            (case surfaceSameLock (vf_surface V) n1 n2 of
               Some (lock, obj1, obj2) \<Rightarrow>
                 (True, ''Node '' @ str n1 @ '' and node '' @ str n2 @ '' share surface-level protecting lock '' @
                   [CHR 0x27] @ lock @ [CHR 0x27] @ '' (objects: '' @ obj1 @ (if obj1 = obj2 then [] else '', '' @ obj2) @
                   ''); accepted via v23 Fix #3c surface-lock fallback after LSAnalysis-based isLockAlias failed.'')
             | None \<Rightarrow>
                 (False, ''Node '' @ str n1 @ '' and node '' @ str n2 @ '' do NOT share any common lock across '' @
                   to_string (length locksets1) @ ''x'' @ to_string (length locksets2) @
                   '' context pair(s) (interprocedural LockSet).'')))"

subsection \<open>Memory accesses of a node\<close>

definition firstContext :: "ccpg \<Rightarrow> ptr \<Rightarrow> context_stack" where
  "firstContext g n = (if n = null then [] else case contextsOf g n of [] \<Rightarrow> [] | c # _ \<Rightarrow> c)"

text \<open>The alias test reads the function of both nodes; it is a fault when one has none.\<close>

definition eval_alias :: "analyses \<Rightarrow> verifier \<Rightarrow> int \<Rightarrow> int \<Rightarrow> (bool \<times> string) result" where
  "eval_alias A V n1 n2 =
     (let g = vf_ccpg V; node1 = getNodeByID g n1; node2 = getNodeByID g n2 in
      if node1 = null \<or> node2 = null then Ok (False, ''Node(s) not found: '' @ str n1 @ '', '' @ str n2)
      else if nd_function (nodeOf g node1) = null \<or> nd_function (nodeOf g node2) = null then Throw
      else let accesses1 = accessesFromLocation A (nd_loc (nodeOf g node1)) (firstContext g node1);
               accesses2 = accessesFromLocation A (nd_loc (nodeOf g node2)) (firstContext g node2) in
        if list_ex (\<lambda>a1. list_ex (\<lambda>a2. an_alias A (pointerOperand a1) (pointerOperand a2)) accesses2) accesses1
          then Ok (True, ''Memory operations at node '' @ str n1 @ '' and node '' @ str n2 @ '' ARE aliases'')
        else Ok (False, ''Memory operations at node '' @ str n1 @ '' and node '' @ str n2 @ '' are NOT aliases''))"

definition kWriteHints :: "string list" where
  "kWriteHints = [''_del'', ''_set'', ''_clear'', ''_add'', ''_insert'', ''_remove'', ''_destroy'', ''_unregister'',
     ''_release'', ''_init'', ''_reset'', ''_assign'', ''_store'', ''_write'', ''_put'']"

definition inferIsWrite :: "call_inst \<Rightarrow> bool" where
  "inferIsWrite ci =
     (case ci_callee ci of
        None \<Rightarrow> False
      | Some n \<Rightarrow>
          (if n = [] then False
           else if n = ''kfree'' \<or> n = ''kvfree'' \<or> n = ''kmem_cache_free'' \<or> startsWith n ''kfree_'' \<or>
                endsWith n ''_free'' \<or> contains n ''kfree_rcu'' then True
           else list_ex (contains n) kWriteHints))"

definition gatherAccesses :: "analyses \<Rightarrow> ccpg \<Rightarrow> ptr \<Rightarrow> memory_access list" where
  "gatherAccesses A g n =
     (if n = null then []
      else let ctxs = contextsOf g n; loc = nd_loc (nodeOf g n);
               out = (if ctxs = [] then accessesFromLocation A loc []
                      else concat (map (accessesFromLocation A loc) ctxs)) in
        if out \<noteq> [] then out
        else if \<not> nd_callSite (nodeOf g n) then []
        else case nd_callInst (nodeOf g n) of
          None \<Rightarrow> []
        | Some ci \<Rightarrow>
            map (\<lambda>arg. \<lparr>pointerOperand = arg, ma_isWrite = inferIsWrite ci, ma_location = loc,
                         ma_context = firstContext g n, ma_instruction = Some CallInst\<rparr>)
              (filter (\<lambda>arg. arg \<noteq> null \<and> pointerTyped A arg) (ci_args ci)))"

definition classifyInstruction :: "inst_shape option \<Rightarrow> op_kind" where
  "classifyInstruction i =
     (case i of
        None \<Rightarrow> OTHER
      | Some AtomicRMWInst \<Rightarrow> RMW
      | Some AtomicCmpXchgInst \<Rightarrow> RMW
      | Some StoreInst \<Rightarrow> WRITE
      | Some LoadInst \<Rightarrow> READ
      | Some CallInst \<Rightarrow> CALLS
      | Some InvokeInst \<Rightarrow> CALLS
      | Some OtherInst \<Rightarrow> OTHER)"

subsection \<open>Same location and conflicts\<close>

definition accessPairs :: "memory_access list \<Rightarrow> memory_access list \<Rightarrow> (memory_access \<times> memory_access) list" where
  "accessPairs xs ys = concat (map (\<lambda>a1. map (Pair a1) ys) xs)"

text \<open>The key on which two accesses agree: the key of the first pair that has equal keys.\<close>

definition sameField :: "analyses \<Rightarrow> memory_access list \<Rightarrow> memory_access list \<Rightarrow> field_key option" where
  "sameField A accs1 accs2 =
     (if \<not> hasModule A then None
      else let key = (\<lambda>a. fromValue (an_ir A) (pointerOperand a) False) in
        Option.bind (List.find (\<lambda>(a1, a2). key a1 \<noteq> None \<and> key a1 = key a2) (accessPairs accs1 accs2))
          (\<lambda>(a1, a2). key a1))"

definition anyAlias :: "analyses \<Rightarrow> memory_access list \<Rightarrow> memory_access list \<Rightarrow> bool" where
  "anyAlias A accs1 accs2 =
     list_ex (\<lambda>(a1, a2). an_alias A (pointerOperand a1) (pointerOperand a2)) (accessPairs accs1 accs2)"

definition sameGlobal :: "analyses \<Rightarrow> memory_access list \<Rightarrow> memory_access list \<Rightarrow> ptr option" where
  "sameGlobal A accs1 accs2 =
     (let root = (\<lambda>a. if pointerOperand a = null then null else underlying (an_ir A) (pointerOperand a)) in
      map_option (\<lambda>(a1, a2). root a1)
        (List.find (\<lambda>(a1, a2). root a1 \<noteq> null \<and> ir_shape (an_ir A) (root a1) = GlobalVar \<and>
             pointerOperand a2 \<noteq> null \<and> root a1 = root a2) (accessPairs accs1 accs2)))"

definition isListHelperSnippet :: "string \<Rightarrow> bool" where
  "isListHelperSnippet code \<longleftrightarrow> contains code ''[list-helper]'' \<or> contains code ''list_for_each_entry'' \<or>
     contains code ''hlist_for_each_entry''"

definition lastSnippet :: "shared_object \<Rightarrow> int \<Rightarrow> string option" where
  "lastSnippet ob n = map_option ac_code (List.find (\<lambda>a. ac_node a = n) (rev (so_accesses ob)))"

definition coLocated :: "shared_object \<Rightarrow> int \<Rightarrow> int \<Rightarrow> bool" where
  "coLocated ob n1 n2 =
     (has_list_mutation ob \<and>
      (case (lastSnippet ob n1, lastSnippet ob n2) of
         (Some s1, Some s2) \<Rightarrow> isListHelperSnippet s1 \<or> isListHelperSnippet s2
       | _ \<Rightarrow> False))"

definition fix3b :: string where
  "fix3b = '' (has_list_mutation=true; static aliasing across list_del entry-ptr vs list_for_each_entry head-load is undecidable, relaxed via v23 Fix #3b)''"

definition eval_same_location :: "analyses \<Rightarrow> verifier \<Rightarrow> int \<Rightarrow> int \<Rightarrow> bool \<times> string" where
  "eval_same_location A V n1 n2 =
     (let g = vf_ccpg V; node1 = getNodeByID g n1; node2 = getNodeByID g n2 in
      if node1 = null \<or> node2 = null then (False, ''Node(s) not found: '' @ str n1 @ '', '' @ str n2)
      else let accs1 = gatherAccesses A g node1; accs2 = gatherAccesses A g node2 in
        if accs1 = [] \<or> accs2 = []
          then (False, ''No memory accesses recorded for node '' @ str n1 @ '' or '' @ str n2 @
                  '' (try eval_alias for a coarser check)'')
        else case sameField A accs1 accs2 of
          Some k \<Rightarrow> (True, ''same field: '' @ key_toString k)
        | None \<Rightarrow>
            if anyAlias A accs1 accs2 then (True, ''phasar-alias (field-level disagrees or unavailable)'')
            else (case sameGlobal A accs1 accs2 of
              Some r \<Rightarrow> (True, ''same underlying global: '' @
                (case ir_name (an_ir A) r of Some n \<Rightarrow> n | None \<Rightarrow> ''<anon>''))
            | None \<Rightarrow>
                (case Option.bind (vf_surface V) (\<lambda>sf. List.find (\<lambda>ob. coLocated ob n1 n2) (sf_objects sf)) of
                   Some ob \<Rightarrow> (True, ''surface-co-located list-helper accesses on '' @ [CHR 0x27] @ so_name ob @
                                 [CHR 0x27] @ fix3b)
                 | None \<Rightarrow> (False, ''no shared field nor pointer alias between node '' @ str n1 @ '' and '' @ str n2))))"

definition opKinds :: "op_kind list" where "opKinds = [READ, WRITE, RMW, CALLS, OTHER]"

definition eval_op_kind :: "analyses \<Rightarrow> verifier \<Rightarrow> int \<Rightarrow> op_kind \<Rightarrow> bool \<times> string" where
  "eval_op_kind A V node_id expected =
     (let g = vf_ccpg V; node = getNodeByID g node_id in
      if node = null then (False, ''Node '' @ str node_id @ '' not found'')
      else if expected = CALLS \<and> nd_callSite (nodeOf g node) \<and> nd_callInst (nodeOf g node) \<noteq> None
        then (True, ''CCPG marks node '' @ str node_id @ '' as call site (matches CALL)'')
      else let seen = map (\<lambda>a. classifyInstruction (ma_instruction a)) (gatherAccesses A g node) in
        if expected \<in> set seen
          then (True, ''Node '' @ str node_id @ '' has at least one IR access of kind '' @ opKindName expected)
        else if expected = CALLS \<and> nd_callSite (nodeOf g node)
          then (True, ''Node '' @ str node_id @ '' is a CCPG call site (no IR memory access recorded)'')
        else (False, ''Node '' @ str node_id @ '' has no IR access of kind '' @ opKindName expected @
          ''; observed kinds: '' @
          (let seenStr = joinList (map opKindName (filter (\<lambda>k. k \<in> set seen) opKinds))
           in if seenStr = [] then ''<none>'' else seenStr)))"

definition hbSource :: "bool \<Rightarrow> string" where
  "hbSource requireSync = (if requireSync then ''HBGraph(sync-only)'' else ''HBGraph'')"

definition boolText :: "bool \<Rightarrow> string" where "boolText b = (if b then ''true'' else ''false'')"

definition eval_hb :: "analyses \<Rightarrow> verifier \<Rightarrow> int \<Rightarrow> int \<Rightarrow> bool \<Rightarrow> bool \<times> string" where
  "eval_hb A V n1 n2 expected =
     (let g = vf_ccpg V; a = getNodeByID g n1; b = getNodeByID g n2 in
      if a = null \<or> b = null then (False, ''Node(s) not found: '' @ str n1 @ '', '' @ str n2)
      else let (actual, source) =
             (case vf_hb V of
                Some h \<Rightarrow>
                  (let requireSync = (\<not> expected \<and> hbRequireSyncEnabled (an_env A))
                   in (hbReachable (an_env A) h a b 16 requireSync AllMechanisms, hbSource requireSync))
              | None \<Rightarrow> (fst (eval_reachable V n1 n2), ''fallback(reachable, no HBGraph)''))
        in (actual = expected, ''hb('' @ str n1 @ '','' @ str n2 @ '')='' @ boolText actual @ '' expected='' @
              boolText expected @ '' ['' @ source @ '']''))"

definition hasWriteOrRMW :: "memory_access list \<Rightarrow> bool" where
  "hasWriteOrRMW v = list_ex (\<lambda>a. classifyInstruction (ma_instruction a) = WRITE \<or>
     classifyInstruction (ma_instruction a) = RMW \<or> ma_isWrite a) v"

definition listMutators :: "string list" where
  "listMutators = [''list_del'', ''list_add'', ''list_move'', ''list_splice'', ''list_replace'', ''list_swap'',
     ''list_cut_'', ''hlist_del'', ''hlist_add'', ''hlist_move'', ''hlist_splice'', ''hlist_replace'']"

definition isListMutatorSnippet :: "string \<Rightarrow> bool" where
  "isListMutatorSnippet code \<longleftrightarrow> contains code ''[list-helper]'' \<and> list_ex (contains code) listMutators"

definition objectWrites :: "shared_object \<Rightarrow> int \<Rightarrow> bool" where
  "objectWrites ob n = list_ex (\<lambda>a. ac_node a = n \<and> ac_type a = ''Write'' \<and> isListMutatorSnippet (ac_code a)) (so_accesses ob)"

text \<open>The write sides the first list object with one contributes.\<close>

definition surfaceWrites :: "surface \<Rightarrow> int \<Rightarrow> int \<Rightarrow> bool \<times> bool" where
  "surfaceWrites sf n1 n2 =
     (case List.find (\<lambda>ob. has_list_mutation ob \<and> (objectWrites ob n1 \<or> objectWrites ob n2)) (sf_objects sf) of
        Some ob \<Rightarrow> (objectWrites ob n1, objectWrites ob n2)
      | None \<Rightarrow> (False, False))"

definition eval_conflicts :: "analyses \<Rightarrow> verifier \<Rightarrow> int \<Rightarrow> int \<Rightarrow> bool \<times> string" where
  "eval_conflicts A V n1 n2 =
     (let (sameLoc, locDetail) = eval_same_location A V n1 n2 in
      if \<not> sameLoc then (False, ''conflicts: same_location FAILED '' @ emDash @ '' '' @ locDetail)
      else let g = vf_ccpg V;
               w1 = hasWriteOrRMW (gatherAccesses A g (getNodeByID g n1));
               w2 = hasWriteOrRMW (gatherAccesses A g (getNodeByID g n2));
               (s1, s2) = (case vf_surface V of
                  Some sf \<Rightarrow> if \<not> (w1 \<or> w2) \<and> contains locDetail ''Fix #3b'' then surfaceWrites sf n1 n2 else (False, False)
                | None \<Rightarrow> (False, False))
        in if \<not> (w1 \<or> w2) \<and> \<not> (s1 \<or> s2)
             then (False, ''conflicts: same field but neither side writes ('' @ locDetail @ '')'')
           else let v1 = (w1 \<or> s1); v2 = (w2 \<or> s2) in
             (True, ''conflicts: '' @ locDetail @ ''; write side(s)='' @ (if v1 then ''n1'' else []) @
                (if v1 \<and> v2 then ''+'' else []) @ (if v2 then ''n2'' else [])))"

definition eval_concurrent :: "analyses \<Rightarrow> verifier \<Rightarrow> int \<Rightarrow> int \<Rightarrow> bool \<times> string" where
  "eval_concurrent A V n1 n2 =
     (let g = vf_ccpg V; a = getNodeByID g n1; b = getNodeByID g n2 in
      if a = null \<or> b = null then (False, ''Node(s) not found: '' @ str n1 @ '', '' @ str n2)
      else let (ab, ba, source) =
             (case vf_hb V of
                Some h \<Rightarrow>
                  (let requireSync = hbRequireSyncEnabled (an_env A)
                   in (hbReachable (an_env A) h a b 16 requireSync AllMechanisms,
                       hbReachable (an_env A) h b a 16 requireSync AllMechanisms, hbSource requireSync))
              | None \<Rightarrow> (fst (eval_reachable V n1 n2), fst (eval_reachable V n2 n1),
                         ''fallback(reachable, no HBGraph)''))
        in if ab \<or> ba
             then (False, ''concurrent: hb('' @ str n1 @ '','' @ str n2 @ '')='' @ (if ab then ''T'' else ''F'') @
                '', hb('' @ str n2 @ '','' @ str n1 @ '')='' @ (if ba then ''T'' else ''F'') @ '' ['' @ source @ '']'')
           else let (same, lockDetail) = eval_same_lock A V n1 n2 in
             if same then (False, ''concurrent: HB-unordered but '' @ lockDetail)
             else (True, ''concurrent: '' @ notSign @ ''hb in either direction and '' @ lockDetail @
                     '' ['' @ source @ '']''))"

definition eval_unsafe_atomic_block :: "analyses \<Rightarrow> verifier \<Rightarrow> int \<Rightarrow> int \<Rightarrow> int \<Rightarrow> bool \<times> string" where
  "eval_unsafe_atomic_block A V start_id end_id witness_id =
     (let (reach, r) = eval_reachable V start_id end_id in
      if \<not> reach then (False, ''unsafe_atomic_block: reachable(start,end) FAILED '' @ emDash @ '' '' @ r)
      else let (confStart, c1) = eval_conflicts A V witness_id start_id;
               (confEnd, c2) = eval_conflicts A V witness_id end_id;
               (locStart, locWS) = (if confStart \<or> confEnd then (False, []) else eval_same_location A V witness_id start_id);
               (locEnd, locWE) = (if confStart \<or> confEnd then (False, []) else eval_same_location A V witness_id end_id)
        in if \<not> (confStart \<or> confEnd) \<and> \<not> (locStart \<or> locEnd)
             then (False, ''unsafe_atomic_block: witness does not conflict with start nor end ('' @ c1 @ '' | '' @ c2 @
                ''); same_location also failed ('' @ locWS @ '' | '' @ locWE @ '')'')
           else let (ok_ws, h1) = eval_hb A V witness_id start_id False;
                    (ok_ew, h2) = eval_hb A V end_id witness_id False
             in if \<not> (ok_ws \<and> ok_ew)
                  then (False, ''unsafe_atomic_block: witness is hb-ordered around the block ('' @ h1 @ '' | '' @ h2 @ '')'')
                else (True, ''unsafe_atomic_block: start->end reachable; witness aliases '' @
                  (if confStart then ''start'' else if confEnd then ''end''
                   else if locStart then ''start (same_location only; block-level RMW provides write)''
                   else ''end (same_location only; block-level RMW provides write)'') @
                  ''; '' @ notSign @ ''hb(witness,start) '' @ andSign @ '' '' @ notSign @ ''hb(end,witness) ['' @
                  (if vf_hb V \<noteq> None then ''HBGraph'' else ''fallback'') @ '']''))"

subsection \<open>Evaluation of a hypothesis\<close>

record constraint_result =
  cr_index :: nat
  cr_predicate :: string
  cr_satisfied :: bool
  cr_detail :: string

record verification_result =
  all_satisfied :: bool
  vr_results :: "constraint_result list"

text \<open>
  The library's member access: \<open>value\<close> throws on a value that is no object and when the
  member has another type than the default; an integer conversion keeps 32 bits and also
  accepts floating-point numbers and booleans.
\<close>

definition toInt32 :: "int \<Rightarrow> int" where "toInt32 n = signed_take_bit 31 n"

definition jsonContains :: "json \<Rightarrow> string \<Rightarrow> bool" where
  "jsonContains j k = (case j of JObj m \<Rightarrow> map_of m k \<noteq> None | _ \<Rightarrow> False)"

definition jsonValue :: "json \<Rightarrow> string \<Rightarrow> json \<Rightarrow> json result" where
  "jsonValue j k def = (case j of JObj m \<Rightarrow> Ok (case map_of m k of Some v \<Rightarrow> v | None \<Rightarrow> def) | _ \<Rightarrow> Throw)"

primrec bind_result :: "'a result \<Rightarrow> ('a \<Rightarrow> 'b result) \<Rightarrow> 'b result" where
  "bind_result (Ok x) f = f x"
| "bind_result Throw f = Throw"

definition jsonInt :: "json \<Rightarrow> string \<Rightarrow> int \<Rightarrow> int result" where
  "jsonInt j k def = bind_result (jsonValue j k (JInt def)) (\<lambda>v.
     case v of JInt n \<Rightarrow> Ok (toInt32 n) | JFloat n \<Rightarrow> Ok (toInt32 n) | JBool b \<Rightarrow> Ok (if b then 1 else 0) | _ \<Rightarrow> Throw)"

definition jsonBool :: "json \<Rightarrow> string \<Rightarrow> bool \<Rightarrow> bool result" where
  "jsonBool j k def = bind_result (jsonValue j k (JBool def)) (\<lambda>v. case v of JBool b \<Rightarrow> Ok b | _ \<Rightarrow> Throw)"

definition jsonString :: "json \<Rightarrow> string \<Rightarrow> string \<Rightarrow> string result" where
  "jsonString j k def = bind_result (jsonValue j k (JStr def)) (\<lambda>v. case v of JStr s \<Rightarrow> Ok s | _ \<Rightarrow> Throw)"

definition resolveNodeRef :: "json \<Rightarrow> hypothesis \<Rightarrow> int" where
  "resolveNodeRef val h =
     (case val of
        JInt n \<Rightarrow> toInt32 n
      | JStr ref \<Rightarrow> (case map_of (hy_nodes h) ref of Some i \<Rightarrow> i | None \<Rightarrow> -1)
      | _ \<Rightarrow> -1)"

definition nodeArg :: "hypothesis \<Rightarrow> json \<Rightarrow> string \<Rightarrow> int result" where
  "nodeArg h args k = bind_result (jsonValue args k JNull) (\<lambda>v. Ok (resolveNodeRef v h))"

text \<open>A node argument with a preferred and a legacy name.\<close>

definition nodeArg2 :: "hypothesis \<Rightarrow> json \<Rightarrow> string \<Rightarrow> string \<Rightarrow> int result" where
  "nodeArg2 h args k legacy = (if jsonContains args k then nodeArg h args k else nodeArg h args legacy)"

definition kindArg :: "json \<Rightarrow> op_kind result" where
  "kindArg args = bind_result (jsonString args ''kind'' []) (\<lambda>s.
     bind_result (if s = [] then jsonString args ''expected'' [] else Ok s) (\<lambda>s. Ok (opKindFromString s)))"

definition twoNodes :: "hypothesis \<Rightarrow> json \<Rightarrow> string \<Rightarrow> string \<Rightarrow> string \<Rightarrow> string \<Rightarrow>
    (int \<Rightarrow> int \<Rightarrow> 'a result) \<Rightarrow> 'a result" where
  "twoNodes h args a la b lb f =
     bind_result (nodeArg2 h args a la) (\<lambda>n1. bind_result (nodeArg2 h args b lb) (\<lambda>n2. f n1 n2))"

text \<open>The predicates that leave the thread tree alone.\<close>

definition evalPure :: "analyses \<Rightarrow> verifier \<Rightarrow> hypothesis \<Rightarrow> string \<Rightarrow> json \<Rightarrow> (bool \<times> string) result" where
  "evalPure A V h p args =
     (if p = ''in_thread'' then
        bind_result (nodeArg h args ''node'') (\<lambda>n. bind_result (jsonInt args ''thread'' (-1)) (\<lambda>t.
          Ok (eval_in_thread V n t)))
      else if p = ''reachable'' then
        bind_result (nodeArg h args ''from'') (\<lambda>n1. bind_result (nodeArg h args ''to'') (\<lambda>n2.
          Ok (eval_reachable V n1 n2)))
      else if p = ''not_lock_protected'' then
        bind_result (nodeArg h args ''node'') (\<lambda>n. Ok (eval_not_lock_protected A V n))
      else if p = ''same_lock'' then
        bind_result (nodeArg h args ''node1'') (\<lambda>n1. bind_result (nodeArg h args ''node2'') (\<lambda>n2.
          Ok (eval_same_lock A V n1 n2)))
      else if p = ''alias'' then
        bind_result (nodeArg h args ''node1'') (\<lambda>n1. bind_result (nodeArg h args ''node2'') (\<lambda>n2.
          eval_alias A V n1 n2))
      else if p = ''same_location'' then
        twoNodes h args ''a'' ''node1'' ''b'' ''node2'' (\<lambda>n1 n2. Ok (eval_same_location A V n1 n2))
      else if p = ''op_kind'' then
        bind_result (nodeArg h args ''node'') (\<lambda>n. bind_result (kindArg args) (\<lambda>k. Ok (eval_op_kind A V n k)))
      else if p = ''hb'' then
        twoNodes h args ''a'' ''from'' ''b'' ''to'' (\<lambda>n1 n2.
          bind_result (jsonBool args ''expected'' True) (\<lambda>expected. Ok (eval_hb A V n1 n2 expected)))
      else if p = ''conflicts'' then
        twoNodes h args ''a'' ''node1'' ''b'' ''node2'' (\<lambda>n1 n2. Ok (eval_conflicts A V n1 n2))
      else if p = ''concurrent'' then
        twoNodes h args ''a'' ''node1'' ''b'' ''node2'' (\<lambda>n1 n2. Ok (eval_concurrent A V n1 n2))
      else if p = ''unsafe_atomic_block'' then
        bind_result (nodeArg h args ''start'') (\<lambda>s. bind_result (nodeArg h args ''end'') (\<lambda>e.
          bind_result (nodeArg h args ''witness'') (\<lambda>w. Ok (eval_unsafe_atomic_block A V s e w))))
      else Ok (False, ''Unknown predicate: '' @ p))"

text \<open>None stands for a concurrency query that does not return, on a cyclic thread tree.\<close>

definition evalConstraint :: "analyses \<Rightarrow> verifier \<Rightarrow> hypothesis \<Rightarrow> constraint \<Rightarrow> ((bool \<times> string) \<times> tct) result option" where
  "evalConstraint A V h c =
     (if ct_predicate c = ''may_run_concurrently'' then
        (case (jsonInt (ct_args c) ''thread1'' (-1), jsonInt (ct_args c) ''thread2'' (-1)) of
           (Ok t1, Ok t2) \<Rightarrow> map_option Ok (eval_may_run_concurrently A V t1 t2)
         | _ \<Rightarrow> Some Throw)
      else Some (bind_result (evalPure A V h (ct_predicate c) (ct_args c)) (\<lambda>r. Ok (r, vf_tct V))))"

fun verifyLoop :: "analyses \<Rightarrow> verifier \<Rightarrow> hypothesis \<Rightarrow> nat \<Rightarrow> constraint list \<Rightarrow> verification_result \<Rightarrow>
    (verification_result \<times> verifier) result option" where
  "verifyLoop A V h i [] r = Some (Ok (r, V))"
| "verifyLoop A V h i (c # cs) r =
     Option.bind (evalConstraint A V h c) (\<lambda>res. case res of
        Throw \<Rightarrow> Some Throw
      | Ok ((b, d), T) \<Rightarrow>
          verifyLoop A (V\<lparr>vf_tct := T\<rparr>) h (Suc i) cs
            \<lparr>all_satisfied = (all_satisfied r \<and> b),
             vr_results = vr_results r @ [\<lparr>cr_index = i, cr_predicate = ct_predicate c, cr_satisfied = b, cr_detail = d\<rparr>]\<rparr>)"

definition verify :: "analyses \<Rightarrow> verifier \<Rightarrow> hypothesis \<Rightarrow> (verification_result \<times> verifier) result option" where
  "verify A V h = verifyLoop A V h 0 (hy_constraints h) \<lparr>all_satisfied = True, vr_results = []\<rparr>"

subsection \<open>Serialisation\<close>

text \<open>Objects of the JSON library are ordered by key.\<close>

definition hypothesisJson :: "hypothesis \<Rightarrow> json" where
  "hypothesisJson h = JObj
     [(''bug_category'', JStr (hy_bug_category h)),
      (''constraints'', JArr (map (\<lambda>c. JObj [(''args'', ct_args c), (''predicate'', JStr (ct_predicate c))]) (hy_constraints h))),
      (''description'', JStr (hy_description h)),
      (''hypothesis_id'', JStr (hy_id h)),
      (''nodes'', JObj (map (\<lambda>(r, n). (r, JInt n)) (hy_nodes h))),
      (''severity'', JStr (hy_severity h))]"

definition resultEntry :: "constraint_result \<Rightarrow> json" where
  "resultEntry r = JObj [(''detail'', JStr (cr_detail r)), (''index'', JInt (int (cr_index r))),
     (''predicate'', JStr (cr_predicate r))]"

definition toFeedbackJson :: "verification_result \<Rightarrow> json" where
  "toFeedbackJson r =
     (let passed = map resultEntry (filter cr_satisfied (vr_results r));
          failed = map resultEntry (filter (\<lambda>x. \<not> cr_satisfied x) (vr_results r)) in
      JObj [(''failed'', JArr failed),
            (''message'', JStr (if all_satisfied r
               then ''All '' @ to_string (length (vr_results r)) @ '' constraints satisfied. Hypothesis CONFIRMED.''
               else to_string (length failed) @ '' constraint(s) failed. Review the '' @ [CHR 0x27] @ ''failed'' @ [CHR 0x27] @
                 '' array for details and adjust node IDs or constraints.'')),
            (''passed'', JArr passed),
            (''verified'', JBool (all_satisfied r))])"

end
