(* ===== verification/VerifierFacts.thy ===== *)
theory VerifierFacts
  imports Verifier HbFacts
begin

text \<open>
  Facts about the hypothesis verifier: the reachability search is an exact bounded path
  query, the pair predicates are symmetric, and evaluating one constraint never changes
  the verdict of another, since only the caches of the thread tree are written.
\<close>

subsection \<open>Finding the first pair\<close>

lemma find_None_iff_ex: "List.find P xs \<noteq> None \<longleftrightarrow> (\<exists>x \<in> set xs. P x)"
  by (induction xs) auto

lemma accessPairs_set [simp]: "set (accessPairs xs ys) = set xs \<times> set ys"
  by (auto simp: accessPairs_def)

lemma sharedLock_iff:
  "sharedLock A lss1 lss2 \<noteq> None \<longleftrightarrow>
     (\<exists>ls1 \<in> set lss1. \<exists>ls2 \<in> set lss2. \<exists>l1 \<in> set ls1. \<exists>l2 \<in> set ls2.
        l1 \<noteq> null \<and> l2 \<noteq> null \<and> an_lockAlias A (acq (an_lsa A) l1) (acq (an_lsa A) l2))"
  unfolding sharedLock_def find_None_iff_ex by auto

lemma sharedLock_sym:
  assumes "\<And>x y. an_lockAlias A x y = an_lockAlias A y x"
  shows "sharedLock A lss1 lss2 = None \<longleftrightarrow> sharedLock A lss2 lss1 = None"
  using sharedLock_iff[of A lss1 lss2] sharedLock_iff[of A lss2 lss1] assms by blast

lemma surfaceSameLock_sym: "surfaceSameLock osf n1 n2 = None \<longleftrightarrow> surfaceSameLock osf n2 n1 = None"
  by (auto simp: surfaceSameLock_def split: option.splits prod.splits)

lemma sameField_iff:
  "sameField A xs ys \<noteq> None \<longleftrightarrow> hasModule A \<and>
     (\<exists>x \<in> set xs. \<exists>y \<in> set ys. fromValue (an_ir A) (pointerOperand x) False \<noteq> None \<and>
        fromValue (an_ir A) (pointerOperand x) False = fromValue (an_ir A) (pointerOperand y) False)"
proof -
  let ?P = "\<lambda>(a1, a2). fromValue (an_ir A) (pointerOperand a1) False \<noteq> None \<and>
    fromValue (an_ir A) (pointerOperand a1) False = fromValue (an_ir A) (pointerOperand a2) False"
  have "Option.bind (List.find ?P (accessPairs xs ys)) (\<lambda>(a1, a2). fromValue (an_ir A) (pointerOperand a1) False) \<noteq> None \<longleftrightarrow>
      List.find ?P (accessPairs xs ys) \<noteq> None"
    by (cases "List.find ?P (accessPairs xs ys)") (auto dest: find_Some_set)
  then show ?thesis unfolding sameField_def find_None_iff_ex by (auto simp: Let_def)
qed

lemma sameGlobal_iff:
  "sameGlobal A xs ys \<noteq> None \<longleftrightarrow>
     (\<exists>x \<in> set xs. \<exists>y \<in> set ys. pointerOperand x \<noteq> null \<and> pointerOperand y \<noteq> null \<and>
        (let r = underlying (an_ir A) (pointerOperand x) in
         r \<noteq> null \<and> ir_shape (an_ir A) r = GlobalVar \<and> underlying (an_ir A) (pointerOperand y) = r))"
proof -
  have "sameGlobal A xs ys \<noteq> None \<longleftrightarrow> (\<exists>p \<in> set xs \<times> set ys. case p of (x, y) \<Rightarrow>
      pointerOperand x \<noteq> null \<and> pointerOperand y \<noteq> null \<and>
      (let r = underlying (an_ir A) (pointerOperand x) in
         r \<noteq> null \<and> ir_shape (an_ir A) r = GlobalVar \<and> underlying (an_ir A) (pointerOperand y) = r))"
    unfolding sameGlobal_def Let_def option.map_disc_iff find_None_iff_ex accessPairs_set
    by (intro bex_cong refl) auto
  then show ?thesis by auto
qed

lemma sameGlobal_sym: "sameGlobal A xs ys \<noteq> None \<longleftrightarrow> sameGlobal A ys xs \<noteq> None"
  unfolding sameGlobal_iff Let_def by metis

lemma coLocated_sym: "coLocated ob n1 n2 = coLocated ob n2 n1"
  by (auto simp: coLocated_def split: option.splits)

subsection \<open>Verdicts\<close>

lemma same_lock_iff:
  "fst (eval_same_lock A V n1 n2) \<longleftrightarrow>
     (let g = vf_ccpg V; a = getNodeByID g n1; b = getNodeByID g n2 in
      a \<noteq> null \<and> b \<noteq> null \<and>
      (sharedLock A (allLocksetsFor A g a) (allLocksetsFor A g b) \<noteq> None \<or> surfaceSameLock (vf_surface V) n1 n2 \<noteq> None))"
  by (auto simp: eval_same_lock_def Let_def split: option.splits)

lemma same_lock_sym:
  assumes "\<And>x y. an_lockAlias A x y = an_lockAlias A y x"
  shows "fst (eval_same_lock A V n1 n2) = fst (eval_same_lock A V n2 n1)"
  unfolding same_lock_iff Let_def
  using sharedLock_sym[OF assms, of "allLocksetsFor A (vf_ccpg V) (getNodeByID (vf_ccpg V) n1)"
      "allLocksetsFor A (vf_ccpg V) (getNodeByID (vf_ccpg V) n2)"]
    surfaceSameLock_sym[of "vf_surface V" n1 n2] by argo

definition sharesLocation :: "analyses \<Rightarrow> verifier \<Rightarrow> int \<Rightarrow> int \<Rightarrow> bool" where
  "sharesLocation A V n1 n2 =
     (let g = vf_ccpg V; xs = gatherAccesses A g (getNodeByID g n1); ys = gatherAccesses A g (getNodeByID g n2) in
      xs \<noteq> [] \<and> ys \<noteq> [] \<and>
      (sameField A xs ys \<noteq> None \<or> anyAlias A xs ys \<or> sameGlobal A xs ys \<noteq> None \<or>
       (\<exists>sf. vf_surface V = Some sf \<and> (\<exists>ob \<in> set (sf_objects sf). coLocated ob n1 n2))))"

lemma gatherAccesses_null [simp]: "gatherAccesses A g 0 = []"
  by (simp add: gatherAccesses_def)

lemma same_location_iff: "fst (eval_same_location A V n1 n2) \<longleftrightarrow> sharesLocation A V n1 n2"
proof -
  have bind: "Option.bind (vf_surface V) (\<lambda>sf. List.find (\<lambda>ob. coLocated ob n1 n2) (sf_objects sf)) \<noteq> None \<longleftrightarrow>
      (\<exists>sf. vf_surface V = Some sf \<and> (\<exists>ob \<in> set (sf_objects sf). coLocated ob n1 n2))"
    by (cases "vf_surface V") (simp_all del: not_None_eq add: find_None_iff_ex)
  show ?thesis unfolding sharesLocation_def eval_same_location_def Let_def bind[symmetric]
    by (auto split: option.split)
qed

lemma sharesLocation_sym:
  assumes "\<And>x y. an_alias A x y = an_alias A y x"
  shows "sharesLocation A V n1 n2 = sharesLocation A V n2 n1"
proof -
  have "sameField A xs ys \<noteq> None \<longleftrightarrow> sameField A ys xs \<noteq> None" for xs ys
    unfolding sameField_iff by metis
  moreover have "anyAlias A xs ys = anyAlias A ys xs" for xs ys
    using assms by (auto simp: anyAlias_def list_ex_iff)
  moreover note sameGlobal_sym
  ultimately show ?thesis unfolding sharesLocation_def Let_def using coLocated_sym by metis
qed

lemma surfaceWrites_sym: "surfaceWrites sf n2 n1 = prod.swap (surfaceWrites sf n1 n2)"
proof -
  have "(\<lambda>ob. has_list_mutation ob \<and> (objectWrites ob n2 \<or> objectWrites ob n1)) =
      (\<lambda>ob. has_list_mutation ob \<and> (objectWrites ob n1 \<or> objectWrites ob n2))" by auto
  then show ?thesis by (simp add: surfaceWrites_def split: option.split)
qed

lemma conflicts_location: "fst (eval_conflicts A V n1 n2) \<Longrightarrow> fst (eval_same_location A V n1 n2)"
  by (auto simp: eval_conflicts_def Let_def split: prod.splits if_splits)

subsection \<open>Reachability\<close>

fun flowPath :: "ccpg \<Rightarrow> ptr list \<Rightarrow> ptr \<Rightarrow> ccpg_edge list \<Rightarrow> ptr \<Rightarrow> bool" where
  "flowPath g U a [] b = (a = b)"
| "flowPath g U a (e # es) b \<longleftrightarrow>
     e \<in> set (nd_out (nodeOf g a)) \<and> (e_type e = ORDER \<and> e_dst e \<in> set U \<or> e_type e = CALL) \<and> e_dst e \<noteq> null \<and>
     flowPath g U (e_dst e) es b"

lemma flowPath_walk:
  "walk (reach_succ g U) a ls b \<longleftrightarrow> (\<exists>es. flowPath g U a es b \<and> map e_type es = ls)"
proof (induction ls arbitrary: a)
  case (Cons l ls)
  show ?case
  proof
    assume "walk (reach_succ g U) a (l # ls) b"
    then obtain e where e: "e \<in> set (nd_out (nodeOf g a))" "e_type e = ORDER \<or> e_type e = CALL" "e_dst e \<noteq> null"
      "e_type e = ORDER \<longrightarrow> e_dst e \<in> set U" "e_type e = l" "walk (reach_succ g U) (e_dst e) ls b"
      by (auto simp: reach_succ_def)
    from e(6) Cons.IH obtain es where "flowPath g U (e_dst e) es b" "map e_type es = ls" by blast
    with e show "\<exists>es. flowPath g U a es b \<and> map e_type es = l # ls" by (intro exI[of _ "e # es"]) auto
  next
    assume "\<exists>es. flowPath g U a es b \<and> map e_type es = l # ls"
    then obtain e es where "flowPath g U a (e # es) b" "e_type e = l" "map e_type es = ls" by (auto simp: map_eq_Cons_conv)
    then have p: "(l, e_dst e) \<in> set (reach_succ g U a)" "flowPath g U (e_dst e) es b" "map e_type es = ls"
      by (auto simp: reach_succ_def)
    then have "walk (reach_succ g U) (e_dst e) ls b" using Cons.IH[of "e_dst e"] by blast
    with p(1) show "walk (reach_succ g U) a (l # ls) b" by auto
  qed
qed auto

lemma eval_reachable_iff:
  "fst (eval_reachable V i j) \<longleftrightarrow>
     (let g = vf_ccpg V; src = getNodeByID g i; dst = getNodeByID g j;
          t = findThread (vf_tct V) src; U = th_nodes (thr (vf_tct V) t) in
      src \<noteq> null \<and> dst \<noteq> null \<and> t \<noteq> null \<and>
      (src = dst \<or> dst \<in> set U \<and> (\<exists>es. flowPath g U src es dst \<and> length es \<le> 8)))"
proof -
  have found: "bfs_from (reach_succ g U) (\<lambda>n. n = b) (\<lambda>_. Suc) 8 a 0 \<noteq> None \<longleftrightarrow> (\<exists>es. flowPath g U a es b \<and> length es \<le> 8)"
    if "a \<noteq> b" for g U a b
  proof -
    have "(\<exists>ls t. walk (reach_succ g U) a ls t \<and> t = b \<and> ls \<noteq> [] \<and> length ls \<le> 8) \<longleftrightarrow>
        (\<exists>es. flowPath g U a es b \<and> length es \<le> 8)"
      using that unfolding flowPath_walk by (metis flowPath.simps(1) length_map list.map_disc_iff)
    then show ?thesis unfolding bfs_from_iff .
  qed
  have cases: "fst (case r of Some d \<Rightarrow> (True, f d) | None \<Rightarrow> (False, m)) \<longleftrightarrow> r \<noteq> None" for r f and m :: string
    by (simp split: option.split)
  show ?thesis unfolding eval_reachable_def Let_def
    by (simp add: cases found del: not_None_eq)
qed

subsection \<open>The thread tree during a verification\<close>

definition sameTree :: "tct \<Rightarrow> tct \<Rightarrow> bool" where
  "sameTree T T' \<longleftrightarrow> threads T' = threads T \<and> threadH T' = threadH T"

lemma mayThreadsRunConcurrently_threads:
  "mayThreadsRunConcurrently cfg sh g t1 t2 T = Some r \<Longrightarrow> threads (snd r) = threads T"
proof (induction rule: mayThreadsRunConcurrently.raw_induct[rotated 1, consumes 1, case_names step])
  case (step f cfg sh g t1 t2 T r)
  then show ?case
    by (auto simp: mayHappenInParallel_def Let_def split: if_splits option.splits prod.splits
        simp: bind_eq_Some_conv)
qed


lemma sameTree_lookup:
  assumes "sameTree T T'"
  shows "threadById T' i = threadById T i" "findThread T' n = findThread T n" "thr T' t = thr T t"
  using assms by (auto simp: sameTree_def threadById_def getThreadById_def findThread_def)

lemma verifier_update [simp]:
  "vf_ccpg (V\<lparr>vf_tct := T\<rparr>) = vf_ccpg V" "vf_hb (V\<lparr>vf_tct := T\<rparr>) = vf_hb V"
  "vf_surface (V\<lparr>vf_tct := T\<rparr>) = vf_surface V" "vf_tct (V\<lparr>vf_tct := T\<rparr>) = T"
  by simp_all

text \<open>No predicate reads the caches of the thread tree.\<close>

lemma evals_sameTree:
  assumes T: "sameTree (vf_tct V) T"
  shows "eval_in_thread (V\<lparr>vf_tct := T\<rparr>) n t = eval_in_thread V n t"
    "eval_reachable (V\<lparr>vf_tct := T\<rparr>) i j = eval_reachable V i j"
  unfolding eval_in_thread_def eval_reachable_def verifier_update Let_def sameTree_lookup[OF T] by (rule refl)+

lemma evals_tree_free:
  "eval_not_lock_protected A (V\<lparr>vf_tct := T\<rparr>) n = eval_not_lock_protected A V n"
  "eval_same_lock A (V\<lparr>vf_tct := T\<rparr>) i j = eval_same_lock A V i j"
  "eval_alias A (V\<lparr>vf_tct := T\<rparr>) i j = eval_alias A V i j"
  "eval_same_location A (V\<lparr>vf_tct := T\<rparr>) i j = eval_same_location A V i j"
  "eval_op_kind A (V\<lparr>vf_tct := T\<rparr>) n k = eval_op_kind A V n k"
  "eval_conflicts A (V\<lparr>vf_tct := T\<rparr>) i j = eval_conflicts A V i j"
  unfolding eval_not_lock_protected_def eval_same_lock_def eval_alias_def eval_op_kind_def eval_conflicts_def
    eval_same_location_def verifier_update by (rule refl)+

lemma evals_sameTree':
  assumes T: "sameTree (vf_tct V) T"
  shows "eval_hb A (V\<lparr>vf_tct := T\<rparr>) i j e = eval_hb A V i j e"
    "eval_concurrent A (V\<lparr>vf_tct := T\<rparr>) i j = eval_concurrent A V i j"
    "eval_unsafe_atomic_block A (V\<lparr>vf_tct := T\<rparr>) s t w = eval_unsafe_atomic_block A V s t w"
  unfolding eval_hb_def eval_concurrent_def eval_unsafe_atomic_block_def verifier_update evals_sameTree[OF T]
    evals_tree_free by (rule refl)+

lemma evalPure_sameTree:
  assumes T: "sameTree (vf_tct V) T"
  shows "evalPure A (V\<lparr>vf_tct := T\<rparr>) h p args = evalPure A V h p args"
  unfolding evalPure_def evals_sameTree[OF T] evals_sameTree'[OF T] evals_tree_free by (rule refl)


text \<open>
  The verdict of a constraint on its own: for a pair of threads, the concurrency relation
  of the tree; for every other predicate, the evaluation on the verifier as it was built.
\<close>

definition specEval :: "analyses \<Rightarrow> verifier \<Rightarrow> hypothesis \<Rightarrow> constraint \<Rightarrow> (bool \<times> string) result" where
  "specEval A V h c =
     (if ct_predicate c = ''may_run_concurrently'' then
        (case (jsonInt (ct_args c) ''thread1'' (-1), jsonInt (ct_args c) ''thread2'' (-1)) of
           (Ok t1, Ok t2) \<Rightarrow>
             (let a = threadById (vf_tct V) t1; b = threadById (vf_tct V) t2 in
              if a = null \<or> b = null then Ok (False, ''Thread(s) not found: T'' @ str t1 @ '', T'' @ str t2)
              else let conc = (concurrent (an_config A) (an_sharing A) (vf_ccpg V) (vf_tct V) a b = Some True)
                in Ok (conc, ''T'' @ str t1 @ '' and T'' @ str t2 @
                     (if conc then '' CAN'' else '' CANNOT'') @ '' run concurrently''))
         | _ \<Rightarrow> Throw)
      else evalPure A V h (ct_predicate c) (ct_args c))"

definition satisfied :: "(bool \<times> string) result \<Rightarrow> bool" where
  "satisfied r = (case r of Ok (b, d) \<Rightarrow> b | Throw \<Rightarrow> False)"

definition resultOf :: "analyses \<Rightarrow> verifier \<Rightarrow> hypothesis \<Rightarrow> nat \<times> constraint \<Rightarrow> constraint_result" where
  "resultOf A V h = (\<lambda>(i, c). \<lparr>cr_index = i, cr_predicate = ct_predicate c,
     cr_satisfied = satisfied (specEval A V h c),
     cr_detail = (case specEval A V h c of Ok (b, d) \<Rightarrow> d | Throw \<Rightarrow> [])\<rparr>)"

abbreviation tree_ok :: "analyses \<Rightarrow> verifier \<Rightarrow> tct \<Rightarrow> bool" where
  "tree_ok A V T \<equiv> sameTree (vf_tct V) T \<and> caches_ok (an_config A) (an_sharing A) (vf_ccpg V) T"

lemma evalConstraint_spec:
  assumes wf: "tree_wf (vf_tct V)" "sharing_sym (an_sharing A)" and T: "tree_ok A V T"
  shows "\<exists>T'. tree_ok A V T' \<and>
    evalConstraint A (V\<lparr>vf_tct := T\<rparr>) h c = Some (bind_result (specEval A V h c) (\<lambda>r. Ok (r, T')))"
proof (cases "ct_predicate c = ''may_run_concurrently''")
  case False
  have "evalPure A (V\<lparr>vf_tct := T\<rparr>) h p args = evalPure A V h p args" for p args
    using T by (intro evalPure_sameTree) blast
  with False T show ?thesis by (intro exI[of _ T]) (simp add: evalConstraint_def specEval_def)
next
  case True
  show ?thesis
  proof (cases "jsonInt (ct_args c) ''thread1'' (-1)"; cases "jsonInt (ct_args c) ''thread2'' (-1)")
    fix t1 t2 assume args: "jsonInt (ct_args c) ''thread1'' (-1) = Ok t1" "jsonInt (ct_args c) ''thread2'' (-1) = Ok t2"
    have look: "threadById T i = threadById (vf_tct V) i" for i using T sameTree_lookup by blast
    let ?a = "threadById (vf_tct V) t1" and ?b = "threadById (vf_tct V) t2"
    show ?thesis
    proof (cases "?a = null \<or> ?b = null")
      case True
      with args T \<open>ct_predicate c = _\<close> show ?thesis
        by (intro exI[of _ T]) (auto simp: evalConstraint_def specEval_def eval_may_run_concurrently_def look Let_def)
    next
      case ne: False
      have "threadH T = threadH (vf_tct V)" using T by (simp add: sameTree_def)
      with mayThreadsRunConcurrently_cached[OF wf, of "an_config A" "vf_ccpg V" T ?a ?b] T obtain b T' where
        q: "mayThreadsRunConcurrently (an_config A) (an_sharing A) (vf_ccpg V) ?a ?b T = Some (b, T')"
          "concurrent (an_config A) (an_sharing A) (vf_ccpg V) (vf_tct V) ?a ?b = Some b"
          "caches_ok (an_config A) (an_sharing A) (vf_ccpg V) T'" "threadH T' = threadH (vf_tct V)" by blast
      have "sameTree (vf_tct V) T'"
        using mayThreadsRunConcurrently_threads[OF q(1)] q(4) T by (simp add: sameTree_def)
      with q args ne \<open>ct_predicate c = _\<close> show ?thesis
        by (intro exI[of _ T'])
          (auto simp: evalConstraint_def specEval_def eval_may_run_concurrently_def look Let_def)
    qed
  qed (use T True in \<open>auto simp: evalConstraint_def specEval_def\<close>)
qed

lemma verifyLoop_ok:
  assumes wf: "tree_wf (vf_tct V)" "sharing_sym (an_sharing A)"
    and T: "tree_ok A V T" "\<forall>c \<in> set cs. specEval A V h c \<noteq> Throw"
  shows "\<exists>T'. tree_ok A V T' \<and> verifyLoop A (V\<lparr>vf_tct := T\<rparr>) h i cs r =
    Some (Ok (\<lparr>all_satisfied = (all_satisfied r \<and> (\<forall>c \<in> set cs. satisfied (specEval A V h c))),
               vr_results = vr_results r @ map (resultOf A V h) (List.enumerate i cs)\<rparr>, V\<lparr>vf_tct := T'\<rparr>))"
  using T
proof (induction cs arbitrary: T i r)
  case Nil
  then show ?case by (intro exI[of _ T]) (cases r, simp)
next
  case (Cons c cs)
  from Cons.prems(2) obtain b d where bd: "specEval A V h c = Ok (b, d)"
    by (cases "specEval A V h c") auto
  from evalConstraint_spec[OF wf Cons.prems(1), of h c] bd obtain T1 where
    T1: "tree_ok A V T1" "evalConstraint A (V\<lparr>vf_tct := T\<rparr>) h c = Some (Ok ((b, d), T1))" by auto
  let ?r = "\<lparr>all_satisfied = (all_satisfied r \<and> b), vr_results = vr_results r @
     [\<lparr>cr_index = i, cr_predicate = ct_predicate c, cr_satisfied = b, cr_detail = d\<rparr>]\<rparr>"
  from Cons.IH[OF T1(1), of "Suc i" ?r] Cons.prems(2) obtain T' where T': "tree_ok A V T'"
    "verifyLoop A (V\<lparr>vf_tct := T1\<rparr>) h (Suc i) cs ?r =
      Some (Ok (\<lparr>all_satisfied = (all_satisfied ?r \<and> (\<forall>c \<in> set cs. satisfied (specEval A V h c))),
               vr_results = vr_results ?r @ map (resultOf A V h) (List.enumerate (Suc i) cs)\<rparr>, V\<lparr>vf_tct := T'\<rparr>))"
    by auto
  with T1(2) bd show ?case
    by (intro exI[of _ T']) (auto simp: resultOf_def satisfied_def)
qed

lemma verifyLoop_throw:
  assumes wf: "tree_wf (vf_tct V)" "sharing_sym (an_sharing A)"
    and T: "tree_ok A V T" "\<exists>c \<in> set cs. specEval A V h c = Throw"
  shows "verifyLoop A (V\<lparr>vf_tct := T\<rparr>) h i cs r = Some Throw"
  using T
proof (induction cs arbitrary: T i r)
  case (Cons c cs)
  from evalConstraint_spec[OF wf Cons.prems(1), of h c] obtain T1 where T1: "tree_ok A V T1"
    "evalConstraint A (V\<lparr>vf_tct := T\<rparr>) h c = Some (bind_result (specEval A V h c) (\<lambda>r. Ok (r, T1)))" by blast
  show ?case
  proof (cases "specEval A V h c")
    case (Ok p)
    obtain b d where p: "p = (b, d)" by (cases p)
    from Ok Cons.prems(2) have "\<exists>c \<in> set cs. specEval A V h c = Throw" by auto
    from Cons.IH[OF T1(1) this] T1(2) Ok p show ?thesis by simp
  qed (use T1 in simp)
qed simp


subsection \<open>Happens-before\<close>

definition syncOrdered :: "(string \<Rightarrow> string option) \<Rightarrow> hbgraph \<Rightarrow> ptr \<Rightarrow> ptr \<Rightarrow> bool" where
  "syncOrdered env h x y \<longleftrightarrow> x \<noteq> y \<and>
     (\<exists>es. hb_chain h x es y \<and> int (length es) \<le> envInt env ''HB_MAX_DEPTH'' 16 \<and>
        (\<exists>e \<in> set es. isSyncEdge (h_kind e) AllMechanisms))"

lemma hbReachable_sync:
  "x \<noteq> null \<Longrightarrow> y \<noteq> null \<Longrightarrow> hbReachable env h x y 16 True AllMechanisms = syncOrdered env h x y"
  unfolding hbReachable_chain syncOrdered_def by auto

lemma eval_concurrent_fst:
  assumes "vf_hb V = Some h"
  shows "fst (eval_concurrent A V i j) \<longleftrightarrow>
    (let g = vf_ccpg V; a = getNodeByID g i; b = getNodeByID g j; s = hbRequireSyncEnabled (an_env A) in
     a \<noteq> null \<and> b \<noteq> null \<and> \<not> hbReachable (an_env A) h a b 16 s AllMechanisms \<and>
     \<not> hbReachable (an_env A) h b a 16 s AllMechanisms \<and> \<not> fst (eval_same_lock A V i j))"
  using assms by (auto simp: eval_concurrent_def Let_def split: prod.splits)

lemma eval_concurrent_fst':
  assumes "vf_hb V = None"
  shows "fst (eval_concurrent A V i j) \<longleftrightarrow>
    getNodeByID (vf_ccpg V) i \<noteq> null \<and> getNodeByID (vf_ccpg V) j \<noteq> null \<and>
    \<not> fst (eval_reachable V i j) \<and> \<not> fst (eval_reachable V j i) \<and> \<not> fst (eval_same_lock A V i j)"
  using assms by (auto simp: eval_concurrent_def Let_def split: prod.splits)

lemma eval_conflicts_fst:
  "fst (eval_conflicts A V i j) \<longleftrightarrow>
     fst (eval_same_location A V i j) \<and>
     (hasWriteOrRMW (gatherAccesses A (vf_ccpg V) (getNodeByID (vf_ccpg V) i)) \<or>
      hasWriteOrRMW (gatherAccesses A (vf_ccpg V) (getNodeByID (vf_ccpg V) j)) \<or>
      contains (snd (eval_same_location A V i j)) ''Fix #3b'' \<and>
      (\<exists>sf. vf_surface V = Some sf \<and>
         (\<exists>ob \<in> set (sf_objects sf). has_list_mutation ob \<and> (objectWrites ob i \<or> objectWrites ob j))))"
proof (cases "vf_surface V")
  case None
  then show ?thesis by (cases "eval_same_location A V i j") (simp add: eval_conflicts_def Let_def)
next
  case (Some sf)
  obtain b d where bd: "eval_same_location A V i j = (b, d)" by fastforce
  obtain s1 s2 where s: "surfaceWrites sf i j = (s1, s2)" by fastforce
  have "fst (surfaceWrites sf i j) \<or> snd (surfaceWrites sf i j) \<longleftrightarrow>
      (\<exists>ob \<in> set (sf_objects sf). has_list_mutation ob \<and> (objectWrites ob i \<or> objectWrites ob j))"
    by (auto simp: surfaceWrites_def find_None_set split: option.split dest: find_Some_set)
  then have "s1 \<or> s2 \<longleftrightarrow>
      (\<exists>ob \<in> set (sf_objects sf). has_list_mutation ob \<and> (objectWrites ob i \<or> objectWrites ob j))"
    unfolding s by simp
  then show ?thesis using Some by (simp add: eval_conflicts_def Let_def bd s) blast
qed

end
