(* ===== verification/VerifierProps.thy ===== *)
theory VerifierProps
  imports VerifierFacts FieldProps Samples
begin

text \<open>
  Properties of the hypothesis verifier (src/Query/HypothesisVerifier.cpp), each with a
  witness on a closed input where it has hypotheses.
\<close>

definition sampleAnalyses :: analyses where
  "sampleAnalyses = \<lparr>an_env = noEnv, an_lsa = emptyLsa id, an_lockAlias = (=), an_alias = (=),
     accessesFromLocation = (\<lambda>_ _. []), an_ir = sampleIr, hasModule = False, pointerTyped = (\<lambda>_. True),
     an_config = noConfig, an_sharing = None\<rparr>"

definition sampleVerifier :: verifier where
  "sampleVerifier = \<lparr>vf_ccpg = sampleCcpg, vf_tct = sampleTree, vf_hb = Some hb_clear, vf_surface = None\<rparr>"

definition sampleHypothesis :: hypothesis where
  "sampleHypothesis = emptyHypothesis\<lparr>hy_constraints :=
     [\<lparr>ct_predicate = ''in_thread'', ct_args = JObj [(''node'', JInt 2), (''thread'', JInt 1)]\<rparr>,
      \<lparr>ct_predicate = ''races'', ct_args = JNull\<rparr>]\<rparr>"

lemma sample_tree_ok:
  "tree_wf (vf_tct sampleVerifier)" "sharing_sym (an_sharing sampleAnalyses)"
  "caches_ok (an_config sampleAnalyses) (an_sharing sampleAnalyses) (vf_ccpg sampleVerifier) (vf_tct sampleVerifier)"
  by (auto simp: tree_wf_def sharing_sym_def caches_ok_def sampleVerifier_def sampleTree_def sampleThread_def
      sampleAnalyses_def intro!: exI[of _ "\<lambda>t. t"])

text \<open>C39. Verifying a hypothesis returns for every well-formed thread tree. It throws exactly
  when some constraint's arguments throw; otherwise it reports one result per constraint in
  order, each the verdict the constraint has on its own, so earlier constraints never influence
  later ones, and it confirms the hypothesis exactly when every constraint holds. Only the
  caches of the thread tree change.\<close>

theorem verify_report:
  assumes "tree_wf (vf_tct V)" "sharing_sym (an_sharing A)"
    "caches_ok (an_config A) (an_sharing A) (vf_ccpg V) (vf_tct V)"
  shows "if \<exists>c \<in> set (hy_constraints h). specEval A V h c = Throw then verify A V h = Some Throw
    else \<exists>T'. sameTree (vf_tct V) T' \<and> verify A V h = Some (Ok
      (\<lparr>all_satisfied = (\<forall>c \<in> set (hy_constraints h). satisfied (specEval A V h c)),
        vr_results = map (resultOf A V h) (List.enumerate 0 (hy_constraints h))\<rparr>, V\<lparr>vf_tct := T'\<rparr>))"
proof -
  have T: "tree_ok A V (vf_tct V)" using assms(3) by (simp add: sameTree_def)
  show ?thesis
  proof (cases "\<exists>c \<in> set (hy_constraints h). specEval A V h c = Throw")
    case True
    from verifyLoop_throw[OF assms(1,2) T True] True show ?thesis by (simp add: verify_def)
  next
    case False
    then have "\<forall>c \<in> set (hy_constraints h). specEval A V h c \<noteq> Throw" by blast
    from verifyLoop_ok[OF assms(1,2) T this, of 0 "\<lparr>all_satisfied = True, vr_results = []\<rparr>"] False
    show ?thesis by (auto simp: verify_def)
  qed
qed

lemma verify_report_witness:
  "\<exists>res V'. verify sampleAnalyses sampleVerifier sampleHypothesis = Some (Ok (res, V')) \<and>
     \<not> all_satisfied res \<and> map cr_satisfied (vr_results res) = [True, False]"
proof -
  let ?s = "specEval sampleAnalyses sampleVerifier sampleHypothesis"
  let ?c1 = "\<lparr>ct_predicate = ''in_thread'', ct_args = JObj [(''node'', JInt 2), (''thread'', JInt 1)]\<rparr>"
  let ?c2 = "\<lparr>ct_predicate = ''races'', ct_args = JNull\<rparr>"
  have cs: "hy_constraints sampleHypothesis = [?c1, ?c2]" by (simp add: sampleHypothesis_def)
  have 1: "?s ?c1 = Ok (eval_in_thread sampleVerifier 2 1)"
    by (simp add: specEval_def evalPure_def nodeArg_def jsonValue_def jsonInt_def resolveNodeRef_def toInt32_def)
  have 2: "?s ?c2 = Ok (False, ''Unknown predicate: races'')"
    by (simp add: specEval_def evalPure_def)
  have 3: "fst (eval_in_thread sampleVerifier 2 1)"
    by (simp add: eval_in_thread_def sampleVerifier_def Let_def threadById_def getThreadById_def sampleTree_def sampleThread_def)
  have "satisfied (?s ?c1)" "\<not> satisfied (?s ?c2)"
    using 3 by (simp_all add: 1 2 satisfied_def split_beta)
  moreover have "?s ?c1 \<noteq> Throw" "?s ?c2 \<noteq> Throw" by (simp_all add: 1 2)
  ultimately show ?thesis
    using verify_report[OF sample_tree_ok, of sampleHypothesis] by (auto simp: cs resultOf_def)
qed

text \<open>The reachability predicate holds exactly when the source lies in some thread and the
  target is the source itself or a node of that thread reached by at most eight edges, each an
  order edge inside the thread or a call edge.\<close>

theorem reachable_exact:
  "fst (eval_reachable V i j) \<longleftrightarrow>
     (let g = vf_ccpg V; src = getNodeByID g i; dst = getNodeByID g j;
          t = findThread (vf_tct V) src; U = th_nodes (thr (vf_tct V) t) in
      src \<noteq> null \<and> dst \<noteq> null \<and> t \<noteq> null \<and>
      (src = dst \<or> dst \<in> set U \<and> (\<exists>es. flowPath g U src es dst \<and> length es \<le> 8)))"
  by (rule eval_reachable_iff)

text \<open>With a happens-before graph, two nodes are called concurrent exactly when both exist,
  no chain of at most the capped number of edges with a synchronization edge orders them either
  way, no pair of contexts holds a common lock over both, and the surface records no common
  lock for them.\<close>

theorem concurrent_exact:
  assumes "vf_hb V = Some h" "hbRequireSyncEnabled (an_env A)"
  shows "fst (eval_concurrent A V i j) \<longleftrightarrow>
    (let g = vf_ccpg V; a = getNodeByID g i; b = getNodeByID g j in
     a \<noteq> null \<and> b \<noteq> null \<and> \<not> syncOrdered (an_env A) h a b \<and> \<not> syncOrdered (an_env A) h b a \<and>
     \<not> (\<exists>ls1 \<in> set (allLocksetsFor A g a). \<exists>ls2 \<in> set (allLocksetsFor A g b). \<exists>l1 \<in> set ls1. \<exists>l2 \<in> set ls2.
          l1 \<noteq> null \<and> l2 \<noteq> null \<and> an_lockAlias A (acq (an_lsa A) l1) (acq (an_lsa A) l2)) \<and>
     surfaceSameLock (vf_surface V) i j = None)"
  unfolding eval_concurrent_fst[OF assms(1)] Let_def same_lock_iff sharedLock_iff
  by (cases "surfaceSameLock (vf_surface V) i j") (use assms(2) hbReachable_sync in auto)

lemma concurrent_exact_witness:
  "fst (eval_concurrent sampleAnalyses sampleVerifier 2 3)"
proof -
  have "\<not> syncOrdered env hb_clear x y" for env x y by (auto simp: syncOrdered_def)
  moreover have "allLocksetsFor sampleAnalyses sampleCcpg n = [[]]" for n
    by (auto simp: allLocksetsFor_def contextsOf_def getLockSet_def sampleAnalyses_def emptyLsa_def sampleCcpg_def
        sampleNode_def Let_def ctxLocks_def sortUnique_def)
  ultimately show ?thesis
    by (subst concurrent_exact[where h = hb_clear])
      (simp_all add: sampleVerifier_def sampleAnalyses_def hbRequireSyncEnabled_def noEnv_def surfaceSameLock_def)
qed

text \<open>The pair predicates do not depend on the order of the two nodes: common lock, same
  location and concurrency have the same verdict both ways when the pointer and lock alias
  relations are symmetric.\<close>

theorem verdicts_symmetric:
  assumes "\<forall>x y. an_lockAlias A x y = an_lockAlias A y x" "\<forall>x y. an_alias A x y = an_alias A y x"
  shows "fst (eval_same_lock A V i j) = fst (eval_same_lock A V j i) \<and>
    fst (eval_same_location A V i j) = fst (eval_same_location A V j i) \<and>
    fst (eval_concurrent A V i j) = fst (eval_concurrent A V j i)"
proof -
  have l: "fst (eval_same_lock A V i j) = fst (eval_same_lock A V j i)"
    by (rule same_lock_sym) (use assms(1) in blast)
  moreover have "fst (eval_same_location A V i j) = fst (eval_same_location A V j i)"
    unfolding same_location_iff by (rule sharesLocation_sym) (use assms(2) in blast)
  moreover have "fst (eval_concurrent A V i j) = fst (eval_concurrent A V j i)"
    by (cases "vf_hb V") (auto simp: eval_concurrent_fst eval_concurrent_fst' Let_def l)
  ultimately show ?thesis by blast
qed

lemma verdicts_symmetric_witness:
  "fst (eval_concurrent sampleAnalyses sampleVerifier 2 3) = fst (eval_concurrent sampleAnalyses sampleVerifier 3 2)"
  using verdicts_symmetric[of sampleAnalyses sampleVerifier 2 3] by (simp add: sampleAnalyses_def eq_commute)

text \<open>C40. A block is reported as unsafely atomic exactly when its end is reachable from its
  start, the witness shares a location with one of them, and neither the witness is ordered
  before the start nor the end before the witness. The write the conflict test asks for plays
  no role: its failure falls back to the location test.\<close>

theorem unsafe_block_exact:
  "fst (eval_unsafe_atomic_block A V s e w) \<longleftrightarrow>
     fst (eval_reachable V s e) \<and>
     (fst (eval_same_location A V w s) \<or> fst (eval_same_location A V w e)) \<and>
     fst (eval_hb A V w s False) \<and> fst (eval_hb A V e w False)"
  using conflicts_location[of A V w s] conflicts_location[of A V w e]
  by (auto simp: eval_unsafe_atomic_block_def Let_def split: prod.splits if_splits)

end
