(* ===== verification/Cpg.thy ===== *)
theory Cpg
  imports Ccpg
begin

text \<open>
  The code property graph as the analyses read it (include/CPG/CPG.h, src/CPG/CPG.cpp,
  Node::getArgument of include/CPG/Node.h and include/Util/PathUtils.h): its indexes, the
  spellings under which a compiled function may appear in it, and the lookups of a method
  by name, by call node, by file and by compiled function.  \<open>H\<close> is the heap of CPG nodes;
  \<open>parse\<close> and \<open>normal\<close> are the path library's parsing and lexical normalisation.
  Looking a property up never adds it.
\<close>

subsection \<open>The graph\<close>

record cpg =
  outCFGEdges :: "ptr \<Rightarrow> ptr list"
  outEdgesOf :: "ptr \<Rightarrow> (string \<times> ptr) list"
  inEdgesOf :: "ptr \<Rightarrow> (string \<times> ptr) list"
  argumentEdges :: "ptr \<Rightarrow> ptr list"
  conditionEdges :: "ptr \<Rightarrow> ptr list"
  id2Node :: "string \<Rightarrow> ptr option"
  mainNodes :: "ptr list"
  type2Nodes :: "string \<Rightarrow> ptr list option"
  file2Methods :: "(string \<times> ptr list) list"

type_synonym cpg_heap = "ptr \<Rightarrow> cpg_node"

definition addToFile :: "string \<Rightarrow> ptr \<Rightarrow> (string \<times> ptr list) list \<Rightarrow> (string \<times> ptr list) list" where
  "addToFile f p m = (case map_of m f of
      None \<Rightarrow> m @ [(f, [p])]
    | Some ps \<Rightarrow> map (\<lambda>(k, qs). if k = f then (k, List.insert p qs) else (k, qs)) m)"

definition cpg_addNode :: "cpg_heap \<Rightarrow> string \<Rightarrow> ptr \<Rightarrow> cpg \<Rightarrow> cpg" where
  "cpg_addNode H i p C =
     (if id2Node C i \<noteq> None then C
      else let ty = getType_cpg (H p);
               old = (case type2Nodes C ty of Some ps \<Rightarrow> ps | None \<Rightarrow> []);
               C1 = C\<lparr>id2Node := (id2Node C)(i \<mapsto> p), type2Nodes := (type2Nodes C)(ty \<mapsto> List.insert p old)\<rparr>
        in if ty = ''Method'' then
             C1\<lparr>file2Methods := addToFile (getFileName (H p)) p (file2Methods C1),
                mainNodes := (if getName (H p) = ''main'' then List.insert p (mainNodes C1) else mainNodes C1)\<rparr>
           else C1)"

definition findNode :: "cpg \<Rightarrow> string \<Rightarrow> ptr" where
  "findNode C i = (case id2Node C i of Some p \<Rightarrow> p | None \<Rightarrow> null)"

definition cpg_nodesByType :: "cpg \<Rightarrow> string \<Rightarrow> ptr list" where
  "cpg_nodesByType C ty = (case type2Nodes C ty of Some ps \<Rightarrow> ps | None \<Rightarrow> [])"

definition controlsCondition :: "cpg_heap \<Rightarrow> cpg \<Rightarrow> string list \<Rightarrow> ptr \<Rightarrow> bool" where
  "controlsCondition H C kinds n =
     list_ex (\<lambda>c. getProperty (H c) ''CONTROL_STRUCTURE_TYPE'' \<in> set kinds \<and> n \<in> set (conditionEdges C c))
       (cpg_nodesByType C ''ControlStructure'')"

definition isLoopBeginNode :: "cpg_heap \<Rightarrow> cpg \<Rightarrow> ptr \<Rightarrow> bool" where
  "isLoopBeginNode H C n = controlsCondition H C [''FOR'', ''WHILE''] n"

definition isConditionBeginNode :: "cpg_heap \<Rightarrow> cpg \<Rightarrow> ptr \<Rightarrow> bool" where
  "isConditionBeginNode H C n = controlsCondition H C [''IF'', ''ELSE'', ''SWITCH''] n"

text \<open>The first argument edge whose target has the index; reading an index may throw.\<close>

fun firstArgument :: "cpg_heap \<Rightarrow> int \<Rightarrow> ptr list \<Rightarrow> ptr result" where
  "firstArgument H i [] = Ok null"
| "firstArgument H i (a # as) =
     (case getArgumentIndex (H a) of
        Throw \<Rightarrow> Throw
      | Ok j \<Rightarrow> if j = i then Ok a else firstArgument H i as)"

definition getArgument :: "cpg_heap \<Rightarrow> cpg \<Rightarrow> ptr \<Rightarrow> int \<Rightarrow> ptr result" where
  "getArgument H C n i = firstArgument H i (argumentEdges C n)"

definition hasContainsEdge :: "cpg \<Rightarrow> ptr \<Rightarrow> ptr \<Rightarrow> bool" where
  "hasContainsEdge C callee n = list_ex (\<lambda>(ty, src). ty = ''Contains'' \<and> src = callee) (inEdgesOf C n)"

subsection \<open>Files\<close>

definition likelySameFile :: "(string \<Rightarrow> path) \<Rightarrow> (path \<Rightarrow> path) \<Rightarrow> string \<Rightarrow> string \<Rightarrow> bool" where
  "likelySameFile parse normal s t =
     (let p = normal (parse s); q = normal (parse t) in
      filename p = filename q \<and> suffixAgree (rev p) (rev q))"

definition getMethodsByFileName :: "(string \<Rightarrow> path) \<Rightarrow> (path \<Rightarrow> path) \<Rightarrow> cpg \<Rightarrow> string \<Rightarrow> ptr list" where
  "getMethodsByFileName parse normal C file =
     (let r = (if startsWith file ''..'' then drop 2 file
               else if startsWith file ''.'' then drop 1 file else file) in
      case map_of (file2Methods C) r of
        Some ms \<Rightarrow> ms
      | None \<Rightarrow>
          (case List.find (\<lambda>(k, ms). k \<noteq> [] \<and> likelySameFile parse normal k r) (file2Methods C) of
             Some (k, ms) \<Rightarrow> ms
           | None \<Rightarrow>
               (let base = filename (parse r) in
                if base = [] then []
                else remdups (concat (map snd (filter (\<lambda>(k, ms). k \<noteq> [] \<and> filename (parse k) = base)
                       (file2Methods C)))))))"

subsection \<open>Spellings of a function name\<close>

fun splitDots :: "string \<Rightarrow> string list" where
  "splitDots [] = [[]]"
| "splitDots (c # s) =
     (if c = CHR ''.'' then [] # splitDots s
      else case splitDots s of p # ps \<Rightarrow> (c # p) # ps | [] \<Rightarrow> [[c]])"

fun joinDots :: "string list \<Rightarrow> string" where
  "joinDots [] = []"
| "joinDots [p] = p"
| "joinDots (p # ps) = p @ CHR ''.'' # joinDots ps"

definition isWordChar :: "char \<Rightarrow> bool" where
  "isWordChar c = (let n = (of_char c :: nat) in
     48 \<le> n \<and> n \<le> 57 \<or> 65 \<le> n \<and> n \<le> 90 \<or> n = 95 \<or> 97 \<le> n \<and> n \<le> 122)"

definition digitsOnly :: "string \<Rightarrow> bool" where
  "digitsOnly s \<longleftrightarrow> s \<noteq> [] \<and> list_all isDigit s"

text \<open>
  The suffix pattern of the code, over the dot-separated pieces that follow a dot: one or
  more of \<open>llvm.word\<close>, \<open>part.n\<close>, \<open>isra.n\<close>, \<open>constprop.n\<close>, \<open>cold\<close> and \<open>n\<close>.
\<close>

fun decorations :: "string list \<Rightarrow> bool" where
  "decorations [] = True"
| "decorations [a] = (a = ''cold'' \<or> digitsOnly a)"
| "decorations (a # b # rest) =
     (if a = ''llvm'' \<and> b \<noteq> [] \<and> list_all isWordChar b then decorations rest
      else if a \<in> {''part'', ''isra'', ''constprop''} \<and> digitsOnly b then decorations rest
      else (a = ''cold'' \<or> digitsOnly a) \<and> decorations (b # rest))"

definition stripSuffix :: "string \<Rightarrow> string" where
  "stripSuffix s =
     (let ps = splitDots s in
      case List.find (\<lambda>k. decorations (drop k ps)) [1 ..< length ps] of
        Some k \<Rightarrow> joinDots (take k ps)
      | None \<Rightarrow> s)"

definition stripPrefix :: "string \<Rightarrow> string" where
  "stripPrefix s =
     (if startsWith s ''__llvm.'' then drop 7 s else if startsWith s ''local_'' then drop 6 s else s)"

definition demangleVariants :: "string \<Rightarrow> string list" where
  "demangleVariants name =
     (let s = stripSuffix name; p = stripPrefix s in
      name # (if s \<noteq> name then [s] else []) @ (if p \<noteq> s then [p] else []))"

definition syscallPrefixes :: "string list" where
  "syscallPrefixes = [''__x64_sys_'', ''__ia32_sys_'', ''__arm64_sys_'', ''__arm_sys_'', ''__riscv_sys_'',
     ''__powerpc_sys_'', ''__se_sys_'', ''__do_sys_'', ''SyS_'', ''sys_'']"

definition syscallBase :: "string \<Rightarrow> string" where
  "syscallBase name =
     (case List.find (\<lambda>p. length p < length name \<and> startsWith name p) syscallPrefixes of
        Some p \<Rightarrow> drop (length p) name
      | None \<Rightarrow> name)"

definition syscallNameVariants :: "string \<Rightarrow> string list" where
  "syscallNameVariants name =
     (let base = syscallBase name in
      name # (if base \<noteq> name then [base] else []) @
      filter (\<lambda>c. c \<noteq> name) (map (\<lambda>p. p @ base) syscallPrefixes))"

fun addUnseen :: "string list \<Rightarrow> string list \<Rightarrow> string list" where
  "addUnseen out [] = out"
| "addUnseen out (v # vs) = addUnseen (if v \<in> set out then out else out @ [v]) vs"

definition allNameCandidates :: "string \<Rightarrow> string list" where
  "allNameCandidates name = addUnseen (syscallNameVariants name) (demangleVariants name)"

subsection \<open>Methods\<close>

definition isStubMethodNode :: "cpg_heap \<Rightarrow> cpg \<Rightarrow> ptr \<Rightarrow> bool" where
  "isStubMethodNode H C m =
     (case outCFGEdges C m of [n] \<Rightarrow> n \<noteq> null \<and> getType_cpg (H n) = ''Method_return'' | _ \<Rightarrow> False)"

text \<open>The longest code among the methods of one name; ties keep the first.\<close>

fun longestCode :: "cpg_heap \<Rightarrow> string \<Rightarrow> ptr list \<Rightarrow> ptr \<times> nat \<Rightarrow> ptr \<times> nat" where
  "longestCode H cand [] best = best"
| "longestCode H cand (m # ms) (best, len) =
     (let code = getCode (H m) in
      if getName (H m) \<noteq> cand \<or> code = ''<empty>'' \<or> length code \<le> len then longestCode H cand ms (best, len)
      else longestCode H cand ms (m, length code))"

fun astOnly :: "cpg_heap \<Rightarrow> ptr list \<Rightarrow> string list \<Rightarrow> ptr" where
  "astOnly H ms [] = null"
| "astOnly H ms (cand # cs) =
     (let b = fst (longestCode H cand ms (null, 0)) in if b \<noteq> null then b else astOnly H ms cs)"

definition fullMethod :: "cpg_heap \<Rightarrow> cpg \<Rightarrow> string \<Rightarrow> ptr \<Rightarrow> bool" where
  "fullMethod H C cand m \<longleftrightarrow> getName (H m) = cand \<and> getCode (H m) \<noteq> ''<empty>'' \<and> \<not> isStubMethodNode H C m"

definition findMethod :: "cpg_heap \<Rightarrow> cpg \<Rightarrow> string \<Rightarrow> ptr" where
  "findMethod H C name =
     (case type2Nodes C ''Method'' of
        None \<Rightarrow> null
      | Some ms \<Rightarrow>
          (case List.find (\<lambda>(cand, m). fullMethod H C cand m)
                  (concat (map (\<lambda>cand. map (Pair cand) ms) (allNameCandidates name))) of
             Some (cand, m) \<Rightarrow> m
           | None \<Rightarrow> astOnly H ms (allNameCandidates name)))"

definition findMethodsByName :: "cpg_heap \<Rightarrow> cpg \<Rightarrow> string \<Rightarrow> ptr list" where
  "findMethodsByName H C name =
     filter (\<lambda>m. getName (H m) \<in> set (allNameCandidates name) \<and> getCode (H m) \<noteq> ''<empty>'' \<and>
                 \<not> isStubMethodNode H C m) (cpg_nodesByType C ''Method'')"

text \<open>The method a call node refers to; a graph without method nodes throws when it names one.\<close>

definition callerFile :: "cpg_heap \<Rightarrow> cpg \<Rightarrow> ptr \<Rightarrow> string" where
  "callerFile H C n =
     (let f = getFileName (H n) in
      if f \<noteq> [] then f
      else case List.find (\<lambda>(ty, p). ty = ''Contains'' \<and> p \<noteq> null \<and> getType_cpg (H p) = ''Method'') (inEdgesOf C n) of
        Some (ty, p) \<Rightarrow> getFileName (H p)
      | None \<Rightarrow> [])"

definition calleeByEdge :: "cpg_heap \<Rightarrow> cpg \<Rightarrow> ptr \<Rightarrow> ptr" where
  "calleeByEdge H C n =
     (let caller = getName (H n) in
      foldl (\<lambda>best (ty, d).
        if ty = ''Call'' \<and> (contains (getName (H d)) caller \<or> contains caller (getName (H d))) \<and>
           getCode (H d) \<noteq> ''<empty>'' \<and>
           (best = null \<or> length (getCode (H best)) < length (getCode (H d)))
        then d else best) null (outEdgesOf C n))"

definition findMethod_call :: "cpg_heap \<Rightarrow> cpg \<Rightarrow> ptr \<Rightarrow> ptr result" where
  "findMethod_call H C n =
     (let full = getProperty (H n) ''METHOD_FULL_NAME''; file = callerFile H C n;
          fallback = (let m = calleeByEdge H C n in if m \<noteq> null then m else findMethod H C (getName (H n)))
      in if full = [] \<or> full = ''<empty>'' then Ok fallback
         else case type2Nodes C ''Method'' of
           None \<Rightarrow> Throw
         | Some ms \<Rightarrow>
             (let hits = filter (\<lambda>m. getProperty (H m) ''FULL_NAME'' = full \<and> getCode (H m) \<noteq> ''<empty>'') ms in
              case List.find (\<lambda>m. file \<noteq> [] \<and> getFileName (H m) = file) hits of
                Some m \<Rightarrow> Ok m
              | None \<Rightarrow> (case hits of m # _ \<Rightarrow> Ok m | [] \<Rightarrow> Ok fallback)))"

text \<open>A compiled function: its demangled name and the file and line of its debug information.\<close>

record llvm_function =
  lf_name :: string
  lf_file :: string
  lf_line :: int

fun matchDebug :: "(string \<Rightarrow> path) \<Rightarrow> (path \<Rightarrow> path) \<Rightarrow> cpg_heap \<Rightarrow> cpg \<Rightarrow> llvm_function \<Rightarrow> ptr list \<Rightarrow> ptr result" where
  "matchDebug parse normal H C f [] = Ok null"
| "matchDebug parse normal H C f (m # ms) =
     (if \<not> contains (lf_name f) (getName (H m)) \<or> getFileName (H m) = [] \<or>
         \<not> likelySameFile parse normal (lf_file f) (getFileName (H m)) then matchDebug parse normal H C f ms
      else case getLineNumber (H m) of
        Throw \<Rightarrow> Throw
      | Ok l \<Rightarrow>
          if l = -1 \<or> \<bar>l - lf_line f\<bar> > 3 then matchDebug parse normal H C f ms
          else case cpg_properties (H m) ''CODE'' of
            None \<Rightarrow> Throw
          | Some code \<Rightarrow>
              if code = ''<empty>'' \<or> isStubMethodNode H C m then matchDebug parse normal H C f ms else Ok m)"

definition findMethodByLLVMFunction :: "(string \<Rightarrow> path) \<Rightarrow> (path \<Rightarrow> path) \<Rightarrow> cpg_heap \<Rightarrow> cpg \<Rightarrow>
    llvm_function option \<Rightarrow> ptr result" where
  "findMethodByLLVMFunction parse normal H C lf =
     (case lf of
        None \<Rightarrow> Ok null
      | Some f \<Rightarrow>
          if lf_file f = [] \<or> lf_line f = 0 then Ok (findMethod H C (lf_name f))
          else matchDebug parse normal H C f (cpg_nodesByType C ''Method''))"


subsection \<open>Facts: spellings\<close>

lemma addUnseen_set [simp]: "set (addUnseen out vs) = set out \<union> set vs"
  by (induction out vs rule: addUnseen.induct) auto

lemma addUnseen_distinct: "distinct out \<Longrightarrow> distinct (addUnseen out vs)"
  by (induction out vs rule: addUnseen.induct) auto

lemma addUnseen_hd: "out \<noteq> [] \<Longrightarrow> hd (addUnseen out vs) = hd out \<and> addUnseen out vs \<noteq> []"
  by (induction out vs rule: addUnseen.induct) (auto split: if_splits)

lemma syscallPrefixes_distinct: "distinct (map (\<lambda>p. p @ b) syscallPrefixes)"
  by (simp add: syscallPrefixes_def)

lemma syscallPrefixes_nonempty: "p \<in> set syscallPrefixes \<Longrightarrow> p \<noteq> []"
  by (auto simp: syscallPrefixes_def)

lemma syscallNameVariants_distinct: "distinct (syscallNameVariants name)"
proof -
  have "syscallBase name \<notin> set (map (\<lambda>p. p @ syscallBase name) syscallPrefixes)"
    using syscallPrefixes_nonempty by auto
  then show ?thesis using syscallPrefixes_distinct
    by (auto simp: syscallNameVariants_def Let_def distinct_filter)
qed

lemma allNameCandidates_hd: "hd (allNameCandidates name) = name" "allNameCandidates name \<noteq> []"
  using addUnseen_hd[of "syscallNameVariants name" "demangleVariants name"]
  by (auto simp: allNameCandidates_def syscallNameVariants_def Let_def)

lemma allNameCandidates_distinct: "distinct (allNameCandidates name)"
  by (simp add: allNameCandidates_def addUnseen_distinct syscallNameVariants_distinct)

text \<open>No system-call prefix is a prefix of another one.\<close>

definition prefixFree :: "string list \<Rightarrow> bool" where
  "prefixFree ps = list_all (\<lambda>p. list_all (\<lambda>q. p = q \<or>
     take (min (length p) (length q)) p \<noteq> take (min (length p) (length q)) q) ps) ps"

lemma syscallPrefixes_free: "prefixFree syscallPrefixes"
  unfolding prefixFree_def syscallPrefixes_def by simp

lemma syscallPrefixes_unique:
  assumes "p \<in> set syscallPrefixes" "q \<in> set syscallPrefixes" "startsWith (p @ b) q"
  shows "q = p"
proof (rule ccontr)
  assume "q \<noteq> p"
  let ?m = "min (length p) (length q)"
  from assms(3) obtain c where "p @ b = q @ c" by (auto simp: startsWith_iff)
  then have "take ?m (p @ b) = take ?m (q @ c)" by simp
  then have "take ?m p = take ?m q" by simp
  moreover have "take ?m p \<noteq> take ?m q"
    using bspec[OF bspec[OF syscallPrefixes_free[unfolded prefixFree_def list_all_iff] assms(1)] assms(2)]
      \<open>q \<noteq> p\<close> by (metis (no_types))
  ultimately show False by blast
qed

lemma syscallBase_prefix:
  assumes "p \<in> set syscallPrefixes" "b \<noteq> []"
  shows "syscallBase (p @ b) = b"
proof -
  let ?P = "\<lambda>q. length q < length (p @ b) \<and> startsWith (p @ b) q"
  have "?P p" using assms(2) by (simp add: startsWith_iff)
  with assms(1) obtain q where q: "List.find ?P syscallPrefixes = Some q"
    by (cases "List.find ?P syscallPrefixes") (auto simp: find_None_set)
  from find_Some_set[OF q] syscallPrefixes_unique[OF assms(1)] have "q = p" by blast
  with q show ?thesis by (simp add: syscallBase_def)
qed

lemma splitDots_nonempty [simp]: "splitDots s \<noteq> []"
  by (induction s) (auto split: list.split)

lemma splitDots_plain: "CHR ''.'' \<notin> set f \<Longrightarrow> splitDots (f @ CHR ''.'' # s) = f # splitDots s"
  by (induction f) auto

lemma splitDots_single: "CHR ''.'' \<notin> set f \<Longrightarrow> splitDots f = [f]"
  by (induction f) auto

lemma stripSuffix_decorated:
  assumes "CHR ''.'' \<notin> set f" "decorations (splitDots s)"
  shows "stripSuffix (f @ CHR ''.'' # s) = f"
proof -
  have "0 < length (splitDots s)" by (simp add: length_greater_0_conv del: length_0_conv)
  then have "[1 ..< length (f # splitDots s)] = 1 # [2 ..< length (f # splitDots s)]"
    using upt_conv_Cons[of 1 "length (f # splitDots s)"] by (simp del: upt_Suc add: numeral_2_eq_2)
  then show ?thesis using assms by (simp add: stripSuffix_def splitDots_plain)
qed

lemma demangleVariants_stripped: "stripSuffix name \<in> set (demangleVariants name)"
  by (simp add: demangleVariants_def Let_def)

lemma candidates_stripped: "stripSuffix name \<in> set (allNameCandidates name)"
  by (simp add: allNameCandidates_def demangleVariants_stripped)

lemma candidates_base: "syscallBase name \<in> set (allNameCandidates name)"
  by (simp add: allNameCandidates_def syscallNameVariants_def Let_def)

subsection \<open>Facts: methods\<close>

lemma longestCode_spec:
  "longestCode H cand ms (b, n) = (b', n') \<Longrightarrow> null \<notin> set ms \<Longrightarrow>
     n \<le> n' \<and> (b' = b \<and> n' = n \<or> b' \<in> set ms \<and> getName (H b') = cand \<and> getCode (H b') \<noteq> ''<empty>'' \<and>
       n' = length (getCode (H b')) \<and> n < n') \<and>
     (\<forall>m \<in> set ms. getName (H m) = cand \<longrightarrow> getCode (H m) \<noteq> ''<empty>'' \<longrightarrow> length (getCode (H m)) \<le> n')"
proof (induction H cand ms "(b, n)" arbitrary: b n rule: longestCode.induct)
  case (2 H cand m ms b n)
  show ?case
  proof (cases "getName (H m) \<noteq> cand \<or> getCode (H m) = ''<empty>'' \<or> length (getCode (H m)) \<le> n")
    case True
    with 2(1)[OF refl True] 2(3,4) show ?thesis by (auto simp: Let_def)
  next
    case False
    with 2(2)[OF refl False] 2(3,4) show ?thesis by (auto simp: Let_def)
  qed
qed auto

lemma astOnly_null:
  assumes "null \<notin> set ms"
  shows "astOnly H ms cands = null \<longleftrightarrow>
    (\<forall>m \<in> set ms. getName (H m) \<in> set cands \<longrightarrow> getCode (H m) = ''<empty>'' \<or> getCode (H m) = [])"
proof (induction cands)
  case (Cons c cs)
  obtain b n where b: "longestCode H c ms (null, 0) = (b, n)" by fastforce
  note S = longestCode_spec[OF b assms]
  have "b = null \<longleftrightarrow> (\<forall>m \<in> set ms. getName (H m) = c \<longrightarrow> getCode (H m) = ''<empty>'' \<or> getCode (H m) = [])"
  proof
    assume "b = null"
    with S assms have "n = 0" by auto
    with S show "\<forall>m \<in> set ms. getName (H m) = c \<longrightarrow> getCode (H m) = ''<empty>'' \<or> getCode (H m) = []" by auto
  next
    assume "\<forall>m \<in> set ms. getName (H m) = c \<longrightarrow> getCode (H m) = ''<empty>'' \<or> getCode (H m) = []"
    with S show "b = null" by auto
  qed
  with Cons b show ?case by (auto simp: Let_def)
qed simp

lemma astOnly_sound:
  assumes "null \<notin> set ms" "astOnly H ms cands = m" "m \<noteq> null"
  shows "m \<in> set ms \<and> getName (H m) \<in> set cands \<and> getCode (H m) \<noteq> ''<empty>'' \<and> getCode (H m) \<noteq> []"
  using assms(2,3)
proof (induction cands)
  case (Cons c cs)
  obtain b n where b: "longestCode H c ms (null, 0) = (b, n)" by fastforce
  from longestCode_spec[OF b assms(1)] Cons b show ?case by (cases "b = null") (auto simp: Let_def)
qed simp

lemma findMethod_full:
  assumes "type2Nodes C ''Method'' = Some ms" "null \<notin> set ms"
    "\<exists>m \<in> set ms. \<exists>cand \<in> set (allNameCandidates name). fullMethod H C cand m"
  shows "findMethod H C name \<in> set ms \<and> (\<exists>pre cand post. allNameCandidates name = pre @ cand # post \<and>
    fullMethod H C cand (findMethod H C name) \<and> (\<forall>c \<in> set pre. \<forall>m \<in> set ms. \<not> fullMethod H C c m))"
proof -
  have "\<exists>pre cand post m. cands = pre @ cand # post \<and> m \<in> set ms \<and> fullMethod H C cand m \<and>
      (\<forall>c \<in> set pre. \<forall>m \<in> set ms. \<not> fullMethod H C c m) \<and>
      List.find (\<lambda>(cand, m). fullMethod H C cand m) (concat (map (\<lambda>cand. map (Pair cand) ms) cands)) = Some (cand, m)"
    if "\<exists>m \<in> set ms. \<exists>cand \<in> set cands. fullMethod H C cand m" for cands
    using that
  proof (induction cands)
    case (Cons c cs)
    have app: "List.find P (xs @ ys) = (case List.find P xs of Some x \<Rightarrow> Some x | None \<Rightarrow> List.find P ys)" for P xs ys
      by (induction xs) auto
    show ?case
    proof (cases "List.find (\<lambda>(cand, m). fullMethod H C cand m) (map (Pair c) ms)")
      case None
      then have n: "\<forall>m \<in> set ms. \<not> fullMethod H C c m" by (auto simp: find_None_set)
      with Cons obtain pre cand post m where "cs = pre @ cand # post" "m \<in> set ms" "fullMethod H C cand m"
        "\<forall>c \<in> set pre. \<forall>m \<in> set ms. \<not> fullMethod H C c m"
        "List.find (\<lambda>(cand, m). fullMethod H C cand m) (concat (map (\<lambda>cand. map (Pair cand) ms) cs)) = Some (cand, m)"
        by auto
      with None n show ?thesis
        by (intro exI[of _ "c # pre"] exI[of _ cand] exI[of _ post] exI[of _ m]) (auto simp: app)
    next
      case (Some p)
      from find_Some_set[OF Some] obtain m where "p = (c, m)" "m \<in> set ms" "fullMethod H C c m" by auto
      with Some show ?thesis
        by (intro exI[of _ "[]"] exI[of _ c] exI[of _ cs] exI[of _ m]) (auto simp: app)
    qed
  qed simp
  from this[OF assms(3)] obtain pre cand post m where
    "allNameCandidates name = pre @ cand # post" "m \<in> set ms" "fullMethod H C cand m"
    "\<forall>c \<in> set pre. \<forall>m \<in> set ms. \<not> fullMethod H C c m"
    "List.find (\<lambda>(cand, m). fullMethod H C cand m)
       (concat (map (\<lambda>cand. map (Pair cand) ms) (allNameCandidates name))) = Some (cand, m)" by blast
  moreover from this(5) have "findMethod H C name = m" by (simp add: findMethod_def assms(1))
  ultimately show ?thesis by blast
qed

lemma findMethod_fallback:
  assumes "type2Nodes C ''Method'' = Some ms"
    "\<not> (\<exists>m \<in> set ms. \<exists>cand \<in> set (allNameCandidates name). fullMethod H C cand m)"
  shows "findMethod H C name = astOnly H ms (allNameCandidates name)"
proof -
  have "List.find (\<lambda>(cand, m). fullMethod H C cand m)
      (concat (map (\<lambda>cand. map (Pair cand) ms) (allNameCandidates name))) = None"
    using assms(2) by (auto simp: find_None_set)
  then show ?thesis using assms(1) by (simp add: findMethod_def)
qed

end
