(* ===== verification/AliasMap.thy ===== *)
theory AliasMap
  imports Cpg
begin

text \<open>
  The bridge between the code graph and the compiled module (src/CCPG/AliasChecker.cpp):
  the compiled function a method stands for, and the aliasing of the thread handles and
  locks of two call nodes.  The module, the debug information, the demangler and the
  pointer analysis are the fields of \<open>build_env\<close>; a compiled function without a subprogram
  has no debug information.  Line numbers and scores are 32-bit: the sum that overflows in
  the code wraps, which is what the compiled code does.
\<close>

subsection \<open>What the construction reads\<close>

record llvm_def =
  ld_name :: string
  ld_declaration :: bool
  ld_sub :: "(string \<times> int) option"

text \<open>
  What the harvests of callbacks read of a module: the struct behind the arrays of a
  global's type, its initialiser, the constants under it after stripping casts, the stores
  of a function with the stored function and the address, and the shape of an address.
\<close>

datatype llvm_type = ArrayTy llvm_type | StructTy "string option" | OtherTy

datatype const_shape = FunctionConst llvm_def | OperandsConst "ptr option list" | OtherConst

datatype addr_shape = GepAddr "string option" | CastAddr ptr | OtherAddr

record llvm_store =
  st_value :: "llvm_def option"
  st_pointer :: ptr

record llvm_module =
  m_functions :: "llvm_def list"
  m_globals :: "(llvm_type \<times> ptr option) list"
  m_stores :: "(llvm_def \<times> llvm_store list) list"
  m_const :: "ptr \<Rightarrow> const_shape"
  m_addr :: "ptr \<Rightarrow> addr_shape"

text \<open>An entry reported by the pointer analysis: function, file and line.\<close>

record entry_info =
  ei_function :: string
  ei_file :: string
  ei_line :: int

record build_env =
  be_util :: thread_api_util
  be_cpg :: cpg
  be_parse :: "string \<Rightarrow> path"
  be_normal :: "path \<Rightarrow> path"
  be_normalize :: "string \<Rightarrow> string"
  be_target :: path
  be_demangle :: "string \<Rightarrow> string"
  be_defs :: "llvm_def list"
  be_module :: llvm_module
  be_callInsts :: "node_loc \<Rightarrow> call_inst list"
  be_callees :: "call_inst \<Rightarrow> llvm_def list"
  be_aliases :: "ptr \<Rightarrow> ptr \<Rightarrow> bool"
  be_loadPointer :: "ptr \<Rightarrow> ptr option"
  be_env :: "string \<Rightarrow> string option"
  be_agent :: "ptr \<Rightarrow> int option"
  be_main :: entry_info
  be_entries :: "entry_info list"
  be_rootEntries :: "string list"
  be_apiEntries :: "string list \<Rightarrow> string list"

definition toLlvmFunction :: "build_env \<Rightarrow> llvm_def \<Rightarrow> llvm_function" where
  "toLlvmFunction E d = \<lparr>lf_name = be_demangle E (ld_name d),
     lf_file = (case ld_sub d of Some (f, l) \<Rightarrow> f | None \<Rightarrow> []),
     lf_line = (case ld_sub d of Some (f, l) \<Rightarrow> l | None \<Rightarrow> 0)\<rparr>"

subsection \<open>The compiled function of a method\<close>

definition rfindSub :: "string \<Rightarrow> string \<Rightarrow> nat option" where
  "rfindSub s t = List.find (\<lambda>i. startsWith (drop i s) t) (rev [0 ..< Suc (length s)])"

definition baseNameFromDemangled :: "string \<Rightarrow> string" where
  "baseNameFromDemangled s =
     takeWhile (\<lambda>c. c \<noteq> CHR ''('') (case rfindSub s ''::'' of None \<Rightarrow> s | Some i \<Rightarrow> drop (i + 2) s)"

definition intMax :: int where "intMax = 2147483647"

definition wrap32 :: "int \<Rightarrow> int" where
  "wrap32 i = (i + 2147483648) mod 4294967296 - 2147483648"

definition llvmNameMatch :: "build_env \<Rightarrow> string \<Rightarrow> llvm_def \<Rightarrow> bool" where
  "llvmNameMatch E name d \<longleftrightarrow> \<not> ld_declaration d \<and>
     (name = be_demangle E (ld_name d) \<or> name = baseNameFromDemangled (be_demangle E (ld_name d)))"

definition llvmFileMatch :: "build_env \<Rightarrow> string \<Rightarrow> string \<Rightarrow> bool" where
  "llvmFileMatch E cpgFile f =
     likelySameFile (be_parse E) (be_normal E) (be_normalize E cpgFile) (be_normalize E f)"

definition lineDelta :: "int \<Rightarrow> int \<Rightarrow> int" where
  "lineDelta cpgLine l = (if 0 < cpgLine \<and> 0 < l then \<bar>cpgLine - l\<bar> else intMax)"

definition llvmScore :: "build_env \<Rightarrow> string \<Rightarrow> int \<Rightarrow> string \<times> int \<Rightarrow> int" where
  "llvmScore E cpgFile cpgLine sub =
     wrap32 ((if llvmFileMatch E cpgFile (fst sub) then 0 else 1000) + lineDelta cpgLine (snd sub))"

fun mapScan :: "build_env \<Rightarrow> string \<Rightarrow> string \<Rightarrow> int \<Rightarrow> llvm_def list \<Rightarrow> llvm_def option \<times> int \<Rightarrow> llvm_def option" where
  "mapScan E name file line [] (best, bestScore) = best"
| "mapScan E name file line (d # ds) (best, bestScore) =
     (if \<not> llvmNameMatch E name d then mapScan E name file line ds (best, bestScore)
      else case ld_sub d of
        None \<Rightarrow> mapScan E name file line ds (if best = None then (Some d, 0) else (best, bestScore))
      | Some sub \<Rightarrow>
          if llvmFileMatch E file (fst sub) \<and> lineDelta line (snd sub) \<le> 3 then Some d
          else if llvmScore E file line sub < bestScore
          then mapScan E name file line ds (Some d, llvmScore E file line sub)
          else mapScan E name file line ds (best, bestScore))"

text \<open>The search for a function whose mapping is not set yet; reading the line may throw.\<close>

definition findLLVMFunction :: "build_env \<Rightarrow> cpg_node \<Rightarrow> llvm_def option result" where
  "findLLVMFunction E n =
     (case getLineNumber n of
        Throw \<Rightarrow> Throw
      | Ok line \<Rightarrow> Ok (mapScan E (getName n) (getFileName n) line (be_defs E) (None, intMax)))"

definition getLLVMFunction :: "build_env \<Rightarrow> ptr \<Rightarrow> ccpg \<Rightarrow> (string option \<times> ccpg) result" where
  "getLLVMFunction E f g =
     (if fn_llvm (funH g f) \<noteq> None then Ok (fn_llvm (funH g f), g)
      else case findLLVMFunction E (cpgOf g (fn_funcNode (funH g f))) of
        Throw \<Rightarrow> Throw
      | Ok None \<Rightarrow> Ok (None, g)
      | Ok (Some d) \<Rightarrow> Ok (Some (ld_name d), g\<lparr>funH := (funH g)(f := (funH g f)\<lparr>fn_llvm := Some (ld_name d)\<rparr>)\<rparr>))"

subsection \<open>Aliases of thread handles and locks\<close>

definition isAlias :: "build_env \<Rightarrow> ptr \<Rightarrow> ptr \<Rightarrow> bool" where
  "isAlias E v w \<longleftrightarrow> v \<noteq> null \<and> w \<noteq> null \<and> be_aliases E v w"

definition getLLVMThreadValue :: "build_env \<Rightarrow> ccpg \<Rightarrow> ptr \<Rightarrow> ptr" where
  "getLLVMThreadValue E g n =
     (if n = null \<or> \<not> nd_callSite (nodeH g n) then null
      else case nd_callInst (nodeH g n) of
        None \<Rightarrow> null
      | Some ci \<Rightarrow>
          (case ci_args ci of
             [] \<Rightarrow> null
           | a # _ \<Rightarrow>
               if nd_type (nodeH g n) = FORK then a
               else if nd_type (nodeH g n) = JOIN
               then (case be_loadPointer E a of Some p \<Rightarrow> p | None \<Rightarrow> a)
               else null))"

definition isThreadAlias :: "build_env \<Rightarrow> ccpg \<Rightarrow> ptr \<Rightarrow> ptr \<Rightarrow> bool" where
  "isThreadAlias E g n m = isAlias E (getLLVMThreadValue E g n) (getLLVMThreadValue E g m)"

text \<open>The lock of an acquire or release site is the first operand of its call instruction.\<close>

definition isLockAlias :: "build_env \<Rightarrow> ccpg \<Rightarrow> ptr \<Rightarrow> ptr \<Rightarrow> bool" where
  "isLockAlias E g n m =
     (case (nd_callInst (nodeH g n), nd_callInst (nodeH g m)) of
        (Some c, Some d) \<Rightarrow> (case (ci_args c, ci_args d) of
            (a # _, b # _) \<Rightarrow> isAlias E a b
          | _ \<Rightarrow> False)
      | _ \<Rightarrow> False)"

subsection \<open>Facts: the mapping\<close>

definition exactMatch :: "build_env \<Rightarrow> string \<Rightarrow> string \<Rightarrow> int \<Rightarrow> llvm_def \<Rightarrow> bool" where
  "exactMatch E name file line d \<longleftrightarrow> llvmNameMatch E name d \<and>
     (\<exists>f l. ld_sub d = Some (f, l) \<and> llvmFileMatch E file f \<and> lineDelta line l \<le> 3)"

lemma mapScan_exactMatch:
  "exactMatch E name file line d \<Longrightarrow> mapScan E name file line (d # ds) b = Some d"
  by (cases b) (auto simp: exactMatch_def)

lemma mapScan_skip:
  "\<not> exactMatch E name file line d \<Longrightarrow>
     \<exists>b'. mapScan E name file line (d # ds) b = mapScan E name file line ds b'"
  by (cases b; cases "ld_sub d") (auto simp: exactMatch_def)

lemma mapScan_exact:
  assumes "\<exists>d \<in> set ds. exactMatch E name file line d"
  shows "mapScan E name file line ds b = List.find (exactMatch E name file line) ds"
  using assms
proof (induction ds arbitrary: b)
  case (Cons x xs)
  show ?case
  proof (cases "exactMatch E name file line x")
    case True
    then show ?thesis by (simp only: mapScan_exactMatch) simp
  next
    case False
    with mapScan_skip[OF False, of xs b] Cons show ?thesis by auto
  qed
qed simp

lemma mapScan_sound:
  "mapScan E name file line ds (best, s) = Some d \<Longrightarrow>
     best = Some d \<or> d \<in> set ds \<and> llvmNameMatch E name d"
  by (induction ds arbitrary: best s) (fastforce split: option.splits if_splits)+

text \<open>Without a function in the same file within three lines, the least score wins.\<close>

definition scored :: "build_env \<Rightarrow> string \<Rightarrow> int \<Rightarrow> llvm_def \<Rightarrow> int" where
  "scored E file line d = (case ld_sub d of Some sub \<Rightarrow> llvmScore E file line sub | None \<Rightarrow> 0)"

lemma mapScan_keeps:
  assumes "\<forall>d \<in> set ds. \<not> exactMatch E name file line d" "\<forall>d \<in> set ds. llvmNameMatch E name d \<longrightarrow> ld_sub d \<noteq> None"
    "scored E file line b = t"
  shows "\<exists>e. mapScan E name file line ds (Some b, t) = Some e \<and> scored E file line e \<le> t"
  using assms
proof (induction ds arbitrary: b t)
  case (Cons y ys)
  have IH: "\<exists>e. mapScan E name file line ys (Some b, t) = Some e \<and> scored E file line e \<le> t"
    if "scored E file line b = t" for b t using Cons that by auto
  show ?case
  proof (cases "llvmNameMatch E name y")
    case True
    with Cons.prems(1,2) obtain f l where y: "ld_sub y = Some (f, l)"
      "\<not> (llvmFileMatch E file f \<and> lineDelta line l \<le> 3)" by (auto simp: exactMatch_def)
    have sy: "scored E file line y = llvmScore E file line (f, l)" using y by (simp add: scored_def)
    show ?thesis
    proof (cases "llvmScore E file line (f, l) < t")
      case less: True
      from IH[OF sy] obtain e where "mapScan E name file line ys (Some y, llvmScore E file line (f, l)) = Some e"
        "scored E file line e \<le> llvmScore E file line (f, l)" by blast
      with less True y show ?thesis by auto
    next
      case False
      with IH[OF Cons.prems(3)] True y show ?thesis by auto
    qed
  next
    case False
    with IH[OF Cons.prems(3)] show ?thesis by simp
  qed
qed simp

lemma mapScan_least:
  assumes "\<forall>d \<in> set ds. \<not> exactMatch E name file line d" "\<forall>d \<in> set ds. llvmNameMatch E name d \<longrightarrow> ld_sub d \<noteq> None"
    "d \<in> set ds" "llvmNameMatch E name d" "scored E file line d < s"
    "\<And>b. best = Some b \<Longrightarrow> scored E file line b = s"
  shows "\<exists>e. mapScan E name file line ds (best, s) = Some e \<and> scored E file line e \<le> scored E file line d"
  using assms
proof (induction ds arbitrary: best s d)
  case (Cons x ds)
  show ?case
  proof (cases "llvmNameMatch E name x")
    case False
    with Cons.prems have "d \<in> set ds" by auto
    with False Cons.IH[of d s best] Cons.prems show ?thesis by auto
  next
    case True
    with Cons.prems(1,2) obtain f l where x: "ld_sub x = Some (f, l)"
      "\<not> (llvmFileMatch E file f \<and> lineDelta line l \<le> 3)" by (auto simp: exactMatch_def)
    have sx: "scored E file line x = llvmScore E file line (f, l)" using x by (simp add: scored_def)
    have ds: "\<forall>d \<in> set ds. \<not> exactMatch E name file line d"
      "\<forall>d \<in> set ds. llvmNameMatch E name d \<longrightarrow> ld_sub d \<noteq> None"
      using Cons.prems(1,2) by auto
    show ?thesis
    proof (cases "llvmScore E file line (f, l) < s")
      case less: True
      then have r: "mapScan E name file line (x # ds) (best, s) =
          mapScan E name file line ds (Some x, scored E file line x)" using x True by (auto simp: sx)
      show ?thesis
      proof (cases "scored E file line d < scored E file line x")
        case lt: True
        then have "d \<in> set ds" using Cons.prems(3) by auto
        with Cons.IH[OF ds _ Cons.prems(4) lt, of "Some x"] show ?thesis unfolding r by auto
      next
        case False
        with mapScan_keeps[OF ds refl, of x] show ?thesis unfolding r by force
      qed
    next
      case False
      then have "d \<in> set ds" using Cons.prems(3,5) by (auto simp: sx)
      with Cons.IH[OF ds _ Cons.prems(4,5,6)] False True x show ?thesis by auto
    qed
  qed
qed simp

end
