(* ===== verification/Worklist.thy ===== *)
theory Worklist
  imports Prelude
begin

text \<open>
  The loops of the graph construction: a FIFO queue whose head is visited in the current
  state, the visit appending new entries.  A visit gives no value when the code it stands
  for does not return (a conversion throws, or an inner loop has no end), and so does the
  loop.  The locale \<open>work_queue\<close> states when such a loop ends and what it leaves.
\<close>

partial_function (option) worklist :: "('a \<Rightarrow> 's \<Rightarrow> ('a list \<times> 's) option) \<Rightarrow> 'a list \<Rightarrow> 's \<Rightarrow> 's option" where
  "worklist visit q s =
     (case q of [] \<Rightarrow> Some s
      | a # r \<Rightarrow> Option.bind (visit a s) (\<lambda>(new, s'). worklist visit (r @ new) s'))"

lemma worklist_Nil [simp]: "worklist visit [] s = Some s"
  by (subst worklist.simps) simp

lemma worklist_Cons: "worklist visit (a # r) s =
    (case visit a s of None \<Rightarrow> None | Some (new, s') \<Rightarrow> worklist visit (r @ new) s')"
  by (subst worklist.simps) (simp split: option.split)

text \<open>What every returning loop leaves: an invariant of state and queue each visit keeps.\<close>

lemma worklist_invariant:
  fixes visit :: "'a \<Rightarrow> 's \<Rightarrow> ('a list \<times> 's) option"
  assumes "worklist visit q s = Some t" "I s q"
    "\<And>s a r new s'. I s (a # r) \<Longrightarrow> visit a s = Some (new, s') \<Longrightarrow> I s' (r @ new)"
  shows "I t []"
proof -
  have "v = visit \<longrightarrow> I s q \<longrightarrow> I t []" if "worklist v q s = Some t" for v q s t
    using that
  proof (rule worklist.raw_induct[where P = "\<lambda>v q s t. v = visit \<longrightarrow> I s q \<longrightarrow> I t []", rotated], intro impI)
    fix f and v :: "'a \<Rightarrow> 's \<Rightarrow> ('a list \<times> 's) option" and q s t
    assume IH: "\<And>v q s t. f v q s = Some t \<Longrightarrow> v = visit \<longrightarrow> I s q \<longrightarrow> I t []"
      and run: "(case q of [] \<Rightarrow> Some s
        | a # r \<Rightarrow> Option.bind (v a s) (\<lambda>(new, s'). f v (r @ new) s')) = Some t"
      and v: "v = visit" and q: "I s q"
    show "I t []"
    proof (cases q)
      case (Cons a r)
      with run obtain new s' where "v a s = Some (new, s')" "f v (r @ new) s' = Some t"
        by (auto simp: bind_eq_Some_conv)
      with IH q v Cons assms(3) show ?thesis by metis
    qed (use run q in simp)
  qed
  with assms(1,2) show ?thesis by blast
qed

text \<open>
  The contract of a visit: under the invariant it returns and keeps it, and either the rank
  of the state falls or nothing is added to the queue and the rank does not grow.
\<close>

locale work_queue =
  fixes visit :: "'a \<Rightarrow> 's \<Rightarrow> ('a list \<times> 's) option"
    and rank :: "'s \<Rightarrow> nat"
    and inv :: "'s \<Rightarrow> 'a list \<Rightarrow> bool"
  assumes progress: "inv s (a # r) \<Longrightarrow>
    \<exists>new s'. visit a s = Some (new, s') \<and> inv s' (r @ new) \<and> (rank s' < rank s \<or> rank s' \<le> rank s \<and> new = [])"
begin

lemma returns: "inv s q \<Longrightarrow> \<exists>t. worklist visit q s = Some t \<and> inv t []"
proof (induction "(rank s, length q)" arbitrary: s q rule: wf_induct[OF wf_lex_prod[OF wf_less_than wf_less_than]])
  case 1
  show ?case
  proof (cases q)
    case Nil
    with 1 show ?thesis by simp
  next
    case (Cons a r)
    with progress 1(2) obtain new s' where n: "visit a s = Some (new, s')" "inv s' (r @ new)"
      "rank s' < rank s \<or> rank s' \<le> rank s \<and> new = []" by blast
    have "((rank s', length (r @ new)), (rank s, length q)) \<in> less_than <*lex*> less_than"
      using n(3) Cons by auto
    with 1(1) n(2) obtain t where "worklist visit (r @ new) s' = Some t \<and> inv t []" by blast
    with Cons n(1) show ?thesis by (simp add: worklist_Cons)
  qed
qed

end

text \<open>Two visits that agree on the entries that occur run the same loop.\<close>

lemma worklist_agree:
  fixes v w :: "'a \<Rightarrow> 's \<Rightarrow> ('a list \<times> 's) option"
  assumes "worklist v q s = Some t" "\<forall>a \<in> set q. P a" "\<And>a s. P a \<Longrightarrow> v a s = w a s"
    "\<And>a s new s'. P a \<Longrightarrow> v a s = Some (new, s') \<Longrightarrow> \<forall>b \<in> set new. P b"
  shows "worklist w q s = Some t"
proof -
  have "x = v \<longrightarrow> (\<forall>a \<in> set q. P a) \<longrightarrow> worklist w q s = Some t" if "worklist x q s = Some t" for x q s t
    using that
  proof (rule worklist.raw_induct[where P = "\<lambda>x q s t. x = v \<longrightarrow> (\<forall>a \<in> set q. P a) \<longrightarrow> worklist w q s = Some t", rotated], intro impI)
    fix f and x :: "'a \<Rightarrow> 's \<Rightarrow> ('a list \<times> 's) option" and q s t
    assume IH: "\<And>x q s t. f x q s = Some t \<Longrightarrow> x = v \<longrightarrow> (\<forall>a \<in> set q. P a) \<longrightarrow> worklist w q s = Some t"
      and run: "(case q of [] \<Rightarrow> Some s | a # r \<Rightarrow> Option.bind (x a s) (\<lambda>(new, s'). f x (r @ new) s')) = Some t"
      and x: "x = v" and q: "\<forall>a \<in> set q. P a"
    show "worklist w q s = Some t"
    proof (cases q)
      case (Cons a r)
      with run x obtain new s' where n: "v a s = Some (new, s')" "f v (r @ new) s' = Some t"
        by (auto simp: bind_eq_Some_conv)
      have "P a" "\<forall>b \<in> set (r @ new). P b" using q Cons assms(4)[of a s new s'] n(1) by auto
      with IH[OF n(2)] n(1) assms(3)[of a s] Cons show ?thesis by (simp add: worklist_Cons)
    qed (use run in simp)
  qed
  with assms(1,2) show ?thesis by blast
qed

lemma worklist_cong:
  assumes "\<forall>a \<in> set q. P a" "\<And>a s. P a \<Longrightarrow> v a s = w a s"
    "\<And>a s new s'. P a \<Longrightarrow> v a s = Some (new, s') \<Longrightarrow> \<forall>b \<in> set new. P b"
  shows "worklist v q s = worklist w q s"
proof -
  have fw: "worklist w q s = Some t" if "worklist v q s = Some t" for t
    by (rule worklist_agree[OF that assms])
  have bw: "worklist v q s = Some t" if "worklist w q s = Some t" for t
  proof (rule worklist_agree[OF that assms(1)])
    show "w a s = v a s" if "P a" for a s using assms(2)[OF that] by simp
    show "\<forall>b \<in> set new. P b" if "P a" "w a s = Some (new, s')" for a s new s'
      by (rule assms(3)[OF that(1)]) (use assms(2)[OF that(1)] that(2) in simp)
  qed
  show ?thesis
  proof (cases "worklist v q s")
    case None
    with bw show ?thesis by (cases "worklist w q s") (fastforce, simp)
  qed (use fw in simp)
qed

text \<open>A loop over a list whose body may not return.\<close>

fun foldM :: "('a \<Rightarrow> 's \<Rightarrow> 's option) \<Rightarrow> 'a list \<Rightarrow> 's \<Rightarrow> 's option" where
  "foldM h [] s = Some s"
| "foldM h (a # as) s = (case h a s of None \<Rightarrow> None | Some s1 \<Rightarrow> foldM h as s1)"

lemma foldM_invariant:
  assumes "foldM h as s = Some t" "I s" "\<And>a s s'. a \<in> set as \<Longrightarrow> I s \<Longrightarrow> h a s = Some s' \<Longrightarrow> I s'"
  shows "I t"
  using assms
proof (induction as arbitrary: s)
  case (Cons a as)
  then obtain s1 where "h a s = Some s1" "foldM h as s1 = Some t" by (auto split: option.splits)
  with Cons show ?case by (metis list.set_intros)
qed simp

lemma foldM_each:
  assumes "foldM h as s = Some t" "I s"
    "\<And>a s s'. a \<in> set as \<Longrightarrow> I s \<Longrightarrow> h a s = Some s' \<Longrightarrow> I s' \<and> Q a s' \<and> (\<forall>b. Q b s \<longrightarrow> Q b s')"
  shows "I t \<and> (\<forall>a \<in> set as. Q a t) \<and> (\<forall>b. Q b s \<longrightarrow> Q b t)"
  using assms
proof (induction as arbitrary: s)
  case (Cons a as)
  then obtain s1 where s1: "h a s = Some s1" "foldM h as s1 = Some t" by (auto split: option.splits)
  with Cons.prems(2,3) have "I s1 \<and> Q a s1 \<and> (\<forall>b. Q b s \<longrightarrow> Q b s1)" by (metis list.set_intros(1))
  moreover from this Cons.IH[OF s1(2)] Cons.prems(3) have "I t \<and> (\<forall>a \<in> set as. Q a t) \<and> (\<forall>b. Q b s1 \<longrightarrow> Q b t)"
    by (metis list.set_intros(2))
  ultimately show ?case by auto
qed simp

lemma foldM_returns:
  assumes "I s" "\<And>a s. a \<in> set as \<Longrightarrow> I s \<Longrightarrow> \<exists>s'. h a s = Some s' \<and> I s'"
  shows "\<exists>t. foldM h as s = Some t \<and> I t"
  using assms
proof (induction as arbitrary: s)
  case (Cons a as)
  from Cons.prems obtain s' where s': "h a s = Some s'" "I s'" by (meson list.set_intros(1))
  with Cons.IH[of s'] Cons.prems(2) show ?case by auto
qed simp

end
