(* ===== verification/CcpgBuild.thy ===== *)
theory CcpgBuild
  imports AliasMap Worklist
begin

text \<open>
  The construction of the concurrent code property graph from the code property graph
  (src/CCPG/CCPG.cpp): the children of a node through code that is irrelevant for
  concurrency, with their cache, the nodes and edges of a function, the callee of a call
  node, the target of a thread creation, and the marking of the functions that may create
  threads.  An operation that does not return, because a conversion of a property throws or
  a search never ends, gives \<open>None\<close>.
\<close>

subsection \<open>State\<close>

record builder =
  b_g :: ccpg
  findChildrenCache :: "ptr \<Rightarrow> ptr list option"
  entryFunctions :: "ptr list"
  nextCpg :: ptr
  syntheticEntryNodes :: "ptr list"

definition updNode :: "ptr \<Rightarrow> (ccpg_node \<Rightarrow> ccpg_node) \<Rightarrow> ccpg \<Rightarrow> ccpg" where
  "updNode n h g = g\<lparr>nodeH := (nodeH g)(n := h (nodeH g n))\<rparr>"

definition updFun :: "ptr \<Rightarrow> (func \<Rightarrow> func) \<Rightarrow> ccpg \<Rightarrow> ccpg" where
  "updFun f h g = g\<lparr>funH := (funH g)(f := h (funH g f))\<rparr>"

subsection \<open>The children of a node\<close>

definition childVisit :: "(ptr \<Rightarrow> ptr list) \<Rightarrow> (ptr \<Rightarrow> bool) \<Rightarrow> ptr \<Rightarrow> ptr list \<times> ptr list \<Rightarrow>
    (ptr list \<times> ptr list \<times> ptr list) option" where
  "childVisit cfg keep n = (\<lambda>(vis, out). Some
     (if n \<in> set vis then ([], vis, out)
      else if keep n then ([], n # vis, out @ [n])
      else (cfg n, n # vis, out)))"

definition searchChildren :: "(ptr \<Rightarrow> ptr list) \<Rightarrow> (ptr \<Rightarrow> bool) \<Rightarrow> ptr \<Rightarrow> ptr list option" where
  "searchChildren cfg keep start =
     map_option snd (worklist (childVisit cfg keep) (cfg start) ([start], []))"

definition findChildren :: "build_env \<Rightarrow> ptr \<Rightarrow> builder \<Rightarrow> (ptr list \<times> builder) option" where
  "findChildren E n B =
     (case findChildrenCache B n of
        Some cs \<Rightarrow> Some (cs, B)
      | None \<Rightarrow>
          (case searchChildren (outCFGEdges (be_cpg E)) (\<lambda>m. isCCPGNode (be_util E) (cpgH (b_g B) m)) n of
             None \<Rightarrow> None
           | Some cs \<Rightarrow> Some (cs, B\<lparr>findChildrenCache := (findChildrenCache B)(n \<mapsto> cs)\<rparr>)))"

subsection \<open>The nodes and edges of a function\<close>

definition newFunction :: "ptr \<Rightarrow> func" where
  "newFunction fnode = \<lparr>fn_nodes = [], fn_edges = [], fn_typeToNodeSet = (\<lambda>_. []), fn_funcNode = fnode,
     fn_contexts = [], forkPotential = False, acquirePotential = False, releasePotential = False,
     fn_llvm = None, fn_locs = []\<rparr>"

definition fn_addNode :: "api_type \<Rightarrow> ptr \<Rightarrow> func \<Rightarrow> func" where
  "fn_addNode ty n f = f\<lparr>fn_nodes := List.insert n (fn_nodes f),
     fn_typeToNodeSet := (fn_typeToNodeSet f)(ty := List.insert n (fn_typeToNodeSet f ty))\<rparr>"

definition childNodeOf :: "build_env \<Rightarrow> ptr \<Rightarrow> ptr \<Rightarrow> ccpg \<Rightarrow> ptr \<times> ccpg" where
  "childNodeOf E f child g =
     (case cpgNodeToCCPGNodeMap g child of
        Some c \<Rightarrow> (c, g)
      | None \<Rightarrow> (let (c, g1) = createCCPGNode (be_util E) child g
                 in (c, updNode c (\<lambda>n. n\<lparr>nd_function := f\<rparr>) g1)))"

definition childStep :: "build_env \<Rightarrow> ptr \<Rightarrow> ptr \<Rightarrow> ccpg \<times> ptr list \<times> ptr list \<Rightarrow> ptr \<Rightarrow> ccpg \<times> ptr list \<times> ptr list" where
  "childStep E f node = (\<lambda>(g, vis, new) child.
     (let (c, g1) = childNodeOf E f child g;
          g2 = createCCPGEdge node c ORDER g1;
          g3 = updFun f (\<lambda>fn. fn\<lparr>fn_edges := fn_edges fn @ [\<lparr>e_src = node, e_dst = c, e_type = ORDER\<rparr>]\<rparr>) g2
      in if c \<in> set vis then (g3, vis, new) else (g3, vis @ [c], new @ [c])))"

definition fnVisit :: "build_env \<Rightarrow> ptr \<Rightarrow> ptr \<Rightarrow> builder \<times> ptr list \<Rightarrow> (ptr list \<times> builder \<times> ptr list) option" where
  "fnVisit E f node = (\<lambda>(B, vis).
     (let g1 = updFun f (fn_addNode (nd_type (nodeH (b_g B) node)) node) (b_g B)
      in case findChildren E (nd_cpg (nodeH g1 node)) (B\<lparr>b_g := g1\<rparr>) of
           None \<Rightarrow> None
         | Some (cs, B1) \<Rightarrow>
             (let (g2, vis2, new) = foldl (childStep E f node) (b_g B1, vis, []) cs
              in Some (new, B1\<lparr>b_g := g2\<rparr>, vis2))))"

definition locateNode :: "build_env \<Rightarrow> ptr \<Rightarrow> ptr \<Rightarrow> ccpg \<Rightarrow> ccpg option" where
  "locateNode E f node g =
     (let own = getFileName (cpgOf g node);
          file = (if own = [] then getFileName (cpgOf g (fn_funcNode (funH g f))) else own)
      in case getLineNumber (cpgOf g node) of
           Throw \<Rightarrow> None
         | Ok l \<Rightarrow>
             (let loc = mkNodeLoc (be_normal E) (be_target E) (be_parse E file) l f
              in Some (updFun f (\<lambda>fn. fn\<lparr>fn_locs := addNodeByLoc_list loc node (fn_locs fn)\<rparr>)
                   (addNodeByLoc loc node (updNode node (\<lambda>n. n\<lparr>nd_loc := loc\<rparr>) g)))))"

definition attachCall :: "build_env \<Rightarrow> ccpg \<Rightarrow> ptr \<Rightarrow> ccpg" where
  "attachCall E g node =
     (if \<not> nd_callSite (nodeH g node) then g
      else case List.find (\<lambda>ci. case ci_callee ci of None \<Rightarrow> False
               | Some callee \<Rightarrow> getName (cpgOf g node) = be_demangle E callee) (be_callInsts E (nd_loc (nodeH g node))) of
        None \<Rightarrow> g
      | Some ci \<Rightarrow> updNode node (\<lambda>n. n\<lparr>nd_callInst := Some ci\<rparr>) g)"

definition openFunction :: "ptr \<Rightarrow> ccpg \<Rightarrow> ptr \<times> ccpg" where
  "openFunction fnode g =
     (let f = nextPtr g;
          g1 = addFunction f (g\<lparr>funH := (funH g)(f := newFunction fnode), nextPtr := Suc f\<rparr>)
      in (f, updNode fnode (\<lambda>n. n\<lparr>nd_function := f\<rparr>) g1))"

definition createFunction :: "build_env \<Rightarrow> ptr \<Rightarrow> builder \<Rightarrow> (ptr \<times> builder) option" where
  "createFunction E fnode B =
     (if getFunctionByCCPGNode (b_g B) fnode \<noteq> null then Some (getFunctionByCCPGNode (b_g B) fnode, B)
      else let (f, g0) = openFunction fnode (b_g B) in
        case worklist (fnVisit E f) [fnode] (B\<lparr>b_g := g0\<rparr>, [fnode]) of
          None \<Rightarrow> None
        | Some (B1, vis) \<Rightarrow>
            (case foldM (locateNode E f) (fn_nodes (funH (b_g B1) f)) (b_g B1) of
               None \<Rightarrow> None
             | Some g1 \<Rightarrow>
                 (case getLLVMFunction E f g1 of
                    Throw \<Rightarrow> None
                  | Ok (lf, g2) \<Rightarrow>
                      Some (f, B1\<lparr>b_g := (if lf = None then g2
                                          else foldl (attachCall E) g2 (fn_nodes (funH g2 f)))\<rparr>))))"

definition createIRAnchoredEntryFunction :: "build_env \<Rightarrow> llvm_def option \<Rightarrow> builder \<Rightarrow> (ptr \<times> builder) option" where
  "createIRAnchoredEntryFunction E lf B =
     (case lf of
        None \<Rightarrow> Some (null, B)
      | Some d \<Rightarrow>
          if ld_declaration d then Some (null, B)
          else let name = be_demangle E (ld_name d);
                   file = (case ld_sub d of Some (f, l) \<Rightarrow> f | None \<Rightarrow> []);
                   line = (case ld_sub d of Some (f, l) \<Rightarrow> l | None \<Rightarrow> 0);
                   props = [''NAME'' \<mapsto> name, ''FULL_NAME'' \<mapsto> name, ''METHOD_FULL_NAME'' \<mapsto> name,
                            ''FILENAME'' \<mapsto> file, ''LINE_NUMBER'' \<mapsto> (if 0 < line then int_to_string line else []),
                            ''CODE'' \<mapsto> ''<ir-entry:'' @ name @ ''>''];
                   p = nextCpg B;
                   g0 = (b_g B)\<lparr>cpgH := (cpgH (b_g B))(p := mkNode ''METHOD'' props 0)\<rparr>;
                   (fnode, g1) = createCCPGNode (be_util E) p g0
               in case createFunction E fnode (B\<lparr>b_g := g1, nextCpg := Suc p,
                           syntheticEntryNodes := syntheticEntryNodes B @ [p]\<rparr>) of
                    None \<Rightarrow> None
                  | Some (f, B1) \<Rightarrow>
                      Some (f, B1\<lparr>b_g := updFun f (\<lambda>fn. fn\<lparr>fn_llvm := Some (ld_name d)\<rparr>) (b_g B1)\<rparr>))"

subsection \<open>The callee of a call node\<close>

fun firstCallee :: "build_env \<Rightarrow> cpg_heap \<Rightarrow> llvm_def list \<Rightarrow> ptr result" where
  "firstCallee E H [] = Ok null"
| "firstCallee E H (d # ds) =
     (case findMethodByLLVMFunction (be_parse E) (be_normal E) H (be_cpg E) (Some (toLlvmFunction E d)) of
        Throw \<Rightarrow> Throw
      | Ok m \<Rightarrow> if m \<noteq> null then Ok m else firstCallee E H ds)"

text \<open>The method behind a call node without a call edge, the null pointer when there is none.\<close>

definition calleeMethod :: "build_env \<Rightarrow> ccpg \<Rightarrow> ptr \<Rightarrow> ptr result" where
  "calleeMethod E g caller =
     (let H = cpgH g; C = be_cpg E; n = nodeH g caller; cn = H (nd_cpg n);
          named = (if getName cn = ''<operator>.pointerCall'' \<and> getCode cn = ''task->func(task->func_arg)''
                   then Ok (findMethod H C ''muxer_thread'')
                   else if nd_type n = OBJECT_INIT then
                     (case getArgument H C (nd_cpg n) 1 of
                        Throw \<Rightarrow> Throw
                      | Ok obj \<Rightarrow> Ok (if obj = null then null else findMethod H C (getName (H obj))))
                   else if nd_type n = OTHER_CALL then findMethod_call H C (nd_cpg n)
                   else Ok null)
      in case nd_callInst n of
           None \<Rightarrow> named
         | Some ci \<Rightarrow>
             (case firstCallee E H (be_callees E ci) of
                Throw \<Rightarrow> Throw
              | Ok m \<Rightarrow> if m \<noteq> null then Ok m else named))"

definition findCalleeByCaller :: "build_env \<Rightarrow> ptr \<Rightarrow> builder \<Rightarrow> (ptr \<times> builder) option" where
  "findCalleeByCaller E caller B =
     (case hasCallEdge (b_g B) caller of
        Some e \<Rightarrow> Some (e_dst e, B)
      | None \<Rightarrow>
          (case calleeMethod E (b_g B) caller of
             Throw \<Rightarrow> None
           | Ok m \<Rightarrow> (let (c, g) = createCCPGNode (be_util E) m (b_g B) in Some (c, B\<lparr>b_g := g\<rparr>))))"

definition createFunctionByCaller :: "build_env \<Rightarrow> ptr \<Rightarrow> builder \<Rightarrow> (ptr \<times> builder) option" where
  "createFunctionByCaller E caller B =
     (case findCalleeByCaller E caller B of
        None \<Rightarrow> None
      | Some (callee, B1) \<Rightarrow>
          if callee = null then Some (null, B1)
          else case createFunction E callee B1 of
            None \<Rightarrow> None
          | Some (f, B2) \<Rightarrow>
              Some (f, B2\<lparr>b_g := handleContext caller f (createCCPGEdge caller callee CALL (b_g B2))\<rparr>))"

subsection \<open>Functions that may create threads\<close>

definition forkVisit :: "ptr \<Rightarrow> ccpg \<Rightarrow> (ptr list \<times> ccpg) option" where
  "forkVisit f g = Some
     (if forkPotential (funH g f) then ([], g)
      else let g1 = updFun f (\<lambda>fn. fn\<lparr>forkPotential := True\<rparr>) g
           in (filter (\<lambda>c. \<not> forkPotential (funH g1 c)) (getCallers g1 f), g1))"

definition labelForkPotential :: "ccpg \<Rightarrow> ccpg option" where
  "labelForkPotential g =
     worklist forkVisit (filter (\<lambda>f. fn_typeToNodeSet (funH g f) FORK \<noteq> []) (g_functions g)) g"

subsection \<open>The function a thread runs\<close>

text \<open>Reading the code of a reference that has no name throws when the property is missing.\<close>

definition findThreadEntryByArg :: "build_env \<Rightarrow> cpg_heap \<Rightarrow> ptr \<Rightarrow> ptr result" where
  "findThreadEntryByArg E H arg =
     (if arg = null then Ok null
      else let m = (if getType_cpg (H arg) = ''Method_ref'' then arg
                    else case List.find (\<lambda>(ty, d). getType_cpg (H d) = ''Method_ref'') (outEdgesOf (be_cpg E) arg) of
                      Some (ty, d) \<Rightarrow> d | None \<Rightarrow> arg)
           in if getName (H m) \<noteq> [] then Ok (findMethod H (be_cpg E) (getName (H m)))
              else case cpg_properties (H m) ''CODE'' of
                None \<Rightarrow> Throw
              | Some code \<Rightarrow> Ok (findMethod H (be_cpg E) code))"

fun firstEntryArg :: "build_env \<Rightarrow> cpg_heap \<Rightarrow> ptr \<Rightarrow> int list \<Rightarrow> ptr result" where
  "firstEntryArg E H fork [] = Ok null"
| "firstEntryArg E H fork (i # is) =
     (case getArgument H (be_cpg E) fork i of
        Throw \<Rightarrow> Throw
      | Ok arg \<Rightarrow>
          (case findThreadEntryByArg E H arg of
             Throw \<Rightarrow> Throw
           | Ok m \<Rightarrow> if m \<noteq> null then Ok m else firstEntryArg E H fork is))"

text \<open>The agent answers a node or function id, or fails.\<close>

definition findThreadEntryByLLM :: "build_env \<Rightarrow> ccpg \<Rightarrow> ptr \<Rightarrow> ptr" where
  "findThreadEntryByLLM E g forkNode =
     (case be_agent E forkNode of
        None \<Rightarrow> null
      | Some r \<Rightarrow>
          if r < 0 then null
          else if findNode (be_cpg E) (int_to_string r) \<noteq> null then findNode (be_cpg E) (int_to_string r)
          else if intMax < r then null
          else (case IDToFunction g (nat r) of
                  Some f \<Rightarrow> nd_cpg (nodeH g (fn_funcNode (funH g f)))
                | None \<Rightarrow> (case IDToCCPGNode g (nat r) of Some n \<Rightarrow> nd_cpg (nodeH g n) | None \<Rightarrow> null)))"

definition findThreadEntryInCPG :: "build_env \<Rightarrow> ccpg \<Rightarrow> ptr \<Rightarrow> ptr result" where
  "findThreadEntryInCPG E g forkNode =
     (let H = cpgH g; fork = nd_cpg (nodeH g forkNode) in
      case firstEntryArg E H fork (getEntryFunctionArgIndices (be_util E) (getName (H fork))) of
        Throw \<Rightarrow> Throw
      | Ok m \<Rightarrow>
          if m \<noteq> null then Ok m
          else if be_env E ''LACE_EARLY_EXIT_AFTER_SURFACE'' \<noteq> None \<or> be_env E ''LACE_NO_LLM_THREAD_ENTRY'' \<noteq> None \<or>
                  be_env E ''LACE_ENABLE_LLM_THREAD_ENTRY'' = None then Ok null
          else Ok (findThreadEntryByLLM E g forkNode))"

subsection \<open>The functions reachable from the entries\<close>

text \<open>One call node: it is skipped when it already has a call edge.\<close>

definition expandCall :: "build_env \<Rightarrow> ptr \<Rightarrow> builder \<times> ptr list \<Rightarrow> (builder \<times> ptr list) option" where
  "expandCall E n = (\<lambda>(B, new).
     (if hasCallEdge (b_g B) n \<noteq> None then Some (B, new)
      else case createFunctionByCaller E n B of
        None \<Rightarrow> None
      | Some (f, B1) \<Rightarrow> Some (B1, if f = null then new else new @ [f])))"

definition expandFork :: "build_env \<Rightarrow> ptr \<Rightarrow> builder \<times> ptr list \<Rightarrow> (builder \<times> ptr list) option" where
  "expandFork E n = (\<lambda>(B, new).
     (case findThreadEntryInCPG E (b_g B) n of
        Throw \<Rightarrow> None
      | Ok m \<Rightarrow>
          if m = null then Some (B, new)
          else let (fnode, g1) = createCCPGNode (be_util E) m (b_g B)
               in case createFunction E fnode (B\<lparr>b_g := g1\<rparr>) of
                    None \<Rightarrow> None
                  | Some (f, B1) \<Rightarrow>
                      Some (B1\<lparr>b_g := handleContext n f (createCCPGEdge n fnode HB (b_g B1))\<rparr>, new @ [f])))"

definition expandVisit :: "build_env \<Rightarrow> ptr \<Rightarrow> builder \<times> ptr list \<Rightarrow> (ptr list \<times> builder \<times> ptr list) option" where
  "expandVisit E f = (\<lambda>(B, visited).
     (if f \<in> set visited then Some ([], B, visited)
      else case foldM (expandCall E) (fn_typeToNodeSet (funH (b_g B) f) OBJECT_INIT) (B, []) of
        None \<Rightarrow> None
      | Some (B1, q1) \<Rightarrow>
          (case foldM (expandCall E) (fn_typeToNodeSet (funH (b_g B1) f) OTHER_CALL) (B1, q1) of
             None \<Rightarrow> None
           | Some (B2, q2) \<Rightarrow>
               (case foldM (expandFork E) (fn_typeToNodeSet (funH (b_g B2) f) FORK) (B2, q2) of
                  None \<Rightarrow> None
                | Some (B3, q3) \<Rightarrow> Some (q3, B3, f # visited)))))"

definition expandAll :: "build_env \<Rightarrow> ptr list \<Rightarrow> builder \<Rightarrow> builder option" where
  "expandAll E q B = map_option fst (worklist (expandVisit E) q (B, []))"

end
