(* ===== verification/BuildFacts.thy ===== *)
theory BuildFacts
  imports CcpgBuild
begin

text \<open>
  What the construction of the code graph yields: the children of a node are exactly the
  concurrency-relevant nodes behind irrelevant code, a function holds exactly the relevant
  nodes its method reaches, the indexes of the graph stay consistent, and every loop ends on
  a finite control-flow graph.
\<close>

subsection \<open>Children\<close>

text \<open>Nodes reached from a start through nodes that are not kept.\<close>

inductive through :: "(ptr \<Rightarrow> ptr list) \<Rightarrow> (ptr \<Rightarrow> bool) \<Rightarrow> ptr \<Rightarrow> ptr \<Rightarrow> bool" for cfg keep s where
  direct: "n \<in> set (cfg s) \<Longrightarrow> through cfg keep s n"
| skip: "through cfg keep s m \<Longrightarrow> \<not> keep m \<Longrightarrow> n \<in> set (cfg m) \<Longrightarrow> through cfg keep s n"

definition children_of :: "(ptr \<Rightarrow> ptr list) \<Rightarrow> (ptr \<Rightarrow> bool) \<Rightarrow> ptr \<Rightarrow> ptr set" where
  "children_of cfg keep s = {n. through cfg keep s n \<and> keep n \<and> n \<noteq> s}"

definition cfg_universe :: "(ptr \<Rightarrow> ptr list) \<Rightarrow> ptr set \<Rightarrow> bool" where
  "cfg_universe cfg U \<longleftrightarrow> finite U \<and> (\<forall>n \<in> U. set (cfg n) \<subseteq> U)"

definition childFacts :: "(ptr \<Rightarrow> ptr list) \<Rightarrow> (ptr \<Rightarrow> bool) \<Rightarrow> ptr \<Rightarrow> ptr list \<times> ptr list \<Rightarrow> ptr list \<Rightarrow> bool" where
  "childFacts cfg keep s = (\<lambda>(vis, out) q. s \<in> set vis \<and> distinct out \<and>
     set out = {n \<in> set vis. keep n \<and> n \<noteq> s} \<and>
     (\<forall>n \<in> set vis \<union> set q. n = s \<or> through cfg keep s n) \<and>
     (\<forall>n \<in> set vis. n = s \<or> \<not> keep n \<longrightarrow> set (cfg n) \<subseteq> set vis \<union> set q))"

definition childInv :: "(ptr \<Rightarrow> ptr list) \<Rightarrow> (ptr \<Rightarrow> bool) \<Rightarrow> ptr \<Rightarrow> ptr set \<Rightarrow> ptr list \<times> ptr list \<Rightarrow> ptr list \<Rightarrow> bool" where
  "childInv cfg keep s U = (\<lambda>st q. cfg_universe cfg U \<and> set (fst st) \<subseteq> U \<and> set q \<subseteq> U \<and> childFacts cfg keep s st q)"

lemma childVisit_cases:
  obtains "a \<in> set vis" "childVisit cfg keep a (vis, out) = Some ([], vis, out)"
  | "a \<notin> set vis" "keep a" "childVisit cfg keep a (vis, out) = Some ([], a # vis, out @ [a])"
  | "a \<notin> set vis" "\<not> keep a" "childVisit cfg keep a (vis, out) = Some (cfg a, a # vis, out)"
  by (cases "a \<in> set vis"; cases "keep a") (simp_all add: childVisit_def)

lemma childFacts_step:
  assumes "childFacts cfg keep s st (a # r)" "childVisit cfg keep a st = Some (new, st')"
  shows "childFacts cfg keep s st' (r @ new)"
proof -
  obtain vis out where st: "st = (vis, out)" by fastforce
  have old: "s \<in> set vis" "distinct out" "set out = {n \<in> set vis. keep n \<and> n \<noteq> s}"
    "\<forall>n \<in> set vis \<union> set (a # r). n = s \<or> through cfg keep s n"
    "\<forall>n \<in> set vis. n = s \<or> \<not> keep n \<longrightarrow> set (cfg n) \<subseteq> insert a (set vis \<union> set r)"
    using assms(1) st by (simp_all add: childFacts_def)
  show ?thesis
  proof (cases "a \<in> set vis")
    case True
    then have "new = []" "st' = (vis, out)" using assms(2) st by (simp_all add: childVisit_def)
    moreover have "insert a (set vis \<union> set r) = set vis \<union> set r" using True by blast
    ultimately show ?thesis using old by (simp add: childFacts_def)
  next
    case False
    with old(1,4) have t: "a \<noteq> s" "through cfg keep s a" by auto
    have n: "set new = (if keep a then {} else set (cfg a))"
      "st' = (a # vis, if keep a then out @ [a] else out)"
      using assms(2) st False by (auto simp: childVisit_def split: if_splits)
    have "\<forall>n \<in> set (cfg a). \<not> keep a \<longrightarrow> through cfg keep s n" using t(2) by (blast intro: through.skip)
    then have "\<forall>n \<in> set (a # vis) \<union> set (r @ new). n = s \<or> through cfg keep s n" using old(4) t n(1) by auto
    moreover have "\<forall>n \<in> set (a # vis). n = s \<or> \<not> keep n \<longrightarrow> set (cfg n) \<subseteq> set (a # vis) \<union> set (r @ new)"
    proof (intro ballI impI)
      fix n assume "n \<in> set (a # vis)" "n = s \<or> \<not> keep n"
      then show "set (cfg n) \<subseteq> set (a # vis) \<union> set (r @ new)"
      proof (cases "n = a")
        case False
        with \<open>n \<in> set (a # vis)\<close> have "n \<in> set vis" by simp
        from bspec[OF old(5) this] \<open>n = s \<or> \<not> keep n\<close> show ?thesis by auto
      qed (use n(1) t(1) in auto)
    qed
    ultimately show ?thesis using old(1-3) n False t(1) by (auto simp: childFacts_def)
  qed
qed

interpretation children: work_queue "childVisit cfg keep" "\<lambda>st. card (U - set (fst st))" "childInv cfg keep s U"
  for cfg keep s U
proof
  fix st a r
  assume I: "childInv cfg keep s U st (a # r)"
  obtain vis out where st: "st = (vis, out)" by fastforce
  obtain new st' where v: "childVisit cfg keep a st = Some (new, st')"
    unfolding st by (rule childVisit_cases[of a vis cfg keep out]) blast+
  have U: "finite U" "a \<in> U" "set (cfg a) \<subseteq> U" using I by (auto simp: childInv_def cfg_universe_def)
  have "card (U - set (fst st')) < card (U - set (fst st)) \<or> card (U - set (fst st')) \<le> card (U - set (fst st)) \<and> new = []"
  proof (cases "a \<in> set vis")
    case False
    have "U - insert a (set vis) \<subset> U - set vis" using U False by auto
    then have "card (U - insert a (set vis)) < card (U - set vis)" using U by (intro psubset_card_mono) auto
    moreover have "set (fst st') = insert a (set vis)" using v st False by (auto simp: childVisit_def split: if_splits)
    ultimately show ?thesis by (simp add: st)
  qed (use v st in \<open>auto simp: childVisit_def\<close>)
  moreover have "childInv cfg keep s U st' (r @ new)"
    using childFacts_step[OF _ v, of s r] I U v st
    by (auto simp: childInv_def childVisit_def split: if_splits)
  ultimately show "\<exists>new st'. childVisit cfg keep a st = Some (new, st') \<and> childInv cfg keep s U st' (r @ new) \<and>
      (card (U - set (fst st')) < card (U - set (fst st)) \<or>
       card (U - set (fst st')) \<le> card (U - set (fst st)) \<and> new = [])" using v by blast
qed

lemma childFacts_init: "childFacts cfg keep s ([s], []) (cfg s)"
  by (auto simp: childFacts_def intro: through.direct)

lemma childFacts_done:
  assumes "childFacts cfg keep s (vis, out) []"
  shows "distinct out \<and> set out = children_of cfg keep s"
proof -
  have "n \<in> set vis" if "through cfg keep s n" for n
    using that assms by induction (auto simp: childFacts_def)
  with assms show ?thesis by (auto simp: childFacts_def children_of_def)
qed

text \<open>Whenever the search returns, it returns the children; on a finite graph it returns.\<close>

lemma searchChildren_exact:
  assumes "searchChildren cfg keep s = Some cs"
  shows "distinct cs \<and> set cs = children_of cfg keep s"
proof -
  from assms obtain st where st: "worklist (childVisit cfg keep) (cfg s) ([s], []) = Some st" "snd st = cs"
    by (auto simp: searchChildren_def)
  have "childFacts cfg keep s st []"
    by (rule worklist_invariant[OF st(1), where I = "childFacts cfg keep s"])
      (auto intro: childFacts_init childFacts_step)
  with childFacts_done[of cfg keep s "fst st" "snd st"] st(2) show ?thesis by (metis prod.collapse)
qed

lemma searchChildren_returns:
  assumes "cfg_universe cfg U" "s \<in> U"
  shows "searchChildren cfg keep s \<noteq> None"
proof -
  have "childInv cfg keep s U ([s], []) (cfg s)"
    using assms childFacts_init by (auto simp: childInv_def cfg_universe_def)
  from children.returns[OF this] show ?thesis by (auto simp: searchChildren_def)
qed

lemma children_in_universe:
  assumes "cfg_universe cfg U" "s \<in> U"
  shows "children_of cfg keep s \<subseteq> U"
proof -
  have "n \<in> U" if "through cfg keep s n" for n
    using that assms by induction (auto simp: cfg_universe_def)
  then show ?thesis by (auto simp: children_of_def)
qed

text \<open>Steps along children are control-flow paths between kept nodes.\<close>

definition flow :: "(ptr \<Rightarrow> ptr list) \<Rightarrow> ptr \<Rightarrow> ptr \<Rightarrow> bool" where
  "flow cfg = (\<lambda>a b. b \<in> set (cfg a))\<^sup>*\<^sup>*"

lemma through_flow: "through cfg keep s n \<Longrightarrow> flow cfg s n"
  unfolding flow_def by (induction rule: through.induct) (blast intro: rtranclp.rtrancl_into_rtrancl)+

lemma children_flow: "(\<lambda>a b. b \<in> children_of cfg keep a)\<^sup>*\<^sup>* s n \<Longrightarrow> flow cfg s n \<and> (n = s \<or> keep n)"
proof (induction rule: rtranclp_induct)
  case (step m n)
  with through_flow[of cfg keep m n] show ?case
    by (auto simp: children_of_def flow_def)
qed (simp add: flow_def)

lemma flow_children:
  assumes "flow cfg s n"
  shows "\<exists>k. (\<lambda>a b. b \<in> children_of cfg keep a)\<^sup>*\<^sup>* s k \<and> (k = n \<or> through cfg keep k n \<and> \<not> keep n)"
  using assms unfolding flow_def
proof (induction rule: rtranclp_induct)
  case (step m n)
  then obtain k where k: "(\<lambda>a b. b \<in> children_of cfg keep a)\<^sup>*\<^sup>* s k"
    "k = m \<or> through cfg keep k m \<and> \<not> keep m" by blast
  then have t: "through cfg keep k n" using step(2) by (auto intro: through.intros)
  show ?case
  proof (cases "keep n \<and> n \<noteq> k")
    case True
    with t have "n \<in> children_of cfg keep k" by (simp add: children_of_def)
    with k(1) have "(\<lambda>a b. b \<in> children_of cfg keep a)\<^sup>*\<^sup>* s n"
      by (simp add: rtranclp.rtrancl_into_rtrancl)
    then show ?thesis by blast
  next
    case False
    with k(1) t show ?thesis by auto
  qed
qed auto

lemma children_closure:
  "(\<lambda>a b. b \<in> children_of cfg keep a)\<^sup>*\<^sup>* s n \<longleftrightarrow> n = s \<or> keep n \<and> flow cfg s n"
  using children_flow[of cfg keep s n] flow_children[of cfg s n keep] by auto

subsection \<open>The cache of the children\<close>

text \<open>
  A cached query: \<open>query\<close> answers from the cache when it can and otherwise computes the
  answer and stores it.  The contract is that storing changes the cache at one key and
  nothing the computation depends on.
\<close>

locale cached_query =
  fixes cached :: "'s \<Rightarrow> 'k \<Rightarrow> 'v option"
    and store :: "'k \<Rightarrow> 'v \<Rightarrow> 's \<Rightarrow> 's"
    and compute :: "'s \<Rightarrow> 'k \<Rightarrow> 'v option"
    and query :: "'k \<Rightarrow> 's \<Rightarrow> ('v \<times> 's) option"
  assumes cached_store: "cached (store k v s) = (cached s)(k \<mapsto> v)"
    and compute_store: "compute (store k v s) = compute s"
    and query: "query k s = (case cached s k of Some v \<Rightarrow> Some (v, s)
      | None \<Rightarrow> map_option (\<lambda>v. (v, store k v s)) (compute s k))"
begin

definition cache_ok :: "'s \<Rightarrow> bool" where
  "cache_ok s \<longleftrightarrow> (\<forall>k v. cached s k = Some v \<longrightarrow> compute s k = Some v)"

lemma query_correct:
  assumes "cache_ok s"
  shows "map_option fst (query k s) = compute s k"
  using assms by (auto simp: query cache_ok_def option.map_comp comp_def option.map_ident split: option.split)

lemma query_keeps:
  assumes "cache_ok s" "query k s = Some (v, s')"
  shows "cache_ok s' \<and> compute s' = compute s"
  using assms by (auto simp: query cache_ok_def cached_store compute_store split: option.splits if_splits)

end

definition computeChildren :: "build_env \<Rightarrow> builder \<Rightarrow> ptr \<Rightarrow> ptr list option" where
  "computeChildren E B =
     searchChildren (outCFGEdges (be_cpg E)) (\<lambda>m. isCCPGNode (be_util E) (cpgH (b_g B) m))"

interpretation childCache: cached_query findChildrenCache
  "\<lambda>n cs B. B\<lparr>findChildrenCache := (findChildrenCache B)(n \<mapsto> cs)\<rparr>" "computeChildren E" "findChildren E" for E
  by unfold_locales (auto simp: computeChildren_def findChildren_def split: option.splits)

subsection \<open>The skeleton of the graph\<close>

text \<open>What the indexes and the identities of nodes and functions depend on.\<close>

definition node_key :: "ccpg_node \<Rightarrow> nat \<times> ptr \<times> api_type" where
  "node_key n = (nd_id n, nd_cpg n, nd_type n)"

definition skel :: "ccpg \<Rightarrow> _" where
  "skel g = (cpgH g, \<lambda>p. node_key (nodeH g p), \<lambda>f. fn_funcNode (funH g f), nextPtr g, g_nodes g, g_functions g,
     g_typeToNodeSet g, IDToCCPGNode g, IDToFunction g, cpgNodeToCCPGNodeMap g)"

lemma skel_updNode: "(\<And>n. node_key (h n) = node_key n) \<Longrightarrow> skel (updNode p h g) = skel g"
  by (auto simp: skel_def updNode_def)

lemma skel_updFun: "(\<And>f. fn_funcNode (h f) = fn_funcNode f) \<Longrightarrow> skel (updFun p h g) = skel g"
  by (auto simp: skel_def updFun_def)

lemma skel_createCCPGEdge [simp]: "skel (createCCPGEdge a b ty g) = skel g"
  by (auto simp: skel_def createCCPGEdge_def Let_def node_key_def fun_eq_iff)

lemma skel_addNodeByLoc [simp]: "skel (addNodeByLoc l p g) = skel g"
  by (simp add: skel_def addNodeByLoc_def)

lemma skel_handleContext [simp]: "skel (handleContext c f g) = skel g"
  by (auto simp: skel_def handleContext_def Let_def fun_eq_iff)

lemma skel_setFunction [simp]: "skel (updNode p (\<lambda>n. n\<lparr>nd_function := f\<rparr>) g) = skel g"
  and skel_setLoc [simp]: "skel (updNode p (\<lambda>n. n\<lparr>nd_loc := l\<rparr>) g) = skel g"
  and skel_setCallInst [simp]: "skel (updNode p (\<lambda>n. n\<lparr>nd_callInst := ci\<rparr>) g) = skel g"
  by (rule skel_updNode, simp add: node_key_def)+

lemma skel_addEdge [simp]: "skel (updFun f (\<lambda>fn. fn\<lparr>fn_edges := h fn\<rparr>) g) = skel g"
  and skel_addNode [simp]: "skel (updFun f (fn_addNode ty n) g) = skel g"
  and skel_addLoc [simp]: "skel (updFun f (\<lambda>fn. fn\<lparr>fn_locs := h2 fn\<rparr>) g) = skel g"
  and skel_setLLVM [simp]: "skel (updFun f (\<lambda>fn. fn\<lparr>fn_llvm := lf\<rparr>) g) = skel g"
  and skel_setFork [simp]: "skel (updFun f (\<lambda>fn. fn\<lparr>forkPotential := b\<rparr>) g) = skel g"
  by (rule skel_updFun, simp add: fn_addNode_def)+

definition ccpg_ok :: "ccpg \<Rightarrow> bool" where
  "ccpg_ok g \<longleftrightarrow> 0 < nextPtr g \<and> distinct (g_nodes g) \<and>
     (\<forall>p \<in> set (g_nodes g). 0 < p \<and> p < nextPtr g \<and> nd_cpg (nodeH g p) \<noteq> null \<and>
        1 \<le> nd_id (nodeH g p) \<and> nd_id (nodeH g p) \<le> length (g_nodes g)) \<and>
     (\<forall>i p. IDToCCPGNode g i = Some p \<longleftrightarrow> p \<in> set (g_nodes g) \<and> nd_id (nodeH g p) = i) \<and>
     (\<forall>c p. cpgNodeToCCPGNodeMap g c = Some p \<longleftrightarrow> p \<in> set (g_nodes g) \<and> nd_cpg (nodeH g p) = c) \<and>
     (\<forall>ty. set (g_typeToNodeSet g ty) = {p \<in> set (g_nodes g). nd_type (nodeH g p) = ty}) \<and>
     (\<forall>f \<in> set (g_functions g). 0 < f \<and> f < nextPtr g \<and> fn_funcNode (funH g f) \<in> set (g_nodes g)) \<and>
     (\<forall>i f. IDToFunction g i = Some f \<longleftrightarrow> f \<in> set (g_functions g) \<and> nd_id (nodeH g (fn_funcNode (funH g f))) = i)"

lemma node_key_eq: "node_key m = node_key n \<longleftrightarrow> nd_id m = nd_id n \<and> nd_cpg m = nd_cpg n \<and> nd_type m = nd_type n"
  by (auto simp: node_key_def)

lemma skel_eqD:
  assumes "skel g = skel g'"
  shows "cpgH g = cpgH g'" "node_key (nodeH g p) = node_key (nodeH g' p)"
    "nd_id (nodeH g p) = nd_id (nodeH g' p)" "nd_cpg (nodeH g p) = nd_cpg (nodeH g' p)"
    "nd_type (nodeH g p) = nd_type (nodeH g' p)" "fn_funcNode (funH g f) = fn_funcNode (funH g' f)"
    "nextPtr g = nextPtr g'" "g_nodes g = g_nodes g'" "g_functions g = g_functions g'"
    "g_typeToNodeSet g = g_typeToNodeSet g'" "IDToCCPGNode g = IDToCCPGNode g'"
    "IDToFunction g = IDToFunction g'" "cpgNodeToCCPGNodeMap g = cpgNodeToCCPGNodeMap g'"
  using assms by (auto simp: skel_def fun_eq_iff node_key_eq)

lemma ccpg_ok_skel:
  assumes "skel g = skel g'"
  shows "ccpg_ok g = ccpg_ok g'"
  unfolding ccpg_ok_def skel_eqD[OF assms] ..

text \<open>An allocation keeps everything that is already there.\<close>

definition grows :: "ccpg \<Rightarrow> ccpg \<Rightarrow> bool" where
  "grows g g' \<longleftrightarrow> cpgH g' = cpgH g \<and> nextPtr g \<le> nextPtr g' \<and> set (g_nodes g) \<subseteq> set (g_nodes g') \<and>
     set (g_functions g) \<subseteq> set (g_functions g') \<and>
     (\<forall>p < nextPtr g. node_key (nodeH g' p) = node_key (nodeH g p)) \<and>
     (\<forall>f < nextPtr g. fn_funcNode (funH g' f) = fn_funcNode (funH g f))"

lemma grows_refl [simp]: "grows g g" by (simp add: grows_def)

lemma grows_trans: "grows g h \<Longrightarrow> grows h k \<Longrightarrow> grows g k"
  unfolding grows_def by (auto dest: order_trans less_le_trans)

lemma grows_skel:
  assumes "skel g = skel g'"
  shows "grows g g'"
  unfolding grows_def skel_eqD[OF assms] by simp

lemma ccpg_okD:
  assumes "ccpg_ok g"
  shows "0 < nextPtr g" "distinct (g_nodes g)"
    "p \<in> set (g_nodes g) \<Longrightarrow> 0 < p \<and> p < nextPtr g \<and> nd_cpg (nodeH g p) \<noteq> null \<and>
        1 \<le> nd_id (nodeH g p) \<and> nd_id (nodeH g p) \<le> length (g_nodes g)"
    "IDToCCPGNode g i = Some p \<longleftrightarrow> p \<in> set (g_nodes g) \<and> nd_id (nodeH g p) = i"
    "cpgNodeToCCPGNodeMap g c = Some p \<longleftrightarrow> p \<in> set (g_nodes g) \<and> nd_cpg (nodeH g p) = c"
    "set (g_typeToNodeSet g ty) = {p \<in> set (g_nodes g). nd_type (nodeH g p) = ty}"
    "f \<in> set (g_functions g) \<Longrightarrow> 0 < f \<and> f < nextPtr g \<and> fn_funcNode (funH g f) \<in> set (g_nodes g)"
    "IDToFunction g i = Some f \<longleftrightarrow> f \<in> set (g_functions g) \<and> nd_id (nodeH g (fn_funcNode (funH g f))) = i"
proof -
  note A = assms[unfolded ccpg_ok_def]
  note B = A[THEN conjunct2, THEN conjunct2] 
  note C = B[THEN conjunct2, THEN conjunct2]
  note D = C[THEN conjunct2, THEN conjunct2]
  show "0 < nextPtr g" "distinct (g_nodes g)" using A by simp_all
  show "p \<in> set (g_nodes g) \<Longrightarrow> 0 < p \<and> p < nextPtr g \<and> nd_cpg (nodeH g p) \<noteq> null \<and>
      1 \<le> nd_id (nodeH g p) \<and> nd_id (nodeH g p) \<le> length (g_nodes g)"
    by (rule bspec[OF B[THEN conjunct1]])
  show "IDToCCPGNode g i = Some p \<longleftrightarrow> p \<in> set (g_nodes g) \<and> nd_id (nodeH g p) = i"
    by (rule B[THEN conjunct2, THEN conjunct1, THEN spec, THEN spec])
  show "cpgNodeToCCPGNodeMap g c = Some p \<longleftrightarrow> p \<in> set (g_nodes g) \<and> nd_cpg (nodeH g p) = c"
    by (rule C[THEN conjunct1, THEN spec, THEN spec])
  show "set (g_typeToNodeSet g ty) = {p \<in> set (g_nodes g). nd_type (nodeH g p) = ty}"
    by (rule C[THEN conjunct2, THEN conjunct1, THEN spec])
  show "f \<in> set (g_functions g) \<Longrightarrow> 0 < f \<and> f < nextPtr g \<and> fn_funcNode (funH g f) \<in> set (g_nodes g)"
    by (rule bspec[OF D[THEN conjunct1]])
  show "IDToFunction g i = Some f \<longleftrightarrow> f \<in> set (g_functions g) \<and> nd_id (nodeH g (fn_funcNode (funH g f))) = i"
    by (rule D[THEN conjunct2, THEN spec, THEN spec])
qed

text \<open>What the fields of a fresh node are; everything else is as before.\<close>

lemma createCCPGNode_new:
  assumes "n \<noteq> null" "cpgNodeToCCPGNodeMap g n = None" "createCCPGNode u n g = (p, g')"
  shows "p = nextPtr g" "g_nodes g' = List.insert p (g_nodes g)" "nextPtr g' = Suc p" "funH g' = funH g"
    "cpgH g' = cpgH g" "g_functions g' = g_functions g" "IDToFunction g' = IDToFunction g"
    "IDToCCPGNode g' = (IDToCCPGNode g)(Suc (length (g_nodes g)) \<mapsto> p)"
    "cpgNodeToCCPGNodeMap g' = (cpgNodeToCCPGNodeMap g)(n \<mapsto> p)"
    "g_typeToNodeSet g' = (g_typeToNodeSet g)(getType u (cpgH g n) := List.insert p (g_typeToNodeSet g (getType u (cpgH g n))))"
    "nd_id (nodeH g' p) = Suc (length (g_nodes g))" "nd_cpg (nodeH g' p) = n" "nd_type (nodeH g' p) = getType u (cpgH g n)"
    "nd_in (nodeH g' p) = []" "nd_out (nodeH g' p) = []"
    "q \<noteq> p \<Longrightarrow> nodeH g' q = nodeH g q"
  using assms by (auto simp: createCCPGNode_def addNode_def Let_def)

lemma createCCPGNode_ok:
  assumes ok: "ccpg_ok g" and n: "n \<noteq> null" and c: "createCCPGNode u n g = (p, g')"
  shows "ccpg_ok g' \<and> grows g g' \<and> p \<in> set (g_nodes g') \<and> nd_cpg (nodeH g' p) = n \<and> funH g' = funH g \<and>
    g_functions g' = g_functions g \<and> set (g_nodes g') = insert p (set (g_nodes g)) \<and> (\<forall>q. q \<noteq> p \<longrightarrow> nodeH g' q = nodeH g q)"
proof (cases "cpgNodeToCCPGNodeMap g n")
  case (Some q)
  then have "p = q" "g' = g" using c n by (simp_all add: createCCPGNode_def)
  with ccpg_okD(5)[OF ok, of n q] Some ok show ?thesis by auto
next
  case None
  note N = createCCPGNode_new[OF n None c]
  have fresh: "p \<notin> set (g_nodes g)" using ccpg_okD(3)[OF ok, of p] N(1) by auto
  have old: "q \<in> set (g_nodes g) \<Longrightarrow> nodeH g' q = nodeH g q" for q using fresh N(16) by metis
  have nodes: "set (g_nodes g') = insert p (set (g_nodes g))" "length (g_nodes g') = Suc (length (g_nodes g))"
    "distinct (g_nodes g')"
    using N(2) fresh ccpg_okD(2)[OF ok] by (auto simp: List.insert_def)
  have id: "q \<in> set (g_nodes g) \<Longrightarrow> nd_id (nodeH g q) \<noteq> Suc (length (g_nodes g))" for q
    using ccpg_okD(3)[OF ok, of q] by auto
  have cp: "q \<in> set (g_nodes g) \<Longrightarrow> nd_cpg (nodeH g q) \<noteq> n" for q
    using ccpg_okD(5)[OF ok, of n q] None by auto
  have "ccpg_ok g'"
    unfolding ccpg_ok_def
  proof (intro conjI allI ballI)
    show "0 < nextPtr g'" "distinct (g_nodes g')" using N(3) nodes(3) by simp_all
  next
    fix q assume q: "q \<in> set (g_nodes g')"
    show "0 < q" "q < nextPtr g'" "nd_cpg (nodeH g' q) \<noteq> null" "1 \<le> nd_id (nodeH g' q)"
      "nd_id (nodeH g' q) \<le> length (g_nodes g')"
      using q nodes N(1,3,11,12) n old ccpg_okD(1)[OF ok] ccpg_okD(3)[OF ok, of q]
      by (cases "q = p"; force)+
  next
    fix i q
    show "(IDToCCPGNode g' i = Some q) = (q \<in> set (g_nodes g') \<and> nd_id (nodeH g' q) = i)"
      using ccpg_okD(4)[OF ok, of i q] nodes(1) N(8,11) old[of q] id[of q] fresh by auto
  next
    fix c q
    show "(cpgNodeToCCPGNodeMap g' c = Some q) = (q \<in> set (g_nodes g') \<and> nd_cpg (nodeH g' q) = c)"
      using ccpg_okD(5)[OF ok, of c q] nodes(1) N(9,12) old[of q] cp[of q] fresh by auto
  next
    fix ty
    show "set (g_typeToNodeSet g' ty) = {q \<in> set (g_nodes g'). nd_type (nodeH g' q) = ty}"
      using ccpg_okD(6)[OF ok, of ty] nodes(1) N(10,13) old fresh by auto
  next
    fix f assume "f \<in> set (g_functions g')"
    with ccpg_okD(7)[OF ok, of f] N(1,3,4,6) nodes(1)
    show "0 < f" "f < nextPtr g'" "fn_funcNode (funH g' f) \<in> set (g_nodes g')" by auto
  next
    fix i f
    show "(IDToFunction g' i = Some f) = (f \<in> set (g_functions g') \<and> nd_id (nodeH g' (fn_funcNode (funH g' f))) = i)"
      using ccpg_okD(8)[OF ok, of i f] ccpg_okD(7)[OF ok, of f] N(4,6,7) old[of "fn_funcNode (funH g f)"] by auto
  qed
  moreover have "grows g g'"
    using N(1-6,16) nodes(1) by (auto simp: grows_def)
  ultimately show ?thesis using N nodes(1) by auto
qed

lemma openFunction_ok:
  assumes ok: "ccpg_ok g" and n: "n \<in> set (g_nodes g)" and none: "getFunctionByCCPGNode g n = null"
    and op: "openFunction n g = (f, g')"
  shows "ccpg_ok g' \<and> grows g g' \<and> f = nextPtr g \<and> set (g_functions g') = insert f (set (g_functions g)) \<and>
    g_nodes g' = g_nodes g \<and> funH g' = (funH g)(f := newFunction n) \<and> node_key (nodeH g' p) = node_key (nodeH g p) \<and>
    IDToFunction g' = (IDToFunction g)(nd_id (nodeH g n) \<mapsto> f)"
proof -
  let ?h = "addFunction (nextPtr g) (g\<lparr>funH := (funH g)(nextPtr g := newFunction n), nextPtr := Suc (nextPtr g)\<rparr>)"
  have f: "f = nextPtr g" and g': "g' = updNode n (\<lambda>m. m\<lparr>nd_function := f\<rparr>) ?h"
    using op by (auto simp: openFunction_def Let_def)
  have F: "g_functions ?h = List.insert f (g_functions g)" "funH ?h = (funH g)(f := newFunction n)"
    "IDToFunction ?h = (IDToFunction g)(nd_id (nodeH g n) \<mapsto> f)" "g_nodes ?h = g_nodes g" "nodeH ?h = nodeH g"
    "nextPtr ?h = Suc f" "cpgH ?h = cpgH g" "g_typeToNodeSet ?h = g_typeToNodeSet g"
    "IDToCCPGNode ?h = IDToCCPGNode g" "cpgNodeToCCPGNodeMap ?h = cpgNodeToCCPGNodeMap g"
    by (simp_all add: addFunction_def f newFunction_def)
  have S: "skel g' = skel ?h" unfolding g' by simp
  have new: "k \<in> set (g_functions g) \<Longrightarrow> nd_id (nodeH g (fn_funcNode (funH g k))) \<noteq> nd_id (nodeH g n)" for k
  proof
    assume k: "k \<in> set (g_functions g)" "nd_id (nodeH g (fn_funcNode (funH g k))) = nd_id (nodeH g n)"
    then have "IDToFunction g (nd_id (nodeH g n)) = Some k" using ccpg_okD(8)[OF ok] by blast
    with none ccpg_okD(7)[OF ok k(1)] show False by (simp add: getFunctionByCCPGNode_def)
  qed
  have fresh: "f \<notin> set (g_functions g)" using ccpg_okD(7)[OF ok, of f] f by auto
  have "ccpg_ok ?h"
    unfolding ccpg_ok_def F
  proof (intro conjI allI ballI)
    fix i k
    show "(((IDToFunction g)(nd_id (nodeH g n) \<mapsto> f)) i = Some k) =
        (k \<in> set (List.insert f (g_functions g)) \<and> nd_id (nodeH g (fn_funcNode (((funH g)(f := newFunction n)) k))) = i)"
      using ccpg_okD(8)[OF ok, of i k] new[of k] fresh by (auto simp: newFunction_def)
  next
    fix k assume "k \<in> set (List.insert f (g_functions g))"
    then show "0 < k" "k < Suc f" "fn_funcNode (((funH g)(f := newFunction n)) k) \<in> set (g_nodes g)"
      using ccpg_okD(1)[OF ok] ccpg_okD(7)[OF ok, of k] f n by (auto simp: newFunction_def)
  qed (use ccpg_okD[OF ok] f in \<open>auto simp: less_Suc_eq\<close>)
  then have "ccpg_ok g'" using ccpg_ok_skel[OF S] by simp
  moreover have "grows g ?h" by (auto simp: grows_def F f)
  then have "grows g g'" using grows_skel[OF S[symmetric]] by (rule grows_trans)
  moreover have "funH g' = funH ?h" by (simp add: g' updNode_def)
  ultimately show ?thesis using F f skel_eqD[OF S] by (simp add: g' updNode_def)
qed

end
