(* ===== verification/FunctionFacts.thy ===== *)
theory FunctionFacts
  imports BuildFacts
begin

text \<open>
  The nodes and edges of a created function: exactly the concurrency-relevant nodes its
  method reaches by control flow, joined by the edges to their children.
\<close>

subsection \<open>One node\<close>

lemma cpg_inj:
  assumes "ccpg_ok g" "p \<in> set (g_nodes g)" "q \<in> set (g_nodes g)" "nd_cpg (nodeH g p) = nd_cpg (nodeH g q)"
  shows "p = q"
  using ccpg_okD(5)[OF assms(1)] assms(2-4) by (metis option.inject)

lemma grows_cpg:
  assumes "ccpg_ok g" "grows g g'" "p \<in> set (g_nodes g)"
  shows "nd_cpg (nodeH g' p) = nd_cpg (nodeH g p)" "nd_type (nodeH g' p) = nd_type (nodeH g p)"
    "nd_id (nodeH g' p) = nd_id (nodeH g p)" "p \<in> set (g_nodes g')"
  using ccpg_okD(3)[OF assms(1,3)] assms(2,3) by (auto simp: grows_def node_key_eq)

lemma grows_image:
  assumes "ccpg_ok g" "grows g g'" "S \<subseteq> set (g_nodes g)"
  shows "(\<lambda>p. nd_cpg (nodeH g' p)) ` S = (\<lambda>p. nd_cpg (nodeH g p)) ` S"
  using grows_cpg(1)[OF assms(1,2)] assms(3) by (intro image_cong) auto

lemma childNodeOf_ok:
  assumes "ccpg_ok g" "child \<noteq> null" "childNodeOf E f child g = (c, g')"
  shows "ccpg_ok g' \<and> grows g g' \<and> c \<in> set (g_nodes g') \<and> nd_cpg (nodeH g' c) = child \<and> funH g' = funH g \<and>
    g_functions g' = g_functions g \<and> set (g_nodes g') = insert c (set (g_nodes g)) \<and> (\<forall>q \<in> set (g_nodes g). nd_out (nodeH g' q) = nd_out (nodeH g q))"
proof (cases "cpgNodeToCCPGNodeMap g child")
  case (Some q)
  with assms ccpg_okD(5)[OF assms(1), of child q] show ?thesis by (auto simp: childNodeOf_def)
next
  case None
  obtain p h where h: "createCCPGNode (be_util E) child g = (p, h)" by fastforce
  then have c: "c = p" "g' = updNode p (\<lambda>n. n\<lparr>nd_function := f\<rparr>) h" using assms(3) None by (auto simp: childNodeOf_def)
  have S: "skel h = skel g'" unfolding c by simp
  note K = createCCPGNode_ok[OF assms(1,2) h]
  have "p \<notin> set (g_nodes g)" using ccpg_okD(3)[OF assms(1), of p] createCCPGNode_new(1)[OF assms(2) None h] by auto
  moreover have "ccpg_ok g'" "grows g g'" using K ccpg_ok_skel[OF S] grows_trans[OF _ grows_skel[OF S]] by blast+
  moreover have "funH g' = funH h" "\<forall>q. nd_out (nodeH g' q) = nd_out (nodeH h q)" by (simp_all add: c updNode_def)
  ultimately show ?thesis using K skel_eqD(4,8,9)[OF S] by (simp add: c(1)) metis
qed

text \<open>The edges a node gets to its children, as pairs of code nodes.\<close>

definition edge_cpg :: "ccpg \<Rightarrow> ccpg_edge \<Rightarrow> ptr \<times> ptr" where
  "edge_cpg g e = (nd_cpg (nodeH g (e_src e)), nd_cpg (nodeH g (e_dst e)))"

lemma createCCPGEdge_fun [simp]: "funH (createCCPGEdge a b ty g) = funH g"
  by (simp add: createCCPGEdge_def Let_def)

definition stepFacts :: "ccpg \<Rightarrow> ptr list \<Rightarrow> ptr \<Rightarrow> ptr \<Rightarrow> ptr list \<Rightarrow> ccpg \<times> ptr list \<times> ptr list \<Rightarrow> bool" where
  "stepFacts g vis f node cs = (\<lambda>(g', vis', new).
     ccpg_ok g' \<and> grows g g' \<and> g_functions g' = g_functions g \<and> vis' = vis @ new \<and> distinct vis' \<and> set (g_nodes g') = set (g_nodes g) \<union> set new \<and>
     set vis' \<subseteq> set (g_nodes g') \<and>
     (\<lambda>p. nd_cpg (nodeH g' p)) ` set vis' = (\<lambda>p. nd_cpg (nodeH g p)) ` set vis \<union> set cs \<and>
     (\<forall>k. k \<noteq> f \<longrightarrow> funH g' k = funH g k) \<and>
     (\<exists>es. funH g' f = (funH g f)\<lparr>fn_edges := fn_edges (funH g f) @ es\<rparr> \<and>
        (\<forall>e \<in> set es. e_src e = node \<and> e_dst e \<in> set vis' \<and> e_type e = ORDER) \<and>
        (\<lambda>e. nd_cpg (nodeH g' (e_dst e))) ` set es = set cs))"

lemma childStep_facts:
  assumes "stepFacts g vis f node cs st" "child \<noteq> null"
  shows "stepFacts g vis f node (cs @ [child]) (childStep E f node st child)"
proof -
  obtain g1 vis1 new1 where st: "st = (g1, vis1, new1)" by (cases st)
  obtain c g2 where c: "childNodeOf E f child g1 = (c, g2)" by fastforce
  let ?g3 = "createCCPGEdge node c ORDER g2"
  let ?e = "\<lparr>e_src = node, e_dst = c, e_type = ORDER\<rparr>"
  let ?g4 = "updFun f (\<lambda>fn. fn\<lparr>fn_edges := fn_edges fn @ [?e]\<rparr>) ?g3"
  have ok1: "ccpg_ok g1" and gr1: "grows g g1" and vis1: "vis1 = vis @ new1" "distinct vis1" "set vis1 \<subseteq> set (g_nodes g1)"
    and fs1: "g_functions g1 = g_functions g" and nodes1: "set (g_nodes g1) = set (g_nodes g) \<union> set new1"
    and img1: "(\<lambda>p. nd_cpg (nodeH g1 p)) ` set vis1 = (\<lambda>p. nd_cpg (nodeH g p)) ` set vis \<union> set cs"
    and oth1: "\<forall>k. k \<noteq> f \<longrightarrow> funH g1 k = funH g k"
    using assms(1) by (auto simp: stepFacts_def st)
  from assms(1) obtain es where es: "funH g1 f = (funH g f)\<lparr>fn_edges := fn_edges (funH g f) @ es\<rparr>"
    "\<forall>e \<in> set es. e_src e = node \<and> e_dst e \<in> set vis1 \<and> e_type e = ORDER"
    "(\<lambda>e. nd_cpg (nodeH g1 (e_dst e))) ` set es = set cs"
    by (auto simp: stepFacts_def st)
  note C = childNodeOf_ok[OF ok1 assms(2) c]
  have S: "skel g2 = skel ?g4" by simp
  have ok4: "ccpg_ok ?g4" using C ccpg_ok_skel[OF S] by blast
  have gr14: "grows g1 ?g4" using C grows_trans[OF _ grows_skel[OF S]] by blast
  define vis4 where "vis4 = (if c \<in> set vis1 then vis1 else vis1 @ [c])"
  define new4 where "new4 = (if c \<in> set vis1 then new1 else new1 @ [c])"
  have r: "childStep E f node st child = (?g4, vis4, new4)"
    by (simp add: childStep_def st c vis4_def new4_def)
  have v4: "set vis4 = insert c (set vis1)" "vis4 = vis @ new4" "distinct vis4"
    using vis1 by (auto simp: vis4_def new4_def)
  have nodes4: "set (g_nodes ?g4) = insert c (set (g_nodes g1))" using C skel_eqD(8)[OF S] by simp
  have fs4: "g_functions ?g4 = g_functions g" using C skel_eqD(9)[OF S] fs1 by simp
  have cpg4: "nd_cpg (nodeH ?g4 c) = child" using C skel_eqD(4)[OF S, of c] by simp
  have keep: "(\<lambda>p. nd_cpg (nodeH ?g4 p)) ` set vis1 = (\<lambda>p. nd_cpg (nodeH g1 p)) ` set vis1"
    by (rule grows_image[OF ok1 gr14 vis1(3)])
  have f4: "funH ?g4 k = (if k = f then (funH g1 f)\<lparr>fn_edges := fn_edges (funH g1 f) @ [?e]\<rparr> else funH g1 k)" for k
    using C by (simp add: updFun_def)
  have imgE: "(\<lambda>e. nd_cpg (nodeH ?g4 (e_dst e))) ` set es = set cs"
    using es(2,3) grows_cpg(1)[OF ok1 gr14] vis1(3) by (metis (no_types, lifting) image_cong subsetD)
  have "\<exists>es. funH ?g4 f = (funH g f)\<lparr>fn_edges := fn_edges (funH g f) @ es\<rparr> \<and>
      (\<forall>e \<in> set es. e_src e = node \<and> e_dst e \<in> set vis4 \<and> e_type e = ORDER) \<and>
      (\<lambda>e. nd_cpg (nodeH ?g4 (e_dst e))) ` set es = set (cs @ [child])"
    using es(1,2) imgE cpg4 v4(1) by (intro exI[of _ "es @ [?e]"]) (auto simp: f4)
  moreover have "set (g_nodes ?g4) = set (g_nodes g) \<union> set new4"
    using nodes4 nodes1 vis1 by (auto simp: new4_def)
  moreover have "set vis4 \<subseteq> set (g_nodes ?g4)" using v4(1) vis1(3) nodes4 by auto
  moreover have "(\<lambda>p. nd_cpg (nodeH ?g4 p)) ` set vis4 = (\<lambda>p. nd_cpg (nodeH g p)) ` set vis \<union> set (cs @ [child])"
    using v4(1) keep img1 cpg4 by auto
  ultimately show ?thesis
    using ok4 grows_trans[OF gr1 gr14] fs4 v4(2,3) oth1 f4 unfolding r stepFacts_def by simp
qed

lemma childSteps_facts:
  assumes "ccpg_ok g" "distinct vis" "set vis \<subseteq> set (g_nodes g)" "null \<notin> set cs"
  shows "stepFacts g vis f node cs (foldl (childStep E f node) (g, vis, []) cs)"
  using assms(4)
proof (induction cs rule: rev_induct)
  case Nil
  have "funH g f = (funH g f)\<lparr>fn_edges := fn_edges (funH g f) @ []\<rparr>" by simp
  with assms show ?case by (auto simp: stepFacts_def intro!: exI[of _ "[]"])
next
  case (snoc c cs)
  then show ?case using childStep_facts[of g vis f node cs _ c E] by simp
qed

subsection \<open>The whole function\<close>

definition kids :: "build_env \<Rightarrow> cpg_heap \<Rightarrow> ptr \<Rightarrow> ptr set" where
  "kids E H = children_of (outCFGEdges (be_cpg E)) (\<lambda>m. isCCPGNode (be_util E) (H m))"

definition cfg_ok :: "build_env \<Rightarrow> bool" where
  "cfg_ok E \<longleftrightarrow> (\<forall>n. null \<notin> set (outCFGEdges (be_cpg E) n))"

lemma kids_nonnull: "cfg_ok E \<Longrightarrow> null \<notin> kids E H m"
proof
  assume "cfg_ok E" "null \<in> kids E H m"
  then have "through (outCFGEdges (be_cpg E)) (\<lambda>m. isCCPGNode (be_util E) (H m)) m null"
    by (simp add: kids_def children_of_def)
  then show False using \<open>cfg_ok E\<close> by cases (auto simp: cfg_ok_def)
qed

lemma cache_ok_cong:
  assumes "findChildrenCache B = findChildrenCache C" "cpgH (b_g B) = cpgH (b_g C)"
  shows "childCache.cache_ok E B = childCache.cache_ok E C"
  using assms by (simp add: childCache.cache_ok_def computeChildren_def)

lemma findChildren_facts:
  assumes "childCache.cache_ok E B" "findChildren E n B = Some (cs, B')"
  shows "distinct cs \<and> set cs = kids E (cpgH (b_g B)) n \<and> b_g B' = b_g B \<and> childCache.cache_ok E B' \<and>
    entryFunctions B' = entryFunctions B \<and> nextCpg B' = nextCpg B \<and> syntheticEntryNodes B' = syntheticEntryNodes B"
proof -
  have "computeChildren E B n = Some cs"
    using childCache.query_correct[OF assms(1), of n] assms(2) by simp
  then have "distinct cs \<and> set cs = kids E (cpgH (b_g B)) n"
    unfolding computeChildren_def kids_def by (rule searchChildren_exact)
  with childCache.query_keeps[OF assms] assms(2) show ?thesis
    by (auto simp: findChildren_def split: option.splits)
qed

definition fnFacts :: "build_env \<Rightarrow> cpg_heap \<Rightarrow> ptr \<Rightarrow> ptr \<Rightarrow> builder \<times> ptr list \<Rightarrow> ptr list \<Rightarrow> bool" where
  "fnFacts E H f fnode = (\<lambda>st q. let B = fst st; vis = snd st; g = b_g B; fn = funH g f; cpg = (\<lambda>p. nd_cpg (nodeH g p)) in
     ccpg_ok g \<and> cpgH g = H \<and> childCache.cache_ok E B \<and> fnode \<in> set vis \<and>
     distinct vis \<and> distinct q \<and> set q \<subseteq> set vis \<and> set vis \<subseteq> set (g_nodes g) \<and> set (fn_nodes fn) = set vis - set q \<and>
     (\<forall>p \<in> set vis. (\<lambda>a b. b \<in> kids E H a)\<^sup>*\<^sup>* (cpg fnode) (cpg p)) \<and>
     (\<forall>p \<in> set (fn_nodes fn). kids E H (cpg p) \<subseteq> cpg ` set vis) \<and>
     edge_cpg g ` set (fn_edges fn) = {(cpg p, c) | p c. p \<in> set (fn_nodes fn) \<and> c \<in> kids E H (cpg p)} \<and>
     (\<forall>e \<in> set (fn_edges fn). e_src e \<in> set (fn_nodes fn) \<and> e_dst e \<in> set vis \<and> e_type e = ORDER) \<and>
     (\<forall>ty. set (fn_typeToNodeSet fn ty) = {p \<in> set (fn_nodes fn). nd_type (nodeH g p) = ty}))"

text \<open>What a visit does besides: other functions, and everything already allocated, stay.\<close>

definition fnFrame :: "ptr \<Rightarrow> builder \<Rightarrow> builder \<Rightarrow> bool" where
  "fnFrame f B B' \<longleftrightarrow> grows (b_g B) (b_g B') \<and> g_functions (b_g B') = g_functions (b_g B) \<and> (\<forall>k. k \<noteq> f \<longrightarrow> funH (b_g B') k = funH (b_g B) k) \<and>
     (\<exists>ns es ts. funH (b_g B') f = (funH (b_g B) f)\<lparr>fn_nodes := ns, fn_edges := es, fn_typeToNodeSet := ts\<rparr>) \<and>
     entryFunctions B' = entryFunctions B \<and> nextCpg B' = nextCpg B \<and> syntheticEntryNodes B' = syntheticEntryNodes B"

lemma fnVisit_step:
  assumes cfg: "cfg_ok E" and I: "fnFacts E H f fnode st (a # r)" and v: "fnVisit E f a st = Some (new, st')"
  shows "fnFacts E H f fnode st' (r @ new) \<and> fnFrame f (fst st) (fst st') \<and> snd st' = snd st @ new \<and>
    (\<lambda>p. nd_cpg (nodeH (b_g (fst st')) p)) ` set (snd st') =
      (\<lambda>p. nd_cpg (nodeH (b_g (fst st)) p)) ` set (snd st) \<union> kids E H (nd_cpg (nodeH (b_g (fst st)) a))"
proof -
  obtain B vis where st: "st = (B, vis)" by fastforce
  define g where "g = b_g B"
  define g1 where "g1 = updFun f (fn_addNode (nd_type (nodeH g a)) a) g"
  have S1: "skel g1 = skel g" unfolding g1_def by simp
  have I': "ccpg_ok g" "cpgH g = H" "childCache.cache_ok E B" "fnode \<in> set vis"
      "distinct vis" "distinct (a # r)" "set (a # r) \<subseteq> set vis" "set vis \<subseteq> set (g_nodes g)"
      "set (fn_nodes (funH g f)) = set vis - set (a # r)"
    and reach: "\<forall>p \<in> set vis. (\<lambda>a b. b \<in> kids E H a)\<^sup>*\<^sup>* (nd_cpg (nodeH g fnode)) (nd_cpg (nodeH g p))"
    and closed: "\<forall>p \<in> set (fn_nodes (funH g f)). kids E H (nd_cpg (nodeH g p)) \<subseteq> (\<lambda>p. nd_cpg (nodeH g p)) ` set vis"
    and edges: "edge_cpg g ` set (fn_edges (funH g f)) =
        {(nd_cpg (nodeH g p), c) | p c. p \<in> set (fn_nodes (funH g f)) \<and> c \<in> kids E H (nd_cpg (nodeH g p))}"
    and ends: "\<forall>e \<in> set (fn_edges (funH g f)). e_src e \<in> set (fn_nodes (funH g f)) \<and> e_dst e \<in> set vis \<and> e_type e = ORDER"
    and types: "\<And>ty. set (fn_typeToNodeSet (funH g f) ty) = {p \<in> set (fn_nodes (funH g f)). nd_type (nodeH g p) = ty}"
    using I unfolding fnFacts_def Let_def st g_def by auto
  obtain cs B1 where fc: "findChildren E (nd_cpg (nodeH g1 a)) (B\<lparr>b_g := g1\<rparr>) = Some (cs, B1)"
    using v by (auto simp: fnVisit_def st Let_def g1_def g_def split: option.splits)
  have co: "childCache.cache_ok E (B\<lparr>b_g := g1\<rparr>)"
    using cache_ok_cong[of "B\<lparr>b_g := g1\<rparr>" B E] I'(3) skel_eqD(1)[OF S1] by (simp add: g_def)
  note F = findChildren_facts[OF co fc]
  have cs: "set cs = kids E H (nd_cpg (nodeH g a))" and b1: "b_g B1 = g1" and co1: "childCache.cache_ok E B1"
    using F skel_eqD(1)[OF S1] skel_eqD(4)[OF S1, of a] I'(2) by simp_all
  have ok1: "ccpg_ok g1" using I'(1) ccpg_ok_skel[OF S1] by simp
  obtain g2 vis2 new2 where fold: "foldl (childStep E f a) (g1, vis, []) cs = (g2, vis2, new2)" by (cases "foldl (childStep E f a) (g1, vis, []) cs")
  have st': "st' = (B1\<lparr>b_g := g2\<rparr>, vis2)" "new = new2"
    using v fc b1 fold by (auto simp: fnVisit_def st Let_def g1_def g_def split: option.splits)
  have sub1: "set vis \<subseteq> set (g_nodes g1)" using I'(8) skel_eqD(8)[OF S1] by simp
  have nn: "null \<notin> set cs" using kids_nonnull[OF cfg] cs by simp
  note T = childSteps_facts[OF ok1 I'(5) sub1 nn, of f a E, unfolded fold stepFacts_def prod.case]
  have T1: "ccpg_ok g2" "grows g1 g2" "vis2 = vis @ new" "distinct vis2" "set (g_nodes g2) = set (g_nodes g1) \<union> set new"
    "set vis2 \<subseteq> set (g_nodes g2)" "g_functions g2 = g_functions g1"
    "(\<lambda>p. nd_cpg (nodeH g2 p)) ` set vis2 = (\<lambda>p. nd_cpg (nodeH g1 p)) ` set vis \<union> set cs"
    "\<forall>k. k \<noteq> f \<longrightarrow> funH g2 k = funH g1 k"
    unfolding st'(2) using T by - (elim conjE, assumption)+
  from T obtain es where es: "funH g2 f = (funH g1 f)\<lparr>fn_edges := fn_edges (funH g1 f) @ es\<rparr>"
    "\<forall>e \<in> set es. e_src e = a \<and> e_dst e \<in> set vis2 \<and> e_type e = ORDER"
    "(\<lambda>e. nd_cpg (nodeH g2 (e_dst e))) ` set es = set cs" by (elim conjE exE) (rule that, assumption+)
  have gr: "grows g g2" using grows_trans[OF grows_skel[OF S1[symmetric]] T1(2)] .
  have a: "a \<in> set vis" using I'(7) by simp
  have cpg: "nd_cpg (nodeH g2 p) = nd_cpg (nodeH g p)" "nd_type (nodeH g2 p) = nd_type (nodeH g p)" if "p \<in> set vis" for p
    using grows_cpg(1,2)[OF I'(1) gr, of p] that I'(8) by auto
  have fn1: "funH g1 f = fn_addNode (nd_type (nodeH g a)) a (funH g f)" "\<forall>k. k \<noteq> f \<longrightarrow> funH g1 k = funH g k"
    by (simp_all add: g1_def updFun_def)
  have nodes2: "set (fn_nodes (funH g2 f)) = insert a (set (fn_nodes (funH g f)))"
    using es(1) fn1(1) by (simp add: fn_addNode_def)
  have sub: "set (fn_nodes (funH g f)) \<subseteq> set vis" using I'(9) by auto
  have img: "(\<lambda>p. nd_cpg (nodeH g2 p)) ` set vis2 = (\<lambda>p. nd_cpg (nodeH g p)) ` set vis \<union> kids E H (nd_cpg (nodeH g a))"
    using T1(8) cs skel_eqD(4)[OF S1] by simp
  have fnode: "nd_cpg (nodeH g2 fnode) = nd_cpg (nodeH g fnode)" using cpg(1)[OF I'(4)] .
  have bg: "b_g (B1\<lparr>b_g := g2\<rparr>) = g2" by simp
  have "fnFacts E H f fnode st' (r @ new)"
    unfolding fnFacts_def Let_def st' fst_conv snd_conv bg
  proof (intro conjI)
    show "ccpg_ok g2" by (rule T1(1))
    show "cpgH g2 = H" using gr I'(2) by (simp add: grows_def)
    show "childCache.cache_ok E (B1\<lparr>b_g := g2\<rparr>)"
      using cache_ok_cong[of "B1\<lparr>b_g := g2\<rparr>" B1 E] co1 b1 T1(2) by (simp add: grows_def)
    show "fnode \<in> set vis2" "distinct vis2" "set vis2 \<subseteq> set (g_nodes g2)" using T1(3,4,6) I'(4) by simp_all
    show "distinct (r @ new2)" using T1(3,4) I'(6,7) st'(2) by auto
    show "set (r @ new2) \<subseteq> set vis2" using T1(3) I'(7) st'(2) by auto
    show "set (fn_nodes (funH g2 f)) = set vis2 - set (r @ new2)"
      using nodes2 I'(6,7,9) T1(3,4) st'(2) by auto
    show "\<forall>p \<in> set vis2. (\<lambda>a b. b \<in> kids E H a)\<^sup>*\<^sup>* (nd_cpg (nodeH g2 fnode)) (nd_cpg (nodeH g2 p))"
    proof
      fix p assume "p \<in> set vis2"
      with img have "nd_cpg (nodeH g2 p) \<in> (\<lambda>p. nd_cpg (nodeH g p)) ` set vis \<or> nd_cpg (nodeH g2 p) \<in> kids E H (nd_cpg (nodeH g a))"
        by blast
      then show "(\<lambda>a b. b \<in> kids E H a)\<^sup>*\<^sup>* (nd_cpg (nodeH g2 fnode)) (nd_cpg (nodeH g2 p))"
        unfolding fnode using reach a by (auto intro: rtranclp.rtrancl_into_rtrancl)
    qed
    show "\<forall>p \<in> set (fn_nodes (funH g2 f)). kids E H (nd_cpg (nodeH g2 p)) \<subseteq> (\<lambda>p. nd_cpg (nodeH g2 p)) ` set vis2"
      unfolding img nodes2 using closed sub a cpg(1) by (metis (no_types, lifting) Un_iff insert_iff subsetD subsetI)
    show "\<forall>e \<in> set (fn_edges (funH g2 f)). e_src e \<in> set (fn_nodes (funH g2 f)) \<and> e_dst e \<in> set vis2 \<and> e_type e = ORDER"
      unfolding nodes2 using ends es(1,2) fn1(1) T1(3) by (auto simp: fn_addNode_def)
    show "\<forall>ty. set (fn_typeToNodeSet (funH g2 f) ty) = {p \<in> set (fn_nodes (funH g2 f)). nd_type (nodeH g2 p) = ty}"
      unfolding nodes2 using types es(1) fn1(1) cpg(2) sub a by (auto simp: fn_addNode_def)
    have new_edges: "edge_cpg g2 ` set es = {(nd_cpg (nodeH g a), c) | c. c \<in> kids E H (nd_cpg (nodeH g a))}"
      using es(2,3) cs cpg(1)[OF a] unfolding edge_cpg_def by (auto simp: image_iff)
    have old_edges: "edge_cpg g2 ` set (fn_edges (funH g f)) = edge_cpg g ` set (fn_edges (funH g f))"
      using ends sub cpg(1) unfolding edge_cpg_def by (intro image_cong) auto
    have c2: "nd_cpg (nodeH g2 p) = nd_cpg (nodeH g p)" if "p \<in> insert a (set (fn_nodes (funH g f)))" for p
      using that sub a cpg(1) by blast
    have all: "fn_edges (funH g2 f) = fn_edges (funH g f) @ es" using es(1) fn1(1) by (simp add: fn_addNode_def)
    have "{(nd_cpg (nodeH g2 p), c) | p c. p \<in> insert a (set (fn_nodes (funH g f))) \<and> c \<in> kids E H (nd_cpg (nodeH g2 p))} =
        {(nd_cpg (nodeH g p), c) | p c. p \<in> insert a (set (fn_nodes (funH g f))) \<and> c \<in> kids E H (nd_cpg (nodeH g p))}"
      using c2 by (intro Collect_cong) metis
    then show "edge_cpg g2 ` set (fn_edges (funH g2 f)) =
        {(nd_cpg (nodeH g2 p), c) | p c. p \<in> set (fn_nodes (funH g2 f)) \<and> c \<in> kids E H (nd_cpg (nodeH g2 p))}"
      unfolding nodes2 all set_append image_Un new_edges old_edges edges by blast
  qed
  moreover have "\<exists>ns fs ts. funH g2 f = (funH g f)\<lparr>fn_nodes := ns, fn_edges := fs, fn_typeToNodeSet := ts\<rparr>"
    by (intro exI[of _ "fn_nodes (funH g2 f)"] exI[of _ "fn_edges (funH g2 f)"] exI[of _ "fn_typeToNodeSet (funH g2 f)"])
      (simp add: es(1) fn1(1) fn_addNode_def)
  then have "fnFrame f B (B1\<lparr>b_g := g2\<rparr>)"
    using gr T1(9) fn1(2) F T1(7) skel_eqD(9)[OF S1] unfolding fnFrame_def g_def by simp
  ultimately show ?thesis using T1(3) img unfolding st st' g_def by simp
qed

subsection \<open>The loop over the nodes of a function\<close>

abbreviation builder_cpg :: "builder \<Rightarrow> ptr list \<Rightarrow> ptr set" where
  "builder_cpg B ps \<equiv> (\<lambda>p. nd_cpg (nodeH (b_g B) p)) ` set ps"

definition fnInv :: "build_env \<Rightarrow> cpg_heap \<Rightarrow> ptr \<Rightarrow> ptr \<Rightarrow> ptr set \<Rightarrow> builder \<times> ptr list \<Rightarrow> ptr list \<Rightarrow> bool" where
  "fnInv E H f fnode U st q \<longleftrightarrow> cfg_ok E \<and> cfg_universe (outCFGEdges (be_cpg E)) U \<and>
     fnFacts E H f fnode st q \<and> builder_cpg (fst st) (snd st) \<subseteq> U"

lemma findChildren_returns:
  assumes "cfg_universe (outCFGEdges (be_cpg E)) U" "n \<in> U"
  shows "findChildren E n B \<noteq> None"
  using searchChildren_returns[OF assms, of "\<lambda>m. isCCPGNode (be_util E) (cpgH (b_g B) m)"]
  by (auto simp: findChildren_def split: option.split)

lemma fnVisit_returns:
  assumes "cfg_universe (outCFGEdges (be_cpg E)) U" "nd_cpg (nodeH (b_g B) a) \<in> U"
  shows "\<exists>r. fnVisit E f a (B, vis) = Some r"
proof -
  let ?g1 = "updFun f (fn_addNode (nd_type (nodeH (b_g B) a)) a) (b_g B)"
  have "nd_cpg (nodeH ?g1 a) = nd_cpg (nodeH (b_g B) a)" by (rule skel_eqD(4)) simp
  then obtain cs B1 where "findChildren E (nd_cpg (nodeH ?g1 a)) (B\<lparr>b_g := ?g1\<rparr>) = Some (cs, B1)"
    using findChildren_returns[OF assms, of "B\<lparr>b_g := ?g1\<rparr>"] by auto
  then show ?thesis by (auto simp: fnVisit_def Let_def split: prod.split)
qed

interpretation fnLoop: work_queue "fnVisit E f" "\<lambda>st. card (U - builder_cpg (fst st) (snd st))" "fnInv E H f fnode U"
  for E f U H fnode
proof
  fix st :: "builder \<times> ptr list" and a r
  assume I: "fnInv E H f fnode U st (a # r)"
  obtain B vis where st: "st = (B, vis)" by fastforce
  have I': "cfg_ok E" "cfg_universe (outCFGEdges (be_cpg E)) U" "fnFacts E H f fnode st (a # r)"
    "builder_cpg B vis \<subseteq> U" using I by (simp_all add: fnInv_def st)
  then have a: "a \<in> set vis" and ok: "ccpg_ok (b_g B)" "set vis \<subseteq> set (g_nodes (b_g B))"
    by (auto simp: fnFacts_def Let_def st)
  then have aU: "nd_cpg (nodeH (b_g B) a) \<in> U" using I'(4) by auto
  from fnVisit_returns[OF I'(2) this, of f vis]
  obtain new B' vis' where v: "fnVisit E f a st = Some (new, B', vis')" by (auto simp: st)
  note S = fnVisit_step[OF I'(1,3) v, unfolded st fst_conv snd_conv]
  from S have img: "builder_cpg B' vis' = builder_cpg B vis \<union> kids E H (nd_cpg (nodeH (b_g B) a))" by blast
  have sub: "builder_cpg B' vis' \<subseteq> U"
    unfolding img using I'(4) children_in_universe[OF I'(2) aU] by (simp add: kids_def)
  have fin: "finite U" using I'(2) by (simp add: cfg_universe_def)
  have "card (U - builder_cpg B' vis') < card (U - builder_cpg B vis) \<or>
      card (U - builder_cpg B' vis') \<le> card (U - builder_cpg B vis) \<and> new = []"
  proof (cases "new = []")
    case True
    with S have "builder_cpg B vis \<subseteq> builder_cpg B' vis'" by auto
    then have "card (U - builder_cpg B' vis') \<le> card (U - builder_cpg B vis)" using fin by (intro card_mono) blast+
    with True show ?thesis by blast
  next
    case False
    have d: "distinct (vis @ new)" "set (vis @ new) \<subseteq> set (g_nodes (b_g B'))" "ccpg_ok (b_g B')" and gr: "grows (b_g B) (b_g B')"
      using S by (auto simp: fnFacts_def Let_def fnFrame_def)
    from False obtain x where x: "x \<in> set new" by (cases new) auto
    have "nd_cpg (nodeH (b_g B') x) \<notin> builder_cpg B vis"
    proof
      assume "nd_cpg (nodeH (b_g B') x) \<in> builder_cpg B vis"
      then obtain p where p: "p \<in> set vis" "nd_cpg (nodeH (b_g B') x) = nd_cpg (nodeH (b_g B) p)" by auto
      then have "nd_cpg (nodeH (b_g B') x) = nd_cpg (nodeH (b_g B') p)" using grows_cpg(1)[OF ok(1) gr, of p] ok(2) by auto
      then have "x = p" using cpg_inj[OF d(3)] d(2) x p(1) by auto
      with x p(1) d(1) show False by auto
    qed
    moreover have "nd_cpg (nodeH (b_g B') x) \<in> builder_cpg B' vis'" using S x by auto
    ultimately have "U - builder_cpg B' vis' \<subset> U - builder_cpg B vis"
      using S sub by blast
    then show ?thesis using fin by (simp add: psubset_card_mono)
  qed
  moreover have "fnInv E H f fnode U (B', vis') (r @ new)"
    unfolding fnInv_def fst_conv snd_conv using S I'(1,2) sub by blast
  ultimately show "\<exists>new st'. fnVisit E f a st = Some (new, st') \<and> fnInv E H f fnode U st' (r @ new) \<and>
      (card (U - builder_cpg (fst st') (snd st')) < card (U - builder_cpg (fst st) (snd st)) \<or>
       card (U - builder_cpg (fst st') (snd st')) \<le> card (U - builder_cpg (fst st) (snd st)) \<and> new = [])"
    using v st by auto
qed

lemma fnFacts_init:
  assumes "ccpg_ok (b_g B)" "cpgH (b_g B) = H" "childCache.cache_ok E B" "fnode \<in> set (g_nodes (b_g B))"
    "funH (b_g B) f = newFunction fnode"
  shows "fnFacts E H f fnode (B, [fnode]) [fnode]"
  using assms by (simp add: fnFacts_def Let_def newFunction_def)

lemma fnFrame_refl: "fnFrame f B B"
  by (auto simp: fnFrame_def intro!: exI[of _ "fn_nodes (funH (b_g B) f)"] exI[of _ "fn_edges (funH (b_g B) f)"]
      exI[of _ "fn_typeToNodeSet (funH (b_g B) f)"])

lemma fnFrame_trans:
  assumes "fnFrame f A B" "fnFrame f B C"
  shows "fnFrame f A C"
proof -
  from assms obtain ns es ts ns' es' ts' where
    "funH (b_g B) f = (funH (b_g A) f)\<lparr>fn_nodes := ns, fn_edges := es, fn_typeToNodeSet := ts\<rparr>"
    "funH (b_g C) f = (funH (b_g B) f)\<lparr>fn_nodes := ns', fn_edges := es', fn_typeToNodeSet := ts'\<rparr>"
    unfolding fnFrame_def by blast
  then have "funH (b_g C) f = (funH (b_g A) f)\<lparr>fn_nodes := ns', fn_edges := es', fn_typeToNodeSet := ts'\<rparr>" by simp
  moreover have "grows (b_g A) (b_g C)" using assms grows_trans unfolding fnFrame_def by blast
  moreover have "\<forall>k. k \<noteq> f \<longrightarrow> funH (b_g C) k = funH (b_g A) k" using assms by (simp add: fnFrame_def)
  ultimately show ?thesis using assms unfolding fnFrame_def by (intro conjI) (simp_all, blast)
qed

lemma fnLoop_done:
  assumes "cfg_ok E" "fnFacts E H f fnode (B, vis) q" "worklist (fnVisit E f) q (B, vis) = Some (B', vis')"
  shows "fnFacts E H f fnode (B', vis') [] \<and> fnFrame f B B'"
proof -
  have "fnFacts E H f fnode (B', vis') [] \<and> fnFrame f B (fst (B', vis'))"
  proof (rule worklist_invariant[OF assms(3), where I = "\<lambda>st q. fnFacts E H f fnode st q \<and> fnFrame f B (fst st)"])
    show "fnFacts E H f fnode (B, vis) q \<and> fnFrame f B (fst (B, vis))" using assms(2) fnFrame_refl by simp
  next
    fix st a r new st'
    assume I: "fnFacts E H f fnode st (a # r) \<and> fnFrame f B (fst st)" and v: "fnVisit E f a st = Some (new, st')"
    with fnVisit_step[OF assms(1) _ v, of H fnode r] fnFrame_trans[of f B "fst st" "fst st'"]
    show "fnFacts E H f fnode st' (r @ new) \<and> fnFrame f B (fst st')" by blast
  qed
  then show ?thesis by simp
qed

subsection \<open>Locations and call instructions\<close>

text \<open>The rest of the creation touches locations, call instructions and the compiled function.\<close>

definition tailFrame :: "ptr \<Rightarrow> ccpg \<Rightarrow> ccpg \<Rightarrow> bool" where
  "tailFrame f g g' \<longleftrightarrow> skel g' = skel g \<and> (\<forall>k. k \<noteq> f \<longrightarrow> funH g' k = funH g k) \<and>
     (\<exists>lf ls. funH g' f = (funH g f)\<lparr>fn_llvm := lf, fn_locs := ls\<rparr>)"

lemma tailFrame_refl: "tailFrame f g g"
  by (auto simp: tailFrame_def intro!: exI[of _ "fn_llvm (funH g f)"] exI[of _ "fn_locs (funH g f)"])

lemma tailFrame_trans:
  assumes "tailFrame f g h" "tailFrame f h k"
  shows "tailFrame f g k"
proof -
  from assms obtain lf ls lf' ls' where "funH h f = (funH g f)\<lparr>fn_llvm := lf, fn_locs := ls\<rparr>"
    "funH k f = (funH h f)\<lparr>fn_llvm := lf', fn_locs := ls'\<rparr>"
    unfolding tailFrame_def by blast
  then have "funH k f = (funH g f)\<lparr>fn_llvm := lf', fn_locs := ls'\<rparr>" by simp
  moreover have "skel k = skel g" "\<forall>j. j \<noteq> f \<longrightarrow> funH k j = funH g j" using assms by (simp_all add: tailFrame_def)
  ultimately show ?thesis unfolding tailFrame_def by blast
qed

lemma updNode_tail: "(\<And>n. node_key (h n) = node_key n) \<Longrightarrow> tailFrame f g (updNode p h g)"
  using skel_updNode[of h p g] tailFrame_refl[of f g] by (simp add: tailFrame_def updNode_def)

lemma attachCall_tail: "tailFrame f g (attachCall E g n)"
  by (auto simp: attachCall_def node_key_def intro!: tailFrame_refl updNode_tail split: option.split)

lemma attachCalls_tail: "tailFrame f g (foldl (attachCall E) g ns)"
  by (induction ns rule: rev_induct) (auto intro: tailFrame_refl tailFrame_trans attachCall_tail)

lemma locateNode_tail:
  assumes "locateNode E f n g = Some g'"
  shows "tailFrame f g g'"
proof -
  from assms obtain loc where
    g': "g' = updFun f (\<lambda>fn. fn\<lparr>fn_locs := addNodeByLoc_list loc n (fn_locs fn)\<rparr>)
      (addNodeByLoc loc n (updNode n (\<lambda>m. m\<lparr>nd_loc := loc\<rparr>) g))"
    by (auto simp: locateNode_def Let_def split: result.splits)
  have "skel g' = skel g" unfolding g' by simp
  moreover have "funH g' f = (funH g f)\<lparr>fn_llvm := fn_llvm (funH g f), fn_locs := addNodeByLoc_list loc n (fn_locs (funH g f))\<rparr>"
    "\<forall>k. k \<noteq> f \<longrightarrow> funH g' k = funH g k"
    by (simp_all add: g' updFun_def addNodeByLoc_def updNode_def)
  ultimately show ?thesis unfolding tailFrame_def by blast
qed

lemma getLLVMFunction_tail:
  assumes "getLLVMFunction E f g = Ok (lf, g')"
  shows "tailFrame f g g'"
proof -
  have "g' = g \<or> (\<exists>d. g' = updFun f (\<lambda>fn. fn\<lparr>fn_llvm := Some d\<rparr>) g)"
  proof (cases "fn_llvm (funH g f) = None")
    case True
    with assms obtain r where r: "findLLVMFunction E (cpgOf g (fn_funcNode (funH g f))) = Ok r"
      by (cases "findLLVMFunction E (cpgOf g (fn_funcNode (funH g f)))") (simp_all add: getLLVMFunction_def)
    show ?thesis
    proof (cases r)
      case (Some d)
      with r True assms have "g' = updFun f (\<lambda>fn. fn\<lparr>fn_llvm := Some (ld_name d)\<rparr>) g"
        by (auto simp: getLLVMFunction_def updFun_def)
      then show ?thesis by blast
    qed (use r True assms in \<open>simp add: getLLVMFunction_def\<close>)
  qed (use assms in \<open>simp add: getLLVMFunction_def\<close>)
  then show ?thesis
  proof
    assume "\<exists>d. g' = updFun f (\<lambda>fn. fn\<lparr>fn_llvm := Some d\<rparr>) g"
    then obtain d where g': "g' = updFun f (\<lambda>fn. fn\<lparr>fn_llvm := Some d\<rparr>) g" ..
    have "skel g' = skel g" unfolding g' by simp
    moreover have "funH g' f = (funH g f)\<lparr>fn_llvm := Some d, fn_locs := fn_locs (funH g f)\<rparr>"
      "\<forall>k. k \<noteq> f \<longrightarrow> funH g' k = funH g k" by (simp_all add: g' updFun_def)
    ultimately show ?thesis unfolding tailFrame_def by blast
  qed (simp add: tailFrame_refl)
qed

lemma locateNodes_tail: "foldM (locateNode E f) ns g = Some g' \<Longrightarrow> tailFrame f g g'"
  by (erule foldM_invariant[where I = "tailFrame f g"], rule tailFrame_refl)
    (blast intro: tailFrame_trans locateNode_tail)

subsection \<open>The created function\<close>

text \<open>What a created function is, over the code property graph alone.\<close>

definition functionExact :: "build_env \<Rightarrow> ccpg \<Rightarrow> ptr \<Rightarrow> bool" where
  "functionExact E g f \<longleftrightarrow> (let fn = funH g f; cpg = (\<lambda>p. nd_cpg (nodeH g p)); m = cpg (fn_funcNode fn);
      cfg = outCFGEdges (be_cpg E); keep = (\<lambda>n. isCCPGNode (be_util E) (cpgH g n)) in
     set (fn_nodes fn) \<subseteq> set (g_nodes g) \<and>
     cpg ` set (fn_nodes fn) = insert m {n. keep n \<and> flow cfg m n} \<and>
     edge_cpg g ` set (fn_edges fn) = {(a, b). a \<in> cpg ` set (fn_nodes fn) \<and> b \<in> children_of cfg keep a} \<and>
     (\<forall>e \<in> set (fn_edges fn). e_src e \<in> set (fn_nodes fn) \<and> e_dst e \<in> set (fn_nodes fn) \<and> e_type e = ORDER) \<and>
     (\<forall>ty. set (fn_typeToNodeSet fn ty) = {p \<in> set (fn_nodes fn). nd_type (nodeH g p) = ty}))"

definition builder_ok :: "build_env \<Rightarrow> builder \<Rightarrow> bool" where
  "builder_ok E B \<longleftrightarrow> cfg_ok E \<and> ccpg_ok (b_g B) \<and> childCache.cache_ok E B \<and>
     (\<forall>f \<in> set (g_functions (b_g B)). functionExact E (b_g B) f)"

lemma fnFacts_exact:
  assumes "fnFacts E (cpgH (b_g B)) f fnode (B, vis) []" "fn_funcNode (funH (b_g B) f) = fnode"
  shows "functionExact E (b_g B) f"
proof -
  let ?g = "b_g B" let ?cpg = "\<lambda>p. nd_cpg (nodeH ?g p)" let ?k = "kids E (cpgH ?g)"
  note A = assms(1)[unfolded fnFacts_def Let_def fst_conv snd_conv]
  from A have n: "set (fn_nodes (funH ?g f)) = set vis" by simp
  have F: "fnode \<in> set vis" "set vis \<subseteq> set (g_nodes ?g)" "set (fn_nodes (funH ?g f)) = set vis"
    "\<forall>p \<in> set vis. (\<lambda>a b. b \<in> ?k a)\<^sup>*\<^sup>* (?cpg fnode) (?cpg p)"
    "\<forall>p \<in> set vis. ?k (?cpg p) \<subseteq> ?cpg ` set vis"
    "edge_cpg ?g ` set (fn_edges (funH ?g f)) = {(?cpg p, c) | p c. p \<in> set vis \<and> c \<in> ?k (?cpg p)}"
    "\<forall>e \<in> set (fn_edges (funH ?g f)). e_src e \<in> set vis \<and> e_dst e \<in> set vis \<and> e_type e = ORDER"
    "\<forall>ty. set (fn_typeToNodeSet (funH ?g f) ty) = {p \<in> set vis. nd_type (nodeH ?g p) = ty}"
    using A[unfolded n] n by - (elim conjE, assumption)+
  have "?cpg ` set vis = {n. (\<lambda>a b. b \<in> ?k a)\<^sup>*\<^sup>* (?cpg fnode) n}"
  proof (intro equalityI subsetI)
    fix n assume "n \<in> {n. (\<lambda>a b. b \<in> ?k a)\<^sup>*\<^sup>* (?cpg fnode) n}"
    then have "(\<lambda>a b. b \<in> ?k a)\<^sup>*\<^sup>* (?cpg fnode) n" by simp
    then show "n \<in> ?cpg ` set vis"
      using F(1,5) by (induction rule: rtranclp_induct) blast+
  qed (use F(4) in auto)
  then have "?cpg ` set vis = insert (?cpg fnode) {n. isCCPGNode (be_util E) (cpgH ?g n) \<and>
      flow (outCFGEdges (be_cpg E)) (?cpg fnode) n}"
    unfolding kids_def children_closure by auto
  moreover have "edge_cpg ?g ` set (fn_edges (funH ?g f)) = {(a, b). a \<in> ?cpg ` set vis \<and> b \<in> ?k a}"
    unfolding F(6) by blast
  ultimately show ?thesis
    unfolding functionExact_def Let_def F(3) assms(2) using F(2,7,8) by (simp add: kids_def)
qed

lemma edge_cpg_cong:
  assumes "\<And>p. p \<in> S \<Longrightarrow> nd_cpg (nodeH g' p) = nd_cpg (nodeH g p)" "\<forall>e \<in> set es. e_src e \<in> S \<and> e_dst e \<in> S"
  shows "edge_cpg g' ` set es = edge_cpg g ` set es"
  using assms unfolding edge_cpg_def by (intro image_cong) auto

text \<open>A function stays exact while the graph grows and its own nodes and edges are kept.\<close>

lemma functionExact_grows:
  assumes ok: "ccpg_ok g" and gr: "grows g g'" and f: "f \<in> set (g_functions g)" and ex: "functionExact E g f"
    and same: "fn_nodes (funH g' f) = fn_nodes (funH g f)" "fn_edges (funH g' f) = fn_edges (funH g f)"
      "fn_typeToNodeSet (funH g' f) = fn_typeToNodeSet (funH g f)"
  shows "functionExact E g' f"
proof -
  let ?N = "set (fn_nodes (funH g f))"
  note X = ex[unfolded functionExact_def Let_def]
  have N: "?N \<subseteq> set (g_nodes g)" using X by blast
  have cpg: "nd_cpg (nodeH g' p) = nd_cpg (nodeH g p)" "nd_type (nodeH g' p) = nd_type (nodeH g p)" if "p \<in> ?N" for p
    using grows_cpg[OF ok gr, of p] N that by auto
  have fn: "fn_funcNode (funH g' f) = fn_funcNode (funH g f)"
    using ccpg_okD(7)[OF ok f] gr by (simp add: grows_def)
  have m: "nd_cpg (nodeH g' (fn_funcNode (funH g f))) = nd_cpg (nodeH g (fn_funcNode (funH g f)))"
    using grows_cpg(1)[OF ok gr] ccpg_okD(7)[OF ok f] by blast
  have img: "(\<lambda>p. nd_cpg (nodeH g' p)) ` ?N = (\<lambda>p. nd_cpg (nodeH g p)) ` ?N" by (rule grows_image[OF ok gr N])
  have edges: "edge_cpg g' ` set (fn_edges (funH g f)) = edge_cpg g ` set (fn_edges (funH g f))"
    by (rule edge_cpg_cong[of ?N]) (use cpg X in auto)
  have types: "{p \<in> ?N. nd_type (nodeH g' p) = ty} = {p \<in> ?N. nd_type (nodeH g p) = ty}" for ty
    using cpg(2) by auto
  have H: "cpgH g' = cpgH g" using gr by (simp add: grows_def)
  have N': "?N \<subseteq> set (g_nodes g')" using N gr by (auto simp: grows_def)
  show ?thesis
    unfolding functionExact_def Let_def same fn m H img edges types using X N' by blast
qed

lemma builder_ok_grows:
  assumes "builder_ok E B" "ccpg_ok (b_g B')" "grows (b_g B) (b_g B')" "childCache.cache_ok E B'"
    "\<And>f. f \<in> set (g_functions (b_g B)) \<Longrightarrow> fn_nodes (funH (b_g B') f) = fn_nodes (funH (b_g B) f) \<and>
       fn_edges (funH (b_g B') f) = fn_edges (funH (b_g B) f) \<and>
       fn_typeToNodeSet (funH (b_g B') f) = fn_typeToNodeSet (funH (b_g B) f)"
    "\<And>f. f \<in> set (g_functions (b_g B')) \<Longrightarrow> f \<notin> set (g_functions (b_g B)) \<Longrightarrow> functionExact E (b_g B') f"
  shows "builder_ok E B'"
  using assms functionExact_grows unfolding builder_ok_def by metis

text \<open>The creation of a function that does not exist yet.\<close>

lemma createFunction_new:
  assumes ok: "builder_ok E B" and n: "fnode \<in> set (g_nodes (b_g B))"
    and none: "getFunctionByCCPGNode (b_g B) fnode = null" and c: "createFunction E fnode B = Some (f, B')"
  shows "builder_ok E B' \<and> grows (b_g B) (b_g B') \<and> f = nextPtr (b_g B) \<and>
    set (g_functions (b_g B')) = insert f (set (g_functions (b_g B))) \<and>
    fn_funcNode (funH (b_g B') f) = fnode \<and> fn_contexts (funH (b_g B') f) = [] \<and>
    (\<forall>k. k \<noteq> f \<longrightarrow> funH (b_g B') k = funH (b_g B) k) \<and> entryFunctions B' = entryFunctions B \<and>
    nextCpg B' = nextCpg B \<and> syntheticEntryNodes B' = syntheticEntryNodes B"
proof -
  have cfg: "cfg_ok E" and gok: "ccpg_ok (b_g B)" and co: "childCache.cache_ok E B" using ok by (simp_all add: builder_ok_def)
  obtain f0 g0 where op: "openFunction fnode (b_g B) = (f0, g0)" by fastforce
  note O = openFunction_ok[OF gok n none op]
  from c none op obtain B1 vis g1 g2 lf where
    w: "worklist (fnVisit E f) [fnode] (B\<lparr>b_g := g0\<rparr>, [fnode]) = Some (B1, vis)"
    and l: "foldM (locateNode E f) (fn_nodes (funH (b_g B1) f)) (b_g B1) = Some g1"
    and m: "getLLVMFunction E f g1 = Ok (lf, g2)" and f0: "f0 = f"
    and B': "B' = B1\<lparr>b_g := (if lf = None then g2 else foldl (attachCall E) g2 (fn_nodes (funH g2 f)))\<rparr>"
    by (auto simp: createFunction_def split: option.splits result.splits prod.splits)
  have gr0: "grows (b_g B) g0" using O by blast
  have F0: "fnFacts E (cpgH g0) f fnode (B\<lparr>b_g := g0\<rparr>, [fnode]) [fnode]"
    using fnFacts_init[of "B\<lparr>b_g := g0\<rparr>" "cpgH g0" E fnode f] O n f0 co gr0
      cache_ok_cong[of "B\<lparr>b_g := g0\<rparr>" B E] by (simp add: grows_def)
  note D = fnLoop_done[OF cfg F0 w]
  have gr1: "grows g0 (b_g B1)" and oth1: "\<forall>k. k \<noteq> f \<longrightarrow> funH (b_g B1) k = funH g0 k"
    and flds: "entryFunctions B1 = entryFunctions B" "nextCpg B1 = nextCpg B" "syntheticEntryNodes B1 = syntheticEntryNodes B"
    using D by (auto simp: fnFrame_def)
  from D obtain ns es ts where fn1: "funH (b_g B1) f = (newFunction fnode)\<lparr>fn_nodes := ns, fn_edges := es, fn_typeToNodeSet := ts\<rparr>"
    using O f0 by (auto simp: fnFrame_def)
  have H1: "cpgH (b_g B1) = cpgH g0" using gr1 by (simp add: grows_def)
  have ex1: "functionExact E (b_g B1) f"
    using fnFacts_exact[of E B1 f fnode vis] D H1 fn1 by (simp add: newFunction_def)
  have ok1: "ccpg_ok (b_g B1)" "childCache.cache_ok E B1" using D by (simp_all add: fnFacts_def Let_def)
  have T: "tailFrame f (b_g B1) (b_g B')"
    unfolding B' using locateNodes_tail[OF l] getLLVMFunction_tail[OF m] attachCalls_tail tailFrame_trans by auto
  from T obtain lf' ls where T': "skel (b_g B') = skel (b_g B1)" "\<forall>k. k \<noteq> f \<longrightarrow> funH (b_g B') k = funH (b_g B1) k"
    "funH (b_g B') f = (funH (b_g B1) f)\<lparr>fn_llvm := lf', fn_locs := ls\<rparr>" unfolding tailFrame_def by blast
  have gr2: "grows (b_g B1) (b_g B')" by (rule grows_skel[OF T'(1)[symmetric]])
  have gr: "grows (b_g B) (b_g B')" using grows_trans[OF gr0 grows_trans[OF gr1 gr2]] .
  have ok': "ccpg_ok (b_g B')" using ccpg_ok_skel[OF T'(1)] ok1(1) by simp
  have fns: "g_functions (b_g B') = g_functions (b_g B1)" by (rule skel_eqD(9)[OF T'(1)])
  have fs1: "g_functions (b_g B1) = g_functions g0" using D by (simp add: fnFrame_def)
  have set_fns: "set (g_functions (b_g B')) = insert f (set (g_functions (b_g B)))" using fns fs1 O f0 by simp
  have oth: "\<forall>k. k \<noteq> f \<longrightarrow> funH (b_g B') k = funH (b_g B) k" using T'(2) oth1 O f0 by simp
  have new: "k \<in> set (g_functions (b_g B)) \<Longrightarrow> k \<noteq> f" for k using ccpg_okD(7)[OF gok, of k] O f0 by auto
  have ex': "functionExact E (b_g B') f"
    using functionExact_grows[OF ok1(1) gr2 _ ex1] T'(3) fs1 O f0 by simp
  have co': "childCache.cache_ok E B'"
    using cache_ok_cong[of B' B1 E] ok1(2) gr2 by (simp add: B' grows_def)
  have "builder_ok E B'"
    by (rule builder_ok_grows[OF ok ok' gr co']) (use oth new ex' set_fns in auto)
  then show ?thesis
    using gr O f0 set_fns oth T'(3) fn1 flds by (simp add: B' newFunction_def)
qed

text \<open>It returns on a finite graph whose line numbers are numbers.\<close>

lemma locateNodes_returns:
  assumes "\<forall>n \<in> set ns. getLineNumber (cpgOf g n) \<noteq> Throw"
  shows "\<exists>g'. foldM (locateNode E f) ns g = Some g' \<and> tailFrame f g g'"
proof (rule foldM_returns)
  fix n h assume n: "n \<in> set ns" "tailFrame f g h"
  then have "cpgOf h n = cpgOf g n" using skel_eqD(1,4) by (metis tailFrame_def)
  with n assms have "getLineNumber (cpgOf h n) \<noteq> Throw" by simp
  then obtain h' where "locateNode E f n h = Some h'"
    by (cases "getLineNumber (cpgOf h n)") (simp_all add: locateNode_def Let_def)
  with n show "\<exists>s'. locateNode E f n h = Some s' \<and> tailFrame f g s'"
    using locateNode_tail tailFrame_trans by blast
qed (rule tailFrame_refl)

lemma getLLVMFunction_returns:
  assumes "getLineNumber (cpgOf g (fn_funcNode (funH g f))) \<noteq> Throw"
  shows "\<exists>lf g'. getLLVMFunction E f g = Ok (lf, g')"
  using assms by (cases "getLineNumber (cpgOf g (fn_funcNode (funH g f)))")
    (auto simp: getLLVMFunction_def findLLVMFunction_def split: option.split)

definition lines_ok :: "cpg_heap \<Rightarrow> ptr set \<Rightarrow> bool" where
  "lines_ok H U \<longleftrightarrow> (\<forall>n \<in> U. getLineNumber (H n) \<noteq> Throw)"

lemma createFunction_returns:
  assumes ok: "builder_ok E B" and n: "fnode \<in> set (g_nodes (b_g B))"
    and U: "cfg_universe (outCFGEdges (be_cpg E)) U" "nd_cpg (nodeH (b_g B) fnode) \<in> U" "lines_ok (cpgH (b_g B)) U"
  shows "\<exists>f B'. createFunction E fnode B = Some (f, B')"
proof (cases "getFunctionByCCPGNode (b_g B) fnode = null")
  case True
  have cfg: "cfg_ok E" and gok: "ccpg_ok (b_g B)" and co: "childCache.cache_ok E B" using ok by (simp_all add: builder_ok_def)
  obtain f g0 where op: "openFunction fnode (b_g B) = (f, g0)" by fastforce
  note O = openFunction_ok[OF gok n True op]
  have gr0: "grows (b_g B) g0" using O by blast
  let ?B0 = "B\<lparr>b_g := g0\<rparr>"
  have F0: "fnFacts E (cpgH g0) f fnode (?B0, [fnode]) [fnode]"
    using fnFacts_init[of ?B0 "cpgH g0" E fnode f] O n co gr0 cache_ok_cong[of ?B0 B E] by (simp add: grows_def)
  have "nd_cpg (nodeH g0 fnode) = nd_cpg (nodeH (b_g B) fnode)" by (rule grows_cpg(1)[OF gok gr0 n])
  then have "fnInv E (cpgH g0) f fnode U (?B0, [fnode]) [fnode]" using F0 cfg U by (simp add: fnInv_def)
  from fnLoop.returns[OF this] obtain B1 vis where w: "worklist (fnVisit E f) [fnode] (?B0, [fnode]) = Some (B1, vis)"
    and I1: "fnInv E (cpgH g0) f fnode U (B1, vis) []" by force
  have F1: "fnFacts E (cpgH g0) f fnode (B1, vis) []" and sub: "builder_cpg B1 vis \<subseteq> U" using I1 by (simp_all add: fnInv_def)
  have H: "cpgH (b_g B1) = cpgH (b_g B)" "set (fn_nodes (funH (b_g B1) f)) = set vis" "fnode \<in> set vis"
    using F1 gr0 by (simp_all add: fnFacts_def Let_def grows_def)
  have lines: "\<forall>n \<in> set vis. getLineNumber (cpgOf (b_g B1) n) \<noteq> Throw"
    using sub U(3) H(1) by (auto simp: lines_ok_def)
  then obtain g1 where l: "foldM (locateNode E f) (fn_nodes (funH (b_g B1) f)) (b_g B1) = Some g1" "tailFrame f (b_g B1) g1"
    using locateNodes_returns[of "fn_nodes (funH (b_g B1) f)" "b_g B1" E f] H(2) by auto
  from fnLoop_done[OF cfg F0 w] have "fn_funcNode (funH (b_g B1) f) = fnode"
    using O by (auto simp: fnFrame_def newFunction_def)
  then have "cpgOf g1 (fn_funcNode (funH g1 f)) = cpgOf (b_g B1) fnode"
    using l(2) skel_eqD(1,4,6)[of g1 "b_g B1"] by (simp add: tailFrame_def)
  with lines H(3) obtain lf g2 where "getLLVMFunction E f g1 = Ok (lf, g2)"
    using getLLVMFunction_returns[of g1 f E] by auto
  with w l(1) op True show ?thesis by (simp add: createFunction_def)
qed (simp add: createFunction_def)

end
