(* ===== verification/RunFacts.thy ===== *)
theory RunFacts
  imports FunctionFacts
begin

text \<open>
  The construction as a whole: invariants of the graph that every primitive operation keeps
  are kept by the creation of functions (locale \<open>graph_invariant\<close>), and the expansion of the
  entries keeps the graph consistent, gives a call node at most one call edge, and adds no
  context to any function.
\<close>

subsection \<open>Invariants kept by the primitive operations\<close>

locale graph_invariant =
  fixes P :: "ccpg \<Rightarrow> bool"
  assumes node: "P g \<Longrightarrow> P (snd (createCCPGNode u n g))"
    and edge: "ty \<noteq> CALL \<Longrightarrow> P g \<Longrightarrow> P (createCCPGEdge a b ty g)"
    and node_update: "(\<And>n. nd_out (h n) = nd_out n) \<Longrightarrow> P g \<Longrightarrow> P (updNode p h g)"
    and fun_update: "(\<And>f. fn_contexts (k f) = fn_contexts f \<and> fn_funcNode (k f) = fn_funcNode f) \<Longrightarrow>
      P g \<Longrightarrow> P (updFun q k g)"
    and opened: "P g \<Longrightarrow> P (snd (openFunction n g))"
    and located: "P g \<Longrightarrow> P (addNodeByLoc l p g)"
    and heap: "P g \<Longrightarrow> P (g\<lparr>cpgH := H\<rparr>)"
begin

lemma childNodeOf_keeps: "P g \<Longrightarrow> P (snd (childNodeOf E f c g))"
  using node[of g "be_util E" c] node_update by (auto simp: childNodeOf_def split: option.split prod.split)

lemma childStep_keeps: "P (fst st) \<Longrightarrow> P (fst (childStep E f n st c))"
proof -
  assume "P (fst st)"
  moreover obtain g vis new where st: "st = (g, vis, new)" by (cases st)
  moreover obtain d g1 where d: "childNodeOf E f c g = (d, g1)" by fastforce
  ultimately have "P g1" using childNodeOf_keeps[of g E f c] by simp
  then have "P (updFun f (\<lambda>fn. fn\<lparr>fn_edges := fn_edges fn @ [\<lparr>e_src = n, e_dst = d, e_type = ORDER\<rparr>]\<rparr>)
      (createCCPGEdge n d ORDER g1))" by (intro fun_update edge) simp_all
  then show ?thesis by (simp add: childStep_def st d Let_def)
qed

lemma childSteps_keeps: "P (fst st) \<Longrightarrow> P (fst (foldl (childStep E f n) st cs))"
  by (induction cs rule: rev_induct) (auto intro: childStep_keeps)

lemma fnVisit_keeps:
  assumes "P (b_g B)" "fnVisit E f n (B, vis) = Some (new, B', vis')"
  shows "P (b_g B')"
proof -
  let ?g1 = "updFun f (fn_addNode (nd_type (nodeH (b_g B) n)) n) (b_g B)"
  have "P ?g1" using assms(1) by (intro fun_update) (auto simp: fn_addNode_def)
  moreover from assms(2) obtain cs B1 where
    c: "findChildren E (nd_cpg (nodeH ?g1 n)) (B\<lparr>b_g := ?g1\<rparr>) = Some (cs, B1)"
    by (auto simp: fnVisit_def Let_def split: option.splits)
  moreover from c have "b_g B1 = ?g1" by (auto simp: findChildren_def split: option.splits)
  ultimately show ?thesis
    using assms(2) childSteps_keeps[of "(?g1, vis, [])" E f n cs]
    by (auto simp: fnVisit_def Let_def split: prod.splits)
qed

lemma locateNode_keeps:
  assumes "P g" "locateNode E f n g = Some g'"
  shows "P g'"
proof -
  from assms(2) obtain loc where
    "g' = updFun f (\<lambda>fn. fn\<lparr>fn_locs := addNodeByLoc_list loc n (fn_locs fn)\<rparr>)
      (addNodeByLoc loc n (updNode n (\<lambda>m. m\<lparr>nd_loc := loc\<rparr>) g))"
    by (auto simp: locateNode_def Let_def split: result.splits)
  then show ?thesis using assms(1) by (simp add: fun_update located node_update)
qed

lemma attachCalls_keeps: "P g \<Longrightarrow> P (foldl (attachCall E) g ns)"
  by (induction ns rule: rev_induct) (auto simp: attachCall_def intro: node_update split: option.split)

lemma getLLVMFunction_keeps:
  assumes "P g" "getLLVMFunction E f g = Ok (lf, g')"
  shows "P g'"
proof -
  have *: "g\<lparr>funH := (funH g)(f := (funH g f)\<lparr>fn_llvm := x\<rparr>)\<rparr> = updFun f (\<lambda>fn. fn\<lparr>fn_llvm := x\<rparr>) g" for x
    by (simp add: updFun_def)
  have "P (updFun f (\<lambda>fn. fn\<lparr>fn_llvm := x\<rparr>) g)" for x using assms(1) by (intro fun_update) simp_all
  with assms show ?thesis
    by (auto simp: getLLVMFunction_def * split: if_splits result.splits option.splits)
qed

lemma createFunction_keeps:
  assumes "P (b_g B)" "createFunction E n B = Some (f, B')"
  shows "P (b_g B')"
proof (cases "getFunctionByCCPGNode (b_g B) n = null")
  case True
  obtain f0 g0 where op: "openFunction n (b_g B) = (f0, g0)" by fastforce
  from assms(2) op True obtain B1 vis g1 g2 lf where
    w: "worklist (fnVisit E f) [n] (B\<lparr>b_g := g0\<rparr>, [n]) = Some (B1, vis)"
    and l: "foldM (locateNode E f) (fn_nodes (funH (b_g B1) f)) (b_g B1) = Some g1"
    and m: "getLLVMFunction E f g1 = Ok (lf, g2)"
    and B': "B' = B1\<lparr>b_g := (if lf = None then g2 else foldl (attachCall E) g2 (fn_nodes (funH g2 f)))\<rparr>"
    by (auto simp: createFunction_def split: option.splits result.splits prod.splits)
  have "P g0" using opened[OF assms(1), of n] op by simp
  then have "P (b_g (fst (B1, vis)))"
    using fnVisit_keeps by (intro worklist_invariant[OF w, where I = "\<lambda>st q. P (b_g (fst st))"]) auto
  then have "P g1" using foldM_invariant[OF l, of P] locateNode_keeps by auto
  then have "P g2" using getLLVMFunction_keeps m by blast
  then show ?thesis using attachCalls_keeps B' by auto
qed (use assms in \<open>auto simp: createFunction_def\<close>)

lemma findCallee_keeps:
  assumes "P (b_g B)" "findCalleeByCaller E n B = Some (c, B')"
  shows "P (b_g B')"
  using assms node[OF assms(1)] by (auto simp: findCalleeByCaller_def split: option.splits result.splits prod.splits)
    (metis snd_conv)

end

subsection \<open>Contexts and call edges\<close>

text \<open>No operation creates a first context: a context is only ever extended.\<close>

definition contexts_empty :: "ccpg \<Rightarrow> bool" where
  "contexts_empty g \<longleftrightarrow> (\<forall>f. fn_contexts (funH g f) = [])"

lemma createCCPGNode_fun [simp]: "funH (snd (createCCPGNode u n g)) = funH g"
  by (simp add: createCCPGNode_def addNode_def Let_def split: option.split)

lemma openFunction_fun: "funH (snd (openFunction n g)) = (funH g)(nextPtr g := newFunction n)"
  by (simp add: openFunction_def Let_def updNode_def addFunction_def)

interpretation ctx: graph_invariant contexts_empty
  by unfold_locales (auto simp: contexts_empty_def openFunction_fun newFunction_def updNode_def updFun_def addNodeByLoc_def)

lemma handleContext_empty: "contexts_empty g \<Longrightarrow> contexts_empty (handleContext c f g)"
  by (simp add: contexts_empty_def handleContext_def Let_def)

definition callsOf :: "ccpg \<Rightarrow> ptr \<Rightarrow> ccpg_edge list" where
  "callsOf g n = filter (\<lambda>e. e_type e = CALL) (nd_out (nodeH g n))"

text \<open>Call nodes have at most one call edge, to the node of a function; the nodes in \<open>Z\<close> have none.\<close>

definition calls_ok :: "ptr set \<Rightarrow> ccpg \<Rightarrow> bool" where
  "calls_ok Z g \<longleftrightarrow> (\<forall>f \<in> set (g_functions g). f < nextPtr g) \<and> (\<forall>n \<in> Z. callsOf g n = []) \<and>
     (\<forall>n. callsOf g n = [] \<or> (\<exists>e. callsOf g n = [e] \<and> e_src e = n \<and> (\<exists>f \<in> set (g_functions g). fn_funcNode (funH g f) = e_dst e)))"

lemma callsOf_node: "callsOf (snd (createCCPGNode u n g)) p = (if n \<noteq> null \<and> cpgNodeToCCPGNodeMap g n = None \<and> p = nextPtr g
    then [] else callsOf g p)"
  by (simp add: callsOf_def createCCPGNode_def addNode_def Let_def split: option.split)

lemma createCCPGNode_functions: "g_functions (snd (createCCPGNode u n g)) = g_functions g"
  "nextPtr g \<le> nextPtr (snd (createCCPGNode u n g))"
  by (simp_all add: createCCPGNode_def addNode_def Let_def split: option.split)

lemma callsOf_edge: "callsOf (createCCPGEdge a b ty g) p =
    (if a \<noteq> null \<and> b \<noteq> null \<and> p = a \<and> ty = CALL then callsOf g p @ [\<lparr>e_src = a, e_dst = b, e_type = CALL\<rparr>] else callsOf g p)"
  by (auto simp: callsOf_def createCCPGEdge_def Let_def)

lemma callsOf_updNode: "(\<And>n. nd_out (h n) = nd_out n) \<Longrightarrow> callsOf (updNode p h g) q = callsOf g q"
  by (simp add: callsOf_def updNode_def)

lemma openFunction_parts: "callsOf (snd (openFunction n g)) p = callsOf g p"
  "set (g_functions (snd (openFunction n g))) = insert (nextPtr g) (set (g_functions g))"
  "nextPtr (snd (openFunction n g)) = Suc (nextPtr g)"
  by (simp_all add: openFunction_def Let_def callsOf_def updNode_def addFunction_def)

lemma createCCPGEdge_parts [simp]: "g_functions (createCCPGEdge a b ty g) = g_functions g"
  "nextPtr (createCCPGEdge a b ty g) = nextPtr g"
  by (simp_all add: createCCPGEdge_def Let_def)

interpretation calls: graph_invariant "calls_ok Z" for Z
proof
  fix g u n assume "calls_ok Z g"
  then show "calls_ok Z (snd (createCCPGNode u n g))"
    using createCCPGNode_functions(2)[of g u n] unfolding calls_ok_def callsOf_node createCCPGNode_functions(1) createCCPGNode_fun
    by (auto intro: less_le_trans)
next
  fix ty a b g assume "ty \<noteq> CALL" "calls_ok Z g"
  then show "calls_ok Z (createCCPGEdge a b ty g)" by (simp add: calls_ok_def callsOf_edge)
next
  fix h :: "ccpg_node \<Rightarrow> ccpg_node" and g p assume "\<And>n. nd_out (h n) = nd_out n" "calls_ok Z g"
  then show "calls_ok Z (updNode p h g)" unfolding calls_ok_def by (simp add: callsOf_updNode) (simp add: updNode_def)
next
  fix k :: "func \<Rightarrow> func" and g q
  assume "\<And>f. fn_contexts (k f) = fn_contexts f \<and> fn_funcNode (k f) = fn_funcNode f" "calls_ok Z g"
  moreover from this have "fn_funcNode (funH (updFun q k g) f) = fn_funcNode (funH g f)" for f by (simp add: updFun_def)
  moreover have "callsOf (updFun q k g) n = callsOf g n" for n by (simp add: callsOf_def updFun_def)
  moreover have "g_functions (updFun q k g) = g_functions g" "nextPtr (updFun q k g) = nextPtr g" by (simp_all add: updFun_def)
  ultimately show "calls_ok Z (updFun q k g)" unfolding calls_ok_def by simp
next
  fix g n assume c: "calls_ok Z g"
  let ?F = "(funH g)(nextPtr g := newFunction n)"
  have old: "fn_funcNode (?F f) = fn_funcNode (funH g f)" if "f \<in> set (g_functions g)" for f
    using that c by (auto simp: calls_ok_def)
  show "calls_ok Z (snd (openFunction n g))"
    unfolding calls_ok_def openFunction_parts openFunction_fun
  proof (intro conjI allI ballI)
    fix f assume "f \<in> insert (nextPtr g) (set (g_functions g))"
    then show "f < Suc (nextPtr g)" using c by (auto simp: calls_ok_def less_Suc_eq)
  next
    fix m assume "m \<in> Z"
    then show "callsOf g m = []" using c by (simp add: calls_ok_def)
  next
    fix m
    have "callsOf g m = [] \<or> (\<exists>e. callsOf g m = [e] \<and> e_src e = m \<and> (\<exists>f \<in> set (g_functions g). fn_funcNode (funH g f) = e_dst e))"
      using c by (simp add: calls_ok_def)
    then show "callsOf g m = [] \<or> (\<exists>e. callsOf g m = [e] \<and> e_src e = m \<and>
        (\<exists>f \<in> insert (nextPtr g) (set (g_functions g)). fn_funcNode (?F f) = e_dst e))"
      using old by (metis insertCI)
  qed
next
  fix g l p assume "calls_ok Z g"
  then show "calls_ok Z (addNodeByLoc l p g)" by (simp add: calls_ok_def addNodeByLoc_def callsOf_def)
next
  fix g H assume "calls_ok Z g"
  then show "calls_ok Z (g\<lparr>cpgH := H\<rparr>)" by (simp add: calls_ok_def callsOf_def)
qed

subsection \<open>Expanding the entries\<close>

definition run_ok :: "build_env \<Rightarrow> builder \<Rightarrow> bool" where
  "run_ok E B \<longleftrightarrow> builder_ok E B \<and> contexts_empty (b_g B) \<and> calls_ok {} (b_g B)"

text \<open>Rebuilding the graph field with the same functions keeps the builder consistent.\<close>

lemma builder_ok_graph:
  assumes "builder_ok E B" "ccpg_ok g" "grows (b_g B) g" "g_functions g = g_functions (b_g B)"
    "\<And>f. fn_nodes (funH g f) = fn_nodes (funH (b_g B) f) \<and> fn_edges (funH g f) = fn_edges (funH (b_g B) f) \<and>
       fn_typeToNodeSet (funH g f) = fn_typeToNodeSet (funH (b_g B) f)"
  shows "builder_ok E (B\<lparr>b_g := g\<rparr>)"
proof (rule builder_ok_grows[OF assms(1)])
  show "childCache.cache_ok E (B\<lparr>b_g := g\<rparr>)"
    using assms(1,3) cache_ok_cong[of "B\<lparr>b_g := g\<rparr>" B E] by (simp add: builder_ok_def grows_def)
qed (use assms in simp_all)

lemma builder_ok_node:
  assumes "builder_ok E B" "n \<noteq> null" "createCCPGNode u n (b_g B) = (p, g)"
  shows "builder_ok E (B\<lparr>b_g := g\<rparr>) \<and> grows (b_g B) g \<and> p \<in> set (g_nodes g) \<and> nd_cpg (nodeH g p) = n \<and>
    g_functions g = g_functions (b_g B)"
proof -
  have "ccpg_ok (b_g B)" using assms(1) by (simp add: builder_ok_def)
  note C = createCCPGNode_ok[OF this assms(2,3)]
  then have "builder_ok E (B\<lparr>b_g := g\<rparr>)" by (intro builder_ok_graph[OF assms(1)]) auto
  with C show ?thesis by blast
qed

lemma funcNode_unique:
  assumes "ccpg_ok g" "f \<in> set (g_functions g)" "n \<in> set (g_nodes g)"
    "nd_id (nodeH g (fn_funcNode (funH g f))) = nd_id (nodeH g n)"
  shows "fn_funcNode (funH g f) = n"
  using ccpg_okD(4)[OF assms(1)] ccpg_okD(7)[OF assms(1,2)] assms(3,4) by (metis option.inject)

lemma createFunction_ok:
  assumes ok: "builder_ok E B" and n: "n \<in> set (g_nodes (b_g B))" and c: "createFunction E n B = Some (f, B')"
  shows "builder_ok E B' \<and> grows (b_g B) (b_g B') \<and> f \<in> set (g_functions (b_g B')) \<and> fn_funcNode (funH (b_g B') f) = n"
proof (cases "getFunctionByCCPGNode (b_g B) n = null")
  case True
  from createFunction_new[OF ok n True c] show ?thesis by (elim conjE) (intro conjI, simp_all)
next
  case False
  have gok: "ccpg_ok (b_g B)" using ok by (simp add: builder_ok_def)
  from False c have "B' = B" "IDToFunction (b_g B) (nd_id (nodeH (b_g B) n)) = Some f"
    by (auto simp: createFunction_def getFunctionByCCPGNode_def split: option.splits)
  with ok funcNode_unique[OF gok _ n] ccpg_okD(8)[OF gok] show ?thesis by simp
qed

lemma createFunction_run:
  assumes "run_ok E B" "n \<in> set (g_nodes (b_g B))" "createFunction E n B = Some (f, B')"
  shows "run_ok E B' \<and> grows (b_g B) (b_g B') \<and> f \<in> set (g_functions (b_g B')) \<and> fn_funcNode (funH (b_g B') f) = n"
  using createFunction_ok[of E B n f B'] ctx.createFunction_keeps[OF _ assms(3)] calls.createFunction_keeps[OF _ assms(3)]
    assms by (simp add: run_ok_def)

lemma hasCallEdge_callsOf: "hasCallEdge g n = None \<longleftrightarrow> callsOf g n = []"
  by (auto simp: hasCallEdge_def callsOf_def find_None_iff filter_empty_conv)

lemma handleContext_parts [simp]: "g_functions (handleContext c f g) = g_functions g"
  "nextPtr (handleContext c f g) = nextPtr g" "nodeH (handleContext c f g) = nodeH g"
  "fn_nodes (funH (handleContext c f g) k) = fn_nodes (funH g k)"
  "fn_edges (funH (handleContext c f g) k) = fn_edges (funH g k)"
  "fn_typeToNodeSet (funH (handleContext c f g) k) = fn_typeToNodeSet (funH g k)"
  "fn_funcNode (funH (handleContext c f g) k) = fn_funcNode (funH g k)"
  by (simp_all add: handleContext_def Let_def)

lemma edge_ok:
  assumes ok: "run_ok E B" and f: "f \<in> set (g_functions (b_g B))" "fn_funcNode (funH (b_g B) f) = d"
    and free: "ty = CALL \<Longrightarrow> callsOf (b_g B) c = []"
  shows "run_ok E (B\<lparr>b_g := createCCPGEdge c d ty (b_g B)\<rparr>) \<and> grows (b_g B) (createCCPGEdge c d ty (b_g B))"
proof -
  let ?g = "createCCPGEdge c d ty (b_g B)"
  have S: "skel ?g = skel (b_g B)" by simp
  have gr: "grows (b_g B) ?g" by (rule grows_skel[OF S[symmetric]])
  have gok: "ccpg_ok ?g" using ok ccpg_ok_skel[OF S] by (simp add: run_ok_def builder_ok_def)
  have "builder_ok E (B\<lparr>b_g := ?g\<rparr>)"
    by (rule builder_ok_graph[OF _ gok gr]) (use ok in \<open>simp_all add: run_ok_def\<close>)
  moreover have "contexts_empty ?g" using ok by (simp add: run_ok_def contexts_empty_def)
  moreover have "calls_ok {} ?g"
    using ok f free unfolding run_ok_def calls_ok_def by (cases "ty = CALL") (auto simp: callsOf_edge)
  ultimately show ?thesis using gr by (simp add: run_ok_def)
qed

lemma context_ok:
  assumes ok: "run_ok E B"
  shows "run_ok E (B\<lparr>b_g := handleContext c f (b_g B)\<rparr>) \<and> grows (b_g B) (handleContext c f (b_g B))"
proof -
  let ?g = "handleContext c f (b_g B)"
  have S: "skel ?g = skel (b_g B)" by simp
  have gr: "grows (b_g B) ?g" by (rule grows_skel[OF S[symmetric]])
  have gok: "ccpg_ok ?g" using ok ccpg_ok_skel[OF S] by (simp add: run_ok_def builder_ok_def)
  have "builder_ok E (B\<lparr>b_g := ?g\<rparr>)"
    by (rule builder_ok_graph[OF _ gok gr]) (use ok in \<open>simp_all add: run_ok_def\<close>)
  moreover have "contexts_empty ?g" using ok by (intro handleContext_empty) (simp add: run_ok_def)
  moreover have "calls_ok {} ?g" using ok by (simp add: run_ok_def calls_ok_def callsOf_def)
  ultimately show ?thesis using gr by (simp add: run_ok_def)
qed

lemma link_ok:
  assumes ok: "run_ok E B" and f: "f \<in> set (g_functions (b_g B))" "fn_funcNode (funH (b_g B) f) = d"
    and free: "ty = CALL \<Longrightarrow> callsOf (b_g B) c = []"
  shows "run_ok E (B\<lparr>b_g := handleContext c f (createCCPGEdge c d ty (b_g B))\<rparr>) \<and>
    grows (b_g B) (handleContext c f (createCCPGEdge c d ty (b_g B)))"
  using edge_ok[OF assms] context_ok[of E "B\<lparr>b_g := createCCPGEdge c d ty (b_g B)\<rparr>" c f]
  by (auto intro: grows_trans)

lemma createFunctionByCaller_ok:
  assumes ok: "run_ok E B" and free: "callsOf (b_g B) n = []" and c: "createFunctionByCaller E n B = Some (f, B')"
  shows "run_ok E B' \<and> grows (b_g B) (b_g B') \<and> (f \<noteq> null \<longrightarrow> f \<in> set (g_functions (b_g B')))"
proof -
  have none: "hasCallEdge (b_g B) n = None" using free by (simp add: hasCallEdge_callsOf)
  have "calleeMethod E (b_g B) n \<noteq> Throw"
    using c none by (auto simp: createFunctionByCaller_def findCalleeByCaller_def)
  then obtain m where m: "calleeMethod E (b_g B) n = Ok m" by (cases "calleeMethod E (b_g B) n") auto
  obtain callee g where node: "createCCPGNode (be_util E) m (b_g B) = (callee, g)" by fastforce
  have c': "(if callee = null then Some (null, B\<lparr>b_g := g\<rparr>) else case createFunction E callee (B\<lparr>b_g := g\<rparr>) of None \<Rightarrow> None
      | Some (f, B2) \<Rightarrow> Some (f, B2\<lparr>b_g := handleContext n f (createCCPGEdge n callee CALL (b_g B2))\<rparr>)) = Some (f, B')"
    using c none m node by (simp add: createFunctionByCaller_def findCalleeByCaller_def)
  show ?thesis
  proof (cases "m = null")
    case True
    then have "callee = null" "g = b_g B" using node by (simp_all add: createCCPGNode_def)
    with c' ok show ?thesis by auto
  next
    case False
    have bok: "builder_ok E B" using ok by (simp add: run_ok_def)
    note N = builder_ok_node[OF bok False node]
    have gok: "ccpg_ok g" using N by (simp add: builder_ok_def)
    have "callee \<noteq> null" using ccpg_okD(3)[OF gok, of callee] N by auto
    with c' obtain B2 where cf: "createFunction E callee (B\<lparr>b_g := g\<rparr>) = Some (f, B2)"
      and B': "B' = B2\<lparr>b_g := handleContext n f (createCCPGEdge n callee CALL (b_g B2))\<rparr>"
      by (auto split: option.splits)
    have Z: "calls_ok {n} (b_g B)" using ok free by (simp add: run_ok_def calls_ok_def)
    have g: "g = snd (createCCPGNode (be_util E) m (b_g B))" using node by simp
    have r1: "run_ok E (B\<lparr>b_g := g\<rparr>)" using N ok g ctx.node calls.node by (simp add: run_ok_def)
    have z1: "calls_ok {n} g" using calls.node[OF Z] g by simp
    have r2: "run_ok E B2 \<and> grows g (b_g B2) \<and> f \<in> set (g_functions (b_g B2)) \<and> fn_funcNode (funH (b_g B2) f) = callee"
      using createFunction_run[OF r1 _ cf] N by simp
    have "calls_ok {n} (b_g B2)" using calls.createFunction_keeps[OF _ cf, of "{n}"] z1 by simp
    then have "callsOf (b_g B2) n = []" by (simp add: calls_ok_def)
    then have "run_ok E B'" "grows (b_g B2) (b_g B')" using link_ok[of E B2 f callee CALL n] r2 by (simp_all add: B')
    moreover have "f \<in> set (g_functions (b_g B'))" using r2 by (simp add: B')
    ultimately show ?thesis using N r2 grows_trans by blast
  qed
qed

text \<open>The state of the expansion: a consistent builder that grew from a start, and known functions.\<close>

definition expandInv :: "build_env \<Rightarrow> ccpg \<Rightarrow> builder \<times> ptr list \<Rightarrow> bool" where
  "expandInv E g0 = (\<lambda>(B, new). run_ok E B \<and> grows g0 (b_g B) \<and> set new \<subseteq> set (g_functions (b_g B)))"

lemma grows_functions: "grows g g' \<Longrightarrow> set (g_functions g) \<subseteq> set (g_functions g')"
  by (simp add: grows_def)

lemma expandCall_ok:
  assumes "expandInv E g0 st" "expandCall E n st = Some st'"
  shows "expandInv E g0 st'"
proof -
  obtain B new where st: "st = (B, new)" by fastforce
  show ?thesis
  proof (cases "hasCallEdge (b_g B) n = None")
    case True
    with assms(2) obtain f B1 where c: "createFunctionByCaller E n B = Some (f, B1)"
      and st': "st' = (B1, if f = null then new else new @ [f])"
      by (auto simp: expandCall_def st split: option.splits)
    from createFunctionByCaller_ok[OF _ _ c] assms(1) True
    have "run_ok E B1" "grows (b_g B) (b_g B1)" "f \<noteq> null \<longrightarrow> f \<in> set (g_functions (b_g B1))"
      by (simp_all add: expandInv_def st hasCallEdge_callsOf)
    with assms(1) grows_functions[of "b_g B" "b_g B1"] grows_trans[of g0 "b_g B" "b_g B1"]
    show ?thesis by (auto simp: expandInv_def st st')
  qed (use assms in \<open>auto simp: expandCall_def st\<close>)
qed

lemma expandFork_ok:
  assumes "expandInv E g0 st" "expandFork E n st = Some st'"
  shows "expandInv E g0 st'"
proof -
  obtain B new where st: "st = (B, new)" by fastforce
  obtain m where m: "findThreadEntryInCPG E (b_g B) n = Ok m"
    using assms(2) by (cases "findThreadEntryInCPG E (b_g B) n") (auto simp: expandFork_def st)
  show ?thesis
  proof (cases "m = null")
    case False
    obtain p g where node: "createCCPGNode (be_util E) m (b_g B) = (p, g)" by fastforce
    with assms(2) m False obtain f B1 where c: "createFunction E p (B\<lparr>b_g := g\<rparr>) = Some (f, B1)"
      and st': "st' = (B1\<lparr>b_g := handleContext n f (createCCPGEdge n p HB (b_g B1))\<rparr>, new @ [f])"
      by (auto simp: expandFork_def st split: option.splits)
    have ok: "run_ok E B" using assms(1) by (simp add: expandInv_def st)
    then have "builder_ok E B" by (simp add: run_ok_def)
    note N = builder_ok_node[OF this False node]
    have g: "g = snd (createCCPGNode (be_util E) m (b_g B))" using node by simp
    have r1: "run_ok E (B\<lparr>b_g := g\<rparr>)" using N ok g ctx.node calls.node by (simp add: run_ok_def)
    from createFunction_run[OF r1 _ c] N
    have r2: "run_ok E B1" "grows g (b_g B1)" "f \<in> set (g_functions (b_g B1))" "fn_funcNode (funH (b_g B1) f) = p"
      by simp_all
    note L = link_ok[OF r2(1,3,4), of HB n]
    from N L have gr: "grows (b_g B) (b_g (fst st'))" unfolding st' using grows_trans r2(2) by fastforce
    show ?thesis
      using L gr assms(1) grows_functions[OF gr] grows_trans[of g0 "b_g B" "b_g (fst st')"] r2(3)
      by (auto simp: expandInv_def st st')
  qed (use assms m in \<open>auto simp: expandFork_def st\<close>)
qed

lemma expandVisit_ok:
  assumes "run_ok E B" "grows g0 (b_g B)" "set q \<subseteq> set (g_functions (b_g B))"
    "expandVisit E f (B, visited) = Some (new, B', visited')"
  shows "run_ok E B' \<and> grows g0 (b_g B') \<and> set (q @ new) \<subseteq> set (g_functions (b_g B'))"
proof (cases "f \<in> set visited")
  case True
  with assms show ?thesis by (simp add: expandVisit_def)
next
  case False
  with assms(4) obtain B1 q1 B2 q2 where
    1: "foldM (expandCall E) (fn_typeToNodeSet (funH (b_g B) f) OBJECT_INIT) (B, []) = Some (B1, q1)" and
    2: "foldM (expandCall E) (fn_typeToNodeSet (funH (b_g B1) f) OTHER_CALL) (B1, q1) = Some (B2, q2)" and
    3: "foldM (expandFork E) (fn_typeToNodeSet (funH (b_g B2) f) FORK) (B2, q2) = Some (B', new)"
    by (auto simp: expandVisit_def split: option.splits)
  let ?I = "expandInv E (b_g B)"
  have "?I (B, [])" using assms(1) by (simp add: expandInv_def)
  then have "?I (B1, q1)" using foldM_invariant[OF 1, of ?I] expandCall_ok by blast
  then have "?I (B2, q2)" using foldM_invariant[OF 2, of ?I] expandCall_ok by blast
  then have "?I (B', new)" using foldM_invariant[OF 3, of ?I] expandFork_ok by blast
  with assms grows_functions[of "b_g B" "b_g B'"] grows_trans[of g0 "b_g B" "b_g B'"]
  show ?thesis by (auto simp: expandInv_def)
qed

lemma expandAll_ok:
  assumes "run_ok E B" "set q \<subseteq> set (g_functions (b_g B))" "expandAll E q B = Some B'"
  shows "run_ok E B' \<and> grows (b_g B) (b_g B')"
proof -
  from assms(3) obtain st where w: "worklist (expandVisit E) q (B, []) = Some st" and B': "B' = fst st"
    by (auto simp: expandAll_def)
  let ?I = "\<lambda>st q. run_ok E (fst st) \<and> grows (b_g B) (b_g (fst st)) \<and> set q \<subseteq> set (g_functions (b_g (fst st)))"
  have "?I st []"
  proof (rule worklist_invariant[OF w, where I = ?I])
    show "?I (B, []) q" using assms(1,2) by simp
  next
    fix s a r new s'
    assume I: "?I s (a # r)" and v: "expandVisit E a s = Some (new, s')"
    obtain C vis where s: "s = (C, vis)" by fastforce
    obtain C' vis' where s': "s' = (C', vis')" by fastforce
    from expandVisit_ok[of E C "b_g B" r a vis new C' vis'] I v
    show "?I s' (r @ new)" by (simp add: s s')
  qed
  with B' show ?thesis by simp
qed

subsection \<open>Functions that may create threads\<close>

definition callerOf :: "ccpg \<Rightarrow> ptr \<Rightarrow> ptr \<Rightarrow> bool" where
  "callerOf g f c \<longleftrightarrow> c \<in> set (getCallers g f)"

lemma getCallers_setFork [simp]: "getCallers (updFun f (\<lambda>fn. fn\<lparr>forkPotential := b\<rparr>) g) k = getCallers g k"
  by (simp add: getCallers_def updFun_def)

definition forkFacts :: "ccpg \<Rightarrow> ptr set \<Rightarrow> ccpg \<Rightarrow> ptr list \<Rightarrow> bool" where
  "forkFacts g0 S g q \<longleftrightarrow> (\<forall>f. getCallers g f = getCallers g0 f) \<and>
     (\<exists>M. g = g0\<lparr>funH := (\<lambda>f. (funH g0 f)\<lparr>forkPotential := (f \<in> M)\<rparr>)\<rparr> \<and>
        S \<subseteq> M \<union> set q \<and> (\<forall>f \<in> M \<union> set q. \<exists>s \<in> S. (callerOf g0)\<^sup>*\<^sup>* s f) \<and>
        (\<forall>f \<in> M. \<forall>c. callerOf g0 f c \<longrightarrow> c \<in> M \<union> set q))"

lemma forkFacts_step:
  assumes "forkFacts g0 S g (f # r)" "forkVisit f g = Some (new, g')"
  shows "forkFacts g0 S g' (r @ new)"
proof -
  from assms(1) obtain M where c: "\<forall>f. getCallers g f = getCallers g0 f"
    and g: "g = g0\<lparr>funH := (\<lambda>f. (funH g0 f)\<lparr>forkPotential := (f \<in> M)\<rparr>)\<rparr>"
    and M: "S \<subseteq> M \<union> set (f # r)" "\<forall>k \<in> M \<union> set (f # r). \<exists>s \<in> S. (callerOf g0)\<^sup>*\<^sup>* s k"
      "\<forall>k \<in> M. \<forall>c. callerOf g0 k c \<longrightarrow> c \<in> M \<union> set (f # r)"
    unfolding forkFacts_def by (elim conjE exE) (rule that, assumption+)
  show ?thesis
  proof (cases "f \<in> M")
    case True
    then have "new = []" "g' = g" using assms(2) g by (simp_all add: forkVisit_def)
    with True c M show ?thesis unfolding forkFacts_def by (intro conjI exI[of _ M]) (use g in auto)
  next
    case False
    let ?g1 = "updFun f (\<lambda>fn. fn\<lparr>forkPotential := True\<rparr>) g"
    have g': "g' = ?g1" and new: "new = filter (\<lambda>c. \<not> forkPotential (funH ?g1 c)) (getCallers g0 f)"
      using assms(2) False g c by (auto simp: forkVisit_def Let_def)
    have eq: "g' = g0\<lparr>funH := (\<lambda>k. (funH g0 k)\<lparr>forkPotential := (k \<in> insert f M)\<rparr>)\<rparr>"
      unfolding g' g updFun_def by (auto simp: fun_eq_iff)
    have set_new: "set new = {c. callerOf g0 f c \<and> c \<notin> insert f M}"
      unfolding new g'[symmetric] eq by (auto simp: callerOf_def)
    from M(2) obtain s where s: "s \<in> S" "(callerOf g0)\<^sup>*\<^sup>* s f" by auto
    have "\<forall>k \<in> insert f M \<union> set (r @ new). \<exists>s \<in> S. (callerOf g0)\<^sup>*\<^sup>* s k"
    proof
      fix k assume "k \<in> insert f M \<union> set (r @ new)"
      then consider "k \<in> M \<union> set (f # r)" | "callerOf g0 f k" using set_new by auto
      then show "\<exists>s \<in> S. (callerOf g0)\<^sup>*\<^sup>* s k"
        using M(2) s by cases (blast intro: rtranclp.rtrancl_into_rtrancl)+
    qed
    moreover have "S \<subseteq> insert f M \<union> set (r @ new)" using M(1) by auto
    moreover have "\<forall>k \<in> insert f M. \<forall>c. callerOf g0 k c \<longrightarrow> c \<in> insert f M \<union> set (r @ new)"
      using M(3) set_new by auto
    moreover have "\<forall>k. getCallers g' k = getCallers g0 k" using c g' by simp
    ultimately show ?thesis unfolding forkFacts_def using eq by blast
  qed
qed

interpretation forkLoop: work_queue forkVisit "\<lambda>g. card {f \<in> U. \<not> forkPotential (funH g f)}"
  "\<lambda>g q. finite U \<and> set q \<subseteq> U \<and> (\<forall>f \<in> U. set (getCallers g f) \<subseteq> U)" for U
proof
  fix g f r assume I: "finite U \<and> set (f # r) \<subseteq> U \<and> (\<forall>f \<in> U. set (getCallers g f) \<subseteq> U)"
  show "\<exists>new s'. forkVisit f g = Some (new, s') \<and>
      (finite U \<and> set (r @ new) \<subseteq> U \<and> (\<forall>f \<in> U. set (getCallers s' f) \<subseteq> U)) \<and>
      (card {f \<in> U. \<not> forkPotential (funH s' f)} < card {f \<in> U. \<not> forkPotential (funH g f)} \<or>
       card {f \<in> U. \<not> forkPotential (funH s' f)} \<le> card {f \<in> U. \<not> forkPotential (funH g f)} \<and> new = [])"
  proof (cases "forkPotential (funH g f)")
    case True
    with I show ?thesis by (simp add: forkVisit_def)
  next
    case False
    let ?g1 = "updFun f (\<lambda>fn. fn\<lparr>forkPotential := True\<rparr>) g"
    have "{k \<in> U. \<not> forkPotential (funH ?g1 k)} \<subset> {k \<in> U. \<not> forkPotential (funH g k)}"
      using False I by (auto simp: updFun_def)
    then have "card {k \<in> U. \<not> forkPotential (funH ?g1 k)} < card {k \<in> U. \<not> forkPotential (funH g k)}"
      using I by (intro psubset_card_mono) auto
    with False I show ?thesis by (auto simp: forkVisit_def Let_def)
  qed
qed

lemma labelForkPotential_exact:
  assumes "\<forall>f. \<not> forkPotential (funH g f)" "labelForkPotential g = Some g'"
  shows "forkPotential (funH g' f) \<longleftrightarrow>
    (\<exists>s \<in> set (g_functions g). fn_typeToNodeSet (funH g s) FORK \<noteq> [] \<and> (callerOf g)\<^sup>*\<^sup>* s f)"
proof -
  let ?q = "filter (\<lambda>f. fn_typeToNodeSet (funH g f) FORK \<noteq> []) (g_functions g)"
  have w: "worklist forkVisit ?q g = Some g'" using assms(2) by (simp add: labelForkPotential_def)
  have g: "g = g\<lparr>funH := (\<lambda>f. (funH g f)\<lparr>forkPotential := (f \<in> {})\<rparr>)\<rparr>"
  proof -
    have "(funH g f)\<lparr>forkPotential := False\<rparr> = funH g f" for f using assms(1) by (intro func.equality) simp_all
    then show ?thesis by simp
  qed
  have "forkFacts g (set ?q) g ?q"
    unfolding forkFacts_def by (intro conjI allI refl exI[of _ "{}"]) (use g in auto)
  then have F: "forkFacts g (set ?q) g' []" by (rule worklist_invariant[OF w]) (rule forkFacts_step)
  then obtain M where M: "g' = g\<lparr>funH := (\<lambda>f. (funH g f)\<lparr>forkPotential := (f \<in> M)\<rparr>)\<rparr>"
    "set ?q \<subseteq> M" "\<forall>f \<in> M. \<exists>s \<in> set ?q. (callerOf g)\<^sup>*\<^sup>* s f" "\<forall>f \<in> M. \<forall>c. callerOf g f c \<longrightarrow> c \<in> M"
    unfolding forkFacts_def by auto
  have "f \<in> M" if "(callerOf g)\<^sup>*\<^sup>* s f" "s \<in> set ?q" for s
    using that M(2,4) by induction auto
  with M(3) have "f \<in> M \<longleftrightarrow> (\<exists>s \<in> set ?q. (callerOf g)\<^sup>*\<^sup>* s f)" by blast
  moreover have "forkPotential (funH g' f) \<longleftrightarrow> f \<in> M" by (simp add: M(1))
  ultimately show ?thesis by auto
qed

lemma labelForkPotential_returns:
  assumes "\<forall>f \<in> set (g_functions g). set (getCallers g f) \<subseteq> set (g_functions g)"
  shows "labelForkPotential g \<noteq> None"
proof -
  let ?q = "filter (\<lambda>f. fn_typeToNodeSet (funH g f) FORK \<noteq> []) (g_functions g)"
  have "finite (set (g_functions g)) \<and> set ?q \<subseteq> set (g_functions g) \<and>
      (\<forall>f \<in> set (g_functions g). set (getCallers g f) \<subseteq> set (g_functions g))" using assms by auto
  from forkLoop.returns[OF this] show ?thesis by (auto simp: labelForkPotential_def)
qed

end
