(* ===== verification/CpgProps.thy ===== *)
theory CpgProps
  imports Cpg
begin

text \<open>
  Properties of the lookups in the code property graph (src/CPG/CPG.cpp): which method a
  name stands for, and which spellings of a compiled function are tried.
\<close>

subsection \<open>A small graph\<close>

text \<open>
  Node 1 is a declaration of \<open>probe\<close>, node 2 its stub, node 3 its definition and node 4 the
  definition of a system call.
\<close>

definition sampleMethod :: "string \<Rightarrow> string \<Rightarrow> cpg_node" where
  "sampleMethod name code = mkNode ''Method'' [''NAME'' \<mapsto> name, ''CODE'' \<mapsto> code] 0"

definition sampleHeap :: cpg_heap where
  "sampleHeap p = (if p = 1 then sampleMethod ''probe'' ''<empty>'' else if p = 2 then sampleMethod ''probe'' ''int probe()''
     else if p = 3 then sampleMethod ''probe'' ''int probe() {}'' else if p = 4 then sampleMethod ''__se_sys_read'' ''{}''
     else mkNode ''Method_return'' (\<lambda>_. None) 0)"

definition sampleCpg :: cpg where
  "sampleCpg = \<lparr>outCFGEdges = (\<lambda>p. if p = 2 then [5] else [6, 7]), outEdgesOf = (\<lambda>_. []), inEdgesOf = (\<lambda>_. []),
     argumentEdges = (\<lambda>_. []), conditionEdges = (\<lambda>_. []), id2Node = (\<lambda>_. None), mainNodes = [],
     type2Nodes = (\<lambda>ty. if ty = ''Method'' then Some [1, 2, 3, 4] else None), file2Methods = []\<rparr>"

subsection \<open>Properties\<close>

text \<open>C29. A lookup by name returns a defined method, one with code whose control flow is more
  than a single step to the return node, of the first spelling that has one.  Without any, it
  returns the method that has some code and one of the spellings, and the null pointer exactly
  when there is none.\<close>

theorem find_method_exact:
  assumes "type2Nodes C ''Method'' = Some ms" "null \<notin> set ms"
  shows "let defined = (\<lambda>cand m. getName (H m) = cand \<and> getCode (H m) \<noteq> ''<empty>'' \<and> \<not> isStubMethodNode H C m);
         coded = (\<lambda>m. getName (H m) \<in> set (allNameCandidates name) \<and> getCode (H m) \<noteq> ''<empty>'' \<and> getCode (H m) \<noteq> []);
         found = findMethod H C name
    in if \<exists>m \<in> set ms. \<exists>cand \<in> set (allNameCandidates name). defined cand m
       then found \<in> set ms \<and> (\<exists>pre cand post. allNameCandidates name = pre @ cand # post \<and> defined cand found \<and>
              (\<forall>c \<in> set pre. \<forall>m \<in> set ms. \<not> defined c m))
       else (found = null \<longleftrightarrow> \<not> (\<exists>m \<in> set ms. coded m)) \<and> (found \<noteq> null \<longrightarrow> found \<in> set ms \<and> coded found)"
proof (cases "\<exists>m \<in> set ms. \<exists>cand \<in> set (allNameCandidates name). fullMethod H C cand m")
  case True
  from findMethod_full[OF assms True] True show ?thesis unfolding Let_def fullMethod_def by simp
next
  case False
  have f: "findMethod H C name = astOnly H ms (allNameCandidates name)"
    by (rule findMethod_fallback[OF assms(1) False])
  have "findMethod H C name = null \<longleftrightarrow> \<not> (\<exists>m \<in> set ms. getName (H m) \<in> set (allNameCandidates name) \<and>
      getCode (H m) \<noteq> ''<empty>'' \<and> getCode (H m) \<noteq> [])"
    unfolding f using astOnly_null[OF assms(2)] by blast
  moreover have "findMethod H C name \<noteq> null \<Longrightarrow> findMethod H C name \<in> set ms \<and>
      getName (H (findMethod H C name)) \<in> set (allNameCandidates name) \<and>
      getCode (H (findMethod H C name)) \<noteq> ''<empty>'' \<and> getCode (H (findMethod H C name)) \<noteq> []"
    by (rule astOnly_sound[OF assms(2) f[symmetric]])
  ultimately show ?thesis using False unfolding Let_def fullMethod_def by (subst if_not_P) blast+
qed

lemma hd_in_prefix: "hd xs = x \<Longrightarrow> xs = pre @ c # post \<Longrightarrow> c \<noteq> x \<Longrightarrow> x \<in> set pre"
  by (cases pre) auto

theorem find_method_exact_witness:
  "findMethod sampleHeap sampleCpg ''probe'' = 3"
proof -
  have "type2Nodes sampleCpg ''Method'' = Some [1, 2, 3, 4]" "null \<notin> set [1, 2, 3, 4 :: ptr]"
    by (simp_all add: sampleCpg_def)
  note R = find_method_exact[OF this, of sampleHeap "''probe''", unfolded Let_def]
  have n: "''probe'' \<in> set (allNameCandidates ''probe'')" using allNameCandidates_hd by (metis hd_in_set)
  have d3: "getName (sampleHeap 3) = ''probe'' \<and> getCode (sampleHeap 3) \<noteq> ''<empty>'' \<and>
      \<not> isStubMethodNode sampleHeap sampleCpg 3"
    by (simp add: sampleHeap_def sampleMethod_def getName_def getCode_def getProperty_def mkNode_def isStubMethodNode_def sampleCpg_def)
  then have "\<exists>m \<in> set [1, 2, 3, 4]. \<exists>cand \<in> set (allNameCandidates ''probe''). getName (sampleHeap m) = cand \<and>
      getCode (sampleHeap m) \<noteq> ''<empty>'' \<and> \<not> isStubMethodNode sampleHeap sampleCpg m" using n by auto
  from R[unfolded if_P[OF this]] obtain pre cand post where
    r: "findMethod sampleHeap sampleCpg ''probe'' \<in> {1, 2, 3, 4}"
      "allNameCandidates ''probe'' = pre @ cand # post"
      "getName (sampleHeap (findMethod sampleHeap sampleCpg ''probe'')) = cand"
      "getCode (sampleHeap (findMethod sampleHeap sampleCpg ''probe'')) \<noteq> ''<empty>''"
      "\<not> isStubMethodNode sampleHeap sampleCpg (findMethod sampleHeap sampleCpg ''probe'')"
      "\<forall>c \<in> set pre. \<forall>m \<in> {1, 2, 3, 4}. \<not> (getName (sampleHeap m) = c \<and>
         getCode (sampleHeap m) \<noteq> ''<empty>'' \<and> \<not> isStubMethodNode sampleHeap sampleCpg m)"
    by auto
  have "findMethod sampleHeap sampleCpg ''probe'' \<noteq> 1" "findMethod sampleHeap sampleCpg ''probe'' \<noteq> 2"
    using r(4,5) by (auto simp: sampleHeap_def sampleMethod_def getCode_def getProperty_def mkNode_def getType_cpg_def
      toLower_def lower_code isStubMethodNode_def sampleCpg_def)
  moreover have "findMethod sampleHeap sampleCpg ''probe'' \<noteq> 4"
  proof
    assume "findMethod sampleHeap sampleCpg ''probe'' = 4"
    with r(3) have "cand \<noteq> ''probe''" by (auto simp: sampleHeap_def sampleMethod_def getName_def getProperty_def mkNode_def)
    from hd_in_prefix[OF allNameCandidates_hd(1) r(2) this] have "''probe'' \<in> set pre" .
    from bspec[OF bspec[OF r(6) this], of 3] d3 show False by simp
  qed
  ultimately show ?thesis using r(1) by blast
qed

text \<open>The base name is among the spellings tried for a decorated compiled name: a name
  followed by a dot and any sequence of the compiler's suffixes, and a name behind any of the
  system-call prefixes.  The name itself is tried first and none is tried twice.\<close>

theorem decorated_names_resolve:
  assumes "CHR ''.'' \<notin> set base" "base \<noteq> []" "decorations (splitDots suffix)" "p \<in> set syscallPrefixes"
  shows "base \<in> set (allNameCandidates (base @ CHR ''.'' # suffix)) \<and>
     base \<in> set (allNameCandidates (p @ base)) \<and>
     hd (allNameCandidates name) = name \<and> distinct (allNameCandidates name)"
  using candidates_stripped[of "base @ CHR ''.'' # suffix"] stripSuffix_decorated[OF assms(1,3)]
    candidates_base[of "p @ base"] syscallBase_prefix[OF assms(4,2)]
    allNameCandidates_hd[of name] allNameCandidates_distinct[of name] by simp

theorem decorated_names_resolve_witness:
  "''probe'' \<in> set (allNameCandidates ''probe.isra.0.cold'') \<and>
   ''probe'' \<in> set (allNameCandidates ''__x64_sys_probe'')"
  using decorated_names_resolve[of "''probe''" "''isra.0.cold''" "''__x64_sys_''"]
  by (simp add: digitsOnly_def isDigit_def syscallPrefixes_def)

end
