(* ===== verification/BuildProps.thy ===== *)
theory BuildProps
  imports RunFacts CpgProps
begin

text \<open>
  Properties of the construction of the code graph (src/CCPG/CCPG.cpp) and of the mapping of
  its methods to compiled functions (src/CCPG/AliasChecker.cpp), each with a witness on a
  closed input where it has hypotheses.
\<close>

subsection \<open>A small program\<close>

text \<open>Method 1 whose control flow goes to node 2; its graph node 1 exists, its function does not.\<close>

definition tinyHeap :: cpg_heap where
  "tinyHeap p = (if p = 1 then sampleMethod ''main'' ''int main()'' else mkNode ''CALL'' [''NAME'' \<mapsto> ''spin_lock''] 1)"

definition tinyCpg :: cpg where
  "tinyCpg = \<lparr>outCFGEdges = (\<lambda>p. if p = 1 then [2] else []), outEdgesOf = (\<lambda>_. []), inEdgesOf = (\<lambda>_. []),
     argumentEdges = (\<lambda>_. []), conditionEdges = (\<lambda>_. []), id2Node = (\<lambda>_. None), mainNodes = [1],
     type2Nodes = (\<lambda>ty. if ty = ''Method'' then Some [1] else None), file2Methods = []\<rparr>"

definition tinyEnv :: build_env where
  "tinyEnv = \<lparr>be_util = \<lparr>threadAPIMap = [''spin_lock'' \<mapsto> ACQUIRE], entryArgIndexMap = Map.empty\<rparr>, be_cpg = tinyCpg,
     be_parse = (\<lambda>s. [s]), be_normal = id, be_normalize = id, be_target = [], be_demangle = id, be_defs = [],
     be_module = \<lparr>m_functions = [], m_globals = [], m_stores = [], m_const = (\<lambda>_. OtherConst), m_addr = (\<lambda>_. OtherAddr)\<rparr>,
     be_callInsts = (\<lambda>_. []), be_callees = (\<lambda>_. []), be_aliases = (\<lambda>_ _. False), be_loadPointer = (\<lambda>_. None),
     be_env = (\<lambda>_. None), be_agent = (\<lambda>_. None), be_main = \<lparr>ei_function = [], ei_file = [], ei_line = 0\<rparr>,
     be_entries = [], be_rootEntries = [], be_apiEntries = (\<lambda>_. [])\<rparr>"

definition emptyGraph :: "cpg_heap \<Rightarrow> ccpg" where
  "emptyGraph H = \<lparr>cpgH = H,
     nodeH = (\<lambda>_. \<lparr>nd_id = 0, nd_type = DUMMY, nd_cpg = null, nd_in = [], nd_out = [], nd_loc = emptyLoc,
       nd_function = null, nd_order = 0, nd_callSite = False, nd_callInst = None\<rparr>),
     funH = (\<lambda>_. newFunction null), nextPtr = 1, g_nodes = [], g_edges = [], g_functions = [],
     g_typeToNodeSet = (\<lambda>_. []), IDToCCPGNode = (\<lambda>_. None), IDToFunction = (\<lambda>_. None),
     cpgNodeToCCPGNodeMap = (\<lambda>_. None), locToNodeSetMap = []\<rparr>"

definition emptyBuilder :: "cpg_heap \<Rightarrow> builder" where
  "emptyBuilder H = \<lparr>b_g = emptyGraph H, findChildrenCache = (\<lambda>_. None), entryFunctions = [], nextCpg = 100,
     syntheticEntryNodes = []\<rparr>"

lemma emptyGraph_ok: "ccpg_ok (emptyGraph H)" "contexts_empty (emptyGraph H)" "calls_ok {} (emptyGraph H)"
  by (simp_all add: emptyGraph_def ccpg_ok_def contexts_empty_def newFunction_def calls_ok_def callsOf_def)

lemma emptyBuilder_run: "cfg_ok E \<Longrightarrow> run_ok E (emptyBuilder H)"
proof -
  assume "cfg_ok E"
  moreover have "g_functions (emptyGraph H) = []" by (simp add: emptyGraph_def)
  moreover have "childCache.cache_ok E (emptyBuilder H)" by (simp add: childCache.cache_ok_def emptyBuilder_def)
  ultimately show ?thesis
    using emptyGraph_ok by (simp add: run_ok_def builder_ok_def) (simp add: emptyBuilder_def)
qed

lemma tiny_cfg: "cfg_ok tinyEnv" "cfg_universe (outCFGEdges (be_cpg tinyEnv)) {1, 2}"
  by (simp_all add: cfg_ok_def cfg_universe_def tinyEnv_def tinyCpg_def)

definition tinyBuilder :: builder where
  "tinyBuilder = (emptyBuilder tinyHeap)\<lparr>b_g := snd (createCCPGNode (be_util tinyEnv) 1 (emptyGraph tinyHeap))\<rparr>"

lemma tinyBuilder_run: "run_ok tinyEnv tinyBuilder"
  "1 \<in> set (g_nodes (b_g tinyBuilder))" "nd_cpg (nodeH (b_g tinyBuilder) 1) = 1" "cpgH (b_g tinyBuilder) = tinyHeap"
  "getFunctionByCCPGNode (b_g tinyBuilder) 1 = null"
proof -
  obtain p g where c: "createCCPGNode (be_util tinyEnv) 1 (emptyGraph tinyHeap) = (p, g)" by fastforce
  have b: "b_g (emptyBuilder tinyHeap) = emptyGraph tinyHeap" by (simp add: emptyBuilder_def)
  note r = emptyBuilder_run[OF tiny_cfg(1), of tinyHeap]
  then have "builder_ok tinyEnv (emptyBuilder tinyHeap)" by (simp add: run_ok_def)
  note N = builder_ok_node[OF this, of 1 "be_util tinyEnv" p g, unfolded b, OF _ c]
  have g: "g = snd (createCCPGNode (be_util tinyEnv) 1 (emptyGraph tinyHeap))" using c by simp
  have t: "tinyBuilder = (emptyBuilder tinyHeap)\<lparr>b_g := g\<rparr>" unfolding tinyBuilder_def g ..
  show "run_ok tinyEnv tinyBuilder"
    using N r ctx.node[of "emptyGraph tinyHeap"] calls.node[of "{}" "emptyGraph tinyHeap"] emptyGraph_ok g
    by (simp add: run_ok_def t)
  have new: "cpgNodeToCCPGNodeMap (emptyGraph tinyHeap) 1 = None" by (simp add: emptyGraph_def)
  note C = createCCPGNode_new[OF _ new c]
  have "p = 1" using C(1) by (simp add: emptyGraph_def)
  with N show "1 \<in> set (g_nodes (b_g tinyBuilder))" "nd_cpg (nodeH (b_g tinyBuilder) 1) = 1" by (simp_all add: t)
  show "cpgH (b_g tinyBuilder) = tinyHeap" using C(5) by (simp add: t emptyGraph_def)
  show "getFunctionByCCPGNode (b_g tinyBuilder) 1 = null"
    using C(7) by (simp add: t getFunctionByCCPGNode_def emptyGraph_def)
qed

lemma tiny_lines: "lines_ok tinyHeap U"
  by (simp add: lines_ok_def tinyHeap_def sampleMethod_def mkNode_def getLineNumber_def)

subsection \<open>Nodes and functions\<close>

text \<open>The children of a node are exactly the concurrency-relevant nodes other than itself
  that control flow reaches from it through irrelevant nodes only, each listed once.  The
  search returns on every finite control-flow graph, cyclic or not, and the cache never
  changes an answer.\<close>

theorem children_exact:
  assumes "cfg_universe (outCFGEdges (be_cpg E)) U" "n \<in> U" "childCache.cache_ok E B"
  shows "\<exists>cs B'. findChildren E n B = Some (cs, B') \<and> distinct cs \<and>
    set cs = {m. through (outCFGEdges (be_cpg E)) (\<lambda>k. isCCPGNode (be_util E) (cpgH (b_g B) k)) n m \<and>
                 isCCPGNode (be_util E) (cpgH (b_g B) m) \<and> m \<noteq> n} \<and>
    childCache.cache_ok E B' \<and> b_g B' = b_g B"
proof -
  obtain cs B' where c: "findChildren E n B = Some (cs, B')" using findChildren_returns[OF assms(1,2), of B] by auto
  from findChildren_facts[OF assms(3) c] c show ?thesis by (simp add: kids_def children_of_def)
qed

theorem children_exact_witness:
  "\<exists>cs B'. findChildren tinyEnv 1 tinyBuilder = Some (cs, B') \<and> distinct cs"
  using children_exact[OF tiny_cfg(2), of 1 tinyBuilder] tinyBuilder_run(1) by (auto simp: run_ok_def builder_ok_def)

text \<open>C11. Creating the function of a method returns on every finite control-flow graph whose line
  numbers are numbers.  The function holds exactly the nodes of the method and of the
  concurrency-relevant code its control flow reaches; its edges are exactly the order edges
  from these nodes to their children, and its type index is exact.  Every function created
  before is unchanged.\<close>

theorem function_exact:
  assumes "builder_ok E B" "fnode \<in> set (g_nodes (b_g B))" "getFunctionByCCPGNode (b_g B) fnode = null"
    "cfg_universe (outCFGEdges (be_cpg E)) U" "nd_cpg (nodeH (b_g B) fnode) \<in> U" "lines_ok (cpgH (b_g B)) U"
  shows "\<exists>f B'. createFunction E fnode B = Some (f, B') \<and> builder_ok E B' \<and>
    (let g = b_g B'; fn = funH g f; cpg = (\<lambda>p. nd_cpg (nodeH g p)); m = nd_cpg (nodeH (b_g B) fnode);
         keep = (\<lambda>n. isCCPGNode (be_util E) (cpgH (b_g B) n)); cfg = outCFGEdges (be_cpg E)
     in cpg ` set (fn_nodes fn) = insert m {n. keep n \<and> flow cfg m n} \<and>
        edge_cpg g ` set (fn_edges fn) = {(a, b). a \<in> cpg ` set (fn_nodes fn) \<and> b \<in> children_of cfg keep a} \<and>
        (\<forall>e \<in> set (fn_edges fn). e_type e = ORDER) \<and>
        (\<forall>ty. set (fn_typeToNodeSet fn ty) = {p \<in> set (fn_nodes fn). nd_type (nodeH g p) = ty}) \<and>
        (\<forall>k \<in> set (g_functions (b_g B)). funH g k = funH (b_g B) k))"
proof -
  obtain f B' where c: "createFunction E fnode B = Some (f, B')"
    using createFunction_returns[OF assms(1,2,4,5,6)] by blast
  note N = createFunction_new[OF assms(1,2,3) c]
  have gok: "ccpg_ok (b_g B)" using assms(1) by (simp add: builder_ok_def)
  have X: "functionExact E (b_g B') f" using N by (simp add: builder_ok_def)
  have H: "cpgH (b_g B') = cpgH (b_g B)" using N by (simp add: grows_def)
  have "nd_cpg (nodeH (b_g B') fnode) = nd_cpg (nodeH (b_g B) fnode)" using grows_cpg(1)[OF gok _ assms(2)] N by blast
  moreover have "\<forall>k \<in> set (g_functions (b_g B)). funH (b_g B') k = funH (b_g B) k"
  proof
    fix k assume "k \<in> set (g_functions (b_g B))"
    from ccpg_okD(7)[OF gok this] N have "k \<noteq> f" by auto
    with N show "funH (b_g B') k = funH (b_g B) k" by blast
  qed
  moreover have "fn_funcNode (funH (b_g B') f) = fnode" using N by blast
  ultimately show ?thesis using c N X H unfolding functionExact_def Let_def by auto
qed

theorem function_exact_witness:
  "\<exists>f B'. createFunction tinyEnv 1 tinyBuilder = Some (f, B') \<and> builder_ok tinyEnv B'"
  using function_exact[of tinyEnv tinyBuilder 1 "{1, 2}"] tinyBuilder_run tiny_cfg(2) tiny_lines
  unfolding run_ok_def by auto

text \<open>C12. Expanding the entries keeps the graph consistent whenever it returns: node ids are
  distinct and at most the number of nodes, the indexes by id, by code node and by type hold
  exactly the nodes, every function holds exactly what its method reaches, and a node has at
  most one call edge, which leads to the node of a function.\<close>

theorem expansion_consistent:
  assumes "run_ok E B" "set q \<subseteq> set (g_functions (b_g B))" "expandAll E q B = Some B'"
  shows "let g = b_g B' in
    inj_on (\<lambda>p. nd_id (nodeH g p)) (set (g_nodes g)) \<and>
    (\<forall>p \<in> set (g_nodes g). 1 \<le> nd_id (nodeH g p) \<and> nd_id (nodeH g p) \<le> length (g_nodes g) \<and>
       IDToCCPGNode g (nd_id (nodeH g p)) = Some p \<and> cpgNodeToCCPGNodeMap g (nd_cpg (nodeH g p)) = Some p) \<and>
    (\<forall>ty. set (g_typeToNodeSet g ty) = {p \<in> set (g_nodes g). nd_type (nodeH g p) = ty}) \<and>
    (\<forall>f \<in> set (g_functions g). functionExact E g f) \<and>
    (\<forall>n. callsOf g n = [] \<or> (\<exists>e f. callsOf g n = [e] \<and> f \<in> set (g_functions g) \<and> fn_funcNode (funH g f) = e_dst e))"
proof -
  have R: "run_ok E B'" using expandAll_ok[OF assms] by blast
  then have ok: "ccpg_ok (b_g B')" by (simp add: run_ok_def builder_ok_def)
  note K = ccpg_okD[OF ok]
  have "inj_on (\<lambda>p. nd_id (nodeH (b_g B') p)) (set (g_nodes (b_g B')))"
    by (rule inj_onI) (metis K(4) option.inject)
  moreover have "\<forall>p \<in> set (g_nodes (b_g B')). IDToCCPGNode (b_g B') (nd_id (nodeH (b_g B') p)) = Some p \<and>
      cpgNodeToCCPGNodeMap (b_g B') (nd_cpg (nodeH (b_g B') p)) = Some p" using K(4,5) by blast
  moreover have "\<forall>f \<in> set (g_functions (b_g B')). functionExact E (b_g B') f" using R by (simp add: run_ok_def builder_ok_def)
  moreover have "\<forall>n. callsOf (b_g B') n = [] \<or>
      (\<exists>e f. callsOf (b_g B') n = [e] \<and> f \<in> set (g_functions (b_g B')) \<and> fn_funcNode (funH (b_g B') f) = e_dst e)"
    using R unfolding run_ok_def calls_ok_def by blast
  ultimately show ?thesis using K(3,6) unfolding Let_def by blast
qed

theorem expansion_consistent_witness:
  "expandAll tinyEnv [] tinyBuilder = Some tinyBuilder \<and> IDToCCPGNode (b_g tinyBuilder) (nd_id (nodeH (b_g tinyBuilder) 1)) = Some 1"
  using expansion_consistent[OF tinyBuilder_run(1), of "[]" tinyBuilder] tinyBuilder_run(2)
  by (simp add: expandAll_def Let_def)

text \<open>C17. No function ever gets a context: contexts are only made by extending the contexts of
  the caller, and a new function has none, so the context sets every later analysis iterates
  over are empty.\<close>

theorem contexts_stay_empty:
  assumes "run_ok E B" "set q \<subseteq> set (g_functions (b_g B))" "expandAll E q B = Some B'"
  shows "fn_contexts (funH (b_g B') f) = []"
  using expandAll_ok[OF assms] by (simp add: run_ok_def contexts_empty_def)

theorem contexts_stay_empty_witness: "fn_contexts (funH (b_g tinyBuilder) 7) = []"
  using contexts_stay_empty[OF tinyBuilder_run(1), of "[]" tinyBuilder 7] by (simp add: expandAll_def)

text \<open>When callers are known functions, the marking returns, and a function is marked exactly
  when a function with a thread creation is reachable from it along calls: the marks are the
  closure of the functions with a creation site under the caller relation.\<close>

theorem fork_potential_exact:
  assumes "\<forall>f. \<not> forkPotential (funH g f)"
    "\<forall>f \<in> set (g_functions g). set (getCallers g f) \<subseteq> set (g_functions g)"
  shows "\<exists>g'. labelForkPotential g = Some g' \<and>
    (\<forall>f. forkPotential (funH g' f) \<longleftrightarrow>
       (\<exists>s \<in> set (g_functions g). fn_typeToNodeSet (funH g s) FORK \<noteq> [] \<and> (\<lambda>a c. c \<in> set (getCallers g a))\<^sup>*\<^sup>* s f))"
proof -
  obtain g' where g': "labelForkPotential g = Some g'" using labelForkPotential_returns[OF assms(2)] by auto
  have c: "callerOf g = (\<lambda>a c. c \<in> set (getCallers g a))" by (simp add: fun_eq_iff callerOf_def)
  from labelForkPotential_exact[OF assms(1) g'] g' show ?thesis unfolding c by auto
qed

theorem fork_potential_exact_witness:
  "\<exists>g'. labelForkPotential (emptyGraph tinyHeap) = Some g' \<and> \<not> forkPotential (funH g' 3)"
  using fork_potential_exact[of "emptyGraph tinyHeap"] by (auto simp: emptyGraph_def newFunction_def)

subsection \<open>The compiled function of a method\<close>

text \<open>The compiled function of a method is a definition whose demangled name, or the last
  component of it, is the method's name.  A candidate in the method's file within three lines
  wins, the first in the module's order; without one, when all candidates carry debug
  information, one with the least score wins.\<close>

theorem function_mapping:
  assumes "getLineNumber n = Ok line"
  shows "\<exists>r. findLLVMFunction E n = Ok r \<and>
    (\<forall>d. r = Some d \<longrightarrow> d \<in> set (be_defs E) \<and> llvmNameMatch E (getName n) d) \<and>
    (if \<exists>d \<in> set (be_defs E). exactMatch E (getName n) (getFileName n) line d
     then r = List.find (exactMatch E (getName n) (getFileName n) line) (be_defs E)
     else (\<forall>d \<in> set (be_defs E). llvmNameMatch E (getName n) d \<longrightarrow> ld_sub d \<noteq> None) \<longrightarrow>
       (\<forall>d \<in> set (be_defs E). llvmNameMatch E (getName n) d \<longrightarrow> scored E (getFileName n) line d < intMax \<longrightarrow>
          (\<exists>e. r = Some e \<and> scored E (getFileName n) line e \<le> scored E (getFileName n) line d)))"
proof -
  let ?r = "mapScan E (getName n) (getFileName n) line (be_defs E) (None, intMax)"
  have r: "findLLVMFunction E n = Ok ?r" using assms(1) by (simp add: findLLVMFunction_def)
  have s: "\<forall>d. ?r = Some d \<longrightarrow> d \<in> set (be_defs E) \<and> llvmNameMatch E (getName n) d"
    using mapScan_sound by fastforce
  show ?thesis
  proof (cases "\<exists>d \<in> set (be_defs E). exactMatch E (getName n) (getFileName n) line d")
    case True
    with r s mapScan_exact[OF True] show ?thesis by simp
  next
    case False
    have "\<exists>e. ?r = Some e \<and> scored E (getFileName n) line e \<le> scored E (getFileName n) line d"
      if "\<forall>d \<in> set (be_defs E). llvmNameMatch E (getName n) d \<longrightarrow> ld_sub d \<noteq> None" "d \<in> set (be_defs E)"
        "llvmNameMatch E (getName n) d" "scored E (getFileName n) line d < intMax" for d
      using False that by (intro mapScan_least) auto
    with False r s show ?thesis by auto
  qed
qed

text \<open>A module with two functions of one name: one in the method's file ten lines away, one in
  another file whose debug information has no line.\<close>

definition twoDefs :: "llvm_def list" where
  "twoDefs = [\<lparr>ld_name = ''probe'', ld_declaration = False, ld_sub = Some (''a.c'', 20)\<rparr>,
     \<lparr>ld_name = ''probe'', ld_declaration = False, ld_sub = Some (''b.c'', 0)\<rparr>]"

definition twoEnv :: build_env where "twoEnv = tinyEnv\<lparr>be_defs := twoDefs\<rparr>"

definition probeNode :: cpg_node where
  "probeNode = mkNode ''METHOD'' [''NAME'' \<mapsto> ''probe'', ''FILENAME'' \<mapsto> ''a.c'', ''LINE_NUMBER'' \<mapsto> ''10''] 1"

lemma probeNode_sel: "getLineNumber probeNode = Ok 10" "getName probeNode = ''probe''" "getFileName probeNode = ''a.c''"
  by (simp_all add: probeNode_def mkNode_def getLineNumber_def getName_def getFileName_def getProperty_def, code_simp)

lemma twoEnv_match:
  "llvmFileMatch twoEnv ''a.c'' ''a.c''" "\<not> llvmFileMatch twoEnv ''a.c'' ''b.c''"
  "be_defs twoEnv = twoDefs" "be_demangle twoEnv = id"
  by (simp_all add: llvmFileMatch_def twoEnv_def tinyEnv_def likelySameFile_def filename_def)

lemma twoEnv_names: "llvmNameMatch twoEnv ''probe'' d \<longleftrightarrow> d \<in> set twoDefs" if "d \<in> set twoDefs"
  using that by (auto simp: llvmNameMatch_def twoDefs_def twoEnv_match)

theorem function_mapping_witness:
  "\<exists>r. findLLVMFunction twoEnv probeNode = Ok r \<and> (\<forall>d. r = Some d \<longrightarrow> d \<in> set twoDefs)"
  using function_mapping[OF probeNode_sel(1), of twoEnv] by (auto simp: twoEnv_match)

text \<open>C28. A candidate in another file without a line outranks every candidate in the method's own
  file that is more than three lines away: the score of the former, a thousand more than the
  largest 32-bit integer, overflows and becomes the least.\<close>

theorem unlocated_candidate_wins:
  assumes "getLineNumber n = Ok line" "line \<le> intMax"
    "\<forall>d \<in> set (be_defs E). \<not> exactMatch E (getName n) (getFileName n) line d"
    "\<forall>d \<in> set (be_defs E). llvmNameMatch E (getName n) d \<longrightarrow> (\<exists>f l. ld_sub d = Some (f, l) \<and> l \<le> intMax)"
    "d \<in> set (be_defs E)" "llvmNameMatch E (getName n) d" "ld_sub d = Some (f, 0)" "\<not> llvmFileMatch E (getFileName n) f"
  shows "\<exists>e f' l'. findLLVMFunction E n = Ok (Some e) \<and> ld_sub e = Some (f', l') \<and> \<not> llvmFileMatch E (getFileName n) f'"
proof -
  let ?s = "scored E (getFileName n) line"
  have d: "?s d = wrap32 (1000 + intMax)" using assms(7,8) by (simp add: scored_def llvmScore_def lineDelta_def)
  then have neg: "?s d < 0" by (simp add: wrap32_def intMax_def)
  have "\<exists>e. mapScan E (getName n) (getFileName n) line (be_defs E) (None, intMax) = Some e \<and> ?s e \<le> ?s d"
    by (rule mapScan_least) (use assms neg in \<open>auto simp: intMax_def\<close>)
  then obtain e where e: "mapScan E (getName n) (getFileName n) line (be_defs E) (None, intMax) = Some e" "?s e < 0"
    using neg by force
  from mapScan_sound[OF e(1)] have "e \<in> set (be_defs E)" "llvmNameMatch E (getName n) e" by simp_all
  with assms(4) obtain f' l' where sub: "ld_sub e = Some (f', l')" "l' \<le> intMax" by blast
  have "0 \<le> lineDelta line l'" "lineDelta line l' \<le> intMax"
    using assms(2) sub(2) by (auto simp: lineDelta_def intMax_def)
  then have "wrap32 (lineDelta line l') = lineDelta line l'" by (simp add: wrap32_def intMax_def)
  then have "\<not> llvmFileMatch E (getFileName n) f'"
    using e(2) sub(1) \<open>0 \<le> lineDelta line l'\<close> by (auto simp: scored_def llvmScore_def)
  with e(1) sub(1) assms(1) show ?thesis by (auto simp: findLLVMFunction_def)
qed

theorem unlocated_candidate_wins_witness:
  "\<exists>e f' l'. findLLVMFunction twoEnv probeNode = Ok (Some e) \<and> ld_sub e = Some (f', l') \<and>
     \<not> llvmFileMatch twoEnv ''a.c'' f'"
  by (rule unlocated_candidate_wins[of probeNode 10 twoEnv "twoDefs ! 1" "''b.c''", unfolded probeNode_sel(2,3)])
    (auto simp: probeNode_sel twoEnv_match twoEnv_names exactMatch_def intMax_def lineDelta_def twoDefs_def)

end
