(* ===== verification/ThreadBuild.thy ===== *)
theory ThreadBuild
  imports ThreadTree CcpgBuild
begin

text \<open>
  The construction of the thread-creation tree (src/CCPG/ThreadCreationTree.cpp): a thread
  for every entry function and for every thread-creation site reached from them, the
  functions and nodes each thread runs, the matching of join sites, and the relations
  between threads that the pair count records.  As for the code graph, an operation that
  does not return (a conversion throws, a null pointer is dereferenced, or a loop has no
  end) gives \<open>None\<close>.
\<close>

subsection \<open>State\<close>

record tstate =
  ts_B :: builder
  ts_T :: tct
  ts_next :: ptr

definition newThread :: "nat \<Rightarrow> ptr \<Rightarrow> ptr \<Rightarrow> thread" where
  "newThread i fork par = \<lparr>th_id = i, th_nodes = [], th_edges = [], forkNode = fork, joinNode = null, parent = par,
     children = [], th_typeToNodeSet = (\<lambda>_. []), th_functions = [], threadMainFunction = null,
     isMainThread = False, isKernelEntry = False, isReentrant = False\<rparr>"

definition updThread :: "ptr \<Rightarrow> (thread \<Rightarrow> thread) \<Rightarrow> tct \<Rightarrow> tct" where
  "updThread t h T = T\<lparr>threadH := (threadH T)(t := h (threadH T t))\<rparr>"

definition thread_addEdge :: "ccpg_edge \<Rightarrow> thread \<Rightarrow> thread" where
  "thread_addEdge e t = t\<lparr>th_edges := List.insert e (th_edges t)\<rparr>"

definition thread_addChild :: "ptr \<Rightarrow> thread \<Rightarrow> thread" where
  "thread_addChild c t = t\<lparr>children := List.insert c (children t)\<rparr>"

subsection \<open>One thread\<close>

text \<open>A creation site that already has a thread, as the same node or at the same file and line.\<close>

definition sameForkSite :: "ccpg \<Rightarrow> ptr \<Rightarrow> ptr \<Rightarrow> bool" where
  "sameForkSite g n m \<longleftrightarrow> m \<noteq> null \<and> nd_type (nodeH g m) = FORK \<and>
     fileName (nd_loc (nodeH g n)) = fileName (nd_loc (nodeH g m)) \<and>
     lineNumber (nd_loc (nodeH g n)) = lineNumber (nd_loc (nodeH g m))"

definition knownFork :: "ccpg \<Rightarrow> tct \<Rightarrow> ptr \<Rightarrow> bool" where
  "knownFork g T n \<longleftrightarrow> list_ex (\<lambda>t. forkNode (thr T t) = n) (threads T) \<or>
     list_ex (\<lambda>t. sameForkSite g n (forkNode (thr T t))) (threads T)"

text \<open>A thread that already runs the method.\<close>

definition mainMethod :: "ccpg \<Rightarrow> tct \<Rightarrow> ptr \<Rightarrow> ptr" where
  "mainMethod g T t =
     (let f = threadMainFunction (thr T t) in
      if f = null then null else if fn_funcNode (funH g f) = null then null
      else nd_cpg (nodeH g (fn_funcNode (funH g f))))"

definition knownEntry :: "ccpg \<Rightarrow> tct \<Rightarrow> ptr \<Rightarrow> bool" where
  "knownEntry g T m \<longleftrightarrow> list_ex (\<lambda>t. mainMethod g T t = m) (threads T)"

text \<open>One call node: its callee is queued, and created when the call has no edge yet.\<close>

definition threadCall :: "build_env \<Rightarrow> ptr \<Rightarrow> builder \<times> thread \<times> ptr list \<Rightarrow> (builder \<times> thread \<times> ptr list) option" where
  "threadCall E n = (\<lambda>(B, t, new).
     (case hasCallEdge (b_g B) n of
        Some e \<Rightarrow> Some (B, thread_addEdge e t, new @ [getFunctionByCCPGNode (b_g B) (e_dst e)])
      | None \<Rightarrow>
          (case findCalleeByCaller E n B of
             None \<Rightarrow> None
           | Some (callee, B1) \<Rightarrow>
               if callee = null then Some (B1, t, new)
               else case createFunction E callee B1 of
                 None \<Rightarrow> None
               | Some (f, B2) \<Rightarrow>
                   Some (B2\<lparr>b_g := createCCPGEdge n callee CALL (b_g B2)\<rparr>,
                     thread_addEdge \<lparr>e_src = n, e_dst = callee, e_type = CALL\<rparr> t, new @ [f]))))"

definition threadVisit :: "build_env \<Rightarrow> ptr \<Rightarrow> builder \<times> thread \<times> ptr list \<Rightarrow>
    (ptr list \<times> builder \<times> thread \<times> ptr list) option" where
  "threadVisit E f = (\<lambda>(B, t, visited).
     (if f \<in> set visited then Some ([], B, t, visited)
      else if f = null then None
      else case foldM (threadCall E) (fn_typeToNodeSet (funH (b_g B) f) OBJECT_INIT)
                  (B, thread_addFunction (funH (b_g B) f) f t, []) of
        None \<Rightarrow> None
      | Some (B1, t1, q1) \<Rightarrow>
          (case foldM (threadCall E) (fn_typeToNodeSet (funH (b_g B1) f) OTHER_CALL) (B1, t1, q1) of
             None \<Rightarrow> None
           | Some (B2, t2, q2) \<Rightarrow> Some (q2, B2, t2, f # visited))))"

text \<open>After the walk the nodes of its functions are entered once more, with their types.\<close>

definition collectNodes :: "ccpg \<Rightarrow> thread \<Rightarrow> thread" where
  "collectNodes g t =
     fold (\<lambda>f t. fold thread_addEdge (fn_edges (funH g f))
                   (fold (\<lambda>n. thread_addNode (nd_type (nodeH g n)) n) (fn_nodes (funH g f)) t))
       (th_functions t) t"

definition runThread :: "build_env \<Rightarrow> ptr \<Rightarrow> ptr \<Rightarrow> ptr \<Rightarrow> tstate \<Rightarrow> (ptr \<times> tstate) option" where
  "runThread E fork par fnode S =
     (let t = ts_next S; T = ts_T S in
      case createFunction E fnode (ts_B S) of
        None \<Rightarrow> None
      | Some (f, B1) \<Rightarrow>
          (case worklist (threadVisit E) [f]
              (B1, (newThread (length (threads T)) fork par)\<lparr>threadMainFunction := f\<rparr>, []) of
             None \<Rightarrow> None
           | Some (B2, th, vis) \<Rightarrow>
               Some (t, \<lparr>ts_B = B2, ts_T = addThread t (updThread t (\<lambda>_. collectNodes (b_g B2) th) T), ts_next = Suc t\<rparr>)))"

text \<open>A parent of null stands for an entry; the null result is a creation site without a new thread.\<close>

definition createThread :: "build_env \<Rightarrow> ptr \<Rightarrow> ptr \<Rightarrow> tstate \<Rightarrow> (ptr \<times> tstate) option" where
  "createThread E fork par S =
     (let g = b_g (ts_B S) in
      if par = null then runThread E fork null fork S
      else if knownFork g (ts_T S) fork then Some (null, S)
      else case findThreadEntryInCPG E g fork of
        Throw \<Rightarrow> None
      | Ok m \<Rightarrow>
          if m = null \<or> knownEntry g (ts_T S) m then Some (null, S)
          else let (fnode, g1) = createCCPGNode (be_util E) m g
               in runThread E fork par fnode
                    (S\<lparr>ts_B := (ts_B S)\<lparr>b_g := g1\<rparr>,
                       ts_T := updThread par (thread_addChild (ts_next S)) (ts_T S)\<rparr>))"

subsection \<open>The tree\<close>

definition entryFlags :: "bool \<Rightarrow> bool \<Rightarrow> func \<Rightarrow> thread \<Rightarrow> thread" where
  "entryFlags manual kmode entry t = t\<lparr>isMainThread := True, isKernelEntry := kmode \<or> isKernelEntry t,
     isReentrant := (manual \<or> (case fn_llvm entry of Some n \<Rightarrow> isReentrantEntryName n | None \<Rightarrow> False)) \<or> isReentrant t\<rparr>"

definition forksOf :: "tct \<Rightarrow> ptr \<Rightarrow> (ptr \<times> ptr) list" where
  "forksOf T t = map (\<lambda>n. (n, t)) (th_typeToNodeSet (thr T t) FORK)"

definition buildEntry :: "build_env \<Rightarrow> bool \<Rightarrow> bool \<Rightarrow> ptr \<Rightarrow> tstate \<times> (ptr \<times> ptr) list \<Rightarrow>
    (tstate \<times> (ptr \<times> ptr) list) option" where
  "buildEntry E manual kmode entry = (\<lambda>(S, q).
     (case createThread E (fn_funcNode (funH (b_g (ts_B S)) entry)) null S of
        None \<Rightarrow> None
      | Some (t, S1) \<Rightarrow>
          (let T = updThread t (entryFlags manual kmode (funH (b_g (ts_B S1)) entry)) (ts_T S1)
           in Some (S1\<lparr>ts_T := T\<rparr>, q @ forksOf T t))))"

text \<open>The queue of creation sites is served at most 100 times.\<close>

fun forkRounds :: "build_env \<Rightarrow> nat \<Rightarrow> (ptr \<times> ptr) list \<Rightarrow> tstate \<Rightarrow> tstate option" where
  "forkRounds E 0 q S = Some S"
| "forkRounds E (Suc k) [] S = Some S"
| "forkRounds E (Suc k) ((n, p) # q) S =
     (case createThread E n p S of
        None \<Rightarrow> None
      | Some (t, S1) \<Rightarrow> forkRounds E k (if t = null then q else q @ forksOf (ts_T S1) t) S1)"

definition buildTree :: "build_env \<Rightarrow> config \<Rightarrow> tstate \<Rightarrow> tstate option" where
  "buildTree E cfg S =
     (let entries = entryFunctions (ts_B S); manual = enabled cfg; kmode = (length entries > 1 \<or> manual) in
      case foldM (buildEntry E manual kmode) entries (S, []) of
        None \<Rightarrow> None
      | Some (S1, q) \<Rightarrow>
          (case forkRounds E 100 q S1 of
             None \<Rightarrow> None
           | Some S2 \<Rightarrow>
               if kmode then Some S2
               else Some (S2\<lparr>ts_T := (ts_T S2)\<lparr>threads :=
                 filter (\<lambda>t. \<not> (parent (thr (ts_T S2) t) = null \<and> children (thr (ts_T S2) t) = [])) (threads (ts_T S2))\<rparr>\<rparr>)))"

subsection \<open>Join sites\<close>

definition removeAmpersand :: "string \<Rightarrow> string" where
  "removeAmpersand s = filter (\<lambda>c. c \<noteq> CHR ''&'') s"

text \<open>The code of the first argument of a call; a call without one is dereferenced as null.\<close>

definition handleName :: "build_env \<Rightarrow> ccpg \<Rightarrow> ptr \<Rightarrow> string option" where
  "handleName E g n =
     (case getArgument (cpgH g) (be_cpg E) (nd_cpg (nodeH g n)) 1 of
        Throw \<Rightarrow> None
      | Ok a \<Rightarrow> if a = null then None else Some (removeAmpersand (getCode (cpgH g a))))"

definition isForked :: "ccpg \<Rightarrow> tct \<Rightarrow> ptr \<Rightarrow> bool" where
  "isForked g T t \<longleftrightarrow> nd_type (nodeH g (forkNode (thr T t))) = FORK"

definition joinScore :: "build_env \<Rightarrow> ccpg \<Rightarrow> ptr \<Rightarrow> ptr \<Rightarrow> int option" where
  "joinScore E g fork join =
     (case (handleName E g join, handleName E g fork) of
        (Some j, Some f) \<Rightarrow>
          Some ((if nd_function (nodeH g join) = nd_function (nodeH g fork) then 2 else 0) + (if j = f then 1 else 0))
      | _ \<Rightarrow> None)"

definition joinCandidate :: "build_env \<Rightarrow> ccpg \<Rightarrow> tct \<Rightarrow> ptr \<Rightarrow> ptr \<Rightarrow> (ptr \<times> int) list \<Rightarrow> (ptr \<times> int) list option" where
  "joinCandidate E g T join t cs =
     (if \<not> isForked g T t \<or> \<not> isThreadAlias E g (forkNode (thr T t)) join then Some cs
      else case joinScore E g (forkNode (thr T t)) join of None \<Rightarrow> None | Some s \<Rightarrow> Some (cs @ [(t, s)]))"

text \<open>The head of the list sorted by decreasing score.\<close>

fun bestCandidate :: "(ptr \<times> int) list \<Rightarrow> ptr" where
  "bestCandidate [] = null"
| "bestCandidate [(t, s)] = t"
| "bestCandidate ((t, s) # (u, r) # cs) = (if r > s then bestCandidate ((u, r) # cs) else bestCandidate ((t, s) # cs))"

text \<open>The map from threads to join sites; a thread outside it has no entry.\<close>

definition assignJoin :: "build_env \<Rightarrow> ccpg \<Rightarrow> tct \<Rightarrow> ptr \<Rightarrow> (ptr \<Rightarrow> ptr option) \<Rightarrow> (ptr \<Rightarrow> ptr option) option" where
  "assignJoin E g T join M =
     (case foldM (joinCandidate E g T join) (threads T) [] of
        None \<Rightarrow> None
      | Some cs \<Rightarrow>
          Some (if cs = [] then M
                else if M (bestCandidate cs) = Some null then M(bestCandidate cs \<mapsto> join) else M))"

definition supplyJoin :: "build_env \<Rightarrow> ccpg \<Rightarrow> tct \<Rightarrow> (ptr \<Rightarrow> ptr option) \<Rightarrow> ptr \<Rightarrow> ptr option" where
  "supplyJoin E g T M t =
     (case M t of
        Some j \<Rightarrow>
          Some (if j \<noteq> null then j
                else case List.find (\<lambda>n. isThreadAlias E g n (forkNode (thr T t))) (getNodesByType g JOIN) of
                       Some n \<Rightarrow> n | None \<Rightarrow> null)
      | None \<Rightarrow> None)"

definition handleJoins :: "build_env \<Rightarrow> ccpg \<Rightarrow> tct \<Rightarrow> tct option" where
  "handleJoins E g T =
     (let M0 = (\<lambda>t. if t \<in> set (threads T) \<and> isForked g T t then Some null else None) in
      case foldM (assignJoin E g T) (getNodesByType g JOIN) M0 of
        None \<Rightarrow> None
      | Some M \<Rightarrow> Some (T\<lparr>threadH := (\<lambda>t. case supplyJoin E g T M t of
            Some j \<Rightarrow> (thr T t)\<lparr>joinNode := j\<rparr> | None \<Rightarrow> thr T t)\<rparr>))"

subsection \<open>How two threads are related\<close>

text \<open>
  The call chains are cut by the fuel; no value means that, or that the first of no chains
  is taken, which the code leaves undefined.
\<close>

definition pathNode :: "ccpg \<Rightarrow> tct \<Rightarrow> ptr \<Rightarrow> ptr list \<Rightarrow> nat \<Rightarrow> ptr" where
  "pathNode g T t path d =
     (if d = length path then forkNode (thr T t) else getCallSiteInFunction g (path ! (d - 1)) (path ! d))"

definition isSibling :: "nat \<Rightarrow> ccpg \<Rightarrow> tct \<Rightarrow> ptr \<Rightarrow> ptr \<Rightarrow> bool option" where
  "isSibling k g T t1 t2 =
     (let p = parent (thr T t1) in
      if p \<noteq> parent (thr T t2) \<or> p = null then Some False
      else let main = threadMainFunction (thr T p);
               fun_of = (\<lambda>t. nd_function (nodeH g (forkNode (thr T t))))
           in case (getAllCallPaths k g (fun_of t1) main, getAllCallPaths k g (fun_of t2) main) of
                (Some (p1 # _), Some (p2 # _)) \<Rightarrow>
                  (let d = commonDepth p1 p2 in
                   if d = 0 then None
                   else let lca = findLCA g (pathNode g T t1 p1 d) (pathNode g T t2 p2 d)
                        in Some (lca \<noteq> null \<and> nd_type (nodeH g lca) \<noteq> BRANCH))
              | _ \<Rightarrow> None)"

partial_function (option) parentChain :: "tct \<Rightarrow> ptr \<Rightarrow> ptr list option" where
  "parentChain T p = (if p = null then Some [] else Option.bind (parentChain T (parent (thr T p))) (\<lambda>c. Some (p # c)))"

definition isIndirectSibling :: "tct \<Rightarrow> ptr \<Rightarrow> ptr \<Rightarrow> bool option" where
  "isIndirectSibling T t1 t2 =
     (case (parentChain T (parent (thr T t1)), parentChain T (parent (thr T t2))) of
        (Some c1, Some c2) \<Rightarrow> Some (list_ex (\<lambda>p. p \<in> set c2) c1)
      | _ \<Rightarrow> None)"

definition relatePair :: "nat \<Rightarrow> ccpg \<Rightarrow> ptr \<times> ptr \<Rightarrow> tct \<Rightarrow> tct option" where
  "relatePair k g = (\<lambda>(t1, t2) T.
     Option.bind (isDescendant T t1 t2) (\<lambda>d1.
     if d1 then Some (addParallelThreadPairs t1 t2 ''descendant'' T)
     else Option.bind (isDescendant T t2 t1) (\<lambda>d2.
     if d2 then Some (addParallelThreadPairs t2 t1 ''descendant'' T)
     else if parent (thr T t1) \<noteq> null \<and> parent (thr T t1) = parent (thr T t2)
     then Option.bind (isSibling k g T t1 t2) (\<lambda>s.
       Some (addParallelThreadPairs t1 t2 (if s then ''sibling'' else ''indirect sibling'') T))
     else Option.bind (isIndirectSibling T t1 t2) (\<lambda>s.
       Some (if s then addParallelThreadPairs t1 t2 ''indirect sibling'' T else T)))))"

fun pairsOf :: "'a list \<Rightarrow> ('a \<times> 'a) list" where
  "pairsOf [] = []"
| "pairsOf (x # xs) = map (Pair x) xs @ pairsOf xs"

definition countParallelThreadPairs :: "nat \<Rightarrow> ccpg \<Rightarrow> tct \<Rightarrow> tct option" where
  "countParallelThreadPairs k g T = foldM (relatePair k g) (pairsOf (threads T)) T"

end
