(* ===== verification/EntryDiscovery.thy ===== *)
theory EntryDiscovery
  imports ThreadBuild
begin

text \<open>
  The discovery of the entry functions and the construction as a whole
  (src/CCPG/CCPG.cpp): the main function, the listed or configured thread roots with the
  fallbacks for their names, the callbacks in constant tables and the callbacks stored into
  registration structs, and the sequence of all phases up to the matching of join sites.
  What the code reads of the compiled module is the field \<open>be_module\<close> of the environment.
\<close>

subsection \<open>Callback tables\<close>

definition typeNameMatches :: "string list \<Rightarrow> string \<Rightarrow> bool" where
  "typeNameMatches ps s \<longleftrightarrow>
     list_ex (\<lambda>p. s = p \<or> length p + 1 < length s \<and> s ! length p = CHR ''.'' \<and> startsWith s p) ps"

definition p8aIsCallbackTableTypeName :: "string \<Rightarrow> bool" where
  "p8aIsCallbackTableTypeName = typeNameMatches
     [''struct.attribute_group'', ''struct.device_attribute'', ''struct.driver_attribute'',
      ''struct.bus_attribute'', ''struct.class_attribute'', ''struct.kobj_attribute'', ''struct.bin_attribute'',
      ''struct.file_operations'', ''struct.kernfs_ops'', ''struct.proc_ops'', ''struct.seq_operations'',
      ''struct.dev_pm_ops'', ''struct.platform_driver'', ''struct.bus_type'', ''struct.device_driver'',
      ''struct.notifier_block'', ''struct.net_proto_family'', ''struct.proto_ops'', ''struct.ethtool_ops'',
      ''struct.net_device_ops'', ''struct.nfnl_callback'', ''struct.tty_operations'', ''struct.iio_info'',
      ''struct.regmap_bus'', ''struct.nft_object_type'', ''struct.nft_expr_ops'', ''struct.nft_chain_type'']"

definition p9aIsCallbackHostTypeName :: "string \<Rightarrow> bool" where
  "p9aIsCallbackHostTypeName = typeNameMatches
     [''struct.notifier_block'', ''struct.work_struct'', ''struct.delayed_work'', ''struct.rcu_work'',
      ''struct.timer_list'', ''struct.hrtimer'', ''struct.tasklet_struct'', ''struct.tasklet_hrtimer'',
      ''struct.wait_queue_entry'', ''struct.callback_head'', ''struct.irq_work'', ''struct.completion'']"

primrec p8aPeelArray :: "llvm_type \<Rightarrow> llvm_type" where
  "p8aPeelArray (ArrayTy t) = p8aPeelArray t"
| "p8aPeelArray (StructTy n) = StructTy n"
| "p8aPeelArray OtherTy = OtherTy"

text \<open>
  The functions under a constant: depth first, at most 256 operands of a constant, each
  constant once.  The first argument is the number of levels still allowed, nine at the root.
\<close>

fun p8aCollectFns :: "llvm_module \<Rightarrow> nat \<Rightarrow> llvm_def list \<times> ptr list \<Rightarrow> ptr \<Rightarrow> llvm_def list \<times> ptr list" where
  "p8aCollectFns M 0 st c = st"
| "p8aCollectFns M (Suc k) (out, vis) c =
     (if c \<in> set vis then (out, vis)
      else case m_const M c of
        FunctionConst d \<Rightarrow> (out @ [d], c # vis)
      | OperandsConst ops \<Rightarrow>
          foldl (\<lambda>st op. case op of None \<Rightarrow> st | Some b \<Rightarrow> p8aCollectFns M k st b) (out, c # vis) (take 256 ops)
      | OtherConst \<Rightarrow> (out, c # vis))"

definition isCallbackTable :: "llvm_type \<Rightarrow> bool" where
  "isCallbackTable t = (case p8aPeelArray t of StructTy (Some n) \<Rightarrow> p8aIsCallbackTableTypeName n | _ \<Rightarrow> False)"

definition harvestTables :: "llvm_module \<Rightarrow> llvm_def list" where
  "harvestTables M =
     remdups (foldl (\<lambda>out (t, init). case init of
         None \<Rightarrow> out
       | Some c \<Rightarrow> if isCallbackTable t then fst (p8aCollectFns M 9 (out, []) c) else out) [] (m_globals M))"

subsection \<open>Callbacks stored at run time\<close>

text \<open>The source struct of the first element access behind at most seven casts.\<close>

fun p9aFindOwningGEP :: "llvm_module \<Rightarrow> nat \<Rightarrow> ptr \<Rightarrow> string option option" where
  "p9aFindOwningGEP M 0 p = None"
| "p9aFindOwningGEP M (Suc k) p =
     (case m_addr M p of GepAddr s \<Rightarrow> Some s | CastAddr q \<Rightarrow> p9aFindOwningGEP M k q | OtherAddr \<Rightarrow> None)"

definition p9aExtractCallback :: "llvm_module \<Rightarrow> llvm_store \<Rightarrow> llvm_def option" where
  "p9aExtractCallback M st =
     (case st_value st of
        None \<Rightarrow> None
      | Some d \<Rightarrow>
          if ld_declaration d \<or> startsWith (ld_name d) ''llvm.'' \<or> ld_name d = [] then None
          else case p9aFindOwningGEP M 8 (st_pointer st) of
            Some (Some n) \<Rightarrow> if p9aIsCallbackHostTypeName n then Some d else None
          | _ \<Rightarrow> None)"

definition harvestStores :: "llvm_module \<Rightarrow> llvm_def list" where
  "harvestStores M =
     remdups (concat (map (\<lambda>(f, sts). if ld_declaration f then [] else List.map_filter (p9aExtractCallback M) sts) (m_stores M)))"

subsection \<open>The method of an entry\<close>

definition kSyscallPrefixes :: "string list" where
  "kSyscallPrefixes = [''__x64_sys_'', ''__x32_sys_'', ''__ia32_sys_'', ''__arm64_sys_'', ''__arm_sys_'', ''__mips_sys_'',
     ''__riscv_sys_'', ''__s390_sys_'', ''__s390x_sys_'', ''__powerpc_sys_'', ''__powerpc64_sys_'',
     ''__se_sys_'', ''__se_compat_sys_'', ''__do_sys_'', ''__do_compat_sys_'', ''__sys_'']"

definition syscallCandidates :: "string \<Rightarrow> string list" where
  "syscallCandidates s =
     (case List.find (\<lambda>p. length p < length s \<and> startsWith s p) kSyscallPrefixes of
        Some p \<Rightarrow> [''sys_'' @ drop (length p) s, drop (length p) s] | None \<Rightarrow> []) @
     (if startsWith s ''sys_'' then [drop 4 s] else [''sys_'' @ s])"

definition shortEntryName :: "string \<Rightarrow> string" where
  "shortEntryName demangled =
     (let s = takeWhile (\<lambda>c. c \<noteq> CHR ''('') demangled
      in case rfindSub s ''::'' of None \<Rightarrow> s | Some i \<Rightarrow> drop (i + 2) s)"

text \<open>The names under which a listed entry is looked up, in order.\<close>

definition entryNames :: "build_env \<Rightarrow> string \<Rightarrow> string list" where
  "entryNames E name =
     (let demangled = be_demangle E name; short = shortEntryName demangled
      in short # (if short \<noteq> demangled then [demangled] else []) @ name # syscallCandidates short @ demangleVariants name)"

fun firstMethod :: "cpg_heap \<Rightarrow> cpg \<Rightarrow> string list \<Rightarrow> ptr" where
  "firstMethod H C [] = null"
| "firstMethod H C (n # ns) = (let m = findMethod H C n in if m \<noteq> null then m else firstMethod H C ns)"

definition moduleFunction :: "llvm_module \<Rightarrow> string \<Rightarrow> llvm_def option" where
  "moduleFunction M name = List.find (\<lambda>d. ld_name d = name) (m_functions M)"

definition debugMethod :: "build_env \<Rightarrow> cpg_heap \<Rightarrow> llvm_def option \<Rightarrow> ptr result" where
  "debugMethod E H d =
     findMethodByLLVMFunction (be_parse E) (be_normal E) H (be_cpg E) (map_option (toLlvmFunction E) d)"

definition entryMethod :: "build_env \<Rightarrow> cpg_heap \<Rightarrow> string \<Rightarrow> ptr result" where
  "entryMethod E H name =
     (let m = firstMethod H (be_cpg E) (entryNames E name)
      in if m \<noteq> null then Ok m else debugMethod E H (moduleFunction (be_module E) name))"

text \<open>
  The compiled function of an entry without a method: the symbol itself, else an exact
  definition, a clone with a suffix, or the only definition with the same core name.
\<close>

definition fuzzySymbol :: "llvm_module \<Rightarrow> string \<Rightarrow> llvm_def option" where
  "fuzzySymbol M want =
     (let ds = filter (\<lambda>d. \<not> ld_declaration d \<and> ld_name d \<noteq> []) (m_functions M) in
      case List.find (\<lambda>d. ld_name d = want) ds of
        Some d \<Rightarrow> Some d
      | None \<Rightarrow>
          (case List.find (\<lambda>d. length want + 1 < length (ld_name d) \<and> startsWith (ld_name d) want \<and>
                              ld_name d ! length want = CHR ''.'') ds of
             Some d \<Rightarrow> Some d
           | None \<Rightarrow>
               (case filter (\<lambda>d. normalizeCore want \<noteq> [] \<and> normalizeCore (ld_name d) = normalizeCore want) ds of
                  [d] \<Rightarrow> Some d | _ \<Rightarrow> None)))"

definition entrySymbol :: "llvm_module \<Rightarrow> string \<Rightarrow> llvm_def option" where
  "entrySymbol M want = (case moduleFunction M want of Some d \<Rightarrow> Some d | None \<Rightarrow> fuzzySymbol M want)"

subsection \<open>Adding entries\<close>

definition addEntryFunction :: "ptr \<Rightarrow> builder \<times> ptr list \<Rightarrow> builder \<times> ptr list" where
  "addEntryFunction f = (\<lambda>(B, q). (B\<lparr>entryFunctions := List.insert f (entryFunctions B)\<rparr>, q @ [f]))"

text \<open>A method becomes an entry unless the graph already has its node.\<close>

definition addMethodEntry :: "build_env \<Rightarrow> ptr \<Rightarrow> builder \<times> ptr list \<Rightarrow> (builder \<times> ptr list) option" where
  "addMethodEntry E m = (\<lambda>(B, q).
     (if cpgNodeToCCPGNodeMap (b_g B) m \<noteq> None then Some (B, q)
      else let (n, g) = createCCPGNode (be_util E) m (b_g B)
           in case createFunction E n (B\<lparr>b_g := g\<rparr>) of
                None \<Rightarrow> None
              | Some (f, B1) \<Rightarrow> Some (addEntryFunction f (B1, q))))"

text \<open>A listed entry; the line of a method that is found is printed, so it must be readable.\<close>

definition addListedEntry :: "build_env \<Rightarrow> string \<Rightarrow> builder \<times> ptr list \<Rightarrow> (builder \<times> ptr list) option" where
  "addListedEntry E name = (\<lambda>(B, q).
     (case entryMethod E (cpgH (b_g B)) name of
        Throw \<Rightarrow> None
      | Ok m \<Rightarrow>
          if m = null then
            (case createIRAnchoredEntryFunction E (entrySymbol (be_module E) name) B of
               None \<Rightarrow> None
             | Some (f, B1) \<Rightarrow> Some (if f = null then (B1, q) else addEntryFunction f (B1, q)))
          else if getLineNumber (cpgH (b_g B) m) = Throw then None
          else addMethodEntry E m (B, q)))"

definition addHarvested :: "build_env \<Rightarrow> bool \<Rightarrow> llvm_def \<Rightarrow> builder \<times> ptr list \<Rightarrow> (builder \<times> ptr list) option" where
  "addHarvested E byDebug d = (\<lambda>(B, q).
     (if ld_declaration d \<or> ld_name d = [] then Some (B, q)
      else let H = cpgH (b_g B); m = firstMethod H (be_cpg E) (ld_name d # demangleVariants (ld_name d)) in
        case (if m = null \<and> byDebug then debugMethod E H (Some d) else Ok m) of
          Throw \<Rightarrow> None
        | Ok m \<Rightarrow> if m = null then Some (B, q) else addMethodEntry E m (B, q)))"

subsection \<open>The main function\<close>

text \<open>The line of every method in the file is printed before it is used.\<close>

fun mainScan :: "cpg_heap \<Rightarrow> string \<Rightarrow> int \<Rightarrow> ptr list \<Rightarrow> ptr \<Rightarrow> int \<Rightarrow> ptr result" where
  "mainScan H name line [] best delta = Ok best"
| "mainScan H name line (m # ms) best delta =
     (case getLineNumber (H m) of
        Throw \<Rightarrow> Throw
      | Ok l \<Rightarrow>
          if getName (H m) \<noteq> name \<and> getName (H m) \<notin> set (allNameCandidates name) then mainScan H name line ms best delta
          else if l \<noteq> -1 then
            (if \<bar>l - line\<bar> \<le> 3 then Ok m
             else if \<bar>l - line\<bar> < delta then mainScan H name line ms m \<bar>l - line\<bar>
             else mainScan H name line ms best delta)
          else mainScan H name line ms (if best = null then m else best) delta)"

definition mainMethodOf :: "build_env \<Rightarrow> cpg_heap \<Rightarrow> ptr result" where
  "mainMethodOf E H =
     (let info = be_main E; methods = getMethodsByFileName (be_parse E) (be_normal E) (be_cpg E) in
      if ei_file info = ''N/A'' \<or> ei_line info = 0 then Ok null
      else let full = methods (ei_file info);
               ms = (if full = [] then methods (filename (be_parse E (ei_file info))) else full)
           in mainScan H (ei_function info) (ei_line info) ms null intMax)"

definition getMain :: "build_env \<Rightarrow> builder \<Rightarrow> (ptr \<times> builder) option" where
  "getMain E B =
     (case mainMethodOf E (cpgH (b_g B)) of
        Throw \<Rightarrow> None
      | Ok m \<Rightarrow> (let (n, g) = createCCPGNode (be_util E) m (b_g B) in Some (n, B\<lparr>b_g := g\<rparr>)))"

text \<open>The methods at the positions the pointer analysis reports (a query of its own).\<close>

fun nearMethods :: "cpg_heap \<Rightarrow> int \<Rightarrow> ptr list \<Rightarrow> ptr list result" where
  "nearMethods H line [] = Ok []"
| "nearMethods H line (m # ms) =
     (case (getLineNumber (H m), nearMethods H line ms) of
        (Ok l, Ok r) \<Rightarrow> Ok (if l \<noteq> -1 \<and> \<bar>l - line\<bar> \<le> 3 then m # r else r)
      | _ \<Rightarrow> Throw)"

definition entryPositions :: "build_env \<Rightarrow> cpg_heap \<Rightarrow> entry_info \<Rightarrow> ptr list result" where
  "entryPositions E H info =
     (if ei_file info = ''N/A'' \<or> ei_line info = 0 then Ok []
      else let methods = getMethodsByFileName (be_parse E) (be_normal E) (be_cpg E); full = methods (ei_file info)
           in nearMethods H (ei_line info) (if full = [] then methods (filename (be_parse E (ei_file info))) else full))"

definition getEntries :: "build_env \<Rightarrow> builder \<Rightarrow> (ptr list \<times> builder) option" where
  "getEntries E B =
     foldM (\<lambda>info (out, B). case entryPositions E (cpgH (b_g B)) info of
        Throw \<Rightarrow> None
      | Ok ms \<Rightarrow> Some (foldl (\<lambda>(out, B) m. let (n, g) = createCCPGNode (be_util E) m (b_g B)
                   in (List.insert n out, B\<lparr>b_g := g\<rparr>)) (out, B) ms)) (be_entries E) ([], B)"

subsection \<open>All phases\<close>

text \<open>The entries that are listed: the configured roots and the standard creation sites, or the detected roots.\<close>

definition listedEntries :: "build_env \<Rightarrow> config \<Rightarrow> string list" where
  "listedEntries E cfg =
     (if enabled cfg
      then roots cfg @ filter (\<lambda>e. normalizeCore e \<notin> normalizeCore ` set (roots cfg)) (be_apiEntries E (roots cfg))
      else be_rootEntries E)"

definition useListed :: "config \<Rightarrow> string list \<Rightarrow> bool" where
  "useListed cfg es \<longleftrightarrow> length es > 1 \<or> enabled cfg \<and> es \<noteq> []"

definition addMain :: "build_env \<Rightarrow> config \<Rightarrow> builder \<Rightarrow> (ptr \<times> builder \<times> ptr list) option" where
  "addMain E cfg B =
     (if enabled cfg then Some (null, B, [])
      else case getMain E B of
        None \<Rightarrow> None
      | Some (n, B1) \<Rightarrow>
          if n = null then Some (null, B1, [])
          else case createFunction E n B1 of
            None \<Rightarrow> None
          | Some (f, B2) \<Rightarrow> Some (n, addEntryFunction f (B2, [])))"

definition addListed :: "build_env \<Rightarrow> config \<Rightarrow> ptr \<Rightarrow> builder \<times> ptr list \<Rightarrow> (builder \<times> ptr list) option" where
  "addListed E cfg main st =
     (let es = listedEntries E cfg; g = b_g (fst st) in
      if useListed cfg es
      then foldM (addListedEntry E) (filter (\<lambda>e. \<not> (\<not> enabled cfg \<and> main \<noteq> null \<and> getName (cpgOf g main) = e)) es) st
      else Some st)"

definition addCallbacks :: "build_env \<Rightarrow> config \<Rightarrow> builder \<times> ptr list \<Rightarrow> (builder \<times> ptr list) option" where
  "addCallbacks E cfg st =
     (if enabled cfg then Some st
      else Option.bind (foldM (addHarvested E False) (harvestTables (be_module E)) st)
             (foldM (addHarvested E True) (harvestStores (be_module E))))"

definition discoverEntries :: "build_env \<Rightarrow> config \<Rightarrow> builder \<Rightarrow> (builder \<times> ptr list) option" where
  "discoverEntries E cfg B =
     (case addMain E cfg B of
        None \<Rightarrow> None
      | Some (main, st) \<Rightarrow> Option.bind (addListed E cfg main st) (addCallbacks E cfg))"

text \<open>The whole construction, up to the lockset analysis; the threads are allocated from one on.\<close>

definition emptyTree :: tct where
  "emptyTree = \<lparr>threadH = (\<lambda>_. newThread 0 null null), threads = [], parallelThreadPairs = (\<lambda>_. None),
     concurrencyCache = (\<lambda>_. None), mayHappenInParallelCache = (\<lambda>_. None)\<rparr>"

definition buildGraph :: "build_env \<Rightarrow> config \<Rightarrow> builder \<Rightarrow> tstate option" where
  "buildGraph E cfg B =
     (case discoverEntries E cfg B of
        None \<Rightarrow> None
      | Some (B1, q) \<Rightarrow>
          (case expandAll E q B1 of
             None \<Rightarrow> None
           | Some B2 \<Rightarrow>
               (case labelForkPotential (b_g B2) of
                  None \<Rightarrow> None
                | Some g \<Rightarrow>
                    (case buildTree E cfg \<lparr>ts_B = B2\<lparr>b_g := g\<rparr>, ts_T = emptyTree, ts_next = 1\<rparr> of
                       None \<Rightarrow> None
                     | Some S \<Rightarrow>
                         (let g1 = labelAPI (b_g (ts_B S)) in
                          case handleJoins E g1 (ts_T S) of
                            None \<Rightarrow> None
                          | Some T \<Rightarrow> Some (S\<lparr>ts_B := (ts_B S)\<lparr>b_g := g1\<rparr>, ts_T := T\<rparr>))))))"

end
