(* ===== verification/ThreadRun.thy ===== *)
theory ThreadRun
  imports ThreadBuild RunFacts ThreadFacts
begin

text \<open>
  Facts about the construction of the thread-creation tree: what a created thread runs is
  the closure of its main function under the call edges it has taken, the walk never meets
  a null function, and the tree that is built is well founded, with one thread for a
  function and one for a creation site.
\<close>

subsection \<open>What growing keeps\<close>

definition kept :: "ccpg \<Rightarrow> ccpg \<Rightarrow> bool" where
  "kept g g' \<longleftrightarrow> grows g g' \<and> (\<forall>f \<in> set (g_functions g).
     fn_nodes (funH g' f) = fn_nodes (funH g f) \<and> fn_edges (funH g' f) = fn_edges (funH g f) \<and>
     fn_typeToNodeSet (funH g' f) = fn_typeToNodeSet (funH g f))"

lemma kept_refl [simp]: "kept g g" by (simp add: kept_def)

lemma kept_trans: "kept g h \<Longrightarrow> kept h k \<Longrightarrow> kept g k"
  unfolding kept_def using grows_trans grows_functions by (metis subsetD)

lemma kept_functions: "kept g g' \<Longrightarrow> set (g_functions g) \<subseteq> set (g_functions g')"
  by (simp add: kept_def grows_def)

lemma kept_funcNode: "kept g g' \<Longrightarrow> ccpg_ok g \<Longrightarrow> f \<in> set (g_functions g) \<Longrightarrow>
    fn_funcNode (funH g' f) = fn_funcNode (funH g f)"
  using ccpg_okD(7)[of g f] by (simp add: kept_def grows_def)

lemma kept_node: "kept g g' \<Longrightarrow> ccpg_ok g \<Longrightarrow> n \<in> set (g_nodes g) \<Longrightarrow> node_key (nodeH g' n) = node_key (nodeH g n)"
  using ccpg_okD(3)[of g n] by (simp add: kept_def grows_def)

lemma kept_createNode: "builder_ok E B \<Longrightarrow> n \<noteq> null \<Longrightarrow> createCCPGNode u n (b_g B) = (p, g) \<Longrightarrow> kept (b_g B) g"
  using builder_ok_node[of E B n u p g] createCCPGNode_fun[of u n "b_g B"] by (simp add: kept_def)

lemma kept_createEdge [simp]: "kept g (createCCPGEdge a b ty g)"
  unfolding kept_def by (simp add: grows_skel)

lemma kept_createFunction:
  assumes "builder_ok E B" "n \<in> set (g_nodes (b_g B))" "createFunction E n B = Some (f, B')"
  shows "kept (b_g B) (b_g B')"
proof (cases "getFunctionByCCPGNode (b_g B) n = null")
  case True
  have gok: "ccpg_ok (b_g B)" using assms(1) by (simp add: builder_ok_def)
  note N = createFunction_new[OF assms(1,2) True assms(3)]
  have "k \<noteq> f" if "k \<in> set (g_functions (b_g B))" for k
    using ccpg_okD(7)[OF gok that] N by auto
  with N show ?thesis by (simp add: kept_def)
next
  case False
  with assms(3) show ?thesis by (simp add: createFunction_def)
qed

text \<open>Functions are told apart by their nodes.\<close>

lemma function_unique:
  assumes "ccpg_ok g" "f \<in> set (g_functions g)" "h \<in> set (g_functions g)" "fn_funcNode (funH g f) = fn_funcNode (funH g h)"
  shows "f = h"
  using ccpg_okD(8)[OF assms(1)] assms(2-4) by (metis option.inject)

lemma getFunction_of:
  assumes "ccpg_ok g" "f \<in> set (g_functions g)" "fn_funcNode (funH g f) = n"
  shows "getFunctionByCCPGNode g n = f"
proof -
  have "IDToFunction g (nd_id (nodeH g n)) = Some f" using ccpg_okD(8)[OF assms(1)] assms(2,3) by blast
  then show ?thesis by (simp add: getFunctionByCCPGNode_def)
qed

subsection \<open>One thread\<close>

definition callNodes :: "ccpg \<Rightarrow> ptr \<Rightarrow> ptr set" where
  "callNodes g f = set (fn_typeToNodeSet (funH g f) OBJECT_INIT) \<union> set (fn_typeToNodeSet (funH g f) OTHER_CALL)"

text \<open>A call that the thread has taken.\<close>

definition callLink :: "ccpg \<Rightarrow> ccpg_edge set \<Rightarrow> ptr \<Rightarrow> ptr \<Rightarrow> bool" where
  "callLink g C f h \<longleftrightarrow> f \<in> set (g_functions g) \<and> h \<in> set (g_functions g) \<and>
     (\<exists>e \<in> C. e_type e = CALL \<and> e_src e \<in> callNodes g f \<and> fn_funcNode (funH g h) = e_dst e)"

definition threadFacts :: "ccpg \<Rightarrow> ptr \<Rightarrow> ptr set \<Rightarrow> ccpg_edge set \<Rightarrow> bool" where
  "threadFacts g main F C \<longleftrightarrow> main \<in> F \<and> F \<subseteq> set (g_functions g) \<and> (\<forall>h \<in> F. (callLink g C)\<^sup>*\<^sup>* main h) \<and>
     (\<forall>e \<in> C. e_type e = CALL \<longrightarrow> (\<exists>h \<in> F. fn_funcNode (funH g h) = e_dst e))"

lemma callLink_mono:
  assumes "kept g g'" "ccpg_ok g" "C \<subseteq> C'" "callLink g C f h"
  shows "callLink g' C' f h"
proof -
  from assms(4) obtain e where e: "e \<in> C" "e_type e = CALL" "e_src e \<in> callNodes g f" "fn_funcNode (funH g h) = e_dst e"
    and fh: "f \<in> set (g_functions g)" "h \<in> set (g_functions g)" by (auto simp: callLink_def)
  have "callNodes g' f = callNodes g f" using assms(1) fh(1) by (simp add: callNodes_def kept_def)
  with e fh kept_functions[OF assms(1)] kept_funcNode[OF assms(1,2) fh(2)] assms(3)
  show ?thesis unfolding callLink_def by (intro conjI bexI[of _ e]) auto
qed

lemma callLinks_mono:
  assumes "(callLink g C)\<^sup>*\<^sup>* a b" "kept g g'" "ccpg_ok g" "C \<subseteq> C'"
  shows "(callLink g' C')\<^sup>*\<^sup>* a b"
  using assms(1)
proof induction
  case (step b c)
  from step(3) callLink_mono[OF assms(2-4) step(2)] show ?case by (rule rtranclp.rtrancl_into_rtrancl)
qed simp

text \<open>Functions and edges may be added as long as each comes with the other.\<close>

lemma threadFacts_grow:
  assumes "threadFacts g main F C" "kept g g'" "ccpg_ok g" "C' = C \<union> N" "F' = F \<union> M" "M \<subseteq> set (g_functions g')"
    "\<And>h. h \<in> M \<Longrightarrow> \<exists>f \<in> F. callLink g' C' f h"
    "\<And>e. e \<in> N \<Longrightarrow> e_type e = CALL \<Longrightarrow> \<exists>h \<in> F'. fn_funcNode (funH g' h) = e_dst e"
  shows "threadFacts g' main F' C'"
proof -
  have F: "main \<in> F" "F \<subseteq> set (g_functions g)" "\<forall>h \<in> F. (callLink g C)\<^sup>*\<^sup>* main h"
    "\<forall>e \<in> C. e_type e = CALL \<longrightarrow> (\<exists>h \<in> F. fn_funcNode (funH g h) = e_dst e)"
    using assms(1) by (simp_all add: threadFacts_def)
  have old: "(callLink g' C')\<^sup>*\<^sup>* main h" if "h \<in> F" for h
    using callLinks_mono[OF _ assms(2,3), of C main h C'] F(3) that assms(4) by blast
  have "(callLink g' C')\<^sup>*\<^sup>* main h" if "h \<in> F'" for h
  proof (cases "h \<in> F")
    case False
    with that assms(5,7) obtain f where "f \<in> F" "callLink g' C' f h" by blast
    with old[of f] show ?thesis by (rule_tac rtranclp.rtrancl_into_rtrancl)
  qed (rule old)
  moreover have "\<exists>h \<in> F'. fn_funcNode (funH g' h) = e_dst e" if C': "e \<in> C'" and e: "e_type e = CALL" for e
  proof (cases "e \<in> C")
    case True
    with F(4) e obtain h where "h \<in> F" "fn_funcNode (funH g h) = e_dst e" by blast
    moreover from this have "fn_funcNode (funH g' h) = fn_funcNode (funH g h)"
      using kept_funcNode[OF assms(2,3), of h] F(2) by blast
    ultimately show ?thesis using assms(5) by auto
  next
    case False
    with C' e assms(4,8) show ?thesis by blast
  qed
  moreover have "F' \<subseteq> set (g_functions g')" using F(2) kept_functions[OF assms(2)] assms(5,6) by blast
  ultimately show ?thesis using F(1) assms(5) by (simp add: threadFacts_def)
qed

text \<open>The functions are exactly those the taken calls reach.\<close>

lemma threadFacts_exact:
  assumes "ccpg_ok g" "threadFacts g main F C"
  shows "F = {h. (callLink g C)\<^sup>*\<^sup>* main h}"
proof (intro equalityI subsetI)
  fix h assume "h \<in> {h. (callLink g C)\<^sup>*\<^sup>* main h}"
  then have "(callLink g C)\<^sup>*\<^sup>* main h" by simp
  then show "h \<in> F"
  proof induction
    case (step f h)
    then obtain k where "k \<in> F" "fn_funcNode (funH g k) = fn_funcNode (funH g h)" "h \<in> set (g_functions g)"
      using assms(2) by (force simp: callLink_def threadFacts_def)
    moreover from this have "k \<in> set (g_functions g)" using assms(2) by (auto simp: threadFacts_def)
    ultimately show ?case using function_unique[OF assms(1)] by metis
  qed (use assms in \<open>simp add: threadFacts_def\<close>)
qed (use assms in \<open>simp add: threadFacts_def\<close>)

text \<open>The state of the scan of one function's calls: \<open>new\<close> are the functions queued so far.\<close>

definition scanInv :: "build_env \<Rightarrow> ccpg \<Rightarrow> ptr \<Rightarrow> ptr set \<Rightarrow> thread \<Rightarrow> builder \<times> thread \<times> ptr list \<Rightarrow> bool" where
  "scanInv E g0 main F fs = (\<lambda>(B, t, new). run_ok E B \<and> kept g0 (b_g B) \<and> t\<lparr>th_edges := []\<rparr> = fs \<and>
     threadFacts (b_g B) main (F \<union> set new) (set (th_edges t)))"

lemma taken_call:
  assumes g: "ccpg_ok g" "kept g g'" and f: "f \<in> F" and n: "n \<in> callNodes g f"
    and h: "h \<in> set (g_functions g')" "fn_funcNode (funH g' h) = e_dst e" and e: "e_type e = CALL" "e_src e = n"
    and T: "threadFacts g main F (set (th_edges t))"
  shows "threadFacts g' main (F \<union> {h}) (set (th_edges (thread_addEdge e t)))"
proof (rule threadFacts_grow[OF T g(2,1), of _ "{e}" _ "{h}"])
  have "f \<in> set (g_functions g)" using T f by (auto simp: threadFacts_def)
  then have "f \<in> set (g_functions g')" "n \<in> callNodes g' f"
    using n kept_functions[OF g(2)] g(2) by (auto simp: callNodes_def kept_def)
  then have "callLink g' (set (th_edges (thread_addEdge e t))) f h"
    using h e by (auto simp: callLink_def thread_addEdge_def)
  then show "\<exists>f \<in> F. callLink g' (set (th_edges (thread_addEdge e t))) f k" if "k \<in> {h}" for k using f that by blast
qed (use h in \<open>auto simp: thread_addEdge_def\<close>)

lemma fresh_call:
  assumes ok: "run_ok E B" and free: "callsOf (b_g B) n = []" and c: "findCalleeByCaller E n B = Some (callee, B1)"
    and f: "callee \<noteq> null" "createFunction E callee B1 = Some (f, B2)"
    and B': "B' = B2\<lparr>b_g := createCCPGEdge n callee CALL (b_g B2)\<rparr>"
  shows "run_ok E B' \<and> kept (b_g B) (b_g B') \<and> f \<in> set (g_functions (b_g B')) \<and> fn_funcNode (funH (b_g B') f) = callee"
proof -
  have "hasCallEdge (b_g B) n = None" using free by (simp add: hasCallEdge_callsOf)
  with c obtain m g where m: "calleeMethod E (b_g B) n = Ok m" and
    node: "createCCPGNode (be_util E) m (b_g B) = (callee, g)" and B1: "B1 = B\<lparr>b_g := g\<rparr>"
    by (auto simp: findCalleeByCaller_def split: result.splits prod.splits)
  have "m \<noteq> null" by (rule notI) (use node f(1) in \<open>simp add: createCCPGNode_def\<close>)
  have bok: "builder_ok E B" using ok by (simp add: run_ok_def)
  note N = builder_ok_node[OF bok \<open>m \<noteq> null\<close> node]
  have g: "g = snd (createCCPGNode (be_util E) m (b_g B))" using node by simp
  have "calls_ok {n} (b_g B)" using ok free by (simp add: run_ok_def calls_ok_def)
  then have z: "calls_ok {n} g" using calls.node g by simp
  have r1: "run_ok E B1" using N ok g ctx.node calls.node by (simp add: run_ok_def B1)
  have r2: "run_ok E B2 \<and> f \<in> set (g_functions (b_g B2)) \<and> fn_funcNode (funH (b_g B2) f) = callee"
    using createFunction_run[OF r1 _ f(2)] N by (simp add: B1)
  have "calls_ok {n} (b_g B2)" using calls.createFunction_keeps[OF _ f(2), of "{n}"] z by (simp add: B1)
  then have "callsOf (b_g B2) n = []" by (simp add: calls_ok_def)
  then have "run_ok E B'" using edge_ok[of E B2 f callee CALL n] r2 by (simp add: B')
  moreover have "kept (b_g B) g" by (rule kept_createNode[OF bok \<open>m \<noteq> null\<close> node])
  then have "kept (b_g B) (b_g B2)"
    using kept_createFunction[of E B1 callee f B2] r1 f(2) N by (auto simp: run_ok_def B1 intro: kept_trans)
  then have "kept (b_g B) (b_g B')" unfolding B' using kept_trans kept_createEdge by simp
  ultimately show ?thesis using r2 by (simp add: B')
qed

lemma null_callee:
  assumes ok: "builder_ok E B" and free: "callsOf (b_g B) n = []" and c: "findCalleeByCaller E n B = Some (callee, B1)"
    and null: "callee = null"
  shows "B1 = B"
proof -
  have "hasCallEdge (b_g B) n = None" using free by (simp add: hasCallEdge_callsOf)
  with c obtain m g where node: "createCCPGNode (be_util E) m (b_g B) = (callee, g)" and B1: "B1 = B\<lparr>b_g := g\<rparr>"
    by (auto simp: findCalleeByCaller_def split: result.splits prod.splits)
  have "m = null"
  proof (rule ccontr)
    assume "m \<noteq> null"
    note N = builder_ok_node[OF ok this node]
    then have "ccpg_ok g" by (simp add: builder_ok_def)
    from ccpg_okD(3)[OF this, of callee] N null show False by simp
  qed
  then have "g = b_g B" using node by (simp add: createCCPGNode_def)
  then show ?thesis by (simp add: B1)
qed

lemma threadCall_ok:
  assumes inv: "scanInv E g0 main F fs st" and f: "f \<in> F" and n: "n \<in> callNodes g0 f" "f \<in> set (g_functions g0)"
    and c: "threadCall E n st = Some st'"
  shows "scanInv E g0 main F fs st'"
proof -
  obtain B t new where st: "st = (B, t, new)" by (cases st)
  have ok: "run_ok E B" and k: "kept g0 (b_g B)" and fs: "t\<lparr>th_edges := []\<rparr> = fs"
    and T: "threadFacts (b_g B) main (F \<union> set new) (set (th_edges t))" using inv by (simp_all add: scanInv_def st)
  have bok: "builder_ok E B" and gok: "ccpg_ok (b_g B)" using ok by (simp_all add: run_ok_def builder_ok_def)
  have nB: "n \<in> callNodes (b_g B) f" using n k by (simp add: callNodes_def kept_def)
  show ?thesis
  proof (cases "hasCallEdge (b_g B) n")
    case (Some e)
    from Some have e: "e_type e = CALL" "e \<in> set (nd_out (nodeH (b_g B) n))"
      by (auto simp: hasCallEdge_def find_Some_iff)
    then have mem: "e \<in> set (callsOf (b_g B) n)" by (simp add: callsOf_def)
    moreover have "callsOf (b_g B) n = [] \<or> (\<exists>e. callsOf (b_g B) n = [e] \<and> e_src e = n \<and>
        (\<exists>f \<in> set (g_functions (b_g B)). fn_funcNode (funH (b_g B) f) = e_dst e))"
      using ok by (simp add: run_ok_def calls_ok_def)
    ultimately obtain h where h: "h \<in> set (g_functions (b_g B))" "fn_funcNode (funH (b_g B) h) = e_dst e" "e_src e = n"
      by auto
    have st': "st' = (B, thread_addEdge e t, new @ [h])"
      using c Some getFunction_of[OF gok h(1,2)] by (simp add: threadCall_def st)
    show ?thesis
      using taken_call[OF gok kept_refl _ nB h(1,2) e(1) h(3) T] f ok k fs
      by (simp add: scanInv_def st' thread_addEdge_def)
  next
    case None
    then have free: "callsOf (b_g B) n = []" by (simp add: hasCallEdge_callsOf)
    from c None obtain callee B1 where fc: "findCalleeByCaller E n B = Some (callee, B1)"
      by (auto simp: threadCall_def st split: option.splits)
    show ?thesis
    proof (cases "callee = null")
      case True
      have "B1 = B" using null_callee[OF bok free fc True] .
      then show ?thesis using c None fc True inv by (simp add: threadCall_def st)
    next
      case False
      let ?e = "\<lparr>e_src = n, e_dst = callee, e_type = CALL\<rparr>"
      from c None fc False obtain h B2 where h: "createFunction E callee B1 = Some (h, B2)"
        and st': "st' = (B2\<lparr>b_g := createCCPGEdge n callee CALL (b_g B2)\<rparr>, thread_addEdge ?e t, new @ [h])"
        by (auto simp: threadCall_def st split: option.splits)
      note R = fresh_call[OF ok free fc False h refl]
      have "threadFacts (createCCPGEdge n callee CALL (b_g B2)) main (F \<union> set new \<union> {h}) (set (th_edges (thread_addEdge ?e t)))"
        by (rule taken_call[OF gok _ _ nB _ _ _ _ T]) (use R f in simp_all)
      then show ?thesis
        using R k kept_trans fs by (auto simp: scanInv_def st' thread_addEdge_def)
    qed
  qed
qed


text \<open>A call that was dealt with: taken by the thread, or without a callee when it was visited.\<close>

definition served :: "build_env \<Rightarrow> ccpg \<Rightarrow> ccpg_edge set \<Rightarrow> ptr \<Rightarrow> bool" where
  "served E g C n \<longleftrightarrow> (\<exists>e \<in> C. e_type e = CALL \<and> e_src e = n) \<or>
     (\<exists>g0. kept g0 g \<and> callsOf g0 n = [] \<and> calleeMethod E g0 n = Ok null)"

definition allServed :: "build_env \<Rightarrow> ccpg \<Rightarrow> ccpg_edge set \<Rightarrow> ptr set \<Rightarrow> bool" where
  "allServed E g C F \<longleftrightarrow> (\<forall>f \<in> F. \<forall>n \<in> callNodes g f. served E g C n)"

lemma served_mono: "served E g C n \<Longrightarrow> kept g g' \<Longrightarrow> C \<subseteq> C' \<Longrightarrow> served E g' C' n"
  unfolding served_def using kept_trans by blast

lemma allServed_mono:
  assumes "allServed E g C F" "kept g g'" "C \<subseteq> C'" "F \<subseteq> set (g_functions g)"
  shows "allServed E g' C' F"
proof -
  have "callNodes g' f = callNodes g f" if "f \<in> F" for f using that assms(2,4) by (auto simp: callNodes_def kept_def)
  with assms(1) show ?thesis using served_mono[OF _ assms(2,3)] by (simp add: allServed_def)
qed

abbreviation servedIn :: "build_env \<Rightarrow> ptr \<Rightarrow> builder \<times> thread \<times> ptr list \<Rightarrow> bool" where
  "servedIn E n st \<equiv> served E (b_g (fst st)) (set (th_edges (fst (snd st)))) n"

lemma threadCall_served:
  assumes inv: "scanInv E g0 main F fs st" and c: "threadCall E n st = Some st'"
  shows "servedIn E n st' \<and> (\<forall>m. servedIn E m st \<longrightarrow> servedIn E m st')"
proof -
  obtain B t new where st: "st = (B, t, new)" by (cases st)
  have ok: "run_ok E B" using inv by (simp add: scanInv_def st)
  have bok: "builder_ok E B" using ok by (simp add: run_ok_def)
  show ?thesis
  proof (cases "hasCallEdge (b_g B) n")
    case (Some e)
    then have "e \<in> set (callsOf (b_g B) n)" "e_type e = CALL" by (auto simp: hasCallEdge_def callsOf_def find_Some_iff)
    moreover have "callsOf (b_g B) n = [] \<or> (\<exists>e. callsOf (b_g B) n = [e] \<and> e_src e = n \<and>
        (\<exists>f \<in> set (g_functions (b_g B)). fn_funcNode (funH (b_g B) f) = e_dst e))"
      using ok by (simp add: run_ok_def calls_ok_def)
    ultimately have e: "e_type e = CALL" "e_src e = n" by auto
    have st': "fst st' = B" "fst (snd st') = thread_addEdge e t" using c Some by (auto simp: threadCall_def st)
    have "set (th_edges t) \<subseteq> set (th_edges (thread_addEdge e t))" by (auto simp: thread_addEdge_def)
    then have "\<forall>m. servedIn E m st \<longrightarrow> servedIn E m st'" using served_mono[OF _ kept_refl] by (simp add: st st')
    moreover have "servedIn E n st'" using e by (auto simp: served_def st' thread_addEdge_def)
    ultimately show ?thesis by blast
  next
    case None
    then have free: "callsOf (b_g B) n = []" by (simp add: hasCallEdge_callsOf)
    from c None obtain callee B1 where fc: "findCalleeByCaller E n B = Some (callee, B1)"
      by (auto simp: threadCall_def st split: option.splits)
    show ?thesis
    proof (cases "callee = null")
      case True
      have "B1 = B" using null_callee[OF bok free fc True] .
      then have st': "st' = st" using c None fc True by (simp add: threadCall_def st)
      from fc None obtain m g where m: "calleeMethod E (b_g B) n = Ok m" and node: "createCCPGNode (be_util E) m (b_g B) = (callee, g)"
        by (auto simp: findCalleeByCaller_def split: result.splits prod.splits)
      have "m = null"
      proof (rule ccontr)
        assume "m \<noteq> null"
        note N = builder_ok_node[OF bok this node]
        then have "ccpg_ok g" by (simp add: builder_ok_def)
        from ccpg_okD(3)[OF this, of callee] N True show False by simp
      qed
      with m free have "servedIn E n st" unfolding served_def st by (auto intro!: exI[of _ "b_g B"])
      then show ?thesis by (simp add: st')
    next
      case False
      let ?e = "\<lparr>e_src = n, e_dst = callee, e_type = CALL\<rparr>"
      from c None fc False obtain h B2 where h: "createFunction E callee B1 = Some (h, B2)"
        and st': "st' = (B2\<lparr>b_g := createCCPGEdge n callee CALL (b_g B2)\<rparr>, thread_addEdge ?e t, new @ [h])"
        by (auto simp: threadCall_def st split: option.splits)
      note R = fresh_call[OF ok free fc False h refl]
      have "set (th_edges t) \<subseteq> set (th_edges (thread_addEdge ?e t))" by (auto simp: thread_addEdge_def)
      then have "\<forall>m. servedIn E m st \<longrightarrow> servedIn E m st'" using R served_mono by (simp add: st st')
      moreover have "servedIn E n st'" by (auto simp: served_def st' thread_addEdge_def)
      ultimately show ?thesis by blast
    qed
  qed
qed

text \<open>The walk over the functions of a thread: its nodes are those of the visited functions.\<close>

definition walkInv :: "build_env \<Rightarrow> ccpg \<Rightarrow> ptr \<Rightarrow> thread \<Rightarrow> builder \<times> thread \<times> ptr list \<Rightarrow> ptr list \<Rightarrow> bool" where
  "walkInv E g0 main t0 = (\<lambda>(B, t, vis) q. run_ok E B \<and> kept g0 (b_g B) \<and>
     t\<lparr>th_edges := [], th_nodes := [], th_functions := []\<rparr> = t0 \<and> set (th_functions t) = set vis \<and>
     set (th_nodes t) = (\<Union>f \<in> set vis. set (fn_nodes (funH (b_g B) f))) \<and>
     threadFacts (b_g B) main (set vis \<union> set q) (set (th_edges t)) \<and>
     allServed E (b_g B) (set (th_edges t)) (set vis))"

lemma fold_insert_set: "set (fold List.insert xs ys) = set xs \<union> set ys"
  by (induction xs arbitrary: ys) auto

lemma functionExact_order: "functionExact E g f \<Longrightarrow> e \<in> set (fn_edges (funH g f)) \<Longrightarrow> e_type e = ORDER"
  by (simp add: functionExact_def Let_def)

lemma threadVisit_ok:
  assumes inv: "walkInv E g0 main t0 (B, t, vis) (f # r)" and v: "threadVisit E f (B, t, vis) = Some (new, B', t', vis')"
  shows "walkInv E g0 main t0 (B', t', vis') (r @ new)"
proof (cases "f \<in> set vis")
  case True
  with v have "new = []" "B' = B" "t' = t" "vis' = vis" by (simp_all add: threadVisit_def)
  with inv True show ?thesis by (simp add: walkInv_def insert_absorb)
next
  case False
  have ok: "run_ok E B" and k: "kept g0 (b_g B)"
    and fr: "t\<lparr>th_edges := [], th_nodes := [], th_functions := []\<rparr> = t0"
    and fs: "set (th_functions t) = set vis"
    and ns: "set (th_nodes t) = (\<Union>f \<in> set vis. set (fn_nodes (funH (b_g B) f)))"
    and T: "threadFacts (b_g B) main (set vis \<union> set (f # r)) (set (th_edges t))"
    and A: "allServed E (b_g B) (set (th_edges t)) (set vis)"
    using inv by (simp_all add: walkInv_def)
  let ?F = "set vis \<union> set (f # r)"
  let ?t1 = "thread_addFunction (funH (b_g B) f) f t"
  let ?fs = "?t1\<lparr>th_edges := []\<rparr>"
  have F: "?F \<subseteq> set (g_functions (b_g B))" using T by (simp add: threadFacts_def)
  have bok: "builder_ok E B" "ccpg_ok (b_g B)" using ok by (simp_all add: run_ok_def builder_ok_def)
  have order: "e_type e = ORDER" if "e \<in> set (fn_edges (funH (b_g B) f))" for e
    using functionExact_order that bok(1) F by (auto simp: builder_ok_def)
  have "threadFacts (b_g B) main ?F (set (th_edges ?t1))"
    by (rule threadFacts_grow[OF T kept_refl bok(2), of _ "set (fn_edges (funH (b_g B) f))" _ "{}"])
      (use order in \<open>auto simp: thread_addFunction_def fold_insert_set\<close>)
  then have S: "scanInv E (b_g B) main ?F ?fs (B, ?t1, [])" using ok by (simp add: scanInv_def)
  from v False obtain B1 t1 q1 where
    1: "foldM (threadCall E) (fn_typeToNodeSet (funH (b_g B) f) OBJECT_INIT) (B, ?t1, []) = Some (B1, t1, q1)" and
    2: "foldM (threadCall E) (fn_typeToNodeSet (funH (b_g B1) f) OTHER_CALL) (B1, t1, q1) = Some (B', t', new)" and
    vis': "vis' = f # vis" by (auto simp: threadVisit_def split: if_splits option.splits)
  have fF: "f \<in> ?F" "f \<in> set (g_functions (b_g B))" using F by auto
  let ?I = "scanInv E (b_g B) main ?F ?fs"
  have step: "?I st' \<and> servedIn E n st' \<and> (\<forall>m. servedIn E m st \<longrightarrow> servedIn E m st')"
    if "n \<in> callNodes (b_g B) f" "?I st" "threadCall E n st = Some st'" for n st st'
    using threadCall_ok[OF that(2) fF(1) that(1) fF(2) that(3)] threadCall_served[OF that(2,3)] by blast
  have E1: "?I (B1, t1, q1) \<and> (\<forall>n \<in> set (fn_typeToNodeSet (funH (b_g B) f) OBJECT_INIT). servedIn E n (B1, t1, q1)) \<and>
      (\<forall>n. servedIn E n (B, ?t1, []) \<longrightarrow> servedIn E n (B1, t1, q1))"
    by (rule foldM_each[OF 1, of ?I], rule S, rule step) (auto simp: callNodes_def)
  then have S1: "scanInv E (b_g B) main ?F ?fs (B1, t1, q1)" by blast
  then have same: "fn_typeToNodeSet (funH (b_g B1) f) = fn_typeToNodeSet (funH (b_g B) f)"
    using fF by (simp add: scanInv_def kept_def)
  have E2: "?I (B', t', new) \<and> (\<forall>n \<in> set (fn_typeToNodeSet (funH (b_g B) f) OTHER_CALL). servedIn E n (B', t', new)) \<and>
      (\<forall>n. servedIn E n (B1, t1, q1) \<longrightarrow> servedIn E n (B', t', new))"
    by (rule foldM_each[OF 2[unfolded same], of ?I], rule S1, rule step) (auto simp: callNodes_def)
  then have S2: "scanInv E (b_g B) main ?F ?fs (B', t', new)" by blast
  then have k': "kept (b_g B) (b_g B')" and t': "t'\<lparr>th_edges := []\<rparr> = ?fs" by (simp_all add: scanInv_def)
  have fields: "th_functions t' = th_functions ?t1" "th_nodes t' = th_nodes ?t1"
    using arg_cong[OF t', of th_functions] arg_cong[OF t', of th_nodes] by simp_all
  have "t'\<lparr>th_edges := [], th_nodes := [], th_functions := []\<rparr> = t0"
    using arg_cong[OF t', of "\<lambda>t. t\<lparr>th_nodes := [], th_functions := []\<rparr>"] fr by (simp add: thread_addFunction_def)
  moreover have "set (th_functions t') = set vis'" using fields fs by (simp add: thread_addFunction_def vis')
  moreover have "set (th_nodes t') = (\<Union>h \<in> set vis'. set (fn_nodes (funH (b_g B') h)))"
    using fields ns k' F by (simp add: thread_addFunction_def vis' fold_insert_set kept_def subset_iff)
  moreover have "threadFacts (b_g B') main (set vis' \<union> set (r @ new)) (set (th_edges t'))"
    using S2 by (simp add: scanInv_def vis' Un_assoc)
  moreover have "allServed E (b_g B') (set (th_edges t')) (set vis')"
  proof -
    have same': "callNodes (b_g B') h = callNodes (b_g B) h" if "h \<in> ?F" for h
      using that F k' by (auto simp: callNodes_def kept_def)
    have "set (th_edges t) \<subseteq> set (th_edges ?t1)" by (auto simp: thread_addFunction_def fold_insert_set)
    then have first: "served E (b_g B) (set (th_edges ?t1)) n" if "h \<in> set vis" "n \<in> callNodes (b_g B) h" for h n
      using A that by (auto simp: allServed_def intro: served_mono[OF _ kept_refl])
    have "servedIn E n (B', t', new)" if "h \<in> set vis" "n \<in> callNodes (b_g B) h" for h n
      using first[OF that] E1 E2 by simp
    moreover have "servedIn E n (B', t', new)" if "n \<in> callNodes (b_g B) f" for n
      using that E1 E2 by (auto simp: callNodes_def)
    ultimately show ?thesis using same' by (simp add: allServed_def vis')
  qed
  ultimately show ?thesis using S2 k k' kept_trans by (auto simp: walkInv_def scanInv_def)
qed


text \<open>Entering the nodes of the functions, as one update.\<close>

lemma fold_addEdge: "fold thread_addEdge es t = t\<lparr>th_edges := fold List.insert es (th_edges t)\<rparr>"
  by (induction es arbitrary: t) (simp_all add: thread_addEdge_def)

lemma fold_addNode: "fold (\<lambda>n. thread_addNode (ty n) n) ns t =
    t\<lparr>th_nodes := fold List.insert ns (th_nodes t),
      th_typeToNodeSet := (\<lambda>y. fold List.insert (filter (\<lambda>n. ty n = y) ns) (th_typeToNodeSet t y))\<rparr>"
  by (induction ns arbitrary: t) (auto simp: thread_addNode_def fun_eq_iff)

lemma collectNodes_eq: "collectNodes g t = (let ns = concat (map (\<lambda>f. fn_nodes (funH g f)) (th_functions t)) in
    t\<lparr>th_nodes := fold List.insert ns (th_nodes t),
      th_typeToNodeSet := (\<lambda>y. fold List.insert (filter (\<lambda>n. nd_type (nodeH g n) = y) ns) (th_typeToNodeSet t y)),
      th_edges := fold List.insert (concat (map (\<lambda>f. fn_edges (funH g f)) (th_functions t))) (th_edges t)\<rparr>)"
proof -
  have "fold (\<lambda>f t. fold thread_addEdge (fn_edges (funH g f))
        (fold (\<lambda>n. thread_addNode (nd_type (nodeH g n)) n) (fn_nodes (funH g f)) t)) fs t =
     (let ns = concat (map (\<lambda>f. fn_nodes (funH g f)) fs) in
      t\<lparr>th_nodes := fold List.insert ns (th_nodes t),
        th_typeToNodeSet := (\<lambda>y. fold List.insert (filter (\<lambda>n. nd_type (nodeH g n) = y) ns) (th_typeToNodeSet t y)),
        th_edges := fold List.insert (concat (map (\<lambda>f. fn_edges (funH g f)) fs)) (th_edges t)\<rparr>)" for fs
    by (induction fs arbitrary: t) (simp_all add: fold_addEdge fold_addNode Let_def)
  then show ?thesis by (simp add: collectNodes_def)
qed

text \<open>What a created thread runs.\<close>

definition threadOk :: "build_env \<Rightarrow> ccpg \<Rightarrow> thread \<Rightarrow> bool" where
  "threadOk E g t \<longleftrightarrow> threadFacts g (threadMainFunction t) (set (th_functions t)) (set (th_edges t)) \<and>
     set (th_nodes t) = (\<Union>f \<in> set (th_functions t). set (fn_nodes (funH g f))) \<and>
     (\<forall>ty. set (th_typeToNodeSet t ty) = {n \<in> set (th_nodes t). nd_type (nodeH g n) = ty}) \<and>
     allServed E g (set (th_edges t)) (set (th_functions t))"

lemma threadOk_kept:
  assumes "threadOk E g t" "kept g g'" "builder_ok E B" "b_g B = g"
  shows "threadOk E g' t"
proof -
  have gok: "ccpg_ok g" using assms(3,4) by (auto simp: builder_ok_def)
  have T: "threadFacts g (threadMainFunction t) (set (th_functions t)) (set (th_edges t))"
    and N: "set (th_nodes t) = (\<Union>f \<in> set (th_functions t). set (fn_nodes (funH g f)))"
    and Y: "\<And>ty. set (th_typeToNodeSet t ty) = {n \<in> set (th_nodes t). nd_type (nodeH g n) = ty}"
    and A: "allServed E g (set (th_edges t)) (set (th_functions t))"
    using assms(1) by (simp_all add: threadOk_def)
  have F: "set (th_functions t) \<subseteq> set (g_functions g)" using T by (simp add: threadFacts_def)
  have "threadFacts g' (threadMainFunction t) (set (th_functions t)) (set (th_edges t))"
    by (rule threadFacts_grow[OF T assms(2) gok, of _ "{}" _ "{}"]) simp_all
  moreover have "fn_nodes (funH g' f) = fn_nodes (funH g f)" if "f \<in> set (th_functions t)" for f
    using that F assms(2) by (auto simp: kept_def)
  then have "set (th_nodes t) = (\<Union>f \<in> set (th_functions t). set (fn_nodes (funH g' f)))" using N by simp
  moreover have "nd_type (nodeH g' n) = nd_type (nodeH g n)" if n: "n \<in> set (th_nodes t)" for n
  proof -
    from n N obtain f where "f \<in> set (th_functions t)" "n \<in> set (fn_nodes (funH g f))" by auto
    moreover from this have "functionExact E g f" using F assms(3,4) by (auto simp: builder_ok_def)
    ultimately have "n \<in> set (g_nodes g)" by (auto simp: functionExact_def Let_def)
    then show ?thesis using kept_node[OF assms(2) gok] node_key_eq by blast
  qed
  then have "set (th_typeToNodeSet t ty) = {n \<in> set (th_nodes t). nd_type (nodeH g' n) = ty}" for ty
    using Y by auto
  moreover have "allServed E g' (set (th_edges t)) (set (th_functions t))"
    by (rule allServed_mono[OF A assms(2) subset_refl F])
  ultimately show ?thesis by (simp add: threadOk_def)
qed

lemma collectNodes_ok:
  assumes ok: "builder_ok E B" and g: "g = b_g B" and w: "walkInv E g0 main t0 (B, t, vis) []"
    and t0: "threadMainFunction t0 = main" "th_typeToNodeSet t0 = (\<lambda>_. [])"
  shows "threadOk E g (collectNodes g t)"
proof -
  let ?c = "collectNodes g t"
  let ?ns = "\<Union>f \<in> set (th_functions t). set (fn_nodes (funH g f))"
  have fr: "t\<lparr>th_edges := [], th_nodes := [], th_functions := []\<rparr> = t0" and fs: "set (th_functions t) = set vis"
    and ns: "set (th_nodes t) = ?ns" and T: "threadFacts g main (set vis) (set (th_edges t))"
    and A: "allServed E g (set (th_edges t)) (set vis)"
    using w g by (simp_all add: walkInv_def)
  have F: "set vis \<subseteq> set (g_functions g)" using T by (simp add: threadFacts_def)
  have main: "threadMainFunction t = main" "th_typeToNodeSet t = (\<lambda>_. [])"
    using arg_cong[OF fr, of threadMainFunction] arg_cong[OF fr, of th_typeToNodeSet] t0 by simp_all
  have order: "e_type e = ORDER" if "f \<in> set vis" "e \<in> set (fn_edges (funH g f))" for e f
  proof (rule functionExact_order[OF _ that(2)])
    show "functionExact E g f" using that(1) ok F g by (auto simp: builder_ok_def)
  qed
  have gok: "ccpg_ok g" using ok g by (simp add: builder_ok_def)
  have "threadFacts g main (set vis) (set (th_edges ?c))"
    by (rule threadFacts_grow[OF T kept_refl gok, of _ "\<Union>f \<in> set vis. set (fn_edges (funH g f))" _ "{}"])
      (use order fs in \<open>auto simp: collectNodes_eq Let_def fold_insert_set\<close>)
  moreover have "set (th_nodes ?c) = ?ns"
    using ns by (auto simp: collectNodes_eq Let_def fold_insert_set)
  moreover have "set (th_typeToNodeSet ?c ty) = {n \<in> ?ns. nd_type (nodeH g n) = ty}" for ty
    using main by (auto simp: collectNodes_eq Let_def fold_insert_set)
  moreover have "th_functions ?c = th_functions t" "threadMainFunction ?c = main"
    using main by (simp_all add: collectNodes_eq Let_def)
  moreover have "allServed E g (set (th_edges ?c)) (set vis)"
    by (rule allServed_mono[OF A kept_refl _ F]) (auto simp: collectNodes_eq Let_def fold_insert_set)
  ultimately show ?thesis using fs by (simp add: threadOk_def)
qed


lemma runThread_ok:
  assumes ok: "run_ok E (ts_B S)" and n: "fnode \<in> set (g_nodes (b_g (ts_B S)))"
    and r: "runThread E fork par fnode S = Some (t, S')"
  shows "\<exists>B' th. t = ts_next S \<and> S' = \<lparr>ts_B = B', ts_T = addThread t (updThread t (\<lambda>_. th) (ts_T S)), ts_next = Suc t\<rparr> \<and>
    run_ok E B' \<and> kept (b_g (ts_B S)) (b_g B') \<and> threadOk E (b_g B') th \<and>
    forkNode th = fork \<and> parent th = par \<and> th_id th = length (threads (ts_T S)) \<and> children th = [] \<and>
    threadMainFunction th \<in> set (g_functions (b_g B')) \<and> fn_funcNode (funH (b_g B') (threadMainFunction th)) = fnode"
proof -
  let ?t0 = "\<lambda>f. (newThread (length (threads (ts_T S))) fork par)\<lparr>threadMainFunction := f\<rparr>"
  from r obtain f B1 B' th0 vis where
    c: "createFunction E fnode (ts_B S) = Some (f, B1)" and
    w: "worklist (threadVisit E) [f] (B1, ?t0 f, []) = Some (B', th0, vis)" and
    S': "t = ts_next S" "S' = \<lparr>ts_B = B', ts_T = addThread t (updThread t (\<lambda>_. collectNodes (b_g B') th0) (ts_T S)), ts_next = Suc t\<rparr>"
    by (auto simp: runThread_def Let_def split: option.splits)
  note C = createFunction_run[OF ok n c]
  have bok: "builder_ok E (ts_B S)" "ccpg_ok (b_g B1)" using ok C by (simp_all add: run_ok_def builder_ok_def)
  have k1: "kept (b_g (ts_B S)) (b_g B1)" by (rule kept_createFunction[OF bok(1) n c])
  have "threadFacts (b_g B1) f {f} {}" using C by (simp add: threadFacts_def)
  then have "walkInv E (b_g B1) f (?t0 f) (B1, ?t0 f, []) [f]" using C by (simp add: walkInv_def newThread_def allServed_def)
  then have W: "walkInv E (b_g B1) f (?t0 f) (B', th0, vis) []"
    using threadVisit_ok by (intro worklist_invariant[OF w, of "walkInv E (b_g B1) f (?t0 f)"]) auto
  then have R: "run_ok E B'" "kept (b_g B1) (b_g B')" by (simp_all add: walkInv_def)
  have fr: "th0\<lparr>th_edges := [], th_nodes := [], th_functions := []\<rparr> = ?t0 f" using W by (simp add: walkInv_def)
  let ?th = "collectNodes (b_g B') th0"
  have fields: "forkNode ?th = fork" "parent ?th = par" "th_id ?th = length (threads (ts_T S))" "children ?th = []"
    "threadMainFunction ?th = f"
    using arg_cong[OF fr, of forkNode] arg_cong[OF fr, of parent] arg_cong[OF fr, of th_id]
      arg_cong[OF fr, of children] arg_cong[OF fr, of threadMainFunction]
    by (simp_all add: collectNodes_eq Let_def newThread_def)
  have "threadOk E (b_g B') ?th"
    by (rule collectNodes_ok[OF _ refl W]) (use R in \<open>simp_all add: run_ok_def newThread_def\<close>)
  moreover have "f \<in> set (g_functions (b_g B'))" "fn_funcNode (funH (b_g B') f) = fnode"
    using C kept_functions[OF R(2)] kept_funcNode[OF R(2) bok(2)] by auto
  ultimately show ?thesis using S' R fields kept_trans[OF k1 R(2)] by blast
qed

subsection \<open>The tree\<close>

definition treeInv :: "build_env \<Rightarrow> tstate \<Rightarrow> bool" where
  "treeInv E S \<longleftrightarrow> (let T = ts_T S; ts = threads T; g = b_g (ts_B S) in
     run_ok E (ts_B S) \<and> 0 < ts_next S \<and> distinct ts \<and>
     (\<forall>t \<in> set ts. 0 < t \<and> t < ts_next S \<and> threadOk E g (thr T t) \<and>
        (parent (thr T t) = null \<or>
         parent (thr T t) \<in> set ts \<and> parent (thr T t) < t \<and> t \<in> set (children (thr T (parent (thr T t)))))) \<and>
     (\<forall>t. t \<notin> set ts \<longrightarrow> parent (thr T t) = null) \<and>
     map (\<lambda>t. th_id (thr T t)) (rev ts) = [0 ..< length ts] \<and>
     inj_on (\<lambda>t. threadMainFunction (thr T t)) (set ts) \<and> inj_on (\<lambda>t. forkNode (thr T t)) (set ts))"

text \<open>What a new thread must be for the tree to stay as it is.\<close>

lemma treeInv_add:
  assumes inv: "treeInv E S" and t: "t = ts_next S"
    and S': "S' = \<lparr>ts_B = B', ts_T = addThread t (updThread t (\<lambda>_. th) T'), ts_next = Suc t\<rparr>"
    and B': "run_ok E B'" "kept (b_g (ts_B S)) (b_g B')"
    and th: "threadOk E (b_g B') th" "th_id th = length (threads (ts_T S))"
    and par: "parent th = null \<and> T' = ts_T S \<or>
      parent th \<in> set (threads (ts_T S)) \<and> T' = updThread (parent th) (thread_addChild t) (ts_T S)"
    and main: "threadMainFunction th \<notin> (\<lambda>u. threadMainFunction (thr (ts_T S) u)) ` set (threads (ts_T S))"
    and fork: "forkNode th \<notin> (\<lambda>u. forkNode (thr (ts_T S) u)) ` set (threads (ts_T S))"
  shows "treeInv E S' \<and> threads (ts_T S') = t # threads (ts_T S)"
proof -
  let ?T = "ts_T S" let ?ts = "threads ?T" let ?U = "ts_T S'"
  have I: "distinct ?ts" "\<forall>u \<in> set ?ts. 0 < u \<and> u < t \<and> threadOk E (b_g (ts_B S)) (thr ?T u) \<and>
        (parent (thr ?T u) = null \<or> parent (thr ?T u) \<in> set ?ts \<and> parent (thr ?T u) < u \<and>
         u \<in> set (children (thr ?T (parent (thr ?T u)))))"
    "\<forall>u. u \<notin> set ?ts \<longrightarrow> parent (thr ?T u) = null" "0 < t"
    "map (\<lambda>u. th_id (thr ?T u)) (rev ?ts) = [0 ..< length ?ts]"
    "inj_on (\<lambda>u. threadMainFunction (thr ?T u)) (set ?ts)" "inj_on (\<lambda>u. forkNode (thr ?T u)) (set ?ts)"
    using inv by (simp_all add: treeInv_def Let_def t)
  have fresh: "t \<notin> set ?ts" using I(2) by auto
  have ts: "threads ?U = t # ?ts"
    using fresh par by (auto simp: S' addThread_def updThread_def List.insert_def)
  have new: "thr ?U t = th" by (simp add: S' addThread_def updThread_def)
  have child: "\<exists>cs. thr ?U u = (thr ?T u)\<lparr>children := cs\<rparr> \<and> set (children (thr ?T u)) \<subseteq> set cs" if "u \<noteq> t" for u
  proof (cases "T' = ?T")
    case False
    with par have "thr ?U u = (if u = parent th then thread_addChild t (thr ?T u) else thr ?T u)"
      using that by (simp add: S' addThread_def updThread_def)
    then show ?thesis by (cases "u = parent th") (auto simp: thread_addChild_def intro: exI[of _ "children (thr ?T u)"])
  qed (use that in \<open>auto simp: S' addThread_def updThread_def intro: exI[of _ "children (thr ?T u)"]\<close>)
  have old: "parent (thr ?U u) = parent (thr ?T u)" "th_id (thr ?U u) = th_id (thr ?T u)"
    "threadMainFunction (thr ?U u) = threadMainFunction (thr ?T u)" "forkNode (thr ?U u) = forkNode (thr ?T u)"
    "set (children (thr ?T u)) \<subseteq> set (children (thr ?U u))" "threadOk E g (thr ?U u) = threadOk E g (thr ?T u)"
    if "u \<noteq> t" for u g using child[OF that] by (auto simp: threadOk_def)
  have keep: "u \<noteq> t" if "u \<in> set ?ts" for u using that fresh by auto
  have bok: "builder_ok E (ts_B S)" using inv by (simp add: treeInv_def Let_def run_ok_def)
  have "parent th \<noteq> null \<Longrightarrow> parent th \<in> set ?ts \<and> t \<in> set (children (thr ?U (parent th)))"
    using par keep by (auto simp: S' addThread_def updThread_def thread_addChild_def)
  then have "\<forall>u \<in> set (threads ?U). 0 < u \<and> u < Suc t \<and> threadOk E (b_g B') (thr ?U u) \<and>
      (parent (thr ?U u) = null \<or> parent (thr ?U u) \<in> set (threads ?U) \<and> parent (thr ?U u) < u \<and>
       u \<in> set (children (thr ?U (parent (thr ?U u)))))"
  proof (intro ballI)
    fix u assume par': "parent th \<noteq> null \<Longrightarrow> parent th \<in> set ?ts \<and> t \<in> set (children (thr ?U (parent th)))"
      and u: "u \<in> set (threads ?U)"
    show "0 < u \<and> u < Suc t \<and> threadOk E (b_g B') (thr ?U u) \<and>
      (parent (thr ?U u) = null \<or> parent (thr ?U u) \<in> set (threads ?U) \<and> parent (thr ?U u) < u \<and>
       u \<in> set (children (thr ?U (parent (thr ?U u)))))"
    proof (cases "u = t")
      case True
      with par' th(1) new I(2,4) ts show ?thesis by auto
    next
      case False
      then have u: "u \<in> set ?ts" using u ts by simp
      then have "threadOk E (b_g B') (thr ?T u)" using I(2) threadOk_kept[OF _ B'(2) bok refl] by blast
      moreover have p: "parent (thr ?T u) = null \<or> parent (thr ?T u) \<in> set ?ts \<and> parent (thr ?T u) < u \<and>
          u \<in> set (children (thr ?T (parent (thr ?T u))))" and "0 < u" "u < t" using I(2) u by simp_all
      moreover have "set (children (thr ?T q)) \<subseteq> set (children (thr ?U q))" if "q \<in> set ?ts" for q
        using old(5) keep[OF that] by blast
      ultimately show ?thesis using old(1,6)[OF False] ts by auto
    qed
  qed
  moreover have "\<forall>u. u \<notin> set (threads ?U) \<longrightarrow> parent (thr ?U u) = null" using I(3) ts old(1) by auto
  moreover have "map (\<lambda>u. th_id (thr ?U u)) (rev ?ts) = map (\<lambda>u. th_id (thr ?T u)) (rev ?ts)"
    using old(2) keep by (intro map_cong) auto
  then have "map (\<lambda>u. th_id (thr ?U u)) (rev (threads ?U)) = [0 ..< length (threads ?U)]"
    using I(5) ts new th(2) by simp
  moreover have "inj_on (\<lambda>u. h (thr ?U u)) (set (threads ?U))"
    if "inj_on (\<lambda>u. h (thr ?T u)) (set ?ts)" "h th \<notin> (\<lambda>u. h (thr ?T u)) ` set ?ts"
      "\<And>u. u \<noteq> t \<Longrightarrow> h (thr ?U u) = h (thr ?T u)" for h :: "thread \<Rightarrow> ptr"
  proof -
    have "inj_on (\<lambda>u. h (thr ?U u)) (set ?ts)" "(\<lambda>u. h (thr ?U u)) ` set ?ts = (\<lambda>u. h (thr ?T u)) ` set ?ts"
      using that(1,3) keep by (auto simp: inj_on_def)
    then show ?thesis using ts new that(2) fresh by simp
  qed
  then have "inj_on (\<lambda>u. threadMainFunction (thr ?U u)) (set (threads ?U))" "inj_on (\<lambda>u. forkNode (thr ?U u)) (set (threads ?U))"
    using I(6,7) main fork old(3,4) by blast+
  ultimately show ?thesis using B'(1) ts I(1) fresh by (simp add: treeInv_def Let_def S')
qed


lemma treeInvD:
  assumes "treeInv E S"
  shows "run_ok E (ts_B S)" "0 < ts_next S" "distinct (threads (ts_T S))"
    "t \<in> set (threads (ts_T S)) \<Longrightarrow> 0 < t \<and> t < ts_next S \<and> threadOk E (b_g (ts_B S)) (thr (ts_T S) t) \<and>
        (parent (thr (ts_T S) t) = null \<or> parent (thr (ts_T S) t) \<in> set (threads (ts_T S)) \<and>
         parent (thr (ts_T S) t) < t \<and> t \<in> set (children (thr (ts_T S) (parent (thr (ts_T S) t)))))"
    "t \<notin> set (threads (ts_T S)) \<Longrightarrow> parent (thr (ts_T S) t) = null"
    "map (\<lambda>t. th_id (thr (ts_T S) t)) (rev (threads (ts_T S))) = [0 ..< length (threads (ts_T S))]"
    "inj_on (\<lambda>t. threadMainFunction (thr (ts_T S) t)) (set (threads (ts_T S)))"
    "inj_on (\<lambda>t. forkNode (thr (ts_T S) t)) (set (threads (ts_T S)))"
  using assms by (simp_all add: treeInv_def Let_def)

lemma main_function:
  assumes "treeInv E S" "t \<in> set (threads (ts_T S))"
  shows "threadMainFunction (thr (ts_T S) t) \<in> set (g_functions (b_g (ts_B S)))"
  using treeInvD(4)[OF assms] by (auto simp: threadOk_def threadFacts_def)

lemma createThread_ok:
  assumes inv: "treeInv E S" and p: "p \<in> set (threads (ts_T S))" and c: "createThread E n p S = Some (t, S')"
  shows "treeInv E S' \<and> kept (b_g (ts_B S)) (b_g (ts_B S')) \<and>
    (t = null \<and> S' = S \<or> t = ts_next S \<and> threads (ts_T S') = t # threads (ts_T S)) \<and>
    (\<forall>u \<in> set (threads (ts_T S)). threadMainFunction (thr (ts_T S') u) = threadMainFunction (thr (ts_T S) u))"
proof (cases "t = null \<and> S' = S")
  case False
  let ?g = "b_g (ts_B S)" let ?T = "ts_T S" let ?ts = "set (threads ?T)"
  have "p \<noteq> null" using treeInvD(4)[OF inv p] by simp
  with c False have kf: "\<not> knownFork ?g ?T n" by (auto simp: createThread_def Let_def split: if_splits)
  from c False \<open>p \<noteq> null\<close> obtain m where m: "findThreadEntryInCPG E ?g n = Ok m"
    by (auto simp: createThread_def Let_def split: if_splits result.splits)
  have nm: "m \<noteq> null" "\<not> knownEntry ?g ?T m"
    using c False m kf \<open>p \<noteq> null\<close> by (auto simp: createThread_def Let_def split: if_splits)
  obtain fnode g1 where node: "createCCPGNode (be_util E) m ?g = (fnode, g1)" by fastforce
  let ?S1 = "S\<lparr>ts_B := (ts_B S)\<lparr>b_g := g1\<rparr>, ts_T := updThread p (thread_addChild (ts_next S)) ?T\<rparr>"
  have r: "runThread E n p fnode ?S1 = Some (t, S')"
    using c kf m nm node \<open>p \<noteq> null\<close> by (simp add: createThread_def)
  have ok: "run_ok E (ts_B S)" by (rule treeInvD(1)[OF inv])
  then have bok: "builder_ok E (ts_B S)" "ccpg_ok ?g" by (simp_all add: run_ok_def builder_ok_def)
  note N = builder_ok_node[OF bok(1) nm(1) node]
  have g1: "g1 = snd (createCCPGNode (be_util E) m ?g)" using node by simp
  have ok1: "run_ok E (ts_B ?S1)" using N ok g1 ctx.node calls.node by (simp add: run_ok_def)
  have gok1: "ccpg_ok g1" using N by (simp add: builder_ok_def)
  have fn: "fnode \<in> set (g_nodes g1)" using N by blast
  have k1: "kept ?g g1" by (rule kept_createNode[OF bok(1) nm(1) node])
  have fn': "fnode \<in> set (g_nodes (b_g (ts_B ?S1)))" using fn by simp
  from runThread_ok[OF ok1 fn' r] obtain B' th where
    R0: "t = ts_next ?S1" "S' = \<lparr>ts_B = B', ts_T = addThread t (updThread t (\<lambda>_. th) (ts_T ?S1)), ts_next = Suc t\<rparr>"
      "run_ok E B'" "kept (b_g (ts_B ?S1)) (b_g B')" "threadOk E (b_g B') th" "forkNode th = n" "parent th = p"
      "th_id th = length (threads (ts_T ?S1))" "fn_funcNode (funH (b_g B') (threadMainFunction th)) = fnode"
    by (elim exE conjE) (rule that, assumption+)
  have eqs: "threads (ts_T ?S1) = threads ?T" "ts_next ?S1 = ts_next S" "b_g (ts_B ?S1) = g1" by (simp_all add: updThread_def)
  note R = R0(1)[unfolded eqs] R0(2,3) R0(4)[unfolded eqs] R0(5-7) R0(8)[unfolded eqs] R0(9)
  have k2: "kept ?g (b_g B')" using k1 R(4) kept_trans by blast
  have m': "nd_cpg (nodeH (b_g B') fnode) = m"
    using N kept_node[OF R(4) gok1 fn] node_key_eq by auto
  have main: "threadMainFunction th \<noteq> threadMainFunction (thr ?T u)" if u: "u \<in> ?ts" for u
  proof
    let ?f = "threadMainFunction (thr ?T u)"
    assume eq: "threadMainFunction th = ?f"
    have f: "?f \<in> set (g_functions ?g)" by (rule main_function[OF inv u])
    have "fn_funcNode (funH ?g ?f) = fnode" using R(9) eq kept_funcNode[OF k2 bok(2) f] by simp
    moreover have "fn_funcNode (funH ?g ?f) \<in> set (g_nodes ?g)" "?f \<noteq> null" using ccpg_okD(7)[OF bok(2) f] by simp_all
    moreover from this calculation have "nd_cpg (nodeH ?g fnode) = m" "fnode \<noteq> null"
      using m' kept_node[OF k2 bok(2), of fnode] node_key_eq ccpg_okD(3)[OF bok(2), of fnode] by auto
    ultimately have "mainMethod ?g ?T u = m" by (simp add: mainMethod_def)
    with nm(2) u show False by (auto simp: knownEntry_def list_ex_iff)
  qed
  have forks: "forkNode (thr ?T u) \<noteq> n" if "u \<in> ?ts" for u using kf that by (auto simp: knownFork_def list_ex_iff)
  have par: "ts_T ?S1 = updThread (parent th) (thread_addChild t) ?T" using R(1,7) by simp
  have "treeInv E S' \<and> threads (ts_T S') = t # threads ?T"
  proof (rule treeInv_add[OF inv R(1,2,3) k2 R(5,8)])
    show "parent th = null \<and> ts_T ?S1 = ?T \<or> parent th \<in> ?ts \<and> ts_T ?S1 = updThread (parent th) (thread_addChild t) ?T"
      using par R(7) p by blast
    show "threadMainFunction th \<notin> (\<lambda>u. threadMainFunction (thr ?T u)) ` ?ts"
      by (rule notI, erule imageE) (use main in blast)
    show "forkNode th \<notin> (\<lambda>u. forkNode (thr ?T u)) ` ?ts"
      by (rule notI, erule imageE) (use forks R(6) in force)
  qed
  moreover have "threadMainFunction (thr (ts_T S') u) = threadMainFunction (thr ?T u)" if "u \<in> ?ts" for u
    using treeInvD(4)[OF inv that] R(1) by (auto simp: R(2) addThread_def updThread_def thread_addChild_def)
  ultimately show ?thesis using R(1,2) k2 by simp
qed (use assms in auto)

text \<open>The threads of the entries, one for each function.\<close>

definition entryInv :: "build_env \<Rightarrow> ptr set \<Rightarrow> ccpg \<Rightarrow> tstate \<times> (ptr \<times> ptr) list \<Rightarrow> bool" where
  "entryInv E D g0 = (\<lambda>(S, q). treeInv E S \<and> kept g0 (b_g (ts_B S)) \<and>
     (\<lambda>t. threadMainFunction (thr (ts_T S) t)) ` set (threads (ts_T S)) = D \<and>
     (\<forall>t \<in> set (threads (ts_T S)). forkNode (thr (ts_T S) t) = fn_funcNode (funH (b_g (ts_B S)) (threadMainFunction (thr (ts_T S) t)))) \<and>
     length (threads (ts_T S)) = card D \<and> snd ` set q \<subseteq> set (threads (ts_T S)))"

lemma flags_fields [simp]:
  "parent (thr (updThread t (entryFlags a b c) T) u) = parent (thr T u)"
  "children (thr (updThread t (entryFlags a b c) T) u) = children (thr T u)"
  "th_id (thr (updThread t (entryFlags a b c) T) u) = th_id (thr T u)"
  "forkNode (thr (updThread t (entryFlags a b c) T) u) = forkNode (thr T u)"
  "threadMainFunction (thr (updThread t (entryFlags a b c) T) u) = threadMainFunction (thr T u)"
  "threadOk E g (thr (updThread t (entryFlags a b c) T) u) = threadOk E g (thr T u)"
  "threads (updThread t (entryFlags a b c) T) = threads T"
  by (simp_all add: updThread_def entryFlags_def threadOk_def)

lemma treeInv_flags: "treeInv E S \<Longrightarrow> treeInv E (S\<lparr>ts_T := updThread t (entryFlags a b c) (ts_T S)\<rparr>)"
  by (simp add: treeInv_def Let_def)

lemma buildEntry_ok:
  assumes inv: "entryInv E D g0 st" and gok: "ccpg_ok g0" and e: "entry \<in> set (g_functions g0)" "entry \<notin> D" "finite D"
    and b: "buildEntry E manual kmode entry st = Some st'"
  shows "entryInv E (insert entry D) g0 st'"
proof -
  obtain S q where st: "st = (S, q)" by fastforce
  let ?g = "b_g (ts_B S)" let ?T = "ts_T S" let ?n = "fn_funcNode (funH ?g entry)"
  have I: "treeInv E S" "kept g0 ?g" "(\<lambda>t. threadMainFunction (thr ?T t)) ` set (threads ?T) = D"
    "\<forall>t \<in> set (threads ?T). forkNode (thr ?T t) = fn_funcNode (funH ?g (threadMainFunction (thr ?T t)))"
    "length (threads ?T) = card D" "snd ` set q \<subseteq> set (threads ?T)" using inv by (simp_all add: entryInv_def st)
  have ok: "run_ok E (ts_B S)" by (rule treeInvD(1)[OF I(1)])
  then have bok: "builder_ok E (ts_B S)" "ccpg_ok ?g" by (simp_all add: run_ok_def builder_ok_def)
  have eg: "entry \<in> set (g_functions ?g)" using e(1) kept_functions[OF I(2)] by blast
  have n: "?n \<in> set (g_nodes ?g)" using ccpg_okD(7)[OF bok(2) eg] by simp
  from b obtain t S1 where c: "runThread E ?n null ?n S = Some (t, S1)" and
    st': "st' = (S1\<lparr>ts_T := updThread t (entryFlags manual kmode (funH (b_g (ts_B S1)) entry)) (ts_T S1)\<rparr>,
      q @ forksOf (updThread t (entryFlags manual kmode (funH (b_g (ts_B S1)) entry)) (ts_T S1)) t)"
    by (auto simp: buildEntry_def st createThread_def Let_def split: option.splits)
  from runThread_ok[OF ok n c] obtain B' th where
    R: "t = ts_next S" "S1 = \<lparr>ts_B = B', ts_T = addThread t (updThread t (\<lambda>_. th) ?T), ts_next = Suc t\<rparr>"
      "run_ok E B'" "kept ?g (b_g B')" "threadOk E (b_g B') th" "forkNode th = ?n" "parent th = null"
      "th_id th = length (threads ?T)" "threadMainFunction th \<in> set (g_functions (b_g B'))"
      "fn_funcNode (funH (b_g B') (threadMainFunction th)) = ?n" by blast
  have gok': "ccpg_ok (b_g B')" using R(3) by (simp add: run_ok_def builder_ok_def)
  have same: "fn_funcNode (funH (b_g B') f) = fn_funcNode (funH ?g f)" if "f \<in> set (g_functions ?g)" for f
    by (rule kept_funcNode[OF R(4) bok(2) that])
  have th: "threadMainFunction th = entry"
    by (rule function_unique[OF gok' R(9)]) (use eg kept_functions[OF R(4)] R(10) same[OF eg] in auto)
  have fork: "?n \<noteq> forkNode (thr ?T u)" if u: "u \<in> set (threads ?T)" for u
  proof
    assume "?n = forkNode (thr ?T u)"
    then have "entry = threadMainFunction (thr ?T u)"
      using function_unique[OF bok(2) eg main_function[OF I(1) u]] I(4) u by simp
    with e(2) I(3) u show False by blast
  qed
  have "treeInv E S1 \<and> threads (ts_T S1) = t # threads ?T"
    by (rule treeInv_add[OF I(1) R(1,2,3,4,5,8)]) (use R th fork e(2) I(3) in auto)
  then have tree: "treeInv E S1" and ts: "threads (ts_T S1) = t # threads ?T" by simp_all
  have fresh: "t \<notin> set (threads ?T)" using treeInvD(3)[OF tree] ts by simp
  have heap: "thr (ts_T S1) u = (if u = t then th else thr ?T u)" for u
    by (simp add: R(2) addThread_def updThread_def)
  have mains: "(\<lambda>u. threadMainFunction (thr (ts_T S1) u)) ` set (threads (ts_T S1)) = insert entry D"
  proof -
    have "(\<lambda>u. threadMainFunction (thr (ts_T S1) u)) ` set (threads ?T) = D"
      unfolding I(3)[symmetric] by (intro image_cong) (use fresh heap in auto)
    then show ?thesis using ts heap th by simp
  qed
  have forks: "forkNode (thr (ts_T S1) u) = fn_funcNode (funH (b_g (ts_B S1)) (threadMainFunction (thr (ts_T S1) u)))"
    if "u \<in> set (threads (ts_T S1))" for u
    using that ts heap I(4) same main_function[OF I(1), of u] R(6,10) by (cases "u = t") (auto simp: R(2))
  have "kept g0 (b_g (ts_B S1))" using kept_trans[OF I(2) R(4)] by (simp add: R(2))
  then show ?thesis
    using treeInv_flags[OF tree] mains forks ts I(5,6) e(2,3) by (auto simp: entryInv_def st' forksOf_def)
qed


lemma buildEntries_ok:
  assumes inv: "entryInv E D g0 st" and gok: "ccpg_ok g0" and es: "distinct es" "set es \<subseteq> set (g_functions g0)"
      "set es \<inter> D = {}" "finite D"
    and b: "foldM (buildEntry E manual kmode) es st = Some st'"
  shows "entryInv E (D \<union> set es) g0 st'"
  using inv es b
proof (induction es arbitrary: D st)
  case (Cons e es)
  from Cons.prems(6) obtain st1 where s: "buildEntry E manual kmode e st = Some st1"
    "foldM (buildEntry E manual kmode) es st1 = Some st'" by (auto split: option.splits)
  have "entryInv E (insert e D) g0 st1"
    using buildEntry_ok[OF Cons.prems(1) gok _ _ Cons.prems(5) s(1)] Cons.prems by auto
  from Cons.IH[OF this _ _ _ _ s(2)] Cons.prems show ?case by auto
qed simp

text \<open>Serving the creation sites adds threads only; each round adds at most one.\<close>

lemma forkRounds_ok:
  assumes "treeInv E S" "snd ` set q \<subseteq> set (threads (ts_T S))" "forkRounds E k q S = Some S'"
  shows "treeInv E S' \<and> kept (b_g (ts_B S)) (b_g (ts_B S')) \<and>
    (\<exists>new. threads (ts_T S') = new @ threads (ts_T S) \<and> length new \<le> k \<and>
      (\<forall>t \<in> set (threads (ts_T S)). threadMainFunction (thr (ts_T S') t) = threadMainFunction (thr (ts_T S) t)))"
  using assms
proof (induction E k q S rule: forkRounds.induct)
  case (3 E k n p q S)
  from 3(4) obtain t S1 where c: "createThread E n p S = Some (t, S1)"
    and r: "forkRounds E k (if t = null then q else q @ forksOf (ts_T S1) t) S1 = Some S'"
    by (auto split: option.splits)
  have p: "p \<in> set (threads (ts_T S))" using 3(3) by auto
  note C = createThread_ok[OF 3(2) p c]
  have ts: "threads (ts_T S1) = threads (ts_T S) \<or> threads (ts_T S1) = t # threads (ts_T S)" using C by auto
  have q: "snd ` set (if t = null then q else q @ forksOf (ts_T S1) t) \<subseteq> set (threads (ts_T S1))"
    using C 3(3) treeInvD(2)[OF 3(2)] by (auto simp: forksOf_def)
  have IH: "treeInv E S' \<and> kept (b_g (ts_B S1)) (b_g (ts_B S')) \<and>
    (\<exists>new. threads (ts_T S') = new @ threads (ts_T S1) \<and> length new \<le> k \<and>
      (\<forall>u \<in> set (threads (ts_T S1)). threadMainFunction (thr (ts_T S') u) = threadMainFunction (thr (ts_T S1) u)))"
    using 3(1)[OF c refl _ q r] C by simp
  from IH obtain new where n: "threads (ts_T S') = new @ threads (ts_T S1)" "length new \<le> k"
    "\<forall>u \<in> set (threads (ts_T S1)). threadMainFunction (thr (ts_T S') u) = threadMainFunction (thr (ts_T S1) u)" by blast
  have "\<exists>new. threads (ts_T S') = new @ threads (ts_T S) \<and> length new \<le> Suc k"
    using ts n(1,2) by (auto intro: exI[of _ "new @ [t]"])
  moreover have "\<forall>u \<in> set (threads (ts_T S)). threadMainFunction (thr (ts_T S') u) = threadMainFunction (thr (ts_T S) u)"
    using n(3) C ts by auto
  ultimately show ?case using IH C kept_trans by blast
qed auto

text \<open>The tree that is built, with or without the removal of threads that are on their own.\<close>

definition treeOk :: "build_env \<Rightarrow> builder \<Rightarrow> tct \<Rightarrow> bool" where
  "treeOk E B T \<longleftrightarrow> run_ok E B \<and> tree_wf T \<and> distinct (threads T) \<and>
     (\<forall>t \<in> set (threads T). threadOk E (b_g B) (thr T t) \<and> (parent (thr T t) = null \<or> parent (thr T t) \<in> set (threads T))) \<and>
     inj_on (\<lambda>t. th_id (thr T t)) (set (threads T)) \<and> inj_on (\<lambda>t. threadMainFunction (thr T t)) (set (threads T)) \<and>
     inj_on (\<lambda>t. forkNode (thr T t)) (set (threads T))"

lemma treeInv_wf: "treeInv E S \<Longrightarrow> tree_wf (ts_T S)"
  unfolding tree_wf_def
proof (intro exI[of _ id] allI impI)
  fix t assume "treeInv E S" "parent (thr (ts_T S) t) \<noteq> null"
  with treeInvD(4,5)[of E S t] show "id (parent (thr (ts_T S) t)) < id t" by (cases "t \<in> set (threads (ts_T S))") auto
qed

lemma distinct_map_inj: "distinct (map h xs) \<Longrightarrow> inj_on h (set xs)"
  by (simp add: distinct_map)

lemma treeInv_ok:
  assumes inv: "treeInv E S" and ts: "distinct ts" "set ts \<subseteq> set (threads (ts_T S))"
    and par: "\<forall>t \<in> set ts. parent (thr (ts_T S) t) = null \<or> parent (thr (ts_T S) t) \<in> set ts"
  shows "treeOk E (ts_B S) ((ts_T S)\<lparr>threads := ts\<rparr>)"
proof -
  have "tree_wf ((ts_T S)\<lparr>threads := ts\<rparr>)" using treeInv_wf[OF inv] tree_wf_heap[of "(ts_T S)\<lparr>threads := ts\<rparr>" "ts_T S"] by simp
  moreover have "inj_on (\<lambda>t. th_id (thr (ts_T S) t)) (set (rev (threads (ts_T S))))"
    by (rule distinct_map_inj) (simp only: treeInvD(6)[OF inv] distinct_upt)
  moreover have "threadOk E (b_g (ts_B S)) (thr (ts_T S) t)" if "t \<in> set ts" for t
    using treeInvD(4)[OF inv, of t] ts(2) that by auto
  ultimately show ?thesis
    using treeInvD(1,7,8)[OF inv] ts par unfolding treeOk_def by (auto intro: inj_on_subset)
qed

lemma buildTree_ok:
  assumes ok: "run_ok E (ts_B S)" "0 < ts_next S" and T: "threads (ts_T S) = []" "\<forall>t. parent (thr (ts_T S) t) = null"
    and es: "distinct (entryFunctions (ts_B S))" "set (entryFunctions (ts_B S)) \<subseteq> set (g_functions (b_g (ts_B S)))"
    and b: "buildTree E cfg S = Some S'"
  shows "treeOk E (ts_B S') (ts_T S') \<and> kept (b_g (ts_B S)) (b_g (ts_B S')) \<and>
    length (threads (ts_T S')) \<le> length (entryFunctions (ts_B S)) + 100 \<and>
    (length (entryFunctions (ts_B S)) > 1 \<or> enabled cfg \<longrightarrow>
      set (entryFunctions (ts_B S)) \<subseteq> (\<lambda>t. threadMainFunction (thr (ts_T S') t)) ` set (threads (ts_T S')))"
proof -
  let ?es = "entryFunctions (ts_B S)" let ?g = "b_g (ts_B S)" let ?k = "length ?es > 1 \<or> enabled cfg"
  from b obtain S1 q S2 where e: "foldM (buildEntry E (enabled cfg) ?k) ?es (S, []) = Some (S1, q)"
    and r: "forkRounds E 100 q S1 = Some S2"
    and S': "S' = (if ?k then S2 else S2\<lparr>ts_T := (ts_T S2)\<lparr>threads :=
      filter (\<lambda>t. \<not> (parent (thr (ts_T S2) t) = null \<and> children (thr (ts_T S2) t) = [])) (threads (ts_T S2))\<rparr>\<rparr>)"
    by (auto simp: buildTree_def Let_def split: option.splits if_splits)
  have gok: "ccpg_ok ?g" using ok(1) by (simp add: run_ok_def builder_ok_def)
  have "entryInv E {} ?g (S, [])" using ok T by (simp add: entryInv_def treeInv_def)
  from buildEntries_ok[OF this gok es _ _ e]
  have 1: "treeInv E S1" "kept ?g (b_g (ts_B S1))" "(\<lambda>t. threadMainFunction (thr (ts_T S1) t)) ` set (threads (ts_T S1)) = set ?es"
    "length (threads (ts_T S1)) = card (set ?es)" "snd ` set q \<subseteq> set (threads (ts_T S1))"
    by (simp_all add: entryInv_def)
  from forkRounds_ok[OF 1(1,5) r] obtain new where
    2: "treeInv E S2" "kept (b_g (ts_B S1)) (b_g (ts_B S2))" "threads (ts_T S2) = new @ threads (ts_T S1)" "length new \<le> 100"
      "\<forall>t \<in> set (threads (ts_T S1)). threadMainFunction (thr (ts_T S2) t) = threadMainFunction (thr (ts_T S1) t)" by blast
  let ?ts = "threads (ts_T S')"
  have len: "length (threads (ts_T S2)) \<le> length ?es + 100" using 1(4) 2(3,4) es(1) by (simp add: distinct_card)
  have S'': "ts_B S' = ts_B S2" "ts_T S' = (ts_T S2)\<lparr>threads := ?ts\<rparr>" by (simp_all add: S')
  have sub: "distinct ?ts" "set ?ts \<subseteq> set (threads (ts_T S2))" "length ?ts \<le> length (threads (ts_T S2))"
    using treeInvD(3)[OF 2(1)] by (auto simp: S' intro: length_filter_le)
  have "\<forall>t \<in> set ?ts. parent (thr (ts_T S2) t) = null \<or> parent (thr (ts_T S2) t) \<in> set ?ts"
  proof
    fix t assume "t \<in> set ?ts"
    then have "t \<in> set (threads (ts_T S2))" using sub(2) by blast
    from treeInvD(4)[OF 2(1) this] show "parent (thr (ts_T S2) t) = null \<or> parent (thr (ts_T S2) t) \<in> set ?ts"
      by (cases ?k) (auto simp: S')
  qed
  from treeInv_ok[OF 2(1) sub(1,2) this] have "treeOk E (ts_B S') (ts_T S')" using S'' by simp
  moreover have "set ?es \<subseteq> (\<lambda>t. threadMainFunction (thr (ts_T S') t)) ` set ?ts" if ?k
  proof -
    have "(\<lambda>t. threadMainFunction (thr (ts_T S2) t)) ` set (threads (ts_T S1)) = set ?es"
      unfolding 1(3)[symmetric] by (rule image_cong[OF refl]) (use 2(5) in blast)
    moreover have "ts_T S' = ts_T S2" using that by (simp add: S')
    ultimately show ?thesis using 2(3) by auto
  qed
  moreover have "kept ?g (b_g (ts_B S'))" using kept_trans[OF 1(2) 2(2)] S''(1) by simp
  ultimately show ?thesis using len sub(3) by simp
qed

end
