(* ===== verification/ReturnFacts.thy ===== *)
theory ReturnFacts
  imports ThreadRun
begin

text \<open>
  The construction ends: on a finite program whose methods, arguments and lines are readable,
  the expansion of the entries and the construction of the threads return.  Both loops are
  \<open>work_queue\<close>s: a function is entered once, and there are at most as many functions as
  methods.
\<close>

subsection \<open>Readable programs\<close>

text \<open>The set \<open>U\<close> holds the code nodes of the program.\<close>

definition resolves_in :: "build_env \<Rightarrow> cpg_heap \<Rightarrow> ptr set \<Rightarrow> bool" where
  "resolves_in E H U \<longleftrightarrow> (\<forall>g n. cpgH g = H \<longrightarrow>
     (\<exists>m. calleeMethod E g n = Ok m \<and> m \<in> insert null U) \<and> (\<exists>m. findThreadEntryInCPG E g n = Ok m \<and> m \<in> insert null U))"

definition readable :: "build_env \<Rightarrow> cpg_heap \<Rightarrow> ptr set \<Rightarrow> bool" where
  "readable E H U \<longleftrightarrow> cfg_universe (outCFGEdges (be_cpg E)) U \<and> lines_ok H U \<and> resolves_in E H U"

definition methodOf :: "ccpg \<Rightarrow> ptr \<Rightarrow> ptr" where
  "methodOf g f = nd_cpg (nodeH g (fn_funcNode (funH g f)))"

definition buildInv :: "build_env \<Rightarrow> cpg_heap \<Rightarrow> ptr set \<Rightarrow> builder \<Rightarrow> bool" where
  "buildInv E H U B \<longleftrightarrow> run_ok E B \<and> readable E H U \<and> cpgH (b_g B) = H \<and>
     (\<forall>f \<in> set (g_functions (b_g B)). methodOf (b_g B) f \<in> U)"

lemma resolves:
  assumes "buildInv E H U B"
  obtains m m' where "calleeMethod E (b_g B) n = Ok m" "m \<in> insert null U"
    "findThreadEntryInCPG E (b_g B) n = Ok m'" "m' \<in> insert null U"
proof -
  have "resolves_in E H U" "cpgH (b_g B) = H" using assms by (simp_all add: buildInv_def readable_def)
  then have "(\<exists>m. calleeMethod E (b_g B) n = Ok m \<and> m \<in> insert null U) \<and>
    (\<exists>m. findThreadEntryInCPG E (b_g B) n = Ok m \<and> m \<in> insert null U)" unfolding resolves_in_def by blast
  then show thesis using that by blast
qed

lemma methodOf_kept:
  assumes "kept g g'" "ccpg_ok g" "f \<in> set (g_functions g)"
  shows "methodOf g' f = methodOf g f"
proof -
  have "fn_funcNode (funH g f) \<in> set (g_nodes g)" using ccpg_okD(7)[OF assms(2,3)] by simp
  then show ?thesis
    using kept_node[OF assms(1,2)] kept_funcNode[OF assms] node_key_eq by (simp add: methodOf_def)
qed

lemma methodOf_inj:
  assumes "ccpg_ok g"
  shows "inj_on (methodOf g) (set (g_functions g))"
proof (rule inj_onI)
  fix f h assume f: "f \<in> set (g_functions g)" and h: "h \<in> set (g_functions g)" and eq: "methodOf g f = methodOf g h"
  have "fn_funcNode (funH g f) \<in> set (g_nodes g)" "fn_funcNode (funH g h) \<in> set (g_nodes g)"
    using ccpg_okD(7)[OF assms] f h by auto
  with eq ccpg_okD(5)[OF assms] have "fn_funcNode (funH g f) = fn_funcNode (funH g h)"
    by (metis methodOf_def option.inject)
  then show "f = h" by (rule function_unique[OF assms f h])
qed

text \<open>The visited functions are no more than the methods.\<close>

lemma visited_bound:
  assumes "buildInv E H U B" "distinct vis" "set vis \<subseteq> set (g_functions (b_g B))"
  shows "length vis \<le> card U"
proof -
  have gok: "ccpg_ok (b_g B)" and fin: "finite U" and m: "methodOf (b_g B) ` set vis \<subseteq> U"
    using assms(1,3) by (auto simp: buildInv_def run_ok_def builder_ok_def readable_def cfg_universe_def)
  have "length vis = card (methodOf (b_g B) ` set vis)"
    using assms(2,3) methodOf_inj[OF gok] by (metis card_image distinct_card inj_on_subset)
  then show ?thesis using card_mono[OF fin m] by simp
qed

text \<open>A new graph state of the same functions, and the function of a method.\<close>

lemma buildInv_step:
  assumes "buildInv E H U B" "run_ok E B'" "kept (b_g B) (b_g B')"
    "\<And>f. f \<in> set (g_functions (b_g B')) \<Longrightarrow> f \<notin> set (g_functions (b_g B)) \<Longrightarrow> methodOf (b_g B') f \<in> U"
  shows "buildInv E H U B'"
proof -
  have gok: "ccpg_ok (b_g B)" using assms(1) by (simp add: buildInv_def run_ok_def builder_ok_def)
  have "methodOf (b_g B') f \<in> U" if "f \<in> set (g_functions (b_g B'))" for f
  proof (cases "f \<in> set (g_functions (b_g B))")
    case True
    with methodOf_kept[OF assms(3) gok] assms(1) show ?thesis by (simp add: buildInv_def)
  qed (use that assms(4) in blast)
  moreover have "cpgH (b_g B') = cpgH (b_g B)" using assms(3) by (simp add: kept_def grows_def)
  ultimately show ?thesis using assms(1,2) by (simp add: buildInv_def)
qed

lemma create_returns:
  assumes inv: "buildInv E H U B" and n: "n \<in> set (g_nodes (b_g B))" "nd_cpg (nodeH (b_g B) n) \<in> U"
  shows "\<exists>f B'. createFunction E n B = Some (f, B') \<and> buildInv E H U B' \<and> kept (b_g B) (b_g B') \<and>
    f \<in> set (g_functions (b_g B')) \<and> fn_funcNode (funH (b_g B') f) = n"
proof -
  have ok: "run_ok E B" "builder_ok E B" "ccpg_ok (b_g B)" using inv by (simp_all add: buildInv_def run_ok_def builder_ok_def)
  have "cfg_universe (outCFGEdges (be_cpg E)) U" "lines_ok (cpgH (b_g B)) U"
    using inv by (auto simp: buildInv_def readable_def)
  from createFunction_returns[OF ok(2) n(1) this(1) n(2) this(2)]
  obtain f B' where c: "createFunction E n B = Some (f, B')" by blast
  note R = createFunction_run[OF ok(1) n(1) c]
  have k: "kept (b_g B) (b_g B')" by (rule kept_createFunction[OF ok(2) n(1) c])
  have "methodOf (b_g B') h \<in> U" if h: "h \<in> set (g_functions (b_g B'))" "h \<notin> set (g_functions (b_g B))" for h
  proof -
    have "h = f"
    proof (cases "getFunctionByCCPGNode (b_g B) n = null")
      case True
      with createFunction_new[OF ok(2) n(1) True c] h show ?thesis by blast
    next
      case False
      with c h show ?thesis by (simp add: createFunction_def)
    qed
    then show ?thesis using R kept_node[OF k ok(3) n(1)] node_key_eq n(2) by (simp add: methodOf_def)
  qed
  then have "buildInv E H U B'" using buildInv_step[OF inv _ k] R by blast
  with c R k show ?thesis by blast
qed

lemma node_returns:
  assumes inv: "buildInv E H U B" and m: "m \<in> U" "m \<noteq> null" and c: "createCCPGNode u m (b_g B) = (p, g)"
  shows "buildInv E H U (B\<lparr>b_g := g\<rparr>) \<and> kept (b_g B) g \<and> p \<in> set (g_nodes g) \<and> nd_cpg (nodeH g p) = m \<and> p \<noteq> null"
proof -
  have ok: "run_ok E B" "builder_ok E B" using inv by (simp_all add: buildInv_def run_ok_def)
  note N = builder_ok_node[OF ok(2) m(2) c]
  have k: "kept (b_g B) g" by (rule kept_createNode[OF ok(2) m(2) c])
  have "g = snd (createCCPGNode u m (b_g B))" using c by simp
  then have "run_ok E (B\<lparr>b_g := g\<rparr>)" using N ok(1) ctx.node calls.node by (simp add: run_ok_def)
  then have "buildInv E H U (B\<lparr>b_g := g\<rparr>)" by (rule buildInv_step[OF inv]) (use N k in simp_all)
  moreover have "ccpg_ok g" using N by (simp add: builder_ok_def)
  then have "p \<noteq> null" using ccpg_okD(3) N by blast
  ultimately show ?thesis using N k by blast
qed

text \<open>The callee of a call without an edge, created and linked.\<close>

lemma callee_returns:
  assumes inv: "buildInv E H U B" and free: "callsOf (b_g B) n = []"
  shows "findCalleeByCaller E n B = Some (null, B) \<or>
    (\<exists>c B1 f B2. findCalleeByCaller E n B = Some (c, B1) \<and> c \<noteq> null \<and> createFunction E c B1 = Some (f, B2) \<and>
       buildInv E H U (B2\<lparr>b_g := createCCPGEdge n c CALL (b_g B2)\<rparr>) \<and> kept (b_g B) (b_g B2) \<and>
       f \<in> set (g_functions (b_g B2)))"
proof -
  have none: "hasCallEdge (b_g B) n = None" using free by (simp add: hasCallEdge_callsOf)
  obtain m where m: "calleeMethod E (b_g B) n = Ok m" "m \<in> insert null U" by (rule resolves[OF inv])
  show ?thesis
  proof (cases "m = null")
    case True
    with none m show ?thesis by (simp add: findCalleeByCaller_def createCCPGNode_def)
  next
    case False
    obtain c g where node: "createCCPGNode (be_util E) m (b_g B) = (c, g)" by fastforce
    let ?B1 = "B\<lparr>b_g := g\<rparr>"
    have N: "buildInv E H U ?B1" "kept (b_g B) g" "c \<in> set (g_nodes g)" "nd_cpg (nodeH g c) = m" "c \<noteq> null"
      using node_returns[OF inv _ False node] m False by auto
    have fc: "findCalleeByCaller E n B = Some (c, ?B1)" using none m node by (simp add: findCalleeByCaller_def)
    have mU: "m \<in> U" using m(2) False by simp
    from create_returns[OF N(1), of c] N mU obtain f B2 where
      C: "createFunction E c ?B1 = Some (f, B2)" "buildInv E H U B2" "kept g (b_g B2)" "f \<in> set (g_functions (b_g B2))" by auto
    have ok: "run_ok E B" using inv by (simp add: buildInv_def)
    have "run_ok E (B2\<lparr>b_g := createCCPGEdge n c CALL (b_g B2)\<rparr>)"
      using fresh_call[OF ok free fc N(5) C(1) refl] by blast
    then have "buildInv E H U (B2\<lparr>b_g := createCCPGEdge n c CALL (b_g B2)\<rparr>)"
      by (rule buildInv_step[OF C(2)]) simp_all
    moreover have "kept (b_g B) (b_g B2)" using N(2) C(3) kept_trans by blast
    ultimately show ?thesis using fc N(5) C(1,4) by blast
  qed
qed

lemma buildInv_context: "buildInv E H U B \<Longrightarrow> buildInv E H U (B\<lparr>b_g := handleContext c f (b_g B)\<rparr>)"
  by (rule buildInv_step) (use context_ok in \<open>auto simp: buildInv_def kept_def\<close>)

lemma buildInv_edge:
  assumes "buildInv E H U B" "f \<in> set (g_functions (b_g B))" "fn_funcNode (funH (b_g B) f) = d" "ty \<noteq> CALL"
  shows "buildInv E H U (B\<lparr>b_g := createCCPGEdge c d ty (b_g B)\<rparr>)"
  by (rule buildInv_step[OF assms(1)]) (use edge_ok[of E B f d ty c] assms in \<open>auto simp: buildInv_def\<close>)


subsection \<open>The expansion of the entries\<close>

definition stepInv :: "build_env \<Rightarrow> cpg_heap \<Rightarrow> ptr set \<Rightarrow> ccpg \<Rightarrow> builder \<times> ptr list \<Rightarrow> bool" where
  "stepInv E H U g0 = (\<lambda>(B, new). buildInv E H U B \<and> kept g0 (b_g B) \<and> set new \<subseteq> set (g_functions (b_g B)))"

lemma expandCall_returns:
  assumes "stepInv E H U g0 st"
  shows "\<exists>st'. expandCall E n st = Some st' \<and> stepInv E H U g0 st'"
proof -
  obtain B new where st: "st = (B, new)" by fastforce
  have inv: "buildInv E H U B" "kept g0 (b_g B)" "set new \<subseteq> set (g_functions (b_g B))" using assms by (simp_all add: stepInv_def st)
  show ?thesis
  proof (cases "hasCallEdge (b_g B) n")
    case None
    then have free: "callsOf (b_g B) n = []" by (simp add: hasCallEdge_callsOf)
    from callee_returns[OF inv(1) free] show ?thesis
    proof (elim disjE exE conjE)
      assume "findCalleeByCaller E n B = Some (null, B)"
      with None assms show ?thesis by (simp add: expandCall_def createFunctionByCaller_def st)
    next
      fix c B1 f B2
      assume c: "findCalleeByCaller E n B = Some (c, B1)" "c \<noteq> null" "createFunction E c B1 = Some (f, B2)"
        and i: "buildInv E H U (B2\<lparr>b_g := createCCPGEdge n c CALL (b_g B2)\<rparr>)" and k: "kept (b_g B) (b_g B2)"
        and f: "f \<in> set (g_functions (b_g B2))"
      let ?B = "B2\<lparr>b_g := handleContext n f (createCCPGEdge n c CALL (b_g B2))\<rparr>"
      have "buildInv E H U ?B" using buildInv_context[OF i, of n f] by simp
      moreover have "f \<noteq> null"
        using i f ccpg_okD(7)[of "b_g (B2\<lparr>b_g := createCCPGEdge n c CALL (b_g B2)\<rparr>)" f]
        by (simp add: buildInv_def run_ok_def builder_ok_def)
      moreover have "kept (b_g B2) (handleContext n f (createCCPGEdge n c CALL (b_g B2)))"
        by (rule kept_trans[OF kept_createEdge]) (simp add: kept_def grows_skel)
      then have "kept g0 (b_g ?B)" "kept (b_g B) (b_g ?B)" using inv(2) k kept_trans by auto
      moreover from this(2) have "set new \<subseteq> set (g_functions (b_g ?B))" using inv(3) kept_functions by blast
      ultimately show ?thesis using None c f by (simp add: expandCall_def createFunctionByCaller_def st stepInv_def)
    qed
  qed (use assms in \<open>simp add: expandCall_def st\<close>)
qed

lemma expandFork_returns:
  assumes "stepInv E H U g0 st"
  shows "\<exists>st'. expandFork E n st = Some st' \<and> stepInv E H U g0 st'"
proof -
  obtain B new where st: "st = (B, new)" by fastforce
  have inv: "buildInv E H U B" "kept g0 (b_g B)" "set new \<subseteq> set (g_functions (b_g B))" using assms by (simp_all add: stepInv_def st)
  obtain m where m: "findThreadEntryInCPG E (b_g B) n = Ok m" "m \<in> insert null U" by (rule resolves[OF inv(1)])
  show ?thesis
  proof (cases "m = null")
    case False
    obtain p g where node: "createCCPGNode (be_util E) m (b_g B) = (p, g)" by fastforce
    let ?B1 = "B\<lparr>b_g := g\<rparr>"
    have mU: "m \<in> U" using m(2) False by simp
    have N: "buildInv E H U ?B1" "kept (b_g B) g" "p \<in> set (g_nodes g)" "nd_cpg (nodeH g p) = m"
      using node_returns[OF inv(1) mU False node] by auto
    from create_returns[OF N(1), of p] N mU obtain f B2 where
      C: "createFunction E p ?B1 = Some (f, B2)" "buildInv E H U B2" "kept g (b_g B2)" "f \<in> set (g_functions (b_g B2))"
        "fn_funcNode (funH (b_g B2) f) = p" by auto
    let ?B = "B2\<lparr>b_g := handleContext n f (createCCPGEdge n p HB (b_g B2))\<rparr>"
    have "buildInv E H U ?B"
      using buildInv_context[OF buildInv_edge[OF C(2,4,5), of HB n], of n f] by simp
    moreover have "kept (b_g B2) (b_g ?B)"
      by (simp, rule kept_trans[OF kept_createEdge]) (simp add: kept_def grows_skel)
    then have "kept (b_g B) (b_g ?B)" using N(2) C(3) kept_trans by blast
    moreover from this have "kept g0 (b_g ?B)" "set new \<subseteq> set (g_functions (b_g ?B))"
      using inv(2,3) kept_trans kept_functions by blast+
    ultimately show ?thesis using m(1) False node C(1,4) by (simp add: expandFork_def st stepInv_def)
  qed (use assms m in \<open>simp add: expandFork_def st\<close>)
qed

lemma expandVisit_returns:
  assumes inv: "buildInv E H U B" and f: "f \<notin> set vis"
  shows "\<exists>new B'. expandVisit E f (B, vis) = Some (new, B', f # vis) \<and> buildInv E H U B' \<and> kept (b_g B) (b_g B') \<and>
    set new \<subseteq> set (g_functions (b_g B'))"
proof -
  let ?I = "stepInv E H U (b_g B)"
  have 0: "?I (B, [])" using inv by (simp add: stepInv_def)
  obtain B1 q1 where 1: "foldM (expandCall E) (fn_typeToNodeSet (funH (b_g B) f) OBJECT_INIT) (B, []) = Some (B1, q1)"
    "?I (B1, q1)" using foldM_returns[of ?I, OF 0, of _ "expandCall E"] expandCall_returns by (metis surj_pair)
  obtain B2 q2 where 2: "foldM (expandCall E) (fn_typeToNodeSet (funH (b_g B1) f) OTHER_CALL) (B1, q1) = Some (B2, q2)"
    "?I (B2, q2)" using foldM_returns[of ?I, OF 1(2), of _ "expandCall E"] expandCall_returns by (metis surj_pair)
  obtain B3 q3 where 3: "foldM (expandFork E) (fn_typeToNodeSet (funH (b_g B2) f) FORK) (B2, q2) = Some (B3, q3)"
    "?I (B3, q3)" using foldM_returns[of ?I, OF 2(2), of _ "expandFork E"] expandFork_returns by (metis surj_pair)
  show ?thesis using 1(1) 2(1) 3 f by (simp add: expandVisit_def stepInv_def)
qed

text \<open>A visited function is new, and no more functions are visited than there are methods.\<close>

definition loopInv :: "build_env \<Rightarrow> cpg_heap \<Rightarrow> ptr set \<Rightarrow> builder \<Rightarrow> ptr list \<Rightarrow> ptr list \<Rightarrow> bool" where
  "loopInv E H U B vis q \<longleftrightarrow> buildInv E H U B \<and> distinct vis \<and> set vis \<union> set q \<subseteq> set (g_functions (b_g B))"

lemma loopInv_step:
  assumes "loopInv E H U B vis (f # r)" "f \<notin> set vis" "buildInv E H U B'" "kept (b_g B) (b_g B')"
    "set new \<subseteq> set (g_functions (b_g B'))"
  shows "loopInv E H U B' (f # vis) (r @ new)" "card U - length (f # vis) < card U - length vis"
proof -
  have sub: "set (f # vis) \<subseteq> set (g_functions (b_g B))" and d: "distinct (f # vis)" and b: "buildInv E H U B"
    using assms(1,2) by (auto simp: loopInv_def)
  from visited_bound[OF b d sub] show "card U - length (f # vis) < card U - length vis" by simp
  show "loopInv E H U B' (f # vis) (r @ new)"
    using assms kept_functions[OF assms(4)] by (auto simp: loopInv_def)
qed

interpretation expandLoop: work_queue "expandVisit E" "\<lambda>(B, vis). card U - length vis"
  "\<lambda>(B, vis). loopInv E H U B vis" for E H U
proof
  fix s :: "builder \<times> ptr list" and f :: ptr and r :: "ptr list"
  obtain B vis where s: "s = (B, vis)" by fastforce
  assume "(case s of (B, vis) \<Rightarrow> loopInv E H U B vis) (f # r)"
  then have I: "loopInv E H U B vis (f # r)" by (simp add: s)
  show "\<exists>new s'. expandVisit E f s = Some (new, s') \<and> (case s' of (B, vis) \<Rightarrow> loopInv E H U B vis) (r @ new) \<and>
      ((case s' of (B, vis) \<Rightarrow> card U - length vis) < (case s of (B, vis) \<Rightarrow> card U - length vis) \<or>
       (case s' of (B, vis) \<Rightarrow> card U - length vis) \<le> (case s of (B, vis) \<Rightarrow> card U - length vis) \<and> new = [])"
  proof (cases "f \<in> set vis")
    case True
    with I show ?thesis by (simp add: expandVisit_def s loopInv_def)
  next
    case False
    have "buildInv E H U B" using I by (simp add: loopInv_def)
    from expandVisit_returns[OF this False] obtain new B' where
      v: "expandVisit E f (B, vis) = Some (new, B', f # vis)" "buildInv E H U B'" "kept (b_g B) (b_g B')"
        "set new \<subseteq> set (g_functions (b_g B'))" by blast
    show ?thesis using v(1) loopInv_step[OF I False v(2-4)] by (auto simp: s)
  qed
qed

lemma expandAll_returns:
  assumes "buildInv E H U B" "set q \<subseteq> set (g_functions (b_g B))"
  shows "\<exists>B'. expandAll E q B = Some B' \<and> buildInv E H U B'"
proof -
  have "(case (B, []) of (B, vis) \<Rightarrow> loopInv E H U B vis) q" using assms by (simp add: loopInv_def)
  from expandLoop.returns[OF this] show ?thesis by (auto simp: expandAll_def loopInv_def)
qed


subsection \<open>The threads\<close>

lemma threadCall_returns:
  assumes "stepInv E H U g0 (fst st, snd (snd st))"
  shows "\<exists>st'. threadCall E n st = Some st' \<and> stepInv E H U g0 (fst st', snd (snd st'))"
proof -
  obtain B t new where st: "st = (B, t, new)" by (cases st)
  have inv: "buildInv E H U B" "kept g0 (b_g B)" "set new \<subseteq> set (g_functions (b_g B))" using assms by (simp_all add: stepInv_def st)
  have ok: "run_ok E B" "ccpg_ok (b_g B)" using inv(1) by (simp_all add: buildInv_def run_ok_def builder_ok_def)
  show ?thesis
  proof (cases "hasCallEdge (b_g B) n")
    case (Some e)
    then have "e \<in> set (callsOf (b_g B) n)" by (auto simp: hasCallEdge_def callsOf_def find_Some_iff)
    moreover have "callsOf (b_g B) n = [] \<or> (\<exists>e. callsOf (b_g B) n = [e] \<and> e_src e = n \<and>
        (\<exists>f \<in> set (g_functions (b_g B)). fn_funcNode (funH (b_g B) f) = e_dst e))"
      using ok(1) by (simp add: run_ok_def calls_ok_def)
    ultimately obtain h where h: "h \<in> set (g_functions (b_g B))" "fn_funcNode (funH (b_g B) h) = e_dst e" by auto
    show ?thesis using Some getFunction_of[OF ok(2) h] h(1) assms by (simp add: threadCall_def st stepInv_def)
  next
    case None
    then have free: "callsOf (b_g B) n = []" by (simp add: hasCallEdge_callsOf)
    from callee_returns[OF inv(1) free] show ?thesis
    proof (elim disjE exE conjE)
      assume "findCalleeByCaller E n B = Some (null, B)"
      with None assms show ?thesis by (simp add: threadCall_def st)
    next
      fix c B1 f B2
      assume c: "findCalleeByCaller E n B = Some (c, B1)" "c \<noteq> null" "createFunction E c B1 = Some (f, B2)"
        and i: "buildInv E H U (B2\<lparr>b_g := createCCPGEdge n c CALL (b_g B2)\<rparr>)" and k: "kept (b_g B) (b_g B2)"
        and f: "f \<in> set (g_functions (b_g B2))"
      let ?B = "B2\<lparr>b_g := createCCPGEdge n c CALL (b_g B2)\<rparr>"
      have k': "kept (b_g B) (b_g ?B)" using kept_trans[OF k kept_createEdge] by simp
      have "kept g0 (b_g ?B)" "set new \<subseteq> set (g_functions (b_g ?B))"
        using kept_trans[OF inv(2) k'] inv(3) kept_functions[OF k'] by auto
      then show ?thesis using None c f i by (simp add: threadCall_def st stepInv_def)
    qed
  qed
qed

lemma threadVisit_returns:
  assumes inv: "buildInv E H U B" and f: "f \<notin> set vis" "f \<noteq> null"
  shows "\<exists>new B' t'. threadVisit E f (B, t, vis) = Some (new, B', t', f # vis) \<and> buildInv E H U B' \<and>
    kept (b_g B) (b_g B') \<and> set new \<subseteq> set (g_functions (b_g B'))"
proof -
  let ?I = "\<lambda>st. stepInv E H U (b_g B) (fst st, snd (snd st))"
  let ?t = "thread_addFunction (funH (b_g B) f) f t"
  have 0: "?I (B, ?t, [])" using inv by (simp add: stepInv_def)
  obtain B1 t1 q1 where 1: "foldM (threadCall E) (fn_typeToNodeSet (funH (b_g B) f) OBJECT_INIT) (B, ?t, []) = Some (B1, t1, q1)"
    "?I (B1, t1, q1)" using foldM_returns[of ?I, OF 0, of _ "threadCall E"] threadCall_returns by (metis prod_cases3)
  obtain B2 t2 q2 where 2: "foldM (threadCall E) (fn_typeToNodeSet (funH (b_g B1) f) OTHER_CALL) (B1, t1, q1) = Some (B2, t2, q2)"
    "?I (B2, t2, q2)" using foldM_returns[of ?I, OF 1(2), of _ "threadCall E"] threadCall_returns by (metis prod_cases3)
  show ?thesis using 1(1) 2 f by (simp add: threadVisit_def stepInv_def)
qed

interpretation threadLoop: work_queue "threadVisit E" "\<lambda>(B, t, vis). card U - length vis"
  "\<lambda>(B, t, vis). loopInv E H U B vis" for E H U
proof
  fix s :: "builder \<times> thread \<times> ptr list" and f :: ptr and r :: "ptr list"
  obtain B t vis where s: "s = (B, t, vis)" by (cases s)
  assume "(case s of (B, t, vis) \<Rightarrow> loopInv E H U B vis) (f # r)"
  then have I: "loopInv E H U B vis (f # r)" by (simp add: s)
  then have inv: "buildInv E H U B" and fg: "f \<in> set (g_functions (b_g B))" by (auto simp: loopInv_def)
  then have nn: "f \<noteq> null" using ccpg_okD(7)[of "b_g B" f] by (simp add: buildInv_def run_ok_def builder_ok_def)
  show "\<exists>new s'. threadVisit E f s = Some (new, s') \<and> (case s' of (B, t, vis) \<Rightarrow> loopInv E H U B vis) (r @ new) \<and>
      ((case s' of (B, t, vis) \<Rightarrow> card U - length vis) < (case s of (B, t, vis) \<Rightarrow> card U - length vis) \<or>
       (case s' of (B, t, vis) \<Rightarrow> card U - length vis) \<le> (case s of (B, t, vis) \<Rightarrow> card U - length vis) \<and> new = [])"
  proof (cases "f \<in> set vis")
    case True
    with I show ?thesis by (simp add: threadVisit_def s loopInv_def)
  next
    case False
    from threadVisit_returns[OF inv False nn, of t] obtain new B' t' where
      v: "threadVisit E f (B, t, vis) = Some (new, B', t', f # vis)" "buildInv E H U B'" "kept (b_g B) (b_g B')"
        "set new \<subseteq> set (g_functions (b_g B'))" by blast
    show ?thesis using v(1) loopInv_step[OF I False v(2-4)] by (auto simp: s)
  qed
qed

lemma runThread_returns:
  assumes "buildInv E H U (ts_B S)" "n \<in> set (g_nodes (b_g (ts_B S)))" "nd_cpg (nodeH (b_g (ts_B S)) n) \<in> U"
  shows "\<exists>t S'. runThread E fork par n S = Some (t, S') \<and> buildInv E H U (ts_B S')"
proof -
  from create_returns[OF assms] obtain f B1 where
    c: "createFunction E n (ts_B S) = Some (f, B1)" "buildInv E H U B1" "f \<in> set (g_functions (b_g B1))" by blast
  let ?t0 = "(newThread (length (threads (ts_T S))) fork par)\<lparr>threadMainFunction := f\<rparr>"
  have "(case (B1, ?t0, []) of (B, t, vis) \<Rightarrow> loopInv E H U B vis) [f]" using c by (simp add: loopInv_def)
  from threadLoop.returns[OF this] obtain B2 th vis where
    "worklist (threadVisit E) [f] (B1, ?t0, []) = Some (B2, th, vis)" "loopInv E H U B2 vis []" by auto
  with c(1) show ?thesis by (simp add: runThread_def Let_def loopInv_def)
qed

lemma createThread_returns:
  assumes inv: "treeInv E S" and b: "buildInv E H U (ts_B S)" and p: "p \<in> set (threads (ts_T S))"
  shows "\<exists>t S'. createThread E n p S = Some (t, S') \<and> buildInv E H U (ts_B S')"
proof -
  have "p \<noteq> null" using treeInvD(4)[OF inv p] by simp
  obtain m where m: "findThreadEntryInCPG E (b_g (ts_B S)) n = Ok m" "m \<in> insert null U" by (rule resolves[OF b])
  show ?thesis
  proof (cases "knownFork (b_g (ts_B S)) (ts_T S) n \<or> m = null \<or> knownEntry (b_g (ts_B S)) (ts_T S) m")
    case True
    with \<open>p \<noteq> null\<close> m b show ?thesis by (auto simp: createThread_def Let_def)
  next
    case False
    obtain fnode g1 where node: "createCCPGNode (be_util E) m (b_g (ts_B S)) = (fnode, g1)" by fastforce
    let ?S1 = "S\<lparr>ts_B := (ts_B S)\<lparr>b_g := g1\<rparr>, ts_T := updThread p (thread_addChild (ts_next S)) (ts_T S)\<rparr>"
    have mU: "m \<in> U" "m \<noteq> null" using m(2) False by auto
    note N = node_returns[OF b mU node]
    have "\<exists>t S'. runThread E n p fnode ?S1 = Some (t, S') \<and> buildInv E H U (ts_B S')"
      by (rule runThread_returns) (use N mU in simp_all)
    with \<open>p \<noteq> null\<close> m node False show ?thesis by (simp add: createThread_def)
  qed
qed

lemma forkRounds_returns:
  assumes "treeInv E S" "buildInv E H U (ts_B S)" "snd ` set q \<subseteq> set (threads (ts_T S))"
  shows "\<exists>S'. forkRounds E k q S = Some S' \<and> buildInv E H U (ts_B S')"
  using assms
proof (induction E k q S rule: forkRounds.induct)
  case (3 E k n p q S)
  have p: "p \<in> set (threads (ts_T S))" using 3(4) by auto
  from createThread_returns[OF 3(2,3) p] obtain t S1 where
    c: "createThread E n p S = Some (t, S1)" "buildInv E H U (ts_B S1)" by blast
  note C = createThread_ok[OF 3(2) p c(1)]
  have "snd ` set (if t = null then q else q @ forksOf (ts_T S1) t) \<subseteq> set (threads (ts_T S1))"
    using C 3(4) treeInvD(2)[OF 3(2)] by (auto simp: forksOf_def)
  with 3(1)[OF c(1) refl _ c(2)] C c(1) show ?case by auto
qed auto

lemma buildEntries_returns:
  assumes inv: "entryInv E D g0 st" "buildInv E H U (ts_B (fst st))" and gok: "ccpg_ok g0"
    and es: "distinct es" "set es \<subseteq> set (g_functions g0)" "set es \<inter> D = {}" "finite D"
  shows "\<exists>st'. foldM (buildEntry E manual kmode) es st = Some st' \<and> buildInv E H U (ts_B (fst st'))"
  using inv es
proof (induction es arbitrary: D st)
  case (Cons e es)
  obtain S q where st: "st = (S, q)" by fastforce
  have b: "buildInv E H U (ts_B S)" using Cons.prems(2) st by simp
  have gok': "ccpg_ok (b_g (ts_B S))" using b by (simp add: buildInv_def run_ok_def builder_ok_def)
  have k: "kept g0 (b_g (ts_B S))" using Cons.prems(1) by (simp add: entryInv_def st)
  have e: "e \<in> set (g_functions (b_g (ts_B S)))" using kept_functions[OF k] Cons.prems(4) by auto
  have n: "fn_funcNode (funH (b_g (ts_B S)) e) \<in> set (g_nodes (b_g (ts_B S)))" using ccpg_okD(7)[OF gok' e] by simp
  have "nd_cpg (nodeH (b_g (ts_B S)) (fn_funcNode (funH (b_g (ts_B S)) e))) \<in> U"
    using b e by (simp add: buildInv_def methodOf_def)
  note R = runThread_returns[OF b n this]
  have "\<exists>t S1. createThread E (fn_funcNode (funH (b_g (ts_B S)) e)) null S = Some (t, S1) \<and> buildInv E H U (ts_B S1)"
    using R[where fork = "fn_funcNode (funH (b_g (ts_B S)) e)" and par = null] by (simp add: createThread_def)
  then obtain t S1 where
    r: "createThread E (fn_funcNode (funH (b_g (ts_B S)) e)) null S = Some (t, S1)" "buildInv E H U (ts_B S1)" by blast
  then obtain st1 where s: "buildEntry E manual kmode e st = Some st1" "ts_B (fst st1) = ts_B S1"
    by (simp add: buildEntry_def st Let_def)
  have "entryInv E (insert e D) g0 st1"
    using buildEntry_ok[OF Cons.prems(1) gok _ _ Cons.prems(6) s(1)] Cons.prems by auto
  with Cons.IH[of "insert e D" st1] Cons.prems s r(2) show ?case by auto
qed simp

lemma buildTree_returns:
  assumes b: "buildInv E H U (ts_B S)" "0 < ts_next S" and T: "threads (ts_T S) = []" "\<forall>t. parent (thr (ts_T S) t) = null"
    and es: "distinct (entryFunctions (ts_B S))" "set (entryFunctions (ts_B S)) \<subseteq> set (g_functions (b_g (ts_B S)))"
  shows "\<exists>S'. buildTree E cfg S = Some S'"
proof -
  let ?es = "entryFunctions (ts_B S)" let ?k = "length ?es > 1 \<or> enabled cfg"
  have ok: "run_ok E (ts_B S)" "ccpg_ok (b_g (ts_B S))" using b(1) by (simp_all add: buildInv_def run_ok_def builder_ok_def)
  have 0: "entryInv E {} (b_g (ts_B S)) (S, [])" using ok b(2) T by (simp add: entryInv_def treeInv_def)
  from buildEntries_returns[OF 0 _ ok(2) es, of H U] b(1) obtain S1 q where
    e: "foldM (buildEntry E (enabled cfg) ?k) ?es (S, []) = Some (S1, q)" "buildInv E H U (ts_B S1)" by force
  from buildEntries_ok[OF 0 ok(2) es _ _ e(1)] have "treeInv E S1" "snd ` set q \<subseteq> set (threads (ts_T S1))"
    by (simp_all add: entryInv_def)
  from forkRounds_returns[OF this(1) e(2) this(2), of 100] obtain S2 where "forkRounds E 100 q S1 = Some S2" by blast
  with e(1) show ?thesis by (simp add: buildTree_def Let_def)
qed

end
