(* ===== verification/JoinFacts.thy ===== *)
theory JoinFacts
  imports ThreadBuild ThreadFacts
begin

text \<open>
  Facts about the matching of join sites and about the relations between threads: a thread
  made at a creation site gets a join site exactly when one aliases its handle, and the pair
  count enters the relation the tree gives.
\<close>

subsection \<open>Join sites\<close>

lemma isAlias_sym: "(\<And>v w. be_aliases E v w = be_aliases E w v) \<Longrightarrow> isAlias E v w = isAlias E w v"
  by (auto simp: isAlias_def)

lemma isThreadAlias_sym:
  "(\<And>v w. be_aliases E v w = be_aliases E w v) \<Longrightarrow> isThreadAlias E g n m = isThreadAlias E g m n"
  unfolding isThreadAlias_def by (rule isAlias_sym)

lemma bestCandidate_in: "cs \<noteq> [] \<Longrightarrow> bestCandidate cs \<in> fst ` set cs"
  by (induction cs rule: bestCandidate.induct) (auto split: if_splits)

lemma bestCandidate_max:
  "distinct (map fst cs) \<Longrightarrow> (t, s) \<in> set cs \<Longrightarrow> t = bestCandidate cs \<Longrightarrow> (u, r) \<in> set cs \<Longrightarrow> r \<le> s"
proof (induction cs arbitrary: t s u r rule: bestCandidate.induct)
  case (3 a i b j cs)
  show ?case
  proof (cases "j > i")
    case True
    then have "t = bestCandidate ((b, j) # cs)" using 3(5) by simp
    moreover from this have "t \<in> fst ` set ((b, j) # cs)" using bestCandidate_in[of "(b, j) # cs"] by simp
    then have ts: "(t, s) \<in> set ((b, j) # cs)" using 3(3,4) by force
    ultimately have "\<And>u r. (u, r) \<in> set ((b, j) # cs) \<Longrightarrow> r \<le> s" using 3(1)[OF True _ ts] 3(3) by simp
    then show ?thesis using 3(6) True by force
  next
    case False
    then have t: "t = bestCandidate ((a, i) # cs)" using 3(5) by simp
    then have "t \<in> fst ` set ((a, i) # cs)" using bestCandidate_in[of "(a, i) # cs"] by simp
    then have ts: "(t, s) \<in> set ((a, i) # cs)" using 3(3,4) by force
    have "\<And>u r. (u, r) \<in> set ((a, i) # cs) \<Longrightarrow> r \<le> s" using 3(2)[OF False _ ts t] 3(3) by simp
    then show ?thesis using 3(6) False by force
  qed
qed auto

lemma joinCandidates_sound:
  assumes "foldM (joinCandidate E g T join) ts cs = Some cs'" "c \<in> set cs'"
  shows "c \<in> set cs \<or> fst c \<in> set ts \<and> isForked g T (fst c) \<and> isThreadAlias E g (forkNode (thr T (fst c))) join"
  using assms(1)
proof (induction ts arbitrary: cs)
  case (Cons t ts)
  then obtain cs1 where s: "joinCandidate E g T join t cs = Some cs1" "foldM (joinCandidate E g T join) ts cs1 = Some cs'"
    by (auto split: option.splits)
  from s(1) have "set cs1 \<subseteq> set cs \<or> isForked g T t \<and> isThreadAlias E g (forkNode (thr T t)) join \<and> (\<exists>s. set cs1 = insert (t, s) (set cs))"
    by (auto simp: joinCandidate_def split: if_splits option.splits)
  with Cons.IH[OF s(2)] show ?case by auto
qed (use assms in simp)

definition joinsOk :: "build_env \<Rightarrow> ccpg \<Rightarrow> tct \<Rightarrow> (ptr \<Rightarrow> ptr option) \<Rightarrow> bool" where
  "joinsOk E g T M \<longleftrightarrow> (\<forall>t. M t = None \<longleftrightarrow> \<not> (t \<in> set (threads T) \<and> isForked g T t)) \<and>
     (\<forall>t j. M t = Some j \<longrightarrow> j = null \<or> j \<in> set (getNodesByType g JOIN) \<and> isThreadAlias E g (forkNode (thr T t)) j)"

lemma assignJoin_ok:
  assumes "joinsOk E g T M" "j \<in> set (getNodesByType g JOIN)" "assignJoin E g T j M = Some M'"
  shows "joinsOk E g T M'"
proof -
  from assms(3) obtain cs where c: "foldM (joinCandidate E g T j) (threads T) [] = Some cs"
    and M': "M' = (if cs = [] then M else if M (bestCandidate cs) = Some null then M(bestCandidate cs \<mapsto> j) else M)"
    by (auto simp: assignJoin_def split: option.splits)
  show ?thesis
  proof (cases "cs \<noteq> [] \<and> M (bestCandidate cs) = Some null")
    case True
    with bestCandidate_in obtain b where b: "b \<in> set cs" "bestCandidate cs = fst b" by blast
    with joinCandidates_sound[OF c b(1)]
    have B: "bestCandidate cs \<in> set (threads T)" "isForked g T (bestCandidate cs)"
      "isThreadAlias E g (forkNode (thr T (bestCandidate cs))) j" by simp_all
    have "M' = M(bestCandidate cs \<mapsto> j)" using True M' by simp
    with assms(1,2) B True show ?thesis by (auto simp: joinsOk_def)
  qed (use assms(1) M' in auto)
qed

lemma handleJoins_exact:
  assumes h: "handleJoins E g T = Some T'" and null: "null \<notin> set (getNodesByType g JOIN)"
    and sym: "\<And>v w. be_aliases E v w = be_aliases E w v"
  shows "threads T' = threads T \<and> (\<forall>t. thr T' t = (thr T t)\<lparr>joinNode := joinNode (thr T' t)\<rparr>) \<and>
    (\<forall>t. \<not> (t \<in> set (threads T) \<and> isForked g T t) \<longrightarrow> thr T' t = thr T t) \<and>
    (\<forall>t \<in> set (threads T). isForked g T t \<longrightarrow>
      (joinNode (thr T' t) \<noteq> null \<longleftrightarrow> (\<exists>j \<in> set (getNodesByType g JOIN). isThreadAlias E g (forkNode (thr T t)) j)) \<and>
      (joinNode (thr T' t) \<noteq> null \<longrightarrow>
        joinNode (thr T' t) \<in> set (getNodesByType g JOIN) \<and> isThreadAlias E g (forkNode (thr T t)) (joinNode (thr T' t))))"
proof -
  let ?M0 = "\<lambda>t. if t \<in> set (threads T) \<and> isForked g T t then Some null else None"
  let ?J = "getNodesByType g JOIN"
  from h obtain M where f: "foldM (assignJoin E g T) ?J ?M0 = Some M"
    and T': "T' = T\<lparr>threadH := (\<lambda>t. case supplyJoin E g T M t of Some j \<Rightarrow> (thr T t)\<lparr>joinNode := j\<rparr> | None \<Rightarrow> thr T t)\<rparr>"
    by (auto simp: handleJoins_def Let_def split: option.splits)
  have ok: "joinsOk E g T M"
  proof (rule foldM_invariant[OF f, of "joinsOk E g T"])
    show "joinsOk E g T ?M0" by (auto simp: joinsOk_def)
  qed (rule assignJoin_ok)
  have None_iff: "M t = None \<longleftrightarrow> \<not> (t \<in> set (threads T) \<and> isForked g T t)" for t using ok by (simp add: joinsOk_def)
  have Some_ok: "M t = Some j \<Longrightarrow> j = null \<or> j \<in> set ?J \<and> isThreadAlias E g (forkNode (thr T t)) j" for t j
    using ok by (simp add: joinsOk_def)
  have other: "thr T' t = thr T t" if "\<not> (t \<in> set (threads T) \<and> isForked g T t)" for t
    using that None_iff[of t] by (simp add: T' supplyJoin_def)
  have forked: "(joinNode (thr T' t) \<noteq> null \<longleftrightarrow> (\<exists>j \<in> set ?J. isThreadAlias E g (forkNode (thr T t)) j)) \<and>
      (joinNode (thr T' t) \<noteq> null \<longrightarrow> joinNode (thr T' t) \<in> set ?J \<and> isThreadAlias E g (forkNode (thr T t)) (joinNode (thr T' t)))"
    if t: "t \<in> set (threads T)" "isForked g T t" for t
  proof -
    obtain j where j: "M t = Some j" using None_iff[of t] t by (cases "M t") auto
    let ?aliased = "\<lambda>n. isThreadAlias E g n (forkNode (thr T t))"
    have flip: "isThreadAlias E g (forkNode (thr T t)) n = ?aliased n" for n by (rule isThreadAlias_sym[OF sym])
    show ?thesis
    proof (cases "j = null")
      case False
      then have "joinNode (thr T' t) = j" using j by (simp add: T' supplyJoin_def)
      with Some_ok[OF j] False show ?thesis by auto
    next
      case True
      then have jn: "joinNode (thr T' t) = (case List.find ?aliased ?J of Some n \<Rightarrow> n | None \<Rightarrow> null)"
        using j by (simp add: T' supplyJoin_def)
      show ?thesis
      proof (cases "List.find ?aliased ?J")
        case None
        then have "joinNode (thr T' t) = null" using jn by simp
        moreover from None have "\<forall>n \<in> set ?J. \<not> ?aliased n" by (simp add: find_None_iff)
        ultimately show ?thesis by (auto simp: flip)
      next
        case (Some n)
        then have "?aliased n" "n \<in> set ?J" by (auto simp: find_Some_iff)
        moreover have "n \<noteq> null" using null \<open>n \<in> set ?J\<close> by metis
        ultimately show ?thesis using jn Some by (auto simp: flip)
      qed
    qed
  qed
  have "thr T' t = (thr T t)\<lparr>joinNode := joinNode (thr T' t)\<rparr>" for t by (simp add: T' split: option.split)
  moreover have "threads T' = threads T" by (simp add: T')
  ultimately show ?thesis using other forked by blast
qed


subsection \<open>Common ancestors\<close>

lemma parentChain_total:
  assumes "tree_wf T"
  shows "\<exists>c. parentChain T p = Some c \<and> set c = {a. p \<noteq> null \<and> (childOf T)\<^sup>*\<^sup>* p a}"
proof -
  from assms obtain rank :: "ptr \<Rightarrow> nat"
    where r: "\<And>t. parent (thr T t) \<noteq> null \<Longrightarrow> rank (parent (thr T t)) < rank t"
    unfolding tree_wf_def by blast
  show ?thesis
  proof (induction "rank p" arbitrary: p rule: less_induct)
    case less
    show ?case
    proof (cases "p = null")
      case True then show ?thesis by (subst parentChain.simps) simp
    next
      case False
      let ?q = "parent (thr T p)"
      have "\<exists>c. parentChain T ?q = Some c \<and> set c = {a. ?q \<noteq> null \<and> (childOf T)\<^sup>*\<^sup>* ?q a}"
      proof (cases "?q = null")
        case True then show ?thesis by (subst parentChain.simps) simp
      next
        case False
        with less r show ?thesis by blast
      qed
      then obtain c where c: "parentChain T ?q = Some c" "set c = {a. ?q \<noteq> null \<and> (childOf T)\<^sup>*\<^sup>* ?q a}" by blast
      have "(childOf T)\<^sup>*\<^sup>* p a \<longleftrightarrow> a = p \<or> ?q \<noteq> null \<and> (childOf T)\<^sup>*\<^sup>* ?q a" for a
        using False by (auto simp: childOf_def elim: converse_rtranclpE
            intro: converse_rtranclp_into_rtranclp[where r = "childOf T"])
      then have "set (p # c) = {a. p \<noteq> null \<and> (childOf T)\<^sup>*\<^sup>* p a}" using c(2) False by auto
      then show ?thesis using c(1) False by (subst parentChain.simps) simp
    qed
  qed
qed

lemma isIndirectSibling_exact:
  assumes "tree_wf T"
  shows "isIndirectSibling T t1 t2 = Some (\<exists>a. ancestorOf T a t1 \<and> ancestorOf T a t2)"
proof -
  obtain c d where "parentChain T (parent (thr T t1)) = Some c" "parentChain T (parent (thr T t2)) = Some d"
    "set c = {a. ancestorOf T a t1}" "set d = {a. ancestorOf T a t2}"
    using parentChain_total[OF assms] unfolding ancestorOf_def by meson
  then show ?thesis by (auto simp: isIndirectSibling_def list_ex_iff)
qed

text \<open>One pair: what is entered under the pair when neither order of it is there yet.\<close>

lemma relatePair_unrelated:
  assumes "tree_wf T" "\<not> ancestorOf T t1 t2" "\<not> ancestorOf T t2 t1" "\<not> (\<exists>a. ancestorOf T a t1 \<and> ancestorOf T a t2)"
  shows "relatePair k g (t1, t2) T = Some T"
proof -
  have "\<not> (parent (thr T t1) \<noteq> null \<and> parent (thr T t1) = parent (thr T t2))"
    using assms(4) by (metis ancestorOf_def rtranclp.rtrancl_refl)
  with assms show ?thesis by (auto simp: relatePair_def isDescendant_total isIndirectSibling_exact)
qed

end
