(* ===== verification/EntryFacts.thy ===== *)
theory EntryFacts
  imports EntryDiscovery ReturnFacts JoinFacts
begin

text \<open>
  Facts about the discovery of entries and the whole construction: the harvest of callback
  tables is exact on initialisers that are not too deep, the synthetic node of an entry
  without a method does not disturb the graph, the entries are functions of the graph, and
  every root whose method is found becomes an entry.
\<close>

subsection \<open>Constants\<close>

definition opOf :: "llvm_module \<Rightarrow> ptr \<Rightarrow> ptr \<Rightarrow> bool" where
  "opOf M c b \<longleftrightarrow> (\<exists>ops. m_const M c = OperandsConst ops \<and> Some b \<in> set (take 256 ops))"

fun shallow :: "llvm_module \<Rightarrow> nat \<Rightarrow> ptr \<Rightarrow> bool" where
  "shallow M 0 c = False"
| "shallow M (Suc k) c = (case m_const M c of
     OperandsConst ops \<Rightarrow> list_all (\<lambda>op. case op of None \<Rightarrow> True | Some b \<Rightarrow> shallow M k b) (take 256 ops) | _ \<Rightarrow> True)"

lemma shallow_step: "shallow M (Suc k) c \<Longrightarrow> opOf M c b \<Longrightarrow> shallow M k b"
  by (auto simp: opOf_def list_all_iff split: option.splits dest!: bspec)

text \<open>What a call of the collector adds: constants under its argument, closed under operands.\<close>

definition collected :: "llvm_module \<Rightarrow> ptr set \<Rightarrow> llvm_def list \<times> ptr list \<Rightarrow> llvm_def list \<times> ptr list \<Rightarrow> bool" where
  "collected M S st st' \<longleftrightarrow> (\<exists>N. set (snd st') = set (snd st) \<union> N \<and> N \<inter> set (snd st) = {} \<and>
     (\<forall>v \<in> N. \<exists>s \<in> S. (opOf M)\<^sup>*\<^sup>* s v) \<and>
     set (fst st') = set (fst st) \<union> {d. \<exists>v \<in> N. m_const M v = FunctionConst d})"

definition opsClosed :: "llvm_module \<Rightarrow> ptr set \<Rightarrow> llvm_def list \<times> ptr list \<Rightarrow> bool" where
  "opsClosed M A st \<longleftrightarrow> (\<forall>v \<in> set (snd st) - A. \<forall>b. opOf M v b \<longrightarrow> b \<in> set (snd st))"

lemma collected_refl: "collected M S st st"
  unfolding collected_def by (intro exI[of _ "{}"]) simp

lemma collected_trans:
  assumes "collected M S st st1" "collected M S' st1 st2" "S \<subseteq> T" "S' \<subseteq> T"
  shows "collected M T st st2"
proof -
  from assms(1) obtain N where
    N: "set (snd st1) = set (snd st) \<union> N" "N \<inter> set (snd st) = {}" "\<forall>v \<in> N. \<exists>s \<in> S. (opOf M)\<^sup>*\<^sup>* s v"
    "set (fst st1) = set (fst st) \<union> {d. \<exists>v \<in> N. m_const M v = FunctionConst d}"
    unfolding collected_def by (elim exE conjE) (rule that)
  from assms(2) obtain N' where
    N': "set (snd st2) = set (snd st1) \<union> N'" "N' \<inter> set (snd st1) = {}" "\<forall>v \<in> N'. \<exists>s \<in> S'. (opOf M)\<^sup>*\<^sup>* s v"
    "set (fst st2) = set (fst st1) \<union> {d. \<exists>v \<in> N'. m_const M v = FunctionConst d}"
    unfolding collected_def by (elim exE conjE) (rule that)
  show ?thesis
    unfolding collected_def
  proof (intro exI[of _ "N \<union> N'"] conjI)
    show "\<forall>v \<in> N \<union> N'. \<exists>s \<in> T. (opOf M)\<^sup>*\<^sup>* s v" using N(3) N'(3) assms(3,4) by blast
  qed (use N N' in auto)
qed

lemma collected_sub: "collected M S st st' \<Longrightarrow> set (snd st) \<subseteq> set (snd st')"
  by (auto simp: collected_def)

text \<open>The loop over the operands, given what one call does.\<close>

lemma collectOps:
  assumes one: "\<And>st b. Some b \<in> set ops \<Longrightarrow> opsClosed M A st \<Longrightarrow>
      collected M {b} st (p8aCollectFns M k st b) \<and> b \<in> set (snd (p8aCollectFns M k st b)) \<and> opsClosed M A (p8aCollectFns M k st b)"
    and c: "opsClosed M A st"
  shows "collected M {b. Some b \<in> set ops} st (foldl (\<lambda>st op. case op of None \<Rightarrow> st | Some b \<Rightarrow> p8aCollectFns M k st b) st ops) \<and>
    {b. Some b \<in> set ops} \<subseteq> set (snd (foldl (\<lambda>st op. case op of None \<Rightarrow> st | Some b \<Rightarrow> p8aCollectFns M k st b) st ops)) \<and>
    opsClosed M A (foldl (\<lambda>st op. case op of None \<Rightarrow> st | Some b \<Rightarrow> p8aCollectFns M k st b) st ops)"
  using one
proof (induction ops rule: rev_induct)
  case (snoc op ops)
  let ?st = "foldl (\<lambda>st op. case op of None \<Rightarrow> st | Some b \<Rightarrow> p8aCollectFns M k st b) st ops"
  have IH: "collected M {b. Some b \<in> set ops} st ?st" "{b. Some b \<in> set ops} \<subseteq> set (snd ?st)" "opsClosed M A ?st"
    using snoc by auto
  show ?case
  proof (cases op)
    case None
    with IH show ?thesis by simp
  next
    case (Some b)
    have o: "collected M {b} ?st (p8aCollectFns M k ?st b)" "b \<in> set (snd (p8aCollectFns M k ?st b))"
      "opsClosed M A (p8aCollectFns M k ?st b)" using snoc.prems[of b ?st] Some IH(3) by auto
    have "collected M {b. Some b \<in> set (ops @ [op])} st (p8aCollectFns M k ?st b)"
      by (rule collected_trans[OF IH(1) o(1)]) (auto simp: Some)
    moreover have "{b. Some b \<in> set (ops @ [op])} \<subseteq> set (snd (p8aCollectFns M k ?st b))"
      using IH(2) o(2) collected_sub[OF o(1)] by (auto simp: Some)
    ultimately show ?thesis using o(3) Some by simp
  qed
qed (use c collected_refl in auto)

lemma p8aCollectFns_ok:
  "shallow M k c \<Longrightarrow> opsClosed M A st \<Longrightarrow> collected M {c} st (p8aCollectFns M k st c) \<and>
     c \<in> set (snd (p8aCollectFns M k st c)) \<and> opsClosed M A (p8aCollectFns M k st c)"
proof (induction k arbitrary: c st A)
  case (Suc k)
  obtain out vis where st: "st = (out, vis)" by fastforce
  show ?case
  proof (cases "c \<in> set vis")
    case True
    with Suc.prems show ?thesis by (simp add: st collected_refl)
  next
    case False
    show ?thesis
    proof (cases "m_const M c")
      case (OperandsConst ops)
      let ?ops = "take 256 ops" let ?st0 = "(out, c # vis)"
      define R where "R = foldl (\<lambda>st op. case op of None \<Rightarrow> st | Some b \<Rightarrow> p8aCollectFns M k st b) ?st0 ?ops"
      have op: "opOf M c b \<longleftrightarrow> Some b \<in> set ?ops" for b using OperandsConst by (auto simp: opOf_def)
      have c0: "opsClosed M (insert c A) ?st0" using Suc.prems(2) by (auto simp: opsClosed_def st)
      have one: "collected M {b} st (p8aCollectFns M k st b) \<and> b \<in> set (snd (p8aCollectFns M k st b)) \<and>
          opsClosed M (insert c A) (p8aCollectFns M k st b)" if "Some b \<in> set ?ops" "opsClosed M (insert c A) st" for st b
        by (rule Suc.IH[OF _ that(2)]) (use shallow_step[OF Suc.prems(1)] op that(1) in blast)
      have X: "collected M {b. Some b \<in> set ?ops} ?st0 R \<and> {b. Some b \<in> set ?ops} \<subseteq> set (snd R) \<and> opsClosed M (insert c A) R"
        unfolding R_def by (rule collectOps, rule one, assumption+, rule c0)
      note r = X[THEN conjunct1] X[THEN conjunct2, THEN conjunct1] X[THEN conjunct2, THEN conjunct2]
      have res: "p8aCollectFns M (Suc k) st c = R" using False OperandsConst by (simp add: st R_def)
      have closed: "opsClosed M A R"
        unfolding opsClosed_def
      proof (intro ballI allI impI)
        fix v b assume v: "v \<in> set (snd R) - A" "opOf M v b"
        show "b \<in> set (snd R)"
        proof (cases "v = c")
          case True
          then have "Some b \<in> set ?ops" using op v(2) by simp
          then show ?thesis by (intro subsetD[OF r(2)] CollectI)
        next
          case False
          then have "v \<in> set (snd R) - insert c A" using v(1) by simp
          with r(3) v(2) show ?thesis unfolding opsClosed_def by blast
        qed
      qed
      have mem: "c \<in> set (snd R)" using collected_sub[OF r(1)] by auto
      have first: "collected M {c} st ?st0"
        unfolding collected_def st using False OperandsConst by (intro exI[of _ "{c}"]) auto
      from r(1) obtain N where N: "set (snd R) = set (snd ?st0) \<union> N" "N \<inter> set (snd ?st0) = {}"
        "\<forall>v \<in> N. \<exists>s \<in> {b. Some b \<in> set ?ops}. (opOf M)\<^sup>*\<^sup>* s v"
        "set (fst R) = set (fst ?st0) \<union> {d. \<exists>v \<in> N. m_const M v = FunctionConst d}"
        unfolding collected_def by (elim exE conjE) (rule that)
      have "(opOf M)\<^sup>*\<^sup>* c v" if "v \<in> N" for v
        using N(3) that op by (auto intro: converse_rtranclp_into_rtranclp)
      then have "collected M {c} ?st0 R"
        unfolding collected_def using N(1,2,4) by (intro exI[of _ N]) blast
      then show ?thesis unfolding res using closed mem collected_trans[OF first _ subset_refl subset_refl] by blast
    next
      case (FunctionConst d)
      have "collected M {c} st (out @ [d], c # vis)"
        unfolding collected_def st using False FunctionConst by (intro exI[of _ "{c}"]) auto
      moreover have "opsClosed M A (out @ [d], c # vis)"
        using Suc.prems(2) FunctionConst by (auto simp: opsClosed_def st opOf_def)
      ultimately show ?thesis using False FunctionConst by (simp add: st)
    next
      case OtherConst
      have "collected M {c} st (out, c # vis)"
        unfolding collected_def st using False OtherConst by (intro exI[of _ "{c}"]) auto
      moreover have "opsClosed M A (out, c # vis)"
        using Suc.prems(2) OtherConst by (auto simp: opsClosed_def st opOf_def)
      ultimately show ?thesis using False OtherConst by (simp add: st)
    qed
  qed
qed simp

text \<open>From a fresh start the collector finds every function under the constant.\<close>

lemma p8aCollectFns_exact:
  assumes "shallow M k c"
  shows "set (fst (p8aCollectFns M k (out, []) c)) = set out \<union> {d. \<exists>v. (opOf M)\<^sup>*\<^sup>* c v \<and> m_const M v = FunctionConst d}"
proof -
  have "opsClosed M {} (out, [])" by (simp add: opsClosed_def)
  note R = p8aCollectFns_ok[OF assms this]
  let ?r = "p8aCollectFns M k (out, []) c"
  have "(opOf M)\<^sup>*\<^sup>* c v \<Longrightarrow> v \<in> set (snd ?r)" for v
    by (induction rule: rtranclp_induct) (use R in \<open>auto simp: opsClosed_def\<close>)
  moreover from R obtain N where "set (snd ?r) = N" "\<forall>v \<in> N. (opOf M)\<^sup>*\<^sup>* c v"
    "set (fst ?r) = set out \<union> {d. \<exists>v \<in> N. m_const M v = FunctionConst d}" by (auto simp: collected_def)
  ultimately show ?thesis by blast
qed


subsection \<open>Code nodes that nothing leads to\<close>

text \<open>The nodes that control flow reaches; the graph depends on the others through their types only.\<close>

definition cfgTargets :: "build_env \<Rightarrow> ptr set" where
  "cfgTargets E = {m. \<exists>n. m \<in> set (outCFGEdges (be_cpg E) n)}"

lemma searchChildren_agree:
  assumes "\<And>m. m \<in> cfgTargets E \<Longrightarrow> k m = k' m"
  shows "searchChildren (outCFGEdges (be_cpg E)) k n = searchChildren (outCFGEdges (be_cpg E)) k' n"
proof -
  have "worklist (childVisit (outCFGEdges (be_cpg E)) k) (outCFGEdges (be_cpg E) n) ([n], []) =
    worklist (childVisit (outCFGEdges (be_cpg E)) k') (outCFGEdges (be_cpg E) n) ([n], [])"
  proof (rule worklist_cong[where P = "\<lambda>a. a \<in> cfgTargets E"])
    fix a st assume "a \<in> cfgTargets E"
    then show "childVisit (outCFGEdges (be_cpg E)) k a st = childVisit (outCFGEdges (be_cpg E)) k' a st"
      using assms by (cases st) (simp add: childVisit_def)
  qed (auto simp: cfgTargets_def childVisit_def split: if_splits)
  then show ?thesis by (simp add: searchChildren_def)
qed

lemma through_target: "through (outCFGEdges (be_cpg E)) k n m \<Longrightarrow> m \<in> cfgTargets E"
  by (induction rule: through.induct) (auto simp: cfgTargets_def)

lemma through_agree:
  assumes "through (outCFGEdges (be_cpg E)) k n m" "\<And>m. m \<in> cfgTargets E \<Longrightarrow> k m = k' m"
  shows "through (outCFGEdges (be_cpg E)) k' n m"
  using assms(1)
proof (induction rule: through.induct)
  case (skip m n)
  have "\<not> k' m" using skip(2) assms(2)[OF through_target[OF skip(1)]] by simp
  then show ?case using skip(3,4) through.skip by metis
qed (rule through.direct)

lemma children_agree:
  assumes "\<And>m. m \<in> cfgTargets E \<Longrightarrow> k m = k' m"
  shows "children_of (outCFGEdges (be_cpg E)) k = children_of (outCFGEdges (be_cpg E)) k'"
proof (rule ext)
  fix n
  have "through (outCFGEdges (be_cpg E)) k n m = through (outCFGEdges (be_cpg E)) k' n m" for m
    using through_agree[of E k n m k'] through_agree[of E k' n m k] assms by auto
  then show "children_of (outCFGEdges (be_cpg E)) k n = children_of (outCFGEdges (be_cpg E)) k' n"
    using through_target[of E k' n] assms by (auto simp: children_of_def)
qed

lemma flow_target: "flow (outCFGEdges (be_cpg E)) n m \<Longrightarrow> m = n \<or> m \<in> cfgTargets E"
  unfolding flow_def by (induction rule: rtranclp_induct) (auto simp: cfgTargets_def)

lemma functionExact_heap:
  assumes ex: "functionExact E g f" and H: "\<And>m. m \<in> cfgTargets E \<Longrightarrow> H m = cpgH g m"
  shows "functionExact E (g\<lparr>cpgH := H\<rparr>) f"
proof -
  let ?k = "\<lambda>n. isCCPGNode (be_util E) (cpgH g n)" let ?k' = "\<lambda>n. isCCPGNode (be_util E) (H n)"
  let ?m = "nd_cpg (nodeH g (fn_funcNode (funH g f)))"
  have c: "children_of (outCFGEdges (be_cpg E)) ?k' = children_of (outCFGEdges (be_cpg E)) ?k"
    by (rule children_agree) (simp add: H)
  have "insert ?m {n. ?k' n \<and> flow (outCFGEdges (be_cpg E)) ?m n} = insert ?m {n. ?k n \<and> flow (outCFGEdges (be_cpg E)) ?m n}"
  proof -
    have "?k' n = ?k n" if "flow (outCFGEdges (be_cpg E)) ?m n" "n \<noteq> ?m" for n
      using flow_target[OF that(1)] that(2) H by auto
    then show ?thesis by blast
  qed
  moreover have "edge_cpg (g\<lparr>cpgH := H\<rparr>) = edge_cpg g" by (simp add: edge_cpg_def fun_eq_iff)
  ultimately show ?thesis using ex unfolding functionExact_def Let_def by (simp add: c)
qed

lemma builder_ok_heap:
  assumes ok: "builder_ok E B" and H: "\<And>m. m \<in> cfgTargets E \<Longrightarrow> H m = cpgH (b_g B) m"
  shows "builder_ok E (B\<lparr>b_g := (b_g B)\<lparr>cpgH := H\<rparr>\<rparr>)"
proof -
  have "computeChildren E (B\<lparr>b_g := (b_g B)\<lparr>cpgH := H\<rparr>\<rparr>) n = computeChildren E B n" for n
    unfolding computeChildren_def by (rule searchChildren_agree) (simp add: H)
  then have "childCache.cache_ok E (B\<lparr>b_g := (b_g B)\<lparr>cpgH := H\<rparr>\<rparr>)"
    using ok by (simp add: builder_ok_def childCache.cache_ok_def)
  moreover have "ccpg_ok ((b_g B)\<lparr>cpgH := H\<rparr>)" using ok by (simp add: builder_ok_def ccpg_ok_def)
  ultimately show ?thesis using ok functionExact_heap[OF _ H] by (simp add: builder_ok_def)
qed

lemma run_ok_heap:
  assumes "run_ok E B" "\<And>m. m \<in> cfgTargets E \<Longrightarrow> H m = cpgH (b_g B) m"
  shows "run_ok E (B\<lparr>b_g := (b_g B)\<lparr>cpgH := H\<rparr>\<rparr>)"
  using builder_ok_heap[of E B H] assms ctx.heap[of "b_g B" H] calls.heap[of "{}" "b_g B" H] by (simp add: run_ok_def)

subsection \<open>The nodes of the graph\<close>

text \<open>Creating a function adds its own nodes only.\<close>

lemma createFunction_nodes:
  assumes ok: "builder_ok E B" and n: "n \<in> set (g_nodes (b_g B))" and c: "createFunction E n B = Some (f, B')"
  shows "set (g_nodes (b_g B')) \<subseteq> set (g_nodes (b_g B)) \<union> set (fn_nodes (funH (b_g B') f))"
proof (cases "getFunctionByCCPGNode (b_g B) n = null")
  case True
  have cfg: "cfg_ok E" and gok: "ccpg_ok (b_g B)" and co: "childCache.cache_ok E B" using ok by (simp_all add: builder_ok_def)
  obtain f0 g0 where op: "openFunction n (b_g B) = (f0, g0)" by fastforce
  note O = openFunction_ok[OF gok n True op]
  from c True op obtain B1 vis g1 g2 lf where
    w: "worklist (fnVisit E f) [n] (B\<lparr>b_g := g0\<rparr>, [n]) = Some (B1, vis)"
    and l: "foldM (locateNode E f) (fn_nodes (funH (b_g B1) f)) (b_g B1) = Some g1"
    and m: "getLLVMFunction E f g1 = Ok (lf, g2)" and f0: "f0 = f"
    and B': "B' = B1\<lparr>b_g := (if lf = None then g2 else foldl (attachCall E) g2 (fn_nodes (funH g2 f)))\<rparr>"
    by (auto simp: createFunction_def split: option.splits result.splits prod.splits)
  have F0: "fnFacts E (cpgH g0) f n (B\<lparr>b_g := g0\<rparr>, [n]) [n]"
    using fnFacts_init[of "B\<lparr>b_g := g0\<rparr>" "cpgH g0" E n f] O n f0 co
      cache_ok_cong[of "B\<lparr>b_g := g0\<rparr>" B E] by (simp add: grows_def)
  let ?I = "\<lambda>st q. fnFacts E (cpgH g0) f n st q \<and> set (g_nodes (b_g (fst st))) \<subseteq> set (g_nodes (b_g B)) \<union> set (snd st)"
  have "?I (B1, vis) []"
  proof (rule worklist_invariant[OF w, where I = ?I])
    show "?I (B\<lparr>b_g := g0\<rparr>, [n]) [n]" using F0 O by auto
  next
    fix st a r new st' assume I: "?I st (a # r)" and v: "fnVisit E f a st = Some (new, st')"
    have F': "fnFacts E (cpgH g0) f n st' (r @ new)" using fnVisit_step[OF cfg _ v] I by blast
    obtain C vis0 where st: "st = (C, vis0)" by fastforce
    let ?g1 = "updFun f (fn_addNode (nd_type (nodeH (b_g C) a)) a) (b_g C)"
    from v st obtain cs C1 where fc: "findChildren E (nd_cpg (nodeH ?g1 a)) (C\<lparr>b_g := ?g1\<rparr>) = Some (cs, C1)"
      by (auto simp: fnVisit_def Let_def split: option.splits)
    have A: "ccpg_ok (b_g C)" "childCache.cache_ok E C" "cpgH (b_g C) = cpgH g0" "distinct vis0" "set vis0 \<subseteq> set (g_nodes (b_g C))"
      using I by (simp_all add: fnFacts_def Let_def st)
    have S: "skel ?g1 = skel (b_g C)" by simp
    have ok1: "ccpg_ok ?g1" using ccpg_ok_skel[OF S] A(1) by simp
    have "childCache.cache_ok E (C\<lparr>b_g := ?g1\<rparr>)" using A(2) cache_ok_cong[of "C\<lparr>b_g := ?g1\<rparr>" C E] by (simp add: updFun_def)
    note K = findChildren_facts[OF this fc]
    have cs: "null \<notin> set cs" using K kids_nonnull[OF cfg] by simp
    have sub: "set vis0 \<subseteq> set (g_nodes ?g1)" using A(5) skel_eqD(8)[OF S] by simp
    obtain g2 vis2 new2 where step: "foldl (childStep E f a) (?g1, vis0, []) cs = (g2, vis2, new2)" by (metis prod_cases3)
    from v st fc K step have st': "st' = (C1\<lparr>b_g := g2\<rparr>, vis2)" by (simp add: fnVisit_def Let_def)
    have "set (g_nodes g2) = set (g_nodes (b_g C)) \<union> set new2" "vis2 = vis0 @ new2"
      using childSteps_facts[OF ok1 A(4) sub cs, of f a E] step skel_eqD(8)[OF S] by (simp_all add: stepFacts_def)
    with I F' st st' show "?I st' (r @ new)" by auto
  qed
  then have "set (g_nodes (b_g B1)) \<subseteq> set (g_nodes (b_g B)) \<union> set (fn_nodes (funH (b_g B1) f))"
    by (simp add: fnFacts_def Let_def)
  moreover have "tailFrame f (b_g B1) (b_g B')"
    unfolding B' using locateNodes_tail[OF l] getLLVMFunction_tail[OF m] attachCalls_tail tailFrame_trans by auto
  then have "skel (b_g B') = skel (b_g B1)" "fn_nodes (funH (b_g B') f) = fn_nodes (funH (b_g B1) f)"
    by (auto simp: tailFrame_def)
  ultimately show ?thesis using skel_eqD(8)[of "b_g B'" "b_g B1"] by simp
next
  case False
  with c show ?thesis by (auto simp: createFunction_def)
qed


subsection \<open>The entries\<close>

definition fresh :: "build_env \<Rightarrow> builder \<Rightarrow> bool" where
  "fresh E B \<longleftrightarrow> (\<forall>p \<ge> nextCpg B. p \<noteq> null \<and> p \<notin> cfgTargets E)"

text \<open>
  The state of the discovery.  The set \<open>M\<close> holds the methods; no control flow reaches one
  as a node of the graph, so a method's node is the node of an entry, unless it is in \<open>X\<close>,
  the node whose function is about to be created.
\<close>

definition discInv :: "build_env \<Rightarrow> ptr set \<Rightarrow> ptr set \<Rightarrow> builder \<times> ptr list \<Rightarrow> bool" where
  "discInv E M X = (\<lambda>(B, q). run_ok E B \<and> fresh E B \<and> distinct (entryFunctions B) \<and> set q = set (entryFunctions B) \<and>
     set (entryFunctions B) \<subseteq> set (g_functions (b_g B)) \<and>
     (\<forall>m \<in> M \<inter> cfgTargets E. \<not> isCCPGNode (be_util E) (cpgH (b_g B) m)) \<and>
     (\<forall>p \<in> set (g_nodes (b_g B)) - X. nd_cpg (nodeH (b_g B) p) \<in> M \<longrightarrow>
        (\<exists>f \<in> set (entryFunctions B). methodOf (b_g B) f = nd_cpg (nodeH (b_g B) p))))"

text \<open>What a step keeps of the earlier state: entries stay entries, with their methods.\<close>

definition entriesGrow :: "build_env \<Rightarrow> builder \<times> ptr list \<Rightarrow> builder \<times> ptr list \<Rightarrow> bool" where
  "entriesGrow E st st' \<longleftrightarrow> set (entryFunctions (fst st)) \<subseteq> set (entryFunctions (fst st')) \<and> nextCpg (fst st) \<le> nextCpg (fst st') \<and>
     (\<forall>f \<in> set (entryFunctions (fst st)). methodOf (b_g (fst st')) f = methodOf (b_g (fst st)) f) \<and>
     (\<forall>m < nextCpg (fst st). cpgH (b_g (fst st')) m = cpgH (b_g (fst st)) m)"

lemma entriesGrow_refl: "entriesGrow E st st" by (simp add: entriesGrow_def)

lemma entriesGrow_trans: "entriesGrow E a b \<Longrightarrow> entriesGrow E b c \<Longrightarrow> entriesGrow E a c"
  unfolding entriesGrow_def by (auto dest: order_trans less_le_trans)

lemma createFunction_fields:
  assumes "builder_ok E B" "n \<in> set (g_nodes (b_g B))" "createFunction E n B = Some (f, B')"
  shows "entryFunctions B' = entryFunctions B \<and> nextCpg B' = nextCpg B"
proof (cases "getFunctionByCCPGNode (b_g B) n = null")
  case True
  from createFunction_new[OF assms(1,2) True assms(3)] show ?thesis by blast
qed (use assms(3) in \<open>simp add: createFunction_def\<close>)

lemma discInvD:
  assumes "discInv E M X (B, q)"
  shows "run_ok E B" "builder_ok E B" "ccpg_ok (b_g B)" "fresh E B" "distinct (entryFunctions B)" "set q = set (entryFunctions B)"
    "f \<in> set (entryFunctions B) \<Longrightarrow> f \<in> set (g_functions (b_g B))"
    "m \<in> M \<Longrightarrow> m \<in> cfgTargets E \<Longrightarrow> \<not> isCCPGNode (be_util E) (cpgH (b_g B) m)"
    "p \<in> set (g_nodes (b_g B)) \<Longrightarrow> p \<notin> X \<Longrightarrow> nd_cpg (nodeH (b_g B) p) \<in> M \<Longrightarrow>
       \<exists>f \<in> set (entryFunctions B). methodOf (b_g B) f = nd_cpg (nodeH (b_g B) p)"
  using assms by (auto simp: discInv_def run_ok_def builder_ok_def)

lemma disc_node:
  assumes inv: "discInv E M {} (B, q)" and m: "m \<noteq> null" and c: "createCCPGNode (be_util E) m (b_g B) = (n, g)"
  shows "discInv E M {n} (B\<lparr>b_g := g\<rparr>, q) \<and> entriesGrow E (B, q) (B\<lparr>b_g := g\<rparr>, q) \<and> n \<in> set (g_nodes g) \<and>
    nd_cpg (nodeH g n) = m"
proof -
  note D = discInvD[OF inv]
  note N = builder_ok_node[OF D(2) m c]
  note C = createCCPGNode_ok[OF D(3) m c]
  have k: "kept (b_g B) g" by (rule kept_createNode[OF D(2) m c])
  have "g = snd (createCCPGNode (be_util E) m (b_g B))" using c by simp
  then have r: "run_ok E (B\<lparr>b_g := g\<rparr>)" using N D(1) ctx.node calls.node by (simp add: run_ok_def)
  have H: "cpgH g = cpgH (b_g B)" using k by (simp add: kept_def grows_def)
  have mt: "methodOf g f = methodOf (b_g B) f" if "f \<in> set (entryFunctions B)" for f
    by (rule methodOf_kept[OF k D(3) D(7)[OF that]])
  have "\<exists>f \<in> set (entryFunctions B). methodOf g f = nd_cpg (nodeH g p)"
    if p: "p \<in> set (g_nodes g) - {n}" "nd_cpg (nodeH g p) \<in> M" for p
  proof -
    have "p \<in> set (g_nodes (b_g B))" "nodeH g p = nodeH (b_g B) p" using p(1) C by auto
    with D(9)[of p] p(2) mt show ?thesis by auto
  qed
  then have "discInv E M {n} (B\<lparr>b_g := g\<rparr>, q)"
    using r D(4-8) kept_functions[OF k] H by (auto simp: discInv_def fresh_def)
  then show ?thesis using N mt H by (simp add: entriesGrow_def)
qed

lemma disc_function:
  assumes inv: "discInv E M {n} (B, q)" and n: "n \<in> set (g_nodes (b_g B))" and c: "createFunction E n B = Some (f, B')"
  shows "discInv E M {} (addEntryFunction f (B', q)) \<and> entriesGrow E (B, q) (addEntryFunction f (B', q)) \<and>
    f \<in> set (entryFunctions (fst (addEntryFunction f (B', q)))) \<and>
    methodOf (b_g (fst (addEntryFunction f (B', q)))) f = nd_cpg (nodeH (b_g B) n)"
proof -
  note D = discInvD[OF inv]
  note R = createFunction_run[OF D(1) n c]
  have k: "kept (b_g B) (b_g B')" by (rule kept_createFunction[OF D(2) n c])
  note F = createFunction_fields[OF D(2) n c]
  have H: "cpgH (b_g B') = cpgH (b_g B)" using k by (simp add: kept_def grows_def)
  have gok: "ccpg_ok (b_g B')" using R by (simp add: run_ok_def builder_ok_def)
  have mt: "methodOf (b_g B') h = methodOf (b_g B) h" if "h \<in> set (entryFunctions B)" for h
    by (rule methodOf_kept[OF k D(3) D(7)[OF that]])
  have mf: "methodOf (b_g B') f = nd_cpg (nodeH (b_g B) n)"
    using R kept_node[OF k D(3) n] node_key_eq by (simp add: methodOf_def)
  have ex: "functionExact E (b_g B') f" using R by (simp add: run_ok_def builder_ok_def)
  have cover: "\<exists>h \<in> insert f (set (entryFunctions B)). methodOf (b_g B') h = nd_cpg (nodeH (b_g B') p)"
    if p: "p \<in> set (g_nodes (b_g B'))" "nd_cpg (nodeH (b_g B') p) \<in> M" for p
  proof (cases "p \<in> set (g_nodes (b_g B))")
    case True
    then have same: "nd_cpg (nodeH (b_g B') p) = nd_cpg (nodeH (b_g B) p)"
      using kept_node[OF k D(3)] node_key_eq by blast
    show ?thesis
    proof (cases "p = n")
      case False
      with D(9)[OF True] p(2) same obtain h where "h \<in> set (entryFunctions B)" "methodOf (b_g B) h = nd_cpg (nodeH (b_g B) p)" by auto
      with mt[of h] same show ?thesis by auto
    qed (use mf same in simp)
  next
    case False
    then have "p \<in> set (fn_nodes (funH (b_g B') f))" using createFunction_nodes[OF D(2) n c] p(1) by blast
    then have "nd_cpg (nodeH (b_g B') p) \<in> insert (methodOf (b_g B') f)
        {m. isCCPGNode (be_util E) (cpgH (b_g B') m) \<and> flow (outCFGEdges (be_cpg E)) (methodOf (b_g B') f) m}"
      using ex unfolding functionExact_def Let_def methodOf_def by blast
    then consider "nd_cpg (nodeH (b_g B') p) = methodOf (b_g B') f"
      | "isCCPGNode (be_util E) (cpgH (b_g B) (nd_cpg (nodeH (b_g B') p)))" "nd_cpg (nodeH (b_g B') p) \<in> cfgTargets E"
      using flow_target[of E "methodOf (b_g B') f" "nd_cpg (nodeH (b_g B') p)"] H by auto
    then show ?thesis
    proof cases
      case 2
      with D(8)[OF p(2)] show ?thesis by blast
    qed auto
  qed
  have "discInv E M {} (addEntryFunction f (B', q))"
    using R D(4-8) F H kept_functions[OF k] cover by (auto simp: discInv_def fresh_def addEntryFunction_def run_ok_def builder_ok_def
        childCache.cache_ok_def computeChildren_def)
  then show ?thesis using mt mf F H by (auto simp: entriesGrow_def addEntryFunction_def)
qed

text \<open>A synthetic code node is one that nothing leads to.\<close>

lemma disc_heap:
  fixes x :: cpg_node and ss :: "ptr list"
  assumes inv: "discInv E M X (B, q)"
  defines "B' \<equiv> B\<lparr>b_g := (b_g B)\<lparr>cpgH := (cpgH (b_g B))(nextCpg B := x)\<rparr>, nextCpg := Suc (nextCpg B), syntheticEntryNodes := ss\<rparr>"
  shows "discInv E M X (B', q) \<and> entriesGrow E (B, q) (B', q)"
proof -
  note D = discInvD[OF inv]
  have nt: "nextCpg B \<notin> cfgTargets E" using D(4) by (simp add: fresh_def)
  have "run_ok E (B\<lparr>b_g := (b_g B)\<lparr>cpgH := (cpgH (b_g B))(nextCpg B := x)\<rparr>\<rparr>)"
    by (rule run_ok_heap[OF D(1)]) (use nt in auto)
  then have "run_ok E B'"
    by (simp add: B'_def run_ok_def builder_ok_def childCache.cache_ok_def computeChildren_def)
  then have "discInv E M X (B', q)"
    using inv nt by (auto simp: discInv_def fresh_def B'_def methodOf_def)
  then show ?thesis by (simp add: entriesGrow_def B'_def methodOf_def)
qed

lemma disc_llvm:
  assumes inv: "discInv E M X (B, q)"
  shows "discInv E M X (B\<lparr>b_g := updFun f (\<lambda>fn. fn\<lparr>fn_llvm := l\<rparr>) (b_g B)\<rparr>, q) \<and>
    entriesGrow E (B, q) (B\<lparr>b_g := updFun f (\<lambda>fn. fn\<lparr>fn_llvm := l\<rparr>) (b_g B)\<rparr>, q)"
proof -
  let ?g = "updFun f (\<lambda>fn. fn\<lparr>fn_llvm := l\<rparr>) (b_g B)"
  note D = discInvD[OF inv]
  have S: "skel ?g = skel (b_g B)" by simp
  have "builder_ok E (B\<lparr>b_g := ?g\<rparr>)"
  proof (rule builder_ok_graph[OF D(2)])
    show "ccpg_ok ?g" using D(3) ccpg_ok_skel[OF S] by simp
    show "grows (b_g B) ?g" by (rule grows_skel[OF S[symmetric]])
  qed (simp_all add: updFun_def)
  then have "run_ok E (B\<lparr>b_g := ?g\<rparr>)"
    using D(1) ctx.fun_update[of "\<lambda>fn. fn\<lparr>fn_llvm := l\<rparr>" "b_g B" f] calls.fun_update[of "\<lambda>fn. fn\<lparr>fn_llvm := l\<rparr>" "{}" "b_g B" f]
    by (simp add: run_ok_def)
  moreover have "methodOf ?g h = methodOf (b_g B) h" for h by (simp add: methodOf_def updFun_def)
  moreover have "g_functions ?g = g_functions (b_g B)" "g_nodes ?g = g_nodes (b_g B)" "cpgH ?g = cpgH (b_g B)" "nodeH ?g = nodeH (b_g B)"
    by (simp_all add: updFun_def)
  ultimately show ?thesis using inv by (simp add: discInv_def fresh_def entriesGrow_def)
qed


text \<open>One entry.\<close>

definition isEntryOf :: "builder \<times> ptr list \<Rightarrow> ptr \<Rightarrow> bool" where
  "isEntryOf st m \<longleftrightarrow> (\<exists>f \<in> set (entryFunctions (fst st)). methodOf (b_g (fst st)) f = m)"

lemma isEntryOf_grow: "entriesGrow E st st' \<Longrightarrow> isEntryOf st m \<Longrightarrow> isEntryOf st' m"
  by (auto simp: isEntryOf_def entriesGrow_def)

lemma node_function_ok:
  assumes inv: "discInv E M {} (B, q)" and m: "m \<noteq> null" and c: "createCCPGNode (be_util E) m (b_g B) = (n, g)"
    and f: "createFunction E n (B\<lparr>b_g := g\<rparr>) = Some (f, B')"
  shows "discInv E M {} (addEntryFunction f (B', q)) \<and> entriesGrow E (B, q) (addEntryFunction f (B', q)) \<and>
    isEntryOf (addEntryFunction f (B', q)) m"
proof -
  note N = disc_node[OF inv m c]
  have nn: "n \<in> set (g_nodes (b_g (B\<lparr>b_g := g\<rparr>)))" using N by simp
  note F = disc_function[OF N[THEN conjunct1] nn f]
  have "methodOf (b_g (fst (addEntryFunction f (B', q)))) f = m" using F N by simp
  then have "isEntryOf (addEntryFunction f (B', q)) m" using F unfolding isEntryOf_def by blast
  then show ?thesis using F N entriesGrow_trans by blast
qed

lemma addMethodEntry_ok:
  assumes inv: "discInv E M {} st" and m: "m \<noteq> null" and a: "addMethodEntry E m st = Some st'"
  shows "discInv E M {} st' \<and> entriesGrow E st st' \<and> (m \<in> M \<longrightarrow> isEntryOf st' m)"
proof -
  obtain B q where st: "st = (B, q)" by fastforce
  note inv = inv[unfolded st]
  note D = discInvD[OF inv]
  show ?thesis
  proof (cases "cpgNodeToCCPGNodeMap (b_g B) m")
    case None
    obtain n g where c: "createCCPGNode (be_util E) m (b_g B) = (n, g)" by fastforce
    with a None obtain f B1 where f: "createFunction E n (B\<lparr>b_g := g\<rparr>) = Some (f, B1)"
      and st': "st' = addEntryFunction f (B1, q)" by (auto simp: addMethodEntry_def st split: option.splits)
    from node_function_ok[OF inv m c f] show ?thesis by (simp add: st st')
  next
    case (Some p)
    then have "st' = st" using a by (simp add: addMethodEntry_def st)
    moreover have "p \<in> set (g_nodes (b_g B))" "nd_cpg (nodeH (b_g B) p) = m" using Some ccpg_okD(5)[OF D(3)] by auto
    ultimately show ?thesis using D(9)[of p] inv entriesGrow_refl by (auto simp: isEntryOf_def st)
  qed
qed

lemma createIR_ok:
  assumes inv: "discInv E M {} (B, q)" and c: "createIRAnchoredEntryFunction E d B = Some (f, B')"
  shows "(f = null \<and> B' = B) \<or>
    (discInv E M {} (addEntryFunction f (B', q)) \<and> entriesGrow E (B, q) (addEntryFunction f (B', q)))"
proof (cases "d = None \<or> (\<exists>x. d = Some x \<and> ld_declaration x)")
  case True
  then have "f = null \<and> B' = B" using c by (auto simp: createIRAnchoredEntryFunction_def)
  then show ?thesis by blast
next
  case False
  then obtain x where d: "d = Some x" "\<not> ld_declaration x" by (cases d) auto
  note D = discInvD[OF inv]
  define nm where "nm = mkNode ''METHOD'' [''NAME'' \<mapsto> be_demangle E (ld_name x), ''FULL_NAME'' \<mapsto> be_demangle E (ld_name x),
    ''METHOD_FULL_NAME'' \<mapsto> be_demangle E (ld_name x),
    ''FILENAME'' \<mapsto> (case ld_sub x of Some (f, l) \<Rightarrow> f | None \<Rightarrow> []),
    ''LINE_NUMBER'' \<mapsto> (if 0 < (case ld_sub x of Some (f, l) \<Rightarrow> l | None \<Rightarrow> 0)
       then int_to_string (case ld_sub x of Some (f, l) \<Rightarrow> l | None \<Rightarrow> 0) else []),
    ''CODE'' \<mapsto> ''<ir-entry:'' @ be_demangle E (ld_name x) @ ''>''] 0"
  define ss where "ss = syntheticEntryNodes B @ [nextCpg B]"
  let ?g0 = "(b_g B)\<lparr>cpgH := (cpgH (b_g B))(nextCpg B := nm)\<rparr>"
  let ?B0 = "B\<lparr>b_g := ?g0, nextCpg := Suc (nextCpg B), syntheticEntryNodes := ss\<rparr>"
  obtain n g where node: "createCCPGNode (be_util E) (nextCpg B) ?g0 = (n, g)" by fastforce
  have eq: "B\<lparr>b_g := g, nextCpg := Suc (nextCpg B), syntheticEntryNodes := ss\<rparr> = ?B0\<lparr>b_g := g\<rparr>"
    by (rule builder.equality) simp_all
  from c d node obtain B1 where f0: "createFunction E n (B\<lparr>b_g := g, nextCpg := Suc (nextCpg B), syntheticEntryNodes := ss\<rparr>) = Some (f, B1)"
    and B': "B' = B1\<lparr>b_g := updFun f (\<lambda>fn. fn\<lparr>fn_llvm := Some (ld_name x)\<rparr>) (b_g B1)\<rparr>"
    by (auto simp: createIRAnchoredEntryFunction_def Let_def nm_def ss_def split: option.splits)
  have f: "createFunction E n (?B0\<lparr>b_g := g\<rparr>) = Some (f, B1)" using f0 unfolding eq .
  note H = disc_heap[where x = nm and ss = ss, OF inv]
  have "nextCpg B \<noteq> null" using D(4) by (simp add: fresh_def)
  from node_function_ok[OF H[THEN conjunct1] this, of n g f B1] node f
  have F: "discInv E M {} (addEntryFunction f (B1, q))" "entriesGrow E (?B0, q) (addEntryFunction f (B1, q))" by simp_all
  have e: "addEntryFunction f (B', q) =
      (\<lambda>(C, q). (C\<lparr>b_g := updFun f (\<lambda>fn. fn\<lparr>fn_llvm := Some (ld_name x)\<rparr>) (b_g C)\<rparr>, q)) (addEntryFunction f (B1, q))"
    by (simp add: B' addEntryFunction_def)
  obtain C q' where a: "addEntryFunction f (B1, q) = (C, q')" by fastforce
  have L: "discInv E M {} (addEntryFunction f (B', q)) \<and> entriesGrow E (C, q') (addEntryFunction f (B', q))"
    using disc_llvm[of E M "{}" C q' f "Some (ld_name x)"] F(1) unfolding e a by simp
  with F(2) H a show ?thesis by (metis entriesGrow_trans)
qed

lemma addListedEntry_ok:
  assumes inv: "discInv E M {} st" and a: "addListedEntry E name st = Some st'"
  shows "discInv E M {} st' \<and> entriesGrow E st st' \<and>
    (\<forall>m. entryMethod E (cpgH (b_g (fst st))) name = Ok m \<longrightarrow> m \<noteq> null \<longrightarrow> m \<in> M \<longrightarrow> isEntryOf st' m)"
proof -
  obtain B q where st: "st = (B, q)" by fastforce
  note inv = inv[unfolded st]
  from a obtain m where m: "entryMethod E (cpgH (b_g B)) name = Ok m" by (auto simp: addListedEntry_def st split: result.splits)
  show ?thesis
  proof (cases "m = null")
    case True
    with a m obtain f B1 where c: "createIRAnchoredEntryFunction E (entrySymbol (be_module E) name) B = Some (f, B1)"
      and st': "st' = (if f = null then (B1, q) else addEntryFunction f (B1, q))"
      by (auto simp: addListedEntry_def st split: option.splits)
    from createIR_ok[OF inv c] show ?thesis
    proof
      assume "f = null \<and> B1 = B"
      then show ?thesis using inv m True entriesGrow_refl by (simp add: st st')
    next
      assume R: "discInv E M {} (addEntryFunction f (B1, q)) \<and> entriesGrow E (B, q) (addEntryFunction f (B1, q))"
      have "f \<noteq> null"
      proof -
        obtain C q' where C: "addEntryFunction f (B1, q) = (C, q')" by fastforce
        then have "f \<in> set (entryFunctions C)" by (auto simp: addEntryFunction_def)
        with discInvD(3,7)[of E M "{}" C q'] R C ccpg_okD(7)[of "b_g C" f] show ?thesis by auto
      qed
      with R m True show ?thesis by (simp add: st st')
    qed
  next
    case False
    then have "addMethodEntry E m (B, q) = Some st'" using a m by (auto simp: addListedEntry_def st split: if_splits)
    from addMethodEntry_ok[OF inv False this] m show ?thesis by (simp add: st)
  qed
qed

lemma addHarvested_ok:
  assumes inv: "discInv E M {} st" and a: "addHarvested E dbg d st = Some st'"
  shows "discInv E M {} st' \<and> entriesGrow E st st'"
proof -
  obtain B q where st: "st = (B, q)" by fastforce
  show ?thesis
  proof (cases "st' = st")
    case False
    with a obtain m where "m \<noteq> null" "addMethodEntry E m st = Some st'"
      by (auto simp: addHarvested_def st Let_def split: if_splits result.splits)
    from addMethodEntry_ok[OF inv this] show ?thesis by blast
  qed (use inv entriesGrow_refl in simp)
qed

lemma addMain_ok:
  assumes inv: "discInv E M {} (B, [])" and a: "addMain E cfg B = Some (main, st)"
  shows "discInv E M {} st \<and> entriesGrow E (B, []) st"
proof (cases "enabled cfg")
  case True
  with a inv show ?thesis by (simp add: addMain_def entriesGrow_refl)
next
  case False
  with a obtain m where m: "mainMethodOf E (cpgH (b_g B)) = Ok m" by (auto simp: addMain_def getMain_def split: result.splits option.splits)
  obtain n g where c: "createCCPGNode (be_util E) m (b_g B) = (n, g)" by fastforce
  show ?thesis
  proof (cases "m = null")
    case True
    then have "st = (B, [])" using a False m c by (auto simp: addMain_def getMain_def createCCPGNode_def)
    with inv show ?thesis by (simp add: entriesGrow_refl)
  next
    case nn: False
    note N = disc_node[OF inv nn c]
    have "n \<noteq> null" using discInvD(3)[OF N[THEN conjunct1]] N ccpg_okD(3)[of g n] by auto
    with a False m c obtain f B1 where f: "createFunction E n (B\<lparr>b_g := g\<rparr>) = Some (f, B1)"
      and st: "st = addEntryFunction f (B1, [])" by (auto simp: addMain_def getMain_def split: option.splits)
    from node_function_ok[OF inv nn c f] show ?thesis by (simp add: st)
  qed
qed


subsection \<open>Looking up the method of a root\<close>

text \<open>A lookup reads the method nodes and what control flow reaches.\<close>

definition methodNodes :: "cpg \<Rightarrow> ptr set" where
  "methodNodes C = (case type2Nodes C ''Method'' of Some ms \<Rightarrow> set ms | None \<Rightarrow> {})"

definition lookupAgree :: "build_env \<Rightarrow> cpg_heap \<Rightarrow> cpg_heap \<Rightarrow> bool" where
  "lookupAgree E H H' \<longleftrightarrow> (\<forall>m \<in> methodNodes (be_cpg E) \<union> cfgTargets E. H' m = H m)"

lemma stub_agree:
  assumes "lookupAgree E H H'"
  shows "isStubMethodNode H' (be_cpg E) m = isStubMethodNode H (be_cpg E) m"
proof -
  have "H' n = H n" if "outCFGEdges (be_cpg E) m = n # ns" for n ns
  proof -
    have "n \<in> cfgTargets E" using that by (auto simp: cfgTargets_def intro!: exI[of _ m])
    with assms show ?thesis by (simp add: lookupAgree_def)
  qed
  then show ?thesis by (auto simp: isStubMethodNode_def split: list.split)
qed

lemma longestCode_agree: "\<forall>m \<in> set ms. H' m = H m \<Longrightarrow> longestCode H' cand ms b = longestCode H cand ms b"
proof (induction ms arbitrary: b)
  case (Cons m ms)
  obtain p l where "b = (p, l)" by fastforce
  with Cons show ?case by (simp add: Let_def)
qed simp

lemma astOnly_agree: "\<forall>m \<in> set ms. H' m = H m \<Longrightarrow> astOnly H' ms cs = astOnly H ms cs"
proof (induction cs)
  case (Cons c cs)
  with longestCode_agree[OF Cons.prems, of c "(null, 0)"] show ?case by (simp add: Let_def)
qed simp

lemma findMethod_agree:
  assumes "lookupAgree E H H'"
  shows "findMethod H' (be_cpg E) name = findMethod H (be_cpg E) name"
proof (cases "type2Nodes (be_cpg E) ''Method''")
  case (Some ms)
  then have ms: "\<forall>m \<in> set ms. H' m = H m" using assms by (simp add: lookupAgree_def methodNodes_def)
  have "fullMethod H' (be_cpg E) cand m = fullMethod H (be_cpg E) cand m" if "m \<in> set ms" for cand m
    using ms that stub_agree[OF assms, of m] by (simp add: fullMethod_def)
  then have "List.find (\<lambda>(cand, m). fullMethod H' (be_cpg E) cand m)
      (concat (map (\<lambda>cand. map (Pair cand) ms) (allNameCandidates name))) =
    List.find (\<lambda>(cand, m). fullMethod H (be_cpg E) cand m)
      (concat (map (\<lambda>cand. map (Pair cand) ms) (allNameCandidates name)))"
    by (intro find_cong refl) auto
  then show ?thesis using Some astOnly_agree[OF ms] by (simp add: findMethod_def split: option.split)
qed (simp add: findMethod_def)

lemma firstMethod_agree:
  "lookupAgree E H H' \<Longrightarrow> firstMethod H' (be_cpg E) ns = firstMethod H (be_cpg E) ns"
  by (induction ns) (simp_all add: findMethod_agree Let_def)

lemma matchDebug_agree:
  assumes "lookupAgree E H H'" "\<forall>m \<in> set ms. H' m = H m"
  shows "matchDebug parse nrm H' (be_cpg E) f ms = matchDebug parse nrm H (be_cpg E) f ms"
  using assms(2) stub_agree[OF assms(1)] by (induction ms) (auto split: result.split option.split)

lemma entryMethod_agree:
  assumes "lookupAgree E H H'"
  shows "entryMethod E H' name = entryMethod E H name"
proof -
  have ms: "\<forall>m \<in> set (cpg_nodesByType (be_cpg E) ''Method''). H' m = H m"
    using assms by (auto simp: lookupAgree_def methodNodes_def cpg_nodesByType_def split: option.splits)
  have "debugMethod E H' d = debugMethod E H d" for d
    by (auto simp: debugMethod_def findMethodByLLVMFunction_def findMethod_agree[OF assms]
        matchDebug_agree[OF assms ms] split: option.split)
  then show ?thesis by (simp add: entryMethod_def firstMethod_agree[OF assms] Let_def)
qed

text \<open>The listed entries: each root whose method is found becomes an entry.\<close>

definition methodsBelow :: "build_env \<Rightarrow> nat \<Rightarrow> bool" where
  "methodsBelow E k \<longleftrightarrow> (\<forall>m \<in> methodNodes (be_cpg E) \<union> cfgTargets E. m < k)"

lemma grow_agree: "entriesGrow E st st' \<Longrightarrow> methodsBelow E (nextCpg (fst st)) \<Longrightarrow>
    lookupAgree E (cpgH (b_g (fst st))) (cpgH (b_g (fst st')))"
  by (auto simp: entriesGrow_def methodsBelow_def lookupAgree_def)

lemma listed_ok:
  assumes "discInv E M {} st" "foldM (addListedEntry E) names st = Some st'" "methodsBelow E (nextCpg (fst st))"
  shows "discInv E M {} st' \<and> entriesGrow E st st' \<and>
    (\<forall>name \<in> set names. \<forall>m. entryMethod E (cpgH (b_g (fst st))) name = Ok m \<longrightarrow> m \<noteq> null \<longrightarrow> m \<in> M \<longrightarrow> isEntryOf st' m)"
  using assms
proof (induction names arbitrary: st)
  case (Cons n ns)
  from Cons.prems(2) obtain st1 where s: "addListedEntry E n st = Some st1" "foldM (addListedEntry E) ns st1 = Some st'"
    by (auto split: option.splits)
  note A = addListedEntry_ok[OF Cons.prems(1) s(1)]
  have b: "methodsBelow E (nextCpg (fst st1))"
    using A Cons.prems(3) by (auto simp: methodsBelow_def entriesGrow_def intro: less_le_trans)
  note IH = Cons.IH[OF _ s(2) b]
  have g: "entriesGrow E st st1" using A by blast
  have "entryMethod E (cpgH (b_g (fst st1))) name = entryMethod E (cpgH (b_g (fst st))) name" for name
    by (rule entryMethod_agree[OF grow_agree[OF g Cons.prems(3)]])
  with IH A entriesGrow_trans[OF g, of st'] isEntryOf_grow[of E st1 st'] show ?case by auto
qed (simp add: entriesGrow_refl)

lemma harvested_ok:
  assumes "discInv E M {} st" "foldM (addHarvested E dbg) ds st = Some st'"
  shows "discInv E M {} st' \<and> entriesGrow E st st'"
  by (rule foldM_invariant[OF assms(2)]) (use assms(1) entriesGrow_refl addHarvested_ok entriesGrow_trans in blast)+

lemma callbacks_ok:
  assumes "discInv E M {} st" "addCallbacks E cfg st = Some st'"
  shows "discInv E M {} st' \<and> entriesGrow E st st'"
proof (cases "enabled cfg")
  case False
  with assms(2) obtain st1 where "foldM (addHarvested E False) (harvestTables (be_module E)) st = Some st1"
    "foldM (addHarvested E True) (harvestStores (be_module E)) st1 = Some st'"
    by (auto simp: addCallbacks_def bind_eq_Some_conv)
  with harvested_ok[of E M st False] harvested_ok[of E M st1 True] assms(1) entriesGrow_trans show ?thesis by blast
qed (use assms entriesGrow_refl in \<open>simp add: addCallbacks_def\<close>)

lemma discover_ok:
  assumes inv: "discInv E M {} (B, [])" and d: "discoverEntries E cfg B = Some st" and b: "methodsBelow E (nextCpg B)"
  shows "discInv E M {} st \<and> entriesGrow E (B, []) st \<and>
    (enabled cfg \<longrightarrow> (\<forall>name \<in> set (listedEntries E cfg). \<forall>m. entryMethod E (cpgH (b_g B)) name = Ok m \<longrightarrow> m \<noteq> null \<longrightarrow> m \<in> M \<longrightarrow>
       isEntryOf st m))"
proof -
  from d obtain main st1 st2 where a: "addMain E cfg B = Some (main, st1)" and l: "addListed E cfg main st1 = Some st2"
    and c: "addCallbacks E cfg st2 = Some st" by (auto simp: discoverEntries_def bind_eq_Some_conv split: option.splits)
  note A = addMain_ok[OF inv a]
  let ?ns = "filter (\<lambda>e. \<not> (\<not> enabled cfg \<and> main \<noteq> null \<and> getName (cpgOf (b_g (fst st1)) main) = e)) (listedEntries E cfg)"
  have L: "discInv E M {} st2 \<and> entriesGrow E st1 st2 \<and>
    (enabled cfg \<longrightarrow> (\<forall>name \<in> set (listedEntries E cfg). \<forall>m. entryMethod E (cpgH (b_g (fst st1))) name = Ok m \<longrightarrow> m \<noteq> null \<longrightarrow> m \<in> M \<longrightarrow>
       isEntryOf st2 m))"
  proof (cases "useListed cfg (listedEntries E cfg)")
    case True
    then have f: "foldM (addListedEntry E) ?ns st1 = Some st2" using l by (simp add: addListed_def Let_def)
    have b1: "methodsBelow E (nextCpg (fst st1))"
      using A b by (auto simp: methodsBelow_def entriesGrow_def intro: less_le_trans)
    have "enabled cfg \<Longrightarrow> set ?ns = set (listedEntries E cfg)" by auto
    with listed_ok[OF _ f b1] A show ?thesis by auto
  next
    case False
    then have "st2 = st1" using l by (simp add: addListed_def Let_def)
    moreover have "enabled cfg \<Longrightarrow> listedEntries E cfg = []" using False by (auto simp: useListed_def)
    ultimately show ?thesis using A entriesGrow_refl by auto
  qed
  have C: "discInv E M {} st \<and> entriesGrow E st2 st" using callbacks_ok[OF _ c] L by blast
  have "entriesGrow E (B, []) st1" using A by blast
  from entryMethod_agree[OF grow_agree[OF this]] b
  have "entryMethod E (cpgH (b_g (fst st1))) name = entryMethod E (cpgH (b_g B)) name" for name by simp
  with A L C isEntryOf_grow[of E st2 st] show ?thesis by (metis entriesGrow_trans)
qed


subsection \<open>The whole construction\<close>

lemma longestCode_in: "fst (longestCode H cand ms b) = fst b \<or> fst (longestCode H cand ms b) \<in> set ms"
proof (induction ms arbitrary: b)
  case (Cons m ms)
  obtain p l where "b = (p, l)" by fastforce
  with Cons[of "(p, l)"] Cons[of "(m, length (getCode (H m)))"] show ?case by (auto simp: Let_def)
qed simp

lemma astOnly_in: "astOnly H ms cs = null \<or> astOnly H ms cs \<in> set ms"
proof (induction cs)
  case (Cons c cs)
  with longestCode_in[of H c ms "(null, 0)"] show ?case by (auto simp: Let_def)
qed simp

lemma findMethod_in: "findMethod H C name = null \<or> findMethod H C name \<in> methodNodes C"
proof (cases "type2Nodes C ''Method''")
  case (Some ms)
  show ?thesis
  proof (cases "List.find (\<lambda>(cand, m). fullMethod H C cand m) (concat (map (\<lambda>cand. map (Pair cand) ms) (allNameCandidates name)))")
    case None
    with Some astOnly_in[of H ms "allNameCandidates name"] show ?thesis by (simp add: findMethod_def methodNodes_def)
  next
    case (Some x)
    then have "x \<in> set (concat (map (\<lambda>cand. map (Pair cand) ms) (allNameCandidates name)))"
      unfolding find_Some_iff by (metis nth_mem)
    with Some \<open>type2Nodes C ''Method'' = Some ms\<close> show ?thesis by (auto simp: findMethod_def methodNodes_def)
  qed
qed (simp add: findMethod_def)

lemma firstMethod_in: "firstMethod H C ns = null \<or> firstMethod H C ns \<in> methodNodes C"
proof (induction ns)
  case (Cons n ns)
  with findMethod_in[of H C n] show ?case by (auto simp: Let_def)
qed simp

lemma matchDebug_in: "matchDebug parse nrm H C f ms = Ok m \<Longrightarrow> m = null \<or> m \<in> set ms"
  by (induction ms) (auto split: if_splits result.splits option.splits)

lemma entryMethod_in: "entryMethod E H name = Ok m \<Longrightarrow> m = null \<or> m \<in> methodNodes (be_cpg E)"
proof -
  assume e: "entryMethod E H name = Ok m"
  have "set (cpg_nodesByType (be_cpg E) ''Method'') = methodNodes (be_cpg E)"
    by (auto simp: cpg_nodesByType_def methodNodes_def split: option.splits)
  then have "debugMethod E H d = Ok m \<Longrightarrow> m = null \<or> m \<in> methodNodes (be_cpg E)" for d
    using matchDebug_in findMethod_in by (auto simp: debugMethod_def findMethodByLLVMFunction_def split: option.splits if_splits) blast+
  then show ?thesis using e firstMethod_in[of H "be_cpg E" "entryNames E name"]
    by (auto simp: entryMethod_def Let_def split: if_splits)
qed

text \<open>The later phases keep the entries.\<close>

lemma createFunction_entries:
  assumes "createFunction E n B = Some (f, B')"
  shows "entryFunctions B' = entryFunctions B"
proof (cases "getFunctionByCCPGNode (b_g B) n = null")
  case True
  with assms obtain g0 B1 vis g where
    w: "worklist (fnVisit E f) [n] (B\<lparr>b_g := g0\<rparr>, [n]) = Some (B1, vis)" and B': "B' = B1\<lparr>b_g := g\<rparr>"
    by (auto simp: createFunction_def split: option.splits result.splits prod.splits)
  have "entryFunctions (fst (B1, vis)) = entryFunctions B"
    by (rule worklist_invariant[OF w, where I = "\<lambda>st q. entryFunctions (fst st) = entryFunctions B"])
      (auto simp: fnVisit_def findChildren_def Let_def split: option.splits prod.splits)
  then show ?thesis by (simp add: B')
qed (use assms in \<open>simp add: createFunction_def\<close>)

lemma findCallee_entries: "findCalleeByCaller E n B = Some (c, B') \<Longrightarrow> entryFunctions B' = entryFunctions B"
  by (auto simp: findCalleeByCaller_def split: option.splits result.splits prod.splits)

lemma expandCall_entries:
  assumes "expandCall E n st = Some st'"
  shows "entryFunctions (fst st') = entryFunctions (fst st)"
proof -
  obtain B new where st: "st = (B, new)" by fastforce
  show ?thesis
  proof (cases "hasCallEdge (b_g B) n = None")
    case True
    with assms obtain f B1 where c: "createFunctionByCaller E n B = Some (f, B1)" and st': "fst st' = B1"
      by (auto simp: expandCall_def st split: option.splits)
    from c obtain d B2 where d: "findCalleeByCaller E n B = Some (d, B2)"
      by (auto simp: createFunctionByCaller_def split: option.splits)
    with c have "entryFunctions B1 = entryFunctions B2"
      by (auto simp: createFunctionByCaller_def split: option.splits if_splits dest!: createFunction_entries)
    with findCallee_entries[OF d] show ?thesis by (simp add: st st')
  qed (use assms in \<open>auto simp: expandCall_def st\<close>)
qed

lemma expandFork_entries:
  assumes "expandFork E n st = Some st'"
  shows "entryFunctions (fst st') = entryFunctions (fst st)"
  using assms by (cases st)
    (auto simp: expandFork_def split: option.splits result.splits if_splits prod.splits dest!: createFunction_entries)

lemma expandAll_entries:
  assumes "expandAll E q B = Some B'"
  shows "entryFunctions B' = entryFunctions B"
proof -
  from assms obtain st where w: "worklist (expandVisit E) q (B, []) = Some st" and B': "B' = fst st" by (auto simp: expandAll_def)
  have "entryFunctions (fst st) = entryFunctions B"
  proof (rule worklist_invariant[OF w, where I = "\<lambda>st q. entryFunctions (fst st) = entryFunctions B"])
    fix s f r new s'
    assume I: "entryFunctions (fst s) = entryFunctions B" and v: "expandVisit E f s = Some (new, s')"
    obtain C vis where s: "s = (C, vis)" by fastforce
    show "entryFunctions (fst s') = entryFunctions B"
    proof (cases "f \<in> set vis")
      case True
      with v I show ?thesis by (simp add: expandVisit_def s)
    next
      case False
      with v obtain s1 s2 C3 q3 where
        1: "foldM (expandCall E) (fn_typeToNodeSet (funH (b_g C) f) OBJECT_INIT) (C, []) = Some s1" and
        2: "foldM (expandCall E) (fn_typeToNodeSet (funH (b_g (fst s1)) f) OTHER_CALL) s1 = Some s2" and
        3: "foldM (expandFork E) (fn_typeToNodeSet (funH (b_g (fst s2)) f) FORK) s2 = Some (C3, q3)" and s': "fst s' = C3"
        by (auto simp: expandVisit_def s split: option.splits)
      let ?I = "\<lambda>st. entryFunctions (fst st) = entryFunctions B"
      have "?I s1" by (rule foldM_invariant[OF 1, of ?I]) (use I s expandCall_entries in auto)
      then have "?I s2" by (rule foldM_invariant[OF 2, of ?I]) (use expandCall_entries in auto)
      then have "?I (C3, q3)" by (rule foldM_invariant[OF 3, of ?I]) (use expandFork_entries in auto)
      then show ?thesis using s' by simp
    qed
  qed simp
  then show ?thesis by (simp add: B')
qed

text \<open>Changes of a function's marks.\<close>

lemma run_ok_marks:
  assumes ok: "run_ok E B" and k: "\<And>f. \<exists>a b c. h f = (funH (b_g B) f)\<lparr>forkPotential := a, acquirePotential := b, releasePotential := c\<rparr>"
  shows "run_ok E (B\<lparr>b_g := (b_g B)\<lparr>funH := h\<rparr>\<rparr>) \<and> kept (b_g B) ((b_g B)\<lparr>funH := h\<rparr>)"
proof -
  let ?g = "(b_g B)\<lparr>funH := h\<rparr>"
  have same: "fn_funcNode (h f) = fn_funcNode (funH (b_g B) f) \<and> fn_nodes (h f) = fn_nodes (funH (b_g B) f) \<and>
      fn_edges (h f) = fn_edges (funH (b_g B) f) \<and> fn_typeToNodeSet (h f) = fn_typeToNodeSet (funH (b_g B) f) \<and>
      fn_contexts (h f) = fn_contexts (funH (b_g B) f)" for f
    using k[of f] by auto
  have S: "skel ?g = skel (b_g B)" using same by (simp add: skel_def)
  have gr: "grows (b_g B) ?g" by (rule grows_skel[OF S[symmetric]])
  have gok: "ccpg_ok ?g" using ok ccpg_ok_skel[OF S] by (simp add: run_ok_def builder_ok_def)
  have "builder_ok E (B\<lparr>b_g := ?g\<rparr>)"
    by (rule builder_ok_graph[OF _ gok gr]) (use ok same in \<open>auto simp: run_ok_def\<close>)
  moreover have "contexts_empty ?g" using ok same by (simp add: run_ok_def contexts_empty_def)
  moreover have "calls_ok {} ?g" using ok same by (simp add: run_ok_def calls_ok_def callsOf_def)
  ultimately show ?thesis using gr same by (simp add: run_ok_def kept_def)
qed

lemma labelFork_ok:
  assumes ok: "run_ok E B" and l: "labelForkPotential (b_g B) = Some g"
  shows "run_ok E (B\<lparr>b_g := g\<rparr>) \<and> kept (b_g B) g"
proof -
  let ?q = "filter (\<lambda>f. fn_typeToNodeSet (funH (b_g B) f) FORK \<noteq> []) (g_functions (b_g B))"
  have w: "worklist forkVisit ?q (b_g B) = Some g" using l by (simp add: labelForkPotential_def)
  let ?I = "\<lambda>g q. \<exists>m. g = (b_g B)\<lparr>funH := (\<lambda>f. (funH (b_g B) f)\<lparr>forkPotential := m f\<rparr>)\<rparr>"
  have "?I g []"
  proof (rule worklist_invariant[OF w, where I = ?I])
    have "(b_g B) = (b_g B)\<lparr>funH := (\<lambda>f. (funH (b_g B) f)\<lparr>forkPotential := forkPotential (funH (b_g B) f)\<rparr>)\<rparr>" by simp
    then show "?I (b_g B) ?q" by (rule exI[of _ "\<lambda>f. forkPotential (funH (b_g B) f)"])
  next
    fix s f r new s' assume "?I s (f # r)" and v: "forkVisit f s = Some (new, s')"
    then obtain m where s: "s = (b_g B)\<lparr>funH := (\<lambda>f. (funH (b_g B) f)\<lparr>forkPotential := m f\<rparr>)\<rparr>" by blast
    show "?I s' (r @ new)"
    proof (cases "forkPotential (funH s f)")
      case True
      with v s show ?thesis by (auto simp: forkVisit_def)
    next
      case False
      then have "s' = updFun f (\<lambda>fn. fn\<lparr>forkPotential := True\<rparr>) s" using v by (simp add: forkVisit_def Let_def)
      then have "s' = (b_g B)\<lparr>funH := (\<lambda>k. (funH (b_g B) k)\<lparr>forkPotential := (m(f := True)) k\<rparr>)\<rparr>"
        by (auto simp: s updFun_def fun_eq_iff)
      then show ?thesis by blast
    qed
  qed
  then obtain m where g: "g = (b_g B)\<lparr>funH := (\<lambda>f. (funH (b_g B) f)\<lparr>forkPotential := m f\<rparr>)\<rparr>" by blast
  have "\<exists>a b c. (funH (b_g B) f)\<lparr>forkPotential := m f\<rparr> = (funH (b_g B) f)\<lparr>forkPotential := a, acquirePotential := b, releasePotential := c\<rparr>" for f
    by (intro exI[of _ "m f"] exI[of _ "acquirePotential (funH (b_g B) f)"] exI[of _ "releasePotential (funH (b_g B) f)"]) simp
  from run_ok_marks[OF ok this] show ?thesis by (simp add: g)
qed

lemma labelFork_functions:
  assumes "labelForkPotential g = Some g'"
  shows "g_functions g' = g_functions g"
  using assms unfolding labelForkPotential_def
  by (rule worklist_invariant[where I = "\<lambda>h q. g_functions h = g_functions g"])
    (auto simp: forkVisit_def Let_def updFun_def split: if_splits)

lemma labelAPI_ok:
  assumes "run_ok E B"
  shows "run_ok E (B\<lparr>b_g := labelAPI (b_g B)\<rparr>) \<and> kept (b_g B) (labelAPI (b_g B))"
proof -
  let ?h = "\<lambda>f. if f \<in> set (g_functions (b_g B)) then labelAPI_fun (funH (b_g B) f) else funH (b_g B) f"
  have "\<exists>a b c. ?h f = (funH (b_g B) f)\<lparr>forkPotential := a, acquirePotential := b, releasePotential := c\<rparr>" for f
    by (intro exI[of _ "forkPotential (?h f)"] exI[of _ "acquirePotential (?h f)"] exI[of _ "releasePotential (?h f)"])
      (simp add: labelAPI_fun_def Let_def)
  from run_ok_marks[OF assms this] show ?thesis by (simp add: labelAPI_def)
qed


lemma methodOf_grows:
  assumes "grows g g'" "ccpg_ok g" "f \<in> set (g_functions g)"
  shows "methodOf g' f = methodOf g f"
proof -
  have f: "f < nextPtr g" "fn_funcNode (funH g f) \<in> set (g_nodes g)" using ccpg_okD(7)[OF assms(2,3)] by simp_all
  then have "fn_funcNode (funH g' f) = fn_funcNode (funH g f)" "fn_funcNode (funH g f) < nextPtr g"
    using assms(1) ccpg_okD(3)[OF assms(2)] by (auto simp: grows_def)
  then show ?thesis using assms(1) node_key_eq by (simp add: methodOf_def grows_def)
qed

lemma treeOk_marks:
  assumes "treeOk E B T" "run_ok E B'" "kept (b_g B) (b_g B')"
  shows "treeOk E B' T"
  using assms threadOk_kept[OF _ assms(3), of E _ B] by (auto simp: treeOk_def run_ok_def)

lemma treeOk_joins:
  assumes ok: "treeOk E B T" and h: "handleJoins E g T = Some T'"
  shows "treeOk E B T' \<and> threads T' = threads T \<and> (\<forall>t. threadMainFunction (thr T' t) = threadMainFunction (thr T t))"
proof -
  from h obtain M where T': "T' = T\<lparr>threadH := (\<lambda>t. case supplyJoin E g T M t of
      Some j \<Rightarrow> (thr T t)\<lparr>joinNode := j\<rparr> | None \<Rightarrow> thr T t)\<rparr>"
    by (auto simp: handleJoins_def Let_def split: option.splits)
  have f: "parent (thr T' t) = parent (thr T t)" "threadOk E k (thr T' t) = threadOk E k (thr T t)" "th_id (thr T' t) = th_id (thr T t)"
    "threadMainFunction (thr T' t) = threadMainFunction (thr T t)" "forkNode (thr T' t) = forkNode (thr T t)" for t k
    by (auto simp: T' threadOk_def split: option.split)
  have ts: "threads T' = threads T" by (simp add: T')
  have "tree_wf T' = tree_wf T" by (simp add: tree_wf_def f)
  with ok show ?thesis by (simp add: treeOk_def f ts)
qed

text \<open>A builder before anything is built, for a program whose methods are not part of other methods' code.\<close>

definition startOk :: "build_env \<Rightarrow> builder \<Rightarrow> bool" where
  "startOk E B \<longleftrightarrow> run_ok E B \<and> g_nodes (b_g B) = [] \<and> entryFunctions B = [] \<and> fresh E B \<and> methodsBelow E (nextCpg B) \<and>
     (\<forall>m \<in> methodNodes (be_cpg E) \<inter> cfgTargets E. \<not> isCCPGNode (be_util E) (cpgH (b_g B) m))"

lemma buildGraph_ok:
  assumes start: "startOk E B" and b: "buildGraph E cfg B = Some S"
  shows "treeOk E (ts_B S) (ts_T S) \<and>
    (enabled cfg \<longrightarrow> (\<forall>name \<in> set (listedEntries E cfg). \<forall>m. entryMethod E (cpgH (b_g B)) name = Ok m \<longrightarrow> m \<noteq> null \<longrightarrow>
       (\<exists>t \<in> set (threads (ts_T S)). methodOf (b_g (ts_B S)) (threadMainFunction (thr (ts_T S) t)) = m)))"
proof -
  let ?M = "methodNodes (be_cpg E)"
  from b obtain B1 q B2 g S1 T where
    d: "discoverEntries E cfg B = Some (B1, q)" and e: "expandAll E q B1 = Some B2" and l: "labelForkPotential (b_g B2) = Some g" and
    t: "buildTree E cfg \<lparr>ts_B = B2\<lparr>b_g := g\<rparr>, ts_T = emptyTree, ts_next = 1\<rparr> = Some S1" and
    j: "handleJoins E (labelAPI (b_g (ts_B S1))) (ts_T S1) = Some T" and
    S: "S = S1\<lparr>ts_B := (ts_B S1)\<lparr>b_g := labelAPI (b_g (ts_B S1))\<rparr>, ts_T := T\<rparr>"
    by (auto simp: buildGraph_def Let_def split: option.splits prod.splits)
  have "discInv E ?M {} (B, [])" using start by (simp add: startOk_def discInv_def)
  note D = discover_ok[OF this d] 
  have inv: "discInv E ?M {} (B1, q)" using D start by (simp add: startOk_def)
  note I = discInvD[OF inv]
  have q: "set q \<subseteq> set (g_functions (b_g B1))" using I(6,7) by auto
  note X = expandAll_ok[OF I(1) q e]
  have en: "entryFunctions B2 = entryFunctions B1" by (rule expandAll_entries[OF e])
  have r2: "run_ok E B2" using X by blast
  have gok2: "ccpg_ok (b_g B2)" using r2 by (simp add: run_ok_def builder_ok_def)
  note F = labelFork_ok[OF r2 l]
  let ?S0 = "\<lparr>ts_B = B2\<lparr>b_g := g\<rparr>, ts_T = emptyTree, ts_next = 1\<rparr>"
  have e2: "entryFunctions (ts_B ?S0) = entryFunctions B1" using en by simp
  have sub2: "set (entryFunctions B1) \<subseteq> set (g_functions (b_g B2))" using I(7) X grows_functions[of "b_g B1" "b_g B2"] by auto
  have sub: "set (entryFunctions B1) \<subseteq> set (g_functions g)" using sub2 kept_functions[of "b_g B2" g] F by blast
  have "treeOk E (ts_B S1) (ts_T S1) \<and> kept g (b_g (ts_B S1)) \<and>
    length (threads (ts_T S1)) \<le> length (entryFunctions (ts_B ?S0)) + 100 \<and>
    (length (entryFunctions (ts_B ?S0)) > 1 \<or> enabled cfg \<longrightarrow>
      set (entryFunctions (ts_B ?S0)) \<subseteq> (\<lambda>t. threadMainFunction (thr (ts_T S1) t)) ` set (threads (ts_T S1)))"
    using buildTree_ok[of E ?S0 cfg S1] F I(5) sub e2 t by (simp add: emptyTree_def newThread_def)
  then have B: "treeOk E (ts_B S1) (ts_T S1)" "kept g (b_g (ts_B S1))"
    "enabled cfg \<Longrightarrow> set (entryFunctions B1) \<subseteq> (\<lambda>t. threadMainFunction (thr (ts_T S1) t)) ` set (threads (ts_T S1))"
    using e2 by auto
  have r3: "run_ok E (ts_B S1)" using B(1) by (simp add: treeOk_def)
  note L = labelAPI_ok[OF r3]
  let ?g = "labelAPI (b_g (ts_B S1))"
  have "treeOk E ((ts_B S1)\<lparr>b_g := ?g\<rparr>) (ts_T S1)" using treeOk_marks[OF B(1)] L by simp
  note J = treeOk_joins[OF this j]
  have "\<exists>t \<in> set (threads T). methodOf ?g (threadMainFunction (thr T t)) = m"
    if cfg: "enabled cfg" and n: "name \<in> set (listedEntries E cfg)" and m: "entryMethod E (cpgH (b_g B)) name = Ok m" "m \<noteq> null" for name m
  proof -
    have "isEntryOf (B1, q) m" using D start cfg n m entryMethod_in[OF m(1)] by (auto simp: startOk_def)
    then obtain f where f: "f \<in> set (entryFunctions B1)" "methodOf (b_g B1) f = m" by (auto simp: isEntryOf_def)
    have "methodOf (b_g B2) f = m" using methodOf_grows[OF _ I(3) I(7)[OF f(1)]] X f(2) by simp
    moreover have f2: "f \<in> set (g_functions (b_g B2))" using sub2 f(1) by blast
    moreover have k: "kept (b_g B2) ?g" using kept_trans[OF conjunct2[OF F] kept_trans[OF B(2) conjunct2[OF L]]] .
    ultimately have mf: "methodOf ?g f = m" using methodOf_kept[OF k gok2 f2] by simp
    from B(3)[OF cfg] f(1) obtain t where "t \<in> set (threads (ts_T S1))" "threadMainFunction (thr (ts_T S1) t) = f" by auto
    with J mf show ?thesis by auto
  qed
  then show ?thesis using J by (simp add: S)
qed

end
