(* ===== verification/ScanFacts.thy ===== *)
theory ScanFacts
  imports EntryFacts
begin

text \<open>
  What the harvest of the callback tables finds in a module, and which method the search for
  the main function takes.
\<close>

subsection \<open>The tables of a module\<close>

definition tableConst :: "llvm_module \<Rightarrow> ptr \<Rightarrow> bool" where
  "tableConst M c \<longleftrightarrow> (\<exists>t. (t, Some c) \<in> set (m_globals M) \<and> isCallbackTable t)"

lemma harvestTables_exact:
  assumes "\<And>c. tableConst M c \<Longrightarrow> shallow M 9 c"
  shows "set (harvestTables M) = {d. \<exists>c v. tableConst M c \<and> (opOf M)\<^sup>*\<^sup>* c v \<and> m_const M v = FunctionConst d}"
proof -
  let ?under = "\<lambda>c. {d. \<exists>v. (opOf M)\<^sup>*\<^sup>* c v \<and> m_const M v = FunctionConst d}"
  have "set (foldl (\<lambda>out (t, init). case init of None \<Rightarrow> out
      | Some c \<Rightarrow> if isCallbackTable t then fst (p8aCollectFns M 9 (out, []) c) else out) out gs) =
    set out \<union> (\<Union>c \<in> {c. \<exists>t. (t, Some c) \<in> set gs \<and> isCallbackTable t}. ?under c)"
    if "set gs \<subseteq> set (m_globals M)" for gs out
    using that
  proof (induction gs arbitrary: out)
    case (Cons x gs)
    obtain t i where x: "x = (t, i)" by fastforce
    show ?case
    proof (cases "\<exists>c. i = Some c \<and> isCallbackTable t")
      case True
      then obtain c where c: "i = Some c" "isCallbackTable t" by blast
      then have "shallow M 9 c" using assms Cons.prems x by (auto simp: tableConst_def)
      note P = p8aCollectFns_exact[OF this]
      have "{c. \<exists>t. (t, Some c) \<in> set (x # gs) \<and> isCallbackTable t} =
          insert c {c. \<exists>t. (t, Some c) \<in> set gs \<and> isCallbackTable t}" using c x by auto
      then show ?thesis using Cons.IH[of "fst (p8aCollectFns M 9 (out, []) c)"] Cons.prems P[of out] c x by auto
    next
      case False
      then have "{c. \<exists>t. (t, Some c) \<in> set (x # gs) \<and> isCallbackTable t} = {c. \<exists>t. (t, Some c) \<in> set gs \<and> isCallbackTable t}"
        using x by auto
      then show ?thesis using Cons.IH[of out] Cons.prems False x by (cases i) auto
    qed
  qed simp
  from this[of "m_globals M" "[]"] show ?thesis by (auto simp: harvestTables_def tableConst_def)
qed

subsection \<open>The main function\<close>

definition wanted :: "cpg_heap \<Rightarrow> string \<Rightarrow> ptr \<Rightarrow> bool" where
  "wanted H name m \<longleftrightarrow> getName (H m) = name \<or> getName (H m) \<in> set (allNameCandidates name)"

text \<open>The distance of a wanted method whose line is known.\<close>

definition lineGap :: "cpg_heap \<Rightarrow> string \<Rightarrow> int \<Rightarrow> ptr \<Rightarrow> int option" where
  "lineGap H name line m =
     (case getLineNumber (H m) of Ok l \<Rightarrow> if wanted H name m \<and> l \<noteq> -1 then Some \<bar>l - line\<bar> else None | Throw \<Rightarrow> None)"

definition mainHit :: "cpg_heap \<Rightarrow> string \<Rightarrow> int \<Rightarrow> ptr \<Rightarrow> bool" where
  "mainHit H name line m = (case lineGap H name line m of Some d \<Rightarrow> d \<le> 3 | None \<Rightarrow> False)"

lemma mainScan_Cons: "mainScan H name line (m # ms) best delta =
    (if getLineNumber (H m) = Throw then Throw else if mainHit H name line m then Ok m
     else case lineGap H name line m of
       Some d \<Rightarrow> if d < delta then mainScan H name line ms m d else mainScan H name line ms best delta
     | None \<Rightarrow> mainScan H name line ms (if wanted H name m \<and> best = null then m else best) delta)"
  by (auto simp: mainHit_def lineGap_def wanted_def split: result.splits)

declare mainScan.simps(2) [simp del]

lemma mainScan_throws: "mainScan H name line ms best delta = Throw \<longleftrightarrow>
    (\<exists>m \<in> set (takeWhile (\<lambda>m. \<not> mainHit H name line m) ms). getLineNumber (H m) = Throw)"
proof (induction ms arbitrary: best delta)
  case (Cons m ms)
  have "getLineNumber (H m) = Throw \<Longrightarrow> \<not> mainHit H name line m" by (simp add: mainHit_def lineGap_def)
  with Cons show ?case by (auto simp: mainScan_Cons split: option.split)
qed simp

lemma mainScan_hit: "mainScan H name line ms best delta = Ok r \<Longrightarrow>
    List.find (mainHit H name line) ms = Some m \<Longrightarrow> r = m"
proof (induction ms arbitrary: best delta)
  case (Cons x ms)
  have "getLineNumber (H x) = Throw \<Longrightarrow> \<not> mainHit H name line x" by (simp add: mainHit_def lineGap_def)
  with Cons show ?case by (auto simp: mainScan_Cons split: option.splits if_splits)
qed simp

lemma mainScan_best:
  assumes "mainScan H name line ms best delta = Ok r" "List.find (mainHit H name line) ms = None" "null \<notin> set ms"
  shows "(\<exists>d < delta. r \<in> set ms \<and> lineGap H name line r = Some d \<and>
      (\<forall>m \<in> set ms. \<forall>e. lineGap H name line m = Some e \<longrightarrow> d \<le> e)) \<or>
    (\<forall>m \<in> set ms. \<forall>e. lineGap H name line m = Some e \<longrightarrow> delta \<le> e) \<and>
      (if best \<noteq> null then r = best
       else r = (case List.find (\<lambda>m. wanted H name m \<and> lineGap H name line m = None) ms of Some m \<Rightarrow> m | None \<Rightarrow> null))"
  using assms
proof (induction ms arbitrary: best delta)
  case (Cons x ms)
  from Cons.prems have nt: "getLineNumber (H x) \<noteq> Throw" "\<not> mainHit H name line x" "List.find (mainHit H name line) ms = None"
      "null \<notin> set ms" "x \<noteq> null"
    by (auto simp: mainScan_Cons split: if_splits)
  show ?case
  proof (cases "lineGap H name line x")
    case None
    with Cons.prems(1) nt have "mainScan H name line ms (if wanted H name x \<and> best = null then x else best) delta = Ok r"
      by (simp add: mainScan_Cons)
    from Cons.IH[OF this nt(3,4)] None nt(5) show ?thesis by (auto split: if_splits)
  next
    case (Some d)
    show ?thesis
    proof (cases "d < delta")
      case True
      with Cons.prems(1) nt Some have "mainScan H name line ms x d = Ok r" by (simp add: mainScan_Cons)
      from Cons.IH[OF this nt(3,4)] show ?thesis
      proof (elim disjE)
        assume "\<exists>e < d. r \<in> set ms \<and> lineGap H name line r = Some e \<and> (\<forall>m \<in> set ms. \<forall>f. lineGap H name line m = Some f \<longrightarrow> e \<le> f)"
        then show ?thesis using True Some by (intro disjI1) force
      next
        assume a: "(\<forall>m \<in> set ms. \<forall>e. lineGap H name line m = Some e \<longrightarrow> d \<le> e) \<and> (if x \<noteq> null then r = x
          else r = (case List.find (\<lambda>m. wanted H name m \<and> lineGap H name line m = None) ms of Some m \<Rightarrow> m | None \<Rightarrow> null))"
        with a True Some nt(5) show ?thesis by (intro disjI1) force
      qed
    next
      case False
      with Cons.prems(1) nt Some have "mainScan H name line ms best delta = Ok r" by (simp add: mainScan_Cons)
      from Cons.IH[OF this nt(3,4)] False Some show ?thesis by (auto split: if_splits)
    qed
  qed
qed simp

end
