(* ===== verification/ThreadProps.thy ===== *)
theory ThreadProps
  imports ScanFacts BuildProps
begin

text \<open>
  Properties of the discovery of the entries and of the construction of the threads
  (src/CCPG/CCPG.cpp, src/CCPG/ThreadCreationTree.cpp), each with a witness on a closed
  input where it has hypotheses.
\<close>

subsection \<open>The small program as a configured one\<close>

definition rootConfig :: "string list \<Rightarrow> config" where
  "rootConfig rs = \<lparr>enabled = True, selfRace = False, roots = rs, cores = normalizeCore ` set rs\<rparr>"

text \<open>No code node of the program stands for a callee or an entry other than its method.\<close>

lemma tiny_methods: "methodNodes (be_cpg tinyEnv) = {1}"
  by (simp add: methodNodes_def tinyEnv_def tinyCpg_def)

lemma tiny_findMethod: "findMethod H (be_cpg tinyEnv) name \<in> {null, 1}"
  using findMethod_in[of H "be_cpg tinyEnv" name] by (auto simp: tiny_methods)

lemma tiny_getArgument: "getArgument H (be_cpg tinyEnv) n i = Ok null"
  by (simp add: getArgument_def tinyEnv_def tinyCpg_def)

lemma tiny_fields: "be_callees tinyEnv ci = []" "be_env tinyEnv v = None"
  by (simp_all add: tinyEnv_def)

lemma tiny_call: "\<exists>m. findMethod_call tinyHeap (be_cpg tinyEnv) n = Ok m \<and> m \<in> {null, 1}"
proof -
  have "getProperty (tinyHeap n) ''METHOD_FULL_NAME'' = []"
    by (simp add: getProperty_def tinyHeap_def sampleMethod_def mkNode_def)
  moreover have "calleeByEdge tinyHeap (be_cpg tinyEnv) n = null"
    by (simp add: calleeByEdge_def tinyEnv_def tinyCpg_def)
  ultimately show ?thesis using tiny_findMethod by (auto simp: findMethod_call_def Let_def)
qed

lemma tiny_resolves: "resolves_in tinyEnv tinyHeap {1, 2}"
  unfolding resolves_in_def
proof (intro allI impI conjI)
  fix g :: ccpg and n assume H: "cpgH g = tinyHeap"
  show "\<exists>m. calleeMethod tinyEnv g n = Ok m \<and> m \<in> insert null {1, 2}"
    using tiny_call[of "nd_cpg (nodeH g n)"] tiny_findMethod[of tinyHeap "''muxer_thread''"]
    by (auto simp: calleeMethod_def Let_def H tiny_getArgument tiny_fields split: option.split)
  have "firstEntryArg tinyEnv tinyHeap c is = Ok null" for c "is"
    by (induction "is") (auto simp: tiny_getArgument findThreadEntryByArg_def)
  then show "\<exists>m. findThreadEntryInCPG tinyEnv g n = Ok m \<and> m \<in> insert null {1, 2}"
    by (simp add: findThreadEntryInCPG_def Let_def H tiny_fields)
qed

lemma tiny_readable: "readable tinyEnv tinyHeap {1, 2}"
  using tiny_cfg(2) tiny_lines tiny_resolves by (simp add: readable_def)

subsection \<open>A program without calls\<close>

text \<open>When the entry's function calls nothing, the phases after the discovery leave the graph alone.\<close>

lemma quiet_build:
  assumes ok: "run_ok E B" and f: "f \<in> set (g_functions (b_g B))" "set (g_functions (b_g B)) = {f}" "fn_funcNode (funH (b_g B) f) = p"
    and q: "\<And>ty. ty \<in> {OBJECT_INIT, OTHER_CALL, FORK} \<Longrightarrow> fn_typeToNodeSet (funH (b_g B) f) ty = []"
    and en: "entryFunctions B = [f]" "enabled cfg" and typed: "\<And>n. n \<in> set (g_nodes (b_g B)) \<Longrightarrow> nd_type (nodeH (b_g B) n) \<notin> {FORK, JOIN}"
  shows "expandAll E [f] B = Some B \<and> labelForkPotential (b_g B) = Some (b_g B) \<and>
    (\<exists>S. buildTree E cfg \<lparr>ts_B = B, ts_T = emptyTree, ts_next = 1\<rparr> = Some S \<and> ts_B S = B \<and>
      (\<exists>T. handleJoins E (labelAPI (b_g B)) (ts_T S) = Some T))"
proof -
  have gok: "ccpg_ok (b_g B)" using ok by (simp add: run_ok_def builder_ok_def)
  have F: "getFunctionByCCPGNode (b_g B) p = f" by (rule getFunction_of[OF gok f(1,3)])
  have f0: "f \<noteq> null" using ccpg_okD(7)[OF gok f(1)] by simp
  have e: "expandAll E [f] B = Some B" using q by (simp add: expandAll_def worklist_Cons expandVisit_def)
  have l: "labelForkPotential (b_g B) = Some (b_g B)" using f(2) q by (simp add: labelForkPotential_def filter_empty_conv)
  let ?t0 = "(newThread 0 p null)\<lparr>threadMainFunction := f\<rparr>"
  let ?t1 = "thread_addFunction (funH (b_g B) f) f ?t0"
  have w: "worklist (threadVisit E) [f] (B, ?t0, []) = Some (B, ?t1, [f])"
    using q f0 by (simp add: worklist_Cons threadVisit_def)
  let ?S = "\<lparr>ts_B = B, ts_T = emptyTree, ts_next = 1\<rparr>"
  let ?th = "collectNodes (b_g B) ?t1"
  let ?T = "addThread 1 (updThread 1 (\<lambda>_. ?th) emptyTree)"
  have r: "createThread E p null ?S = Some (1, \<lparr>ts_B = B, ts_T = ?T, ts_next = 2\<rparr>)"
    using w F f0 by (simp add: createThread_def runThread_def createFunction_def emptyTree_def Let_def)
  have ex: "functionExact E (b_g B) f" using ok f(1) by (simp add: run_ok_def builder_ok_def)
  have nf: "nd_type (nodeH (b_g B) n) \<noteq> FORK" if "n \<in> set (fn_nodes (funH (b_g B) f))" for n
    using ex typed[of n] that by (auto simp: functionExact_def Let_def)
  then have "th_typeToNodeSet ?th FORK = []"
    by (simp add: collectNodes_eq Let_def thread_addFunction_def newThread_def filter_False)
  then have "forksOf (updThread 1 (entryFlags a b c) ?T) 1 = []" for a b c
    by (simp add: forksOf_def updThread_def addThread_def entryFlags_def)
  then have "\<exists>T. foldM (buildEntry E True True) [f] (?S, []) = Some (\<lparr>ts_B = B, ts_T = T, ts_next = 2\<rparr>, [])"
    using r f(3) by (simp add: buildEntry_def Let_def)
  moreover have "forkRounds E k [] S = Some S" for k S by (cases k) simp_all
  ultimately obtain T where T: "buildTree E cfg ?S = Some \<lparr>ts_B = B, ts_T = T, ts_next = 2\<rparr>"
    using en by (auto simp: buildTree_def Let_def)
  have "n \<notin> set (g_typeToNodeSet (b_g B) JOIN)" for n using ccpg_okD(6)[OF gok, of JOIN] typed[of n] by auto
  then have "g_typeToNodeSet (b_g B) JOIN = []" by (meson list.set_sel(1))
  then have "getNodesByType (labelAPI (b_g B)) JOIN = []" by (simp add: getNodesByType_def labelAPI_def)
  then have "\<exists>T'. handleJoins E (labelAPI (b_g B)) T = Some T'" by (simp add: handleJoins_def Let_def)
  with e l T show ?thesis by auto
qed

text \<open>The small program without its second node.\<close>

definition loneEnv :: build_env where
  "loneEnv = tinyEnv\<lparr>be_cpg := tinyCpg\<lparr>outCFGEdges := (\<lambda>_. [])\<rparr>\<rparr>"

lemma lone_targets: "cfgTargets loneEnv = {}" "methodNodes (be_cpg loneEnv) = {1}"
  by (simp_all add: cfgTargets_def methodNodes_def loneEnv_def tinyCpg_def)

lemma lone_cfg: "cfg_ok loneEnv" "cfg_universe (outCFGEdges (be_cpg loneEnv)) {1}"
  by (simp_all add: cfg_ok_def cfg_universe_def loneEnv_def tinyCpg_def)

lemma lone_start: "startOk loneEnv (emptyBuilder tinyHeap)"
  using emptyBuilder_run[OF lone_cfg(1), of tinyHeap]
  by (simp add: startOk_def fresh_def methodsBelow_def lone_targets emptyBuilder_def emptyGraph_def)

lemma lone_type: "getType (be_util loneEnv) (tinyHeap 1) = DUMMY"
  by code_simp

lemma lone_entry: "entryMethod loneEnv tinyHeap ''main'' = Ok 1"
  by code_simp

lemma lone_builds: "\<exists>S. buildGraph loneEnv (rootConfig [''main'']) (emptyBuilder tinyHeap) = Some S"
proof -
  let ?B = "emptyBuilder tinyHeap" let ?cfg = "rootConfig [''main'']"
  have H: "cpgH (b_g ?B) = tinyHeap" by (simp add: emptyBuilder_def emptyGraph_def)
  obtain p g where c: "createCCPGNode (be_util loneEnv) 1 (b_g ?B) = (p, g)" by fastforce
  have new: "cpgNodeToCCPGNodeMap (b_g ?B) 1 = None" by (simp add: emptyBuilder_def emptyGraph_def)
  note N = createCCPGNode_new[OF _ new c]
  have N': "g_nodes g = [p]" "g_functions g = []" "nd_type (nodeH g p) = DUMMY" "nd_cpg (nodeH g p) = 1" "cpgH g = tinyHeap"
    using N(2,5,6,12,13) lone_type H by (simp_all add: emptyBuilder_def emptyGraph_def)
  let ?B1 = "?B\<lparr>b_g := g\<rparr>"
  note r = emptyBuilder_run[OF lone_cfg(1), of tinyHeap]
  have bok: "builder_ok loneEnv ?B" using r by (simp add: run_ok_def)
  have g: "g = snd (createCCPGNode (be_util loneEnv) 1 (b_g ?B))" using c by simp
  have r1: "run_ok loneEnv ?B1"
    using builder_ok_node[OF bok _ c] r ctx.node calls.node g by (simp add: run_ok_def)
  have b1: "builder_ok loneEnv ?B1" using r1 by (simp add: run_ok_def)
  obtain f B2 where f: "createFunction loneEnv p ?B1 = Some (f, B2)"
    using createFunction_returns[OF b1 _ lone_cfg(2)] N' tiny_lines by auto
  have p: "p \<in> set (g_nodes (b_g ?B1))" using N' by simp
  note R = createFunction_run[OF r1 p f]
  have ex: "functionExact loneEnv (b_g B2) f" and gok2: "ccpg_ok (b_g B2)" using R by (simp_all add: run_ok_def builder_ok_def)
  have k: "kept g (b_g B2)" using kept_createFunction[OF b1 p f] by simp
  have p2: "p \<in> set (g_nodes (b_g B2))" "nd_cpg (nodeH (b_g B2) p) = 1" "nd_type (nodeH (b_g B2) p) = DUMMY"
    using R p kept_node[OF k, of p] b1 N' by (auto simp: grows_def node_key_eq builder_ok_def)
  have one: "m = 1" if "flow (outCFGEdges (be_cpg loneEnv)) 1 m" for m
    using flow_target[OF that] lone_targets by simp
  let ?keep = "\<lambda>n. isCCPGNode (be_util loneEnv) (cpgH (b_g B2) n)"
  have fn: "fn_funcNode (funH (b_g B2) f) = p" using R by simp
  have im: "(\<lambda>q. nd_cpg (nodeH (b_g B2) q)) ` set (fn_nodes (funH (b_g B2) f)) =
      insert 1 {n. ?keep n \<and> flow (outCFGEdges (be_cpg loneEnv)) 1 n}"
    using ex unfolding functionExact_def Let_def fn p2(2) by (elim conjE)
  have sub: "set (fn_nodes (funH (b_g B2) f)) \<subseteq> set (g_nodes (b_g B2))"
    and ty: "set (fn_typeToNodeSet (funH (b_g B2) f) t) = {q \<in> set (fn_nodes (funH (b_g B2) f)). nd_type (nodeH (b_g B2) q) = t}" for t
    using ex unfolding functionExact_def Let_def by blast+
  have fp: "set (fn_nodes (funH (b_g B2) f)) \<subseteq> {p}"
  proof
    fix q assume q: "q \<in> set (fn_nodes (funH (b_g B2) f))"
    then have "nd_cpg (nodeH (b_g B2) q) \<in> insert 1 {n. ?keep n \<and> flow (outCFGEdges (be_cpg loneEnv)) 1 n}" unfolding im[symmetric] by blast
    then have "nd_cpg (nodeH (b_g B2) q) = 1" using one by blast
    then have "cpgNodeToCCPGNodeMap (b_g B2) 1 = Some q" using ccpg_okD(5)[OF gok2, of 1 q] q sub by blast
    moreover have "cpgNodeToCCPGNodeMap (b_g B2) 1 = Some p" using ccpg_okD(5)[OF gok2, of 1 p] p2 by blast
    ultimately show "q \<in> {p}" by simp
  qed
  then have np: "set (g_nodes (b_g B2)) \<subseteq> {p}" using createFunction_nodes[OF b1 p f] N' by auto
  have none: "getFunctionByCCPGNode (b_g ?B1) p = null"
    using ccpg_okD(8)[of g] b1 N' by (simp add: getFunctionByCCPGNode_def builder_ok_def split: option.split)
  note C = createFunction_new[OF b1 p none f]
  let ?B3 = "B2\<lparr>entryFunctions := [f]\<rparr>"
  have ok3: "run_ok loneEnv ?B3" using R cache_ok_cong[of ?B3 B2 loneEnv] by (simp add: run_ok_def builder_ok_def)
  have quiet: "fn_typeToNodeSet (funH (b_g ?B3) f) t = []" if "t \<in> {OBJECT_INIT, OTHER_CALL, FORK}" for t
  proof -
    have "set (fn_typeToNodeSet (funH (b_g B2) f) t) = {}" unfolding ty using fp p2(3) that by auto
    then show ?thesis by simp
  qed
  have types: "nd_type (nodeH (b_g ?B3) n) \<notin> {FORK, JOIN}" if "n \<in> set (g_nodes (b_g ?B3))" for n
    using that np p2(3) by auto
  have F: "f \<in> set (g_functions (b_g ?B3))" "set (g_functions (b_g ?B3)) = {f}" "fn_funcNode (funH (b_g ?B3) f) = p"
    using C N' fn by simp_all
  have "entryFunctions ?B3 = [f]" "enabled ?cfg" by (simp_all add: rootConfig_def)
  note Q = quiet_build[OF ok3 F quiet this types, simplified]
  have "addMethodEntry loneEnv 1 (?B, []) = Some (?B3, [f])"
    using new c f C by (simp add: addMethodEntry_def addEntryFunction_def emptyBuilder_def)
  moreover have "getLineNumber (tinyHeap 1) \<noteq> Throw" using tiny_lines[of "{1}"] by (simp add: lines_ok_def)
  ultimately have "addListedEntry loneEnv ''main'' (?B, []) = Some (?B3, [f])"
    using lone_entry H by (simp add: addListedEntry_def)
  then have "discoverEntries loneEnv ?cfg ?B = Some (?B3, [f])"
    by (simp add: discoverEntries_def addMain_def addListed_def addCallbacks_def listedEntries_def useListed_def
        rootConfig_def loneEnv_def tinyEnv_def Let_def)
  with Q show ?thesis by (auto simp: buildGraph_def Let_def)
qed

subsection \<open>Entries\<close>

text \<open>C19. The harvest of the callback tables is exact: it yields, each once, the functions that
  the initialisers of callback tables lead to through at most 256 operands per constant.  The
  hypothesis is that no such initialiser is nested more than eight levels deep, the limit of
  the code.\<close>

theorem tables_harvested:
  assumes "\<And>t c. (t, Some c) \<in> set (m_globals M) \<Longrightarrow> isCallbackTable t \<Longrightarrow> shallow M 9 c"
  shows "distinct (harvestTables M) \<and> set (harvestTables M) =
    {d. \<exists>t c v. (t, Some c) \<in> set (m_globals M) \<and> isCallbackTable t \<and>
      (\<lambda>a b. \<exists>ops. m_const M a = OperandsConst ops \<and> Some b \<in> set (take 256 ops))\<^sup>*\<^sup>* c v \<and> m_const M v = FunctionConst d}"
proof -
  have "opOf M = (\<lambda>a b. \<exists>ops. m_const M a = OperandsConst ops \<and> Some b \<in> set (take 256 ops))"
    by (simp add: fun_eq_iff opOf_def)
  moreover have "distinct (harvestTables M)" by (simp add: harvestTables_def)
  ultimately show ?thesis using harvestTables_exact[of M] assms unfolding tableConst_def by simp blast
qed

text \<open>A driver's table holds its probe function behind a nested constant.\<close>

definition tableModule :: llvm_module where
  "tableModule = (be_module tinyEnv)\<lparr>
     m_globals := [(ArrayTy (StructTy (Some ''struct.file_operations'')), Some 1), (StructTy (Some ''struct.other''), Some 4)],
     m_const := (\<lambda>c. if c = 1 then OperandsConst [None, Some 2, Some 2] else if c = 2 then OperandsConst [Some 3]
       else if c = 3 then FunctionConst \<lparr>ld_name = ''fops_open'', ld_declaration = False, ld_sub = None\<rparr> else OtherConst)\<rparr>"


lemma table_call: "m_const tableModule 1 = OperandsConst [None, Some 2, Some 2]" "m_const tableModule 2 = OperandsConst [Some 3]"
  "m_const tableModule 3 = FunctionConst \<lparr>ld_name = ''fops_open'', ld_declaration = False, ld_sub = None\<rparr>"
  "m_globals tableModule = [(ArrayTy (StructTy (Some ''struct.file_operations'')), Some 1), (StructTy (Some ''struct.other''), Some 4)]"
  by (simp_all add: tableModule_def)

theorem tables_harvested_witness:
  "\<lparr>ld_name = ''fops_open'', ld_declaration = False, ld_sub = None\<rparr> \<in> set (harvestTables tableModule)"
proof -
  let ?R = "\<lambda>a b. \<exists>ops. m_const tableModule a = OperandsConst ops \<and> Some b \<in> set (take 256 ops)"
  have t: "isCallbackTable (ArrayTy (StructTy (Some ''struct.file_operations'')))" "\<not> isCallbackTable (StructTy (Some ''struct.other''))"
    by code_simp+
  have shallow1: "shallow tableModule 9 1" by code_simp
  have sh: "shallow tableModule 9 c" if "(t, Some c) \<in> set (m_globals tableModule)" "isCallbackTable t" for t c
    using that t(2) shallow1 by (auto simp: table_call)
  have H: "set (harvestTables tableModule) =
    {d. \<exists>t c v. (t, Some c) \<in> set (m_globals tableModule) \<and> isCallbackTable t \<and> ?R\<^sup>*\<^sup>* c v \<and> m_const tableModule v = FunctionConst d}"
    by (rule conjunct2[OF tables_harvested]) (rule sh)
  have "?R 1 2" using table_call(1) by (intro exI[of _ "[None, Some 2, Some 2]"]) simp
  moreover have "?R 2 3" using table_call(2) by (intro exI[of _ "[Some 3]"]) simp
  ultimately have "?R\<^sup>*\<^sup>* 1 3" by (rule_tac rtranclp.rtrancl_into_rtrancl[of _ _ 2]) blast+
  then show ?thesis unfolding H using t(1) table_call(3,4) by fastforce
qed

text \<open>C20. The search for the main function fails exactly when a method whose line is not a
  number comes before the first one that matches, because every line is read for the log.
  Otherwise it takes the first wanted method within three lines of the recorded position; without
  one the wanted method closest to it; and without any known line the first wanted method, or
  the null pointer when there is none.\<close>

theorem main_function_choice:
  fixes H :: cpg_heap and name :: string and line :: int
  defines "gap \<equiv> \<lambda>m. case getLineNumber (H m) of Throw \<Rightarrow> None
    | Ok l \<Rightarrow> if (getName (H m) = name \<or> getName (H m) \<in> set (allNameCandidates name)) \<and> l \<noteq> -1 then Some \<bar>l - line\<bar> else None"
  defines "hit \<equiv> \<lambda>m. case gap m of Some d \<Rightarrow> d \<le> 3 | None \<Rightarrow> False"
  assumes methods: "null \<notin> set ms"
  shows "(mainScan H name line ms null intMax = Throw \<longleftrightarrow>
      (\<exists>m \<in> set (takeWhile (\<lambda>m. \<not> hit m) ms). getLineNumber (H m) = Throw)) \<and>
    (\<forall>r. mainScan H name line ms null intMax = Ok r \<longrightarrow>
      (case List.find hit ms of
         Some m \<Rightarrow> r = m
       | None \<Rightarrow>
           if \<exists>m \<in> set ms. \<exists>d < intMax. gap m = Some d
           then r \<in> set ms \<and> (\<exists>d. gap r = Some d \<and> (\<forall>m \<in> set ms. \<forall>e. gap m = Some e \<longrightarrow> d \<le> e))
           else r = (case List.find (\<lambda>m. (getName (H m) = name \<or> getName (H m) \<in> set (allNameCandidates name)) \<and> gap m = None) ms of
                       Some m \<Rightarrow> m | None \<Rightarrow> null)))"
proof -
  have g: "gap = lineGap H name line" and h: "hit = mainHit H name line"
    by (simp_all add: gap_def hit_def lineGap_def mainHit_def wanted_def fun_eq_iff split: result.split)
  have w: "(getName (H m) = name \<or> getName (H m) \<in> set (allNameCandidates name)) = wanted H name m" for m
    by (simp add: wanted_def)
  have "(if \<exists>m \<in> set ms. \<exists>d < intMax. lineGap H name line m = Some d
           then r \<in> set ms \<and> (\<exists>d. lineGap H name line r = Some d \<and> (\<forall>m \<in> set ms. \<forall>e. lineGap H name line m = Some e \<longrightarrow> d \<le> e))
           else r = (case List.find (\<lambda>m. wanted H name m \<and> lineGap H name line m = None) ms of Some m \<Rightarrow> m | None \<Rightarrow> null))"
    if "mainScan H name line ms null intMax = Ok r" "List.find (mainHit H name line) ms = None" for r
    using mainScan_best[OF that methods] by (auto simp: not_less[symmetric])
  then show ?thesis
    unfolding g h w using mainScan_throws[of H name line ms null intMax] mainScan_hit[of H name line ms null intMax]
    by (auto split: option.split)
qed

text \<open>Two functions named main, the nearer one second.\<close>

definition mainHeap :: cpg_heap where
  "mainHeap p = mkNode ''METHOD'' [''NAME'' \<mapsto> ''main'', ''LINE_NUMBER'' \<mapsto> (if p = 5 then ''90'' else ''12'')] 0"

lemma mainHeap_lines: "getLineNumber (mainHeap 5) = Ok 90" "getLineNumber (mainHeap 6) = Ok 12" "getName (mainHeap p) = ''main''"
  by (simp_all add: mainHeap_def mkNode_def getLineNumber_def getName_def getProperty_def, code_simp+)

theorem main_function_choice_witness:
  "mainScan mainHeap ''main'' 10 [5, 6] null intMax \<noteq> Throw \<and> mainScan mainHeap ''main'' 10 [5, 6] null intMax \<noteq> Ok 5"
  using main_function_choice[of "[5, 6]" mainHeap "''main''" 10] by (auto simp: mainHeap_lines)

text \<open>C15. In a manually configured run every listed root whose method is found runs as a thread:
  after the whole construction some thread's main function is the function of that method,
  whatever the callees, the creation sites and the other roots are.\<close>

theorem roots_become_threads:
  assumes "startOk E B" "buildGraph E cfg B = Some S" "enabled cfg"
    and "name \<in> set (listedEntries E cfg)" "entryMethod E (cpgH (b_g B)) name = Ok m" "m \<noteq> null"
  shows "\<exists>t \<in> set (threads (ts_T S)). let f = threadMainFunction (thr (ts_T S) t); g = b_g (ts_B S) in
    nd_cpg (nodeH g (fn_funcNode (funH g f))) = m"
  using buildGraph_ok[OF assms(1,2)] assms(3-6) by (auto simp: methodOf_def Let_def)

theorem roots_become_threads_witness:
  "\<exists>S t. buildGraph loneEnv (rootConfig [''main'']) (emptyBuilder tinyHeap) = Some S \<and> t \<in> set (threads (ts_T S))"
proof -
  obtain S where S: "buildGraph loneEnv (rootConfig [''main'']) (emptyBuilder tinyHeap) = Some S" using lone_builds by blast
  have "''main'' \<in> set (listedEntries loneEnv (rootConfig [''main'']))" "enabled (rootConfig [''main''])"
    "cpgH (b_g (emptyBuilder tinyHeap)) = tinyHeap"
    by (simp_all add: listedEntries_def rootConfig_def emptyBuilder_def emptyGraph_def)
  with roots_become_threads[OF lone_start S, of "''main''" 1] lone_entry S show ?thesis by auto
qed

subsection \<open>Threads\<close>

text \<open>C13. The thread-creation tree that the construction leaves is well formed: the threads are
  distinct, no two have an id, a main function or a creation site in common, a parent is a
  thread of the tree, and the parent relation has no cycle, so the ancestor test always
  answers.\<close>

theorem tree_built:
  assumes "startOk E B" "buildGraph E cfg B = Some S"
  shows "let T = ts_T S; ts = threads T in distinct ts \<and>
    (\<forall>t \<in> set ts. \<forall>u \<in> set ts. t \<noteq> u \<longrightarrow> th_id (thr T t) \<noteq> th_id (thr T u) \<and>
      threadMainFunction (thr T t) \<noteq> threadMainFunction (thr T u) \<and> forkNode (thr T t) \<noteq> forkNode (thr T u)) \<and>
    (\<forall>t \<in> set ts. parent (thr T t) = null \<or> parent (thr T t) \<in> set ts) \<and>
    (\<forall>t u. \<exists>b. isDescendant T t u = Some b) \<and> (\<forall>t. isDescendant T t t = Some False)"
proof -
  have ok: "treeOk E (ts_B S) (ts_T S)" using buildGraph_ok[OF assms] by blast
  then have wf: "tree_wf (ts_T S)" by (simp add: treeOk_def)
  then obtain rank :: "ptr \<Rightarrow> nat" where r: "\<And>t. parent (thr (ts_T S) t) \<noteq> null \<Longrightarrow> rank (parent (thr (ts_T S) t)) < rank t"
    unfolding tree_wf_def by blast
  have "rank a \<le> rank p" if "(childOf (ts_T S))\<^sup>*\<^sup>* p a" for p a
    using that
  proof induction
    case (step y z)
    with r[of y] show ?case by (auto simp: childOf_def)
  qed simp
  then have "\<not> ancestorOf (ts_T S) t t" for t
    using r[of t] unfolding ancestorOf_def by (metis leD)
  then show ?thesis using ok isDescendant_total[OF wf] by (auto simp: treeOk_def Let_def inj_on_def)
qed

theorem tree_built_witness:
  "\<exists>S. buildGraph loneEnv (rootConfig [''main'']) (emptyBuilder tinyHeap) = Some S \<and> distinct (threads (ts_T S))"
  using lone_builds tree_built[OF lone_start] by (metis (no_types, lifting))

text \<open>C14. A thread runs exactly the functions that the calls it took lead to from its main function;
  its nodes are the nodes of these functions, indexed by their types; and every call in them was
  either taken or had no callee when it was visited, so none is skipped.\<close>

theorem thread_runs_closure:
  assumes "startOk E B" "buildGraph E cfg B = Some S" "t \<in> set (threads (ts_T S))"
  shows "let g = b_g (ts_B S); th = thr (ts_T S) t in
    set (th_functions th) = {h. (callLink g (set (th_edges th)))\<^sup>*\<^sup>* (threadMainFunction th) h} \<and>
    set (th_nodes th) = (\<Union>f \<in> set (th_functions th). set (fn_nodes (funH g f))) \<and>
    (\<forall>ty. set (th_typeToNodeSet th ty) = {n \<in> set (th_nodes th). nd_type (nodeH g n) = ty}) \<and>
    (\<forall>f \<in> set (th_functions th). \<forall>n \<in> set (fn_typeToNodeSet (funH g f) OBJECT_INIT) \<union> set (fn_typeToNodeSet (funH g f) OTHER_CALL).
       (\<exists>e \<in> set (th_edges th). e_type e = CALL \<and> e_src e = n) \<or>
       (\<exists>g0. kept g0 g \<and> callsOf g0 n = [] \<and> calleeMethod E g0 n = Ok null))"
proof -
  have ok: "treeOk E (ts_B S) (ts_T S)" using buildGraph_ok[OF assms(1,2)] by blast
  then have th: "threadOk E (b_g (ts_B S)) (thr (ts_T S) t)" using assms(3) by (simp add: treeOk_def)
  have "ccpg_ok (b_g (ts_B S))" using ok by (simp add: treeOk_def run_ok_def builder_ok_def)
  note F = threadFacts_exact[OF this conjunct1[OF th[unfolded threadOk_def]]]
  show ?thesis unfolding Let_def
  proof (intro conjI)
    show "\<forall>f \<in> set (th_functions (thr (ts_T S) t)). \<forall>n \<in> set (fn_typeToNodeSet (funH (b_g (ts_B S)) f) OBJECT_INIT) \<union>
        set (fn_typeToNodeSet (funH (b_g (ts_B S)) f) OTHER_CALL). (\<exists>e \<in> set (th_edges (thr (ts_T S) t)). e_type e = CALL \<and> e_src e = n) \<or>
        (\<exists>g0. kept g0 (b_g (ts_B S)) \<and> callsOf g0 n = [] \<and> calleeMethod E g0 n = Ok null)"
      using th unfolding threadOk_def allServed_def callNodes_def served_def by (elim conjE)
  qed (rule F, insert th, unfold threadOk_def, elim conjE, assumption, elim conjE, assumption)
qed

theorem thread_runs_closure_witness:
  "\<exists>S. \<exists>t \<in> set (threads (ts_T S)). buildGraph loneEnv (rootConfig [''main'']) (emptyBuilder tinyHeap) = Some S \<and>
     threadMainFunction (thr (ts_T S) t) \<in> set (th_functions (thr (ts_T S) t))"
proof -
  obtain S where S: "buildGraph loneEnv (rootConfig [''main'']) (emptyBuilder tinyHeap) = Some S" using lone_builds by blast
  have "''main'' \<in> set (listedEntries loneEnv (rootConfig [''main'']))" "enabled (rootConfig [''main''])"
    "cpgH (b_g (emptyBuilder tinyHeap)) = tinyHeap"
    by (simp_all add: listedEntries_def rootConfig_def emptyBuilder_def emptyGraph_def)
  then obtain t where t: "t \<in> set (threads (ts_T S))" using buildGraph_ok[OF lone_start S] lone_entry by auto
  from thread_runs_closure[OF lone_start S t] show ?thesis using S t by (auto simp: Let_def)
qed

text \<open>C16. The construction ends.  On a finite program whose line numbers are numbers and whose
  callees and thread entries resolve to its own nodes, the expansion of any queue of functions
  returns, and from its result, once the fork potential is marked, so does the construction of
  the threads, although calls may be recursive and threads may create each other.\<close>

theorem construction_returns:
  assumes "run_ok E B" "readable E (cpgH (b_g B)) U"
    and "\<forall>f \<in> set (g_functions (b_g B)). nd_cpg (nodeH (b_g B) (fn_funcNode (funH (b_g B) f))) \<in> U"
    and "set q \<subseteq> set (g_functions (b_g B))" "distinct (entryFunctions B)" "set (entryFunctions B) \<subseteq> set (g_functions (b_g B))"
  shows "\<exists>B'. expandAll E q B = Some B' \<and> (\<forall>g cfg. labelForkPotential (b_g B') = Some g \<longrightarrow>
    (\<exists>S. buildTree E cfg \<lparr>ts_B = B'\<lparr>b_g := g\<rparr>, ts_T = emptyTree, ts_next = 1\<rparr> = Some S))"
proof -
  have inv: "buildInv E (cpgH (b_g B)) U B" using assms(1-3) by (simp add: buildInv_def methodOf_def)
  from expandAll_returns[OF this assms(4)] obtain B' where B': "expandAll E q B = Some B'" "buildInv E (cpgH (b_g B)) U B'" by blast
  note X = expandAll_ok[OF assms(1,4) B'(1)]
  have en: "distinct (entryFunctions B')" "set (entryFunctions B') \<subseteq> set (g_functions (b_g B'))"
    using assms(5,6) expandAll_entries[OF B'(1)] X grows_functions[of "b_g B" "b_g B'"] by auto
  have "\<exists>S. buildTree E cfg \<lparr>ts_B = B'\<lparr>b_g := g\<rparr>, ts_T = emptyTree, ts_next = 1\<rparr> = Some S"
    if l: "labelForkPotential (b_g B') = Some g" for g cfg
  proof -
    have r: "run_ok E B'" using B'(2) by (simp add: buildInv_def)
    note F = labelFork_ok[OF r l]
    have fs: "g_functions g = g_functions (b_g B')" by (rule labelFork_functions[OF l])
    have "buildInv E (cpgH (b_g B)) U (B'\<lparr>b_g := g\<rparr>)"
      by (rule buildInv_step[OF B'(2)]) (use F fs in simp_all)
    then show ?thesis using en fs by (intro buildTree_returns) (simp_all add: emptyTree_def newThread_def)
  qed
  with B'(1) show ?thesis by blast
qed

theorem construction_returns_witness:
  "\<exists>f B. createFunction tinyEnv 1 tinyBuilder = Some (f, B) \<and> (\<exists>B'. expandAll tinyEnv [f] B = Some B')"
proof -
  have "g_functions (b_g tinyBuilder) = []" "entryFunctions tinyBuilder = []"
    by (simp_all add: tinyBuilder_def createCCPGNode_functions emptyBuilder_def emptyGraph_def)
  note none = this
  have inv: "buildInv tinyEnv tinyHeap {1, 2} tinyBuilder"
    using tinyBuilder_run tiny_readable none by (simp add: buildInv_def)
  have "nd_cpg (nodeH (b_g tinyBuilder) 1) \<in> {1, 2}" using tinyBuilder_run(3) by simp
  from create_returns[OF inv tinyBuilder_run(2) this] obtain f B where
    c: "createFunction tinyEnv 1 tinyBuilder = Some (f, B)" "buildInv tinyEnv tinyHeap {1, 2} B" "f \<in> set (g_functions (b_g B))"
    by blast
  have bok: "builder_ok tinyEnv tinyBuilder" using tinyBuilder_run(1) by (simp add: run_ok_def)
  have e: "entryFunctions B = []" using createFunction_fields[OF bok tinyBuilder_run(2) c(1)] none by simp
  have H: "cpgH (b_g B) = tinyHeap" and r: "run_ok tinyEnv B"
    and m: "\<forall>f \<in> set (g_functions (b_g B)). nd_cpg (nodeH (b_g B) (fn_funcNode (funH (b_g B) f))) \<in> {1, 2}"
    using c(2) unfolding buildInv_def methodOf_def by blast+
  have "\<exists>B'. expandAll tinyEnv [f] B = Some B'"
    using construction_returns[OF r _ m, of "[f]"] tiny_readable c(3) e H by auto
  with c(1) show ?thesis by blast
qed

text \<open>C18. The matching of join sites is exact for the threads with a creation site: such a thread gets a
  join site exactly when the graph has one whose thread handle may be its own, the site it gets
  is such a one, and nothing else of the tree changes.  The hypothesis on the alias analysis is
  its symmetry.\<close>

theorem join_sites_exact:
  assumes "handleJoins E g T = Some T'" "null \<notin> set (getNodesByType g JOIN)" "\<And>v w. be_aliases E v w = be_aliases E w v"
  shows "threads T' = threads T \<and> (\<forall>t. thr T' t = (thr T t)\<lparr>joinNode := joinNode (thr T' t)\<rparr>) \<and>
    (\<forall>t. t \<notin> set (threads T) \<or> nd_type (nodeH g (forkNode (thr T t))) \<noteq> FORK \<longrightarrow> thr T' t = thr T t) \<and>
    (\<forall>t \<in> set (threads T). nd_type (nodeH g (forkNode (thr T t))) = FORK \<longrightarrow>
      (joinNode (thr T' t) \<noteq> null \<longleftrightarrow> (\<exists>j \<in> set (getNodesByType g JOIN). isThreadAlias E g (forkNode (thr T t)) j)) \<and>
      (joinNode (thr T' t) \<noteq> null \<longrightarrow>
        joinNode (thr T' t) \<in> set (getNodesByType g JOIN) \<and> isThreadAlias E g (forkNode (thr T t)) (joinNode (thr T' t))))"
  using handleJoins_exact[OF assms] unfolding isForked_def by blast

text \<open>One thread, created at node 4 and joined at node 5, both with the handle 9.\<close>

definition joinEnv :: build_env where
  "joinEnv = tinyEnv\<lparr>be_cpg := tinyCpg\<lparr>argumentEdges := (\<lambda>_. [8])\<rparr>, be_aliases := (=)\<rparr>"

definition joinGraph :: ccpg where
  "joinGraph = (emptyGraph (\<lambda>_. mkNode ''IDENTIFIER'' [''CODE'' \<mapsto> ''&t'', ''ARGUMENT_INDEX'' \<mapsto> ''1''] 0))\<lparr>
     nodeH := (\<lambda>p. \<lparr>nd_id = p, nd_type = (if p = 4 then FORK else if p = 5 then JOIN else DUMMY), nd_cpg = p, nd_in = [], nd_out = [],
       nd_loc = emptyLoc, nd_function = 3, nd_order = 0, nd_callSite = True, nd_callInst = Some \<lparr>ci_callee = None, ci_args = [9]\<rparr>\<rparr>),
     g_typeToNodeSet := (\<lambda>ty. if ty = JOIN then [5] else if ty = FORK then [4] else [])\<rparr>"

definition joinTree :: tct where
  "joinTree = emptyTree\<lparr>threadH := (\<lambda>_. newThread 0 4 null), threads := [1]\<rparr>"

lemma join_runs: "handleJoins joinEnv joinGraph joinTree \<noteq> None"
  by code_simp

theorem join_sites_exact_witness:
  "\<exists>T'. handleJoins joinEnv joinGraph joinTree = Some T' \<and> joinNode (thr T' 1) = 5"
proof -
  obtain T' where T': "handleJoins joinEnv joinGraph joinTree = Some T'" using join_runs by blast
  have j: "getNodesByType joinGraph JOIN = [5]" "threads joinTree = [1]" "forkNode (thr joinTree 1) = 4" "nd_type (nodeH joinGraph 4) = FORK"
    by (simp_all add: getNodesByType_def joinGraph_def joinTree_def newThread_def)
  have a: "isThreadAlias joinEnv joinGraph 4 5"
    by (simp add: isThreadAlias_def getLLVMThreadValue_def isAlias_def joinEnv_def joinGraph_def tinyEnv_def)
  have sym: "be_aliases joinEnv v w = be_aliases joinEnv w v" for v w by (auto simp: joinEnv_def)
  have "joinNode (thr T' 1) \<noteq> null" "joinNode (thr T' 1) \<in> {5}"
    using join_sites_exact[OF T' _ sym] j a by simp_all
  with T' show ?thesis by simp
qed

end
