(* ===== verification/ParallelLocs.thy ===== *)
theory ParallelLocs
  imports ThreadFacts AliasMap
begin

text \<open>
  The locations of two threads that may be reached at the same time, with the call chain that
  leads to them, their cache, and the memory accesses there
  (src/CCPG/ThreadCreationTree.cpp, src/CCPG/AliasChecker.cpp).  A map from locations is the
  list of its entries; two locations are one key when \<open>nodeLoc_eq\<close> says so.  The order in which
  a set of reachable nodes is iterated is the argument \<open>iter\<close>, the one in which a location map
  is iterated the argument \<open>order\<close>.  A thread whose parallel locations are asked for as a parent
  has a main function: without one the code dereferences a null pointer.
\<close>

subsection \<open>The locations of a thread\<close>

type_synonym loc_map = "(node_loc \<times> context_stack) list"

definition hasLoc :: "node_loc \<Rightarrow> loc_map \<Rightarrow> bool" where
  "hasLoc l m \<longleftrightarrow> list_ex (\<lambda>(k, c). nodeLoc_eq k l) m"

definition locContext :: "ccpg \<Rightarrow> tct \<Rightarrow> ptr \<Rightarrow> ptr \<Rightarrow> context_stack" where
  "locContext g T t f =
     (if forkNode (thr T t) \<noteq> null then [forkNode (thr T t)] else []) @ findCallPath g T (threadMainFunction (thr T t)) f t"

definition addLoc :: "ccpg \<Rightarrow> tct \<Rightarrow> ptr \<Rightarrow> loc_map \<Rightarrow> ptr \<Rightarrow> loc_map" where
  "addLoc g T t m n =
     (let l = nd_loc (nodeH g n); f = nd_function (nodeH g n)
      in if lineNumber l > 0 \<and> \<not> hasLoc l m \<and> f \<noteq> null then m @ [(l, locContext g T t f)] else m)"

definition findAllLocs :: "ccpg \<Rightarrow> tct \<Rightarrow> ptr \<Rightarrow> loc_map" where
  "findAllLocs g T t =
     (if threadMainFunction (thr T t) = null then [] else foldl (addLoc g T t) [] (th_nodes (thr T t)))"

subsection \<open>Two threads\<close>

text \<open>What the parent may be doing while the child runs: after the fork and before the join.\<close>

definition concurrentScope :: "(ptr set \<Rightarrow> ptr list) \<Rightarrow> ccpg \<Rightarrow> tct \<Rightarrow> ptr \<Rightarrow> ptr \<Rightarrow> ptr list" where
  "concurrentScope iter g T par child =
     (let after = getReachableNodes g T (forkNode (thr T child)) par True; j = joinNode (thr T child)
      in iter (if j \<noteq> null then after \<inter> getReachableNodes g T j par False else after))"

definition locsOfPair :: "(ptr set \<Rightarrow> ptr list) \<Rightarrow> ccpg \<Rightarrow> ptr \<Rightarrow> ptr \<Rightarrow> tct \<Rightarrow> (loc_map \<times> loc_map) option" where
  "locsOfPair iter g t1 t2 T =
     (if parent (thr T t1) \<noteq> null \<and> parent (thr T t1) = parent (thr T t2)
      then Some (findAllLocs g T t1, findAllLocs g T t2)
      else Option.bind (isDescendant T t2 t1) (\<lambda>d2.
        if d2 then Some (foldl (addLoc g T t1) [] (concurrentScope iter g T t1 t2), findAllLocs g T t2)
        else Option.bind (isDescendant T t1 t2) (\<lambda>d1.
          Some (if d1 then (findAllLocs g T t1, foldl (addLoc g T t2) [] (concurrentScope iter g T t2 t1)) else ([], [])))))"

definition computeParallelLocs :: "config \<Rightarrow> sharing \<Rightarrow> (ptr set \<Rightarrow> ptr list) \<Rightarrow> ccpg \<Rightarrow> ptr \<Rightarrow> ptr \<Rightarrow> tct \<Rightarrow>
    ((loc_map \<times> loc_map) \<times> tct) option" where
  "computeParallelLocs cfg shared iter g t1 t2 T =
     Option.bind (mayThreadsRunConcurrently cfg shared g t1 t2 T) (\<lambda>(b, T').
       if \<not> b then Some (([], []), T') else map_option (\<lambda>r. (r, T')) (locsOfPair iter g t1 t2 T'))"

text \<open>The tree with the cache of the results, kept for the ordered pair, and of the shared objects.\<close>

record loc_state =
  lt_tree :: tct
  lt_cache :: "ptr \<times> ptr \<Rightarrow> (loc_map \<times> loc_map) option"
  lt_candidates :: "ptr list option"

definition getParallelLocs :: "config \<Rightarrow> sharing \<Rightarrow> (ptr set \<Rightarrow> ptr list) \<Rightarrow> ccpg \<Rightarrow> ptr \<Rightarrow> ptr \<Rightarrow> loc_state \<Rightarrow>
    ((loc_map \<times> loc_map) \<times> loc_state) option" where
  "getParallelLocs cfg shared iter g t1 t2 S =
     (let key = cacheKey t1 t2; turn = (if fst key = t1 then id else prod.swap) in
      case lt_cache S key of
        Some r \<Rightarrow> Some (turn r, S)
      | None \<Rightarrow> map_option (\<lambda>(r, T). (turn r, S\<lparr>lt_tree := T, lt_cache := (lt_cache S)(key \<mapsto> r)\<rparr>))
                  (computeParallelLocs cfg shared iter g (fst key) (snd key) (lt_tree S)))"

subsection \<open>Contexts of a location\<close>

text \<open>One call chain as the sequence of call sites that enter its functions.\<close>

definition chainStep :: "ccpg \<Rightarrow> ptr \<Rightarrow> context_stack \<times> ptr \<Rightarrow> ptr \<Rightarrow> context_stack \<times> ptr" where
  "chainStep g main = (\<lambda>(ctx, prev) f.
     (if f = main then (ctx, prev)
      else case List.find (\<lambda>n. nd_function (nodeH g n) = prev) (getCallSites g f) of
        Some n \<Rightarrow> (ctx @ [n], f) | None \<Rightarrow> (ctx, prev)))"

text \<open>The first node of a location without nodes is undefined; the fuel cuts the call chains.\<close>

definition getIntraThreadContext :: "nat \<Rightarrow> ccpg \<Rightarrow> tct \<Rightarrow> ptr \<Rightarrow> node_loc \<Rightarrow> context_stack list option" where
  "getIntraThreadContext k g T t l =
     (let main = threadMainFunction (thr T t) in
      case getNodesByLoc g l of
        [] \<Rightarrow> None
      | n # _ \<Rightarrow> map_option (foldl (\<lambda>out chain.
            let c = fst (foldl (chainStep g main) ([forkNode (thr T t)], main) chain) in if c \<in> set out then out else out @ [c]) [])
          (getAllCallPaths k g (nd_function (nodeH g n)) main))"

subsection \<open>Memory accesses\<close>

record location_access =
  ma_pointer :: ptr
  ma_isWrite :: bool
  ma_location :: node_loc
  ma_context :: context_stack
  ma_instruction :: ptr

text \<open>
  What the pointer analysis answers: the loads and stores at a location with the instruction,
  its pointer and the name of its function; points-to sets in iteration order; the global
  variables with their constancy; the parameters of a function.
\<close>

record access_env =
  ae_analyzer :: bool
  ae_loads :: "node_loc \<Rightarrow> (ptr \<times> ptr \<times> string) list"
  ae_stores :: "node_loc \<Rightarrow> (ptr \<times> ptr \<times> string) list"
  ae_pointsTo :: "ptr \<Rightarrow> ptr list"
  ae_globals :: "(ptr \<times> bool) list"
  ae_params :: "string \<Rightarrow> ptr list"

definition getPointerOperandsFromLocation :: "access_env \<Rightarrow> node_loc \<Rightarrow> ptr list" where
  "getPointerOperandsFromLocation A l =
     (if \<not> ae_analyzer A then [] else map (\<lambda>(i, p, f). p) (ae_loads A l) @ map (\<lambda>(i, p, f). p) (ae_stores A l))"

text \<open>Only instructions of the compiled function of the location's function count.\<close>

definition instAccesses :: "string \<Rightarrow> bool \<Rightarrow> node_loc \<Rightarrow> context_stack \<Rightarrow> (ptr \<times> ptr \<times> string) list \<Rightarrow> location_access list" where
  "instAccesses lf w l ctx is =
     map (\<lambda>(i, p, f). \<lparr>ma_pointer = p, ma_isWrite = w, ma_location = l, ma_context = ctx, ma_instruction = i\<rparr>)
       (filter (\<lambda>(i, p, f). f = lf) is)"

definition getMemoryAccessesFromLocation :: "access_env \<Rightarrow> ccpg \<Rightarrow> node_loc \<Rightarrow> context_stack \<Rightarrow> location_access list" where
  "getMemoryAccessesFromLocation A g l ctx =
     (if \<not> ae_analyzer A \<or> loc_function l = null then []
      else case fn_llvm (funH g (loc_function l)) of
        None \<Rightarrow> []
      | Some lf \<Rightarrow> instAccesses lf False l ctx (ae_loads A l) @ instAccesses lf True l ctx (ae_stores A l))"

definition candidateObjects :: "access_env \<Rightarrow> ccpg \<Rightarrow> tct \<Rightarrow> ptr list" where
  "candidateObjects A g T =
     remdups (map fst (filter (\<lambda>(v, constant). \<not> constant) (ae_globals A)) @
        concat (map (\<lambda>t. let f = threadMainFunction (thr T t) in
          if f = null then [] else case fn_llvm (funH g f) of None \<Rightarrow> [] | Some lf \<Rightarrow> ae_params A lf) (threads T)))"

text \<open>The candidates are computed once; without a pointer analysis nothing is kept.\<close>

definition collectCandidateSharedObjects :: "access_env \<Rightarrow> ccpg \<Rightarrow> loc_state \<Rightarrow> ptr list \<times> loc_state" where
  "collectCandidateSharedObjects A g S =
     (case lt_candidates S of
        Some vs \<Rightarrow> (vs, S)
      | None \<Rightarrow>
          if \<not> ae_analyzer A then ([], S)
          else let vs = candidateObjects A g (lt_tree S) in (vs, S\<lparr>lt_candidates := Some vs\<rparr>))"

text \<open>An access map: the accesses of every object, none for an object without an entry.\<close>

type_synonym access_map = "ptr \<Rightarrow> location_access list"

definition addAccess :: "ptr \<Rightarrow> access_map \<Rightarrow> location_access \<Rightarrow> access_map" where
  "addAccess v M a = M(v := M v @ [a])"

definition isShared :: "build_env \<Rightarrow> ptr list \<Rightarrow> location_access \<Rightarrow> bool" where
  "isShared E candidates a = list_ex (isAlias E (ma_pointer a)) candidates"

definition accessKey :: "access_env \<Rightarrow> ptr \<Rightarrow> ptr" where
  "accessKey A p = (case ae_pointsTo A p of r # _ \<Rightarrow> r | [] \<Rightarrow> p)"

definition accessMapOf :: "build_env \<Rightarrow> access_env \<Rightarrow> ccpg \<Rightarrow> ptr list \<Rightarrow> loc_map \<Rightarrow> access_map" where
  "accessMapOf E A g candidates locs =
     foldl (\<lambda>M a. if isShared E candidates a then addAccess (accessKey A (ma_pointer a)) M a else M) (\<lambda>_. [])
       (concat (map (\<lambda>(l, ctx). getMemoryAccessesFromLocation A g l ctx) locs))"

definition buildMemoryAccessMapForThread :: "build_env \<Rightarrow> access_env \<Rightarrow> config \<Rightarrow> sharing \<Rightarrow> (ptr set \<Rightarrow> ptr list) \<Rightarrow> (loc_map \<Rightarrow> loc_map) \<Rightarrow> ccpg \<Rightarrow>
    ptr \<Rightarrow> ptr \<Rightarrow> ptr list \<Rightarrow> loc_state \<Rightarrow> (access_map \<times> loc_state) option" where
  "buildMemoryAccessMapForThread E A cfg shared iter order g target other candidates S =
     (if \<not> ae_analyzer A then Some (\<lambda>_. [], S)
      else map_option (\<lambda>((locs, _), S'). (accessMapOf E A g candidates (order locs), S'))
             (getParallelLocs cfg shared iter g target other S))"

definition buildRawMemoryAccessMap :: "access_env \<Rightarrow> (loc_map \<Rightarrow> loc_map) \<Rightarrow> ccpg \<Rightarrow> tct \<Rightarrow> ptr \<Rightarrow> access_map" where
  "buildRawMemoryAccessMap A order g T t =
     (if \<not> ae_analyzer A then (\<lambda>_. [])
      else foldl (\<lambda>M a. addAccess (ma_pointer a) M a) (\<lambda>_. [])
             (concat (map (\<lambda>(l, ctx). getMemoryAccessesFromLocation A g l ctx) (order (findAllLocs g T t)))))"

end
