(* ===== verification/Rules.thy ===== *)
theory Rules
  imports ParallelLocs Contract
begin

text \<open>
  The temporal rules a pair of threads is checked for (src/LLMUtil/Rule.cpp,
  include/LLMUtil/Rule.h, include/LLMUtil/ThreadPair.h): the roles a rule names, the nodes
  nominated for them, and the check of each kind of rule, which gives a violation or nothing.
  The map of nominated nodes is the list of its entries by role.  The tree is passed through a
  check, since the concurrency query fills its caches; None is a query that does not return.
\<close>

subsection \<open>Rules\<close>

datatype rule_kind =
  TOCTOURule | DataRaceRule | UseAfterFreeRule | DoubleFreeRule | NullPointerDereferenceRule | DeadlockRule

record rule =
  ru_kind :: rule_kind
  nominated_nodes :: "(string \<times> int) list"
  m_rule_id :: string
  m_shared_object_type :: string
  m_summary :: string

primrec get_pattern_type :: "rule_kind \<Rightarrow> string" where
  "get_pattern_type TOCTOURule = ''TOCTOU''"
| "get_pattern_type DataRaceRule = ''DataRace''"
| "get_pattern_type UseAfterFreeRule = ''USE_AFTER_FREE''"
| "get_pattern_type DoubleFreeRule = ''DOUBLE_FREE''"
| "get_pattern_type NullPointerDereferenceRule = ''NULL_POINTER_DEREFERENCE''"
| "get_pattern_type DeadlockRule = ''DEADLOCK''"

primrec get_required_roles :: "rule_kind \<Rightarrow> string list" where
  "get_required_roles TOCTOURule = [''state_check_operation'', ''state_modify_operation'', ''resource_use_operation'']"
| "get_required_roles DataRaceRule = [''write_operation'', ''read_operation'']"
| "get_required_roles UseAfterFreeRule = [''free_operation'', ''use_operation'']"
| "get_required_roles DoubleFreeRule = [''first_free_operation'', ''second_free_operation'']"
| "get_required_roles NullPointerDereferenceRule = [''null_assignment_operation'', ''dereference_operation'']"
| "get_required_roles DeadlockRule =
     [''thread1_first_lock'', ''thread1_second_lock'', ''thread2_first_lock'', ''thread2_second_lock'']"

definition newRule :: "rule_kind \<Rightarrow> rule" where
  "newRule k = \<lparr>ru_kind = k, nominated_nodes = [], m_rule_id = [], m_shared_object_type = [], m_summary = []\<rparr>"

definition set_metadata :: "string \<Rightarrow> string \<Rightarrow> string \<Rightarrow> rule \<Rightarrow> rule" where
  "set_metadata rid objType text r = r\<lparr>m_rule_id := rid, m_shared_object_type := objType, m_summary := text\<rparr>"

definition set_node_for_role :: "string \<Rightarrow> int \<Rightarrow> rule \<Rightarrow> rule" where
  "set_node_for_role rl n r = r\<lparr>nominated_nodes := mapSet rl n (nominated_nodes r)\<rparr>"

definition get_node_for_role :: "rule \<Rightarrow> string \<Rightarrow> int" where
  "get_node_for_role r rl = (case map_of (nominated_nodes r) rl of Some n \<Rightarrow> n | None \<Rightarrow> -1)"

definition is_ready :: "rule \<Rightarrow> bool" where
  "is_ready r \<longleftrightarrow> list_all (\<lambda>rl. map_of (nominated_nodes r) rl \<noteq> None) (get_required_roles (ru_kind r))"

definition ruleJson :: "rule \<Rightarrow> json" where
  "ruleJson r = JObj
     [(''_llm_summary'', JStr (m_summary r)),
      (''nodes'', JObj (map (\<lambda>(rl, n). (rl, JInt n)) (nominated_nodes r))),
      (''pattern_type'', JStr (get_pattern_type (ru_kind r))),
      (''rule_id'', JStr (m_rule_id r)),
      (''shared_object_type'', JStr (m_shared_object_type r))]"

text \<open>The parts of a pair of threads the checks read, and a violation.\<close>

record thread_pair =
  tp_thread1 :: ptr
  tp_thread2 :: ptr
  temporal_rules :: "rule list"

record stateful_bug =
  sb_rule :: json
  sb_path :: "(string \<times> ptr) list"
  sb_thread1 :: ptr
  sb_thread2 :: ptr

definition bugOf :: "rule \<Rightarrow> thread_pair \<Rightarrow> (string \<times> ptr) list \<Rightarrow> stateful_bug" where
  "bugOf r p path = \<lparr>sb_rule = ruleJson r, sb_path = path, sb_thread1 = tp_thread1 p, sb_thread2 = tp_thread2 p\<rparr>"

subsection \<open>Control flow inside a thread\<close>

definition orderSuccs :: "ccpg \<Rightarrow> ptr \<Rightarrow> ptr list" where
  "orderSuccs g n = map e_dst (filter (\<lambda>e. e_type e = ORDER) (nd_out (nodeH g n)))"

definition is_reachable_intra_thread :: "ccpg \<Rightarrow> tct \<Rightarrow> ptr \<Rightarrow> ptr \<Rightarrow> ptr \<Rightarrow> bool" where
  "is_reachable_intra_thread g T start_node end_node t =
     (if start_node = null \<or> end_node = null \<or> t = null then False
      else if start_node = end_node then True
      else if start_node \<notin> set (th_nodes (thr T t)) \<or> end_node \<notin> set (th_nodes (thr T t)) then False
      else fst (search (orderSuccs g) (\<lambda>v. v = end_node) (th_nodes (thr T t)) [start_node] {start_node}))"

subsection \<open>The checks\<close>

text \<open>What every check consults: the configuration, the tree's queries, the compiled program.\<close>

record rule_env =
  re_config :: config
  re_sharing :: sharing
  re_build :: build_env
  re_access :: access_env
  re_graph :: ccpg

definition runConcurrently :: "rule_env \<Rightarrow> ptr \<Rightarrow> ptr \<Rightarrow> tct \<Rightarrow> (bool \<times> tct) option" where
  "runConcurrently R t1 t2 = mayThreadsRunConcurrently (re_config R) (re_sharing R) (re_graph R) t1 t2"

definition roleNode :: "rule_env \<Rightarrow> rule \<Rightarrow> string \<Rightarrow> ptr" where
  "roleNode R r rl = getNodeByID (re_graph R) (get_node_for_role r rl)"

definition nodesOf :: "tct \<Rightarrow> ptr \<Rightarrow> ptr set" where
  "nodesOf T t = set (th_nodes (thr T t))"

text \<open>The thread a node is taken to run in: the first of the pair that has it.\<close>

definition threadWith :: "tct \<Rightarrow> thread_pair \<Rightarrow> ptr \<Rightarrow> ptr" where
  "threadWith T p n =
     (if n \<in> nodesOf T (tp_thread1 p) then tp_thread1 p
      else if n \<in> nodesOf T (tp_thread2 p) then tp_thread2 p else null)"

definition verifyTOCTOU :: "rule_env \<Rightarrow> thread_pair \<Rightarrow> rule \<Rightarrow> tct \<Rightarrow> (stateful_bug option \<times> tct) option" where
  "verifyTOCTOU R p r T =
     (let check = roleNode R r ''state_check_operation''; modify = roleNode R r ''state_modify_operation'';
          useN = roleNode R r ''resource_use_operation''; t1 = tp_thread1 p; t2 = tp_thread2 p in
      if check = null \<or> modify = null \<or> useN = null then Some (None, T)
      else case (if check \<in> nodesOf T t1 \<and> modify \<in> nodesOf T t2 then Some (t1, t2)
                 else if check \<in> nodesOf T t2 \<and> modify \<in> nodesOf T t1 then Some (t2, t1) else None) of
        None \<Rightarrow> Some (None, T)
      | Some (checker, modifier) \<Rightarrow>
          map_option (\<lambda>(b, T'). (if b \<and> is_reachable_intra_thread (re_graph R) T' check useN checker
              then Some (bugOf r p [(''[CHECK] Operation'', check), (''[MODIFY - Concurrent] Operation'', modify),
                                    (''[USE] Operation'', useN)])
              else None, T')) (runConcurrently R checker modifier T))"

definition verifyDataRace :: "rule_env \<Rightarrow> thread_pair \<Rightarrow> rule \<Rightarrow> tct \<Rightarrow> (stateful_bug option \<times> tct) option" where
  "verifyDataRace R p r T =
     (let readN = roleNode R r ''read_operation''; writeN = roleNode R r ''write_operation'' in
      if readN = null \<or> writeN = null then Some (None, T)
      else map_option (\<lambda>(b, T'). (if b
             then Some (bugOf r p [(''[READ] Operation'', readN), (''[WRITE - Concurrent] Operation'', writeN)])
             else None, T')) (runConcurrently R (tp_thread1 p) (tp_thread2 p) T))"

text \<open>The common part of the checks of two operations that need not run in different threads.\<close>

definition twoOperations :: "rule_env \<Rightarrow> thread_pair \<Rightarrow> ptr \<Rightarrow> ptr \<Rightarrow> tct \<Rightarrow> (bool \<times> tct) option" where
  "twoOperations R p a b T =
     (if a = null \<or> b = null then Some (False, T)
      else let ta = threadWith T p a; tb = threadWith T p b in
        if ta = null \<or> tb = null then Some (False, T)
        else if ta = tb then Some (is_reachable_intra_thread (re_graph R) T a b ta, T)
        else runConcurrently R ta tb T)"

definition verifyUseAfterFree :: "rule_env \<Rightarrow> thread_pair \<Rightarrow> rule \<Rightarrow> tct \<Rightarrow> (stateful_bug option \<times> tct) option" where
  "verifyUseAfterFree R p r T =
     (let freeN = roleNode R r ''free_operation''; useN = roleNode R r ''use_operation'' in
      map_option (\<lambda>(b, T'). (if b then Some (bugOf r p [(''[FREE] Operation'', freeN), (''[USE] Operation'', useN)])
          else None, T')) (twoOperations R p freeN useN T))"

definition verifyDoubleFree :: "rule_env \<Rightarrow> thread_pair \<Rightarrow> rule \<Rightarrow> tct \<Rightarrow> (stateful_bug option \<times> tct) option" where
  "verifyDoubleFree R p r T =
     (let a = roleNode R r ''first_free_operation''; b = roleNode R r ''second_free_operation'' in
      map_option (\<lambda>(v, T'). (if v then Some (bugOf r p [(''[FIRST FREE] Operation'', a), (''[SECOND FREE] Operation'', b)])
          else None, T')) (twoOperations R p a b T))"

definition siteContext :: "ccpg \<Rightarrow> ptr \<Rightarrow> context_stack" where
  "siteContext g n = (case fn_contexts (funH g (nd_function (nodeH g n))) of [] \<Rightarrow> [] | c # _ \<Rightarrow> c)"

definition accessesAt :: "rule_env \<Rightarrow> ptr \<Rightarrow> location_access list" where
  "accessesAt R n =
     getMemoryAccessesFromLocation (re_access R) (re_graph R) (nd_loc (nodeH (re_graph R) n)) (siteContext (re_graph R) n)"

definition mayTouchSame :: "rule_env \<Rightarrow> ptr \<Rightarrow> ptr \<Rightarrow> bool" where
  "mayTouchSame R n m \<longleftrightarrow>
     list_ex (\<lambda>a. list_ex (\<lambda>b. isAlias (re_build R) (ma_pointer a) (ma_pointer b)) (accessesAt R m)) (accessesAt R n)"

definition verifyNullDereference :: "rule_env \<Rightarrow> thread_pair \<Rightarrow> rule \<Rightarrow> tct \<Rightarrow> (stateful_bug option \<times> tct) option" where
  "verifyNullDereference R p r T =
     (let a = roleNode R r ''null_assignment_operation''; b = roleNode R r ''dereference_operation'' in
      map_option (\<lambda>(v, T'). (if v \<and> mayTouchSame R a b
          then Some (bugOf r p [(''[NULL ASSIGNMENT] Operation'', a), (''[DEREFERENCE] Operation'', b)])
          else None, T')) (twoOperations R p a b T))"

definition verifyDeadlock :: "rule_env \<Rightarrow> thread_pair \<Rightarrow> rule \<Rightarrow> tct \<Rightarrow> (stateful_bug option \<times> tct) option" where
  "verifyDeadlock R p r T =
     (let t1_lock1 = roleNode R r ''thread1_first_lock''; t1_lock2 = roleNode R r ''thread1_second_lock'';
          t2_lock1 = roleNode R r ''thread2_first_lock''; t2_lock2 = roleNode R r ''thread2_second_lock'';
          g = re_graph R; E = re_build R in
      if t1_lock1 = null \<or> t1_lock2 = null \<or> t2_lock1 = null \<or> t2_lock2 = null then Some (None, T)
      else map_option (\<lambda>(b, T').
        (if b \<and> is_reachable_intra_thread g T' t1_lock1 t1_lock2 (tp_thread1 p)
             \<and> is_reachable_intra_thread g T' t2_lock1 t2_lock2 (tp_thread2 p)
             \<and> isLockAlias E g t1_lock1 t2_lock2 \<and> isLockAlias E g t1_lock2 t2_lock1
             \<and> \<not> isLockAlias E g t1_lock1 t1_lock2
         then Some (bugOf r p [(''[Thread 1] Acquires Lock A'', t1_lock1), (''[Thread 2] Acquires Lock B'', t2_lock1),
                               (''[Thread 1] Waits for Lock B'', t1_lock2), (''[Thread 2] Waits for Lock A'', t2_lock2)])
         else None, T')) (runConcurrently R (tp_thread1 p) (tp_thread2 p) T))"

definition verifyRule :: "rule_env \<Rightarrow> thread_pair \<Rightarrow> rule \<Rightarrow> tct \<Rightarrow> (stateful_bug option \<times> tct) option" where
  "verifyRule R p r T =
     (case ru_kind r of
        TOCTOURule \<Rightarrow> verifyTOCTOU R p r T
      | DataRaceRule \<Rightarrow> verifyDataRace R p r T
      | UseAfterFreeRule \<Rightarrow> verifyUseAfterFree R p r T
      | DoubleFreeRule \<Rightarrow> verifyDoubleFree R p r T
      | NullPointerDereferenceRule \<Rightarrow> verifyNullDereference R p r T
      | DeadlockRule \<Rightarrow> verifyDeadlock R p r T)"

end
