(* ===== verification/Reports.thy ===== *)
theory Reports
  imports Rules
begin

text \<open>
  The stateful detector (src/Query/StatefulBugDetector.cpp and its header): the checks of the
  temporal rules of all thread pairs with the filter of benign publications, the hypotheses the
  second pass confirms, and the report file with its groups of hypotheses of one signature.
  The verdicts of the verification agent and the printing of JSON values are arguments.  The
  groups are kept in the order of their first member, which is the order they are printed in.
\<close>

definition NL :: string where "NL = [CHR 0x0A]"

definition codeAt :: "ccpg \<Rightarrow> ptr \<Rightarrow> string" where
  "codeAt g n = (if nd_cpg (nodeH g n) = null then [] else getCode (cpgH g (nd_cpg (nodeH g n))))"

subsection \<open>Field signatures\<close>

definition isIdentStart :: "char \<Rightarrow> bool" where
  "isIdentStart c = (let n = (of_char c :: nat) in 65 \<le> n \<and> n \<le> 90 \<or> 97 \<le> n \<and> n \<le> 122 \<or> n = 95)"

definition isIdentChar :: "char \<Rightarrow> bool" where
  "isIdentChar c \<longleftrightarrow> isIdentStart c \<or> isDigit c"

text \<open>
  The two regular expressions: a field reference, and one that is assigned to.  No proper suffix
  of a match starts another one, so it does not matter where the search for the next one resumes.
\<close>

fun afterAccess :: "string \<Rightarrow> string option" where
  "afterAccess (c # s) = (if c = CHR ''.'' then Some s
     else case s of d # s' \<Rightarrow> if c = CHR ''-'' \<and> d = CHR ''>'' then Some s' else None | [] \<Rightarrow> None)"
| "afterAccess [] = None"

definition fieldAt :: "string \<Rightarrow> (string \<times> string) option" where
  "fieldAt s = Option.bind (afterAccess s) (\<lambda>r. let t = dropWhile isSpace r in
     if t \<noteq> [] \<and> isIdentStart (hd t) then Some (takeWhile isIdentChar t, dropWhile isIdentChar t) else None)"

definition skipIndex :: "string \<Rightarrow> string" where
  "skipIndex s = (case s of
      c # r \<Rightarrow> if c = CHR ''['' then (case dropWhile (\<lambda>d. d \<noteq> CHR '']'') r of [] \<Rightarrow> s | _ # t \<Rightarrow> t) else s
    | [] \<Rightarrow> s)"

definition assigns :: "string \<Rightarrow> bool" where
  "assigns s = (case dropWhile isSpace (skipIndex (dropWhile isSpace s)) of
      [] \<Rightarrow> False
    | c # r \<Rightarrow> c = CHR ''='' \<or> c \<in> set ''+-*/&|^'' \<and> r \<noteq> [] \<and> hd r = CHR ''='')"

fun assignedField :: "string \<Rightarrow> string option" where
  "assignedField [] = None"
| "assignedField (c # s) = (case fieldAt (c # s) of
      Some (f, r) \<Rightarrow> if assigns r then Some f else assignedField s
    | None \<Rightarrow> assignedField s)"

fun lastField :: "string \<Rightarrow> string \<Rightarrow> string" where
  "lastField f [] = f"
| "lastField f (c # s) = lastField (case fieldAt (c # s) of Some (f', r) \<Rightarrow> f' | None \<Rightarrow> f) s"

definition extractFieldSignature :: "string \<Rightarrow> string" where
  "extractFieldSignature code = (case assignedField code of Some f \<Rightarrow> f | None \<Rightarrow> lastField [] code)"

definition functionNameOf :: "ccpg \<Rightarrow> ptr \<Rightarrow> string" where
  "functionNameOf g n =
     (if n = null then [] else let f = nd_function (nodeH g n) in
      if f = null then [] else let fn = fn_funcNode (funH g f) in
      if fn = null then [] else let c = nd_cpg (nodeH g fn) in if c = null then [] else getName (cpgH g c))"

record hypo_sig =
  hs_fields :: "string list"
  hs_fns :: "string list"
  hs_ids :: "int list"

definition sortedSet :: "'a::linorder list \<Rightarrow> 'a list" where
  "sortedSet xs = sort (remdups xs)"

definition nonEmpty :: "string list \<Rightarrow> string list" where
  "nonEmpty xs = filter (\<lambda>x. x \<noteq> []) xs"

definition sigNodes :: "ccpg option \<Rightarrow> hypothesis \<Rightarrow> ptr list" where
  "sigNodes og h = (case og of None \<Rightarrow> [] | Some g \<Rightarrow> filter (\<lambda>n. n \<noteq> null) (map (\<lambda>(_, i). getNodeByID g i) (hy_nodes h)))"

definition computeSignature :: "ccpg option \<Rightarrow> hypothesis \<Rightarrow> hypo_sig" where
  "computeSignature og h =
     (let fields = (case og of None \<Rightarrow> [] | Some g \<Rightarrow>
            sortedSet (nonEmpty (map (\<lambda>n. extractFieldSignature (codeAt g n)) (sigNodes og h))));
          fns = (case og of None \<Rightarrow> [] | Some g \<Rightarrow> sortedSet (nonEmpty (map (functionNameOf g) (sigNodes og h))))
      in \<lparr>hs_fields = fields, hs_fns = fns, hs_ids = (if fields = [] then sortedSet (map snd (hy_nodes h)) else [])\<rparr>)"

subsection \<open>Benign publications\<close>

definition roleStep :: "(string \<times> ptr) \<Rightarrow> ptr \<times> ptr \<Rightarrow> ptr \<times> ptr" where
  "roleStep s rw = (if contains (fst s) ''read'' then (snd s, snd rw)
     else if contains (fst s) ''write'' then (fst rw, snd s) else rw)"

definition looksLikeTable :: "string \<Rightarrow> bool" where
  "looksLikeTable s \<longleftrightarrow> contains s ''['' \<and> contains s '']'' \<and> contains s ''=''"

definition isLikelyBenignPublicationRace :: "ccpg \<Rightarrow> stateful_bug \<Rightarrow> bool" where
  "isLikelyBenignPublicationRace g b =
     (let pattern = (case sb_rule b of JObj m \<Rightarrow> map_of m ''pattern_type'' | _ \<Rightarrow> None) in
      if pattern \<noteq> Some (JStr ''DataRace'') then False
      else let (readNode, writeNode) = fold roleStep (sb_path b) (null, null) in
      if readNode = null \<or> writeNode = null then False
      else let f = nd_function (nodeH g writeNode); fn = fn_funcNode (funH g f); c = nd_cpg (nodeH g fn) in
      if f = null \<or> fn = null \<or> c = null then False
      else let writeFuncCode = getCode (cpgH g c); writeLine = codeAt g writeNode; readLine = codeAt g readNode;
               hasNullGuard = (contains writeFuncCode ''NULL'' \<and>
                 (contains writeFuncCode ''if (NULL =='' \<or> contains writeFuncCode ''if (NULL==''));
               hasAllocatorHint = (contains writeFuncCode ''calloc('' \<or> contains writeFuncCode ''malloc('')
           in hasNullGuard \<and> hasAllocatorHint \<and> looksLikeTable writeLine \<and> looksLikeTable readLine \<and>
              (writeLine = [] \<or> contains writeFuncCode writeLine))"

subsection \<open>Detection\<close>

record external_bug =
  eb_bugType :: string
  eb_functionName :: string
  eb_description :: string
  eb_sharedVariable :: string
  eb_evidence :: string

record detector =
  detectedBugs :: "stateful_bug list"
  externalBugs :: "external_bug list"
  confirmedHypotheses :: "hypothesis list"
  hypothesisCcpg :: "ccpg option"

definition emptyDetector :: detector where
  "emptyDetector = \<lparr>detectedBugs = [], externalBugs = [], confirmedHypotheses = [], hypothesisCcpg = None\<rparr>"

definition addExternalBug :: "external_bug \<Rightarrow> detector \<Rightarrow> detector" where
  "addExternalBug b D = D\<lparr>externalBugs := externalBugs D @ [b]\<rparr>"

definition confirmed :: "('a \<Rightarrow> bool) option \<Rightarrow> 'a \<Rightarrow> bool" where
  "confirmed agent x = (case agent of None \<Rightarrow> True | Some f \<Rightarrow> f x)"

definition keepBug :: "rule_env \<Rightarrow> (stateful_bug \<Rightarrow> bool) option \<Rightarrow> rule \<Rightarrow> stateful_bug option \<Rightarrow>
    stateful_bug list \<Rightarrow> stateful_bug list" where
  "keepBug R agent r ob bs =
     (case ob of None \<Rightarrow> bs
      | Some b \<Rightarrow>
          if get_pattern_type (ru_kind r) = ''DataRace'' \<and> isLikelyBenignPublicationRace (re_graph R) b then bs
          else if confirmed agent b then bs @ [b] else bs)"

fun detectRules :: "rule_env \<Rightarrow> (stateful_bug \<Rightarrow> bool) option \<Rightarrow> thread_pair \<Rightarrow> rule list \<Rightarrow>
    stateful_bug list \<Rightarrow> tct \<Rightarrow> (stateful_bug list \<times> tct) option" where
  "detectRules R agent p [] bs T = Some (bs, T)"
| "detectRules R agent p (r # rs) bs T =
     Option.bind (verifyRule R p r T) (\<lambda>(ob, T'). detectRules R agent p rs (keepBug R agent r ob bs) T')"

fun detectPairs :: "rule_env \<Rightarrow> (stateful_bug \<Rightarrow> bool) option \<Rightarrow> thread_pair list \<Rightarrow>
    stateful_bug list \<Rightarrow> tct \<Rightarrow> (stateful_bug list \<times> tct) option" where
  "detectPairs R agent [] bs T = Some (bs, T)"
| "detectPairs R agent (p # ps) bs T =
     Option.bind (detectRules R agent p (temporal_rules p) bs T) (\<lambda>(bs', T'). detectPairs R agent ps bs' T')"

definition detect :: "rule_env \<Rightarrow> (stateful_bug \<Rightarrow> bool) option \<Rightarrow> thread_pair list \<Rightarrow> detector \<Rightarrow> tct \<Rightarrow>
    (detector \<times> tct) option" where
  "detect R agent ps D T =
     map_option (\<lambda>(bs, T'). (D\<lparr>detectedBugs := bs\<rparr>, T')) (detectPairs R agent ps (detectedBugs D) T)"

definition detectFromHypotheses :: "(hypothesis \<Rightarrow> bool) option \<Rightarrow> hypothesis list \<Rightarrow> ccpg \<Rightarrow> detector \<Rightarrow> detector" where
  "detectFromHypotheses agent hs g D =
     D\<lparr>hypothesisCcpg := Some g,
       confirmedHypotheses := foldl (\<lambda>kept h. if confirmed agent h then kept @ [h] else kept) (confirmedHypotheses D) hs\<rparr>"

definition getTotalBugCount :: "detector \<Rightarrow> nat" where
  "getTotalBugCount D = length (detectedBugs D) + length (externalBugs D) + length (confirmedHypotheses D)"

subsection \<open>Groups\<close>

fun addToGroup :: "'k \<Rightarrow> nat \<Rightarrow> ('k \<times> nat list) list \<Rightarrow> ('k \<times> nat list) list" where
  "addToGroup k i [] = [(k, [i])]"
| "addToGroup k i ((k', is) # m) = (if k' = k then (k', is @ [i]) # m else (k', is) # addToGroup k i m)"

definition signatureGroups :: "detector \<Rightarrow> (hypo_sig \<times> nat list) list" where
  "signatureGroups D = foldl (\<lambda>m i. addToGroup (computeSignature (hypothesisCcpg D) (confirmedHypotheses D ! i)) i m) []
     [0 ..< length (confirmedHypotheses D)]"

definition moreDetailed :: "hypothesis \<Rightarrow> hypothesis \<Rightarrow> bool" where
  "moreDetailed b a \<longleftrightarrow> length (hy_description b) > length (hy_description a) \<or>
     length (hy_description b) = length (hy_description a) \<and> hy_id b < hy_id a"

definition pickRepresentative :: "nat list \<Rightarrow> hypothesis list \<Rightarrow> nat" where
  "pickRepresentative ms xs = foldl (\<lambda>best i. if moreDetailed (xs ! i) (xs ! best) then i else best) (hd ms) ms"

subsection \<open>The report\<close>

definition joinPath :: "path \<Rightarrow> string" where
  "joinPath p = (let rel = (if isAbsolute p then tl p else p) in
     (if isAbsolute p then ''/'' else []) @
     concat (map (\<lambda>(i, c). if i = 0 then c else ''/'' @ c) (enumerate 0 rel)))"

definition locText :: "node_loc \<Rightarrow> string" where
  "locText l = joinPath (fileName l) @ '':'' @ int_to_string (lineNumber l)"

definition externalText :: "external_bug \<Rightarrow> string" where
  "externalText b = ''========== '' @ eb_bugType b @ '' Detected =========='' @ NL @
     ''Function: '' @ eb_functionName b @ NL @
     (if eb_sharedVariable b = [] then [] else ''Shared Variable: '' @ eb_sharedVariable b @ NL) @
     ''Description: '' @ eb_description b @ NL @
     (if eb_evidence b = [] then [] else ''Evidence: '' @ eb_evidence b @ NL) @
     ''==========================================================''"

definition ruleText :: "json \<Rightarrow> string \<Rightarrow> string result" where
  "ruleText j k = (case j of JObj m \<Rightarrow> (case map_of m k of Some (JStr s) \<Rightarrow> Ok s | _ \<Rightarrow> Throw) | _ \<Rightarrow> Throw)"

definition bugText :: "ccpg \<Rightarrow> tct \<Rightarrow> stateful_bug \<Rightarrow> string result" where
  "bugText g T b =
     (case (ruleText (sb_rule b) ''rule_id'', ruleText (sb_rule b) ''_llm_summary'', ruleText (sb_rule b) ''shared_object_type'') of
        (Ok i, Ok d, Ok t) \<Rightarrow> Ok (
          ''========== Stateful Protocol Violation Detected =========='' @ NL @
          ''Rule Violated: '' @ i @ NL @ ''Description: '' @ d @ NL @ ''Shared Object Type: '' @ t @ NL @ NL @
          ''Violation observed between Thread '' @ to_string (th_id (thr T (sb_thread1 b))) @ '' and Thread '' @
            to_string (th_id (thr T (sb_thread2 b))) @ ''.'' @ NL @ NL @
          ''--- Forbidden Sequence Trace ---'' @ NL @
          concat (map (\<lambda>(step, n). ''  -> '' @ step @ '' at '' @ locText (nd_loc (nodeH g n)) @ ''.     Code : '' @
            getCode (cpgH g (nd_cpg (nodeH g n))) @ NL) (sb_path b)) @
          ''=========================================================='')
      | _ \<Rightarrow> Throw)"

definition toReportString :: "(json \<Rightarrow> string) \<Rightarrow> ccpg option \<Rightarrow> hypothesis \<Rightarrow> string" where
  "toReportString dump og h =
     ''========== Mechanism-Rule Violation Detected =========='' @ NL @
     ''Rule: '' @ hy_id h @ NL @
     ''Mechanism: '' @ hy_bug_category h @ '' (severity: '' @ hy_severity h @ '')'' @ NL @
     ''Description: '' @ hy_description h @ NL @ NL @ ''--- Involved Nodes ---'' @ NL @
     concat (map (\<lambda>(rl, i). ''  '' @ rl @ '' (node '' @ int_to_string i @ ''): '' @
       (let n = (case og of None \<Rightarrow> null | Some g \<Rightarrow> getNodeByID g i) in
        case og of None \<Rightarrow> ''[node not found]''
        | Some g \<Rightarrow> if n \<noteq> null \<and> nd_cpg (nodeH g n) \<noteq> null
            then codeAt g n @ ''  ['' @ locText (nd_loc (nodeH g n)) @ '']'' else ''[node not found]'') @ NL) (hy_nodes h)) @
     NL @ ''--- Verified Constraints ---'' @ NL @
     concat (map (\<lambda>(i, c). ''  ['' @ to_string i @ ''] '' @ ct_predicate c @ '' '' @ dump (ct_args c) @ NL)
       (enumerate 0 (hy_constraints h))) @
     ''========================================================''"

text \<open>The first sentence of a description, at most 240 bytes.\<close>

definition brief :: "string \<Rightarrow> string" where
  "brief d = (let stop = (\<lambda>c. c \<in> set ''.!?'' \<or> c = CHR 0x0A); a = takeWhile (\<lambda>c. \<not> stop c) d;
       s = a @ take 1 (dropWhile (\<lambda>c. \<not> stop c) d)
     in if length s > 240 then take 240 s @ [CHR 0xE2, CHR 0x80, CHR 0xA6] else s)"

definition angleText :: "nat \<Rightarrow> hypothesis \<Rightarrow> string" where
  "angleText k h = NL @ ''  ['' @ to_string k @ ''] '' @ hy_id h @
     (if hy_severity h = [] then [] else '' (severity: '' @ hy_severity h @ '')'') @
     (if hy_nodes h = [] then [] else '' | nodes:'' @ concat (map (\<lambda>(rl, i). '' '' @ rl @ ''='' @ int_to_string i) (hy_nodes h))) @
     (if hy_description h = [] then [] else NL @ ''      '' @ brief (hy_description h))"

definition alternates :: "nat list \<Rightarrow> hypothesis list \<Rightarrow> nat list" where
  "alternates ms xs = filter (\<lambda>i. i \<noteq> pickRepresentative ms xs) ms"

definition groupText :: "(json \<Rightarrow> string) \<Rightarrow> detector \<Rightarrow> nat list \<Rightarrow> string" where
  "groupText dump D ms =
     (let xs = confirmedHypotheses D in
      toReportString dump (hypothesisCcpg D) (xs ! pickRepresentative ms xs) @
      (if length ms > 1
       then NL @ ''--- Alternate Angles ('' @ to_string (length ms - 1) @
            '' additional hypothesis instance(s) on the same race) ---'' @
            concat (map (\<lambda>(k, i). angleText k (xs ! i)) (enumerate 1 (alternates ms xs)))
       else []))"

fun collectTexts :: "string result list \<Rightarrow> string list result" where
  "collectTexts [] = Ok []"
| "collectTexts (Throw # rs) = Throw"
| "collectTexts (Ok s # rs) = (case collectTexts rs of Ok ss \<Rightarrow> Ok (s # ss) | Throw \<Rightarrow> Throw)"

definition entryText :: "nat \<times> string \<Rightarrow> string" where
  "entryText e = snd e @ NL @ NL @ ''count  '' @ to_string (fst e) @ '' ----------------------------------------'' @ NL"

text \<open>The contents of bugs.txt; no file is written when there is nothing to report.\<close>

definition printResults :: "(json \<Rightarrow> string) \<Rightarrow> ccpg \<Rightarrow> tct \<Rightarrow> detector \<Rightarrow> string option result" where
  "printResults dump g T D =
     (let groups = signatureGroups D in
      if length (detectedBugs D) + length (externalBugs D) + length groups = 0 then Ok None
      else case collectTexts (map (bugText g T) (detectedBugs D)) of
        Throw \<Rightarrow> Throw
      | Ok texts \<Rightarrow> Ok (Some (concat (map entryText
          (enumerate 1 (map externalText (externalBugs D) @ texts @ map (\<lambda>(_, ms). groupText dump D ms) groups))))))"

end
