(* ===== verification/ParallelFacts.thy ===== *)
theory ParallelFacts
  imports ParallelLocs
begin

text \<open>
  Facts about the locations of two threads: what the location maps contain, that the cache
  never changes an answer, and that the answer for the swapped pair is the swapped answer.
\<close>

subsection \<open>Locations as keys\<close>

definition locKey :: "node_loc \<Rightarrow> int \<times> string" where
  "locKey l = (lineNumber l, getBaseFileName l)"

lemma nodeLoc_eq_iff: "nodeLoc_eq a b \<longleftrightarrow> locKey a = locKey b"
proof -
  have "filename p = filename q" if "arePathsLikelySameFile p q" for p q
    using that by (auto simp: arePathsLikelySameFile_def filename_def split: if_splits)
  then show ?thesis by (auto simp: nodeLoc_eq_def locKey_def getBaseFileName_def)
qed

lemma hasLoc_iff: "hasLoc l m \<longleftrightarrow> locKey l \<in> (locKey \<circ> fst) ` set m"
  by (force simp: hasLoc_def list_ex_iff nodeLoc_eq_iff)

text \<open>The nodes that give a location, and the map they give.\<close>

definition located :: "ccpg \<Rightarrow> ptr \<Rightarrow> bool" where
  "located g n \<longleftrightarrow> lineNumber (nd_loc (nodeH g n)) > 0 \<and> nd_function (nodeH g n) \<noteq> null"

definition locsFor :: "ccpg \<Rightarrow> tct \<Rightarrow> ptr \<Rightarrow> ptr set \<Rightarrow> loc_map \<Rightarrow> bool" where
  "locsFor g T t N m \<longleftrightarrow> distinct (map (locKey \<circ> fst) m) \<and>
     (locKey \<circ> fst) ` set m = (\<lambda>n. locKey (nd_loc (nodeH g n))) ` {n \<in> N. located g n} \<and>
     (\<forall>(l, c) \<in> set m. \<exists>n \<in> N. located g n \<and> l = nd_loc (nodeH g n) \<and> c = locContext g T t (nd_function (nodeH g n)))"

lemma addLoc_ok: "locsFor g T t N m \<Longrightarrow> locsFor g T t (insert n N) (addLoc g T t m n)"
proof -
  assume m: "locsFor g T t N m"
  let ?l = "nd_loc (nodeH g n)"
  have N: "{k \<in> insert n N. located g k} = (if located g n then insert n {k \<in> N. located g k} else {k \<in> N. located g k})" by auto
  show ?thesis
  proof (cases "located g n \<and> \<not> hasLoc ?l m")
    case True
    then have a: "addLoc g T t m n = m @ [(?l, locContext g T t (nd_function (nodeH g n)))]" and l: "located g n"
      by (simp_all add: addLoc_def located_def Let_def)
    show ?thesis using m True unfolding locsFor_def a N hasLoc_iff by auto
  next
    case False
    then have a: "addLoc g T t m n = m" by (auto simp: addLoc_def located_def Let_def)
    have k: "(\<lambda>n. locKey (nd_loc (nodeH g n))) ` {k \<in> insert n N. located g k} =
        (\<lambda>n. locKey (nd_loc (nodeH g n))) ` {n \<in> N. located g n}"
    proof (cases "located g n")
      case True
      with False have "locKey ?l \<in> (locKey \<circ> fst) ` set m" by (simp add: hasLoc_iff)
      then have "locKey ?l \<in> (\<lambda>n. locKey (nd_loc (nodeH g n))) ` {n \<in> N. located g n}" using m by (simp add: locsFor_def)
      with True show ?thesis unfolding N by (simp add: insert_absorb)
    next
      case False
      then show ?thesis unfolding N by simp
    qed
    show ?thesis using m unfolding locsFor_def a k by auto
  qed
qed

lemma addLocs_exact: "locsFor g T t (set ns) (foldl (addLoc g T t) [] ns)"
proof -
  have "locsFor g T t N m \<Longrightarrow> locsFor g T t (N \<union> set ns) (foldl (addLoc g T t) m ns)" for N m
  proof (induction ns arbitrary: N m)
    case (Cons n ns)
    from Cons.IH[OF addLoc_ok[OF Cons.prems]] show ?case by simp
  qed simp
  moreover have "locsFor g T t {} []" by (simp add: locsFor_def)
  ultimately show ?thesis by force
qed

lemma findAllLocs_exact:
  "threadMainFunction (thr T t) \<noteq> null \<Longrightarrow> locsFor g T t (set (th_nodes (thr T t))) (findAllLocs g T t)"
  using addLocs_exact by (simp add: findAllLocs_def)

subsection \<open>The answer without caches\<close>

lemma addLoc_heap: "threadH T' = threadH T \<Longrightarrow> addLoc g T' = addLoc g T"
  by (intro ext) (simp only: addLoc_def locContext_def findCallPath_def)

lemma findAllLocs_heap:
  assumes "threadH T' = threadH T"
  shows "findAllLocs g T' = findAllLocs g T"
  unfolding findAllLocs_def[abs_def] addLoc_heap[OF assms] assms ..

lemma concurrentScope_heap:
  assumes "threadH T' = threadH T"
  shows "concurrentScope iter g T' = concurrentScope iter g T"
  unfolding concurrentScope_def[abs_def] getReachableNodes_def assms ..

definition pairLocs :: "(ptr set \<Rightarrow> ptr list) \<Rightarrow> ccpg \<Rightarrow> tct \<Rightarrow> ptr \<Rightarrow> ptr \<Rightarrow> loc_map \<times> loc_map" where
  "pairLocs iter g T t1 t2 =
     (if parent (thr T t1) \<noteq> null \<and> parent (thr T t1) = parent (thr T t2) then (findAllLocs g T t1, findAllLocs g T t2)
      else if ancestorOf T t1 t2 then (foldl (addLoc g T t1) [] (concurrentScope iter g T t1 t2), findAllLocs g T t2)
      else if ancestorOf T t2 t1 then (findAllLocs g T t1, foldl (addLoc g T t2) [] (concurrentScope iter g T t2 t1))
      else ([], []))"

lemma locsOfPair_eq:
  assumes "tree_wf T" "threadH T' = threadH T"
  shows "locsOfPair iter g t1 t2 T' = Some (pairLocs iter g T t1 t2)"
proof -
  have "tree_wf T'" using assms tree_wf_heap by blast
  show ?thesis
    unfolding locsOfPair_def pairLocs_def isDescendant_total[OF \<open>tree_wf T'\<close>] ancestorOf_heap[OF assms(2)]
      findAllLocs_heap[OF assms(2)] addLoc_heap[OF assms(2)] concurrentScope_heap[OF assms(2)] assms(2) by simp
qed

definition parallelSpec :: "config \<Rightarrow> sharing \<Rightarrow> (ptr set \<Rightarrow> ptr list) \<Rightarrow> ccpg \<Rightarrow> tct \<Rightarrow> ptr \<Rightarrow> ptr \<Rightarrow> loc_map \<times> loc_map" where
  "parallelSpec cfg shared iter g T t1 t2 =
     (if concurrent cfg shared g T t1 t2 = Some True then pairLocs iter g T t1 t2 else ([], []))"

definition lt_ok :: "config \<Rightarrow> sharing \<Rightarrow> (ptr set \<Rightarrow> ptr list) \<Rightarrow> ccpg \<Rightarrow> loc_state \<Rightarrow> bool" where
  "lt_ok cfg shared iter g S \<longleftrightarrow> tree_wf (lt_tree S) \<and> caches_ok cfg shared g (lt_tree S) \<and>
     (\<forall>a b r. lt_cache S (a, b) = Some r \<longrightarrow> r = parallelSpec cfg shared iter g (lt_tree S) a b)"

lemma parallelSpec_heap:
  assumes "threadH T' = threadH T" "tree_wf T"
  shows "parallelSpec cfg shared iter g T' a b = parallelSpec cfg shared iter g T a b"
  unfolding parallelSpec_def pairLocs_def concurrent_heap[OF assms] ancestorOf_heap[OF assms(1)]
    findAllLocs_heap[OF assms(1)] addLoc_heap[OF assms(1)] concurrentScope_heap[OF assms(1)] assms(1) ..

lemma ancestorOf_asym:
  assumes "tree_wf T" "ancestorOf T a t"
  shows "\<not> ancestorOf T t a"
proof
  assume "ancestorOf T t a"
  from assms(1) obtain rank :: "ptr \<Rightarrow> nat" where r: "\<And>t. parent (thr T t) \<noteq> null \<Longrightarrow> rank (parent (thr T t)) < rank t"
    unfolding tree_wf_def by blast
  have le: "rank a \<le> rank p" if "(childOf T)\<^sup>*\<^sup>* p a" for p a
    using that
  proof induction
    case (step y z)
    with r[of y] show ?case by (auto simp: childOf_def)
  qed simp
  have "rank a < rank t" if "ancestorOf T a t" for a t
    using r[of t] le[of "parent (thr T t)" a] that by (simp add: ancestorOf_def)
  from this[OF assms(2)] this[OF \<open>ancestorOf T t a\<close>] show False by simp
qed

lemma parallelSpec_swap:
  assumes "tree_wf T" "sharing_sym shared"
  shows "parallelSpec cfg shared iter g T t2 t1 = prod.swap (parallelSpec cfg shared iter g T t1 t2)"
  using ancestorOf_asym[OF assms(1)] concurrent_sym[OF assms, of cfg g t1 t2]
  by (auto simp: parallelSpec_def pairLocs_def)

lemma computeParallelLocs_eq:
  assumes "tree_wf T" "sharing_sym shared" "caches_ok cfg shared g T"
  shows "\<exists>T'. computeParallelLocs cfg shared iter g a b T = Some (parallelSpec cfg shared iter g T a b, T') \<and>
    caches_ok cfg shared g T' \<and> threadH T' = threadH T"
proof -
  obtain r T' where c: "mayThreadsRunConcurrently cfg shared g a b T = Some (r, T')" "concurrent cfg shared g T a b = Some r"
    "caches_ok cfg shared g T'" "threadH T' = threadH T"
    using mayThreadsRunConcurrently_cached[OF assms(1,2,3) refl, of a b] by blast
  then show ?thesis using locsOfPair_eq[OF assms(1) c(4)] by (auto simp: computeParallelLocs_def parallelSpec_def)
qed

lemma getParallelLocs_correct:
  assumes ok: "lt_ok cfg shared iter g S" and sym: "sharing_sym shared"
  shows "\<exists>S'. getParallelLocs cfg shared iter g t1 t2 S = Some (parallelSpec cfg shared iter g (lt_tree S) t1 t2, S') \<and>
    lt_ok cfg shared iter g S' \<and> threadH (lt_tree S') = threadH (lt_tree S) \<and> lt_cache S' (cacheKey t1 t2) \<noteq> None"
proof -
  let ?T = "lt_tree S" let ?spec = "parallelSpec cfg shared iter g ?T" let ?k = "cacheKey t1 t2"
  have wf: "tree_wf ?T" and co: "caches_ok cfg shared g ?T"
    and cache: "\<And>a b r. lt_cache S (a, b) = Some r \<Longrightarrow> r = ?spec a b" using ok unfolding lt_ok_def by blast+
  have turn: "(if fst ?k = t1 then id else prod.swap) (?spec (fst ?k) (snd ?k)) = ?spec t1 t2"
    using parallelSpec_swap[OF wf sym, of cfg iter g t1 t2] by (auto simp: cacheKey_def)
  show ?thesis
  proof (cases "lt_cache S ?k")
    case (Some r)
    then have "r = ?spec (fst ?k) (snd ?k)" using cache[of "fst ?k" "snd ?k"] by simp
    with Some turn ok show ?thesis by (auto simp: getParallelLocs_def Let_def)
  next
    case None
    obtain T' where T': "computeParallelLocs cfg shared iter g (fst ?k) (snd ?k) ?T = Some (?spec (fst ?k) (snd ?k), T')"
      "caches_ok cfg shared g T'" "threadH T' = threadH ?T" using computeParallelLocs_eq[OF wf sym co] by blast
    let ?S' = "S\<lparr>lt_tree := T', lt_cache := (lt_cache S)(?k \<mapsto> ?spec (fst ?k) (snd ?k))\<rparr>"
    have "tree_wf T'" using wf T'(3) tree_wf_heap by blast
    moreover have "r = ?spec a b" if "lt_cache ?S' (a, b) = Some r" for a b r
    proof (cases "(a, b) = ?k")
      case True
      then have k: "cacheKey t1 t2 = (a, b)" by simp
      show ?thesis using that unfolding k by simp
    next
      case False
      then have "lt_cache S (a, b) = Some r" using that by simp
      then show ?thesis by (rule cache)
    qed
    ultimately have "lt_ok cfg shared iter g ?S'"
      unfolding lt_ok_def using T'(2) parallelSpec_heap[OF T'(3) wf] by (simp del: fun_upd_apply)
    moreover have "getParallelLocs cfg shared iter g t1 t2 S = Some (?spec t1 t2, ?S')"
      unfolding getParallelLocs_def Let_def None T'(1) turn[symmetric] by simp
    ultimately show ?thesis using T'(3) by auto
  qed
qed

subsection \<open>Accesses\<close>

lemma addAccesses:
  "foldl (\<lambda>M a. if p a then addAccess (key a) M a else M) M as v = M v @ filter (\<lambda>a. p a \<and> key a = v) as"
  by (induction as arbitrary: M) (auto simp: addAccess_def)

lemma accessMapOf_exact: "accessMapOf E A g cands locs v =
    filter (\<lambda>a. isShared E cands a \<and> accessKey A (ma_pointer a) = v)
      (concat (map (\<lambda>(l, ctx). getMemoryAccessesFromLocation A g l ctx) locs))"
  unfolding accessMapOf_def by (subst addAccesses[of "isShared E cands" "\<lambda>a. accessKey A (ma_pointer a)"]) simp

lemma buildRaw_exact: "ae_analyzer A \<Longrightarrow> buildRawMemoryAccessMap A order g T t v =
    filter (\<lambda>a. ma_pointer a = v) (concat (map (\<lambda>(l, ctx). getMemoryAccessesFromLocation A g l ctx) (order (findAllLocs g T t))))"
  using addAccesses[of "\<lambda>_. True" ma_pointer] by (simp add: buildRawMemoryAccessMap_def)

end
