(* ===== verification/RuleFacts.thy ===== *)
theory RuleFacts
  imports Rules ParallelFacts
begin

text \<open>
  What the checks of the temporal rules decide: the search along order edges finds exactly the
  paths, and each check answers as its declarative condition, with the concurrency of the two
  threads as the query without caches gives it.
\<close>

subsection \<open>Order paths\<close>

definition flowsTo :: "ccpg \<Rightarrow> tct \<Rightarrow> ptr \<Rightarrow> ptr \<Rightarrow> ptr \<Rightarrow> bool" where
  "flowsTo g T t a b \<longleftrightarrow> a \<noteq> null \<and> b \<noteq> null \<and> t \<noteq> null \<and>
     (a = b \<or> a \<in> nodesOf T t \<and> (inside (orderSuccs g) (th_nodes (thr T t)))\<^sup>+\<^sup>+ a b)"

lemma inside_last:
  assumes "v \<in> set U"
  shows "(\<exists>u. (inside succ U)\<^sup>*\<^sup>* s u \<and> v \<in> set (succ u)) \<longleftrightarrow> (inside succ U)\<^sup>+\<^sup>+ s v"
proof
  assume "\<exists>u. (inside succ U)\<^sup>*\<^sup>* s u \<and> v \<in> set (succ u)"
  then obtain u where "(inside succ U)\<^sup>*\<^sup>* s u" "inside succ U u v" using assms by (auto simp: inside_def)
  then show "(inside succ U)\<^sup>+\<^sup>+ s v" by (rule rtranclp_into_tranclp1)
next
  assume "(inside succ U)\<^sup>+\<^sup>+ s v"
  then obtain u where "(inside succ U)\<^sup>*\<^sup>* s u" "inside succ U u v"
    by (rule tranclp.cases) (auto intro: tranclp_into_rtranclp)
  then show "\<exists>u. (inside succ U)\<^sup>*\<^sup>* s u \<and> v \<in> set (succ u)" by (auto simp: inside_def)
qed

lemma tranclp_inside_target: "(inside succ U)\<^sup>+\<^sup>+ s v \<Longrightarrow> v \<in> set U"
  by (induction rule: tranclp_induct) (simp_all add: inside_def)

lemma is_reachable_iff: "is_reachable_intra_thread g T a b t \<longleftrightarrow> flowsTo g T t a b"
proof (cases "a = null \<or> b = null \<or> t = null \<or> a = b \<or> a \<notin> nodesOf T t \<or> b \<notin> nodesOf T t")
  case True
  then show ?thesis using tranclp_inside_target[of "orderSuccs g" "th_nodes (thr T t)" a b]
    by (auto simp: is_reachable_intra_thread_def flowsTo_def nodesOf_def)
next
  case False
  then have "is_reachable_intra_thread g T a b t \<longleftrightarrow>
      fst (search (orderSuccs g) (\<lambda>v. v = b) (th_nodes (thr T t)) [a] {a})"
    by (simp add: is_reachable_intra_thread_def nodesOf_def)
  also have "\<dots> \<longleftrightarrow> (\<exists>u. (inside (orderSuccs g) (th_nodes (thr T t)))\<^sup>*\<^sup>* a u \<and> b \<in> set (orderSuccs g u))"
    using search_start[of "orderSuccs g" "\<lambda>v. v = b" "th_nodes (thr T t)" a] by blast
  also have "\<dots> \<longleftrightarrow> (inside (orderSuccs g) (th_nodes (thr T t)))\<^sup>+\<^sup>+ a b"
    using False by (intro inside_last) (simp add: nodesOf_def)
  finally show ?thesis using False by (simp add: flowsTo_def)
qed

subsection \<open>What each rule asks for\<close>

definition conc :: "rule_env \<Rightarrow> tct \<Rightarrow> ptr \<Rightarrow> ptr \<Rightarrow> bool" where
  "conc R T a b \<longleftrightarrow> concurrent (re_config R) (re_sharing R) (re_graph R) T a b = Some True"

definition rulesOk :: "rule_env \<Rightarrow> tct \<Rightarrow> bool" where
  "rulesOk R T \<longleftrightarrow> tree_wf T \<and> sharing_sym (re_sharing R) \<and> caches_ok (re_config R) (re_sharing R) (re_graph R) T"

definition mayFollow :: "rule_env \<Rightarrow> thread_pair \<Rightarrow> tct \<Rightarrow> ptr \<Rightarrow> ptr \<Rightarrow> bool" where
  "mayFollow R p T a b \<longleftrightarrow> a \<noteq> null \<and> b \<noteq> null \<and> threadWith T p a \<noteq> null \<and> threadWith T p b \<noteq> null \<and>
     (if threadWith T p a = threadWith T p b then flowsTo (re_graph R) T (threadWith T p a) a b
      else conc R T (threadWith T p a) (threadWith T p b))"

primrec ruleHolds :: "rule_env \<Rightarrow> thread_pair \<Rightarrow> tct \<Rightarrow> (string \<Rightarrow> ptr) \<Rightarrow> rule_kind \<Rightarrow> bool" where
  "ruleHolds R p T n TOCTOURule \<longleftrightarrow>
     (let c = n ''state_check_operation''; m = n ''state_modify_operation''; u = n ''resource_use_operation'';
          t1 = tp_thread1 p; t2 = tp_thread2 p in
      c \<noteq> null \<and> m \<noteq> null \<and> u \<noteq> null \<and>
      (if c \<in> nodesOf T t1 \<and> m \<in> nodesOf T t2 then conc R T t1 t2 \<and> flowsTo (re_graph R) T t1 c u
       else c \<in> nodesOf T t2 \<and> m \<in> nodesOf T t1 \<and> conc R T t2 t1 \<and> flowsTo (re_graph R) T t2 c u))"
| "ruleHolds R p T n DataRaceRule \<longleftrightarrow>
     n ''read_operation'' \<noteq> null \<and> n ''write_operation'' \<noteq> null \<and> conc R T (tp_thread1 p) (tp_thread2 p)"
| "ruleHolds R p T n UseAfterFreeRule \<longleftrightarrow> mayFollow R p T (n ''free_operation'') (n ''use_operation'')"
| "ruleHolds R p T n DoubleFreeRule \<longleftrightarrow> mayFollow R p T (n ''first_free_operation'') (n ''second_free_operation'')"
| "ruleHolds R p T n NullPointerDereferenceRule \<longleftrightarrow>
     mayFollow R p T (n ''null_assignment_operation'') (n ''dereference_operation'') \<and>
     (\<exists>a \<in> set (accessesAt R (n ''null_assignment_operation'')). \<exists>b \<in> set (accessesAt R (n ''dereference_operation'')).
        isAlias (re_build R) (ma_pointer a) (ma_pointer b))"
| "ruleHolds R p T n DeadlockRule \<longleftrightarrow>
     (let a1 = n ''thread1_first_lock''; a2 = n ''thread1_second_lock''; b1 = n ''thread2_first_lock'';
          b2 = n ''thread2_second_lock''; same = isLockAlias (re_build R) (re_graph R) in
      conc R T (tp_thread1 p) (tp_thread2 p) \<and> flowsTo (re_graph R) T (tp_thread1 p) a1 a2 \<and>
      flowsTo (re_graph R) T (tp_thread2 p) b1 b2 \<and> same a1 b2 \<and> same a2 b1 \<and> \<not> same a1 a2)"

primrec rulePath :: "(string \<Rightarrow> ptr) \<Rightarrow> rule_kind \<Rightarrow> (string \<times> ptr) list" where
  "rulePath n TOCTOURule = [(''[CHECK] Operation'', n ''state_check_operation''),
     (''[MODIFY - Concurrent] Operation'', n ''state_modify_operation''), (''[USE] Operation'', n ''resource_use_operation'')]"
| "rulePath n DataRaceRule =
     [(''[READ] Operation'', n ''read_operation''), (''[WRITE - Concurrent] Operation'', n ''write_operation'')]"
| "rulePath n UseAfterFreeRule = [(''[FREE] Operation'', n ''free_operation''), (''[USE] Operation'', n ''use_operation'')]"
| "rulePath n DoubleFreeRule =
     [(''[FIRST FREE] Operation'', n ''first_free_operation''), (''[SECOND FREE] Operation'', n ''second_free_operation'')]"
| "rulePath n NullPointerDereferenceRule =
     [(''[NULL ASSIGNMENT] Operation'', n ''null_assignment_operation''), (''[DEREFERENCE] Operation'', n ''dereference_operation'')]"
| "rulePath n DeadlockRule =
     [(''[Thread 1] Acquires Lock A'', n ''thread1_first_lock''), (''[Thread 2] Acquires Lock B'', n ''thread2_first_lock''),
      (''[Thread 1] Waits for Lock B'', n ''thread1_second_lock''), (''[Thread 2] Waits for Lock A'', n ''thread2_second_lock'')]"

definition violation :: "rule_env \<Rightarrow> thread_pair \<Rightarrow> tct \<Rightarrow> rule \<Rightarrow> stateful_bug option" where
  "violation R p T r = (if ruleHolds R p T (roleNode R r) (ru_kind r)
     then Some (bugOf r p (rulePath (roleNode R r) (ru_kind r))) else None)"

text \<open>What a step keeps of the tree.\<close>

definition keeps :: "rule_env \<Rightarrow> tct \<Rightarrow> tct \<Rightarrow> bool" where
  "keeps R T T' \<longleftrightarrow> rulesOk R T' \<and> threadH T' = threadH T"

lemma keeps_refl: "rulesOk R T \<Longrightarrow> keeps R T T"
  by (simp add: keeps_def)

lemma runConcurrently_answers:
  assumes "rulesOk R T"
  shows "\<exists>T'. runConcurrently R a b T = Some (conc R T a b, T') \<and> keeps R T T'"
proof -
  have wf: "tree_wf T" and sh: "sharing_sym (re_sharing R)" and co: "caches_ok (re_config R) (re_sharing R) (re_graph R) T"
    using assms by (simp_all add: rulesOk_def)
  obtain r T' where r: "mayThreadsRunConcurrently (re_config R) (re_sharing R) (re_graph R) a b T = Some (r, T')"
    "concurrent (re_config R) (re_sharing R) (re_graph R) T a b = Some r"
    "caches_ok (re_config R) (re_sharing R) (re_graph R) T'" "threadH T' = threadH T"
    using mayThreadsRunConcurrently_cached[OF wf sh co refl, of a b] by blast
  have "tree_wf T'" using wf r(4) tree_wf_heap by blast
  then have "keeps R T T'" using sh r(3,4) by (simp add: keeps_def rulesOk_def)
  moreover have "runConcurrently R a b T = Some (conc R T a b, T')" by (simp add: runConcurrently_def conc_def r(1,2))
  ultimately show ?thesis by blast
qed

lemma flowsTo_heap: "threadH T' = threadH T \<Longrightarrow> flowsTo g T' t a b = flowsTo g T t a b"
  by (simp only: flowsTo_def nodesOf_def)

lemma twoOperations_answers:
  assumes "rulesOk R T"
  shows "\<exists>T'. twoOperations R p a b T = Some (mayFollow R p T a b, T') \<and> keeps R T T'"
  using runConcurrently_answers[OF assms, of "threadWith T p a" "threadWith T p b"] keeps_refl[OF assms]
  by (auto simp: twoOperations_def mayFollow_def Let_def is_reachable_iff)

lemma mayTouchSame_iff: "mayTouchSame R a b \<longleftrightarrow>
    (\<exists>x \<in> set (accessesAt R a). \<exists>y \<in> set (accessesAt R b). isAlias (re_build R) (ma_pointer x) (ma_pointer y))"
  by (simp add: mayTouchSame_def list_ex_iff)

subsection \<open>The checks decide the rules\<close>

lemma verifyTOCTOU_exact:
  assumes ok: "rulesOk R T" and k: "ru_kind r = TOCTOURule"
  shows "\<exists>T'. verifyTOCTOU R p r T = Some (violation R p T r, T') \<and> keeps R T T'"
proof -
  define c m u where n: "c = roleNode R r ''state_check_operation''" "m = roleNode R r ''state_modify_operation''"
    "u = roleNode R r ''resource_use_operation''"
  define t1 t2 where t: "t1 = tp_thread1 p" "t2 = tp_thread2 p"
  obtain T1 where T1: "runConcurrently R t1 t2 T = Some (conc R T t1 t2, T1)" "keeps R T T1"
    using runConcurrently_answers[OF ok] by blast
  obtain T2 where T2: "runConcurrently R t2 t1 T = Some (conc R T t2 t1, T2)" "keeps R T T2"
    using runConcurrently_answers[OF ok] by blast
  have h: "threadH T1 = threadH T" "threadH T2 = threadH T" using T1(2) T2(2) by (simp_all add: keeps_def)
  note unf = verifyTOCTOU_def violation_def k Let_def n[symmetric] t[symmetric] ruleHolds.simps rulePath.simps
  consider "c = null \<or> m = null \<or> u = null" | "c \<noteq> null" "m \<noteq> null" "u \<noteq> null" "c \<in> nodesOf T t1 \<and> m \<in> nodesOf T t2"
    | "c \<noteq> null" "m \<noteq> null" "u \<noteq> null" "\<not> (c \<in> nodesOf T t1 \<and> m \<in> nodesOf T t2)" "c \<in> nodesOf T t2 \<and> m \<in> nodesOf T t1"
    | "c \<noteq> null" "m \<noteq> null" "u \<noteq> null" "\<not> (c \<in> nodesOf T t1 \<and> m \<in> nodesOf T t2)" "\<not> (c \<in> nodesOf T t2 \<and> m \<in> nodesOf T t1)"
    by blast
  then show ?thesis
  proof cases
    case 1
    then show ?thesis by (intro exI[of _ T]) (auto simp: unf keeps_refl[OF ok])
  next
    case 2
    then show ?thesis by (intro exI[of _ T1]) (simp add: unf T1 is_reachable_iff flowsTo_heap[OF h(1)])
  next
    case 3
    then show ?thesis unfolding unf if_not_P[OF 3(4)] if_P[OF 3(5)]
      by (intro exI[of _ T2]) (simp add: T2 is_reachable_iff flowsTo_heap[OF h(2)])
  next
    case 4
    then show ?thesis unfolding unf if_not_P[OF 4(4)] if_not_P[OF 4(5)]
      by (intro exI[of _ T]) (auto simp: keeps_refl[OF ok])
  qed
qed

lemma verifyDataRace_exact:
  assumes ok: "rulesOk R T" and k: "ru_kind r = DataRaceRule"
  shows "\<exists>T'. verifyDataRace R p r T = Some (violation R p T r, T') \<and> keeps R T T'"
proof -
  define a b where n: "a = roleNode R r ''read_operation''" "b = roleNode R r ''write_operation''"
  obtain T' where T': "runConcurrently R (tp_thread1 p) (tp_thread2 p) T = Some (conc R T (tp_thread1 p) (tp_thread2 p), T')"
    "keeps R T T'" using runConcurrently_answers[OF ok] by blast
  show ?thesis
    by (rule exI[of _ "if a = null \<or> b = null then T else T'"])
      (simp add: verifyDataRace_def violation_def k Let_def n[symmetric] T' keeps_refl[OF ok])
qed

text \<open>The three checks of two operations.\<close>

lemma twoOperations_rule:
  assumes "rulesOk R T"
  shows "\<exists>T'. map_option (\<lambda>(v, T'). (if v \<and> extra then Some x else None, T')) (twoOperations R p a b T) =
      Some (if mayFollow R p T a b \<and> extra then Some x else None, T') \<and> keeps R T T'"
proof -
  obtain T' where "twoOperations R p a b T = Some (mayFollow R p T a b, T')" "keeps R T T'"
    using twoOperations_answers[OF assms] by blast
  then show ?thesis by simp
qed

lemma verifyUseAfterFree_exact:
  assumes ok: "rulesOk R T" and k: "ru_kind r = UseAfterFreeRule"
  shows "\<exists>T'. verifyUseAfterFree R p r T = Some (violation R p T r, T') \<and> keeps R T T'"
  unfolding verifyUseAfterFree_def violation_def k ruleHolds.simps rulePath.simps Let_def
  by (rule twoOperations_rule[OF ok, of True, unfolded simp_thms])

lemma verifyDoubleFree_exact:
  assumes ok: "rulesOk R T" and k: "ru_kind r = DoubleFreeRule"
  shows "\<exists>T'. verifyDoubleFree R p r T = Some (violation R p T r, T') \<and> keeps R T T'"
  unfolding verifyDoubleFree_def violation_def k ruleHolds.simps rulePath.simps Let_def
  by (rule twoOperations_rule[OF ok, of True, unfolded simp_thms])

lemma verifyNullDereference_exact:
  assumes ok: "rulesOk R T" and k: "ru_kind r = NullPointerDereferenceRule"
  shows "\<exists>T'. verifyNullDereference R p r T = Some (violation R p T r, T') \<and> keeps R T T'"
  unfolding verifyNullDereference_def violation_def k ruleHolds.simps rulePath.simps Let_def mayTouchSame_iff
  by (rule twoOperations_rule[OF ok])

lemma verifyDeadlock_exact:
  assumes ok: "rulesOk R T" and k: "ru_kind r = DeadlockRule"
  shows "\<exists>T'. verifyDeadlock R p r T = Some (violation R p T r, T') \<and> keeps R T T'"
proof -
  define a1 a2 b1 b2 where n: "a1 = roleNode R r ''thread1_first_lock''" "a2 = roleNode R r ''thread1_second_lock''"
    "b1 = roleNode R r ''thread2_first_lock''" "b2 = roleNode R r ''thread2_second_lock''"
  define t1 t2 where t: "t1 = tp_thread1 p" "t2 = tp_thread2 p"
  obtain T1 where T1: "runConcurrently R t1 t2 T = Some (conc R T t1 t2, T1)" "keeps R T T1"
    using runConcurrently_answers[OF ok] by blast
  have h: "threadH T1 = threadH T" using T1(2) by (simp add: keeps_def)
  note unf = verifyDeadlock_def violation_def k Let_def n[symmetric] t[symmetric] ruleHolds.simps rulePath.simps
  show ?thesis
  proof (cases "a1 = null \<or> a2 = null \<or> b1 = null \<or> b2 = null")
    case True
    then have "\<not> (flowsTo (re_graph R) T t1 a1 a2 \<and> flowsTo (re_graph R) T t2 b1 b2)" by (auto simp: flowsTo_def)
    with True show ?thesis by (intro exI[of _ T]) (auto simp: unf keeps_refl[OF ok])
  next
    case False
    then show ?thesis by (intro exI[of _ T1]) (simp add: unf T1 is_reachable_iff flowsTo_heap[OF h])
  qed
qed

lemma verifyRule_exact:
  assumes "rulesOk R T"
  shows "\<exists>T'. verifyRule R p r T = Some (violation R p T r, T') \<and> keeps R T T'"
proof (cases "ru_kind r")
  case TOCTOURule
  then show ?thesis using verifyTOCTOU_exact[OF assms] by (simp add: verifyRule_def)
next
  case DataRaceRule
  then show ?thesis using verifyDataRace_exact[OF assms] by (simp add: verifyRule_def)
next
  case UseAfterFreeRule
  then show ?thesis using verifyUseAfterFree_exact[OF assms] by (simp add: verifyRule_def)
next
  case DoubleFreeRule
  then show ?thesis using verifyDoubleFree_exact[OF assms] by (simp add: verifyRule_def)
next
  case NullPointerDereferenceRule
  then show ?thesis using verifyNullDereference_exact[OF assms] by (simp add: verifyRule_def)
next
  case DeadlockRule
  then show ?thesis using verifyDeadlock_exact[OF assms] by (simp add: verifyRule_def)
qed

text \<open>The condition only reads the threads, so it holds in every later state of the caches.\<close>

lemma conc_heap: "keeps R T T' \<Longrightarrow> rulesOk R T \<Longrightarrow> conc R T' = conc R T"
  using concurrent_heap[of T' T] by (auto simp: keeps_def rulesOk_def conc_def fun_eq_iff)

lemma violation_heap:
  assumes "keeps R T T'" "rulesOk R T"
  shows "violation R p T' r = violation R p T r"
proof -
  have h: "threadH T' = threadH T" using assms(1) by (simp add: keeps_def)
  have "ruleHolds R p T' n k = ruleHolds R p T n k" for n k
    by (cases k) (simp_all only: ruleHolds.simps mayFollow_def threadWith_def nodesOf_def flowsTo_def conc_heap[OF assms] h)
  then show ?thesis by (simp add: violation_def)
qed

end
