(* ===== verification/ReportFacts.thy ===== *)
theory ReportFacts
  imports Reports RuleFacts
begin

text \<open>
  Facts about the detector: the groups partition the hypotheses by signature, the representative
  is the most detailed member, the filter of benign publications never fires on what a rule's
  check reports, and the field signature of a code is what the two expressions search for.
\<close>

subsection \<open>Groups\<close>

lemma addToGroup_map_of:
  "map_of (addToGroup k i m) s =
     (if s = k then Some ((case map_of m k of None \<Rightarrow> [] | Some ms \<Rightarrow> ms) @ [i]) else map_of m s)"
  by (induction k i m rule: addToGroup.induct) auto

lemma addToGroup_keys: "map fst (addToGroup k i m) = map fst m @ (if k \<in> fst ` set m then [] else [k])"
  by (induction k i m rule: addToGroup.induct) auto

lemma addToGroup_members: "mset (concat (map snd (addToGroup k i m))) = add_mset i (mset (concat (map snd m)))"
  by (induction k i m rule: addToGroup.induct) auto

definition groupsUpTo :: "(nat \<Rightarrow> 'k) \<Rightarrow> nat list \<Rightarrow> ('k \<times> nat list) list \<Rightarrow> bool" where
  "groupsUpTo key ns m \<longleftrightarrow> distinct (map fst m) \<and> mset (concat (map snd m)) = mset ns \<and>
     (\<forall>s. map_of m s = (let ms = filter (\<lambda>i. key i = s) ns in if ms = [] then None else Some ms))"

lemma groupsUpTo_step: "groupsUpTo key ns m \<Longrightarrow> groupsUpTo key (ns @ [i]) (addToGroup (key i) i m)"
  by (auto simp: groupsUpTo_def addToGroup_map_of addToGroup_keys addToGroup_members Let_def
      image_iff split: option.splits)

lemma groups_fold: "groupsUpTo key ns (foldl (\<lambda>m i. addToGroup (key i) i m) [] ns)"
proof (induction ns rule: rev_induct)
  case Nil
  then show ?case by (simp add: groupsUpTo_def)
next
  case (snoc i ns)
  then show ?case using groupsUpTo_step[of key ns _ i] by simp
qed

definition sigAt :: "detector \<Rightarrow> nat \<Rightarrow> hypo_sig" where
  "sigAt D i = computeSignature (hypothesisCcpg D) (confirmedHypotheses D ! i)"

lemma signatureGroups_exact: "groupsUpTo (sigAt D) [0 ..< length (confirmedHypotheses D)] (signatureGroups D)"
  using groups_fold[of "sigAt D"] by (simp add: signatureGroups_def sigAt_def)

lemma signatureGroups_entry:
  assumes "(s, ms) \<in> set (signatureGroups D)"
  shows "ms = filter (\<lambda>i. sigAt D i = s) [0 ..< length (confirmedHypotheses D)]" "ms \<noteq> []" "distinct ms"
proof -
  let ?ns = "[0 ..< length (confirmedHypotheses D)]"
  have g: "groupsUpTo (sigAt D) ?ns (signatureGroups D)" by (rule signatureGroups_exact)
  then have "distinct (map fst (signatureGroups D))" unfolding groupsUpTo_def by blast
  then have "map_of (signatureGroups D) s = Some ms" using assms by (rule map_of_is_SomeI)
  with g have "(if filter (\<lambda>i. sigAt D i = s) ?ns = [] then None else Some (filter (\<lambda>i. sigAt D i = s) ?ns)) = Some ms"
    unfolding groupsUpTo_def Let_def by metis
  then show "ms = filter (\<lambda>i. sigAt D i = s) ?ns" "ms \<noteq> []" by (simp_all split: if_splits)
  then show "distinct ms" by simp
qed

lemma signatureGroups_keys: "set (map fst (signatureGroups D)) = sigAt D ` {0 ..< length (confirmedHypotheses D)}"
proof -
  have "s \<in> set (map fst (signatureGroups D)) \<longleftrightarrow> map_of (signatureGroups D) s \<noteq> None" for s
    by (simp add: map_of_eq_None_iff)
  also have "\<dots> s \<longleftrightarrow> filter (\<lambda>i. sigAt D i = s) [0 ..< length (confirmedHypotheses D)] \<noteq> []" for s
    using signatureGroups_exact[of D] by (simp add: groupsUpTo_def Let_def)
  finally have "s \<in> set (map fst (signatureGroups D)) \<longleftrightarrow> (\<exists>i \<in> {0 ..< length (confirmedHypotheses D)}. sigAt D i = s)" for s
    by (simp add: filter_empty_conv)
  then show ?thesis unfolding set_eq_iff image_iff by metis
qed

subsection \<open>The representative\<close>

lemma moreDetailed_cmp: "\<not> moreDetailed b a \<longleftrightarrow> length (hy_description b) < length (hy_description a) \<or>
    length (hy_description b) = length (hy_description a) \<and> hy_id a \<le> hy_id b"
  by (auto simp: moreDetailed_def)

lemma moreDetailed_trans: "\<not> moreDetailed b a \<Longrightarrow> \<not> moreDetailed a c \<Longrightarrow> \<not> moreDetailed b c"
  unfolding moreDetailed_cmp by (elim disjE) auto

lemma pick_fold:
  "let b = foldl (\<lambda>best i. if moreDetailed (xs ! i) (xs ! best) then i else best) b0 ms in
     b \<in> insert b0 (set ms) \<and> (\<forall>i \<in> insert b0 (set ms). \<not> moreDetailed (xs ! i) (xs ! b))"
proof (induction ms arbitrary: b0)
  case Nil
  then show ?case by (simp add: moreDetailed_def)
next
  case (Cons m ms)
  let ?c = "if moreDetailed (xs ! m) (xs ! b0) then m else b0"
  let ?b = "foldl (\<lambda>best i. if moreDetailed (xs ! i) (xs ! best) then i else best) ?c ms"
  have ih: "?b \<in> insert ?c (set ms)" "\<forall>i \<in> insert ?c (set ms). \<not> moreDetailed (xs ! i) (xs ! ?b)"
    using Cons.IH[of ?c] unfolding Let_def by (rule conjunct1, rule conjunct2)
  have "\<not> moreDetailed (xs ! m) (xs ! ?c)" "\<not> moreDetailed (xs ! b0) (xs ! ?c)" by (auto simp: moreDetailed_def)
  moreover have "\<not> moreDetailed (xs ! ?c) (xs ! ?b)" using ih(2) by blast
  ultimately have le: "\<not> moreDetailed (xs ! m) (xs ! ?b)" "\<not> moreDetailed (xs ! b0) (xs ! ?b)"
    using moreDetailed_trans by blast+
  have f: "foldl (\<lambda>best i. if moreDetailed (xs ! i) (xs ! best) then i else best) b0 (m # ms) = ?b" by simp
  have "?b \<in> insert b0 (set (m # ms))" using ih(1) by (auto split: if_splits)
  moreover have "\<not> moreDetailed (xs ! i) (xs ! ?b)" if "i \<in> insert b0 (set (m # ms))" for i
  proof -
    from that consider "i = b0" | "i = m" | "i \<in> set ms" by auto
    then show ?thesis by cases (use le ih(2) in blast)+
  qed
  ultimately show ?case unfolding Let_def f by blast
qed

lemma pickRepresentative_best:
  assumes "ms \<noteq> []"
  shows "pickRepresentative ms xs \<in> set ms" "\<forall>i \<in> set ms. \<not> moreDetailed (xs ! i) (xs ! pickRepresentative ms xs)"
  using pick_fold[of xs "hd ms" ms] assms by (auto simp: pickRepresentative_def Let_def insert_absorb)

lemma reported_members:
  assumes "ms \<noteq> []" "distinct ms"
  shows "mset (pickRepresentative ms xs # alternates ms xs) = mset ms"
proof -
  let ?p = "pickRepresentative ms xs"
  have "mset (filter (\<lambda>i. i \<noteq> ?p) ms) = mset (remove1 ?p ms)"
    using assms(2) by (simp add: distinct_remove1_removeAll removeAll_filter_not_eq)
      (metis (mono_tags, lifting) filter_cong)
  then show ?thesis using pickRepresentative_best(1)[OF assms(1), of xs] by (simp add: alternates_def)
qed

subsection \<open>Detection\<close>

lemma publication_filter_dead: "violation R p T r = Some b \<Longrightarrow> \<not> isLikelyBenignPublicationRace g b"
proof (cases "ru_kind r = DataRaceRule")
  case True
  have "\<not> contains ''[READ] Operation'' ''read''" "\<not> contains ''[READ] Operation'' ''write''"
    "\<not> contains ''[WRITE - Concurrent] Operation'' ''read''" "\<not> contains ''[WRITE - Concurrent] Operation'' ''write''"
    by code_simp+
  moreover assume "violation R p T r = Some b"
  ultimately have "fold roleStep (sb_path b) (null, null) = (null, null)"
    using True by (auto simp: violation_def bugOf_def roleStep_def split: if_splits)
  then show ?thesis by (simp add: isLikelyBenignPublicationRace_def Let_def)
next
  case False
  then have "get_pattern_type (ru_kind r) \<noteq> ''DataRace''" by (cases "ru_kind r") simp_all
  moreover assume "violation R p T r = Some b"
  ultimately show ?thesis
    by (auto simp: violation_def bugOf_def ruleJson_def isLikelyBenignPublicationRace_def Let_def split: if_splits)
qed

lemma keepBug_exact: "violation R p T r = ob \<Longrightarrow>
    keepBug R agent r ob bs = bs @ filter (confirmed agent) (case ob of None \<Rightarrow> [] | Some b \<Rightarrow> [b])"
  using publication_filter_dead[of R p T r] by (cases ob) (auto simp: keepBug_def)

lemma keeps_trans: "keeps R T T' \<Longrightarrow> keeps R T' T'' \<Longrightarrow> keeps R T T''"
  by (simp add: keeps_def)

lemma detectRules_exact:
  "rulesOk R T \<Longrightarrow> \<exists>T'. detectRules R agent p rs bs T =
     Some (bs @ filter (confirmed agent) (List.map_filter (violation R p T) rs), T') \<and> keeps R T T'"
proof (induction rs arbitrary: bs T)
  case Nil
  then show ?case by (simp add: keeps_refl map_filter_simps)
next
  case (Cons r rs)
  obtain T1 where T1: "verifyRule R p r T = Some (violation R p T r, T1)" "keeps R T T1"
    using verifyRule_exact[OF Cons.prems] by blast
  have "rulesOk R T1" using T1(2) by (simp add: keeps_def)
  have same: "violation R p T1 = violation R p T" using violation_heap[OF T1(2) Cons.prems] by (simp add: fun_eq_iff)
  obtain T' where T': "detectRules R agent p rs (keepBug R agent r (violation R p T r) bs) T1 =
      Some (keepBug R agent r (violation R p T r) bs @ filter (confirmed agent) (List.map_filter (violation R p T) rs), T')"
    "keeps R T1 T'" using Cons.IH[OF \<open>rulesOk R T1\<close>] unfolding same by blast
  have "keepBug R agent r (violation R p T r) bs @ filter (confirmed agent) (List.map_filter (violation R p T) rs) =
      bs @ filter (confirmed agent) (List.map_filter (violation R p T) (r # rs))"
    by (simp add: keepBug_exact[OF refl] map_filter_simps split: option.splits)
  then show ?case using T' T1 keeps_trans[OF T1(2) T'(2)] by simp
qed

lemma detectPairs_exact:
  "rulesOk R T \<Longrightarrow> \<exists>T'. detectPairs R agent ps bs T =
     Some (bs @ filter (confirmed agent) (concat (map (\<lambda>p. List.map_filter (violation R p T) (temporal_rules p)) ps)), T') \<and>
     keeps R T T'"
proof (induction ps arbitrary: bs T)
  case Nil
  then show ?case by (simp add: keeps_refl)
next
  case (Cons p ps)
  let ?new = "filter (confirmed agent) (List.map_filter (violation R p T) (temporal_rules p))"
  obtain T1 where T1: "detectRules R agent p (temporal_rules p) bs T = Some (bs @ ?new, T1)" "keeps R T T1"
    using detectRules_exact[OF Cons.prems] by blast
  have "rulesOk R T1" using T1(2) by (simp add: keeps_def)
  have same: "violation R q T1 = violation R q T" for q using violation_heap[OF T1(2) Cons.prems] by (simp add: fun_eq_iff)
  from Cons.IH[OF \<open>rulesOk R T1\<close>, of "bs @ ?new"] obtain T' where "detectPairs R agent ps (bs @ ?new) T1 =
      Some ((bs @ ?new) @ filter (confirmed agent) (concat (map (\<lambda>p. List.map_filter (violation R p T) (temporal_rules p)) ps)), T')"
    "keeps R T1 T'" unfolding same by blast
  then show ?case using T1 keeps_trans[OF T1(2)] by simp
qed

subsection \<open>Field signatures\<close>

definition fieldRef :: "string \<Rightarrow> string \<Rightarrow> string \<Rightarrow> bool" where
  "fieldRef s f r \<longleftrightarrow> (\<exists>op ws. s = op @ ws @ f @ r \<and> op \<in> {''->'', ''.''} \<and> (\<forall>c \<in> set ws. isSpace c) \<and>
     f \<noteq> [] \<and> isIdentStart (hd f) \<and> (\<forall>c \<in> set f. isIdentChar c) \<and> (r \<noteq> [] \<longrightarrow> \<not> isIdentChar (hd r)))"

lemma afterAccess_iff: "afterAccess s = Some r \<longleftrightarrow> (\<exists>op \<in> {''->'', ''.''}. s = op @ r)"
  by (cases s rule: afterAccess.cases) (auto split: list.splits)

lemma space_not_ident: "isSpace c \<Longrightarrow> \<not> isIdentChar c"
  by (auto simp: isSpace_def isIdentChar_def isIdentStart_def isDigit_def Let_def)

lemma fieldAt_iff: "fieldAt s = Some (f, r) \<longleftrightarrow> fieldRef s f r"
proof
  assume "fieldAt s = Some (f, r)"
  then obtain q where q: "afterAccess s = Some q" "dropWhile isSpace q \<noteq> []" "isIdentStart (hd (dropWhile isSpace q))"
    "f = takeWhile isIdentChar (dropWhile isSpace q)" "r = dropWhile isIdentChar (dropWhile isSpace q)"
    by (auto simp: fieldAt_def bind_eq_Some_conv Let_def split: if_splits)
  from q(1) obtain op where op: "op \<in> {''->'', ''.''}" "s = op @ q" by (auto simp: afterAccess_iff)
  have "isIdentChar (hd (dropWhile isSpace q))" using q(3) by (simp add: isIdentChar_def)
  then have f: "f \<noteq> []" "hd f = hd (dropWhile isSpace q)" using q(2,4) by (cases "dropWhile isSpace q"; simp)+
  have "s = op @ takeWhile isSpace q @ f @ r" using op(2) q(4,5) by simp
  moreover have "\<forall>c \<in> set (takeWhile isSpace q). isSpace c" "\<forall>c \<in> set f. isIdentChar c"
    using set_takeWhileD q(4) by fastforce+
  moreover have "r \<noteq> [] \<longrightarrow> \<not> isIdentChar (hd r)" using q(5) hd_dropWhile[of isIdentChar] by simp
  ultimately show "fieldRef s f r" unfolding fieldRef_def using op(1) f q(3) by auto
next
  assume "fieldRef s f r"
  then obtain op ws where s: "s = op @ ws @ f @ r" "op \<in> {''->'', ''.''}" "\<forall>c \<in> set ws. isSpace c" "f \<noteq> []"
    "isIdentStart (hd f)" "\<forall>c \<in> set f. isIdentChar c" "r \<noteq> [] \<longrightarrow> \<not> isIdentChar (hd r)" unfolding fieldRef_def by blast
  have a: "afterAccess s = Some (ws @ f @ r)" using s(1,2) afterAccess_iff by blast
  have "isIdentChar (hd f)" using s(4,6) by simp
  then have "\<not> isSpace (hd f)" using space_not_ident by blast
  then have w: "dropWhile isSpace (ws @ f @ r) = f @ r" using s(3,4) by (cases f) (simp_all add: dropWhile_append2)
  have "takeWhile isIdentChar (f @ r) = f \<and> dropWhile isIdentChar (f @ r) = r"
    using s(6,7) by (cases r) (simp_all add: takeWhile_append2 dropWhile_append2)
  then show "fieldAt s = Some (f, r)" unfolding fieldAt_def a bind.simps Let_def w using s(4,5) by simp
qed

definition assignedAt :: "string \<Rightarrow> string \<Rightarrow> bool" where
  "assignedAt s f \<longleftrightarrow> (\<exists>r. fieldRef s f r \<and> assigns r)"


lemma assignedAt_iff: "assignedAt s f \<longleftrightarrow> (\<exists>r. fieldAt s = Some (f, r) \<and> assigns r)"
  by (simp add: assignedAt_def fieldAt_iff)

lemma noField_nil: "\<not> fieldRef [] f r" "\<not> assignedAt [] f"
  by (auto simp: fieldRef_def assignedAt_def)

lemma assignedField_none: "assignedField code = None \<longleftrightarrow> (\<forall>i f. \<not> assignedAt (drop i code) f)"
proof (induction code)
  case Nil
  then show ?case by (simp add: noField_nil)
next
  case (Cons c s)
  have "(\<forall>i f. \<not> assignedAt (drop i (c # s)) f) \<longleftrightarrow> (\<forall>f. \<not> assignedAt (c # s) f) \<and> (\<forall>i f. \<not> assignedAt (drop i s) f)"
    by (metis drop0 drop_Suc_Cons not0_implies_Suc)
  then show ?case using Cons.IH by (auto simp: assignedAt_iff split: option.splits)
qed

lemma assignedField_some:
  "assignedField code = Some f \<Longrightarrow> \<exists>i. assignedAt (drop i code) f \<and> (\<forall>j g. assignedAt (drop j code) g \<longrightarrow> i \<le> j)"
proof (induction code)
  case (Cons c s)
  show ?case
  proof (cases "\<exists>g. assignedAt (c # s) g")
    case True
    then have "assignedAt (drop 0 (c # s)) f" using Cons.prems by (auto simp: assignedAt_iff)
    then show ?thesis by blast
  next
    case False
    then have "assignedField s = Some f" using Cons.prems by (auto simp: assignedAt_iff split: option.splits if_splits)
    then obtain i where i: "assignedAt (drop i s) f" "\<And>j g. assignedAt (drop j s) g \<Longrightarrow> i \<le> j" using Cons.IH by blast
    have "Suc i \<le> j" if "assignedAt (drop j (c # s)) g" for j g
      using that False i(2) by (cases j) auto
    then show ?thesis using i(1) by (intro exI[of _ "Suc i"]) simp
  qed
qed simp

lemma lastField_exact:
  "(\<exists>i r. fieldRef (drop i code) (lastField f code) r \<and> (\<forall>j g q. fieldRef (drop j code) g q \<longrightarrow> j \<le> i)) \<or>
     lastField f code = f \<and> (\<forall>i g r. \<not> fieldRef (drop i code) g r)"
proof (induction code arbitrary: f)
  case Nil
  then show ?case by (simp add: noField_nil)
next
  case (Cons c s)
  let ?f = "case fieldAt (c # s) of Some (f', r) \<Rightarrow> f' | None \<Rightarrow> f"
  have l: "lastField f (c # s) = lastField ?f s" by simp
  from Cons.IH[of ?f] consider
    i r where "fieldRef (drop i s) (lastField ?f s) r" "\<And>j g q. fieldRef (drop j s) g q \<Longrightarrow> j \<le> i"
    | "lastField ?f s = ?f" "\<And>i g r. \<not> fieldRef (drop i s) g r" by blast
  then show ?case
  proof cases
    case 1
    have "j \<le> Suc i" if "fieldRef (drop j (c # s)) g q" for j g q using that 1(2) by (cases j) auto
    then show ?thesis using 1(1) unfolding l by (metis drop_Suc_Cons)
  next
    case 2
    have z: "j = 0" if "fieldRef (drop j (c # s)) g q" for j g q using that 2(2) by (cases j) auto
    show ?thesis
    proof (cases "fieldAt (c # s)")
      case None
      have "\<not> fieldRef (drop j (c # s)) g q" for j g q
      proof
        assume r: "fieldRef (drop j (c # s)) g q"
        then have "fieldAt (c # s) = Some (g, q)" using z[OF r] by (simp add: fieldAt_iff)
        then show False using None by simp
      qed
      then show ?thesis unfolding l using 2(1) None by simp
    next
      case (Some fr)
      then obtain g r where gr: "fieldAt (c # s) = Some (g, r)" by (cases fr) simp
      then have g: "lastField ?f s = g" using 2(1) by simp
      have "fieldRef (drop 0 (c # s)) (lastField ?f s) r" unfolding g using gr unfolding fieldAt_iff by simp
      then show ?thesis unfolding l using z by blast
    qed
  qed
qed

end
