(* ===== verification/ParallelProps.thy ===== *)
theory ParallelProps
  imports ParallelFacts GraphProps BuildProps
begin

text \<open>The properties of the locations two threads may reach at the same time.\<close>

text \<open>The nodes of a thread that has a main function.\<close>

definition ownNodes :: "tct \<Rightarrow> ptr \<Rightarrow> ptr set" where
  "ownNodes T t = (if threadMainFunction (thr T t) = null then {} else set (th_nodes (thr T t)))"

text \<open>The nodes of the parent that control flow reaches from the fork of the child, and that reach its join.\<close>

definition flows :: "(ptr \<Rightarrow> ptr list) \<Rightarrow> tct \<Rightarrow> ptr \<Rightarrow> ptr \<Rightarrow> ptr set" where
  "flows adj T t s = (if s = null \<or> t = null \<or> s \<notin> set (th_nodes (thr T t)) then {}
     else {v. (inside adj (th_nodes (thr T t)))\<^sup>*\<^sup>* s v})"

definition whileRunning :: "ccpg \<Rightarrow> tct \<Rightarrow> ptr \<Rightarrow> ptr \<Rightarrow> ptr set" where
  "whileRunning g T par child =
     {v \<in> flows (succs g) T par (forkNode (thr T child)).
        joinNode (thr T child) \<noteq> null \<longrightarrow> v \<in> flows (preds g) T par (joinNode (thr T child))}"

text \<open>An iteration order gives exactly the members of a finite set.\<close>

definition listsSet :: "(ptr set \<Rightarrow> ptr list) \<Rightarrow> bool" where
  "listsSet iter \<longleftrightarrow> (\<forall>X. finite X \<longrightarrow> set (iter X) = X)"

lemma flows_eq: "getReachableNodes g T s t forward = flows (if forward then succs g else preds g) T t s"
proof (cases "s = null \<or> t = null \<or> s \<notin> set (th_nodes (thr T t))")
  case True
  then show ?thesis by (auto simp: getReachableNodes_def flows_def)
next
  case False
  then show ?thesis using getReachableNodes_eq[of s t T g forward] by (simp add: flows_def)
qed

lemma flows_finite: "finite (flows adj T t s)"
proof -
  have "v = s \<or> v \<in> set (th_nodes (thr T t))" if "(inside adj (th_nodes (thr T t)))\<^sup>*\<^sup>* s v" for v
    using that by cases (auto simp: inside_def)
  then have "flows adj T t s \<subseteq> insert s (set (th_nodes (thr T t)))" by (auto simp: flows_def)
  then show ?thesis using finite_subset by blast
qed

lemma scope_exact: "listsSet iter \<Longrightarrow> set (concurrentScope iter g T par child) = whileRunning g T par child"
  using flows_finite by (auto simp: listsSet_def concurrentScope_def Let_def flows_eq whileRunning_def)

lemma ownLocs_exact: "locsFor g T t (ownNodes T t) (findAllLocs g T t)"
proof (cases "threadMainFunction (thr T t) = null")
  case True
  then show ?thesis by (simp add: ownNodes_def findAllLocs_def locsFor_def)
qed (simp add: ownNodes_def findAllLocs_exact)

lemma scopeLocs_exact:
  "listsSet iter \<Longrightarrow> locsFor g T t (whileRunning g T p c) (foldl (addLoc g T t) [] (concurrentScope iter g T p c))"
  using addLocs_exact[of g T t "concurrentScope iter g T p c"] by (simp add: scope_exact)

text \<open>
  C21. The parallel locations of two threads are exact.  Whatever the caches hold from earlier
  queries, the query answers, and leaves caches that hold only such answers.  Threads that may
  not run concurrently have none.  Of two siblings, each gives all of its nodes.  Of a thread and
  its ancestor, the descendant gives all of its nodes, the ancestor those that control flow
  reaches from the descendant's creation and, where it is joined, that reach the join.  Two
  threads that are neither give no location, although they may run concurrently.  A map gives one
  entry for every line of a file that such a node with a function and a line stands at, with the
  creation site of the thread and a call path to the function of one of the nodes there.
\<close>

theorem parallel_locs_exact:
  assumes "lt_ok cfg shared iter g S" "sharing_sym shared" "listsSet iter"
  defines "T \<equiv> lt_tree S"
  shows "\<exists>m1 m2 S'. getParallelLocs cfg shared iter g t1 t2 S = Some ((m1, m2), S') \<and> lt_ok cfg shared iter g S' \<and>
    (let siblings = (parent (thr T t1) \<noteq> null \<and> parent (thr T t1) = parent (thr T t2)) in
     if concurrent cfg shared g T t1 t2 \<noteq> Some True then m1 = [] \<and> m2 = []
     else if siblings then locsFor g T t1 (ownNodes T t1) m1 \<and> locsFor g T t2 (ownNodes T t2) m2
     else if ancestorOf T t1 t2 then locsFor g T t1 (whileRunning g T t1 t2) m1 \<and> locsFor g T t2 (ownNodes T t2) m2
     else if ancestorOf T t2 t1 then locsFor g T t1 (ownNodes T t1) m1 \<and> locsFor g T t2 (whileRunning g T t2 t1) m2
     else m1 = [] \<and> m2 = [])"
proof -
  obtain m1 m2 where m: "parallelSpec cfg shared iter g T t1 t2 = (m1, m2)" by fastforce
  obtain S' where "getParallelLocs cfg shared iter g t1 t2 S = Some ((m1, m2), S')" "lt_ok cfg shared iter g S'"
    using getParallelLocs_correct[OF assms(1,2), of t1 t2] m by (auto simp: T_def)
  moreover have "let siblings = (parent (thr T t1) \<noteq> null \<and> parent (thr T t1) = parent (thr T t2)) in
     if concurrent cfg shared g T t1 t2 \<noteq> Some True then m1 = [] \<and> m2 = []
     else if siblings then locsFor g T t1 (ownNodes T t1) m1 \<and> locsFor g T t2 (ownNodes T t2) m2
     else if ancestorOf T t1 t2 then locsFor g T t1 (whileRunning g T t1 t2) m1 \<and> locsFor g T t2 (ownNodes T t2) m2
     else if ancestorOf T t2 t1 then locsFor g T t1 (ownNodes T t1) m1 \<and> locsFor g T t2 (whileRunning g T t2 t1) m2
     else m1 = [] \<and> m2 = []"
    using m ownLocs_exact scopeLocs_exact[OF assms(3)]
    by (auto simp: parallelSpec_def pairLocs_def Let_def split: if_splits)
  ultimately show ?thesis by blast
qed

text \<open>A child of the main thread, forked at the only node with a line.\<close>

definition locLine :: node_loc where
  "locLine = \<lparr>fileName = [''a.c''], normalizedFileName = [''a.c''], lineNumber = 7, loc_function = 5\<rparr>"

definition locGraph :: ccpg where
  "locGraph = sampleCcpg\<lparr>nodeH := (\<lambda>i. if i = 2 then (sampleNode i)\<lparr>nd_loc := locLine, nd_function := 5\<rparr> else sampleNode i),
     funH := (\<lambda>_. sampleFunc\<lparr>fn_llvm := Some ''f''\<rparr>)\<rparr>"

definition locTree :: tct where
  "locTree = sampleTree\<lparr>threadH := (\<lambda>i. (sampleThread i)\<lparr>threadMainFunction := 5\<rparr>)\<rparr>"

definition locState :: loc_state where
  "locState = \<lparr>lt_tree = locTree, lt_cache = (\<lambda>_. None), lt_candidates = None\<rparr>"

lemma locState_ok: "lt_ok noConfig None iter locGraph locState"
proof -
  have "tree_wf locTree" unfolding tree_wf_def
    by (rule exI[of _ "\<lambda>t. if t = 1 then 0 else 1"]) (simp add: locTree_def sampleTree_def sampleThread_def)
  then show ?thesis by (simp add: lt_ok_def locState_def caches_ok_def) (simp add: locTree_def sampleTree_def)
qed

lemma locTree_ancestor: "ancestorOf locTree 1 2"
  by (simp add: ancestorOf_def locTree_def sampleThread_def)

lemma locTree_concurrent: "concurrent noConfig None locGraph locTree 2 1 = Some True"
  using isDescendant_total[of locTree 2 1] locState_ok locTree_ancestor
  by (subst concurrent.simps) (simp add: lt_ok_def locState_def)

theorem parallel_locs_exact_witness:
  "\<exists>m1 m2 S'. getParallelLocs noConfig None sorted_list_of_set locGraph 2 1 locState = Some ((m1, m2), S') \<and>
     locKey ` fst ` set m1 = {(7, ''a.c'')} \<and> locKey ` fst ` set m2 = {(7, ''a.c'')}"
proof -
  have no: "\<not> ancestorOf locTree 2 1" by (simp add: ancestorOf_def locTree_def sampleThread_def)
  have k: "locKey locLine = (7, ''a.c'')" by (simp add: locKey_def locLine_def getBaseFileName_def filename_def)
  have own: "2 \<in> ownNodes locTree 2" by (simp add: ownNodes_def locTree_def sampleThread_def)
  have run: "2 \<in> whileRunning locGraph locTree 1 2" by (simp add: whileRunning_def flows_def locTree_def sampleThread_def)
  have two: "{n \<in> N. located locGraph n} = {2}" if "2 \<in> N" for N
    using that by (auto simp: located_def locGraph_def sampleNode_def emptyLoc_def locLine_def split: if_splits)
  have keys: "locKey ` fst ` set m = {(7, ''a.c'')}" if "locsFor locGraph locTree t N m" "2 \<in> N" for t N m
    using that k unfolding locsFor_def two[OF that(2)] by (simp add: image_comp locGraph_def sampleCcpg_def)
  have sib: "\<not> (parent (thr locTree 2) \<noteq> null \<and> parent (thr locTree 2) = parent (thr locTree 1))"
    by (simp add: locTree_def sampleThread_def)
  have T: "lt_tree locState = locTree" by (simp add: locState_def)
  from parallel_locs_exact[OF locState_ok, of sorted_list_of_set 2 1] obtain m1 m2 S' where
    m: "getParallelLocs noConfig None sorted_list_of_set locGraph 2 1 locState = Some ((m1, m2), S')"
    "locsFor locGraph locTree 2 (ownNodes locTree 2) m1" "locsFor locGraph locTree 1 (whileRunning locGraph locTree 1 2) m2"
    using no sib locTree_ancestor locTree_concurrent unfolding T Let_def by (auto simp: sharing_sym_def listsSet_def)
  from keys[OF m(2) own] keys[OF m(3) run] m(1) show ?thesis by blast
qed

text \<open>A sequence of queries.\<close>

fun askAll :: "config \<Rightarrow> sharing \<Rightarrow> (ptr set \<Rightarrow> ptr list) \<Rightarrow> ccpg \<Rightarrow> (ptr \<times> ptr) list \<Rightarrow> loc_state \<Rightarrow> loc_state option" where
  "askAll cfg shared iter g [] S = Some S"
| "askAll cfg shared iter g ((a, b) # qs) S =
     Option.bind (getParallelLocs cfg shared iter g a b S) (\<lambda>(_, S'). askAll cfg shared iter g qs S')"

text \<open>
  C22. The cache of parallel locations is transparent.  After any sequence of queries for other
  pairs, in whatever order, the query for two threads answers as on the fresh state, and the
  query for the swapped pair gives the same two maps in the other order.
\<close>

theorem parallel_locs_cached:
  assumes "lt_ok cfg shared iter g S" "sharing_sym shared"
  shows "\<exists>r S' S1 S2 S3. getParallelLocs cfg shared iter g t1 t2 S = Some (r, S1) \<and>
    askAll cfg shared iter g qs S = Some S' \<and> getParallelLocs cfg shared iter g t1 t2 S' = Some (r, S2) \<and>
    getParallelLocs cfg shared iter g t2 t1 S' = Some (prod.swap r, S3)"
proof -
  have "\<exists>S'. askAll cfg shared iter g qs S = Some S' \<and> lt_ok cfg shared iter g S' \<and> threadH (lt_tree S') = threadH (lt_tree S)"
    using assms(1)
  proof (induction qs arbitrary: S)
    case (Cons q qs)
    obtain a b where q: "q = (a, b)" by fastforce
    obtain S1 where "getParallelLocs cfg shared iter g a b S = Some (parallelSpec cfg shared iter g (lt_tree S) a b, S1)"
      "lt_ok cfg shared iter g S1" "threadH (lt_tree S1) = threadH (lt_tree S)"
      using getParallelLocs_correct[OF Cons.prems assms(2)] by blast
    with Cons.IH[of S1] q show ?case by auto
  qed simp
  then obtain S' where S': "askAll cfg shared iter g qs S = Some S'" "lt_ok cfg shared iter g S'"
    "threadH (lt_tree S') = threadH (lt_tree S)" by blast
  have wf: "tree_wf (lt_tree S)" using assms(1) by (simp add: lt_ok_def)
  note same = parallelSpec_heap[OF S'(3) wf] and swap = parallelSpec_swap[OF wf assms(2), of cfg iter g t2 t1]
  show ?thesis
    using S'(1) getParallelLocs_correct[OF assms, of t1 t2] getParallelLocs_correct[OF S'(2) assms(2), of t1 t2]
      getParallelLocs_correct[OF S'(2) assms(2), of t2 t1] unfolding same swap by blast
qed

theorem parallel_locs_cached_witness:
  "\<exists>r S' S1 S2. getParallelLocs noConfig None sorted_list_of_set locGraph 2 1 locState = Some (r, S1) \<and>
     askAll noConfig None sorted_list_of_set locGraph [(1, 2), (3, 2)] locState = Some S' \<and>
     getParallelLocs noConfig None sorted_list_of_set locGraph 1 2 S' = Some (prod.swap r, S2)"
  using parallel_locs_cached[OF locState_ok, of sorted_list_of_set 2 1 "[(1, 2), (3, 2)]"] by (simp add: sharing_sym_def) blast

text \<open>The locations a thread may be at while the other one runs.\<close>

definition runsAlongside :: "config \<Rightarrow> sharing \<Rightarrow> ccpg \<Rightarrow> tct \<Rightarrow> ptr \<Rightarrow> ptr \<Rightarrow> loc_map \<Rightarrow> bool" where
  "runsAlongside cfg shared g T t other m \<longleftrightarrow>
     (let siblings = (parent (thr T t) \<noteq> null \<and> parent (thr T t) = parent (thr T other)) in
      if concurrent cfg shared g T t other \<noteq> Some True then m = []
      else if siblings then locsFor g T t (ownNodes T t) m
      else if ancestorOf T t other then locsFor g T t (whileRunning g T t other) m
      else if ancestorOf T other t then locsFor g T t (ownNodes T t) m
      else m = [])"

lemma parallelSpec_alongside:
  assumes "listsSet iter"
  shows "runsAlongside cfg shared g T t other (fst (parallelSpec cfg shared iter g T t other))"
  using ownLocs_exact scopeLocs_exact[OF assms]
  by (auto simp: runsAlongside_def parallelSpec_def pairLocs_def Let_def)

text \<open>The accesses of one kind that a list of instructions makes at a location of a compiled function.\<close>

definition madeBy :: "(ptr \<Rightarrow> bool) \<Rightarrow> bool \<Rightarrow> string \<Rightarrow> node_loc \<Rightarrow> context_stack \<Rightarrow> (ptr \<times> ptr \<times> string) list \<Rightarrow> location_access list" where
  "madeBy P isWrite lf l ctx is =
     [\<lparr>ma_pointer = p, ma_isWrite = isWrite, ma_location = l, ma_context = ctx, ma_instruction = i\<rparr>. (i, p, f) \<leftarrow> is, f = lf \<and> P p]"

lemma instAccesses_madeBy: "filter (\<lambda>a. P (ma_pointer a)) (instAccesses lf w l ctx is) = madeBy P w lf l ctx is"
  by (induction "is") (auto simp: instAccesses_def madeBy_def)

lemma accessKey_iff: "accessKey A p = v \<longleftrightarrow> (if ae_pointsTo A p = [] then p = v else hd (ae_pointsTo A p) = v)"
  by (cases "ae_pointsTo A p") (simp_all add: accessKey_def)

text \<open>A pointer may be a candidate object, and its accesses are kept under \<open>v\<close>.\<close>

definition belongs :: "build_env \<Rightarrow> access_env \<Rightarrow> ptr list \<Rightarrow> ptr \<Rightarrow> ptr \<Rightarrow> bool" where
  "belongs E A cands v p \<longleftrightarrow> (\<exists>c \<in> set cands. isAlias E p c) \<and>
     (if ae_pointsTo A p = [] then p = v else hd (ae_pointsTo A p) = v)"


definition locAccess :: access_env where
  "locAccess = \<lparr>ae_analyzer = True, ae_loads = (\<lambda>_. []), ae_stores = (\<lambda>l. [(30, 40, ''f''), (31, 41, ''g'')]),
     ae_pointsTo = (\<lambda>p. [20]), ae_globals = [(20, False)], ae_params = (\<lambda>_. [])\<rparr>"

lemma locTree_locs:
  assumes "locsFor locGraph locTree 2 (ownNodes locTree 2) m"
  shows "m = [(locLine, [2, null])]"
proof -
  have N: "{n \<in> ownNodes locTree 2. located locGraph n} = {2}"
    by (auto simp: ownNodes_def locTree_def sampleThread_def located_def locGraph_def sampleNode_def emptyLoc_def locLine_def
        split: if_splits)
  have c: "locContext locGraph locTree 2 5 = [2, null]"
    by (simp add: locContext_def locTree_def sampleThread_def findCallPath_def locGraph_def sampleFunc_def)
  have two: "nd_loc (nodeH locGraph 2) = locLine" "nd_function (nodeH locGraph 2) = 5" by (simp_all add: locGraph_def)
  note m = assms[unfolded locsFor_def N]
  have keys: "(locKey \<circ> fst) ` set m = {locKey locLine}" and d: "distinct (map (locKey \<circ> fst) m)"
    using m by (simp_all add: two(1))
  have at: "set m \<subseteq> {(locLine, [2, null])}"
  proof
    fix x assume "x \<in> set m"
    then obtain n where "n \<in> ownNodes locTree 2" "located locGraph n" "fst x = nd_loc (nodeH locGraph n)"
      "snd x = locContext locGraph locTree 2 (nd_function (nodeH locGraph n))" using m by fastforce
    moreover from this(1,2) have "n = 2" using N by blast
    ultimately show "x \<in> {(locLine, [2, null])}" by (simp add: two c prod_eq_iff)
  qed
  from d have "distinct m" by (simp add: distinct_map)
  moreover have "set m = {(locLine, [2, null])}" using keys at by auto
  ultimately show ?thesis by (cases m; cases "tl m") auto
qed


end
