(* ===== verification/RuleProps.thy ===== *)
theory RuleProps
  imports ReportFacts ParallelProps
begin

text \<open>The properties of the temporal rules, the stateful detector and its report.\<close>

text \<open>
  C24. Every temporal rule is decided exactly.  On a tree whose caches are sound, the check of a
  rule returns, keeps the caches sound and reports a violation exactly when the rule holds of the
  nodes nominated for its roles: a check and a later use in one thread and a change in a
  concurrent one; a read and a write in a pair that may run concurrently; two operations that
  are in order in one thread or in concurrent threads, for a null dereference also with accesses
  that may alias; two locks taken in opposite orders.  The violation names the nodes in the order
  of the rule.
\<close>

theorem rules_decided:
  assumes "rulesOk R T"
  shows "\<exists>T'. verifyRule R p r T = Some (violation R p T r, T') \<and> rulesOk R T' \<and> threadH T' = threadH T"
  using verifyRule_exact[OF assms, of p r] unfolding keeps_def by blast

definition raceRule :: rule where
  "raceRule = set_node_for_role ''read_operation'' 2 (set_node_for_role ''write_operation'' 3 (newRule DataRaceRule))"

definition raceEnv :: rule_env where
  "raceEnv = \<lparr>re_config = noConfig, re_sharing = None, re_build = tinyEnv, re_access = locAccess, re_graph = locGraph\<rparr>"

definition racePair :: thread_pair where
  "racePair = \<lparr>tp_thread1 = 2, tp_thread2 = 1, temporal_rules = [raceRule]\<rparr>"

definition raceBug :: stateful_bug where
  "raceBug = bugOf raceRule racePair [(''[READ] Operation'', 2), (''[WRITE - Concurrent] Operation'', 3)]"

lemma raceEnv_ok: "rulesOk raceEnv locTree"
  using locState_ok by (simp add: rulesOk_def raceEnv_def lt_ok_def locState_def sharing_sym_def)

lemma race_violation: "violation raceEnv racePair locTree raceRule = Some raceBug"
proof -
  have n: "roleNode raceEnv raceRule ''read_operation'' = 2" "roleNode raceEnv raceRule ''write_operation'' = 3"
    by (simp_all add: roleNode_def raceEnv_def raceRule_def set_node_for_role_def newRule_def get_node_for_role_def
        getNodeByID_def locGraph_def sampleCcpg_def)
  have "ru_kind raceRule = DataRaceRule" by (simp add: raceRule_def set_node_for_role_def newRule_def)
  moreover have "conc raceEnv locTree 2 1" using locTree_concurrent by (simp add: conc_def raceEnv_def)
  ultimately show ?thesis by (simp add: violation_def raceBug_def n racePair_def)
qed

theorem rules_decided_witness: "\<exists>T'. verifyRule raceEnv racePair raceRule locTree = Some (Some raceBug, T')"
  using rules_decided[OF raceEnv_ok, of racePair raceRule] unfolding race_violation by blast

text \<open>
  C25. Detection reports the confirmed violations of all pairs, in order, and nothing else.  The
  filter of benign publications has no effect: it looks for the lower-case words read and write
  in the roles of a violation, which are written in capitals, so no violation a check produces
  passes its first test.
\<close>

theorem detection_exact:
  assumes "rulesOk R T"
  shows "\<exists>T'. detect R agent ps D T =
     Some (D\<lparr>detectedBugs := detectedBugs D @
       filter (confirmed agent) (concat (map (\<lambda>p. List.map_filter (violation R p T) (temporal_rules p)) ps))\<rparr>, T')"
  using detectPairs_exact[OF assms, of agent ps "detectedBugs D"] by (auto simp: detect_def)

theorem detection_exact_witness:
  "\<exists>T'. detect raceEnv (Some (\<lambda>b. sb_thread1 b = 2)) [racePair, racePair] emptyDetector locTree =
     Some (emptyDetector\<lparr>detectedBugs := [raceBug, raceBug]\<rparr>, T')"
proof -
  have p: "temporal_rules racePair = [raceRule]" "sb_thread1 raceBug = 2"
    by (simp_all add: racePair_def raceBug_def bugOf_def)
  show ?thesis
    using detection_exact[OF raceEnv_ok, of "Some (\<lambda>b. sb_thread1 b = 2)" "[racePair, racePair]" emptyDetector]
    by (simp add: p map_filter_simps race_violation confirmed_def) (simp add: emptyDetector_def)
qed

text \<open>
  C26. The report states every confirmed hypothesis exactly once.  The groups are those of equal
  signature: they number the different signatures, and each consists of exactly the hypotheses
  of its signature.  The primary hypothesis of a group with the alternate angles listed under it
  make up the group, and no other member has a longer description, or an equally long one and a
  smaller id.
\<close>

theorem hypotheses_reported_once:
  fixes D
  defines "xs \<equiv> confirmedHypotheses D" and "gs \<equiv> signatureGroups D"
  defines "sig \<equiv> \<lambda>i. computeSignature (hypothesisCcpg D) (xs ! i)"
  shows "mset (concat (map (\<lambda>(s, ms). pickRepresentative ms xs # alternates ms xs) gs)) = mset [0 ..< length xs] \<and>
    length gs = card (sig ` {0 ..< length xs}) \<and>
    (\<forall>(s, ms) \<in> set gs. set ms = {i. i < length xs \<and> sig i = s} \<and> pickRepresentative ms xs \<in> set ms \<and>
       (\<forall>i \<in> set ms. \<not> moreDetailed (xs ! i) (xs ! pickRepresentative ms xs)))"
proof (intro conjI)
  have sig: "sig = sigAt D" unfolding sig_def xs_def by (simp add: sigAt_def fun_eq_iff)
  have g: "groupsUpTo (sigAt D) [0 ..< length xs] gs" unfolding xs_def gs_def by (rule signatureGroups_exact)
  have "mset (pickRepresentative (snd e) xs # alternates (snd e) xs) = mset (snd e)" if "e \<in> set gs" for e
    using reported_members[of "snd e" xs] signatureGroups_entry[of "fst e" "snd e" D] that by (simp add: gs_def)
  then have "map (\<lambda>e. mset (pickRepresentative (snd e) xs # alternates (snd e) xs)) gs = map (\<lambda>e. mset (snd e)) gs"
    by (rule map_cong[OF refl])
  from arg_cong[OF this, of sum_list]
  have "mset (concat (map (\<lambda>(s, ms). pickRepresentative ms xs # alternates ms xs) gs)) = mset (concat (map snd gs))"
    by (simp add: mset_concat comp_def case_prod_unfold)
  also have "\<dots> = mset [0 ..< length xs]" using g by (simp add: groupsUpTo_def)
  finally show "mset (concat (map (\<lambda>(s, ms). pickRepresentative ms xs # alternates ms xs) gs)) = mset [0 ..< length xs]" .
  have "distinct (map fst gs)" using g by (simp add: groupsUpTo_def)
  from distinct_card[OF this] have "length gs = card (set (map fst gs))" by simp
  then show "length gs = card (sig ` {0 ..< length xs})" unfolding gs_def signatureGroups_keys sig xs_def .
  show "\<forall>(s, ms) \<in> set gs. set ms = {i. i < length xs \<and> sig i = s} \<and> pickRepresentative ms xs \<in> set ms \<and>
       (\<forall>i \<in> set ms. \<not> moreDetailed (xs ! i) (xs ! pickRepresentative ms xs))"
  proof (clarify, intro conjI)
    fix s ms assume "(s, ms) \<in> set gs"
    note e = signatureGroups_entry[OF this[unfolded gs_def]]
    show "set ms = {i. i < length xs \<and> sig i = s}" unfolding e(1) sig xs_def by auto
    show "pickRepresentative ms xs \<in> set ms" "\<forall>i \<in> set ms. \<not> moreDetailed (xs ! i) (xs ! pickRepresentative ms xs)"
      using pickRepresentative_best[OF e(2)] by blast+
  qed
qed

definition twiceReported :: detector where
  "twiceReported = emptyDetector\<lparr>confirmedHypotheses :=
     [emptyHypothesis\<lparr>hy_id := ''a'', hy_nodes := [(''read'', 2)]\<rparr>,
      emptyHypothesis\<lparr>hy_id := ''b'', hy_description := ''torn'', hy_nodes := [(''read'', 2)]\<rparr>]\<rparr>"

theorem hypotheses_reported_once_witness:
  "length (signatureGroups twiceReported) = Suc 0 \<and>
   mset (concat (map (\<lambda>(s, ms). pickRepresentative ms (confirmedHypotheses twiceReported) #
     alternates ms (confirmedHypotheses twiceReported)) (signatureGroups twiceReported))) = mset [0, 1]"
proof -
  let ?sig = "\<lambda>i. computeSignature (hypothesisCcpg twiceReported) (confirmedHypotheses twiceReported ! i)"
  have l: "length (confirmedHypotheses twiceReported) = 2" by (simp add: twiceReported_def)
  have "?sig 0 = ?sig 1" by (simp add: twiceReported_def emptyDetector_def computeSignature_def)
  then have "?sig ` {0 ..< 2} = {?sig 0}" by (auto simp: numeral_2_eq_2 less_Suc_eq)
  moreover have "[0 ..< 2] = [0, 1 :: nat]" by (simp add: numeral_2_eq_2)
  ultimately show ?thesis using hypotheses_reported_once[of twiceReported] unfolding l by simp
qed

text \<open>
  C27. The field signature of a code is the field of its first assignment: of the first place
  where an access operator and a name are followed, after at most one index, by an equals sign
  with at most one operator character before it.  Without one it is the field of the last access,
  and without any access it is empty.  A comparison with two equals signs counts as an assignment.
\<close>

theorem field_signature_exact:
  defines "assignedFrom \<equiv> \<lambda>code i. \<exists>f. assignedAt (drop i code) f" and "refFrom \<equiv> \<lambda>code i. \<exists>f r. fieldRef (drop i code) f r"
  shows "if \<exists>i. assignedFrom code i then assignedAt (drop (LEAST i. assignedFrom code i) code) (extractFieldSignature code)
    else if \<exists>i. refFrom code i then \<exists>r. fieldRef (drop (GREATEST i. refFrom code i) code) (extractFieldSignature code) r
    else extractFieldSignature code = []"
proof (cases "assignedField code")
  case (Some f)
  from assignedField_some[OF Some] obtain i where i: "assignedAt (drop i code) f"
    "\<And>j g. assignedAt (drop j code) g \<Longrightarrow> i \<le> j" by blast
  have "(LEAST i. assignedFrom code i) = i" using i unfolding assignedFrom_def by (intro Least_equality) blast+
  then show ?thesis using i(1) Some by (auto simp: extractFieldSignature_def assignedFrom_def)
next
  case None
  then have no: "\<not> (\<exists>i. assignedFrom code i)" by (simp add: assignedField_none assignedFrom_def)
  have sig: "extractFieldSignature code = lastField [] code" by (simp add: extractFieldSignature_def None)
  from lastField_exact[of code "[]"] consider
    i r where "fieldRef (drop i code) (lastField [] code) r" "\<And>j g q. fieldRef (drop j code) g q \<Longrightarrow> j \<le> i"
    | "lastField [] code = []" "\<And>i g r. \<not> fieldRef (drop i code) g r" by blast
  then show ?thesis
  proof cases
    case 1
    have "(GREATEST i. refFrom code i) = i" using 1 unfolding refFrom_def by (intro Greatest_equality) blast+
    then show ?thesis using 1(1) no unfolding sig by (auto simp: refFrom_def)
  next
    case 2
    then show ?thesis using no unfolding sig refFrom_def by auto
  qed
qed

end
