(* ===== verification/CpgImport.thy ===== *)
theory CpgImport
  imports Cpg
begin

text \<open>
  The generation of the code property graph (src/CPG/CPGGenerator.cpp, include/CPG/Edge.h): the
  configuration macros that the sources refer to and the compile log defines, the manifest that
  decides whether a graph on disk is still valid, the command that runs Joern, and the import of
  the exported DOT graph.  The files, the outcome of a command and the graph that the DOT library
  parsed are arguments; a regular expression is the function that finds its leftmost match.
\<close>

subsection \<open>Configuration macros\<close>

definition isMacroChar :: "char \<Rightarrow> bool" where
  "isMacroChar c = (let n = (of_char c :: nat) in 65 \<le> n \<and> n \<le> 90 \<or> 97 \<le> n \<and> n \<le> 122 \<or> 48 \<le> n \<and> n \<le> 57 \<or> n = 95)"

definition macroAt :: "string \<Rightarrow> (string \<times> string) option" where
  "macroAt s =
     (if startsWith s ''CONFIG_'' \<and> takeWhile isMacroChar (drop 7 s) \<noteq> []
      then Some (''CONFIG_'' @ takeWhile isMacroChar (drop 7 s), dropWhile isMacroChar (drop 7 s)) else None)"

lemma macroAt_shorter: "macroAt s = Some (m, r) \<Longrightarrow> length r < length s"
proof -
  assume "macroAt s = Some (m, r)"
  then have "takeWhile isMacroChar (drop 7 s) \<noteq> []" "r = dropWhile isMacroChar (drop 7 s)"
    by (auto simp: macroAt_def split: if_splits)
  moreover have "length (takeWhile isMacroChar (drop 7 s)) + length (dropWhile isMacroChar (drop 7 s)) \<le> length s"
    by (metis diff_le_self length_append length_drop takeWhile_dropWhile_id)
  ultimately show ?thesis by (metis add_le_same_cancel2 length_0_conv not_less nle_le le_trans le_add2 le_add1 add_leD1 le_zero_eq)
qed

function macroRefs :: "string \<Rightarrow> string list" where
  "macroRefs s = (case macroAt s of
      Some (m, r) \<Rightarrow> m # macroRefs r
    | None \<Rightarrow> (case s of [] \<Rightarrow> [] | _ # t \<Rightarrow> macroRefs t))"
  by pat_completeness auto
termination by (relation "measure length") (auto dest: macroAt_shorter)

declare macroRefs.simps [simp del]

record src_file =
  sf_ext :: string
  sf_rel :: string
  sf_size :: nat
  sf_ticks :: int
  sf_text :: string

definition isCPGSourceFile :: "src_file \<Rightarrow> bool" where
  "isCPGSourceFile f \<longleftrightarrow> sf_ext f \<in> {''.c'', ''.cc'', ''.cpp'', ''.h'', ''.hh'', ''.hpp''}"

definition collectReferencedConfigMacros :: "src_file list \<Rightarrow> string list" where
  "collectReferencedConfigMacros fs = remdups (concat (map (\<lambda>f. macroRefs (sf_text f)) (filter isCPGSourceFile fs)))"

definition isTrimmed :: "char \<Rightarrow> bool" where
  "isTrimmed c \<longleftrightarrow> c \<in> {CHR '' '', CHR 0x09, CHR 0x0D, CHR 0x0A}"

definition trimValue :: "string \<Rightarrow> string" where
  "trimValue s = rev (dropWhile isTrimmed (rev (dropWhile isTrimmed s)))"

definition isHexish :: "char \<Rightarrow> bool" where
  "isHexish c \<longleftrightarrow> isDigit c \<or> c \<in> set ''xXabcdefABCDEF''"

definition normalizeConfigValue :: "string \<Rightarrow> string" where
  "normalizeConfigValue v =
     (let t = trimValue v in if t = [] then ''1'' else if list_all isHexish t then t else ''1'')"

text \<open>A line of the generated configuration header, and the value it gives a macro.\<close>

definition afterSpaces :: "string \<Rightarrow> string option" where
  "afterSpaces s = (if s \<noteq> [] \<and> isSpace (hd s) then Some (dropWhile isSpace s) else None)"

definition defineValue :: "string \<Rightarrow> string option" where
  "defineValue r =
     (if list_all isSpace r then Some []
      else Option.bind (afterSpaces r) (\<lambda>q.
        if list_all isSpace (dropWhile (\<lambda>c. c \<noteq> CHR 0x0D) q) then Some (takeWhile (\<lambda>c. c \<noteq> CHR 0x0D) q) else None))"

definition defineLine :: "string \<Rightarrow> (string \<times> string) option" where
  "defineLine line =
     (case dropWhile isSpace line of
        [] \<Rightarrow> None
      | c # s \<Rightarrow> if c \<noteq> CHR ''#'' then None
          else let d = dropWhile isSpace s in
            if \<not> startsWith d ''define'' then None
            else Option.bind (afterSpaces (drop 6 d)) (\<lambda>q. Option.bind (macroAt q) (\<lambda>(m, r).
              map_option (Pair m) (defineValue r))))"

type_synonym config_defines = "(string \<times> string) list"

definition addDefine :: "string list \<Rightarrow> config_defines \<Rightarrow> string \<times> string \<Rightarrow> config_defines" where
  "addDefine refs out d = (if fst d \<in> set refs then mapSet (fst d) (normalizeConfigValue (snd d)) out else out)"

definition loadAutoconfDefines :: "string list option \<Rightarrow> string list \<Rightarrow> config_defines \<Rightarrow> config_defines" where
  "loadAutoconfDefines autoconf refs out =
     (case autoconf of None \<Rightarrow> out | Some ls \<Rightarrow> foldl (addDefine refs) out (List.map_filter defineLine ls))"

subsection \<open>The compile log\<close>

definition isPlain :: "char \<Rightarrow> bool" where
  "isPlain c \<longleftrightarrow> \<not> isSpace c \<and> c \<noteq> CHR 0x27 \<and> c \<noteq> CHR 0x22"

definition flagValue :: "string \<Rightarrow> string \<times> string" where
  "flagValue r = (case r of
      [] \<Rightarrow> ([], r)
    | c # v \<Rightarrow> if c = CHR ''='' \<and> takeWhile isPlain v \<noteq> [] then (takeWhile isPlain v, dropWhile isPlain v) else ([], r))"

definition flagAt :: "string \<Rightarrow> ((string \<times> string) \<times> string) option" where
  "flagAt s =
     (if \<not> startsWith s ''-D'' then None
      else map_option (\<lambda>(m, r). ((m, fst (flagValue r)), snd (flagValue r))) (macroAt (drop 2 s)))"

lemma flagAt_shorter: "flagAt s = Some (d, r) \<Longrightarrow> length r < length s"
proof -
  assume "flagAt s = Some (d, r)"
  then obtain m q where q: "macroAt (drop 2 s) = Some (m, q)" "r = snd (flagValue q)"
    by (auto simp: flagAt_def split: if_splits)
  have "length (snd (flagValue q)) \<le> length q"
    by (cases q) (auto simp: flagValue_def length_dropWhile_le le_SucI)
  then show ?thesis using macroAt_shorter[OF q(1)] q(2) by simp
qed

function flags :: "string \<Rightarrow> (string \<times> string) list" where
  "flags s = (case flagAt s of
      Some (d, r) \<Rightarrow> d # flags r
    | None \<Rightarrow> (case s of [] \<Rightarrow> [] | _ # t \<Rightarrow> flags t))"
  by pat_completeness auto
termination by (relation "measure length") (auto dest: flagAt_shorter)

declare flags.simps [simp del]

text \<open>The longest beginning of a word that ends in the header's name.\<close>

definition headerName :: "string \<Rightarrow> string option" where
  "headerName w = map_option (\<lambda>k. take k w) (List.find (\<lambda>k. endsWith (take k w) ''autoconf.h'') (rev [0 ..< Suc (length w)]))"

definition includeAt :: "string \<Rightarrow> string option" where
  "includeAt s =
     (if \<not> startsWith s ''-include'' then None
      else Option.bind (afterSpaces (drop 8 s)) (\<lambda>q.
        let u = (if q \<noteq> [] \<and> hd q \<in> {CHR 0x27, CHR 0x22} then tl q else q) in headerName (takeWhile isPlain u)))"

text \<open>An include match has no other one inside, so every place is tried.\<close>

fun headerRefs :: "string \<Rightarrow> string list" where
  "headerRefs [] = []"
| "headerRefs (c # s) = (case includeAt (c # s) of Some p \<Rightarrow> p # headerRefs s | None \<Rightarrow> headerRefs s)"

definition isCompileLog :: "string \<Rightarrow> bool" where
  "isCompileLog name \<longleftrightarrow> contains name ''_compile.log'' \<or> name = ''compile.log''"

text \<open>The regular files beside the sources, by name and text, and the lines of a configuration header.\<close>

definition readLog :: "(string \<Rightarrow> string list option) \<Rightarrow> string list \<Rightarrow> config_defines \<Rightarrow> string \<times> string \<Rightarrow> config_defines" where
  "readLog headers refs out entry =
     (if \<not> isCompileLog (fst entry) then out
      else foldl (\<lambda>o' p. loadAutoconfDefines (headers p) refs o') (foldl (addDefine refs) out (flags (snd entry)))
             (headerRefs (snd entry)))"

definition collectCompileConfigDefines :: "(string \<Rightarrow> string list option) \<Rightarrow> (string \<times> string) list \<Rightarrow> string list \<Rightarrow> config_defines" where
  "collectCompileConfigDefines headers entries refs =
     (if refs = [] then [] else foldl (readLog headers refs) [] entries)"

subsection \<open>The manifest\<close>

definition buildSourceManifest :: "string \<Rightarrow> bool \<Rightarrow> src_file list \<Rightarrow> string" where
  "buildSourceManifest dir exists fs =
     (if \<not> exists then []
      else ''source_dir='' @ dir @ [CHR 0x0A] @
        concat (map (\<lambda>r. r @ [CHR 0x0A])
          (sort (map (\<lambda>f. sf_rel f @ [CHR 0x09] @ to_string (sf_size f) @ [CHR 0x09] @ int_to_string (sf_ticks f))
            (filter isCPGSourceFile fs)))))"

definition renderConfigManifest :: "config_defines \<Rightarrow> string" where
  "renderConfigManifest ds =
     ''config_defines='' @ to_string (length ds) @ [CHR 0x0A] @
     concat (map (\<lambda>r. r @ [CHR 0x0A]) (sort (map (\<lambda>(k, v). k @ ''='' @ v) ds)))"

definition sourceManifest :: "bool \<Rightarrow> string \<Rightarrow> bool \<Rightarrow> src_file list \<Rightarrow> config_defines \<Rightarrow> string" where
  "sourceManifest fuzzy dir exists fs ds =
     (if fuzzy then ''cpg_define_mode=fuzzy'' @ [CHR 0x0A] else []) @ buildSourceManifest dir exists fs @ renderConfigManifest ds"

subsection \<open>The command\<close>

definition kernelDefines :: "string list" where
  "kernelDefines = [
     ''__user'', ''__kernel'', ''__iomem'', ''__rcu'', ''__percpu'', ''__force'', ''__cold'', ''__read_mostly'', ''__ro_after_init'',
     ''__init'', ''__exit'', ''__initdata'', ''__exitdata'', ''__initconst'', ''__net_init'', ''__net_exit'', ''__net_initdata'',
     ''__devinit'', ''__devexit'', ''__devinitdata'', ''__acquires'', ''__releases'', ''__must_hold'',
     ''__maybe_unused'', ''__always_inline'', ''asmlinkage'', ''notrace'', ''noinline'', ''__bitwise'', ''__randomize_layout'',
     ''__aligned'', ''__cacheline_aligned'', ''__cacheline_aligned_in_smp'', ''__packed'', ''__weak'', ''__visible'']"

text \<open>The macros for system calls with up to six arguments, plain and compatible.\<close>

definition syscallParams :: "nat \<Rightarrow> string \<times> string" where
  "syscallParams n =
     (concat (map (\<lambda>i. '',t'' @ to_string i @ '',a'' @ to_string i) [1 ..< Suc n]),
      if n = 0 then ''void''
      else concat (map (\<lambda>i. (if i = 1 then [] else '', '') @ ''t'' @ to_string i @ '' a'' @ to_string i) [1 ..< Suc n]))"

definition kernelFuncMacros :: "string list" where
  "kernelFuncMacros =
     map (\<lambda>n. ''SYSCALL_DEFINE'' @ to_string n @ ''(name'' @ fst (syscallParams n) @ '')=long sys_##name('' @
       snd (syscallParams n) @ '')'') [0 ..< 7] @
     map (\<lambda>n. ''COMPAT_SYSCALL_DEFINE'' @ to_string n @ ''(name'' @ fst (syscallParams n) @ '')=long compat_sys_##name('' @
       snd (syscallParams n) @ '')'') [0 ..< 7]"

definition quote :: string where "quote = [CHR 0x22]"

definition defineArgs :: "bool \<Rightarrow> config_defines \<Rightarrow> string" where
  "defineArgs fuzzy ds =
     (if fuzzy then []
      else concat (map (\<lambda>d. '' --define '' @ d) kernelDefines) @
           concat (map (\<lambda>(k, v). '' --define '' @ k @ ''='' @ v) ds) @
           concat (map (\<lambda>m. '' --define '' @ quote @ m @ quote) kernelFuncMacros))"

definition generateCommand :: "bool \<Rightarrow> string \<Rightarrow> config_defines \<Rightarrow> string" where
  "generateCommand fuzzy dir ds =
     (let args = defineArgs fuzzy ds in
      ''joern-parse -J-Xmx40G '' @ dir @ (if args = [] then [] else '' --frontend-args'' @ args))"

definition drawCommand :: "string \<Rightarrow> string" where
  "drawCommand out = ''joern-export -J-Xmx40G cpg.bin --repr=all --format=dot --out '' @ out"

text \<open>
  The output directory: whether it holds an exported graph, and its manifest.  The iteration
  order of the collected macros is the argument \<open>order\<close>; a failing command ends the program.
\<close>

record cpg_dir =
  cd_export :: bool
  cd_manifest :: "string option"

record cpg_sources =
  cs_dir :: string
  cs_absDir :: string
  cs_exists :: bool
  cs_files :: "src_file list"
  cs_headers :: "string \<Rightarrow> string list option"
  cs_entries :: "(string \<times> string) list"
  cs_fuzzy :: bool

definition sourceDefines :: "cpg_sources \<Rightarrow> config_defines" where
  "sourceDefines S = collectCompileConfigDefines (cs_headers S) (cs_entries S)
     (if cs_exists S then collectReferencedConfigMacros (cs_files S) else [])"

definition currentManifest :: "cpg_sources \<Rightarrow> string" where
  "currentManifest S = sourceManifest (cs_fuzzy S) (cs_absDir S) (cs_exists S) (cs_files S) (sourceDefines S)"

datatype cpg_outcome = Reused | Generated cpg_dir | Exited

definition generateCPG :: "(config_defines \<Rightarrow> config_defines) \<Rightarrow> (string \<Rightarrow> bool) \<Rightarrow> string \<Rightarrow> cpg_sources \<Rightarrow> cpg_dir \<Rightarrow> cpg_outcome" where
  "generateCPG order runs out S D =
     (if cd_export D \<and> cd_manifest D = Some (currentManifest S) then Reused
      else if \<not> runs (generateCommand (cs_fuzzy S) (cs_dir S) (order (sourceDefines S))) then Exited
      else if \<not> runs (drawCommand out) then Exited
      else Generated \<lparr>cd_export = True, cd_manifest = Some (currentManifest S)\<rparr>)"

subsection \<open>The import\<close>

text \<open>
  The parsed graph: its nodes with label and attributes, and the edges that leave a node, each
  with its head and label, in the order the DOT library gives them.
\<close>

record dot_graph =
  dg_nodes :: "(string \<times> string \<times> (string \<Rightarrow> string option)) list"
  dg_out :: "string \<Rightarrow> (string \<times> string) list"

record import =
  im_heap :: cpg_heap
  im_cpg :: cpg
  im_nodeMap :: "string \<Rightarrow> ptr option"
  im_next :: ptr
  im_inCFG :: "ptr \<Rightarrow> ptr list"

definition emptyCpg :: cpg where
  "emptyCpg = \<lparr>outCFGEdges = (\<lambda>_. []), outEdgesOf = (\<lambda>_. []), inEdgesOf = (\<lambda>_. []), argumentEdges = (\<lambda>_. []),
     conditionEdges = (\<lambda>_. []), id2Node = (\<lambda>_. None), mainNodes = [], type2Nodes = (\<lambda>_. None), file2Methods = []\<rparr>"

definition emptyImport :: "cpg_heap \<Rightarrow> import" where
  "emptyImport H = \<lparr>im_heap = H, im_cpg = emptyCpg, im_nodeMap = (\<lambda>_. None), im_next = 1, im_inCFG = (\<lambda>_. [])\<rparr>"

definition importNode :: "import \<Rightarrow> string \<times> string \<times> (string \<Rightarrow> string option) \<Rightarrow> import" where
  "importNode I = (\<lambda>(i, label, props).
     (let p = im_next I; H = (im_heap I)(p := mkNode label props 0) in
      \<lparr>im_heap = H, im_cpg = cpg_addNode H i p (im_cpg I), im_nodeMap = (im_nodeMap I)(i \<mapsto> p), im_next = Suc p,
       im_inCFG = im_inCFG I\<rparr>))"

definition pushAt :: "ptr \<Rightarrow> 'a \<Rightarrow> (ptr \<Rightarrow> 'a list) \<Rightarrow> ptr \<Rightarrow> 'a list" where
  "pushAt p x f = f(p := f p @ [x])"

text \<open>An edge enters the sets of its ends, and by its type those of its source.\<close>

definition importEdge :: "ptr \<Rightarrow> import \<Rightarrow> ptr \<times> string \<Rightarrow> import" where
  "importEdge p I = (\<lambda>(q, label).
     (let ty = capitalise label; C = im_cpg I; H = im_heap I;
          C1 = C\<lparr>outEdgesOf := pushAt p (ty, q) (outEdgesOf C), inEdgesOf := pushAt q (ty, p) (inEdgesOf C)\<rparr> in
      if ty = ''Cfg'' then I\<lparr>im_cpg := C1\<lparr>outCFGEdges := pushAt p q (outCFGEdges C)\<rparr>,
          im_heap := H(p := (H p)\<lparr>cpg_outCFG := Suc (cpg_outCFG (H p))\<rparr>), im_inCFG := pushAt q p (im_inCFG I)\<rparr>
      else if ty = ''Argument'' then I\<lparr>im_cpg := C1\<lparr>argumentEdges := pushAt p q (argumentEdges C)\<rparr>\<rparr>
      else if ty = ''Condition'' then I\<lparr>im_cpg := C1\<lparr>conditionEdges := pushAt p q (conditionEdges C)\<rparr>\<rparr>
      else I\<lparr>im_cpg := C1\<rparr>))"

text \<open>A head that is no node of the graph would be dereferenced as a null pointer.\<close>

definition importOut :: "dot_graph \<Rightarrow> import \<Rightarrow> string \<Rightarrow> import option" where
  "importOut G I i =
     (case im_nodeMap I i of
        None \<Rightarrow> Some I
      | Some p \<Rightarrow>
          if list_all (\<lambda>(h, l). im_nodeMap I h \<noteq> None) (dg_out G i)
          then Some (foldl (importEdge p) I (map (\<lambda>(h, l). (the (im_nodeMap I h), l)) (dg_out G i)))
          else None)"

fun importEdges :: "dot_graph \<Rightarrow> string list \<Rightarrow> import \<Rightarrow> import option" where
  "importEdges G [] I = Some I"
| "importEdges G (i # is) I = Option.bind (importOut G I i) (importEdges G is)"

text \<open>The order in which the map of the nodes is iterated is the argument \<open>visit\<close>.\<close>

definition buildCPGByDot :: "cpg_heap \<Rightarrow> string list \<Rightarrow> dot_graph \<Rightarrow> import option" where
  "buildCPGByDot H visit G = importEdges G visit (foldl importNode (emptyImport H) (dg_nodes G))"

end
