(* ===== verification/SourceRefs.thy ===== *)
theory SourceRefs
  imports AliasMap
begin

text \<open>
  The resolver of source references (src/Query/SourceRefResolver.cpp and its header): the node
  of the graph that a cited file, line, function and piece of code mean best.  The name index of
  the code property graph and the normal form of paths are those of \<open>build_env\<close>.
\<close>

record source_ref =
  sr_file :: string
  sr_line :: int
  sr_symbol :: string
  sr_snippet :: string

text \<open>Runs of blanks become one; the flag says that blanks have been read since the last character.\<close>

fun collapse :: "bool \<Rightarrow> string \<Rightarrow> string \<Rightarrow> string" where
  "collapse inSpace out [] = out"
| "collapse inSpace out (c # s) =
     (if isSpace c then collapse True out s
      else collapse False ((if inSpace \<and> out \<noteq> [] then out @ '' '' else out) @ [c]) s)"

definition normalizeWs :: "string \<Rightarrow> string" where
  "normalizeWs s = collapse False [] s"

definition snippetMatches :: "string \<Rightarrow> string \<Rightarrow> bool" where
  "snippetMatches code snippet =
     (if snippet = [] then False
      else if normalizeWs snippet = [] then False else contains (normalizeWs code) (normalizeWs snippet))"

definition functionsByName :: "build_env \<Rightarrow> ccpg \<Rightarrow> string \<Rightarrow> ptr list" where
  "functionsByName E g symbol =
     (if symbol = [] then []
      else remdups (filter (\<lambda>f. f \<noteq> null) (map (\<lambda>n. nd_function (nodeH g n))
             (List.map_filter (cpgNodeToCCPGNodeMap g)
               (filter (\<lambda>m. m \<noteq> null) (findMethodsByName (cpgH g) (be_cpg E) symbol))))))"

definition candidateNodes :: "build_env \<Rightarrow> ccpg \<Rightarrow> string \<Rightarrow> ptr list" where
  "candidateNodes E g symbol =
     (let fns = functionsByName E g symbol in
      if fns \<noteq> [] then concat (map (\<lambda>f. fn_nodes (funH g f)) fns) else g_nodes g)"

subsection \<open>Scores\<close>

definition citable :: "ccpg \<Rightarrow> ptr \<Rightarrow> bool" where
  "citable g n \<longleftrightarrow> n \<noteq> null \<and> nd_cpg (nodeH g n) \<noteq> null \<and>
     getCode (cpgH g (nd_cpg (nodeH g n))) \<notin> {[], ''<empty>''}"

definition lineDistance :: "ccpg \<Rightarrow> source_ref \<Rightarrow> ptr \<Rightarrow> int" where
  "lineDistance g r n =
     (let l = lineNumber (nd_loc (nodeH g n)) in if 0 \<le> sr_line r \<and> 0 < l then \<bar>l - sr_line r\<bar> else intMax)"

definition refScore :: "build_env \<Rightarrow> ccpg \<Rightarrow> source_ref \<Rightarrow> ptr \<Rightarrow> int" where
  "refScore E g r n =
     (let l = nd_loc (nodeH g n); d = lineDistance g r n in
      (if 0 \<le> sr_line r \<and> 0 < lineNumber l then (if d = 0 then 100 else max 0 (40 - d)) else 0) +
      (if snippetMatches (getCode (cpgH g (nd_cpg (nodeH g n)))) (sr_snippet r) then 60 else 0) +
      (if sr_file r \<noteq> [] \<and> likelySameFile (be_parse E) (be_normal E) (getBaseFileName l) (sr_file r) then 20 else 0))"

text \<open>The best node so far: its id, score and distance.\<close>

definition refStep :: "build_env \<Rightarrow> ccpg \<Rightarrow> source_ref \<Rightarrow> int \<times> int \<times> int \<Rightarrow> ptr \<Rightarrow> int \<times> int \<times> int" where
  "refStep E g r = (\<lambda>(bestId, bestScore, bestDist) n.
     (if \<not> citable g n then (bestId, bestScore, bestDist)
      else let s = refScore E g r n; d = lineDistance g r n; i = int (nd_id (nodeH g n)) in
        if s \<le> 0 then (bestId, bestScore, bestDist)
        else if s > bestScore \<or> s = bestScore \<and> d < bestDist \<or> s = bestScore \<and> d = bestDist \<and> (bestId < 0 \<or> i < bestId)
          then (i, s, d) else (bestId, bestScore, bestDist)))"

definition resolveSourceRef :: "build_env \<Rightarrow> ccpg \<Rightarrow> source_ref \<Rightarrow> int" where
  "resolveSourceRef E g r =
     (if sr_symbol r = [] \<and> sr_line r < 0 \<and> sr_snippet r = [] then -1
      else fst (foldl (refStep E g r) (-1, 0, intMax) (candidateNodes E g (sr_symbol r))))"

subsection \<open>The best node\<close>

text \<open>The order of preference: score, then distance, then the smaller id.\<close>

definition ranksBefore :: "int \<times> int \<times> int \<Rightarrow> int \<times> int \<times> int \<Rightarrow> bool" where
  "ranksBefore = (\<lambda>(i, s, d) (i', s', d'). s > s' \<or> s = s' \<and> (d < d' \<or> d = d' \<and> i \<le> i'))"

definition rating :: "build_env \<Rightarrow> ccpg \<Rightarrow> source_ref \<Rightarrow> ptr \<Rightarrow> int \<times> int \<times> int" where
  "rating E g r n = (int (nd_id (nodeH g n)), refScore E g r n, lineDistance g r n)"

definition eligible :: "build_env \<Rightarrow> ccpg \<Rightarrow> source_ref \<Rightarrow> ptr \<Rightarrow> bool" where
  "eligible E g r n \<longleftrightarrow> citable g n \<and> refScore E g r n > 0"

definition bestSoFar :: "build_env \<Rightarrow> ccpg \<Rightarrow> source_ref \<Rightarrow> ptr set \<Rightarrow> int \<times> int \<times> int \<Rightarrow> bool" where
  "bestSoFar E g r N b \<longleftrightarrow>
     (if \<exists>n \<in> N. eligible E g r n
      then \<exists>n \<in> N. eligible E g r n \<and> b = rating E g r n \<and> (\<forall>m \<in> N. eligible E g r m \<longrightarrow> ranksBefore b (rating E g r m))
      else b = (-1, 0, intMax))"

lemma ranksBefore_trans: "ranksBefore a b \<Longrightarrow> ranksBefore b c \<Longrightarrow> ranksBefore a c"
  by (auto simp: ranksBefore_def split: prod.splits)

lemma ranksBefore_refl: "ranksBefore a a"
  by (auto simp: ranksBefore_def split: prod.splits)

lemma refStep_eligible:
  assumes "eligible E g r n" "eligible E g r m"
  shows "refStep E g r (rating E g r m) n = (if ranksBefore (rating E g r m) (rating E g r n) then rating E g r m else rating E g r n)"
  using assms by (auto simp: refStep_def rating_def eligible_def ranksBefore_def Let_def)

lemma refStep_first: "eligible E g r n \<Longrightarrow> refStep E g r (-1, 0, intMax) n = rating E g r n"
  by (simp add: refStep_def rating_def eligible_def Let_def)

lemma refStep_skip: "\<not> eligible E g r n \<Longrightarrow> refStep E g r b n = b"
  by (cases b) (auto simp: refStep_def eligible_def Let_def)

lemma refStep_best: "bestSoFar E g r N b \<Longrightarrow> bestSoFar E g r (insert n N) (refStep E g r b n)"
proof (cases "eligible E g r n")
  case False
  then show "bestSoFar E g r N b \<Longrightarrow> ?thesis" by (auto simp: bestSoFar_def refStep_skip split: if_splits)
next
  case True
  assume b: "bestSoFar E g r N b"
  show ?thesis
  proof (cases "\<exists>m \<in> N. eligible E g r m")
    case False
    then have "b = (-1, 0, intMax)" using b by (simp add: bestSoFar_def)
    with True False show ?thesis by (auto simp: bestSoFar_def refStep_first ranksBefore_refl)
  next
    case some: True
    then obtain m where m: "m \<in> N" "eligible E g r m" "b = rating E g r m"
      "\<And>k. k \<in> N \<Longrightarrow> eligible E g r k \<Longrightarrow> ranksBefore b (rating E g r k)" using b by (auto simp: bestSoFar_def)
    show ?thesis
    proof (cases "ranksBefore b (rating E g r n)")
      case p: True
      then have "refStep E g r b n = b" using refStep_eligible[OF True m(2)] m(3) by simp
      then show ?thesis using m p True by (auto simp: bestSoFar_def)
    next
      case p: False
      then have s: "refStep E g r b n = rating E g r n" using refStep_eligible[OF True m(2)] m(3) by simp
      have "ranksBefore (rating E g r n) b" using p by (auto simp: ranksBefore_def split: prod.splits)
      then have "ranksBefore (rating E g r n) (rating E g r k)" if "k \<in> N" "eligible E g r k" for k
        using ranksBefore_trans m(4)[OF that] by blast
      then show ?thesis using True by (auto simp: bestSoFar_def s ranksBefore_refl)
    qed
  qed
qed

lemma refScan_best: "bestSoFar E g r (set ns) (foldl (refStep E g r) (-1, 0, intMax) ns)"
proof (induction ns rule: rev_induct)
  case Nil
  then show ?case by (simp add: bestSoFar_def)
next
  case (snoc n ns)
  from refStep_best[OF snoc, of n] show ?case by simp
qed

end
