(* ===== verification/ImportProps.thy ===== *)
theory ImportProps
  imports CpgImport SourceRefs BuildProps
begin

text \<open>
  The import of the code property graph and the macros it is generated with, and the resolver of
  source references: what each gives, and the properties.
\<close>

subsection \<open>The nodes of an import\<close>

definition atNode :: "dot_graph \<Rightarrow> nat \<Rightarrow> string" where
  "atNode G k = fst (dg_nodes G ! k)"

text \<open>The state after the first nodes: the k-th one is at the address k + 1.\<close>

definition nodesUpTo :: "(string \<times> string \<times> (string \<Rightarrow> string option)) list \<Rightarrow> import \<Rightarrow> bool" where
  "nodesUpTo ns I \<longleftrightarrow> im_next I = Suc (length ns) \<and> im_nodeMap I = id2Node (im_cpg I) \<and>
     (\<forall>i. i \<notin> fst ` set ns \<longrightarrow> im_nodeMap I i = None) \<and>
     (\<forall>k < length ns. im_nodeMap I (fst (ns ! k)) = Some (Suc k) \<and>
        im_heap I (Suc k) = mkNode (fst (snd (ns ! k))) (snd (snd (ns ! k))) 0) \<and>
     (\<forall>ty. set (cpg_nodesByType (im_cpg I) ty) = {Suc k |k. k < length ns \<and> capitalise (fst (snd (ns ! k))) = ty}) \<and>
     set (mainNodes (im_cpg I)) = {Suc k |k. k < length ns \<and> capitalise (fst (snd (ns ! k))) = ''Method'' \<and>
        snd (snd (ns ! k)) ''NAME'' = Some ''main''} \<and>
     outEdgesOf (im_cpg I) = (\<lambda>_. []) \<and> inEdgesOf (im_cpg I) = (\<lambda>_. []) \<and> outCFGEdges (im_cpg I) = (\<lambda>_. []) \<and>
     argumentEdges (im_cpg I) = (\<lambda>_. []) \<and> conditionEdges (im_cpg I) = (\<lambda>_. [])"

lemma nth_snoc: "k < Suc (length xs) \<Longrightarrow> (xs @ [x]) ! k = (if k = length xs then x else xs ! k)"
  by (auto simp: nth_append less_Suc_eq)

lemma collect_snoc: "{Suc k |k. k < length (xs @ [x]) \<and> P ((xs @ [x]) ! k)} =
    {Suc k |k. k < length xs \<and> P (xs ! k)} \<union> (if P x then {Suc (length xs)} else {})"
proof -
  have "k < length (xs @ [x]) \<and> P ((xs @ [x]) ! k) \<longleftrightarrow> k < length xs \<and> P (xs ! k) \<or> k = length xs \<and> P x" for k
    by (cases "k = length xs") (auto simp: nth_append)
  from this show ?thesis by (simp only:) auto
qed

lemma main_name: "getName (mkNode l props c) = ''main'' \<longleftrightarrow> props ''NAME'' = Some ''main''"
  by (auto simp: getName_def getProperty_def mkNode_def split: option.splits)

lemma addNode_facts:
  assumes "id2Node C i = None"
  shows "id2Node (cpg_addNode H i p C) = (id2Node C)(i \<mapsto> p)"
    "set (cpg_nodesByType (cpg_addNode H i p C) ty) = set (cpg_nodesByType C ty) \<union> (if getType_cpg (H p) = ty then {p} else {})"
    "set (mainNodes (cpg_addNode H i p C)) = set (mainNodes C) \<union>
       (if getType_cpg (H p) = ''Method'' \<and> getName (H p) = ''main'' then {p} else {})"
    "outEdgesOf (cpg_addNode H i p C) = outEdgesOf C" "inEdgesOf (cpg_addNode H i p C) = inEdgesOf C"
    "outCFGEdges (cpg_addNode H i p C) = outCFGEdges C" "argumentEdges (cpg_addNode H i p C) = argumentEdges C"
    "conditionEdges (cpg_addNode H i p C) = conditionEdges C"
  using assms by (auto simp: cpg_addNode_def Let_def cpg_nodesByType_def split: option.splits)

lemma importNode_step:
  assumes I: "nodesUpTo ns I" and new: "fst n \<notin> fst ` set ns"
  shows "nodesUpTo (ns @ [n]) (importNode I n)"
proof -
  obtain i l props where n: "n = (i, l, props)" by (cases n) auto
  let ?p = "Suc (length ns)" let ?H = "(im_heap I)(?p := mkNode l props 0)"
  have nx: "im_next I = ?p" and mp: "im_nodeMap I = id2Node (im_cpg I)"
    and fresh: "\<And>j. j \<notin> fst ` set ns \<Longrightarrow> im_nodeMap I j = None"
    and at: "\<And>k. k < length ns \<Longrightarrow> im_nodeMap I (fst (ns ! k)) = Some (Suc k)"
    and heap: "\<And>k. k < length ns \<Longrightarrow> im_heap I (Suc k) = mkNode (fst (snd (ns ! k))) (snd (snd (ns ! k))) 0"
    and ty: "\<And>ty. set (cpg_nodesByType (im_cpg I) ty) = {Suc k |k. k < length ns \<and> capitalise (fst (snd (ns ! k))) = ty}"
    and main: "set (mainNodes (im_cpg I)) = {Suc k |k. k < length ns \<and> capitalise (fst (snd (ns ! k))) = ''Method'' \<and>
        snd (snd (ns ! k)) ''NAME'' = Some ''main''}"
    and edges: "outEdgesOf (im_cpg I) = (\<lambda>_. [])" "inEdgesOf (im_cpg I) = (\<lambda>_. [])" "outCFGEdges (im_cpg I) = (\<lambda>_. [])"
      "argumentEdges (im_cpg I) = (\<lambda>_. [])" "conditionEdges (im_cpg I) = (\<lambda>_. [])"
    using I unfolding nodesUpTo_def by blast+
  have none: "id2Node (im_cpg I) i = None" using fresh[of i] new mp by (simp add: n)
  note F = addNode_facts[OF none, of ?H ?p]
  have imp: "importNode I n = \<lparr>im_heap = ?H, im_cpg = cpg_addNode ?H i ?p (im_cpg I),
      im_nodeMap = (im_nodeMap I)(i \<mapsto> ?p), im_next = Suc ?p, im_inCFG = im_inCFG I\<rparr>" by (simp add: importNode_def n nx Let_def)
  note imp' = imp[unfolded n]
  have t: "getType_cpg (mkNode l props 0) = capitalise l" by (simp add: getType_cpg_def mkNode_def)
  have m: "getName (mkNode l props 0) = ''main'' \<longleftrightarrow> props ''NAME'' = Some ''main''" by (simp add: main_name)
  have ids: "fst (ns ! k) \<noteq> i" if "k < length ns" for k using new that by (auto simp: n)
  show ?thesis unfolding nodesUpTo_def
  proof (intro conjI allI impI)
    show "im_next (importNode I n) = Suc (length (ns @ [n]))" by (simp add: imp)
    show "im_nodeMap (importNode I n) = id2Node (im_cpg (importNode I n))" by (simp add: imp imp' F(1) mp)
    show "im_nodeMap (importNode I n) j = None" if "j \<notin> fst ` set (ns @ [n])" for j
      using that fresh[of j] by (simp add: imp imp' n)
    fix k assume k: "k < length (ns @ [n])"
    show "im_nodeMap (importNode I n) (fst ((ns @ [n]) ! k)) = Some (Suc k)"
      using k at[of k] ids[of k] by (auto simp: imp imp' nth_snoc n)
    show "im_heap (importNode I n) (Suc k) = mkNode (fst (snd ((ns @ [n]) ! k))) (snd (snd ((ns @ [n]) ! k))) 0"
      using k heap[of k] by (auto simp: imp imp' nth_snoc n)
  next
    fix t' show "set (cpg_nodesByType (im_cpg (importNode I n)) t') =
        {Suc k |k. k < length (ns @ [n]) \<and> capitalise (fst (snd ((ns @ [n]) ! k))) = t'}"
      using collect_snoc[of ns n "\<lambda>x. capitalise (fst (snd x)) = t'"] by (simp add: imp imp' F(2) ty t n)
  next
    show "set (mainNodes (im_cpg (importNode I n))) = {Suc k |k. k < length (ns @ [n]) \<and>
        capitalise (fst (snd ((ns @ [n]) ! k))) = ''Method'' \<and> snd (snd ((ns @ [n]) ! k)) ''NAME'' = Some ''main''}"
      using collect_snoc[of ns n "\<lambda>x. capitalise (fst (snd x)) = ''Method'' \<and> snd (snd x) ''NAME'' = Some ''main''"]
      by (simp add: imp imp' F(3) main t m n)
  qed (simp_all add: imp imp' F(4-8) edges)
qed

lemma importNodes:
  assumes "distinct (map fst ns)"
  shows "nodesUpTo ns (foldl importNode (emptyImport H) ns)"
  using assms
proof (induction ns rule: rev_induct)
  case Nil
  then show ?case by (auto simp: nodesUpTo_def emptyImport_def emptyCpg_def cpg_nodesByType_def)
next
  case (snoc n ns)
  then show ?case using importNode_step[of ns _ n] by simp
qed

subsection \<open>The edges of an import\<close>

definition typed :: "string \<Rightarrow> (ptr \<times> string) list \<Rightarrow> ptr list" where
  "typed ty qs = map fst (filter (\<lambda>(q, l). capitalise l = ty) qs)"

text \<open>What the edges out of one node add.\<close>

definition addsOut :: "ptr \<Rightarrow> (ptr \<times> string) list \<Rightarrow> import \<Rightarrow> import \<Rightarrow> bool" where
  "addsOut p qs I J \<longleftrightarrow>
     outEdgesOf (im_cpg J) = (outEdgesOf (im_cpg I))(p := outEdgesOf (im_cpg I) p @ map (\<lambda>(q, l). (capitalise l, q)) qs) \<and>
     outCFGEdges (im_cpg J) = (outCFGEdges (im_cpg I))(p := outCFGEdges (im_cpg I) p @ typed ''Cfg'' qs) \<and>
     argumentEdges (im_cpg J) = (argumentEdges (im_cpg I))(p := argumentEdges (im_cpg I) p @ typed ''Argument'' qs) \<and>
     conditionEdges (im_cpg J) = (conditionEdges (im_cpg I))(p := conditionEdges (im_cpg I) p @ typed ''Condition'' qs) \<and>
     (\<forall>q. set (inEdgesOf (im_cpg J) q) = set (inEdgesOf (im_cpg I) q) \<union> {(capitalise l, p) |l. (q, l) \<in> set qs}) \<and>
     im_heap J = (im_heap I)(p := (im_heap I p)\<lparr>cpg_outCFG := cpg_outCFG (im_heap I p) + length (typed ''Cfg'' qs)\<rparr>) \<and>
     id2Node (im_cpg J) = id2Node (im_cpg I) \<and> type2Nodes (im_cpg J) = type2Nodes (im_cpg I) \<and>
     mainNodes (im_cpg J) = mainNodes (im_cpg I) \<and> im_nodeMap J = im_nodeMap I"

lemma importEdge_one: "addsOut p [(q, l)] I (importEdge p I (q, l))"
proof -
  consider "capitalise l = ''Cfg''" | "capitalise l = ''Argument''" | "capitalise l = ''Condition''"
    | "capitalise l \<noteq> ''Cfg''" "capitalise l \<noteq> ''Argument''" "capitalise l \<noteq> ''Condition''" by blast
  then show ?thesis by cases (auto simp: addsOut_def importEdge_def Let_def typed_def pushAt_def)
qed

lemma typed_append: "typed ty (qs @ rs) = typed ty qs @ typed ty rs"
  by (simp add: typed_def)

lemma addsOut_trans:
  assumes "addsOut p qs I J" "addsOut p rs J K"
  shows "addsOut p (qs @ rs) I K"
proof -
  show ?thesis unfolding addsOut_def
  proof (intro conjI allI)
    show "set (inEdgesOf (im_cpg K) q) = set (inEdgesOf (im_cpg I) q) \<union> {(capitalise l, p) |l. (q, l) \<in> set (qs @ rs)}" for q
      using assms by (auto simp: addsOut_def)
  qed (use assms in \<open>simp_all add: addsOut_def typed_append add.assoc\<close>)
qed

lemma importEdge_all: "addsOut p qs I (foldl (importEdge p) I qs)"
proof (induction qs rule: rev_induct)
  case Nil
  then show ?case by (simp add: addsOut_def typed_def)
next
  case (snoc e qs)
  obtain q l where e: "e = (q, l)" by fastforce
  show ?case using addsOut_trans[OF snoc importEdge_one[of p q l]] by (simp add: e)
qed

text \<open>The state after the edges of the nodes \<open>vs\<close>, over the state \<open>I0\<close> with all nodes.\<close>

definition outOf :: "dot_graph \<Rightarrow> import \<Rightarrow> string \<Rightarrow> (ptr \<times> string) list" where
  "outOf G I i = map (\<lambda>(h, l). (the (im_nodeMap I h), l)) (dg_out G i)"

definition edgesUpTo :: "dot_graph \<Rightarrow> import \<Rightarrow> string set \<Rightarrow> import \<Rightarrow> bool" where
  "edgesUpTo G I0 vs I \<longleftrightarrow>
     (\<forall>i \<in> dom (im_nodeMap I0). let p = the (im_nodeMap I0 i); qs = (if i \<in> vs then outOf G I0 i else []) in
        outEdgesOf (im_cpg I) p = map (\<lambda>(q, l). (capitalise l, q)) qs \<and> outCFGEdges (im_cpg I) p = typed ''Cfg'' qs \<and>
        argumentEdges (im_cpg I) p = typed ''Argument'' qs \<and> conditionEdges (im_cpg I) p = typed ''Condition'' qs \<and>
        im_heap I p = (im_heap I0 p)\<lparr>cpg_outCFG := length (typed ''Cfg'' qs)\<rparr>) \<and>
     (\<forall>q. set (inEdgesOf (im_cpg I) q) = {(capitalise l, the (im_nodeMap I0 i)) |i l. i \<in> vs \<and> (q, l) \<in> set (outOf G I0 i)}) \<and>
     id2Node (im_cpg I) = id2Node (im_cpg I0) \<and> type2Nodes (im_cpg I) = type2Nodes (im_cpg I0) \<and>
     mainNodes (im_cpg I) = mainNodes (im_cpg I0) \<and> im_nodeMap I = im_nodeMap I0"

lemma importOut_step:
  assumes inv: "edgesUpTo G I0 vs I" and i: "i \<in> dom (im_nodeMap I0)" "i \<notin> vs"
    and heads: "\<forall>(h, l) \<in> set (dg_out G i). h \<in> dom (im_nodeMap I0)" and inj: "inj_on (im_nodeMap I0) (dom (im_nodeMap I0))"
  shows "\<exists>J. importOut G I i = Some J \<and> edgesUpTo G I0 (insert i vs) J"
proof -
  let ?m = "im_nodeMap I0"
  let ?p = "the (?m i)" let ?qs = "outOf G I0 i" let ?J = "foldl (importEdge ?p) I ?qs"
  have m: "im_nodeMap I = ?m" using inv by (simp add: edgesUpTo_def)
  have a: "addsOut ?p ?qs I ?J" by (rule importEdge_all)
  have "importOut G I i = Some ?J"
    using i(1) heads by (auto simp: importOut_def m outOf_def list_all_iff split: option.splits)
  moreover have "edgesUpTo G I0 (insert i vs) ?J" unfolding edgesUpTo_def
  proof (intro conjI ballI allI)
    fix j assume j: "j \<in> dom ?m"
    let ?r = "the (?m j)"
    have other: "?r \<noteq> ?p" if "j \<noteq> i"
      using that inj i(1) j by (auto simp: inj_on_def dom_def)
    have old: "let qs = (if j \<in> vs then outOf G I0 j else []) in
        outEdgesOf (im_cpg I) ?r = map (\<lambda>(q, l). (capitalise l, q)) qs \<and> outCFGEdges (im_cpg I) ?r = typed ''Cfg'' qs \<and>
        argumentEdges (im_cpg I) ?r = typed ''Argument'' qs \<and> conditionEdges (im_cpg I) ?r = typed ''Condition'' qs \<and>
        im_heap I ?r = (im_heap I0 ?r)\<lparr>cpg_outCFG := length (typed ''Cfg'' qs)\<rparr>"
      using inv j unfolding edgesUpTo_def Let_def by blast
    show "let p = ?r; qs = (if j \<in> insert i vs then outOf G I0 j else []) in
        outEdgesOf (im_cpg ?J) p = map (\<lambda>(q, l). (capitalise l, q)) qs \<and> outCFGEdges (im_cpg ?J) p = typed ''Cfg'' qs \<and>
        argumentEdges (im_cpg ?J) p = typed ''Argument'' qs \<and> conditionEdges (im_cpg ?J) p = typed ''Condition'' qs \<and>
        im_heap ?J p = (im_heap I0 p)\<lparr>cpg_outCFG := length (typed ''Cfg'' qs)\<rparr>"
    proof (cases "j = i")
      case True
      then show ?thesis using old a i(2) unfolding addsOut_def Let_def by (simp add: typed_def)
    next
      case False
      then show ?thesis using old a other[OF False] unfolding addsOut_def Let_def by simp
    qed
  next
    fix q
    have "set (inEdgesOf (im_cpg ?J) q) = set (inEdgesOf (im_cpg I) q) \<union> {(capitalise l, ?p) |l. (q, l) \<in> set ?qs}"
      using a unfolding addsOut_def by blast
    moreover have "set (inEdgesOf (im_cpg I) q) = {(capitalise l, the (?m k)) |k l. k \<in> vs \<and> (q, l) \<in> set (outOf G I0 k)}"
      using inv unfolding edgesUpTo_def by blast
    ultimately show "set (inEdgesOf (im_cpg ?J) q) =
        {(capitalise l, the (?m k)) |k l. k \<in> insert i vs \<and> (q, l) \<in> set (outOf G I0 k)}" by auto
  qed (use a inv in \<open>simp_all add: addsOut_def edgesUpTo_def\<close>)
  ultimately show ?thesis by blast
qed

lemma importEdges_exact:
  assumes "edgesUpTo G I0 vs I" "distinct is" "set is \<subseteq> dom (im_nodeMap I0)" "set is \<inter> vs = {}"
    "inj_on (im_nodeMap I0) (dom (im_nodeMap I0))"
    "\<forall>i \<in> dom (im_nodeMap I0). \<forall>(h, l) \<in> set (dg_out G i). h \<in> dom (im_nodeMap I0)"
  shows "\<exists>J. importEdges G is I = Some J \<and> edgesUpTo G I0 (vs \<union> set is) J"
  using assms(1-4)
proof (induction "is" arbitrary: vs I)
  case Nil
  then show ?case by simp
next
  case (Cons i "is")
  have "i \<in> dom (im_nodeMap I0)" "i \<notin> vs" using Cons.prems by auto
  then obtain J where J: "importOut G I i = Some J" "edgesUpTo G I0 (insert i vs) J"
    using importOut_step[OF Cons.prems(1) _ _ _ assms(5)] assms(6) by blast
  from Cons.IH[OF J(2)] Cons.prems obtain K where "importEdges G is J = Some K" "edgesUpTo G I0 (insert i vs \<union> set is) K" by auto
  with J show ?case by simp
qed

subsection \<open>The whole import\<close>

lemma nodesUpTo_at:
  assumes "nodesUpTo ns I" "k < length ns"
  shows "im_nodeMap I (fst (ns ! k)) = Some (Suc k)" "im_heap I (Suc k) = mkNode (fst (snd (ns ! k))) (snd (snd (ns ! k))) 0"
  using assms unfolding nodesUpTo_def by blast+

lemma nodesUpTo_indexes:
  assumes "nodesUpTo ns I" "k < length ns"
  shows "Suc k \<in> set (cpg_nodesByType (im_cpg I) t) \<longleftrightarrow> capitalise (fst (snd (ns ! k))) = t"
    "Suc k \<in> set (mainNodes (im_cpg I)) \<longleftrightarrow> capitalise (fst (snd (ns ! k))) = ''Method'' \<and> snd (snd (ns ! k)) ''NAME'' = Some ''main''"
  using assms unfolding nodesUpTo_def by simp_all

lemma edgesUpTo_out:
  assumes "edgesUpTo G I0 vs I" "i \<in> dom (im_nodeMap I0)" "i \<in> vs" "the (im_nodeMap I0 i) = p"
  shows "outEdgesOf (im_cpg I) p = map (\<lambda>(q, l). (capitalise l, q)) (outOf G I0 i)"
    "outCFGEdges (im_cpg I) p = typed ''Cfg'' (outOf G I0 i)" "argumentEdges (im_cpg I) p = typed ''Argument'' (outOf G I0 i)"
    "conditionEdges (im_cpg I) p = typed ''Condition'' (outOf G I0 i)"
    "im_heap I p = (im_heap I0 p)\<lparr>cpg_outCFG := length (typed ''Cfg'' (outOf G I0 i))\<rparr>"
proof -
  have "let p = the (im_nodeMap I0 i); qs = (if i \<in> vs then outOf G I0 i else []) in
        outEdgesOf (im_cpg I) p = map (\<lambda>(q, l). (capitalise l, q)) qs \<and> outCFGEdges (im_cpg I) p = typed ''Cfg'' qs \<and>
        argumentEdges (im_cpg I) p = typed ''Argument'' qs \<and> conditionEdges (im_cpg I) p = typed ''Condition'' qs \<and>
        im_heap I p = (im_heap I0 p)\<lparr>cpg_outCFG := length (typed ''Cfg'' qs)\<rparr>"
    using assms(1,2) unfolding edgesUpTo_def by blast
  then show "outEdgesOf (im_cpg I) p = map (\<lambda>(q, l). (capitalise l, q)) (outOf G I0 i)"
    "outCFGEdges (im_cpg I) p = typed ''Cfg'' (outOf G I0 i)" "argumentEdges (im_cpg I) p = typed ''Argument'' (outOf G I0 i)"
    "conditionEdges (im_cpg I) p = typed ''Condition'' (outOf G I0 i)"
    "im_heap I p = (im_heap I0 p)\<lparr>cpg_outCFG := length (typed ''Cfg'' (outOf G I0 i))\<rparr>"
    unfolding Let_def if_P[OF assms(3)] assms(4) by blast+
qed

lemma nodesUpTo_map:
  assumes "nodesUpTo ns I" "distinct (map fst ns)"
  shows "dom (im_nodeMap I) = fst ` set ns" "inj_on (im_nodeMap I) (dom (im_nodeMap I))"
proof -
  note at = nodesUpTo_at(1)[OF assms(1)]
  have "i \<in> dom (im_nodeMap I)" if "i \<in> fst ` set ns" for i
  proof -
    from that obtain k where "k < length ns" "i = fst (ns ! k)" by (auto simp: in_set_conv_nth)
    then show ?thesis using at by blast
  qed
  moreover have "i \<in> fst ` set ns" if "i \<in> dom (im_nodeMap I)" for i using that assms(1) by (auto simp: nodesUpTo_def)
  ultimately show d: "dom (im_nodeMap I) = fst ` set ns" by blast
  show "inj_on (im_nodeMap I) (dom (im_nodeMap I))"
  proof (rule inj_onI)
    fix i j assume i: "i \<in> dom (im_nodeMap I)" "j \<in> dom (im_nodeMap I)" "im_nodeMap I i = im_nodeMap I j"
    from i(1,2) obtain k k' where "k < length ns" "i = fst (ns ! k)" "k' < length ns" "j = fst (ns ! k')"
      unfolding d by (auto simp: in_set_conv_nth)
    with i(3) at[of k] at[of k'] show "i = j" by simp
  qed
qed

lemma edgesUpTo_start:
  assumes n: "nodesUpTo ns I" and d: "distinct (map fst ns)"
  shows "edgesUpTo G I {} I"
proof -
  have "cpg_outCFG (im_heap I (the (im_nodeMap I i))) = 0" if "i \<in> dom (im_nodeMap I)" for i
  proof -
    from that obtain k where "k < length ns" "i = fst (ns ! k)" unfolding nodesUpTo_map(1)[OF assms] by (auto simp: in_set_conv_nth)
    then show ?thesis using nodesUpTo_at[OF n, of k] by (simp add: mkNode_def)
  qed
  then have "\<forall>i \<in> dom (im_nodeMap I). im_heap I (the (im_nodeMap I i)) = (im_heap I (the (im_nodeMap I i)))\<lparr>cpg_outCFG := 0\<rparr>"
    by simp
  then show ?thesis using n by (simp add: edgesUpTo_def nodesUpTo_def typed_def Let_def)
qed

lemma import_runs:
  assumes "distinct (map fst (dg_nodes G))"
    "\<forall>i \<in> fst ` set (dg_nodes G). \<forall>(h, l) \<in> set (dg_out G i). h \<in> fst ` set (dg_nodes G)"
    "distinct visit" "set visit = fst ` set (dg_nodes G)"
  obtains I0 I where "buildCPGByDot H visit G = Some I" "nodesUpTo (dg_nodes G) I0" "edgesUpTo G I0 (set visit) I"
proof -
  let ?I0 = "foldl importNode (emptyImport H) (dg_nodes G)"
  have n: "nodesUpTo (dg_nodes G) ?I0" by (rule importNodes[OF assms(1)])
  note m = nodesUpTo_map[OF n assms(1)]
  have c: "set visit \<subseteq> dom (im_nodeMap ?I0)" "set visit \<inter> {} = {}"
    "\<forall>i \<in> dom (im_nodeMap ?I0). \<forall>(h, l) \<in> set (dg_out G i). h \<in> dom (im_nodeMap ?I0)"
    unfolding m(1) using assms(2,4) by simp_all
  from importEdges_exact[OF edgesUpTo_start[OF n assms(1)] assms(3) c(1,2) m(2) c(3)] obtain I where
    I: "importEdges G visit ?I0 = Some I" "edgesUpTo G ?I0 (set visit) I" by auto
  show ?thesis by (rule that[OF _ n I(2)]) (simp add: buildCPGByDot_def I(1))
qed

lemma typed_map: "typed t (map (\<lambda>(h, l). (f h, l)) hs) = map snd (filter (\<lambda>e. fst e = t) (map (\<lambda>(h, l). (capitalise l, f h)) hs))"
  by (induction hs) (auto simp: typed_def)

lemma import_inEdges:
  assumes e: "edgesUpTo G I0 (set visit) I" and v: "set visit = N" and at: "\<And>j. j \<in> N \<Longrightarrow> im_nodeMap I0 j = Some (at j)"
    and inj: "inj_on at N" and heads: "\<forall>i \<in> N. \<forall>(h, l) \<in> set (dg_out G i). h \<in> N" and i: "i \<in> N"
  shows "(t, q) \<in> set (inEdgesOf (im_cpg I) (at i)) \<longleftrightarrow>
    (\<exists>j l. j \<in> N \<and> (i, l) \<in> set (dg_out G j) \<and> t = capitalise l \<and> q = at j)"
proof -
  have out: "(at i, l) \<in> set (outOf G I0 j) \<longleftrightarrow> (i, l) \<in> set (dg_out G j)" if j: "j \<in> N" for j l
  proof -
    have h: "h \<in> N" if "(h, l') \<in> set (dg_out G j)" for h l' using that j heads by blast
    have "h = i" if "the (im_nodeMap I0 h) = at i" "(h, l') \<in> set (dg_out G j)" for h l'
      using inj_onD[OF inj _ h[OF that(2)] i] at[OF h[OF that(2)]] that(1) by simp
    moreover have "(at i, l) \<in> set (outOf G I0 j) \<longleftrightarrow> (\<exists>h. at i = the (im_nodeMap I0 h) \<and> (h, l) \<in> set (dg_out G j))"
      by (force simp: outOf_def)
    ultimately show ?thesis using at[OF i] by (metis option.sel)
  qed
  have "set (inEdgesOf (im_cpg I) (at i)) = {(capitalise l, the (im_nodeMap I0 j)) |j l. j \<in> N \<and> (at i, l) \<in> set (outOf G I0 j)}"
    using e unfolding edgesUpTo_def v by blast
  then have "(t, q) \<in> set (inEdgesOf (im_cpg I) (at i)) \<longleftrightarrow>
      (\<exists>j l. t = capitalise l \<and> q = the (im_nodeMap I0 j) \<and> j \<in> N \<and> (at i, l) \<in> set (outOf G I0 j))" by simp
  also have "\<dots> \<longleftrightarrow> (\<exists>j l. j \<in> N \<and> (i, l) \<in> set (dg_out G j) \<and> t = capitalise l \<and> q = at j)"
    using out at by (metis option.sel)
  finally show ?thesis .
qed

text \<open>
  C30. The import of an exported graph is exact.  Every node of the parsed graph is found by its
  id, each at its own address, with its label as type and its attributes as properties; it is
  indexed under its type alone, and among the main methods exactly when it is a method named main.
  Its outgoing edges are those of the graph with their types, in the order given, those of type
  Cfg, Argument and Condition also in their own lists, and the edges that enter it are exactly
  those that the graph has to it.
\<close>

theorem import_exact:
  assumes "distinct (map fst (dg_nodes G))"
    "\<forall>i \<in> fst ` set (dg_nodes G). \<forall>(h, l) \<in> set (dg_out G i). h \<in> fst ` set (dg_nodes G)"
    "distinct visit" "set visit = fst ` set (dg_nodes G)"
  shows "\<exists>I. buildCPGByDot H visit G = Some I \<and>
    (let C = im_cpg I; at = findNode C in
     inj_on at (fst ` set (dg_nodes G)) \<and>
     (\<forall>(i, label, props) \<in> set (dg_nodes G).
        let p = at i; es = map (\<lambda>(h, l). (capitalise l, at h)) (dg_out G i); only = (\<lambda>t. map snd (filter (\<lambda>e. fst e = t) es)) in
        cpg_type (im_heap I p) = capitalise label \<and> cpg_properties (im_heap I p) = props \<and>
        outEdgesOf C p = es \<and> outCFGEdges C p = only ''Cfg'' \<and> argumentEdges C p = only ''Argument'' \<and>
        conditionEdges C p = only ''Condition'' \<and> cpg_outCFG (im_heap I p) = length (only ''Cfg'') \<and>
        (\<forall>t q. (t, q) \<in> set (inEdgesOf C p) \<longleftrightarrow>
           (\<exists>j l. j \<in> fst ` set (dg_nodes G) \<and> (i, l) \<in> set (dg_out G j) \<and> t = capitalise l \<and> q = at j)) \<and>
        (\<forall>t. p \<in> set (cpg_nodesByType C t) \<longleftrightarrow> t = capitalise label) \<and>
        (p \<in> set (mainNodes C) \<longleftrightarrow> capitalise label = ''Method'' \<and> props ''NAME'' = Some ''main'')))"
proof -
  let ?ns = "dg_nodes G"
  obtain I0 I where I: "buildCPGByDot H visit G = Some I" and n: "nodesUpTo ?ns I0" and e: "edgesUpTo G I0 (set visit) I"
    by (rule import_runs[OF assms])
  note m = nodesUpTo_map[OF n assms(1)]
  let ?at = "findNode (im_cpg I)"
  have map0: "id2Node (im_cpg I) = im_nodeMap I0" using n e by (simp add: nodesUpTo_def edgesUpTo_def)
  have at: "?at i = the (im_nodeMap I0 i)" if "i \<in> fst ` set ?ns" for i
    using that unfolding m(1)[symmetric] by (auto simp: findNode_def map0)
  have some: "im_nodeMap I0 i = Some (?at i)" if "i \<in> fst ` set ?ns" for i
    using that at[OF that] unfolding m(1)[symmetric] by auto
  have inj: "inj_on ?at (fst ` set ?ns)" using m(2) unfolding m(1) by (auto simp: inj_on_def some)
  have idx: "cpg_nodesByType (im_cpg I) t = cpg_nodesByType (im_cpg I0) t" "mainNodes (im_cpg I) = mainNodes (im_cpg I0)" for t
    using e by (simp_all add: edgesUpTo_def cpg_nodesByType_def)
  have out: "outOf G I0 j = map (\<lambda>(h, l). (?at h, l)) (dg_out G j)" if "j \<in> fst ` set ?ns" for j
    using that assms(2) at by (fastforce simp: outOf_def)
  have "let p = ?at i; es = map (\<lambda>(h, l). (capitalise l, ?at h)) (dg_out G i); only = (\<lambda>t. map snd (filter (\<lambda>e. fst e = t) es)) in
      cpg_type (im_heap I p) = capitalise label \<and> cpg_properties (im_heap I p) = props \<and>
      outEdgesOf (im_cpg I) p = es \<and> outCFGEdges (im_cpg I) p = only ''Cfg'' \<and> argumentEdges (im_cpg I) p = only ''Argument'' \<and>
      conditionEdges (im_cpg I) p = only ''Condition'' \<and> cpg_outCFG (im_heap I p) = length (only ''Cfg'') \<and>
      (\<forall>t q. (t, q) \<in> set (inEdgesOf (im_cpg I) p) \<longleftrightarrow>
         (\<exists>j l. j \<in> fst ` set ?ns \<and> (i, l) \<in> set (dg_out G j) \<and> t = capitalise l \<and> q = ?at j)) \<and>
      (\<forall>t. p \<in> set (cpg_nodesByType (im_cpg I) t) \<longleftrightarrow> t = capitalise label) \<and>
      (p \<in> set (mainNodes (im_cpg I)) \<longleftrightarrow> capitalise label = ''Method'' \<and> props ''NAME'' = Some ''main'')"
    if mem: "(i, label, props) \<in> set ?ns" for i label props
  proof -
    have i: "i \<in> fst ` set ?ns" using mem by force
    obtain k where k: "k < length ?ns" "?ns ! k = (i, label, props)" using mem by (auto simp: in_set_conv_nth)
    have p: "?at i = Suc k" using nodesUpTo_at(1)[OF n k(1)] k(2) some[OF i] by simp
    have heap0: "im_heap I0 (Suc k) = mkNode label props 0" using nodesUpTo_at(2)[OF n k(1)] k(2) by simp
    have "i \<in> dom (im_nodeMap I0)" "i \<in> set visit" using i m(1) assms(4) by simp_all
    note es = edgesUpTo_out[OF e this, of "Suc k", OF at[OF i, unfolded p, symmetric]]
    have ins: "(t, q) \<in> set (inEdgesOf (im_cpg I) (Suc k)) \<longleftrightarrow>
        (\<exists>j l. j \<in> fst ` set ?ns \<and> (i, l) \<in> set (dg_out G j) \<and> t = capitalise l \<and> q = ?at j)" for t q
      using import_inEdges[OF e assms(4) some inj assms(2) i] unfolding p by simp
    have ty: "Suc k \<in> set (cpg_nodesByType (im_cpg I) t) \<longleftrightarrow> t = capitalise label" for t
      using nodesUpTo_indexes(1)[OF n k(1), of t] k(2) unfolding idx by auto
    have mn: "Suc k \<in> set (mainNodes (im_cpg I)) \<longleftrightarrow> capitalise label = ''Method'' \<and> props ''NAME'' = Some ''main''"
      using nodesUpTo_indexes(2)[OF n k(1)] k(2) unfolding idx by simp
    show ?thesis unfolding Let_def p
      using es heap0 ins ty mn by (auto simp: out[OF i] typed_map mkNode_def)
  qed
  then show ?thesis using I inj unfolding Let_def by blast
qed

definition tinyDot :: dot_graph where
  "tinyDot = \<lparr>dg_nodes = [(''7'', ''METHOD'', [''NAME'' \<mapsto> ''main'']), (''9'', ''CALL'', Map.empty)],
     dg_out = (\<lambda>i. if i = ''7'' then [(''9'', ''CFG''), (''9'', ''AST'')] else [])\<rparr>"

theorem import_exact_witness:
  "\<exists>I. buildCPGByDot tinyHeap [''9'', ''7''] tinyDot = Some I \<and>
     outCFGEdges (im_cpg I) (findNode (im_cpg I) ''7'') = [findNode (im_cpg I) ''9''] \<and>
     findNode (im_cpg I) ''7'' \<in> set (mainNodes (im_cpg I))"
proof -
  have c: "capitalise ''CFG'' = ''Cfg''" "capitalise ''AST'' = ''Ast''" "capitalise ''METHOD'' = ''Method''" by code_simp+
  have p: "distinct (map fst (dg_nodes tinyDot))" "distinct [''9'', ''7'']" "set [''9'', ''7''] = fst ` set (dg_nodes tinyDot)"
    "\<forall>i \<in> fst ` set (dg_nodes tinyDot). \<forall>(h, l) \<in> set (dg_out tinyDot i). h \<in> fst ` set (dg_nodes tinyDot)"
    by (auto simp: tinyDot_def)
  have m: "(''7'', ''METHOD'', [''NAME'' \<mapsto> ''main'']) \<in> set (dg_nodes tinyDot)"
    "dg_out tinyDot ''7'' = [(''9'', ''CFG''), (''9'', ''AST'')]" by (simp_all add: tinyDot_def)
  show ?thesis using import_exact[OF p(1,4,2,3), of tinyHeap] unfolding Let_def
  proof (elim exE conjE, goal_cases)
    case (1 I)
    from bspec[OF 1(3) m(1)] m(2) 1(1) show ?case by (intro exI[of _ I]) (simp add: c del: capitalise.simps)
  qed
qed

subsection \<open>Configuration macros\<close>

definition isMacro :: "string \<Rightarrow> bool" where
  "isMacro k \<longleftrightarrow> (\<exists>m. k = ''CONFIG_'' @ m \<and> m \<noteq> [] \<and> (\<forall>c \<in> set m. isMacroChar c))"

lemma macroAt_isMacro: "macroAt s = Some (m, r) \<Longrightarrow> isMacro m"
  unfolding macroAt_def isMacro_def by (auto split: if_splits dest: set_takeWhileD)

lemma macroRefs_isMacro: "m \<in> set (macroRefs s) \<Longrightarrow> isMacro m"
proof (induction "length s" arbitrary: s rule: less_induct)
  case less
  show ?case
  proof (cases "macroAt s")
    case None
    with less.prems obtain c t where "s = c # t" "m \<in> set (macroRefs t)"
      by (subst (asm) macroRefs.simps) (auto split: list.splits)
    then show ?thesis using less.hyps[of t] by simp
  next
    case (Some x)
    obtain k r where x: "x = (k, r)" by fastforce
    then have "m = k \<or> m \<in> set (macroRefs r)" using less.prems Some by (simp add: macroRefs.simps[of s])
    then show ?thesis using less.hyps[of r] macroAt_shorter[of s k r] macroAt_isMacro[of s k r] Some x by auto
  qed
qed

definition plainValue :: "string \<Rightarrow> bool" where
  "plainValue v \<longleftrightarrow> v \<noteq> [] \<and> (\<forall>c \<in> set v. isHexish c)"

lemma normalizeConfigValue_plain: "plainValue (normalizeConfigValue v)"
  by (auto simp: plainValue_def normalizeConfigValue_def Let_def list_all_iff isHexish_def isDigit_def)

lemma mapSet_entries: "set (mapSet k v m) \<subseteq> insert (k, v) (set m)"
  by (induction k v m rule: mapSet.induct) auto

text \<open>A step of the collection, with the names it may define.\<close>

definition collects :: "string set \<Rightarrow> config_defines \<Rightarrow> config_defines \<Rightarrow> bool" where
  "collects names out out' \<longleftrightarrow> fst ` set out' = fst ` set out \<union> names \<and> (\<forall>(k, v) \<in> set out' - set out. plainValue v)"

lemma collects_trans: "collects A a b \<Longrightarrow> collects B b c \<Longrightarrow> collects (A \<union> B) a c"
  by (fastforce simp: collects_def)

lemma collects_fold:
  assumes "\<And>x out. x \<in> set xs \<Longrightarrow> collects (f x) out (step out x)"
  shows "collects (\<Union>x \<in> set xs. f x) out (foldl step out xs)"
  using assms
proof (induction xs arbitrary: out)
  case Nil
  then show ?case by (simp add: collects_def)
next
  case (Cons x xs)
  have "collects (f x) out (step out x)" using Cons.prems by simp
  from collects_trans[OF this Cons.IH[of "step out x"]] Cons.prems show ?case by simp
qed

lemma addDefine_collects: "collects ({fst d} \<inter> set refs) out (addDefine refs out d)"
  using mapSet_keys[of "fst d" "normalizeConfigValue (snd d)" out] mapSet_entries[of "fst d" "normalizeConfigValue (snd d)" out]
    normalizeConfigValue_plain[of "snd d"]
  by (auto simp: collects_def addDefine_def)

lemma addDefines_collects: "collects (fst ` set ds \<inter> set refs) out (foldl (addDefine refs) out ds)"
proof -
  have "collects (\<Union>d \<in> set ds. {fst d} \<inter> set refs) out (foldl (addDefine refs) out ds)"
    by (rule collects_fold) (rule addDefine_collects)
  moreover have "(\<Union>d \<in> set ds. {fst d} \<inter> set refs) = fst ` set ds \<inter> set refs" by auto
  ultimately show ?thesis by simp
qed

definition headerNames :: "(string \<Rightarrow> string list option) \<Rightarrow> string \<Rightarrow> string set" where
  "headerNames headers p = (case headers p of None \<Rightarrow> {} | Some ls \<Rightarrow> fst ` set (List.map_filter defineLine ls))"

definition logNames :: "(string \<Rightarrow> string list option) \<Rightarrow> string \<times> string \<Rightarrow> string set" where
  "logNames headers e = (if isCompileLog (fst e)
     then fst ` set (flags (snd e)) \<union> (\<Union>p \<in> set (headerRefs (snd e)). headerNames headers p) else {})"

lemma autoconf_collects: "collects (headerNames headers p \<inter> set refs) out (loadAutoconfDefines (headers p) refs out)"
  using addDefines_collects by (auto simp: loadAutoconfDefines_def headerNames_def collects_def split: option.split)

lemma readLog_collects: "collects (logNames headers e \<inter> set refs) out (readLog headers refs out e)"
proof (cases "isCompileLog (fst e)")
  case True
  let ?mid = "foldl (addDefine refs) out (flags (snd e))"
  have "collects (\<Union>p \<in> set (headerRefs (snd e)). headerNames headers p \<inter> set refs) ?mid
      (foldl (\<lambda>o' p. loadAutoconfDefines (headers p) refs o') ?mid (headerRefs (snd e)))"
    by (rule collects_fold) (rule autoconf_collects)
  from collects_trans[OF addDefines_collects this] show ?thesis
    using True by (simp add: readLog_def logNames_def Int_Un_distrib2)
qed (simp add: readLog_def logNames_def collects_def)

lemma sourceDefines_names:
  fixes S
  defines "rs \<equiv> if cs_exists S then collectReferencedConfigMacros (cs_files S) else []"
  shows "fst ` set (sourceDefines S) = set rs \<inter> (\<Union>e \<in> set (cs_entries S). logNames (cs_headers S) e)"
    "\<forall>(k, v) \<in> set (sourceDefines S). isMacro k \<and> plainValue v"
proof -
  have c: "collects (\<Union>e \<in> set (cs_entries S). logNames (cs_headers S) e \<inter> set rs) [] (sourceDefines S)"
  proof (cases "rs = []")
    case True
    then show ?thesis unfolding rs_def by (simp add: sourceDefines_def collectCompileConfigDefines_def collects_def)
  next
    case False
    have "sourceDefines S = foldl (readLog (cs_headers S) rs) [] (cs_entries S)"
      using False unfolding sourceDefines_def collectCompileConfigDefines_def rs_def[symmetric] by (rule if_not_P)
    then show ?thesis by (simp only:) (rule collects_fold, rule readLog_collects)
  qed
  then show n: "fst ` set (sourceDefines S) = set rs \<inter> (\<Union>e \<in> set (cs_entries S). logNames (cs_headers S) e)"
    by (auto simp: collects_def)
  have "isMacro k" if "k \<in> set rs" for k
    using that macroRefs_isMacro unfolding rs_def by (auto simp: collectReferencedConfigMacros_def split: if_splits)
  moreover have "k \<in> set rs" if "(k, v) \<in> set (sourceDefines S)" for k v using that n by force
  ultimately show "\<forall>(k, v) \<in> set (sourceDefines S). isMacro k \<and> plainValue v" using c by (auto simp: collects_def)
qed

subsection \<open>The command line\<close>

text \<open>
  The words of a command line: blanks separate them, and between two double quotes a blank is a
  character like any other.  The flag says whether a quote is open, the option holds the word
  begun.
\<close>

definition blank :: char where "blank = CHR '' ''"

fun words :: "bool \<Rightarrow> string option \<Rightarrow> string \<Rightarrow> string list" where
  "words q w [] = (case w of None \<Rightarrow> [] | Some u \<Rightarrow> [u])"
| "words q w (c # s) =
     (let u = (case w of None \<Rightarrow> [] | Some u \<Rightarrow> u) in
      if c = CHR 0x22 then words (\<not> q) (Some u) s
      else if c = blank \<and> \<not> q then (case w of None \<Rightarrow> words q None s | Some u \<Rightarrow> u # words q None s)
      else words q (Some (u @ [c])) s)"

definition commandWords :: "string \<Rightarrow> string list" where
  "commandWords s = words False None s"

definition isWord :: "string \<Rightarrow> bool" where
  "isWord w \<longleftrightarrow> w \<noteq> [] \<and> CHR 0x22 \<notin> set w \<and> blank \<notin> set w"

lemma words_text: "CHR 0x22 \<notin> set t \<Longrightarrow> q \<or> blank \<notin> set t \<Longrightarrow> words q (Some u) (t @ s) = words q (Some (u @ t)) s"
  by (induction t arbitrary: u) auto

lemma words_begin: "isWord t \<Longrightarrow> words False None (t @ s) = words False (Some t) s"
  using words_text[of "tl t" False "[hd t]" s] by (cases t) (auto simp: isWord_def)

lemma words_next: "words False (Some u) (blank # s) = u # words False None s"
  by (simp add: blank_def)

lemma words_quoted: "CHR 0x22 \<notin> set t \<Longrightarrow> words False None (quote @ t @ quote @ s) = words False (Some t) s"
  using words_text[of t True "[]" "quote @ s"] by (simp add: quote_def)

lemma words_define: "words False (Some u) ('' --define '' @ s) = u # ''--define'' # words False None s"
proof -
  have e: "'' --define '' @ s = blank # ''--define'' @ blank # s" by (simp add: blank_def)
  have "isWord ''--define''" by (simp add: isWord_def blank_def)
  then show ?thesis unfolding e words_next words_begin[OF \<open>isWord ''--define''\<close>] by simp
qed

text \<open>Definitions, each after the flag: how they are written and the words that are read.\<close>

definition definedBy :: "string list \<Rightarrow> string list" where
  "definedBy ds = concat (map (\<lambda>d. [''--define'', d]) ds)"

definition readAs :: "string \<Rightarrow> string \<Rightarrow> bool" where
  "readAs t w \<longleftrightarrow> (\<forall>s. words False None (t @ s) = words False (Some w) s)"

lemma words_defines:
  assumes "\<forall>(t, w) \<in> set xs. readAs t w"
  shows "words False (Some u) (concat (map (\<lambda>(t, w). '' --define '' @ t) xs)) = u # definedBy (map snd xs)"
  using assms
proof (induction xs arbitrary: u)
  case Nil
  then show ?case by (simp add: definedBy_def)
next
  case (Cons x xs)
  obtain t w where x: "x = (t, w)" by fastforce
  let ?rest = "concat (map (\<lambda>(t, w). '' --define '' @ t) xs)"
  have "words False (Some u) ('' --define '' @ t @ ?rest) = u # ''--define'' # words False (Some w) ?rest"
    using Cons.prems unfolding words_define x by (simp add: readAs_def)
  moreover have "words False (Some w) ?rest = w # definedBy (map snd xs)" using Cons by simp
  ultimately show ?case unfolding x by (simp add: definedBy_def del: words.simps)
qed

definition written :: "config_defines \<Rightarrow> (string \<times> string) list" where
  "written ds = map (\<lambda>d. (d, d)) kernelDefines @ map (\<lambda>(k, v). (k @ ''='' @ v, k @ ''='' @ v)) ds @
     map (\<lambda>m. (quote @ m @ quote, m)) kernelFuncMacros"

lemma defineArgs_written: "defineArgs False ds = concat (map (\<lambda>(t, w). '' --define '' @ t) (written ds))"
proof -
  define flag where "flag = '' --define ''"
  show ?thesis unfolding defineArgs_def written_def flag_def[symmetric]
    by (simp add: comp_def case_prod_unfold)
qed

lemma config_word:
  assumes "isMacro k" "plainValue v"
  shows "isWord (k @ ''='' @ v)"
proof -
  have c: "\<not> isMacroChar (CHR 0x22)" "\<not> isMacroChar blank" "\<not> isHexish (CHR 0x22)" "\<not> isHexish blank"
    unfolding blank_def by code_simp+
  obtain m where k: "k = ''CONFIG_'' @ m" "\<forall>c \<in> set m. isMacroChar c" using assms(1) by (auto simp: isMacro_def)
  have "CHR 0x22 \<notin> set m" "blank \<notin> set m" "CHR 0x22 \<notin> set v" "blank \<notin> set v"
    using k(2) assms(2) c by (auto simp: plainValue_def)
  then show ?thesis unfolding k(1) by (auto simp: isWord_def blank_def)
qed

lemma written_read:
  assumes "\<forall>(k, v) \<in> set ds. isMacro k \<and> plainValue v"
  shows "\<forall>(t, w) \<in> set (written ds). readAs t w"
proof -
  have k: "list_all isWord kernelDefines" unfolding isWord_def blank_def kernelDefines_def by simp
  have m: "list_all (\<lambda>m. CHR 0x22 \<notin> set m) kernelFuncMacros" by code_simp
  have "readAs w w" if "isWord w" for w using words_begin[OF that] by (simp add: readAs_def)
  moreover have "readAs (quote @ w @ quote) w" if "CHR 0x22 \<notin> set w" for w
    using words_quoted[OF that] by (simp add: readAs_def del: words.simps)
  ultimately show ?thesis
    using k m assms config_word by (fastforce simp: written_def list_all_iff)
qed

lemma command_words:
  assumes "isWord dir" "\<forall>(k, v) \<in> set ds. isMacro k \<and> plainValue v"
  shows "commandWords (generateCommand fuzzy dir ds) = [''joern-parse'', ''-J-Xmx40G'', dir] @
    (if fuzzy then [] else ''--frontend-args'' # definedBy (kernelDefines @ map (\<lambda>(k, v). k @ ''='' @ v) ds @ kernelFuncMacros))"
proof -
  have head: "commandWords (''joern-parse -J-Xmx40G '' @ dir @ s) = ''joern-parse'' # ''-J-Xmx40G'' # words False (Some dir) s" for s
    unfolding words_begin[OF assms(1), symmetric] by (simp add: commandWords_def blank_def)
  have snd: "map snd (written ds) = kernelDefines @ map (\<lambda>(k, v). k @ ''='' @ v) ds @ kernelFuncMacros"
    by (simp add: written_def comp_def case_prod_unfold)
  show ?thesis
  proof (cases fuzzy)
    case True
    then show ?thesis using head[of "[]"] by (simp add: generateCommand_def defineArgs_def)
  next
    case False
    have some: "defineArgs False ds \<noteq> []" by (simp add: defineArgs_def kernelDefines_def)
    have flag: "isWord ''--frontend-args''" by (simp add: isWord_def blank_def)
    have "'' --frontend-args'' @ s = blank # ''--frontend-args'' @ s" for s by (simp add: blank_def)
    then have "words False (Some dir) ('' --frontend-args'' @ defineArgs False ds) =
        dir # words False (Some ''--frontend-args'') (defineArgs False ds)"
      by (simp only: words_next words_begin[OF flag])
    then show ?thesis
      using head False some words_defines[OF written_read[OF assms(2)]]
      unfolding generateCommand_def Let_def defineArgs_written[symmetric] snd by simp
  qed
qed


definition tinySources :: cpg_sources where
  "tinySources = \<lparr>cs_dir = ''src'', cs_absDir = ''/src'', cs_exists = True,
     cs_files = [\<lparr>sf_ext = ''.c'', sf_rel = ''a.c'', sf_size = 9, sf_ticks = 4, sf_text = ''if CONFIG_A'' \<rparr>],
     cs_headers = (\<lambda>_. None), cs_entries = [(''compile.log'', ''-DCONFIG_A=0x2 -DCONFIG_B'')], cs_fuzzy = False\<rparr>"


subsection \<open>Source references\<close>

text \<open>
  C32. A source reference is resolved to the best node.  A reference without function, line and
  code resolves to none.  Otherwise the nodes of the functions of the cited name, or all nodes if
  there are none, are rated by line, code and file.  The answer is the id of a node of positive
  score such that every other one has a lower score, or the same score and a greater distance, or
  the same distance too and no smaller id; it does not depend on the order of the nodes.  There is
  no answer exactly when no candidate has a positive score.
\<close>

theorem source_ref_resolved:
  defines "found \<equiv> \<lambda>E g r. {n \<in> set (candidateNodes E g (sr_symbol r)). eligible E g r n}"
  shows "if sr_symbol r = [] \<and> sr_line r < 0 \<and> sr_snippet r = [] \<or> found E g r = {} then resolveSourceRef E g r = -1
    else \<exists>n \<in> found E g r. resolveSourceRef E g r = int (nd_id (nodeH g n)) \<and>
      (\<forall>m \<in> found E g r. ranksBefore (rating E g r n) (rating E g r m))"
  using refScan_best[of E g r "candidateNodes E g (sr_symbol r)"]
  by (auto simp: resolveSourceRef_def found_def bestSoFar_def rating_def split: if_splits)

definition citedGraph :: ccpg where
  "citedGraph = (emptyGraph tinyHeap)\<lparr>g_nodes := [5],
     nodeH := (\<lambda>_. \<lparr>nd_id = 5, nd_type = DUMMY, nd_cpg = 1, nd_in = [], nd_out = [],
       nd_loc = emptyLoc\<lparr>lineNumber := 7\<rparr>, nd_function = null, nd_order = 0, nd_callSite = False, nd_callInst = None\<rparr>)\<rparr>"

theorem source_ref_resolved_witness:
  "resolveSourceRef tinyEnv citedGraph \<lparr>sr_file = [], sr_line = 9, sr_symbol = [], sr_snippet = []\<rparr> = 5"
proof -
  let ?r = "\<lparr>sr_file = [], sr_line = 9, sr_symbol = [], sr_snippet = []\<rparr>"
  have c: "candidateNodes tinyEnv citedGraph [] = [5]"
    by (simp add: candidateNodes_def functionsByName_def citedGraph_def)
  have e: "eligible tinyEnv citedGraph ?r 5"
    by (simp add: eligible_def citable_def refScore_def lineDistance_def snippetMatches_def citedGraph_def emptyGraph_def
        tinyHeap_def sampleMethod_def getCode_def getProperty_def mkNode_def Let_def)
  have "{n \<in> set (candidateNodes tinyEnv citedGraph (sr_symbol ?r)). eligible tinyEnv citedGraph ?r n} = {5}"
    using c e by auto
  then show ?thesis using source_ref_resolved[of ?r tinyEnv citedGraph] by (simp add: citedGraph_def)
qed

end
