(* ===== verification/Spec2Isabelle.thy ===== *)
theory Spec2Isabelle
  imports L2Props GraphProps PipelineProps FieldProps VerifierProps BuildProps ThreadProps RuleProps ImportProps
begin

text \<open>
  A verification development for Lace, a static detector of concurrency vulnerabilities in C
  and C++ (the files under src/ and include/ of the repository).

  The program.  A code property graph of the sources and the LLVM module of the same program
  are joined into a concurrent code property graph (src/CCPG/CCPG.cpp): nodes that matter for
  concurrency, order edges inside functions, call edges and thread-creation edges.  On it the
  thread-creation tree (src/CCPG/ThreadCreationTree.cpp) keeps the abstract threads and which
  of them may run in parallel, the lockset analysis (src/CCPG/LSAnalysis.cpp) the locks held
  at each node, and the happens-before graph (src/CCPG/HBGraph.cpp) the orders that
  synchronization establishes.  A language model writes, per thread, a contract of the
  guarantees it gives and the requirements it has.  Two checkers compose them: the
  requirement-driven checker (namespace l2 of src/LLMUtil/AgentManager.cpp), and Phase B of the
  same file, which goes over the objects of a vulnerability surface.  Their hypotheses are
  merged, judged by predicates of the hypothesis verifier (src/Query/HypothesisVerifier.cpp)
  and reported by the stateful detector (src/Query/StatefulBugDetector.cpp), which also checks
  temporal rules of thread pairs (src/LLMUtil/Rule.cpp).  Shared objects are identified by field-level keys (src/Query/SharedFieldKey.cpp).

  Conventions.  Pointers are natural numbers with 0 for null; the objects they point to live in
  heaps, functions from pointers held in the state records.  An unordered container is a list
  in the order it is iterated, so a statement holds for every order.  A conversion that may
  throw gives a result of type \<open>result\<close>; an operation that may not return gives an option.
  C++ ints are mathematical integers except where the code overflows (\<open>wrap32\<close> in AliasMap) or
  works on bits.  What LLVM, the pointer analysis, the language model, the file system and the
  environment answer are arguments, gathered in the records \<open>llvm_ir\<close> (FieldKey), \<open>build_env\<close>
  (AliasMap) and \<open>analyses\<close> (Verifier); the environment variables are a map \<open>env\<close>.

  Theories, from the bottom up.
  Prelude, Sublists, GraphSearch and Worklist: strings, lists, the bounded breadth-first search
  and the worklist loops several components share, with their correctness; the locales
  \<open>work_queue\<close> (when a queue-driven loop ends and what it leaves), \<open>cached_query\<close> (BuildFacts, an
  answer computed once), \<open>graph_invariant\<close> (RunFacts, what every construction step keeps) and
  \<open>must_order\<close> (L2Checker) are interpreted on the model's own operations.
  ThreadApi: CPG nodes and their classification by the thread API table (ThreadAPIUtil.cpp,
  Node.h).  ManualEntry: the configured thread entries (ManualEntryConfig.h).
  Cpg: the code property graph and its lookups of methods by name, spelling, call, file and
  compiled function (CPG.h, CPG.cpp, PathUtils.h).
  Ccpg: nodes, edges, locations, contexts and functions of the concurrent graph.
  AliasMap: the compiled function of a method, aliases of locks and thread handles
  (AliasChecker.cpp).  CcpgBuild: children, functions, callees, thread entries and the expansion
  of the entries (CCPG.cpp, ThreadCreationTree.cpp).  BuildFacts, FunctionFacts and RunFacts
  prove that the children are exactly the relevant nodes behind irrelevant code, that a function
  is exactly what its method reaches, and that the expansion keeps the indexes consistent.
  ThreadTree and ThreadFacts: threads, parallelism with its caches, call chains.
  ThreadBuild: the construction of the tree from entries and creation sites, join sites, thread
  relations (ThreadCreationTree.cpp).  ThreadRun: every thread runs the closure of the calls it
  took and the tree is well formed; ReturnFacts: the construction ends; JoinFacts: the matching
  of join sites.  EntryDiscovery: main, listed roots, callback tables and stores, and all phases
  of the construction in order (CCPG.cpp); EntryFacts and ScanFacts: what the discovery finds
  and keeps, up to the composition with the threads.
  ParallelLocs and ParallelFacts: the locations two threads may reach at the same time, their
  cache, and the memory accesses there (ThreadCreationTree.cpp, AliasChecker.cpp).  Rules and
  RuleFacts: the checks of the temporal rules of a pair of threads (Rule.cpp).  Reports and
  ReportFacts: the stateful detector and its report file (StatefulBugDetector.cpp).
  LockSets: locksets and their queries.  HbGraph, HbFacts and HbExact: the happens-before graph,
  its builders and queries, and exactly which edges it has, by kind and both ends.
  Contract: contracts and surface records.  L2Checker and L2Facts: the requirement checker and
  why its evidence is exactly what was stated.  PhaseB and PhaseBFacts: composition over a
  surface.  Dedup: merging of near-duplicate findings.  Budget: cost budgets and sessions.
  FieldKey: field-level keys.  Verifier and VerifierFacts: the predicates of a hypothesis.
  CpgImport: the macros the graph is generated with, its manifest and command, and the import
  of the exported graph (CPGGenerator.cpp, Edge.h).  SourceRefs: the node a cited place in the
  source means (SourceRefResolver.cpp).
  Samples holds closed inputs for witnesses; GraphProps, L2Props, PipelineProps, FieldProps,
  VerifierProps, CpgProps, BuildProps, ThreadProps, ParallelProps, RuleProps and ImportProps
  state the properties.

  Bounds and termination.  The bounded searches take their caps from the code (64 edges for
  happens-before, 8 for the verifier's reachability, 128 values for the escape search).  Loops
  without a cap are \<open>partial_function\<close>s or the \<open>worklist\<close> loop, and are proved to return: the
  lockset fixpoint, the ancestor test on a finite tree, the searches for children and the
  creation of functions on a finite control-flow graph whose line numbers are numbers, the
  marking of fork potential, the expansion of the entries and the construction of the threads.
  The queue of creation sites is served a hundred times, as in the code.

  Not modelled.  Running Joern and the DOT parser (their results are arguments), Phasar and LLVM and
  the wrappers around them (PhasarUtil), the surface generator, which reads LLVM IR throughout,
  the dialogues with the language model with their prompt texts and the HTTP client, DOT and
  console output, logging and statistics.  The kernel sources under dataset/ are inputs of the
  tool, not part of it.
\<close>

end
